(* ===== verification/Prelude.thy ===== *)
theory Prelude
  imports Main "HOL-Library.Word"
begin

text \<open>
  Shared vocabulary of the development: the machine integer types of the C++ sources, floating
  point values as bit patterns, the result type of code that returns a status, throws or fails to
  return, and the generic list and word lemmas the component theories use.
\<close>

section \<open>Machine types\<close>

type_synonym u8 = "8 word"
type_synonym u16 = "16 word"
type_synonym u32 = "32 word"
type_synonym u64 = "64 word"
type_synonym byte = "8 word"

text \<open>
  A float or a double is its IEEE 754 bit pattern, which is what the sources read from files,
  copy between structures and store.
\<close>

type_synonym f32 = "32 word"
type_synonym f64 = "64 word"

text \<open>\<open>std::size_t\<close> is 64 bits wide on the targets; its largest value is \<open>size_max\<close>.\<close>

definition size_max :: nat where
  "size_max = 2 ^ 64 - 1"

section \<open>Lemma collections\<close>

named_theorems layout_simps \<open>unfolding rules of the buffer layout functions\<close>
named_theorems builder_defs \<open>unfolding rules of the metadata builder operations\<close>
named_theorems reader_simps \<open>rules that move a byte reader forward\<close>
named_theorems planner_defs \<open>unfolding rules of the planners\<close>

section \<open>Results\<close>

text \<open>
  Sequential composition of code that may stop early: \<open>Inl\<close> carries the reason, \<open>Inr\<close> the value.
\<close>

definition bind_res :: "'e + 'a \<Rightarrow> ('a \<Rightarrow> 'e + 'b) \<Rightarrow> 'e + 'b" where
  "bind_res m k = (case m of Inl e \<Rightarrow> Inl e | Inr x \<Rightarrow> k x)"

lemma bind_res_Inl [simp]: "bind_res (Inl e) k = Inl e"
  by (simp add: bind_res_def)

lemma bind_res_Inr [simp]: "bind_res (Inr x) k = k x"
  by (simp add: bind_res_def)

lemma bind_res_eq_Inr_iff:
  "bind_res m k = Inr y \<longleftrightarrow> (\<exists>x. m = Inr x \<and> k x = Inr y)"
  by (cases m) auto

lemma bind_res_eq_Inl_iff:
  "bind_res m k = Inl e \<longleftrightarrow> m = Inl e \<or> (\<exists>x. m = Inr x \<and> k x = Inl e)"
  by (cases m) auto

lemma Inl_eq_bind_res_iff:
  "Inl e = bind_res m k \<longleftrightarrow> m = Inl e \<or> (\<exists>x. m = Inr x \<and> k x = Inl e)"
  by (cases m) auto

lemma bind_res_assoc: "bind_res (bind_res m k) h = bind_res m (\<lambda>x. bind_res (k x) h)"
  by (cases m) auto

text \<open>A loop over a list whose body may stop early.\<close>

fun fold_res :: "('a \<Rightarrow> 's \<Rightarrow> 'e + 's) \<Rightarrow> 'a list \<Rightarrow> 's \<Rightarrow> 'e + 's" where
  "fold_res f [] s = Inr s"
| "fold_res f (x # xs) s = bind_res (f x s) (fold_res f xs)"

fun map_res :: "('a \<Rightarrow> 'e + 'b) \<Rightarrow> 'a list \<Rightarrow> 'e + 'b list" where
  "map_res f [] = Inr []"
| "map_res f (x # xs) = bind_res (f x) (\<lambda>y. bind_res (map_res f xs) (\<lambda>ys. Inr (y # ys)))"

lemma fold_res_append:
  "fold_res f (xs @ ys) s = bind_res (fold_res f xs s) (fold_res f ys)"
proof (induction xs arbitrary: s)
  case (Cons x xs)
  then show ?case by (cases "f x s") simp_all
qed simp

lemma fold_res_invariant:
  assumes "fold_res f xs s = Inr t" and "P s"
    and "\<And>x s t. x \<in> set xs \<Longrightarrow> P s \<Longrightarrow> f x s = Inr t \<Longrightarrow> P t"
  shows "P t"
  using assms
proof (induction xs arbitrary: s)
  case Nil
  then show ?case by simp
next
  case (Cons x xs)
  from Cons.prems(1) obtain u where u: "f x s = Inr u" "fold_res f xs u = Inr t"
    by (auto simp: bind_res_eq_Inr_iff)
  from Cons.prems(3) [OF _ Cons.prems(2) u(1)] have "P u" by simp
  with u(2) show ?case
    by (rule Cons.IH) (use Cons.prems(3) in auto)
qed

lemma map_res_Inr_length: "map_res f xs = Inr ys \<Longrightarrow> length ys = length xs"
  by (induction xs arbitrary: ys) (auto simp: bind_res_eq_Inr_iff)

lemma map_res_Inr_nth:
  "map_res f xs = Inr ys \<Longrightarrow> i < length xs \<Longrightarrow> f (xs ! i) = Inr (ys ! i)"
  by (induction xs arbitrary: ys i) (auto simp: bind_res_eq_Inr_iff nth_Cons split: nat.splits)

text \<open>
  The same loop when the state it has reached must be known on the early exit too.
\<close>

fun steps_res :: "('a \<Rightarrow> 's \<Rightarrow> 'e + 's) \<Rightarrow> 'a list \<Rightarrow> 's \<Rightarrow> 'e option \<times> 's" where
  "steps_res f [] s = (None, s)"
| "steps_res f (x # xs) s = (case f x s of Inl e \<Rightarrow> (Some e, s) | Inr t \<Rightarrow> steps_res f xs t)"

lemma steps_res_fold_res:
  "steps_res f xs s = (None, t) \<longleftrightarrow> fold_res f xs s = Inr t"
proof (induction xs arbitrary: s)
  case (Cons x xs)
  then show ?case by (cases "f x s") simp_all
qed simp

lemma steps_res_Inl:
  "fst (steps_res f xs s) = Some e \<longleftrightarrow> fold_res f xs s = Inl e"
proof (induction xs arbitrary: s)
  case (Cons x xs)
  then show ?case by (cases "f x s") simp_all
qed simp

lemma steps_res_Some_split:
  assumes "steps_res f xs s = (Some e, t)"
  shows "\<exists>ys x zs. xs = ys @ x # zs \<and> steps_res f ys s = (None, t) \<and> f x t = Inl e"
  using assms
proof (induction xs arbitrary: s)
  case (Cons x xs)
  show ?case
  proof (cases "f x s")
    case (Inl e')
    with Cons.prems show ?thesis by (intro exI [of _ "[]"]) simp
  next
    case (Inr u)
    with Cons.prems Cons.IH [of u] obtain ys y zs
      where "xs = ys @ y # zs" "steps_res f ys u = (None, t)" "f y t = Inl e" by auto
    with Inr show ?thesis by (intro exI [of _ "x # ys"]) simp
  qed
qed simp

lemma fold_res_Inl_ex:
  "fold_res f xs s = Inl e \<Longrightarrow> \<exists>x \<in> set xs. \<exists>t. f x t = Inl e"
  by (induction xs arbitrary: s) (auto simp: bind_res_eq_Inl_iff)

lemma fold_res_total:
  assumes "\<And>x t. x \<in> set xs \<Longrightarrow> P t \<Longrightarrow> \<exists>u. f x t = Inr u \<and> P u" and "P s"
  shows "\<exists>t. fold_res f xs s = Inr t \<and> P t"
  using assms
proof (induction xs arbitrary: s)
  case (Cons x xs)
  from Cons.prems obtain u where "f x s = Inr u" "P u" by fastforce
  with Cons show ?case by simp
qed simp

section \<open>Decimal numerals\<close>

text \<open>\<open>std::to_string\<close> on an unsigned integer.\<close>

definition digit_char :: "nat \<Rightarrow> char" where
  "digit_char d = char_of (48 + d)"

fun nat_to_string :: "nat \<Rightarrow> string" where
  "nat_to_string n =
     (if n < 10 then [digit_char n] else nat_to_string (n div 10) @ [digit_char (n mod 10)])"

declare nat_to_string.simps [simp del]

lemma of_char_digit: "d < 10 \<Longrightarrow> of_char (digit_char d) = 48 + d"
  by (simp add: digit_char_def)

lemma digit_char_inject: "d < 10 \<Longrightarrow> e < 10 \<Longrightarrow> digit_char d = digit_char e \<longleftrightarrow> d = e"
  by (metis of_char_digit add_left_cancel)

lemma set_nat_to_string: "c \<in> set (nat_to_string n) \<Longrightarrow> of_char c \<in> {48..57::nat}"
proof (induction n rule: nat_to_string.induct)
  case (1 n)
  then show ?case by (subst (asm) nat_to_string.simps) (auto simp: of_char_digit split: if_splits)
qed

lemma nat_to_string_neq_Nil: "nat_to_string n \<noteq> []" by (subst nat_to_string.simps) simp

lemma nat_to_string_inject: "nat_to_string m = nat_to_string n \<longleftrightarrow> m = n"
proof (induction m arbitrary: n rule: nat_to_string.induct)
  case (1 m)
  show ?case
  proof (cases "m < 10 \<or> n < 10")
    case True
    then show ?thesis
      by (subst (1 2) nat_to_string.simps)
         (auto simp: digit_char_inject nat_to_string_neq_Nil append_eq_Cons_conv Cons_eq_append_conv)
  next
    case False
    then have "nat_to_string m = nat_to_string n \<longleftrightarrow> nat_to_string (m div 10) = nat_to_string (n div 10) \<and> m mod 10 = n mod 10"
      by (subst (1 2) nat_to_string.simps) (simp add: digit_char_inject)
    also have "\<dots> \<longleftrightarrow> m div 10 = n div 10 \<and> m mod 10 = n mod 10" using 1 False by simp
    also have "\<dots> \<longleftrightarrow> m = n" by (metis div_mult_mod_eq)
    finally show ?thesis .
  qed
qed

section \<open>Lists\<close>

lemma sum_list_pos_nat: "i < length (xs :: nat list) \<Longrightarrow> xs ! i \<le> sum_list xs"
  by (simp add: member_le_sum_list)

section \<open>Words\<close>

lemma unat_ucast_up:
  assumes "LENGTH('a::len) \<le> LENGTH('b::len)"
  shows "unat (ucast (w :: 'a word) :: 'b word) = unat w"
proof -
  have "unat w < 2 ^ LENGTH('a)" by (rule unsigned_less)
  also have "(2::nat) ^ LENGTH('a) \<le> 2 ^ LENGTH('b)" using assms by simp
  finally show ?thesis by (simp add: unsigned_ucast_eq take_bit_nat_eq_self)
qed

lemma unat_ucast_64 [simp]:
  "unat (ucast (w :: u32) :: u64) = unat w" "unat (ucast (h :: u16) :: u64) = unat h"
  "unat (ucast (b :: u8) :: u64) = unat b" "unat (ucast (h :: u16) :: u32) = unat h"
  "unat (ucast (b :: u8) :: u32) = unat b" "unat (ucast (b :: u8) :: u16) = unat b"
  by (rule unat_ucast_up; simp)+

lemma prod_list_word:
  "unat (fold (\<lambda>x t. t * x) xs (t :: 'a::len word))
     = (unat t * prod_list (map unat xs)) mod 2 ^ LENGTH('a)"
proof (induction xs arbitrary: t)
  case Nil
  then show ?case by (simp add: unsigned_less)
next
  case (Cons x xs)
  have "unat (fold (\<lambda>x t. t * x) xs (t * x))
      = (unat (t * x) * prod_list (map unat xs)) mod 2 ^ LENGTH('a)"
    by (rule Cons.IH)
  also have "\<dots> = (unat t * unat x * prod_list (map unat xs)) mod 2 ^ LENGTH('a)"
    by (simp add: unat_word_ariths mod_mult_left_eq)
  finally show ?case by (simp add: mult.assoc)
qed

lemma sum_list_word:
  "unat (fold (\<lambda>x t. t + x) xs (t :: 'a::len word))
     = (unat t + sum_list (map unat xs)) mod 2 ^ LENGTH('a)"
proof (induction xs arbitrary: t)
  case Nil
  then show ?case by (simp add: unsigned_less)
next
  case (Cons x xs)
  have "unat (fold (\<lambda>x t. t + x) xs (t + x))
      = (unat (t + x) + sum_list (map unat xs)) mod 2 ^ LENGTH('a)"
    by (rule Cons.IH)
  also have "\<dots> = (unat t + unat x + sum_list (map unat xs)) mod 2 ^ LENGTH('a)"
    by (simp add: unat_word_ariths mod_add_left_eq)
  finally show ?case by (simp add: add.assoc)
qed

end
