(* ===== verification/Core_Types.thy ===== *)
theory Core_Types
  imports Prelude
begin

text \<open>
  The value types of \<open>include/cpipe/core\<close>: status codes, pixel formats, buffer layouts and buffer
  usage flags, with the size computation of \<open>BufferLayout::size_bytes\<close>.
\<close>

unbundle bit_operations_syntax

section \<open>Status codes\<close>

datatype status_code =
    Ok | Failed | ReplyDefault | Oom | BadPrecision | BadIndex | NeedParam
  | InternalError | Unsupported | NeedMetadata | NotImplemented

fun status_value :: "status_code \<Rightarrow> nat" where
  "status_value Ok = 0"
| "status_value Failed = 1"
| "status_value ReplyDefault = 2"
| "status_value Oom = 3"
| "status_value BadPrecision = 4"
| "status_value BadIndex = 5"
| "status_value NeedParam = 6"
| "status_value InternalError = 7"
| "status_value Unsupported = 8"
| "status_value NeedMetadata = 9"
| "status_value NotImplemented = 100"

definition is_ok :: "status_code \<Rightarrow> bool" where
  "is_ok code \<longleftrightarrow> code = Ok"

fun status_to_string :: "status_code \<Rightarrow> string" where
  "status_to_string Ok = ''CPIPE_OK''"
| "status_to_string Failed = ''CPIPE_FAILED''"
| "status_to_string ReplyDefault = ''CPIPE_REPLY_DEFAULT''"
| "status_to_string Oom = ''CPIPE_OOM''"
| "status_to_string BadPrecision = ''CPIPE_BAD_PRECISION''"
| "status_to_string BadIndex = ''CPIPE_BAD_INDEX''"
| "status_to_string NeedParam = ''CPIPE_NEED_PARAM''"
| "status_to_string InternalError = ''CPIPE_INTERNAL_ERROR''"
| "status_to_string Unsupported = ''CPIPE_UNSUPPORTED''"
| "status_to_string NeedMetadata = ''CPIPE_NEED_METADATA''"
| "status_to_string NotImplemented = ''CPIPE_NOT_IMPLEMENTED''"

section \<open>Pixel formats\<close>

datatype pixel_format =
    UNDEFINED | R16_UINT | R10_PACKED | R8G8B8A8_UNORM | R8G8B8_UNORM | R10G10B10A2_UNORM
  | R16G16B16A16_SFLOAT | R16G16B16_SFLOAT | R32G32B32A32_SFLOAT | R32G32B32_SFLOAT
  | R32_SFLOAT | F16 | F32 | I8 | U8 | BLOB | R16G16B16A16_UNORM

fun pixel_format_value :: "pixel_format \<Rightarrow> nat" where
  "pixel_format_value UNDEFINED = 0"
| "pixel_format_value R16_UINT = 1"
| "pixel_format_value R10_PACKED = 2"
| "pixel_format_value R8G8B8A8_UNORM = 3"
| "pixel_format_value R8G8B8_UNORM = 4"
| "pixel_format_value R10G10B10A2_UNORM = 5"
| "pixel_format_value R16G16B16A16_SFLOAT = 6"
| "pixel_format_value R16G16B16_SFLOAT = 7"
| "pixel_format_value R32G32B32A32_SFLOAT = 8"
| "pixel_format_value R32G32B32_SFLOAT = 9"
| "pixel_format_value R32_SFLOAT = 10"
| "pixel_format_value F16 = 11"
| "pixel_format_value F32 = 12"
| "pixel_format_value I8 = 13"
| "pixel_format_value U8 = 14"
| "pixel_format_value BLOB = 15"
| "pixel_format_value R16G16B16A16_UNORM = 16"

fun bytes_per_pixel :: "pixel_format \<Rightarrow> u64" where
  "bytes_per_pixel R16_UINT = 2"
| "bytes_per_pixel R10_PACKED = 0"
| "bytes_per_pixel R8G8B8A8_UNORM = 4"
| "bytes_per_pixel R8G8B8_UNORM = 3"
| "bytes_per_pixel R10G10B10A2_UNORM = 4"
| "bytes_per_pixel R16G16B16A16_SFLOAT = 8"
| "bytes_per_pixel R16G16B16A16_UNORM = 8"
| "bytes_per_pixel R16G16B16_SFLOAT = 6"
| "bytes_per_pixel R32G32B32A32_SFLOAT = 16"
| "bytes_per_pixel R32G32B32_SFLOAT = 12"
| "bytes_per_pixel R32_SFLOAT = 4"
| "bytes_per_pixel F32 = 4"
| "bytes_per_pixel F16 = 2"
| "bytes_per_pixel I8 = 1"
| "bytes_per_pixel U8 = 1"
| "bytes_per_pixel BLOB = 1"
| "bytes_per_pixel UNDEFINED = 0"

definition channel_count :: "pixel_format \<Rightarrow> u64" where
  "channel_count format =
     (case format of
        R8G8B8A8_UNORM \<Rightarrow> 4
      | R10G10B10A2_UNORM \<Rightarrow> 4
      | R16G16B16A16_SFLOAT \<Rightarrow> 4
      | R16G16B16A16_UNORM \<Rightarrow> 4
      | R32G32B32A32_SFLOAT \<Rightarrow> 4
      | R8G8B8_UNORM \<Rightarrow> 3
      | R16G16B16_SFLOAT \<Rightarrow> 3
      | R32G32B32_SFLOAT \<Rightarrow> 3
      | UNDEFINED \<Rightarrow> 0
      | _ \<Rightarrow> 1)"

definition bytes_per_channel :: "pixel_format \<Rightarrow> u64" where
  "bytes_per_channel format =
     (let channels = channel_count format
      in if channels = 0 then 0 else bytes_per_pixel format div channels)"

fun pixel_format_to_string :: "pixel_format \<Rightarrow> string" where
  "pixel_format_to_string UNDEFINED = ''UNDEFINED''"
| "pixel_format_to_string R16_UINT = ''R16_UINT''"
| "pixel_format_to_string R10_PACKED = ''R10_PACKED''"
| "pixel_format_to_string R8G8B8A8_UNORM = ''R8G8B8A8_UNORM''"
| "pixel_format_to_string R8G8B8_UNORM = ''R8G8B8_UNORM''"
| "pixel_format_to_string R10G10B10A2_UNORM = ''R10G10B10A2_UNORM''"
| "pixel_format_to_string R16G16B16A16_SFLOAT = ''R16G16B16A16_SFLOAT''"
| "pixel_format_to_string R16G16B16_SFLOAT = ''R16G16B16_SFLOAT''"
| "pixel_format_to_string R32G32B32A32_SFLOAT = ''R32G32B32A32_SFLOAT''"
| "pixel_format_to_string R32G32B32_SFLOAT = ''R32G32B32_SFLOAT''"
| "pixel_format_to_string R32_SFLOAT = ''R32_SFLOAT''"
| "pixel_format_to_string F16 = ''F16''"
| "pixel_format_to_string F32 = ''F32''"
| "pixel_format_to_string I8 = ''I8''"
| "pixel_format_to_string U8 = ''U8''"
| "pixel_format_to_string BLOB = ''BLOB''"
| "pixel_format_to_string R16G16B16A16_UNORM = ''R16G16B16A16_UNORM''"

section \<open>Buffer layouts\<close>

datatype buffer_kind = Image2D | Volume3D | TensorND | Blob

text \<open>
  \<open>dims\<close> and \<open>stride\<close> are the fixed arrays \<open>dims[8]\<close> and \<open>stride[8]\<close>; \<open>layout_wf\<close> states their
  lengths, which the C++ types guarantee.
\<close>

record buffer_layout =
  kind :: buffer_kind
  format :: pixel_format
  ndim :: u8
  dims :: "u32 list"
  stride :: "u64 list"

definition default_layout :: buffer_layout where
  "default_layout = \<lparr>kind = Image2D, format = UNDEFINED, ndim = 0,
     dims = replicate 8 0, stride = replicate 8 0\<rparr>"

definition layout_wf :: "buffer_layout \<Rightarrow> bool" where
  "layout_wf l \<longleftrightarrow> length (dims l) = 8 \<and> length (stride l) = 8"

definition size_bytes :: "buffer_layout \<Rightarrow> u64" where
  "size_bytes l =
     (if kind l = Blob then ucast (dims l ! 0)
      else if ndim l = 0 \<or> 8 < ndim l then 0
      else let element_bytes = bytes_per_pixel (format l); last_dim = unat (ndim l) - 1
           in if element_bytes = 0 then 0
              else if stride l ! last_dim \<noteq> 0
                then stride l ! last_dim * ucast (dims l ! last_dim)
              else fold (\<lambda>i total. total * ucast (dims l ! i)) [0..<unat (ndim l)] element_bytes)"

section \<open>Buffer usage flags\<close>

text \<open>\<open>BufferUsage\<close> is a bit set over \<open>std::uint32_t\<close>.\<close>

type_synonym buffer_usage = u32

definition usage_None :: buffer_usage where "usage_None = 0"
definition usage_Input :: buffer_usage where "usage_Input = 1"
definition usage_Output :: buffer_usage where "usage_Output = 2"
definition usage_Intermediate :: buffer_usage where "usage_Intermediate = 4"
definition usage_Scratch :: buffer_usage where "usage_Scratch = 8"
definition usage_CpuRead :: buffer_usage where "usage_CpuRead = 16"
definition usage_CpuWrite :: buffer_usage where "usage_CpuWrite = 32"
definition usage_GpuSampled :: buffer_usage where "usage_GpuSampled = 64"
definition usage_GpuStorage :: buffer_usage where "usage_GpuStorage = 128"
definition usage_NpuInput :: buffer_usage where "usage_NpuInput = 256"
definition usage_NpuOutput :: buffer_usage where "usage_NpuOutput = 512"

definition usage_or :: "buffer_usage \<Rightarrow> buffer_usage \<Rightarrow> buffer_usage" where
  "usage_or lhs rhs = lhs OR rhs"

definition usage_and :: "buffer_usage \<Rightarrow> buffer_usage \<Rightarrow> buffer_usage" where
  "usage_and lhs rhs = lhs AND rhs"

definition has_usage :: "buffer_usage \<Rightarrow> buffer_usage \<Rightarrow> bool" where
  "has_usage usage flag \<longleftrightarrow> usage_and usage flag \<noteq> 0"

lemmas usage_flag_defs = usage_None_def usage_Input_def usage_Output_def usage_Intermediate_def
  usage_Scratch_def usage_CpuRead_def usage_CpuWrite_def usage_GpuSampled_def
  usage_GpuStorage_def usage_NpuInput_def usage_NpuOutput_def

section \<open>Lemmas\<close>

lemma status_value_inject [simp]: "status_value a = status_value b \<longleftrightarrow> a = b"
  by (cases a; cases b) simp_all

lemma channel_count_values: "channel_count f \<in> {0, 1, 3, 4}"
  by (cases f) (simp_all add: channel_count_def)

lemma has_usage_or: "has_usage (usage_or a b) f \<longleftrightarrow> has_usage a f \<or> has_usage b f"
proof -
  have "(a OR b) AND f = 0 \<longleftrightarrow> a AND f = 0 \<and> b AND f = 0"
    by (simp add: bit_eq_iff bit_simps) blast
  then show ?thesis by (simp add: has_usage_def usage_or_def usage_and_def)
qed

lemma layout_wf_nth_dims:
  assumes "layout_wf l" and "ndim l \<noteq> 0" and "ndim l \<le> 8"
  shows "unat (ndim l) - 1 < length (dims l)" and "unat (ndim l) - 1 < length (stride l)"
proof -
  have "unat (ndim l) \<le> 8" using assms(3) by (simp add: word_le_nat_alt)
  moreover have "0 < unat (ndim l)" using assms(2) by (simp add: unat_gt_0)
  ultimately show "unat (ndim l) - 1 < length (dims l)" "unat (ndim l) - 1 < length (stride l)"
    using assms(1) by (auto simp: layout_wf_def)
qed

lemma fold_dims_eq:
  "fold (\<lambda>i (total :: u64). total * ucast (ds ! i)) xs t
     = fold (\<lambda>x total. total * x) (map (\<lambda>i. ucast (ds ! i)) xs) t"
  by (simp add: fold_map comp_def)

text \<open>The size of a packed layout is the product of its dimensions, modulo \<open>2 ^ 64\<close>.\<close>

lemma size_bytes_packed [layout_simps]:
  assumes "kind l \<noteq> Blob" and "ndim l \<noteq> 0" and "ndim l \<le> 8"
    and "stride l ! (unat (ndim l) - 1) = 0" and "layout_wf l"
  shows "unat (size_bytes l) = (unat (bytes_per_pixel (format l)) *
           prod_list (map unat (take (unat (ndim l)) (dims l)))) mod 2 ^ 64"
proof -
  have n: "unat (ndim l) \<le> length (dims l)"
    using assms(3,5) by (simp add: layout_wf_def word_le_nat_alt)
  have m: "map (\<lambda>i. unat (dims l ! i)) [0..<unat (ndim l)]
      = map unat (take (unat (ndim l)) (dims l))"
    using n by (intro nth_equalityI) simp_all
  show ?thesis
  proof (cases "bytes_per_pixel (format l) = 0")
    case True
    with assms show ?thesis by (simp add: size_bytes_def not_less)
  next
    case False
    then have "size_bytes l = fold (\<lambda>x total. total * x)
        (map (\<lambda>i. ucast (dims l ! i)) [0..<unat (ndim l)]) (bytes_per_pixel (format l))"
      using assms(1-4) by (auto simp: size_bytes_def Let_def fold_dims_eq)
    then show ?thesis
      by (simp add: prod_list_word comp_def m)
  qed
qed

end
