(* ===== verification/Plugin.thy ===== *)
theory Plugin
  imports Complex_Main Core_Types
begin

text \<open>
  Plugin descriptors (\<open>cpipe_plugin_desc_t\<close> of \<open>include/cpipe/sdk/cpipe_node.h\<close>), the registry of
  builtin nodes (\<open>src/cpipe/runtime/Registry.cpp\<close>) and the JSON library the runtime reads manifests
  and pipeline documents with.

  The JSON library is third-party code, so it is a parameter: a record of the accessors the runtime
  calls, over an arbitrary document type. An accessor that may throw returns an option, and \<open>None\<close>
  is the exception. No law is assumed of these accessors.
\<close>

section \<open>How a call ends early\<close>

text \<open>
  A runtime function returns a status with a message, lets an exception of a library escape, or does
  not return.
\<close>

datatype stop = Returned status_code string | Thrown | Diverges

definition or_throw :: "'a option \<Rightarrow> stop + 'a" where
  "or_throw v = (case v of None \<Rightarrow> Inl Thrown | Some x \<Rightarrow> Inr x)"

definition or_diverge :: "'a option \<Rightarrow> stop + 'a" where
  "or_diverge v = (case v of None \<Rightarrow> Inl Diverges | Some x \<Rightarrow> Inr x)"

lemma or_throw_simps [simp]: "or_throw None = Inl Thrown" "or_throw (Some x) = Inr x"
  by (simp_all add: or_throw_def)

lemma or_throw_eq_Inr [simp]: "or_throw v = Inr x \<longleftrightarrow> v = Some x"
  by (cases v) simp_all

lemma or_throw_eq_Inl: "or_throw v = Inl e \<longleftrightarrow> v = None \<and> e = Thrown"
  by (cases v) auto

lemma or_diverge_simps [simp]: "or_diverge None = Inl Diverges" "or_diverge (Some x) = Inr x"
  by (simp_all add: or_diverge_def)

lemma or_diverge_eq_Inr [simp]: "or_diverge v = Inr x \<longleftrightarrow> v = Some x"
  by (cases v) simp_all

section \<open>The JSON accessors\<close>

record 'j json_api =
  js_parse :: "string \<Rightarrow> 'j option"
  js_object :: "'j"
  js_array :: "'j"
  js_elements :: "'j \<Rightarrow> 'j list"
  js_items :: "'j \<Rightarrow> (string \<times> 'j) list"
  js_find :: "'j \<Rightarrow> string \<Rightarrow> 'j option"
  js_at :: "'j \<Rightarrow> string \<Rightarrow> 'j option"
  js_value :: "'j \<Rightarrow> string \<Rightarrow> 'j \<Rightarrow> 'j option"
  js_value_string :: "'j \<Rightarrow> string \<Rightarrow> string \<Rightarrow> string option"
  js_value_strings :: "'j \<Rightarrow> string \<Rightarrow> string list option"
  js_value_u64 :: "'j \<Rightarrow> string \<Rightarrow> u64 \<Rightarrow> u64 option"
  js_value_u32 :: "'j \<Rightarrow> string \<Rightarrow> u32 \<Rightarrow> u32 option"
  js_get_string :: "'j \<Rightarrow> string option"
  js_get_double :: "'j \<Rightarrow> rat option"
  js_is_string :: "'j \<Rightarrow> bool"
  js_is_number :: "'j \<Rightarrow> bool"
  js_is_boolean :: "'j \<Rightarrow> bool"
  js_is_array :: "'j \<Rightarrow> bool"
  js_set_string :: "'j \<Rightarrow> string \<Rightarrow> string \<Rightarrow> 'j option"
  js_singleton :: "string \<Rightarrow> string \<Rightarrow> 'j"

section \<open>Descriptors\<close>

text \<open>
  The entry point is a function of the plugin; its type is a parameter. A null pointer is \<open>None\<close>.
\<close>

record 'e plugin_desc =
  abi_major :: u32
  abi_minor :: u32
  node_id :: "string option"
  node_version :: "string option"
  manifest_json :: "string option"
  main_entry :: "'e option"

definition CPIPE_ABI_MAJOR :: u32 where "CPIPE_ABI_MAJOR = 0"
definition CPIPE_ABI_MINOR :: u32 where "CPIPE_ABI_MINOR = 4"

definition desc_manifest :: "'e plugin_desc option \<Rightarrow> string option" where
  "desc_manifest desc = (case desc of None \<Rightarrow> None | Some d \<Rightarrow> manifest_json d)"

section \<open>The registry\<close>

type_synonym 'e registry = "'e plugin_desc list"

text \<open>\<open>section_entries\<close> is the linker section of registered descriptors, \<open>None\<close> when it is absent.\<close>

definition load_builtin_nodes :: "'e plugin_desc list option \<Rightarrow> 'e registry" where
  "load_builtin_nodes section_entries =
     (case section_entries of
        None \<Rightarrow> []
      | Some ds \<Rightarrow> [d \<leftarrow> ds. \<not> (node_id d = None \<or> main_entry d = None \<or>
          abi_major d \<noteq> CPIPE_ABI_MAJOR \<or> abi_minor d > CPIPE_ABI_MINOR)])"

definition registry_find :: "'e registry \<Rightarrow> string \<Rightarrow> 'e plugin_desc option" where
  "registry_find r nid = List.find (\<lambda>d. node_id d = Some nid) r"

lemma registry_find_Some:
  "registry_find r nid = Some d \<Longrightarrow> d \<in> set r \<and> node_id d = Some nid"
  by (auto simp: registry_find_def find_Some_iff)

lemma registry_find_loaded:
  assumes "registry_find (load_builtin_nodes s) nid = Some d"
  shows "abi_major d = CPIPE_ABI_MAJOR \<and> abi_minor d \<le> CPIPE_ABI_MINOR \<and>
    main_entry d \<noteq> None \<and> node_id d = Some nid"
  using registry_find_Some [OF assms]
  by (auto simp: load_builtin_nodes_def not_less split: option.splits)

lemma registry_find_None_iff:
  "registry_find r nid = None \<longleftrightarrow> (\<forall>d \<in> set r. node_id d \<noteq> Some nid)"
  by (auto simp: registry_find_def find_None_iff)

end
