(* ===== verification/Topological_Order.thy ===== *)
theory Topological_Order
  imports Prelude
begin

text \<open>
  Kahn's algorithm as \<open>MemoryPlanner.cpp\<close> and \<open>Pipeline::load\<close> write it: adjacency lists and an
  indegree vector built from the edge list, a FIFO of ready nodes, and a loop that pops a node and
  decrements the indegree of its successors. Nodes are indices into a vector.

  The loop is a \<open>partial_function\<close>: a run that does not end is \<open>None\<close>. \<open>kahn_total\<close> shows that it
  always ends, \<open>kahn_sound\<close> that the order respects every edge, and \<open>kahn_complete_iff\<close> that it
  contains every node exactly when the graph has no cycle.
\<close>

section \<open>Operations\<close>

text \<open>\<open>--x\<close> on \<open>std::size_t\<close>, which wraps at zero.\<close>

definition size_dec :: "nat \<Rightarrow> nat" where
  "size_dec x = (if x = 0 then size_max else x - 1)"

fun add_edge :: "nat \<Rightarrow> nat \<times> nat \<Rightarrow> nat list list \<times> nat list \<Rightarrow> nat list list \<times> nat list" where
  "add_edge n (u, v) (adj, indeg) =
     (if n \<le> u \<or> n \<le> v then (adj, indeg)
      else (adj[u := adj ! u @ [v]], indeg[v := Suc (indeg ! v)]))"

definition build_graph :: "nat \<Rightarrow> (nat \<times> nat) list \<Rightarrow> nat list list \<times> nat list" where
  "build_graph n es = fold (add_edge n) es (replicate n [], replicate n 0)"

fun relax :: "nat list \<Rightarrow> nat list \<Rightarrow> nat list \<Rightarrow> nat list \<times> nat list" where
  "relax [] indeg ready = (indeg, ready)"
| "relax (v # vs) indeg ready =
     (let indeg' = indeg[v := size_dec (indeg ! v)]
      in relax vs indeg' (if indeg' ! v = 0 then ready @ [v] else ready))"

partial_function (option) kahn_loop ::
  "nat list list \<Rightarrow> nat list \<Rightarrow> nat list \<Rightarrow> nat list \<Rightarrow> nat list option" where
  "kahn_loop adj indeg ready order =
     (case ready of
        [] \<Rightarrow> Some order
      | u # rest \<Rightarrow> (case relax (adj ! u) indeg rest of
          (indeg', ready') \<Rightarrow> kahn_loop adj indeg' ready' (order @ [u])))"

declare kahn_loop.simps [code]

definition kahn :: "nat \<Rightarrow> (nat \<times> nat) list \<Rightarrow> nat list option" where
  "kahn n es =
     (case build_graph n es of
        (adj, indeg) \<Rightarrow> kahn_loop adj indeg [v \<leftarrow> [0..<n]. indeg ! v = 0] [])"

section \<open>The graph of an edge list\<close>

definition in_range :: "nat \<Rightarrow> (nat \<times> nat) list \<Rightarrow> (nat \<times> nat) list" where
  "in_range n es = [(u, v) \<leftarrow> es. u < n \<and> v < n]"

lemma set_in_range: "set (in_range n es) = {(u, v) \<in> set es. u < n \<and> v < n}"
  by (auto simp: in_range_def)

text \<open>The number of edges into \<open>v\<close> that leave nodes outside \<open>S\<close>.\<close>

definition pending :: "(nat \<times> nat) list \<Rightarrow> nat set \<Rightarrow> nat \<Rightarrow> nat" where
  "pending es S v = length [(a, b) \<leftarrow> es. b = v \<and> a \<notin> S]"

definition succs :: "(nat \<times> nat) list \<Rightarrow> nat \<Rightarrow> nat list" where
  "succs es u = map snd [(a, b) \<leftarrow> es. a = u]"

lemma fold_add_edge:
  assumes "length adj = n" and "length indeg = n"
  shows "fold (add_edge n) es (adj, indeg) =
    (map (\<lambda>u. adj ! u @ succs (in_range n es) u) [0..<n],
     map (\<lambda>v. indeg ! v + pending (in_range n es) {} v) [0..<n])"
  using assms
proof (induction es arbitrary: adj indeg)
  case Nil
  then show ?case
    by (auto simp: in_range_def succs_def pending_def intro!: nth_equalityI)
next
  case (Cons e es)
  obtain u v where e: "e = (u, v)" by (cases e)
  show ?case
  proof (cases "u < n \<and> v < n")
    case True
    let ?adj = "adj[u := adj ! u @ [v]]" and ?indeg = "indeg[v := Suc (indeg ! v)]"
    have step: "add_edge n e (adj, indeg) = (?adj, ?indeg)"
      using True by (simp add: e)
    have ir: "in_range n (e # es) = (u, v) # in_range n es"
      using True by (simp add: in_range_def e)
    have len: "length ?adj = n" "length ?indeg = n" using Cons.prems by simp_all
    show ?thesis
      using True Cons.prems
      by (auto simp: step ir Cons.IH [OF len] succs_def pending_def nth_list_update)
  next
    case False
    then have "add_edge n e (adj, indeg) = (adj, indeg)" "in_range n (e # es) = in_range n es"
      by (auto simp: e in_range_def)
    then show ?thesis using Cons by simp
  qed
qed

lemma build_graph_eq:
  "build_graph n es = (map (succs (in_range n es)) [0..<n], map (pending (in_range n es) {}) [0..<n])"
  by (auto simp: build_graph_def fold_add_edge)

lemma count_succs: "count_list (succs es u) v = length [(a, b) \<leftarrow> es. a = u \<and> b = v]"
  by (induction es) (auto simp: succs_def)

lemma pending_insert:
  "u \<notin> S \<Longrightarrow> pending es S v = pending es (insert u S) v + count_list (succs es u) v"
  by (induction es) (auto simp: pending_def succs_def)

lemma pending_zero_iff: "pending es S v = 0 \<longleftrightarrow> (\<forall>a. (a, v) \<in> set es \<longrightarrow> a \<in> S)"
  by (auto simp: pending_def filter_empty_conv)

lemma set_succs: "set (succs es u) = {v. (u, v) \<in> set es}"
  by (force simp: succs_def)

section \<open>One iteration\<close>

lemma relax_spec:
  assumes "\<forall>v \<in> set vs. v < length indeg" and "\<forall>v < length indeg. count_list vs v \<le> indeg ! v"
  shows "\<exists>new. relax vs indeg ready =
           (map (\<lambda>v. indeg ! v - count_list vs v) [0..<length indeg], ready @ new) \<and>
           distinct new \<and> set new = {v \<in> set vs. indeg ! v = count_list vs v}"
  using assms
proof (induction vs arbitrary: indeg ready)
  case Nil
  then show ?case by (auto intro: nth_equalityI)
next
  case (Cons v vs)
  have v: "v < length indeg" using Cons.prems(1) by simp
  have pos: "Suc (count_list vs v) \<le> indeg ! v" using Cons.prems(2) v by auto
  let ?indeg = "indeg[v := indeg ! v - 1]"
  have dec: "size_dec (indeg ! v) = indeg ! v - 1" using pos by (simp add: size_dec_def)
  have nth: "?indeg ! w = (if w = v then indeg ! v - 1 else indeg ! w)" if "w < length indeg" for w
    using that by (simp add: nth_list_update)
  have prem1: "\<forall>w \<in> set vs. w < length ?indeg" using Cons.prems(1) by simp
  have prem2: "\<forall>w < length ?indeg. count_list vs w \<le> ?indeg ! w"
  proof (intro allI impI)
    fix w assume "w < length ?indeg"
    then show "count_list vs w \<le> ?indeg ! w"
      using Cons.prems(2) [rule_format, of w] pos by (auto simp: nth_list_update split: if_splits)
  qed
  let ?ready = "if ?indeg ! v = 0 then ready @ [v] else ready"
  obtain new where new: "relax vs ?indeg ?ready =
      (map (\<lambda>w. ?indeg ! w - count_list vs w) [0..<length ?indeg], ?ready @ new)"
    "distinct new" "set new = {w \<in> set vs. ?indeg ! w = count_list vs w}"
    using Cons.IH [OF prem1 prem2] by blast
  have m: "map (\<lambda>w. ?indeg ! w - count_list vs w) [0..<length ?indeg]
      = map (\<lambda>w. indeg ! w - count_list (v # vs) w) [0..<length indeg]"
    by (auto simp: nth_list_update)
  have r: "relax (v # vs) indeg ready = relax vs ?indeg ?ready"
    by (simp add: dec)
  show ?case
  proof (cases "?indeg ! v = 0")
    case True
    with pos v have z: "count_list vs v = 0" "indeg ! v = 1" by auto
    then have nin: "v \<notin> set vs" by (simp add: count_list_0_iff)
    have "set (v # new) = {w \<in> set (v # vs). indeg ! w = count_list (v # vs) w}"
      using new(3) z nin v Cons.prems(1) by (auto simp: nth_list_update)
    moreover have "distinct (v # new)" using new(2,3) nin by auto
    moreover have "relax (v # vs) indeg ready =
        (map (\<lambda>w. indeg ! w - count_list (v # vs) w) [0..<length indeg], ready @ v # new)"
      unfolding r new(1) m using True by simp
    ultimately show ?thesis by blast
  next
    case False
    have "set new = {w \<in> set (v # vs). indeg ! w = count_list (v # vs) w}"
    proof (intro set_eqI iffI)
      fix w assume "w \<in> set new"
      then show "w \<in> {w \<in> set (v # vs). indeg ! w = count_list (v # vs) w}"
        using new(3) v pos Cons.prems(1) by (auto simp: nth_list_update split: if_splits)
    next
      fix w assume w: "w \<in> {w \<in> set (v # vs). indeg ! w = count_list (v # vs) w}"
      show "w \<in> set new"
      proof (cases "w = v")
        case True
        with w False v have "count_list vs v \<noteq> 0" by auto
        then have "v \<in> set vs" by (simp add: count_list_0_iff)
        with True w v show ?thesis by (simp add: new(3))
      next
        case False
        with w v show ?thesis by (auto simp: new(3) nth_list_update)
      qed
    qed
    moreover have "relax (v # vs) indeg ready =
        (map (\<lambda>w. indeg ! w - count_list (v # vs) w) [0..<length indeg], ready @ new)"
      unfolding r new(1) m using False by simp
    ultimately show ?thesis using new(2) by blast
  qed
qed

section \<open>The loop invariant\<close>

definition kahn_inv :: "nat \<Rightarrow> (nat \<times> nat) list \<Rightarrow> nat list \<Rightarrow> nat list \<Rightarrow> nat list \<Rightarrow> bool" where
  "kahn_inv n es indeg ready order \<longleftrightarrow>
     indeg = map (pending es (set order)) [0..<n] \<and>
     distinct (order @ ready) \<and> set (order @ ready) = {v. v < n \<and> indeg ! v = 0} \<and>
     (\<forall>i < length order. \<forall>u. (u, order ! i) \<in> set es \<longrightarrow> u \<in> set (take i order))"

lemma kahn_inv_init:
  assumes "\<forall>(u, v) \<in> set es. u < n \<and> v < n"
  shows "kahn_inv n es (map (pending es {}) [0..<n])
           [v \<leftarrow> [0..<n]. map (pending es {}) [0..<n] ! v = 0] []"
  using assms by (auto simp: kahn_inv_def)

lemma kahn_inv_step:
  assumes inv: "kahn_inv n es indeg (u # ready) order"
    and range: "\<forall>(u, v) \<in> set es. u < n \<and> v < n"
    and rel: "relax (succs es u) indeg ready = (indeg', ready')"
  shows "kahn_inv n es indeg' ready' (order @ [u])"
proof -
  from inv have indeg: "indeg = map (pending es (set order)) [0..<n]"
    and dist: "distinct (order @ u # ready)"
    and zero: "set (order @ u # ready) = {v. v < n \<and> indeg ! v = 0}"
    and topo: "\<forall>i < length order. \<forall>a. (a, order ! i) \<in> set es \<longrightarrow> a \<in> set (take i order)"
    by (auto simp: kahn_inv_def)
  have "u \<in> {v. v < n \<and> indeg ! v = 0}" using zero by auto
  then have u: "u < n" "u \<notin> set order" "pending es (set order) u = 0"
    using dist by (auto simp: indeg)
  have len: "length indeg = n" by (simp add: indeg)
  let ?S = "insert u (set order)"
  have split: "pending es (set order) v = pending es ?S v + count_list (succs es u) v" for v
    using pending_insert [OF u(2)] .
  have "\<forall>v \<in> set (succs es u). v < length indeg" using range by (auto simp: set_succs len)
  moreover have "\<forall>v < length indeg. count_list (succs es u) v \<le> indeg ! v"
    by (simp add: indeg split)
  ultimately obtain new where
    indeg': "indeg' = map (\<lambda>v. indeg ! v - count_list (succs es u) v) [0..<length indeg]"
    and ready': "ready' = ready @ new" "distinct new"
    and new: "set new = {v \<in> set (succs es u). indeg ! v = count_list (succs es u) v}"
    using relax_spec [of "succs es u" indeg ready] rel by auto
  have i1: "indeg' = map (pending es (set (order @ [u]))) [0..<n]"
    by (auto simp: indeg' len indeg split)
  have new': "set new = {v. (u, v) \<in> set es \<and> pending es ?S v = 0}"
    using range by (auto simp: new set_succs indeg split)
  have old: "v \<in> set (order @ u # ready) \<longleftrightarrow> v < n \<and> pending es (set order) v = 0" for v
    unfolding zero by (auto simp: indeg)
  have fresh: "set new \<inter> set (order @ u # ready) = {}"
  proof (intro equals0I)
    fix v assume "v \<in> set new \<inter> set (order @ u # ready)"
    then have "(u, v) \<in> set es" "pending es (set order) v = 0"
      using old [of v] by (simp_all add: new')
    then show False using u(2) by (auto simp: pending_zero_iff)
  qed
  have i2: "distinct ((order @ [u]) @ ready')" using dist ready' fresh by auto
  have i3: "set ((order @ [u]) @ ready') = {v. v < n \<and> indeg' ! v = 0}"
  proof (intro set_eqI iffI)
    fix v assume "v \<in> set ((order @ [u]) @ ready')"
    then have "v \<in> set (order @ u # ready) \<or> v \<in> set new" using ready' by auto
    then have "v < n \<and> pending es ?S v = 0"
    proof
      assume "v \<in> set (order @ u # ready)"
      then show ?thesis unfolding old split by simp
    next
      assume "v \<in> set new"
      then show ?thesis using range by (auto simp: new')
    qed
    then show "v \<in> {v. v < n \<and> indeg' ! v = 0}" by (simp add: i1)
  next
    fix v assume "v \<in> {v. v < n \<and> indeg' ! v = 0}"
    then have v: "v < n" "pending es ?S v = 0" by (auto simp: i1)
    show "v \<in> set ((order @ [u]) @ ready')"
    proof (cases "(u, v) \<in> set es")
      case True
      with v show ?thesis by (simp add: ready' new')
    next
      case False
      then have "count_list (succs es u) v = 0" by (simp add: count_list_0_iff set_succs)
      with v have "v \<in> set (order @ u # ready)" unfolding old split by simp
      then show ?thesis by (auto simp: ready')
    qed
  qed
  have i4: "\<forall>i < length (order @ [u]). \<forall>a. (a, (order @ [u]) ! i) \<in> set es \<longrightarrow>
      a \<in> set (take i (order @ [u]))"
    using topo u(3) by (auto simp: nth_append less_Suc_eq pending_zero_iff)
  from i1 i2 i3 i4 show ?thesis by (simp add: kahn_inv_def)
qed

lemma kahn_loop_correct:
  assumes "kahn_inv n es indeg ready order" and "\<forall>(u, v) \<in> set es. u < n \<and> v < n"
  shows "\<exists>out indeg'. kahn_loop (map (succs es) [0..<n]) indeg ready order = Some out \<and>
           kahn_inv n es indeg' [] out"
  using assms(1)
proof (induction "n - length order" arbitrary: indeg ready order rule: less_induct)
  case less
  show ?case
  proof (cases ready)
    case Nil
    with less.prems show ?thesis by (auto simp: kahn_loop.simps)
  next
    case (Cons u rest)
    have u: "u < n" "distinct (order @ [u])" "set (order @ [u]) \<subseteq> {0..<n}"
      using less.prems Cons by (auto simp: kahn_inv_def set_eq_iff)
    obtain indeg' ready' where rel: "relax (succs es u) indeg rest = (indeg', ready')" by fastforce
    have inv: "kahn_inv n es indeg' ready' (order @ [u])"
      using kahn_inv_step [OF _ assms(2) rel] less.prems Cons by simp
    have "length (order @ [u]) \<le> n"
      using u(2,3) by (metis card_atLeastLessThan card_mono diff_zero distinct_card finite_atLeastLessThan)
    then have "n - length (order @ [u]) < n - length order" by simp
    from less.hyps [OF this inv] show ?thesis
      using u(1) by (simp add: kahn_loop.simps [of _ indeg] Cons rel)
  qed
qed

section \<open>Topological orders\<close>

definition is_topological :: "nat \<Rightarrow> (nat \<times> nat) list \<Rightarrow> nat list \<Rightarrow> bool" where
  "is_topological n es order \<longleftrightarrow> distinct order \<and> set order \<subseteq> {0..<n} \<and>
     (\<forall>i < length order. \<forall>u. (u, order ! i) \<in> set (in_range n es) \<longrightarrow> u \<in> set (take i order))"

lemma kahn_correct:
  "\<exists>out indeg. kahn n es = Some out \<and> kahn_inv n (in_range n es) indeg [] out"
proof -
  have r: "\<forall>(u, v) \<in> set (in_range n es). u < n \<and> v < n" by (auto simp: in_range_def)
  show ?thesis
    using kahn_loop_correct [OF kahn_inv_init [OF r] r]
    by (simp add: kahn_def build_graph_eq)
qed

lemma kahn_total: "\<exists>out. kahn n es = Some out"
  using kahn_correct by blast

lemma kahn_sound: "kahn n es = Some out \<Longrightarrow> is_topological n es out"
  using kahn_correct [of n es] by (auto simp: kahn_inv_def is_topological_def set_eq_iff)

lemma is_topological_before:
  assumes "is_topological n es order" and "(u, v) \<in> set es" and "u < n" and "j < length order"
    and "order ! j = v"
  shows "\<exists>i < j. order ! i = u"
proof -
  have "set order \<subseteq> {0..<n}" using assms(1) by (simp add: is_topological_def)
  then have "v < n" using assms(4,5) nth_mem by fastforce
  with assms have "u \<in> set (take j order)"
    by (auto simp: is_topological_def set_in_range)
  then show ?thesis by (auto simp: in_set_conv_nth)
qed

lemma is_topological_acyclic:
  assumes "is_topological n es order" and "length order = n"
  shows "acyclic (set (in_range n es))"
proof -
  have d: "distinct order" and s: "set order = {0..<n}"
    using assms by (auto simp: is_topological_def card_subset_eq distinct_card)
  define pos where "pos v = (THE i. i < n \<and> order ! i = v)" for v
  have pos: "pos (order ! i) = i" if "i < n" for i
    unfolding pos_def using that d assms(2) by (auto simp: nth_eq_iff_index_eq intro!: the_equality)
  have "pos u < pos v" if e: "(u, v) \<in> set (in_range n es)" for u v
  proof -
    from e s have "v \<in> set order" "u < n" "(u, v) \<in> set es" by (auto simp: set_in_range)
    then obtain j where j: "j < n" "order ! j = v" by (auto simp: in_set_conv_nth assms(2))
    with is_topological_before [OF assms(1) \<open>(u, v) \<in> set es\<close> \<open>u < n\<close>, of j] assms(2)
    obtain i where "i < j" "order ! i = u" by auto
    with j pos [of i] pos [of j] show ?thesis by simp
  qed
  then have "set (in_range n es) \<subseteq> measure pos" by auto
  then show ?thesis by (meson acyclic_subset wf_acyclic wf_measure)
qed

lemma kahn_complete:
  assumes "kahn n es = Some out" and "acyclic (set (in_range n es))"
  shows "length out = n"
proof (rule ccontr)
  assume "length out \<noteq> n"
  let ?E = "set (in_range n es)"
  from assms(1) kahn_correct [of n es] obtain indeg where "kahn_inv n (in_range n es) indeg [] out"
    by auto
  then have d: "distinct out"
    and z: "v \<in> set out \<longleftrightarrow> v < n \<and> pending (in_range n es) (set out) v = 0" for v
    by (auto simp: kahn_inv_def set_eq_iff)
  have "set out \<noteq> {0..<n}" using d \<open>length out \<noteq> n\<close> distinct_card [of out] by auto
  then obtain v where v: "v \<in> {0..<n} - set out" using z by fastforce
  have "wf ?E" by (rule finite_acyclic_wf [OF _ assms(2)]) simp
  then obtain w where w: "w \<in> {0..<n} - set out"
    and min: "\<And>a. (a, w) \<in> ?E \<Longrightarrow> a \<notin> {0..<n} - set out"
    by (rule wfE_min [OF _ v]) (blast intro: that)
  from w z [of w] have "pending (in_range n es) (set out) w \<noteq> 0" by auto
  then obtain a where "(a, w) \<in> ?E" "a \<notin> set out" by (auto simp: pending_zero_iff)
  moreover then have "a < n" by (auto simp: set_in_range)
  ultimately show False using min by auto
qed

lemma kahn_complete_iff:
  assumes "kahn n es = Some out"
  shows "length out = n \<longleftrightarrow> acyclic (set (in_range n es))"
  using assms kahn_complete is_topological_acyclic [OF kahn_sound] by blast

lemma kahn_length_le: "kahn n es = Some out \<Longrightarrow> length out \<le> n"
  using kahn_sound [of n es out] card_mono [of "{0..<n}" "set out"]
  by (auto simp: is_topological_def distinct_card)

end
