(* ===== verification/Memory_Planner.thy ===== *)
theory Memory_Planner
  imports Plugin Topological_Order
begin

text \<open>
  The memory planner (\<open>include/cpipe/runtime/MemoryPlanner.hpp\<close>,
  \<open>src/cpipe/runtime/MemoryPlanner.cpp\<close>): one output buffer per node, live from the position of its
  node in a topological order up to the position of its last consumer, and a first-fit colouring of
  the interference graph that maps every buffer to a physical slot.
\<close>

section \<open>Operations\<close>

type_synonym memory_graph_edge = "nat \<times> nat"

record memory_assignment =
  ma_buffer_id :: nat
  ma_node_index :: nat
  ma_physical_slot :: nat
  ma_size_bytes :: u64

record memory_plan =
  peak_bytes :: u64
  physical_slot_count :: nat
  assignments :: "memory_assignment list"

definition pixel_count :: "buffer_layout \<Rightarrow> u64" where
  "pixel_count layout =
     (if ndim layout < 2 then 0 else ucast (dims layout ! 0) * ucast (dims layout ! 1))"

definition output_bytes_per_pixel :: "'j json_api \<Rightarrow> 'e plugin_desc option \<Rightarrow> stop + u64" where
  "output_bytes_per_pixel J desc =
     (case desc_manifest desc of
        None \<Rightarrow> Inr 0
      | Some text \<Rightarrow>
          bind_res (or_throw (js_parse J text)) (\<lambda>manifest.
          bind_res (or_throw (js_value J manifest ''compute'' (js_object J))) (\<lambda>compute.
          or_throw (js_value_u64 J compute ''out_pixel_bytes'' 0))))"

definition topological_order :: "nat \<Rightarrow> memory_graph_edge list \<Rightarrow> nat list option" where
  "topological_order node_count edges =
     (case kahn node_count edges of
        None \<Rightarrow> None
      | Some order \<Rightarrow> Some (if length order \<noteq> node_count then [0..<node_count] else order))"

record live_buffer =
  lb_node_index :: nat
  lb_start :: nat
  lb_end :: nat
  lb_size_bytes :: u64
  lb_physical_slot :: nat

definition default_live_buffer :: live_buffer where
  "default_live_buffer = \<lparr>lb_node_index = 0, lb_start = 0, lb_end = 0, lb_size_bytes = 0,
     lb_physical_slot = 0\<rparr>"

definition overlaps :: "live_buffer \<Rightarrow> live_buffer \<Rightarrow> bool" where
  "overlaps lhs rhs \<longleftrightarrow> lb_start lhs < lb_end rhs \<and> lb_start rhs < lb_end lhs"

definition topological_positions :: "nat \<Rightarrow> nat list \<Rightarrow> nat list" where
  "topological_positions node_count order =
     fold (\<lambda>(position, node) positions. positions[node := position])
       (enumerate 0 order) (replicate node_count 0)"

definition make_live_buffers ::
  "'j json_api \<Rightarrow> 'e plugin_desc option list \<Rightarrow> nat list \<Rightarrow> u64 \<Rightarrow> stop + live_buffer list" where
  "make_live_buffers J nodes order pixels =
     fold_res (\<lambda>(position, node) buffers.
         bind_res (output_bytes_per_pixel J (nodes ! node)) (\<lambda>bpp.
         Inr (buffers[node := \<lparr>lb_node_index = node, lb_start = position, lb_end = position + 1,
            lb_size_bytes = pixels * bpp, lb_physical_slot = 0\<rparr>])))
       (enumerate 0 order) (replicate (length nodes) default_live_buffer)"

definition extend_live_ranges ::
  "nat list \<Rightarrow> memory_graph_edge list \<Rightarrow> live_buffer list \<Rightarrow> live_buffer list" where
  "extend_live_ranges topo_position edges buffers =
     fold (\<lambda>(from, to) bs.
         if length bs \<le> from \<or> length bs \<le> to then bs
         else bs[from := (bs ! from)\<lparr>lb_end := max (lb_end (bs ! from)) (topo_position ! to)\<rparr>])
       edges buffers"

type_synonym interference_graph = "bool list list"

definition set_edge :: "nat \<Rightarrow> nat \<Rightarrow> interference_graph \<Rightarrow> interference_graph" where
  "set_edge i j g = g[i := (g ! i)[j := True]]"

definition build_interference_graph :: "live_buffer list \<Rightarrow> interference_graph" where
  "build_interference_graph buffers =
     fold (\<lambda>lhs g0. fold (\<lambda>rhs g.
           if overlaps (buffers ! lhs) (buffers ! rhs)
           then set_edge rhs lhs (set_edge lhs rhs g) else g)
         [lhs + 1..<length buffers] g0)
       [0..<length buffers] (replicate (length buffers) (replicate (length buffers) False))"

definition slot_available ::
  "live_buffer list \<Rightarrow> interference_graph \<Rightarrow> live_buffer \<Rightarrow> nat \<Rightarrow> bool" where
  "slot_available assigned interference current slot =
     (\<not> list_ex (\<lambda>other. lb_physical_slot other = slot \<and>
          interference ! lb_node_index current ! lb_node_index other) assigned)"

definition color_buffer ::
  "live_buffer list \<Rightarrow> interference_graph \<Rightarrow> nat \<Rightarrow> live_buffer list \<times> u64 list
     \<Rightarrow> live_buffer list \<times> u64 list" where
  "color_buffer buffers interference node st =
     (case st of (assigned, slot_sizes) \<Rightarrow>
       let current = buffers ! node
       in case List.find (slot_available assigned interference current)
                [0..<Suc (length slot_sizes)] of
            None \<Rightarrow> (assigned, slot_sizes)
          | Some slot \<Rightarrow>
              (assigned @ [current\<lparr>lb_physical_slot := slot\<rparr>],
               if slot = length slot_sizes then slot_sizes @ [lb_size_bytes current]
               else slot_sizes[slot := max (slot_sizes ! slot) (lb_size_bytes current)]))"

definition color_buffers ::
  "live_buffer list \<Rightarrow> nat list \<Rightarrow> interference_graph \<Rightarrow> live_buffer list \<times> u64 list" where
  "color_buffers buffers order interference =
     fold (color_buffer buffers interference) order ([], [])"

definition make_plan :: "u64 \<Rightarrow> u64 list \<Rightarrow> live_buffer list \<Rightarrow> memory_plan" where
  "make_plan input_bytes slot_sizes assigned =
     \<lparr>peak_bytes = fold (\<lambda>slot_size peak. peak + slot_size) slot_sizes input_bytes,
      physical_slot_count = length slot_sizes,
      assignments = map (\<lambda>b. \<lparr>ma_buffer_id = lb_node_index b, ma_node_index = lb_node_index b,
        ma_physical_slot = lb_physical_slot b, ma_size_bytes = lb_size_bytes b\<rparr>) assigned\<rparr>"

definition plan_graph ::
  "'j json_api \<Rightarrow> buffer_layout \<Rightarrow> 'e plugin_desc option list \<Rightarrow> memory_graph_edge list
     \<Rightarrow> stop + memory_plan" where
  "plan_graph J input_layout nodes edges =
     (let input_bytes = size_bytes input_layout; pixels = pixel_count input_layout
      in if nodes = [] then Inr \<lparr>peak_bytes = input_bytes, physical_slot_count = 0,
                                 assignments = []\<rparr>
         else
           bind_res (or_diverge (topological_order (length nodes) edges)) (\<lambda>order.
           let topo_position = topological_positions (length nodes) order in
           bind_res (make_live_buffers J nodes order pixels) (\<lambda>buffers0.
           let buffers = extend_live_ranges topo_position edges buffers0;
               interference = build_interference_graph buffers
           in case color_buffers buffers order interference of
                (assigned, slot_sizes) \<Rightarrow> Inr (make_plan input_bytes slot_sizes assigned))))"

definition plan ::
  "'j json_api \<Rightarrow> buffer_layout \<Rightarrow> 'e plugin_desc option list \<Rightarrow> stop + memory_plan" where
  "plan J input_layout nodes =
     plan_graph J input_layout nodes (map (\<lambda>node. (node - 1, node)) [1..<length nodes])"

section \<open>Order and positions\<close>

lemma topological_order_total: "\<exists>order. topological_order n es = Some order"
  using kahn_total [of n es] by (auto simp: topological_order_def)

lemma topological_order_perm:
  assumes "topological_order n es = Some order"
  shows "distinct order" and "set order = {0..<n}" and "length order = n"
proof -
  obtain out where out: "kahn n es = Some out" using kahn_total by blast
  have "distinct order \<and> set order = {0..<n} \<and> length order = n"
  proof (cases "length out = n")
    case True
    with out assms have "order = out" by (simp add: topological_order_def)
    with kahn_sound [OF out] True show ?thesis
      by (auto simp: is_topological_def card_subset_eq distinct_card)
  next
    case False
    with out assms show ?thesis by (auto simp: topological_order_def)
  qed
  then show "distinct order" "set order = {0..<n}" "length order = n" by auto
qed

lemma length_topological_positions [simp]: "length (topological_positions n order) = n"
proof -
  have "length (fold (\<lambda>(p, v) ps. ps[v := p]) xs ps) = length ps" for xs :: "(nat \<times> nat) list" and ps
    by (induction xs arbitrary: ps) auto
  then show ?thesis by (simp add: topological_positions_def)
qed

lemma topological_positions_nth:
  assumes "distinct order" and "set order \<subseteq> {0..<n}" and "i < length order"
  shows "topological_positions n order ! (order ! i) = i"
  using assms
proof (induction order arbitrary: i rule: rev_induct)
  case (snoc v order)
  have step: "topological_positions n (order @ [v]) = (topological_positions n order)[v := length order]"
    by (simp add: topological_positions_def enumerate_append_eq)
  show ?case
  proof (cases "i < length order")
    case True
    with snoc have "order ! i \<noteq> v" by (auto simp: in_set_conv_nth)
    with True snoc show ?thesis by (simp add: step nth_append)
  next
    case False
    with snoc.prems show ?thesis by (simp add: step nth_append not_less less_Suc_eq)
  qed
qed simp

section \<open>Live ranges\<close>

text \<open>
  \<open>fresh_buffers\<close> is what the first loop leaves in the buffer vector: node \<open>order ! i\<close> owns the range
  that starts at \<open>i\<close>.
\<close>

definition fresh_buffers :: "nat list \<Rightarrow> live_buffer list \<Rightarrow> bool" where
  "fresh_buffers order bs \<longleftrightarrow> (\<forall>i < length order. lb_node_index (bs ! (order ! i)) = order ! i \<and>
     lb_start (bs ! (order ! i)) = i \<and> lb_end (bs ! (order ! i)) = Suc i)"

lemma make_live_buffers_spec:
  assumes "make_live_buffers J nodes order pixels = Inr bs"
    and "distinct order" and "set order \<subseteq> {0..<length nodes}"
  shows "length bs = length nodes \<and> fresh_buffers order bs \<and>
    (\<forall>v \<in> set order. \<exists>bpp. output_bytes_per_pixel J (nodes ! v) = Inr bpp \<and>
       lb_size_bytes (bs ! v) = pixels * bpp)"
  using assms
proof (induction order arbitrary: bs rule: rev_induct)
  case Nil
  then show ?case by (auto simp: make_live_buffers_def fresh_buffers_def)
next
  case (snoc v order)
  from snoc.prems(1) obtain bs0 bpp where bs0: "make_live_buffers J nodes order pixels = Inr bs0"
    and bpp: "output_bytes_per_pixel J (nodes ! v) = Inr bpp"
    and bs: "bs = bs0[v := \<lparr>lb_node_index = v, lb_start = length order, lb_end = length order + 1,
        lb_size_bytes = pixels * bpp, lb_physical_slot = 0\<rparr>]"
    by (auto simp: make_live_buffers_def enumerate_append_eq fold_res_append bind_res_eq_Inr_iff)
  have IH: "length bs0 = length nodes" "fresh_buffers order bs0"
    "\<forall>w \<in> set order. \<exists>bpp. output_bytes_per_pixel J (nodes ! w) = Inr bpp \<and>
       lb_size_bytes (bs0 ! w) = pixels * bpp"
    using snoc.IH [OF bs0] snoc.prems by auto
  have v: "v < length nodes" "v \<notin> set order" using snoc.prems by auto
  have "fresh_buffers (order @ [v]) bs"
    unfolding fresh_buffers_def
  proof (intro allI impI)
    fix i assume i: "i < length (order @ [v])"
    show "lb_node_index (bs ! ((order @ [v]) ! i)) = (order @ [v]) ! i \<and>
        lb_start (bs ! ((order @ [v]) ! i)) = i \<and> lb_end (bs ! ((order @ [v]) ! i)) = Suc i"
    proof (cases "i < length order")
      case True
      then have "order ! i \<noteq> v" using v(2) by auto
      with True IH(2) show ?thesis by (simp add: bs nth_append fresh_buffers_def)
    next
      case False
      with i have "i = length order" by simp
      then show ?thesis using v IH(1) by (simp add: bs)
    qed
  qed
  moreover have "\<forall>w \<in> set (order @ [v]). \<exists>bpp. output_bytes_per_pixel J (nodes ! w) = Inr bpp \<and>
       lb_size_bytes (bs ! w) = pixels * bpp"
    using IH(1,3) v bpp by (auto simp: bs nth_list_update)
  ultimately show ?case using IH(1) by (simp add: bs)
qed

lemma output_bytes_per_pixel_Inl: "output_bytes_per_pixel J d = Inl e \<Longrightarrow> e = Thrown"
  by (auto simp: output_bytes_per_pixel_def bind_res_eq_Inl_iff or_throw_eq_Inl split: option.splits)

lemma make_live_buffers_Inl:
  assumes "make_live_buffers J nodes order px = Inl e"
    and "topological_order (length nodes) es = Some order"
  shows "e = Thrown \<and> (\<exists>v < length nodes. output_bytes_per_pixel J (nodes ! v) = Inl Thrown)"
proof -
  from fold_res_Inl_ex [OF assms(1) [unfolded make_live_buffers_def]] obtain i v
    where v: "(i, v) \<in> set (enumerate 0 order)" "output_bytes_per_pixel J (nodes ! v) = Inl e"
    by (auto simp: bind_res_eq_Inl_iff)
  from v(1) have "v < length nodes"
    using topological_order_perm(2) [OF assms(2)]
    by (auto simp: enumerate_eq_zip dest: set_zip_rightD)
  with v(2) output_bytes_per_pixel_Inl show ?thesis by blast
qed

lemma plan_graph_Inl:
  assumes "plan_graph J l nodes es = Inl s"
  shows "s = Thrown"
proof -
  obtain order where order: "topological_order (length nodes) es = Some order"
    using topological_order_total by blast
  with assms have "make_live_buffers J nodes order (pixel_count l) = Inl s"
    by (auto simp: plan_graph_def Let_def bind_res_eq_Inl_iff split: if_splits prod.splits)
  with make_live_buffers_Inl [OF _ order] show ?thesis by blast
qed

lemma extend_live_ranges_spec:
  "length (extend_live_ranges ps es bs) = length bs \<and>
   (\<forall>v < length bs. extend_live_ranges ps es bs ! v =
      (bs ! v)\<lparr>lb_end := lb_end (extend_live_ranges ps es bs ! v)\<rparr> \<and>
      (\<forall>t. t < lb_end (extend_live_ranges ps es bs ! v) \<longleftrightarrow>
         t < lb_end (bs ! v) \<or> (\<exists>w. (v, w) \<in> set es \<and> w < length bs \<and> t < ps ! w)))"
proof (induction es arbitrary: bs)
  case Nil
  then show ?case by (simp add: extend_live_ranges_def)
next
  case (Cons e es)
  obtain a b where e: "e = (a, b)" by (cases e)
  define bs' where "bs' = (if length bs \<le> a \<or> length bs \<le> b then bs
    else bs[a := (bs ! a)\<lparr>lb_end := max (lb_end (bs ! a)) (ps ! b)\<rparr>])"
  have step: "extend_live_ranges ps (e # es) bs = extend_live_ranges ps es bs'"
    by (simp add: extend_live_ranges_def e bs'_def)
  have len: "length bs' = length bs" by (simp add: bs'_def)
  have nth: "bs' ! v = (bs ! v)\<lparr>lb_end := lb_end (bs' ! v)\<rparr>" if "v < length bs" for v
    using that by (auto simp: bs'_def nth_list_update)
  have lt: "t < lb_end (bs' ! v) \<longleftrightarrow> t < lb_end (bs ! v) \<or> (v = a \<and> b < length bs \<and> t < ps ! b)"
    if "v < length bs" for v t
    using that by (auto simp: bs'_def nth_list_update)
  note IH = Cons.IH [of bs', unfolded len]
  show ?case
    unfolding step
  proof (intro conjI allI impI)
    show "length (extend_live_ranges ps es bs') = length bs" using IH by blast
    fix v assume v: "v < length bs"
    have eq: "extend_live_ranges ps es bs' ! v =
        (bs' ! v)\<lparr>lb_end := lb_end (extend_live_ranges ps es bs' ! v)\<rparr>"
      using IH v by blast
    show "extend_live_ranges ps es bs' ! v =
        (bs ! v)\<lparr>lb_end := lb_end (extend_live_ranges ps es bs' ! v)\<rparr>"
      by (subst eq, subst nth [OF v]) simp
    fix t
    have "t < lb_end (extend_live_ranges ps es bs' ! v) \<longleftrightarrow>
        t < lb_end (bs' ! v) \<or> (\<exists>w. (v, w) \<in> set es \<and> w < length bs \<and> t < ps ! w)"
      using IH v by blast
    then show "t < lb_end (extend_live_ranges ps es bs' ! v) \<longleftrightarrow>
        t < lb_end (bs ! v) \<or> (\<exists>w. (v, w) \<in> set (e # es) \<and> w < length bs \<and> t < ps ! w)"
      unfolding lt [OF v] by (auto simp: e)
  qed
qed

section \<open>The interference graph\<close>

lemma overlaps_sym: "overlaps a b \<longleftrightarrow> overlaps b a"
  by (auto simp: overlaps_def)

definition square :: "nat \<Rightarrow> 'a list list \<Rightarrow> bool" where
  "square n g \<longleftrightarrow> length g = n \<and> (\<forall>row \<in> set g. length row = n)"

lemma square_set_edge: "square n g \<Longrightarrow> i < n \<Longrightarrow> square n (set_edge i j g)"
  by (auto simp: square_def set_edge_def dest: set_update_subset_insert [THEN subsetD])

lemma nth_set_edge:
  "square n g \<Longrightarrow> i < n \<Longrightarrow> j < n \<Longrightarrow> a < n \<Longrightarrow> b < n \<Longrightarrow>
   set_edge i j g ! a ! b = (a = i \<and> b = j \<or> g ! a ! b)"
  by (auto simp: square_def set_edge_def nth_list_update)

lemma inner_fold:
  assumes "square n g" and "l < n" and "\<forall>r \<in> set rs. r < n"
  shows "square n (fold (\<lambda>r g. if P l r then set_edge r l (set_edge l r g) else g) rs g) \<and>
    (\<forall>a < n. \<forall>b < n. fold (\<lambda>r g. if P l r then set_edge r l (set_edge l r g) else g) rs g ! a ! b \<longleftrightarrow>
       g ! a ! b \<or> (a = l \<and> b \<in> set rs \<and> P l b) \<or> (b = l \<and> a \<in> set rs \<and> P l a))"
  using assms
proof (induction rs arbitrary: g)
  case (Cons r rs)
  let ?g = "if P l r then set_edge r l (set_edge l r g) else g"
  have sq: "square n ?g" using Cons.prems by (simp add: square_set_edge)
  have g: "?g ! a ! b \<longleftrightarrow> g ! a ! b \<or> (a = l \<and> b = r \<and> P l r) \<or> (b = l \<and> a = r \<and> P l r)"
    if "a < n" "b < n" for a b
    using that Cons.prems by (auto simp: nth_set_edge [of n] square_set_edge)
  show ?case using Cons.IH [OF sq] Cons.prems g by auto
qed simp

lemma outer_fold:
  assumes "square n g" and "\<forall>l \<in> set ls. l < n"
  shows "square n (fold (\<lambda>l g0. fold (\<lambda>r g. if P l r then set_edge r l (set_edge l r g) else g)
      [l + 1..<n] g0) ls g) \<and>
    (\<forall>a < n. \<forall>b < n. fold (\<lambda>l g0. fold (\<lambda>r g. if P l r then set_edge r l (set_edge l r g) else g)
      [l + 1..<n] g0) ls g ! a ! b \<longleftrightarrow>
       g ! a ! b \<or> (a \<in> set ls \<and> a < b \<and> P a b) \<or> (b \<in> set ls \<and> b < a \<and> P b a))"
  using assms
proof (induction ls arbitrary: g)
  case (Cons l ls)
  let ?g = "fold (\<lambda>r g. if P l r then set_edge r l (set_edge l r g) else g) [l + 1..<n] g"
  have i: "square n ?g \<and> (\<forall>a < n. \<forall>b < n. ?g ! a ! b \<longleftrightarrow>
       g ! a ! b \<or> (a = l \<and> b \<in> set [l + 1..<n] \<and> P l b) \<or> (b = l \<and> a \<in> set [l + 1..<n] \<and> P l a))"
    using Cons.prems by (intro inner_fold) auto
  then show ?case using Cons.IH [of ?g] Cons.prems(2) by (auto 0 3)
qed simp

lemma build_interference_graph_nth:
  assumes "a < length bs" and "b < length bs"
  shows "build_interference_graph bs ! a ! b \<longleftrightarrow> a \<noteq> b \<and> overlaps (bs ! a) (bs ! b)"
proof -
  let ?n = "length bs"
  have "square ?n (replicate ?n (replicate ?n False))" by (simp add: square_def)
  from outer_fold [OF this, of "[0..<?n]" "\<lambda>l r. overlaps (bs ! l) (bs ! r)"] assms
  show ?thesis
    unfolding build_interference_graph_def
    by (auto simp: overlaps_sym [of "bs ! a"] linorder_neq_iff)
qed

end
