(* ===== verification/Json_Instance.thy ===== *)
theory Json_Instance
  imports Plugin "HOL-Library.AList"
begin

text \<open>
  A concrete instance of the JSON accessors, used to evaluate the model on concrete manifests and
  documents. Documents are values; the text of a document is looked up in a table, so that
  \<open>json_of tbl\<close> parses exactly the texts of \<open>tbl\<close>.
\<close>

datatype json =
    JNull | JBool bool | JNum rat | JStr string | JArr "json list" | JObj "(string \<times> json) list"

fun jv_find :: "json \<Rightarrow> string \<Rightarrow> json option" where
  "jv_find (JObj kvs) k = map_of kvs k"
| "jv_find _ k = None"

fun jv_value :: "json \<Rightarrow> string \<Rightarrow> json \<Rightarrow> json option" where
  "jv_value (JObj kvs) k d = Some (case map_of kvs k of None \<Rightarrow> d | Some v \<Rightarrow> v)"
| "jv_value _ k d = None"

fun jv_string :: "json \<Rightarrow> string option" where
  "jv_string (JStr s) = Some s"
| "jv_string _ = None"

fun jv_strings :: "json list \<Rightarrow> string list option" where
  "jv_strings [] = Some []"
| "jv_strings (JStr s # js) = map_option (Cons s) (jv_strings js)"
| "jv_strings _ = None"

fun jv_number :: "json \<Rightarrow> rat option" where
  "jv_number (JNum r) = Some r"
| "jv_number _ = None"

fun jv_elements :: "json \<Rightarrow> json list" where
  "jv_elements (JArr js) = js"
| "jv_elements (JObj kvs) = map snd kvs"
| "jv_elements JNull = []"
| "jv_elements j = [j]"

fun jv_items :: "json \<Rightarrow> (string \<times> json) list" where
  "jv_items (JObj kvs) = kvs"
| "jv_items _ = []"

definition jv_with :: "json \<Rightarrow> string \<Rightarrow> 'a \<Rightarrow> (json \<Rightarrow> 'a option) \<Rightarrow> 'a option" where
  "jv_with j k d f = (case j of
     JObj kvs \<Rightarrow> (case map_of kvs k of None \<Rightarrow> Some d | Some v \<Rightarrow> f v)
   | _ \<Rightarrow> None)"

definition jv_list :: "json \<Rightarrow> string list option" where
  "jv_list j = (case j of JArr js \<Rightarrow> jv_strings js | _ \<Rightarrow> None)"

fun jv_set :: "json \<Rightarrow> string \<Rightarrow> json \<Rightarrow> json option" where
  "jv_set (JObj kvs) k v = Some (JObj (AList.update k v kvs))"
| "jv_set JNull k v = Some (JObj [(k, v)])"
| "jv_set _ k v = None"

definition json_of :: "(string \<times> json) list \<Rightarrow> json json_api" where
  "json_of tbl = \<lparr>
     js_parse = map_of tbl,
     js_object = JObj [],
     js_array = JArr [],
     js_elements = jv_elements,
     js_items = jv_items,
     js_find = jv_find,
     js_at = jv_find,
     js_value = jv_value,
     js_value_string = (\<lambda>j k d. jv_with j k d jv_string),
     js_value_strings = (\<lambda>j k. jv_with j k [] jv_list),
     js_value_u64 = (\<lambda>j k d. jv_with j k d (\<lambda>v. map_option (\<lambda>r. word_of_int \<lfloor>r\<rfloor>) (jv_number v))),
     js_value_u32 = (\<lambda>j k d. jv_with j k d (\<lambda>v. map_option (\<lambda>r. word_of_int \<lfloor>r\<rfloor>) (jv_number v))),
     js_get_string = jv_string,
     js_get_double = jv_number,
     js_is_string = (\<lambda>j. case j of JStr _ \<Rightarrow> True | _ \<Rightarrow> False),
     js_is_number = (\<lambda>j. case j of JNum _ \<Rightarrow> True | _ \<Rightarrow> False),
     js_is_boolean = (\<lambda>j. case j of JBool _ \<Rightarrow> True | _ \<Rightarrow> False),
     js_is_array = (\<lambda>j. case j of JArr _ \<Rightarrow> True | _ \<Rightarrow> False),
     js_set_string = (\<lambda>j k s. jv_set j k (JStr s)),
     js_singleton = (\<lambda>k s. JObj [(k, JStr s)])\<rparr>"

text \<open>A node whose manifest declares an RGBA8 output.\<close>

definition rgba8_manifest :: json where
  "rgba8_manifest = JObj [
     (''ports'', JArr [
        JObj [(''kind'', JStr ''in''), (''name'', JStr ''in''),
              (''caps'', JObj [(''channels'', JArr [JStr ''rgba'']), (''precision'', JArr [JStr ''u8''])])],
        JObj [(''kind'', JStr ''out''), (''name'', JStr ''out''),
              (''caps'', JObj [(''channels'', JArr [JStr ''rgba'']), (''precision'', JArr [JStr ''u8''])])]]),
     (''compute'', JObj [(''out_pixel_bytes'', JNum 4)])]"

definition demo_json :: "json json_api" where
  "demo_json = json_of [(''rgba8'', rgba8_manifest)]"

definition demo_desc :: "unit plugin_desc" where
  "demo_desc = \<lparr>abi_major = 0, abi_minor = 4, node_id = Some ''com.demo.node'',
     node_version = Some ''1'', manifest_json = Some ''rgba8'', main_entry = Some ()\<rparr>"

definition demo_layout :: buffer_layout where
  "demo_layout = default_layout\<lparr>format := R8G8B8A8_UNORM, ndim := 2,
     dims := [8, 4, 0, 0, 0, 0, 0, 0]\<rparr>"

end
