(* ===== verification/Memory_Plan.thy ===== *)
theory Memory_Plan
  imports Memory_Planner Json_Instance
begin

text \<open>
  Correctness of the slot assignment of \<open>MemoryPlanner::plan_graph\<close>. \<open>needed_at\<close> is the planner's
  notion of liveness: the output of a node is needed at step \<open>t\<close> of the order if it is produced at
  \<open>t\<close>, or before and one of its consumers runs after \<open>t\<close>. As in \<open>extend_live_ranges\<close> the step of the
  last consumer is left out (the design note counts it, \<open>death = i + 1\<close>), so a step may write over an
  input that nothing reads later. Two buffers that are needed at the same step never share
  a slot, a slot is as large as the largest buffer it holds, and first-fit uses exactly as many slots
  as there are buffers needed at once.
\<close>

section \<open>Buffers as intervals\<close>

definition live_at :: "nat \<Rightarrow> live_buffer \<Rightarrow> bool" where
  "live_at t b \<longleftrightarrow> lb_start b \<le> t \<and> t < lb_end b"

lemma live_at_overlaps: "live_at t a \<Longrightarrow> live_at t b \<Longrightarrow> overlaps a b"
  by (auto simp: live_at_def overlaps_def)

definition intervals :: "nat list \<Rightarrow> live_buffer list \<Rightarrow> bool" where
  "intervals order bs \<longleftrightarrow> distinct order \<and> set order = {0..<length bs} \<and>
     (\<forall>i < length order. lb_node_index (bs ! (order ! i)) = order ! i \<and>
        lb_start (bs ! (order ! i)) = i \<and> i < lb_end (bs ! (order ! i)))"

lemma intervals_length: "intervals order bs \<Longrightarrow> length order = length bs"
  using distinct_card [of order] by (auto simp: intervals_def)

lemma intervals_nth_less: "intervals order bs \<Longrightarrow> i < length order \<Longrightarrow> order ! i < length bs"
  using nth_mem [of i order] by (auto simp: intervals_def)

section \<open>The colouring loop\<close>

text \<open>
  What holds of the buffers \<open>A\<close> coloured so far and of the slot sizes \<open>S\<close>: \<open>A ! i\<close> is the buffer of
  the \<open>i\<close>-th node with a slot that is large enough, buffers that overlap have different slots, a slot
  has the size of one of its buffers, and at some step as many buffers are live as slots are open.
\<close>

definition assigned_ok :: "live_buffer list \<Rightarrow> nat list \<Rightarrow> live_buffer list \<Rightarrow> u64 list \<Rightarrow> bool" where
  "assigned_ok bs p A S \<longleftrightarrow> length A = length p \<and>
     (\<forall>i < length p. lb_physical_slot (A ! i) < length S \<and>
        A ! i = (bs ! (p ! i))\<lparr>lb_physical_slot := lb_physical_slot (A ! i)\<rparr> \<and>
        lb_size_bytes (A ! i) \<le> S ! lb_physical_slot (A ! i))"

definition slots_disjoint :: "live_buffer list \<Rightarrow> bool" where
  "slots_disjoint A \<longleftrightarrow> (\<forall>j < length A. \<forall>i < j. overlaps (A ! i) (A ! j) \<longrightarrow>
     lb_physical_slot (A ! i) \<noteq> lb_physical_slot (A ! j))"

definition sizes_tight :: "live_buffer list \<Rightarrow> u64 list \<Rightarrow> bool" where
  "sizes_tight A S \<longleftrightarrow> (\<forall>s < length S. \<exists>i < length A. lb_physical_slot (A ! i) = s \<and>
     S ! s = lb_size_bytes (A ! i))"

definition slots_needed :: "live_buffer list \<Rightarrow> u64 list \<Rightarrow> bool" where
  "slots_needed A S \<longleftrightarrow> S = [] \<or>
     (\<exists>t < length A. length S \<le> card {i. i < length A \<and> live_at t (A ! i)})"

definition add_slot :: "nat \<Rightarrow> u64 \<Rightarrow> u64 list \<Rightarrow> u64 list" where
  "add_slot s z S = (if s = length S then S @ [z] else S[s := max (S ! s) z])"

lemma length_add_slot [simp]:
  "length (add_slot s z S) = (if s = length S then Suc (length S) else length S)"
  by (simp add: add_slot_def)

lemma add_slot_ge:
  "r < length S \<Longrightarrow> S ! r \<le> add_slot s z S ! r"
  by (cases "s < length S") (auto simp: add_slot_def nth_append nth_list_update list_update_beyond)

lemma add_slot_same: "s \<le> length S \<Longrightarrow> z \<le> add_slot s z S ! s"
  by (auto simp: add_slot_def nth_append nth_list_update)

lemma add_slot_cases:
  assumes "r < length (add_slot s z S)" and "s \<le> length S"
  obtains "r = s" "add_slot s z S ! r = z" | "r < length S" "add_slot s z S ! r = S ! r"
proof -
  have "r = s \<and> add_slot s z S ! r = z \<or> r < length S \<and> add_slot s z S ! r = S ! r"
    using assms
    by (auto simp: add_slot_def nth_append nth_list_update max_def less_Suc_eq split: if_splits)
  with that show thesis by blast
qed

lemma assigned_ok_step:
  assumes "assigned_ok bs p A S" and "s \<le> length S"
  shows "assigned_ok bs (p @ [v]) (A @ [(bs ! v)\<lparr>lb_physical_slot := s\<rparr>])
    (add_slot s (lb_size_bytes (bs ! v)) S)"
proof -
  have len: "length A = length p" using assms(1) by (simp add: assigned_ok_def)
  have "lb_size_bytes (A ! i) \<le> add_slot s z S ! lb_physical_slot (A ! i)" if "i < length p" for i z
    using assms(1) that add_slot_ge order_trans unfolding assigned_ok_def by blast
  then show ?thesis
    using assms len by (auto simp: assigned_ok_def nth_append less_Suc_eq add_slot_same)
qed

lemma slots_disjoint_step:
  assumes "slots_disjoint A"
    and "\<forall>i < length A. lb_physical_slot (A ! i) = s \<longrightarrow> \<not> overlaps (A ! i) b"
  shows "slots_disjoint (A @ [b\<lparr>lb_physical_slot := s\<rparr>])"
  using assms by (auto simp: slots_disjoint_def nth_append less_Suc_eq overlaps_def)

lemma sizes_tight_step:
  assumes "sizes_tight A S" and "s \<le> length S"
  shows "sizes_tight (A @ [b\<lparr>lb_physical_slot := s\<rparr>]) (add_slot s (lb_size_bytes b) S)"
  unfolding sizes_tight_def
proof (intro allI impI)
  fix r assume r: "r < length (add_slot s (lb_size_bytes b) S)"
  let ?A = "A @ [b\<lparr>lb_physical_slot := s\<rparr>]"
  from r assms(2) show "\<exists>i < length ?A. lb_physical_slot (?A ! i) = r \<and>
      add_slot s (lb_size_bytes b) S ! r = lb_size_bytes (?A ! i)"
  proof (cases rule: add_slot_cases)
    case 1
    then show ?thesis by (intro exI [of _ "length A"]) simp
  next
    case 2
    with assms(1) obtain i where "i < length A" "lb_physical_slot (A ! i) = r"
      "S ! r = lb_size_bytes (A ! i)"
      by (auto simp: sizes_tight_def)
    with 2 show ?thesis by (intro exI [of _ i]) (simp add: nth_append)
  qed
qed

lemma card_surj_Suc:
  assumes "finite L" and "k \<in> L" and "{0..<n} \<subseteq> f ` (L - {k})"
  shows "Suc n \<le> card L"
proof -
  have "n \<le> card (L - {k})"
    using surj_card_le [of "L - {k}" "{0..<n}" f] assms by simp
  with assms(1,2) show ?thesis by (simp add: card_Suc_Diff1 [symmetric] del: card_Diff_insert)
qed

lemma slots_needed_step:
  assumes "slots_needed A S" and "s \<le> length S"
    and new: "s = length S \<Longrightarrow>
      \<forall>r < length S. \<exists>i < length A. lb_physical_slot (A ! i) = r \<and> live_at (length A) (A ! i)"
    and b: "live_at (length A) b"
  shows "slots_needed (A @ [b\<lparr>lb_physical_slot := s\<rparr>]) (add_slot s z S)"
proof (cases "s = length S")
  case True
  let ?A = "A @ [b\<lparr>lb_physical_slot := s\<rparr>]"
  let ?L = "{i. i < length ?A \<and> live_at (length A) (?A ! i)}"
  have "\<exists>i \<in> ?L - {length A}. r = lb_physical_slot (?A ! i)" if "r < length S" for r
  proof -
    from new [OF True] that obtain i where "i < length A" "lb_physical_slot (A ! i) = r"
      "live_at (length A) (A ! i)" by blast
    then show ?thesis by (intro bexI [of _ i]) (auto simp: nth_append)
  qed
  then have "{0..<length S} \<subseteq> (\<lambda>i. lb_physical_slot (?A ! i)) ` (?L - {length A})"
    by (auto simp: image_iff)
  then have "Suc (length S) \<le> card ?L"
    by (rule card_surj_Suc [rotated 2]) (use b in \<open>auto simp: live_at_def\<close>)
  with True show ?thesis
    unfolding slots_needed_def by (intro disjI2 exI [of _ "length A"]) simp
next
  case False
  with assms(1,2) obtain t where t: "t < length A"
    "length S \<le> card {i. i < length A \<and> live_at t (A ! i)}"
    by (auto simp: slots_needed_def)
  have "card {i. i < length A \<and> live_at t (A ! i)}
      \<le> card {i. i < length (A @ [b\<lparr>lb_physical_slot := s\<rparr>]) \<and> live_at t ((A @ [b\<lparr>lb_physical_slot := s\<rparr>]) ! i)}"
    by (intro card_mono) (auto simp: nth_append)
  with t False show ?thesis
    unfolding slots_needed_def by (intro disjI2 exI [of _ t]) auto
qed

definition color_inv :: "live_buffer list \<Rightarrow> nat list \<Rightarrow> live_buffer list \<times> u64 list \<Rightarrow> bool" where
  "color_inv bs p st \<longleftrightarrow> (case st of (A, S) \<Rightarrow>
     assigned_ok bs p A S \<and> slots_disjoint A \<and> sizes_tight A S \<and> slots_needed A S)"

lemma assigned_ok_start:
  assumes "assigned_ok bs (take k order) A S" and "intervals order bs" and "k \<le> length order"
    and "i < k"
  shows "lb_start (A ! i) = i" and "lb_node_index (A ! i) = order ! i"
    and "overlaps (A ! i) b \<longleftrightarrow> overlaps (bs ! (order ! i)) b"
proof -
  have a: "A ! i = (bs ! (order ! i))\<lparr>lb_physical_slot := lb_physical_slot (A ! i)\<rparr>"
    using assms unfolding assigned_ok_def by (metis length_take min.absorb2 nth_take)
  have "lb_start (bs ! (order ! i)) = i" "lb_node_index (bs ! (order ! i)) = order ! i"
    using assms by (auto simp: intervals_def)
  then show "lb_start (A ! i) = i" "lb_node_index (A ! i) = order ! i"
    "overlaps (A ! i) b \<longleftrightarrow> overlaps (bs ! (order ! i)) b"
    by (subst a; simp add: overlaps_def)+
qed

lemma slot_available_iff:
  assumes ok: "assigned_ok bs (take k order) A S" and iv: "intervals order bs" and k: "k < length order"
  shows "slot_available A (build_interference_graph bs) (bs ! (order ! k)) s \<longleftrightarrow>
    (\<forall>i < length A. lb_physical_slot (A ! i) = s \<longrightarrow> \<not> overlaps (A ! i) (bs ! (order ! k)))"
proof -
  have len: "length A = k" using ok k by (simp add: assigned_ok_def)
  have c: "order ! k < length bs" "lb_node_index (bs ! (order ! k)) = order ! k"
    using iv k by (auto simp: intervals_def intervals_nth_less)
  have "build_interference_graph bs ! lb_node_index (bs ! (order ! k)) ! lb_node_index (A ! i)
      \<longleftrightarrow> overlaps (A ! i) (bs ! (order ! k))" if i: "i < k" for i
  proof -
    have "order ! i < length bs" "order ! i \<noteq> order ! k"
      using i k iv by (auto simp: intervals_nth_less) (auto simp: intervals_def nth_eq_iff_index_eq)
    then show ?thesis
      using c build_interference_graph_nth [OF c(1)] overlaps_sym
        assigned_ok_start [OF ok iv less_imp_le [OF k] i] by metis
  qed
  then show ?thesis by (auto simp: slot_available_def list_ex_length len)
qed

lemma color_step:
  assumes inv: "color_inv bs (take k order) (A, S)" and iv: "intervals order bs"
    and k: "k < length order"
  shows "color_inv bs (take (Suc k) order)
    (color_buffer bs (build_interference_graph bs) (order ! k) (A, S))"
proof -
  let ?c = "bs ! (order ! k)"
  let ?avail = "slot_available A (build_interference_graph bs) ?c"
  from inv have ok: "assigned_ok bs (take k order) A S" by (simp add: color_inv_def)
  note av = slot_available_iff [OF ok iv k]
  note start = assigned_ok_start [OF ok iv less_imp_le [OF k]]
  have len: "length A = k" using ok k by (simp add: assigned_ok_def)
  have "\<forall>i < k. lb_physical_slot (A ! i) < length S" using ok k by (simp add: assigned_ok_def)
  then have "?avail (length S)" using len unfolding av by fastforce
  then obtain s where s: "find ?avail [0..<Suc (length S)] = Some s"
    by (metis atLeastLessThan_iff find_None_iff le0 lessI not_None_eq set_upt)
  then have sle: "s \<le> length S" and sav: "?avail s" and first: "\<forall>r < s. \<not> ?avail r"
    by (auto simp: find_Some_iff less_Suc_eq_le simp del: upt_Suc)
  have "live_at (length A) ?c" using iv k len by (simp add: live_at_def intervals_def)
  moreover have "\<exists>i < length A. lb_physical_slot (A ! i) = r \<and> live_at (length A) (A ! i)"
    if "s = length S" "r < length S" for r
  proof -
    from that first have "\<not> ?avail r" by simp
    then obtain i where "i < length A" "lb_physical_slot (A ! i) = r" "overlaps (A ! i) ?c"
      unfolding av by blast
    then show ?thesis using start(1) iv k len
      by (intro exI [of _ i]) (auto simp: overlaps_def live_at_def intervals_def)
  qed
  ultimately have "slots_needed (A @ [?c\<lparr>lb_physical_slot := s\<rparr>]) (add_slot s (lb_size_bytes ?c) S)"
    using inv sle by (intro slots_needed_step) (auto simp: color_inv_def)
  moreover have "slots_disjoint (A @ [?c\<lparr>lb_physical_slot := s\<rparr>])"
    using inv sav unfolding av by (intro slots_disjoint_step) (auto simp: color_inv_def)
  moreover have "color_buffer bs (build_interference_graph bs) (order ! k) (A, S)
      = (A @ [?c\<lparr>lb_physical_slot := s\<rparr>], add_slot s (lb_size_bytes ?c) S)"
    by (simp add: color_buffer_def s Let_def add_slot_def del: upt_Suc)
  ultimately show ?thesis
    using inv sle assigned_ok_step [OF ok sle] sizes_tight_step [of A S s ?c]
    by (simp add: color_inv_def take_Suc_conv_app_nth k)
qed

lemma color_buffers_inv:
  assumes "intervals order bs"
  shows "color_inv bs order (color_buffers bs order (build_interference_graph bs))"
proof -
  have "k \<le> length order \<Longrightarrow> color_inv bs (take k order)
      (fold (color_buffer bs (build_interference_graph bs)) (take k order) ([], []))" for k
  proof (induction k)
    case 0
    then show ?case
      by (simp add: color_inv_def assigned_ok_def slots_disjoint_def sizes_tight_def slots_needed_def)
  next
    case (Suc k)
    then show ?case
      using color_step [OF _ assms, of k] by (cases "fold (color_buffer bs (build_interference_graph bs))
        (take k order) ([], [])") (simp add: take_Suc_conv_app_nth)
  qed
  from this [of "length order"] show ?thesis by (simp add: color_buffers_def)
qed

section \<open>Liveness\<close>

definition needed_at :: "nat list \<Rightarrow> memory_graph_edge list \<Rightarrow> nat \<Rightarrow> nat \<Rightarrow> bool" where
  "needed_at order es v t \<longleftrightarrow> (\<exists>i < length order. order ! i = v \<and> i \<le> t \<and>
     (t = i \<or> (\<exists>j < length order. (v, order ! j) \<in> set es \<and> t < j)))"

lemma live_at_needed:
  assumes order: "distinct order" "set order = {0..<length bs}"
    and fresh: "fresh_buffers order bs" and v: "v < length bs"
  shows "live_at t (extend_live_ranges (topological_positions (length bs) order) es bs ! v)
    \<longleftrightarrow> needed_at order es v t"
proof -
  let ?ps = "topological_positions (length bs) order"
  let ?b = "extend_live_ranges ?ps es bs ! v"
  from order v obtain i where i: "i < length order" "order ! i = v"
    by (metis atLeastLessThan_iff in_set_conv_nth le0)
  have pos: "?ps ! (order ! j) = j" if "j < length order" for j
    using topological_positions_nth [OF order(1) _ that] order(2) by simp
  have ex: "(\<exists>w. (v, w) \<in> set es \<and> w < length bs \<and> t < ?ps ! w) \<longleftrightarrow>
      (\<exists>j < length order. (v, order ! j) \<in> set es \<and> t < j)"
    using order(2) pos by (metis atLeastLessThan_iff in_set_conv_nth le0 nth_mem)
  have eq: "?b = (bs ! v)\<lparr>lb_end := lb_end ?b\<rparr>"
    using extend_live_ranges_spec [of ?ps es bs] v by blast
  have "lb_start ?b = lb_start (bs ! v)" by (subst eq) simp
  moreover have "t < lb_end ?b \<longleftrightarrow> t < lb_end (bs ! v) \<or>
      (\<exists>w. (v, w) \<in> set es \<and> w < length bs \<and> t < ?ps ! w)"
    using extend_live_ranges_spec [of ?ps es bs] v by blast
  moreover have "lb_start (bs ! v) = i" "lb_end (bs ! v) = Suc i"
    using fresh i by (auto simp: fresh_buffers_def)
  ultimately have "live_at t ?b \<longleftrightarrow> i \<le> t \<and> (t < Suc i \<or>
      (\<exists>j < length order. (v, order ! j) \<in> set es \<and> t < j))"
    by (simp only: live_at_def ex)
  also have "\<dots> \<longleftrightarrow> needed_at order es v t"
    using i order(1) by (auto simp: needed_at_def nth_eq_iff_index_eq less_Suc_eq_le)
  finally show ?thesis .
qed

lemma intervals_extend:
  assumes order: "distinct order" "set order = {0..<length bs}" and fresh: "fresh_buffers order bs"
  shows "intervals order (extend_live_ranges ps es bs)"
proof -
  have "lb_node_index (extend_live_ranges ps es bs ! (order ! i)) = order ! i \<and>
      lb_start (extend_live_ranges ps es bs ! (order ! i)) = i \<and>
      i < lb_end (extend_live_ranges ps es bs ! (order ! i))" if i: "i < length order" for i
  proof -
    let ?b = "extend_live_ranges ps es bs ! (order ! i)"
    have v: "order ! i < length bs" using order i nth_mem by fastforce
    have eq: "?b = (bs ! (order ! i))\<lparr>lb_end := lb_end ?b\<rparr>"
      using extend_live_ranges_spec [of ps es bs] v by blast
    have "i < lb_end ?b"
      using extend_live_ranges_spec [of ps es bs] v fresh i by (auto simp: fresh_buffers_def)
    moreover have "lb_node_index ?b = order ! i" "lb_start ?b = i"
      by (subst eq, use fresh i in \<open>simp add: fresh_buffers_def\<close>)+
    ultimately show ?thesis by blast
  qed
  with order show ?thesis
    using extend_live_ranges_spec [of ps es bs] by (simp add: intervals_def)
qed

section \<open>The plan\<close>

text \<open>Everything the properties below use, for a plan of at least one node.\<close>

lemma plan_graph_cases:
  assumes "plan_graph J l nodes es = Inr mp" and "nodes \<noteq> []"
    and "topological_order (length nodes) es = Some order"
  obtains bs A S where "mp = make_plan (size_bytes l) S A" and "intervals order bs"
    and "length bs = length nodes" and "color_inv bs order (A, S)"
    and "\<And>v t. v < length nodes \<Longrightarrow> live_at t (bs ! v) \<longleftrightarrow> needed_at order es v t"
    and "\<And>v. v < length nodes \<Longrightarrow> \<exists>bpp. output_bytes_per_pixel J (nodes ! v) = Inr bpp \<and>
          lb_size_bytes (bs ! v) = pixel_count l * bpp"
proof -
  note perm = topological_order_perm [OF assms(3)]
  from assms obtain bs0 where
    bs0: "make_live_buffers J nodes order (pixel_count l) = Inr bs0"
    and mp: "(case color_buffers (extend_live_ranges (topological_positions (length nodes) order) es bs0)
        order (build_interference_graph
          (extend_live_ranges (topological_positions (length nodes) order) es bs0)) of
      (A, S) \<Rightarrow> Inr (make_plan (size_bytes l) S A)) = (Inr mp :: stop + memory_plan)"
    by (auto simp: plan_graph_def Let_def bind_res_eq_Inr_iff)
  let ?bs = "extend_live_ranges (topological_positions (length nodes) order) es bs0"
  have fresh: "length bs0 = length nodes" "fresh_buffers order bs0"
    and size: "\<forall>v \<in> set order. \<exists>bpp. output_bytes_per_pixel J (nodes ! v) = Inr bpp \<and>
       lb_size_bytes (bs0 ! v) = pixel_count l * bpp"
    using make_live_buffers_spec [OF bs0 perm(1)] perm(2) by auto
  have iv: "intervals order ?bs" and len: "length ?bs = length nodes"
    using intervals_extend [OF perm(1) _ fresh(2)] perm(2) fresh(1)
      extend_live_ranges_spec [of "topological_positions (length nodes) order" es bs0] by simp_all
  obtain A S where AS: "color_buffers ?bs order (build_interference_graph ?bs) = (A, S)" by fastforce
  have "color_inv ?bs order (A, S)" using color_buffers_inv [OF iv] AS by simp
  moreover have "live_at t (?bs ! v) \<longleftrightarrow> needed_at order es v t" if "v < length nodes" for v t
    using live_at_needed [OF perm(1) _ fresh(2), of v t es] perm(2) fresh(1) that by simp
  moreover have "\<exists>bpp. output_bytes_per_pixel J (nodes ! v) = Inr bpp \<and>
          lb_size_bytes (?bs ! v) = pixel_count l * bpp" if v: "v < length nodes" for v
  proof -
    have "?bs ! v = (bs0 ! v)\<lparr>lb_end := lb_end (?bs ! v)\<rparr>"
      using extend_live_ranges_spec [of "topological_positions (length nodes) order" es bs0] v fresh(1)
      by auto
    then have "lb_size_bytes (?bs ! v) = lb_size_bytes (bs0 ! v)"
      by (metis live_buffer.select_convs(4) live_buffer.surjective live_buffer.update_convs(3))
    with size v perm(2) show ?thesis by auto
  qed
  ultimately show thesis
    using iv len mp AS by (intro that [of S A ?bs]) simp_all
qed

lemma assigned_ok_nth:
  assumes "assigned_ok bs order A S" and "intervals order bs" and "i < length order"
  shows "lb_node_index (A ! i) = order ! i" "lb_size_bytes (A ! i) = lb_size_bytes (bs ! (order ! i))"
    "live_at t (A ! i) = live_at t (bs ! (order ! i))"
proof -
  have a: "A ! i = (bs ! (order ! i))\<lparr>lb_physical_slot := lb_physical_slot (A ! i)\<rparr>"
    using assms by (simp add: assigned_ok_def)
  show "lb_node_index (A ! i) = order ! i" "lb_size_bytes (A ! i) = lb_size_bytes (bs ! (order ! i))"
    "live_at t (A ! i) = live_at t (bs ! (order ! i))"
    by (subst a, use assms(2,3) in \<open>simp add: intervals_def live_at_def\<close>)+
qed

lemma needed_positions_inj:
  assumes "color_inv bs order (A, S)"
  shows "inj_on (\<lambda>i. lb_physical_slot (A ! i)) {i. i < length order \<and> live_at t (A ! i)}"
proof -
  have len: "length A = length order" and dis: "slots_disjoint A"
    using assms by (auto simp: color_inv_def assigned_ok_def)
  have "\<not> i < j" if "j < length order" "live_at t (A ! i)" "live_at t (A ! j)"
    "lb_physical_slot (A ! i) = lb_physical_slot (A ! j)" for i j
    using that dis live_at_overlaps [of t "A ! i" "A ! j"] unfolding len [symmetric] slots_disjoint_def
    by blast
  then show ?thesis unfolding inj_on_def by (metis (no_types, lifting) linorder_neqE_nat mem_Collect_eq)
qed

lemma card_needed:
  assumes "distinct (order :: nat list)" and "set order = {0..<n}"
  shows "card {i. i < length order \<and> P (order ! i)} = card {v. v < n \<and> P v}"
proof -
  have "{v. v < n \<and> P v} = (\<lambda>i. order ! i) ` {i. i < length order \<and> P (order ! i)}"
  proof (intro set_eqI iffI)
    fix v assume "v \<in> {v. v < n \<and> P v}"
    then have "P v" "v \<in> set order" using assms(2) by auto
    then obtain i where "i < length order" "order ! i = v" by (auto simp: in_set_conv_nth)
    with \<open>P v\<close> show "v \<in> (\<lambda>i. order ! i) ` {i. i < length order \<and> P (order ! i)}"
      by (intro image_eqI [of _ _ i]) auto
  next
    fix v assume "v \<in> (\<lambda>i. order ! i) ` {i. i < length order \<and> P (order ! i)}"
    then obtain i where i: "i < length order" "v = order ! i" "P v" by auto
    then have "v \<in> set order" by simp
    with i(3) assms(2) show "v \<in> {v. v < n \<and> P v}" by simp
  qed
  moreover have "inj_on (\<lambda>i. order ! i) {i. i < length order \<and> P (order ! i)}"
    using assms(1) by (auto simp: inj_on_def nth_eq_iff_index_eq)
  ultimately show ?thesis by (simp add: card_image)
qed

lemma card_live_eq:
  assumes "assigned_ok bs order A S" and "intervals order bs"
    and "\<And>v t. v < length bs \<Longrightarrow> live_at t (bs ! v) \<longleftrightarrow> needed_at order es v t"
  shows "card {i. i < length order \<and> live_at t (A ! i)} = card {v. v < length bs \<and> needed_at order es v t}"
proof -
  have "{i. i < length order \<and> live_at t (A ! i)} = {i. i < length order \<and> needed_at order es (order ! i) t}"
    using assigned_ok_nth(3) [OF assms(1,2)] assms(3) intervals_nth_less [OF assms(2)] by auto
  then show ?thesis
    using card_needed [of order "length bs" "\<lambda>v. needed_at order es v t"] assms(2)
    by (simp add: intervals_def)
qed

lemma sum_needed_le_slots:
  assumes "color_inv bs order (A, S)" and "intervals order bs"
  shows "(\<Sum>i | i < length order \<and> live_at t (A ! i). unat (lb_size_bytes (A ! i))) \<le> sum_list (map unat S)"
proof -
  let ?L = "{i. i < length order \<and> live_at t (A ! i)}" and ?slot = "\<lambda>i. lb_physical_slot (A ! i)"
  have ok: "assigned_ok bs order A S" using assms(1) by (simp add: color_inv_def)
  have "(\<Sum>i \<in> ?L. unat (lb_size_bytes (A ! i))) \<le> (\<Sum>i \<in> ?L. unat (S ! ?slot i))"
    by (rule sum_mono) (use ok in \<open>auto simp: assigned_ok_def word_le_nat_alt\<close>)
  also have "\<dots> = (\<Sum>s \<in> ?slot ` ?L. unat (S ! s))"
    using needed_positions_inj [OF assms(1)] by (simp add: sum.reindex)
  also have "\<dots> \<le> (\<Sum>s \<in> {0..<length S}. unat (S ! s))"
    by (rule sum_mono2) (use ok in \<open>auto simp: assigned_ok_def\<close>)
  also have "\<dots> = sum_list (map unat S)"
    by (simp add: sum_list_sum_nth)
  finally show ?thesis .
qed

lemma sum_slots_le_sizes:
  assumes "sizes_tight A S"
  shows "sum_list (map unat S) \<le> sum_list (map (\<lambda>b. unat (lb_size_bytes b)) A)"
proof -
  from assms obtain f where f: "\<forall>s < length S. f s < length A \<and> lb_physical_slot (A ! f s) = s \<and>
      S ! s = lb_size_bytes (A ! f s)"
    unfolding sizes_tight_def by metis
  then have inj: "inj_on f {0..<length S}" by (auto simp: inj_on_def) metis
  have "sum_list (map unat S) = (\<Sum>s \<in> {0..<length S}. unat (lb_size_bytes (A ! f s)))"
    using f by (simp add: sum_list_sum_nth)
  also have "\<dots> = (\<Sum>i \<in> f ` {0..<length S}. unat (lb_size_bytes (A ! i)))"
    using inj by (simp add: sum.reindex)
  also have "\<dots> \<le> (\<Sum>i \<in> {0..<length A}. unat (lb_size_bytes (A ! i)))"
    by (rule sum_mono2) (use f in auto)
  finally show ?thesis by (simp add: sum_list_sum_nth)
qed

text \<open>The size of a slot is that of the largest buffer in it, and no slot is empty.\<close>

lemma slots_used:
  assumes "assigned_ok bs order A S" and "sizes_tight A S"
  shows "lb_physical_slot ` set A = {..<length S}"
  using assms unfolding assigned_ok_def sizes_tight_def by (force simp: in_set_conv_nth image_iff)

lemma slot_size_Max:
  assumes "assigned_ok bs order A S" and "sizes_tight A S" and "s < length S"
  shows "unat (S ! s) = Max ((\<lambda>b. unat (lb_size_bytes b)) ` {b \<in> set A. lb_physical_slot b = s})"
proof (rule Max_eqI [symmetric])
  show "finite ((\<lambda>b. unat (lb_size_bytes b)) ` {b \<in> set A. lb_physical_slot b = s})" by simp
  show "y \<le> unat (S ! s)"
    if "y \<in> (\<lambda>b. unat (lb_size_bytes b)) ` {b \<in> set A. lb_physical_slot b = s}" for y
    using that assms(1) by (auto simp: assigned_ok_def word_le_nat_alt in_set_conv_nth)
  show "unat (S ! s) \<in> (\<lambda>b. unat (lb_size_bytes b)) ` {b \<in> set A. lb_physical_slot b = s}"
    using assms(2,3) unfolding sizes_tight_def by force
qed

lemma make_plan_assignments:
  "(\<lambda>a. unat (ma_size_bytes a)) ` {a \<in> set (assignments (make_plan z S A)). ma_physical_slot a = s}
   = (\<lambda>b. unat (lb_size_bytes b)) ` {b \<in> set A. lb_physical_slot b = s}"
  by (force simp: make_plan_def image_iff)

lemma sum_needed_le:
  assumes inv: "color_inv bs order (A, S)" and iv: "intervals order bs"
    and live: "\<And>v. v < length bs \<Longrightarrow> live_at t (bs ! v) \<longleftrightarrow> needed_at order es v t"
  shows "(\<Sum>b \<leftarrow> [b \<leftarrow> A. needed_at order es (lb_node_index b) t]. unat (lb_size_bytes b))
    \<le> sum_list (map unat S)"
proof -
  from inv have ok: "assigned_ok bs order A S" by (simp add: color_inv_def)
  note nth = assigned_ok_nth [OF ok iv]
  have lenA: "length A = length order" using ok by (simp add: assigned_ok_def)
  have need: "needed_at order es (lb_node_index (A ! i)) t \<longleftrightarrow> live_at t (A ! i)"
    if "i < length order" for i
    using nth(1,3) [OF that] live intervals_nth_less [OF iv that] by simp
  have "(\<Sum>b \<leftarrow> [b \<leftarrow> A. needed_at order es (lb_node_index b) t]. unat (lb_size_bytes b))
      = (\<Sum>i \<in> {0..<length A}. if needed_at order es (lb_node_index (A ! i)) t
           then unat (lb_size_bytes (A ! i)) else 0)"
    by (subst sum_list_map_filter') (simp add: sum_list_sum_nth)
  also have "\<dots> = (\<Sum>i | i < length order \<and> live_at t (A ! i). unat (lb_size_bytes (A ! i)))"
    using need lenA by (intro sum.mono_neutral_cong_right) auto
  also have "\<dots> \<le> sum_list (map unat S)" by (rule sum_needed_le_slots [OF inv iv])
  finally show ?thesis .
qed

section \<open>A concrete plan\<close>

text \<open>
  The fan-out graph of the planner's unit tests: node 0 feeds nodes 1 and 2, which feed node 3. Every
  node writes an RGBA8 image of 8 by 4 pixels.
\<close>

lemma plan_graph_eqI:
  assumes "nodes \<noteq> []" and "topological_order (length nodes) es = Some order"
    and "make_live_buffers J nodes order (pixel_count l) = Inr b0"
    and "extend_live_ranges (topological_positions (length nodes) order) es b0 = bs"
    and "color_buffers bs order (build_interference_graph bs) = (A, S)"
  shows "plan_graph J l nodes es = Inr (make_plan (size_bytes l) S A)"
  using assms by (simp add: plan_graph_def Let_def)

definition demo_nodes :: "unit plugin_desc option list" where
  "demo_nodes = replicate 4 (Some demo_desc)"

definition demo_edges :: "memory_graph_edge list" where
  "demo_edges = [(0, 1), (0, 2), (1, 3), (2, 3)]"

definition demo_plan :: memory_plan where
  "demo_plan = \<lparr>peak_bytes = 384, physical_slot_count = 2, assignments =
     map (\<lambda>(v, s). \<lparr>ma_buffer_id = v, ma_node_index = v, ma_physical_slot = s, ma_size_bytes = 128\<rparr>)
       [(0, 0), (1, 1), (2, 0), (3, 0)]\<rparr>"

lemma demo_order: "topological_order (length demo_nodes) demo_edges = Some [0, 1, 2, 3]"
  by code_simp

lemma demo_plan_graph: "plan_graph demo_json demo_layout demo_nodes demo_edges = Inr demo_plan"
proof -
  let ?b = "\<lambda>v e s. \<lparr>lb_node_index = v, lb_start = v, lb_end = e, lb_size_bytes = 128, lb_physical_slot = s\<rparr>"
  have "plan_graph demo_json demo_layout demo_nodes demo_edges = Inr (make_plan (size_bytes demo_layout)
      [128, 128] [?b 0 2 0, ?b 1 3 1, ?b 2 3 0, ?b 3 4 0])"
  proof (rule plan_graph_eqI [OF _ demo_order])
    show "make_live_buffers demo_json demo_nodes [0, 1, 2, 3] (pixel_count demo_layout)
        = Inr [?b 0 1 0, ?b 1 2 0, ?b 2 3 0, ?b 3 4 0]"
      by code_simp
    show "extend_live_ranges (topological_positions (length demo_nodes) [0, 1, 2, 3]) demo_edges
        [?b 0 1 0, ?b 1 2 0, ?b 2 3 0, ?b 3 4 0] = [?b 0 2 0, ?b 1 3 0, ?b 2 3 0, ?b 3 4 0]"
      by code_simp
    show "color_buffers [?b 0 2 0, ?b 1 3 0, ?b 2 3 0, ?b 3 4 0] [0, 1, 2, 3]
        (build_interference_graph [?b 0 2 0, ?b 1 3 0, ?b 2 3 0, ?b 3 4 0])
        = ([?b 0 2 0, ?b 1 3 1, ?b 2 3 0, ?b 3 4 0], [128, 128])"
      by code_simp
  qed (simp add: demo_nodes_def)
  also have "make_plan (size_bytes demo_layout) [128, 128] [?b 0 2 0, ?b 1 3 1, ?b 2 3 0, ?b 3 4 0]
      = demo_plan"
    by code_simp
  finally show ?thesis .
qed

section \<open>Properties\<close>

text \<open>
  C1: two different nodes whose outputs are needed at the same step of the execution order are
  assigned different physical slots, so the output of a step never takes the slot of a buffer that a
  later step still has to read. It may take the slot of an input that has no later reader.
\<close>

theorem plan_graph_disjoint:
  assumes "plan_graph J l nodes es = Inr mp"
    and order: "topological_order (length nodes) es = Some order"
    and a: "a \<in> set (assignments mp)" and b: "b \<in> set (assignments mp)"
    and "ma_node_index a \<noteq> ma_node_index b"
    and na: "needed_at order es (ma_node_index a) t" and nb: "needed_at order es (ma_node_index b) t"
  shows "ma_physical_slot a \<noteq> ma_physical_slot b"
proof -
  have "nodes \<noteq> []" using assms(1) a by (auto simp: plan_graph_def)
  from plan_graph_cases [OF assms(1) this order] obtain bs A S
    where mp: "mp = make_plan (size_bytes l) S A" and iv: "intervals order bs"
      and len: "length bs = length nodes" and inv: "color_inv bs order (A, S)"
      and live: "\<And>v t. v < length nodes \<Longrightarrow> live_at t (bs ! v) \<longleftrightarrow> needed_at order es v t"
    by metis
  from inv have ok: "assigned_ok bs order A S" by (simp add: color_inv_def)
  from a b mp ok obtain i j where ij: "i < length order" "j < length order"
    "ma_node_index a = lb_node_index (A ! i)" "ma_physical_slot a = lb_physical_slot (A ! i)"
    "ma_node_index b = lb_node_index (A ! j)" "ma_physical_slot b = lb_physical_slot (A ! j)"
    by (auto simp: make_plan_def in_set_conv_nth assigned_ok_def)
  note nth = assigned_ok_nth [OF ok iv]
  have "live_at t (A ! i)" "live_at t (A ! j)"
    using na nb ij nth live intervals_nth_less [OF iv] len by auto
  with ij assms(5) needed_positions_inj [OF inv, of t] show ?thesis
    by (auto simp: inj_on_def)
qed

theorem plan_graph_disjoint_witness:
  "ma_physical_slot (assignments demo_plan ! 1) \<noteq> ma_physical_slot (assignments demo_plan ! 2)"
proof (rule plan_graph_disjoint [OF demo_plan_graph demo_order])
  show "needed_at [0, 1, 2, 3] demo_edges (ma_node_index (assignments demo_plan ! 1)) 2"
    unfolding needed_at_def
    by (rule exI [of _ 1]) (auto simp: demo_plan_def demo_edges_def intro!: exI [of _ 3])
  show "needed_at [0, 1, 2, 3] demo_edges (ma_node_index (assignments demo_plan ! 2)) 2"
    unfolding needed_at_def by (rule exI [of _ 2]) (simp add: demo_plan_def)
qed (simp_all add: demo_plan_def)

text \<open>
  A plan assigns one buffer to every node, in the execution order, with the size the manifest
  declares for it and a slot below the slot count; the order lists every node once.
\<close>

lemma plan_graph_assigns_all:
  assumes "plan_graph J l nodes es = Inr mp"
  shows "topological_order (length nodes) es = Some (map ma_node_index (assignments mp)) \<and>
    distinct (map ma_node_index (assignments mp)) \<and>
    set (map ma_node_index (assignments mp)) = {0..<length nodes} \<and>
    (\<forall>a \<in> set (assignments mp). ma_buffer_id a = ma_node_index a \<and>
      ma_physical_slot a < physical_slot_count mp \<and>
      (\<exists>bpp. output_bytes_per_pixel J (nodes ! ma_node_index a) = Inr bpp \<and>
         ma_size_bytes a = pixel_count l * bpp))"
proof -
  obtain order where order: "topological_order (length nodes) es = Some order"
    using topological_order_total by blast
  note perm = topological_order_perm [OF order]
  show ?thesis
  proof (cases "nodes = []")
    case True
    with assms(1) perm order show ?thesis by (auto simp: plan_graph_def)
  next
    case False
    from plan_graph_cases [OF assms(1) this order] obtain bs A S
      where mp: "mp = make_plan (size_bytes l) S A" and iv: "intervals order bs"
        and len: "length bs = length nodes" and inv: "color_inv bs order (A, S)"
        and size: "\<And>v. v < length nodes \<Longrightarrow> \<exists>bpp. output_bytes_per_pixel J (nodes ! v) = Inr bpp \<and>
          lb_size_bytes (bs ! v) = pixel_count l * bpp"
      by metis
    from inv have ok: "assigned_ok bs order A S" by (simp add: color_inv_def)
    note nth = assigned_ok_nth [OF ok iv]
    have lenA: "length A = length order" using ok by (simp add: assigned_ok_def)
    have "map lb_node_index A = order" using nth(1) lenA by (auto intro: nth_equalityI)
    moreover have "lb_physical_slot c < length S \<and>
        (\<exists>bpp. output_bytes_per_pixel J (nodes ! lb_node_index c) = Inr bpp \<and>
          lb_size_bytes c = pixel_count l * bpp)" if c: "c \<in> set A" for c
    proof -
      from c obtain i where i: "i < length order" "c = A ! i" by (auto simp: in_set_conv_nth lenA)
      with ok have "lb_physical_slot c < length S" by (simp add: assigned_ok_def)
      with i size [of "order ! i"] nth(1,2) [OF i(1)] intervals_nth_less [OF iv i(1)] len
      show ?thesis by simp
    qed
    ultimately show ?thesis unfolding mp using order perm(1,2) by (simp add: make_plan_def comp_def)
  qed
qed

text \<open>
  C2: first-fit colouring is optimal. At no step are more outputs needed than there are slots, and
  at some step exactly as many are needed.
\<close>

theorem plan_graph_slot_count:
  assumes "plan_graph J l nodes es = Inr mp" and "nodes \<noteq> []"
    and "topological_order (length nodes) es = Some order"
  shows "(\<forall>t. card {v. v < length nodes \<and> needed_at order es v t} \<le> physical_slot_count mp) \<and>
    (\<exists>t. card {v. v < length nodes \<and> needed_at order es v t} = physical_slot_count mp)"
proof -
  from plan_graph_cases [OF assms] obtain bs A S
    where mp: "mp = make_plan (size_bytes l) S A" and iv: "intervals order bs"
      and len: "length bs = length nodes" and inv: "color_inv bs order (A, S)"
      and live: "\<And>v t. v < length nodes \<Longrightarrow> live_at t (bs ! v) \<longleftrightarrow> needed_at order es v t"
    by metis
  from inv have ok: "assigned_ok bs order A S" and need: "slots_needed A S"
    by (simp_all add: color_inv_def)
  have card: "card {i. i < length order \<and> live_at t (A ! i)}
      = card {v. v < length nodes \<and> needed_at order es v t}" for t
    using card_live_eq [OF ok iv, of es t] live len by simp
  have "(\<lambda>i. lb_physical_slot (A ! i)) ` {i. i < length order \<and> live_at t (A ! i)} \<subseteq> {0..<length S}" for t
    using ok by (auto simp: assigned_ok_def)
  then have le: "card {i. i < length order \<and> live_at t (A ! i)} \<le> length S" for t
    using card_inj_on_le [OF needed_positions_inj [OF inv, of t], of "{0..<length S}"] by simp
  have "length order \<noteq> 0" using intervals_length [OF iv] len assms(2) by simp
  with ok have "S \<noteq> []" by (auto simp: assigned_ok_def)
  with need ok obtain t where "length S \<le> card {i. i < length order \<and> live_at t (A ! i)}"
    by (auto simp: slots_needed_def assigned_ok_def)
  with le [of t] have "card {i. i < length order \<and> live_at t (A ! i)} = length S" by simp
  with le mp show ?thesis unfolding card by (auto simp: make_plan_def)
qed

theorem plan_graph_slot_count_witness:
  "\<exists>t. card {v. v < 4 \<and> needed_at [0, 1, 2, 3] demo_edges v t} = 2"
  using plan_graph_slot_count [OF demo_plan_graph _ demo_order]
  by (simp add: demo_nodes_def demo_plan_def)

text \<open>
  C3: when a graph has nodes and the sizes of the input and of all outputs add up without wrapping, the
  reported peak is exactly the input plus, for every slot, the largest output placed in it, and every slot holds an
  output. It therefore covers the input together with the outputs that have been produced at step
  \<open>t\<close> and that a later step still reads. It does not count an output at the step of its last
  reader, where that output and the output of the reader may share one slot.
\<close>

theorem plan_graph_peak:
  assumes "plan_graph J l nodes es = Inr mp"
    and "topological_order (length nodes) es = Some order" and "nodes \<noteq> []"
    and "unat (size_bytes l) + sum_list (map (\<lambda>a. unat (ma_size_bytes a)) (assignments mp)) < 2 ^ 64"
  shows "unat (peak_bytes mp) = unat (size_bytes l) +
      (\<Sum>s < physical_slot_count mp.
         Max ((\<lambda>a. unat (ma_size_bytes a)) ` {a \<in> set (assignments mp). ma_physical_slot a = s})) \<and>
    ma_physical_slot ` set (assignments mp) = {..<physical_slot_count mp} \<and>
    unat (size_bytes l) +
      (\<Sum>a \<leftarrow> [a \<leftarrow> assignments mp. needed_at order es (ma_node_index a) t]. unat (ma_size_bytes a))
    \<le> unat (peak_bytes mp)"
proof -
  from plan_graph_cases [OF assms(1,3,2)] obtain bs A S
    where mp: "mp = make_plan (size_bytes l) S A" and iv: "intervals order bs"
      and len: "length bs = length nodes" and inv: "color_inv bs order (A, S)"
      and live: "\<And>v t. v < length nodes \<Longrightarrow> live_at t (bs ! v) \<longleftrightarrow> needed_at order es v t"
    by metis
  from inv have ok: "assigned_ok bs order A S" and tight: "sizes_tight A S"
    by (simp_all add: color_inv_def)
  have "unat (size_bytes l) + sum_list (map unat S) < 2 ^ 64"
    using assms(4) sum_slots_le_sizes [OF tight] by (simp add: mp make_plan_def comp_def)
  then have peak: "unat (peak_bytes mp) = unat (size_bytes l) + sum_list (map unat S)"
    by (simp add: mp make_plan_def sum_list_word)
  have "unat (S ! s) = Max ((\<lambda>a. unat (ma_size_bytes a)) ` {a \<in> set (assignments mp). ma_physical_slot a = s})"
    if "s < length S" for s
    using slot_size_Max [OF ok tight that] by (simp add: mp make_plan_assignments)
  then have "sum_list (map unat S) = (\<Sum>s < physical_slot_count mp.
      Max ((\<lambda>a. unat (ma_size_bytes a)) ` {a \<in> set (assignments mp). ma_physical_slot a = s}))"
    by (simp add: sum_list_sum_nth mp make_plan_def atLeast0LessThan)
  moreover have "ma_physical_slot ` set (assignments mp) = {..<physical_slot_count mp}"
    using slots_used [OF ok tight] by (simp add: mp make_plan_def image_image)
  moreover have "(\<Sum>a \<leftarrow> [a \<leftarrow> assignments mp. needed_at order es (ma_node_index a) t]. unat (ma_size_bytes a))
      \<le> sum_list (map unat S)"
    using sum_needed_le [OF inv iv, of t es] live len by (simp add: mp make_plan_def filter_map comp_def)
  ultimately show ?thesis using peak by simp
qed

theorem plan_graph_peak_witness:
  "unat (peak_bytes demo_plan) = unat (size_bytes demo_layout) +
      (\<Sum>s < 2. Max ((\<lambda>a. unat (ma_size_bytes a)) ` {a \<in> set (assignments demo_plan). ma_physical_slot a = s}))"
proof -
  have "size_bytes demo_layout = 128" by code_simp
  then show ?thesis
    using plan_graph_peak [OF demo_plan_graph demo_order, of 2]
    by (simp add: demo_plan_def demo_nodes_def)
qed

text \<open>
  The planner terminates on every graph; it fails only when reading a manifest throws.
\<close>

lemma plan_graph_total:
  "(\<exists>mp. plan_graph J l nodes es = Inr mp) \<or>
   (plan_graph J l nodes es = Inl Thrown \<and>
      (\<exists>v < length nodes. output_bytes_per_pixel J (nodes ! v) = Inl Thrown))"
proof -
  obtain order where order: "topological_order (length nodes) es = Some order"
    using topological_order_total by blast
  show ?thesis
    using order make_live_buffers_Inl [OF _ order, of J "pixel_count l"]
    by (cases "make_live_buffers J nodes order (pixel_count l)")
       (auto simp: plan_graph_def Let_def split: prod.splits)
qed

text \<open>
  C4: the execution order the planner uses runs every producer before its consumers exactly when
  the graph has no cycle; on a cyclic graph it falls back to the order of the nodes.
\<close>

theorem topological_order_correct:
  "\<exists>order. topological_order n es = Some order \<and>
     (acyclic (set (in_range n es)) \<longrightarrow>
        (\<forall>(u, v) \<in> set (in_range n es). \<exists>i j. i < j \<and> j < n \<and> order ! i = u \<and> order ! j = v)) \<and>
     (\<not> acyclic (set (in_range n es)) \<longrightarrow> order = [0..<n])"
proof -
  obtain out where out: "kahn n es = Some out" using kahn_total by blast
  note iff = kahn_complete_iff [OF out]
  have "\<exists>i j. i < j \<and> j < n \<and> out ! i = u \<and> out ! j = v"
    if "length out = n" "(u, v) \<in> set (in_range n es)" for u v
  proof -
    have "set out = {0..<n}"
      using kahn_sound [OF out] that(1) by (auto simp: is_topological_def card_subset_eq distinct_card)
    with that have "v \<in> set out" "u < n" "(u, v) \<in> set es" by (auto simp: set_in_range)
    moreover from \<open>v \<in> set out\<close> that(1) obtain j where "j < n" "out ! j = v"
      unfolding in_set_conv_nth by blast
    ultimately show ?thesis
      using is_topological_before [OF kahn_sound [OF out], of u v j] that(1) by auto
  qed
  with iff out show ?thesis
    by (cases "length out = n") (auto simp: topological_order_def)
qed

theorem topological_order_correct_witness:
  "\<exists>order. topological_order 2 [(1, 0)] = Some order \<and>
     (\<not> acyclic (set (in_range 2 [(1, 0)])) \<longrightarrow> order = [0..<2])"
  using topological_order_correct [of 2 "[(1, 0)]"] by blast

end
