(* ===== verification/Precision_Planner.thy ===== *)
theory Precision_Planner
  imports Json_Instance Topological_Order
begin

text \<open>
  The precision planner (\<open>include/cpipe/runtime/PrecisionPlanner.hpp\<close>,
  \<open>src/cpipe/runtime/PrecisionPlanner.cpp\<close>): an edge whose two ports share no precision is replaced
  by a conversion node between them, when the conversion is one the runtime has.
\<close>

section \<open>Data\<close>

record 'e precision_edge =
  pe_from :: "'e plugin_desc option"
  pe_from_port :: string
  pe_to :: "'e plugin_desc option"
  pe_to_port :: string

record ('j, 'e) precision_graph_node =
  gn_id :: string
  gn_descriptor :: "'e plugin_desc option"
  gn_params :: 'j
  gn_implicit :: bool

record precision_graph_edge =
  ge_from :: nat
  ge_to :: nat
  ge_from_port :: string
  ge_to_port :: string

record ('j, 'e) precision_plan =
  pp_nodes :: "('j, 'e) precision_graph_node list"
  pp_edges :: "precision_graph_edge list"
  pp_inserted :: "nat list"

record port_caps =
  pc_channels :: "string list"
  pc_precisions :: "string list"

section \<open>Ports of a manifest\<close>

text \<open>
  The loop over the ports of a manifest that stops at the first port of a kind and a name. The name
  is read only when the kind matches, as in the source's disjunction.
\<close>

fun find_port :: "'j json_api \<Rightarrow> string \<Rightarrow> string \<Rightarrow> 'j list \<Rightarrow> stop + 'j option" where
  "find_port J port_kind port_name [] = Inr None"
| "find_port J port_kind port_name (port # ports) =
     bind_res (or_throw (js_value_string J port ''kind'' '''')) (\<lambda>k.
     if k \<noteq> port_kind then find_port J port_kind port_name ports
     else bind_res (or_throw (js_value_string J port ''name'' '''')) (\<lambda>n.
       if n \<noteq> port_name then find_port J port_kind port_name ports else Inr (Some port)))"

definition manifest_ports :: "'j json_api \<Rightarrow> string \<Rightarrow> stop + 'j list" where
  "manifest_ports J text =
     bind_res (or_throw (js_parse J text)) (\<lambda>manifest.
     bind_res (or_throw (js_value J manifest ''ports'' (js_array J))) (\<lambda>ports.
     Inr (js_elements J ports)))"

definition port_precisions ::
  "'j json_api \<Rightarrow> 'e plugin_desc option \<Rightarrow> string \<Rightarrow> string \<Rightarrow> stop + string list" where
  "port_precisions J desc port_kind port_name =
     (case desc_manifest desc of
        None \<Rightarrow> Inr []
      | Some text \<Rightarrow>
          bind_res (manifest_ports J text) (\<lambda>ports.
          bind_res (find_port J port_kind port_name ports) (\<lambda>found.
          case found of
            None \<Rightarrow> Inr []
          | Some port \<Rightarrow>
              (case js_find J port ''caps'' of
                 None \<Rightarrow> Inr []
               | Some caps \<Rightarrow> or_throw (js_value_strings J caps ''precision'')))))"

definition no_caps :: port_caps where
  "no_caps = \<lparr>pc_channels = [], pc_precisions = []\<rparr>"

definition get_port_caps ::
  "'j json_api \<Rightarrow> 'e plugin_desc option \<Rightarrow> string \<Rightarrow> string \<Rightarrow> stop + port_caps" where
  "get_port_caps J desc port_kind port_name =
     (case desc_manifest desc of
        None \<Rightarrow> Inr no_caps
      | Some text \<Rightarrow>
          bind_res (manifest_ports J text) (\<lambda>ports.
          bind_res (find_port J port_kind port_name ports) (\<lambda>found.
          case found of
            None \<Rightarrow> Inr no_caps
          | Some port \<Rightarrow>
              (case js_find J port ''caps'' of
                 None \<Rightarrow> Inr no_caps
               | Some caps \<Rightarrow>
                   bind_res (or_throw (js_value_strings J caps ''channels'')) (\<lambda>cs.
                   bind_res (or_throw (js_value_strings J caps ''precision'')) (\<lambda>ps.
                   Inr \<lparr>pc_channels = cs, pc_precisions = ps\<rparr>))))))"

definition format_from_caps :: "port_caps \<Rightarrow> string option" where
  "format_from_caps caps =
     (if pc_channels caps = [''r''] \<and> pc_precisions caps = [''u16''] then Some ''R16_UINT''
      else if pc_channels caps = [''r''] \<and> pc_precisions caps = [''f32''] then Some ''R32_SFLOAT''
      else if pc_channels caps = [''rgba''] \<and> pc_precisions caps = [''f16'']
        then Some ''R16G16B16A16_SFLOAT''
      else if pc_channels caps = [''rgba''] \<and> pc_precisions caps = [''u8'']
        then Some ''R8G8B8A8_UNORM''
      else if pc_channels caps = [''rgba''] \<and> pc_precisions caps = [''u16'']
        then Some ''R16G16B16A16_UNORM''
      else None)"

definition direct_conversion_supported :: "string \<Rightarrow> string \<Rightarrow> bool" where
  "direct_conversion_supported from to \<longleftrightarrow>
     (from = ''R16_UINT'' \<and> to = ''R32_SFLOAT'') \<or>
     (from = ''R32_SFLOAT'' \<and> to = ''R16G16B16A16_SFLOAT'') \<or>
     (from = ''R16G16B16A16_SFLOAT'' \<and> to = ''R8G8B8A8_UNORM'') \<or>
     (from = ''R16G16B16A16_SFLOAT'' \<and> to = ''R16G16B16A16_UNORM'')"

definition intersects :: "string list \<Rightarrow> string list \<Rightarrow> bool" where
  "intersects lhs rhs \<longleftrightarrow>
     (if lhs = [] \<or> rhs = [] then True else list_ex (\<lambda>item. item \<in> set rhs) lhs)"

definition edge_between :: "nat \<Rightarrow> nat \<Rightarrow> string \<Rightarrow> string \<Rightarrow> precision_graph_edge" where
  "edge_between from to from_port to_port =
     \<lparr>ge_from = from, ge_to = to, ge_from_port = from_port, ge_to_port = to_port\<rparr>"

section \<open>Validation\<close>

fun validate_edges :: "'j json_api \<Rightarrow> 'e precision_edge list \<Rightarrow> stop + unit" where
  "validate_edges J [] = Inr ()"
| "validate_edges J (edge # edges) =
     bind_res (port_precisions J (pe_from edge) ''out'' (pe_from_port edge)) (\<lambda>produced.
     bind_res (port_precisions J (pe_to edge) ''in'' (pe_to_port edge)) (\<lambda>required.
     if \<not> intersects produced required
     then Inl (Returned BadPrecision ''precision mismatch on pipeline edge'')
     else validate_edges J edges))"

section \<open>Insertion of conversion nodes\<close>

definition inserted_id :: "nat \<Rightarrow> nat \<Rightarrow> nat \<Rightarrow> string" where
  "inserted_id from to sequence = ''__precision_convert_'' @ nat_to_string from @ ''_'' @
     nat_to_string to @ ''_'' @ nat_to_string sequence"

text \<open>One round of the loop over the edges. An early return leaves the plan as it was.\<close>

definition insert_edge ::
  "'j json_api \<Rightarrow> ('j, 'e) precision_graph_node list \<Rightarrow> 'e plugin_desc option
     \<Rightarrow> precision_graph_edge \<Rightarrow> ('j, 'e) precision_plan \<Rightarrow> stop + ('j, 'e) precision_plan" where
  "insert_edge J nodes precision_convert edge out =
     (if length nodes \<le> ge_from edge \<or> length nodes \<le> ge_to edge
      then Inl (Returned BadIndex ''precision edge index out of range'')
      else
        bind_res (get_port_caps J (gn_descriptor (nodes ! ge_from edge)) ''out'' (ge_from_port edge))
          (\<lambda>produced.
        bind_res (get_port_caps J (gn_descriptor (nodes ! ge_to edge)) ''in'' (ge_to_port edge))
          (\<lambda>required.
        if intersects (pc_precisions produced) (pc_precisions required)
        then Inr (out\<lparr>pp_edges := pp_edges out @ [edge]\<rparr>)
        else case (format_from_caps produced, format_from_caps required) of
          (Some from_format, Some to_format) \<Rightarrow>
            if \<not> direct_conversion_supported from_format to_format
            then Inl (Returned BadPrecision ''precision mismatch on pipeline edge'')
            else (case precision_convert of
              None \<Rightarrow> Inl (Returned BadPrecision ''precision_convert node unavailable'')
            | Some conv \<Rightarrow>
                let inserted_index = length (pp_nodes out);
                    inserted_sequence = length (pp_inserted out)
                in Inr \<lparr>
                  pp_nodes = pp_nodes out @ [\<lparr>
                    gn_id = inserted_id (ge_from edge) (ge_to edge) inserted_sequence,
                    gn_descriptor = Some conv,
                    gn_params = js_singleton J ''target_format'' to_format,
                    gn_implicit = True\<rparr>],
                  pp_edges = pp_edges out @
                    [edge_between (ge_from edge) inserted_index (ge_from_port edge) ''in'',
                     edge_between inserted_index (ge_to edge) ''out'' (ge_to_port edge)],
                  pp_inserted = pp_inserted out @ [inserted_index]\<rparr>)
        | _ \<Rightarrow> Inl (Returned BadPrecision ''precision mismatch on pipeline edge''))))"

text \<open>
  The output plan is an option: \<open>None\<close> is a null pointer. The result is the reason of an early
  return, if any, and the plan as it was left.
\<close>

definition auto_insert ::
  "'j json_api \<Rightarrow> ('j, 'e) precision_graph_node list \<Rightarrow> precision_graph_edge list
     \<Rightarrow> 'e plugin_desc option \<Rightarrow> ('j, 'e) precision_plan option
     \<Rightarrow> stop option \<times> ('j, 'e) precision_plan option" where
  "auto_insert J nodes edges precision_convert out =
     (case out of
        None \<Rightarrow> (Some (Returned BadIndex ''precision plan output pointer is null''), None)
      | Some _ \<Rightarrow>
          map_prod id Some (steps_res (insert_edge J nodes precision_convert) edges
            \<lparr>pp_nodes = nodes, pp_edges = [], pp_inserted = []\<rparr>))"

section \<open>What one round does\<close>

text \<open>
  \<open>edge_kept\<close> and \<open>edge_converts\<close> say when an edge is compatible as it is and when it needs a
  conversion between two formats that the runtime has.
\<close>

definition edge_kept ::
  "'j json_api \<Rightarrow> ('j, 'e) precision_graph_node list \<Rightarrow> precision_graph_edge \<Rightarrow> bool" where
  "edge_kept J nodes e \<longleftrightarrow>
     (case (get_port_caps J (gn_descriptor (nodes ! ge_from e)) ''out'' (ge_from_port e),
            get_port_caps J (gn_descriptor (nodes ! ge_to e)) ''in'' (ge_to_port e)) of
        (Inr produced, Inr required) \<Rightarrow> intersects (pc_precisions produced) (pc_precisions required)
      | _ \<Rightarrow> False)"

definition edge_converts ::
  "'j json_api \<Rightarrow> ('j, 'e) precision_graph_node list \<Rightarrow> precision_graph_edge \<Rightarrow> string \<Rightarrow> string
     \<Rightarrow> bool" where
  "edge_converts J nodes e from_format to_format \<longleftrightarrow>
     (case (get_port_caps J (gn_descriptor (nodes ! ge_from e)) ''out'' (ge_from_port e),
            get_port_caps J (gn_descriptor (nodes ! ge_to e)) ''in'' (ge_to_port e)) of
        (Inr produced, Inr required) \<Rightarrow>
           \<not> intersects (pc_precisions produced) (pc_precisions required) \<and>
           format_from_caps produced = Some from_format \<and>
           format_from_caps required = Some to_format
      | _ \<Rightarrow> False) \<and> direct_conversion_supported from_format to_format"

definition bridge_in :: "precision_graph_edge \<Rightarrow> nat \<Rightarrow> precision_graph_edge" where
  "bridge_in e k = edge_between (ge_from e) k (ge_from_port e) ''in''"

definition bridge_out :: "precision_graph_edge \<Rightarrow> nat \<Rightarrow> precision_graph_edge" where
  "bridge_out e k = edge_between k (ge_to e) ''out'' (ge_to_port e)"

lemma bridge_simps [simp]:
  "ge_from (bridge_in e k) = ge_from e" "ge_to (bridge_in e k) = k"
  "ge_from_port (bridge_in e k) = ge_from_port e" "ge_to_port (bridge_in e k) = ''in''"
  "ge_from (bridge_out e k) = k" "ge_to (bridge_out e k) = ge_to e"
  "ge_from_port (bridge_out e k) = ''out''" "ge_to_port (bridge_out e k) = ge_to_port e"
  by (simp_all add: bridge_in_def bridge_out_def edge_between_def)

definition conversion_node ::
  "'j json_api \<Rightarrow> 'e plugin_desc option \<Rightarrow> precision_graph_edge \<Rightarrow> nat \<Rightarrow> string
     \<Rightarrow> ('j, 'e) precision_graph_node" where
  "conversion_node J conv e s to_format = \<lparr>
     gn_id = inserted_id (ge_from e) (ge_to e) s, gn_descriptor = conv,
     gn_params = js_singleton J ''target_format'' to_format, gn_implicit = True\<rparr>"

lemma insert_edge_cases:
  assumes "insert_edge J nodes pc e p = Inr q"
  shows "ge_from e < length nodes \<and> ge_to e < length nodes"
    and "edge_kept J nodes e \<and> q = p\<lparr>pp_edges := pp_edges p @ [e]\<rparr> \<or>
      (\<exists>f t. edge_converts J nodes e f t \<and> pc \<noteq> None \<and>
         q = \<lparr>pp_nodes = pp_nodes p @ [conversion_node J pc e (length (pp_inserted p)) t],
              pp_edges = pp_edges p @ [bridge_in e (length (pp_nodes p)),
                                       bridge_out e (length (pp_nodes p))],
              pp_inserted = pp_inserted p @ [length (pp_nodes p)]\<rparr>)"
  using assms
  by (auto simp: insert_edge_def edge_kept_def edge_converts_def bind_res_eq_Inr_iff Let_def
      bridge_in_def bridge_out_def conversion_node_def split: if_splits option.splits)

lemma insert_edge_kept:
  assumes "ge_from e < length nodes" and "ge_to e < length nodes" and "edge_kept J nodes e"
  shows "insert_edge J nodes pc e p = Inr (p\<lparr>pp_edges := pp_edges p @ [e]\<rparr>)"
  using assms by (auto simp: insert_edge_def edge_kept_def split: sum.splits)

section \<open>The whole loop\<close>

text \<open>
  \<open>contract n\<close> removes the nodes from \<open>n\<close> on from a list of edges, joining the edge that enters such
  a node with the one that leaves it.
\<close>

fun contract :: "nat \<Rightarrow> precision_graph_edge list \<Rightarrow> precision_graph_edge list" where
  "contract n [] = []"
| "contract n [e] = [e]"
| "contract n (e # e2 # es) =
     (if ge_to e < n then e # contract n (e2 # es)
      else edge_between (ge_from e) (ge_to e2) (ge_from_port e) (ge_to_port e2) # contract n es)"

lemma contract_keep: "ge_to e < n \<Longrightarrow> contract n (e # es) = e # contract n es"
  by (cases es) simp_all

lemma contract_bridge:
  "n \<le> k \<Longrightarrow> contract n (bridge_in e k # bridge_out e k # es) = e # contract n es"
  by (simp add: edge_between_def)

lemma insert_edges_extend:
  assumes "fold_res (insert_edge J nodes pc) es p = Inr q" and "length nodes \<le> length (pp_nodes p)"
  shows "\<exists>ins new. pp_nodes q = pp_nodes p @ ins \<and> pp_edges q = pp_edges p @ new \<and>
    contract (length nodes) new = es \<and>
    pp_inserted q = pp_inserted p @ [length (pp_nodes p)..<length (pp_nodes q)]"
  using assms
proof (induction es arbitrary: p)
  case Nil
  then show ?case by simp
next
  case (Cons e es)
  from Cons.prems(1) obtain r where r: "insert_edge J nodes pc e p = Inr r"
    and rest: "fold_res (insert_edge J nodes pc) es r = Inr q"
    by (auto simp: bind_res_eq_Inr_iff)
  note range = insert_edge_cases(1) [OF r]
  from insert_edge_cases(2) [OF r]
  have len: "length nodes \<le> length (pp_nodes r)" using Cons.prems(2) by auto
  obtain ins new where IH: "pp_nodes q = pp_nodes r @ ins" "pp_edges q = pp_edges r @ new"
    "contract (length nodes) new = es"
    "pp_inserted q = pp_inserted r @ [length (pp_nodes r)..<length (pp_nodes q)]"
    using Cons.IH [OF rest len] by blast
  from insert_edge_cases(2) [OF r] show ?case
  proof
    assume "edge_kept J nodes e \<and> r = p\<lparr>pp_edges := pp_edges p @ [e]\<rparr>"
    then show ?thesis using IH range
      by (intro exI [of _ ins] exI [of _ "e # new"]) (simp add: contract_keep)
  next
    assume "\<exists>f t. edge_converts J nodes e f t \<and> pc \<noteq> None \<and>
      r = \<lparr>pp_nodes = pp_nodes p @ [conversion_node J pc e (length (pp_inserted p)) t],
           pp_edges = pp_edges p @ [bridge_in e (length (pp_nodes p)),
                                    bridge_out e (length (pp_nodes p))],
           pp_inserted = pp_inserted p @ [length (pp_nodes p)]\<rparr>"
    then obtain t where r_eq: "r = \<lparr>pp_nodes = pp_nodes p @ [conversion_node J pc e (length (pp_inserted p)) t],
           pp_edges = pp_edges p @ [bridge_in e (length (pp_nodes p)),
                                    bridge_out e (length (pp_nodes p))],
           pp_inserted = pp_inserted p @ [length (pp_nodes p)]\<rparr>" by blast
    let ?k = "length (pp_nodes p)"
    have "[?k..<length (pp_nodes q)] = ?k # [Suc ?k..<length (pp_nodes q)]"
      using IH(1) by (intro upt_conv_Cons) (simp add: r_eq)
    moreover have "pp_edges q = pp_edges p @ (bridge_in e ?k # bridge_out e ?k # new)"
      using IH(2) by (simp add: r_eq)
    moreover have "contract (length nodes) (bridge_in e ?k # bridge_out e ?k # new) = e # es"
      using IH(3) Cons.prems(2) by (simp only: contract_bridge)
    ultimately show ?thesis
      using IH(1,4) by (auto simp: r_eq simp del: contract.simps)
  qed
qed

text \<open>
  The invariant of the loop. \<open>orig\<close> lists the edges that were bridged; node \<open>length nodes + i\<close> converts
  the \<open>i\<close>-th of them.
\<close>

definition bridges ::
  "nat \<Rightarrow> precision_graph_edge list \<Rightarrow> precision_graph_edge \<Rightarrow> bool" where
  "bridges n orig e \<longleftrightarrow>
     (\<exists>i < length orig. e = bridge_in (orig ! i) (n + i) \<or> e = bridge_out (orig ! i) (n + i))"

lemma bridges_snoc:
  "bridges n (orig @ [o']) e \<longleftrightarrow> bridges n orig e \<or>
     e = bridge_in o' (n + length orig) \<or> e = bridge_out o' (n + length orig)"
  unfolding bridges_def length_append_singleton Ex_less_Suc
  by (simp add: nth_append cong: conj_cong) blast

definition bridge_inv ::
  "'j json_api \<Rightarrow> ('j, 'e) precision_graph_node list \<Rightarrow> 'e plugin_desc option
     \<Rightarrow> precision_graph_edge set \<Rightarrow> precision_graph_edge list \<Rightarrow> ('j, 'e) precision_plan \<Rightarrow> bool" where
  "bridge_inv J nodes pc es orig p \<longleftrightarrow>
     length (pp_nodes p) = length nodes + length orig \<and> length (pp_inserted p) = length orig \<and>
     (\<forall>i < length orig. orig ! i \<in> es \<and> pc \<noteq> None \<and>
        (\<exists>f t. edge_converts J nodes (orig ! i) f t \<and>
           pp_nodes p ! (length nodes + i) = conversion_node J pc (orig ! i) i t)) \<and>
     (\<forall>e \<in> set (pp_edges p). e \<in> es \<and> edge_kept J nodes e \<or>
        bridges (length nodes) orig e)"

lemma bridge_inv_step:
  assumes inv: "bridge_inv J nodes pc es orig p" and e: "e \<in> es"
    and step: "insert_edge J nodes pc e p = Inr q"
  shows "\<exists>orig'. bridge_inv J nodes pc es orig' q"
  using insert_edge_cases(2) [OF step]
proof
  assume "edge_kept J nodes e \<and> q = p\<lparr>pp_edges := pp_edges p @ [e]\<rparr>"
  with inv e have "bridge_inv J nodes pc es orig q" by (auto simp: bridge_inv_def)
  then show ?thesis ..
next
  assume "\<exists>f t. edge_converts J nodes e f t \<and> pc \<noteq> None \<and>
      q = \<lparr>pp_nodes = pp_nodes p @ [conversion_node J pc e (length (pp_inserted p)) t],
           pp_edges = pp_edges p @ [bridge_in e (length (pp_nodes p)),
                                    bridge_out e (length (pp_nodes p))],
           pp_inserted = pp_inserted p @ [length (pp_nodes p)]\<rparr>"
  then obtain f t where conv: "edge_converts J nodes e f t" "pc \<noteq> None"
    and q: "q = \<lparr>pp_nodes = pp_nodes p @ [conversion_node J pc e (length (pp_inserted p)) t],
           pp_edges = pp_edges p @ [bridge_in e (length (pp_nodes p)),
                                    bridge_out e (length (pp_nodes p))],
           pp_inserted = pp_inserted p @ [length (pp_nodes p)]\<rparr>" by blast
  let ?o = "orig @ [e]"
  from inv have len: "length (pp_nodes p) = length nodes + length orig"
    "length (pp_inserted p) = length orig" by (simp_all add: bridge_inv_def)
  have 1: "?o ! i \<in> es \<and> pc \<noteq> None \<and> (\<exists>f t. edge_converts J nodes (?o ! i) f t \<and>
      pp_nodes q ! (length nodes + i) = conversion_node J pc (?o ! i) i t)"
    if "i < length ?o" for i
    using that inv e conv len
    by (cases "i < length orig") (auto simp: bridge_inv_def q nth_append less_Suc_eq)
  have 2: "\<forall>x \<in> set (pp_edges q). x \<in> es \<and> edge_kept J nodes x \<or> bridges (length nodes) ?o x"
    using inv by (auto simp: bridge_inv_def q len bridges_snoc)
  from 1 2 len have "bridge_inv J nodes pc es ?o q" by (simp add: bridge_inv_def q)
  then show ?thesis ..
qed

lemma auto_insert_Ok:
  "auto_insert J nodes es pc (Some p0) = (None, Some p) \<longleftrightarrow>
     fold_res (insert_edge J nodes pc) es \<lparr>pp_nodes = nodes, pp_edges = [], pp_inserted = []\<rparr> = Inr p"
  unfolding steps_res_fold_res [symmetric]
  by (cases "steps_res (insert_edge J nodes pc) es \<lparr>pp_nodes = nodes, pp_edges = [], pp_inserted = []\<rparr>")
     (simp add: auto_insert_def)

lemma auto_insert_bridge_inv:
  assumes "auto_insert J nodes es pc (Some p0) = (None, Some p)"
  shows "\<exists>orig. bridge_inv J nodes pc (set es) orig p"
proof (rule fold_res_invariant [where P = "\<lambda>p. \<exists>orig. bridge_inv J nodes pc (set es) orig p"])
  show "fold_res (insert_edge J nodes pc) es \<lparr>pp_nodes = nodes, pp_edges = [], pp_inserted = []\<rparr> = Inr p"
    using assms by (simp only: auto_insert_Ok)
  show "\<exists>orig. bridge_inv J nodes pc (set es) orig \<lparr>pp_nodes = nodes, pp_edges = [], pp_inserted = []\<rparr>"
    by (rule exI [of _ "[]"]) (simp add: bridge_inv_def)
qed (use bridge_inv_step in blast)

lemma auto_insert_range:
  assumes "auto_insert J nodes es pc (Some p0) = (None, Some p)" and "e \<in> set es"
  shows "ge_from e < length nodes \<and> ge_to e < length nodes"
proof -
  have "\<forall>e \<in> set es. ge_from e < length nodes \<and> ge_to e < length nodes"
    if "fold_res (insert_edge J nodes pc) es q = Inr p" for q
    using that
    by (induction es arbitrary: q) (auto simp: bind_res_eq_Inr_iff dest: insert_edge_cases(1))
  with assms show ?thesis by (auto simp only: auto_insert_Ok)
qed

section \<open>Identifiers of inserted nodes\<close>

lemma split_at_sep:
  assumes "c \<notin> set xs" and "c \<notin> set ys" and "xs @ c # xs' = ys @ c # ys'"
  shows "xs = ys \<and> xs' = ys'"
  using assms
proof (induction xs arbitrary: ys)
  case Nil
  then show ?case by (cases ys) auto
next
  case (Cons x xs)
  then show ?case by (cases ys) auto
qed

lemma underscore_notin_numeral: "CHR ''_'' \<notin> set (nat_to_string n)"
  using set_nat_to_string [of "CHR ''_''" n] by auto

lemma inserted_id_inject:
  "inserted_id u v s = inserted_id u' v' s' \<longleftrightarrow> u = u' \<and> v = v' \<and> s = s'"
proof
  assume "inserted_id u v s = inserted_id u' v' s'"
  then have eq: "nat_to_string u @ CHR ''_'' # (nat_to_string v @ CHR ''_'' # nat_to_string s) =
      nat_to_string u' @ CHR ''_'' # (nat_to_string v' @ CHR ''_'' # nat_to_string s')"
    by (simp add: inserted_id_def)
  note split_at_sep [OF underscore_notin_numeral underscore_notin_numeral eq]
  then have "u = u'" and eq2: "nat_to_string v @ CHR ''_'' # nat_to_string s =
      nat_to_string v' @ CHR ''_'' # nat_to_string s'"
    by (simp_all add: nat_to_string_inject)
  moreover note split_at_sep [OF underscore_notin_numeral underscore_notin_numeral eq2]
  ultimately show "u = u' \<and> v = v' \<and> s = s'" by (simp add: nat_to_string_inject)
qed simp

section \<open>Acyclicity\<close>

definition graph_of :: "precision_graph_edge list \<Rightarrow> (nat \<times> nat) list" where
  "graph_of es = map (\<lambda>e. (ge_from e, ge_to e)) es"

lemma acyclic_rank:
  assumes "acyclic E" and "finite E"
  shows "\<exists>r :: 'a \<Rightarrow> nat. \<forall>(u, v) \<in> E. r u < r v"
proof (intro exI ballI, clarify)
  fix u v assume e: "(u, v) \<in> E"
  have "{w. (w, u) \<in> E\<^sup>+} \<subseteq> {w. (w, v) \<in> E\<^sup>+}" using e by (auto intro: trancl_into_trancl)
  moreover have "u \<in> {w. (w, v) \<in> E\<^sup>+}" "u \<notin> {w. (w, u) \<in> E\<^sup>+}"
    using e assms(1) by (auto simp: acyclic_def)
  ultimately have "{w. (w, u) \<in> E\<^sup>+} \<subset> {w. (w, v) \<in> E\<^sup>+}" by blast
  moreover have "finite {w. (w, v) \<in> E\<^sup>+}"
    by (rule finite_subset [of _ "fst ` (E\<^sup>+)"]) (force, simp add: assms(2))
  ultimately show "card {w. (w, u) \<in> E\<^sup>+} < card {w. (w, v) \<in> E\<^sup>+}"
    by (rule psubset_card_mono [rotated])
qed

lemma rank_acyclic:
  fixes r :: "'a \<Rightarrow> nat"
  assumes "\<And>u v. (u, v) \<in> E \<Longrightarrow> r u < r v"
  shows "acyclic E"
proof -
  have "E \<subseteq> measure r" using assms by auto
  then show ?thesis by (rule acyclic_subset [OF wf_acyclic [OF wf_measure]])
qed

lemma bridge_inv_acyclic:
  assumes inv: "bridge_inv J nodes pc (set es) orig p"
    and range: "\<And>e. e \<in> set es \<Longrightarrow> ge_from e < length nodes \<and> ge_to e < length nodes"
    and acyc: "acyclic (set (graph_of es))"
  shows "acyclic (set (graph_of (pp_edges p)))"
proof -
  let ?n = "length nodes"
  obtain r :: "nat \<Rightarrow> nat" where r: "\<forall>(u, v) \<in> set (graph_of es). r u < r v"
    using acyclic_rank [OF acyc] by auto
  define g where "g v = (if v < ?n then 2 * r v else Suc (2 * r (ge_from (orig ! (v - ?n)))))" for v
  have old: "g (ge_from e) + 1 < g (ge_to e)" if "e \<in> set es" for e
    using that r range [OF that] by (auto simp: g_def graph_of_def)
  have orig: "orig ! i \<in> set es" if "i < length orig" for i
    using inv that by (simp add: bridge_inv_def)
  have "g (ge_from e) < g (ge_to e)" if "e \<in> set (pp_edges p)" for e
  proof -
    from inv that have "e \<in> set es \<or> bridges ?n orig e" by (auto simp: bridge_inv_def)
    then show ?thesis
    proof
      assume "e \<in> set es"
      from old [OF this] show ?thesis by simp
    next
      assume "bridges ?n orig e"
      then obtain i where i: "i < length orig"
        and e: "e = bridge_in (orig ! i) (?n + i) \<or> e = bridge_out (orig ! i) (?n + i)"
        by (auto simp: bridges_def)
      have k: "g (?n + i) = Suc (g (ge_from (orig ! i)))"
        using range [OF orig [OF i]] by (simp add: g_def)
      from e show ?thesis using k old [OF orig [OF i]] by auto
    qed
  qed
  then show ?thesis by (intro rank_acyclic [of _ g]) (auto simp: graph_of_def)
qed

section \<open>Errors\<close>

lemma port_caps_Inl: "get_port_caps J d k n = Inl s \<Longrightarrow> s = Thrown"
proof -
  have "find_port J k n ps = Inl s \<Longrightarrow> s = Thrown" for ps
    by (induction ps) (auto simp: bind_res_eq_Inl_iff or_throw_eq_Inl split: if_splits)
  then show "get_port_caps J d k n = Inl s \<Longrightarrow> s = Thrown"
    by (auto simp: get_port_caps_def manifest_ports_def bind_res_eq_Inl_iff or_throw_eq_Inl
        split: option.splits)
qed

text \<open>Why one round stops: a bad index, a manifest read that throws, or no conversion.\<close>

definition stop_reason ::
  "'j json_api \<Rightarrow> ('j, 'e) precision_graph_node list \<Rightarrow> 'e plugin_desc option
     \<Rightarrow> precision_graph_edge \<Rightarrow> stop \<Rightarrow> bool" where
  "stop_reason J nodes pc e s \<longleftrightarrow>
     (if length nodes \<le> ge_from e \<or> length nodes \<le> ge_to e
      then s = Returned BadIndex ''precision edge index out of range''
      else if isl (get_port_caps J (gn_descriptor (nodes ! ge_from e)) ''out'' (ge_from_port e)) \<or>
              isl (get_port_caps J (gn_descriptor (nodes ! ge_to e)) ''in'' (ge_to_port e))
      then s = Thrown
      else \<not> edge_kept J nodes e \<and>
        (if \<exists>f t. edge_converts J nodes e f t
         then pc = None \<and> s = Returned BadPrecision ''precision_convert node unavailable''
         else s = Returned BadPrecision ''precision mismatch on pipeline edge''))"

lemma insert_edge_Inl: "insert_edge J nodes pc e p = Inl s \<Longrightarrow> stop_reason J nodes pc e s"
proof -
  assume err: "insert_edge J nodes pc e p = Inl s"
  show ?thesis
  proof (cases "get_port_caps J (gn_descriptor (nodes ! ge_from e)) ''out'' (ge_from_port e)";
         cases "get_port_caps J (gn_descriptor (nodes ! ge_to e)) ''in'' (ge_to_port e)")
  qed (use err in \<open>auto simp: insert_edge_def stop_reason_def edge_kept_def edge_converts_def Let_def
      dest: port_caps_Inl split: if_splits option.splits\<close>)
qed

section \<open>A concrete plan\<close>

text \<open>
  A raw source whose output is one \<open>u16\<close> channel, followed by a node that reads one \<open>f32\<close> channel.
\<close>

definition port_json :: "string \<Rightarrow> string \<Rightarrow> string \<Rightarrow> json" where
  "port_json k channels precision = JObj [(''kind'', JStr k), (''name'', JStr k),
     (''caps'', JObj [(''channels'', JArr [JStr channels]), (''precision'', JArr [JStr precision])])]"

definition precision_json :: "json json_api" where
  "precision_json = json_of [
     (''u16'', JObj [(''ports'', JArr [port_json ''in'' ''r'' ''u16'', port_json ''out'' ''r'' ''u16''])]),
     (''f32'', JObj [(''ports'', JArr [port_json ''in'' ''r'' ''f32'', port_json ''out'' ''r'' ''f32''])])]"

definition desc_with :: "string \<Rightarrow> unit plugin_desc option" where
  "desc_with text = Some (demo_desc\<lparr>manifest_json := Some text\<rparr>)"

definition demo_gnodes :: "(json, unit) precision_graph_node list" where
  "demo_gnodes = map (\<lambda>(i, t). \<lparr>gn_id = i, gn_descriptor = desc_with t, gn_params = JObj [],
     gn_implicit = False\<rparr>) [(''a'', ''u16''), (''b'', ''f32''), (''c'', ''f32'')]"

definition demo_gedges :: "precision_graph_edge list" where
  "demo_gedges = [edge_between 0 1 ''out'' ''in'', edge_between 1 2 ''out'' ''in'']"

definition empty_plan :: "(json, unit) precision_plan" where
  "empty_plan = \<lparr>pp_nodes = [], pp_edges = [], pp_inserted = []\<rparr>"

definition demo_pplan :: "(json, unit) precision_plan" where
  "demo_pplan = \<lparr>pp_nodes = demo_gnodes @ [\<lparr>gn_id = ''__precision_convert_0_1_0'',
      gn_descriptor = desc_with ''conv'', gn_params = JObj [(''target_format'', JStr ''R32_SFLOAT'')],
      gn_implicit = True\<rparr>],
     pp_edges = [edge_between 0 3 ''out'' ''in'', edge_between 3 1 ''out'' ''in'',
       edge_between 1 2 ''out'' ''in''],
     pp_inserted = [3]\<rparr>"

lemma length_demo_gnodes [simp]: "length demo_gnodes = 3"
  by (simp add: demo_gnodes_def)

lemma demo_auto_insert:
  "auto_insert precision_json demo_gnodes demo_gedges (desc_with ''conv'') (Some empty_plan)
     = (None, Some demo_pplan)"
  by code_simp

section \<open>Properties\<close>

text \<open>
  A successful insertion keeps every node at its index, appends one node per bridged edge and
  records its index, and removing the appended nodes again gives back the edges of the pipeline in
  their order.
\<close>

lemma auto_insert_contract:
  assumes "auto_insert J nodes es pc (Some p0) = (None, Some p)"
  shows "take (length nodes) (pp_nodes p) = nodes \<and>
    pp_inserted p = [length nodes..<length (pp_nodes p)] \<and>
    contract (length nodes) (pp_edges p) = es"
  using insert_edges_extend [OF assms [unfolded auto_insert_Ok]] by auto

text \<open>
  C7: after a successful insertion every edge joins two ports that share a precision, or it enters
  or leaves the conversion node of exactly one pipeline edge, whose producer format converts
  directly to the consumer format, which is the target of that node.
\<close>

theorem auto_insert_sound:
  assumes "auto_insert J nodes es pc (Some p0) = (None, Some p)"
  shows "\<exists>orig. length (pp_nodes p) = length nodes + length orig \<and>
    (\<forall>i < length orig. orig ! i \<in> set es \<and> pc \<noteq> None \<and>
       (\<exists>f t. edge_converts J nodes (orig ! i) f t \<and>
          pp_nodes p ! (length nodes + i) = conversion_node J pc (orig ! i) i t)) \<and>
    (\<forall>e \<in> set (pp_edges p). e \<in> set es \<and> edge_kept J nodes e \<or>
       (\<exists>i < length orig. e = bridge_in (orig ! i) (length nodes + i) \<or>
                          e = bridge_out (orig ! i) (length nodes + i)))"
  using auto_insert_bridge_inv [OF assms] unfolding bridge_inv_def bridges_def by blast

theorem auto_insert_sound_witness:
  "\<exists>orig. length (pp_nodes demo_pplan) = length demo_gnodes + length (orig :: precision_graph_edge list)"
  using auto_insert_sound [OF demo_auto_insert] by blast

text \<open>
  Inserting conversion nodes into a pipeline without cycles gives a graph without cycles.
\<close>

lemma auto_insert_acyclic:
  assumes "auto_insert J nodes es pc (Some p0) = (None, Some p)"
    and "acyclic (set (graph_of es))"
  shows "acyclic (set (graph_of (pp_edges p)))"
  using auto_insert_bridge_inv [OF assms(1)]
    bridge_inv_acyclic [OF _ auto_insert_range [OF assms(1)] assms(2)] by blast

text \<open>
  The identifiers of the inserted nodes are pairwise different.
\<close>

lemma auto_insert_distinct_ids:
  assumes "auto_insert J nodes es pc (Some p0) = (None, Some p)"
  shows "distinct (map gn_id (drop (length nodes) (pp_nodes p)))"
proof -
  from auto_insert_bridge_inv [OF assms] obtain orig where
    inv: "bridge_inv J nodes pc (set es) orig p" ..
  then have len: "length (pp_nodes p) = length nodes + length orig" by (simp add: bridge_inv_def)
  have "gn_id (pp_nodes p ! (length nodes + i)) =
      inserted_id (ge_from (orig ! i)) (ge_to (orig ! i)) i" if "i < length orig" for i
    using inv that by (auto simp: bridge_inv_def conversion_node_def)
  then show ?thesis by (auto simp: distinct_conv_nth len inserted_id_inject)
qed

text \<open>Edges that validate are left alone.\<close>

lemma auto_insert_id:
  assumes "\<forall>e \<in> set es. ge_from e < length nodes \<and> ge_to e < length nodes \<and> edge_kept J nodes e"
  shows "auto_insert J nodes es pc (Some p0) =
    (None, Some \<lparr>pp_nodes = nodes, pp_edges = es, pp_inserted = []\<rparr>)"
proof -
  have "fold_res (insert_edge J nodes pc) es p = Inr (p\<lparr>pp_edges := pp_edges p @ es\<rparr>)" for p
    using assms by (induction es arbitrary: p) (simp_all add: insert_edge_kept)
  then show ?thesis by (simp add: auto_insert_Ok)
qed

text \<open>
  A failed insertion has processed the edges before the offending one and holds their plan; the
  status says whether an index is out of range, a manifest cannot be read, the two formats have no
  direct conversion, or the conversion node is missing.
\<close>

lemma auto_insert_error:
  assumes "auto_insert J nodes es pc (Some p0) = (Some s, Some p)"
  shows "\<exists>done e todo. es = done @ e # todo \<and>
    auto_insert J nodes done pc (Some p0) = (None, Some p) \<and> stop_reason J nodes pc e s"
proof -
  from assms have "steps_res (insert_edge J nodes pc) es
      \<lparr>pp_nodes = nodes, pp_edges = [], pp_inserted = []\<rparr> = (Some s, p)"
    by (cases "steps_res (insert_edge J nodes pc) es
      \<lparr>pp_nodes = nodes, pp_edges = [], pp_inserted = []\<rparr>") (simp add: auto_insert_def)
  from steps_res_Some_split [OF this] obtain ys x zs where "es = ys @ x # zs"
    "steps_res (insert_edge J nodes pc) ys \<lparr>pp_nodes = nodes, pp_edges = [], pp_inserted = []\<rparr>
       = (None, p)" "insert_edge J nodes pc x p = Inl s" by blast
  then show ?thesis
    by (intro exI [of _ ys] exI [of _ x] exI [of _ zs])
       (simp add: auto_insert_def insert_edge_Inl)
qed

text \<open>
  Validation accepts a list of edges exactly when the manifests of all of them can be read and
  the produced and the required precisions of every edge intersect, an undeclared list of
  precisions being compatible with any other.
\<close>

lemma validate_edges_iff:
  "validate_edges J es = Inr () \<longleftrightarrow>
     (\<forall>e \<in> set es. \<exists>produced required.
        port_precisions J (pe_from e) ''out'' (pe_from_port e) = Inr produced \<and>
        port_precisions J (pe_to e) ''in'' (pe_to_port e) = Inr required \<and>
        (produced = [] \<or> required = [] \<or> set produced \<inter> set required \<noteq> {}))"
  by (induction es)
     (auto simp: bind_res_eq_Inr_iff intersects_def list_ex_iff disjoint_iff split: if_splits)

end
