(* ===== verification/Pipeline.thy ===== *)
theory Pipeline
  imports Precision_Planner Memory_Planner
begin

text \<open>
  Loading a pipeline document (\<open>include/cpipe/runtime/Pipeline.hpp\<close> and the first half of
  \<open>src/cpipe/runtime/Pipeline.cpp\<close>): schema and parameter validation, the graph of nodes, metadata
  and colour checks, insertion of conversion nodes, the execution order and the memory cap.

  Parameters of the model are the JSON library (\<open>json_api\<close>), the schema validator and the text of the
  exceptions they throw, and the file system, which maps a path to the contents of the file.
\<close>

section \<open>Data\<close>

record input_port =
  ip_name :: string
  ip_layout :: buffer_layout

record ('j, 'e) node_instance =
  ni_id :: string
  ni_descriptor :: "'e plugin_desc option"
  ni_params :: 'j

record ('j, 'e) source_binding =
  sb_plugin_id :: string
  sb_descriptor :: "'e plugin_desc option"
  sb_params :: 'j

record ('j, 'e) pipeline =
  pl_inputs :: "input_port list"
  pl_layout :: buffer_layout
  pl_nodes :: "('j, 'e) node_instance list"
  pl_sources :: "string \<rightharpoonup> ('j, 'e) source_binding"
  pl_registry :: "'e registry option"
  pl_cap_bytes :: u64
  pl_peak_bytes :: u64

definition new_pipeline :: "('j, 'e) pipeline" where
  "new_pipeline = \<lparr>pl_inputs = [], pl_layout = default_layout, pl_nodes = [],
     pl_sources = Map.empty, pl_registry = None, pl_cap_bytes = - 1, pl_peak_bytes = 0\<rparr>"

record endpoint =
  ep_node_id :: string
  ep_port :: string

text \<open>
  What \<open>Pipeline::load\<close> takes from outside: \<open>env_read\<close> opens and reads a file, \<open>env_schema\<close> is the
  schema validator (\<open>Some what\<close> when it throws), the other two are exception texts.
\<close>

record 'j load_env =
  env_json :: "'j json_api"
  env_read :: "string \<Rightarrow> string option"
  env_schema :: "'j \<Rightarrow> string option"
  env_parse_what :: "string \<Rightarrow> string"
  env_version_what :: "'j \<Rightarrow> string"

section \<open>Reading documents and manifests\<close>

definition split_endpoint :: "string \<Rightarrow> endpoint" where
  "split_endpoint ep =
     (let before = takeWhile (\<lambda>c. c \<noteq> CHR ''.'') ep
      in if before = ep then \<lparr>ep_node_id = ep, ep_port = []\<rparr>
         else \<lparr>ep_node_id = before, ep_port = drop (length before + 1) ep\<rparr>)"

definition pixel_format_from_string :: "string \<Rightarrow> pixel_format option" where
  "pixel_format_from_string s =
     (if s = ''R16_UINT'' then Some R16_UINT
      else if s = ''R32_SFLOAT'' then Some R32_SFLOAT
      else if s = ''R16G16B16A16_SFLOAT'' then Some R16G16B16A16_SFLOAT
      else if s = ''R8G8B8A8_UNORM'' then Some R8G8B8A8_UNORM
      else if s = ''R16G16B16A16_UNORM'' then Some R16G16B16A16_UNORM
      else None)"

definition layout_from_json :: "'j json_api \<Rightarrow> 'j \<Rightarrow> stop + buffer_layout" where
  "layout_from_json J input =
     bind_res (or_throw (js_at J input ''format'')) (\<lambda>f.
     bind_res (or_throw (js_get_string J f)) (\<lambda>fmt.
     bind_res (or_throw (js_value_u32 J input ''width'' 0)) (\<lambda>w.
     bind_res (or_throw (js_value_u32 J input ''height'' 0)) (\<lambda>h.
     Inr (default_layout\<lparr>kind := Image2D,
       format := (case pixel_format_from_string fmt of Some p \<Rightarrow> p | None \<Rightarrow> R8G8B8A8_UNORM),
       ndim := 2, dims := (dims default_layout)[0 := w, 1 := h]\<rparr>)))))"

definition manifest_pixel_format :: "'j json_api \<Rightarrow> 'j \<Rightarrow> stop + pixel_format option" where
  "manifest_pixel_format J port =
     (case js_find J port ''caps'' of
        None \<Rightarrow> Inr None
      | Some caps \<Rightarrow>
          bind_res (or_throw (js_value_strings J caps ''channels'')) (\<lambda>channels.
          bind_res (or_throw (js_value_strings J caps ''precision'')) (\<lambda>precision.
          Inr (if channels = [''r''] \<and> precision = [''u16''] then Some R16_UINT
               else if channels = [''r''] \<and> precision = [''f32''] then Some R32_SFLOAT
               else if channels = [''rgba''] \<and> precision = [''f16''] then Some R16G16B16A16_SFLOAT
               else if channels = [''rgba''] \<and> precision = [''u8''] then Some R8G8B8A8_UNORM
               else if channels = [''rgba''] \<and> precision = [''u16''] then Some R16G16B16A16_UNORM
               else None))))"

text \<open>The first element of a list whose field \<open>key\<close> (the empty string when absent) equals \<open>v\<close>.\<close>

fun find_field :: "'j json_api \<Rightarrow> string \<Rightarrow> string \<Rightarrow> 'j list \<Rightarrow> stop + 'j option" where
  "find_field J key v [] = Inr None"
| "find_field J key v (x # xs) =
     bind_res (or_throw (js_value_string J x key '''')) (\<lambda>s.
     if s = v then Inr (Some x) else find_field J key v xs)"

text \<open>
  The layout of a node's output: \<open>Returned Failed message\<close> stands for \<open>std::nullopt\<close> with a message,
  \<open>Inr None\<close> for \<open>std::nullopt\<close> without one.
\<close>

definition output_layout_for_node ::
  "'j json_api \<Rightarrow> 'e plugin_desc option \<Rightarrow> 'j \<Rightarrow> buffer_layout \<Rightarrow> stop + buffer_layout option" where
  "output_layout_for_node J desc params input =
     (case desc_manifest desc of
        None \<Rightarrow> Inl (Returned Failed ''missing node manifest'')
      | Some text \<Rightarrow>
          if node_id (the desc) = Some ''com.cpipe.precision_convert'' then
            bind_res (or_throw (js_value_string J params ''target_format'' '''')) (\<lambda>target.
            case pixel_format_from_string target of
              None \<Rightarrow> Inl (Returned Failed ''unsupported precision_convert target format'')
            | Some f \<Rightarrow> Inr (Some (input\<lparr>format := f\<rparr>)))
          else if node_id (the desc) = Some ''com.cpipe.color.scene_linear_to_display'' then
            bind_res (or_throw (js_value_string J params ''target'' ''sRGB'')) (\<lambda>target.
            if target = ''sRGB'' then Inr (Some (input\<lparr>format := R8G8B8A8_UNORM\<rparr>))
            else if target = ''BT2020-PQ'' then Inr (Some (input\<lparr>format := R16G16B16A16_UNORM\<rparr>))
            else Inl (Returned Failed ''unsupported scene_linear_to_display target''))
          else
            bind_res (manifest_ports J text) (\<lambda>ports.
            bind_res (find_field J ''kind'' ''out'' ports) (\<lambda>found.
            case found of
              None \<Rightarrow> Inr None
            | Some port \<Rightarrow>
                bind_res (manifest_pixel_format J port) (\<lambda>fmt.
                case fmt of
                  None \<Rightarrow> Inl (Returned Failed ''unsupported output port format'')
                | Some f \<Rightarrow> Inr (Some (input\<lparr>format := f\<rparr>))))))"

definition node_has_output :: "'j json_api \<Rightarrow> 'e plugin_desc option \<Rightarrow> stop + bool" where
  "node_has_output J desc =
     (case desc_manifest desc of
        None \<Rightarrow> Inr False
      | Some text \<Rightarrow>
          bind_res (manifest_ports J text) (\<lambda>ports.
          bind_res (find_field J ''kind'' ''out'' ports) (\<lambda>found. Inr (found \<noteq> None))))"

definition node_input_count :: "'j json_api \<Rightarrow> 'e plugin_desc option \<Rightarrow> stop + nat" where
  "node_input_count J desc =
     (case desc_manifest desc of
        None \<Rightarrow> Inr 1
      | Some text \<Rightarrow>
          bind_res (manifest_ports J text) (\<lambda>ports.
          bind_res (map_res (\<lambda>port. or_throw (js_value_string J port ''kind'' '''')) ports) (\<lambda>kinds.
          Inr (max (length [k \<leftarrow> kinds. k = ''in'']) 1))))"

section \<open>Validation\<close>

text \<open>The dash of the message is the UTF-8 sequence of U+2014.\<close>

definition schema_mismatch_message :: string where
  "schema_mismatch_message = ''schema version mismatch '' @
     [CHR 0xE2, CHR 0x80, CHR 0x94] @ '' run tools/migrate/v03_to_v04.py''"

definition validate_pipeline_schema :: "'j load_env \<Rightarrow> 'j \<Rightarrow> stop + unit" where
  "validate_pipeline_schema E document =
     (case js_value_string (env_json E) document ''version'' '''' of
        None \<Rightarrow> Inl (Returned Failed
          (''pipeline schema validation failed: '' @ env_version_what E document))
      | Some version \<Rightarrow>
          if version \<noteq> ''0.4'' then Inl (Returned Failed schema_mismatch_message)
          else (case env_schema E document of
              Some what \<Rightarrow> Inl (Returned Failed (''pipeline schema validation failed: '' @ what))
            | None \<Rightarrow> Inr ()))"

definition validate_enum_param :: "'j json_api \<Rightarrow> string \<Rightarrow> 'j \<Rightarrow> 'j \<Rightarrow> stop + unit" where
  "validate_enum_param J name value declaration =
     (if \<not> js_is_string J value
      then Inl (Returned BadIndex (''node param must be enum string: '' @ name))
      else
        bind_res (or_throw (js_value_strings J declaration ''enum_values'')) (\<lambda>enum_values.
        bind_res (or_throw (js_get_string J value)) (\<lambda>selected.
        if selected \<notin> set enum_values
        then Inl (Returned BadIndex (''node param outside enum: '' @ name)) else Inr ())))"

definition validate_number_param :: "'j json_api \<Rightarrow> string \<Rightarrow> 'j \<Rightarrow> 'j \<Rightarrow> stop + unit" where
  "validate_number_param J name value declaration =
     (if \<not> js_is_number J value
      then Inl (Returned BadIndex (''node param must be number: '' @ name))
      else case js_find J declaration ''range'' of
        None \<Rightarrow> Inr ()
      | Some rng \<Rightarrow>
          bind_res (or_throw (js_get_double J value)) (\<lambda>selected.
          bind_res (case js_find J rng ''min'' of
              None \<Rightarrow> Inr ()
            | Some lo \<Rightarrow> bind_res (or_throw (js_get_double J lo)) (\<lambda>lower.
                if selected < lower
                then Inl (Returned BadIndex (''node param below range: '' @ name)) else Inr ())) (\<lambda>_.
          case js_find J rng ''max'' of
            None \<Rightarrow> Inr ()
          | Some hi \<Rightarrow> bind_res (or_throw (js_get_double J hi)) (\<lambda>upper.
              if selected > upper
              then Inl (Returned BadIndex (''node param above range: '' @ name)) else Inr ()))))"

definition validate_typed_param :: "'j json_api \<Rightarrow> string \<Rightarrow> 'j \<Rightarrow> 'j \<Rightarrow> stop + unit" where
  "validate_typed_param J name value declaration =
     bind_res (or_throw (js_value_string J declaration ''type'' '''')) (\<lambda>ty.
     if ty = ''enum'' then validate_enum_param J name value declaration
     else if ty = ''number'' then validate_number_param J name value declaration
     else if ty = ''boolean'' \<and> \<not> js_is_boolean J value
       then Inl (Returned BadIndex (''node param must be boolean: '' @ name))
     else if ty = ''string'' \<and> \<not> js_is_string J value
       then Inl (Returned BadIndex (''node param must be string: '' @ name))
     else if ty = ''array'' \<and> \<not> js_is_array J value
       then Inl (Returned BadIndex (''node param must be array: '' @ name))
     else if ty = ''boolean'' \<or> ty = ''string'' \<or> ty = ''array'' then Inr ()
     else Inl (Returned BadIndex (''unsupported node param type: '' @ name)))"

definition validate_node_params :: "'j json_api \<Rightarrow> 'e plugin_desc option \<Rightarrow> 'j \<Rightarrow> stop + unit" where
  "validate_node_params J desc params =
     (case desc_manifest desc of
        None \<Rightarrow> Inl (Returned BadIndex ''missing node manifest'')
      | Some text \<Rightarrow>
          bind_res (or_throw (js_parse J text)) (\<lambda>manifest.
          bind_res (or_throw (js_value J manifest ''params'' (js_array J))) (\<lambda>declarations.
          fold_res (\<lambda>(name, value) _.
              bind_res (find_field J ''name'' name (js_elements J declarations)) (\<lambda>found.
              case found of
                None \<Rightarrow> Inl (Returned BadIndex (''unknown node param: '' @ name))
              | Some declaration \<Rightarrow> validate_typed_param J name value declaration))
            (js_items J params) ())))"

definition manifest_metadata_steps ::
  "'j json_api \<Rightarrow> 'e plugin_desc option \<Rightarrow> string \<Rightarrow> string \<Rightarrow> string \<Rightarrow> stop + string list" where
  "manifest_metadata_steps J desc port_kind port_name field =
     (case desc_manifest desc of
        None \<Rightarrow> Inr []
      | Some text \<Rightarrow>
          bind_res (manifest_ports J text) (\<lambda>ports.
          bind_res (find_port J port_kind port_name ports) (\<lambda>found.
          case found of
            None \<Rightarrow> Inr []
          | Some port \<Rightarrow>
              (case js_find J port ''metadata'' of
                 None \<Rightarrow> Inr []
               | Some metadata \<Rightarrow> or_throw (js_value_strings J metadata field)))))"

definition manifest_color_role :: "'j json_api \<Rightarrow> 'e plugin_desc option \<Rightarrow> string \<Rightarrow> stop + string" where
  "manifest_color_role J desc field =
     (case desc_manifest desc of
        None \<Rightarrow> Inr ''any''
      | Some text \<Rightarrow>
          bind_res (or_throw (js_parse J text)) (\<lambda>manifest.
          case js_find J manifest ''color'' of
            None \<Rightarrow> Inr ''any''
          | Some color \<Rightarrow> or_throw (js_value_string J color field ''any'')))"

definition contains_step :: "string list \<Rightarrow> string \<Rightarrow> bool" where
  "contains_step steps step \<longleftrightarrow> step \<in> set steps"

definition append_unique_steps :: "string list \<Rightarrow> string list \<Rightarrow> string list" where
  "append_unique_steps out steps =
     fold (\<lambda>step out. if \<not> contains_step out step then out @ [step] else out) steps out"

definition color_roles_compatible :: "string \<Rightarrow> string \<Rightarrow> bool" where
  "color_roles_compatible produced required \<longleftrightarrow>
     produced = [] \<or> required = [] \<or> produced = ''any'' \<or> required = ''any'' \<or> produced = required"

section \<open>Loading\<close>

text \<open>
  \<open>Pipeline::load\<close> keeps the edges three times (\<open>graph_edges\<close>, \<open>precision_graph_edges\<close> and, without
  ports, \<open>memory_edges\<close>); they are filled together and hold the same edges, here one list. The two
  queue loops of the function are \<open>kahn\<close>; every edge they see is in range.
\<close>

definition load_node ::
  "'j json_api \<Rightarrow> 'e registry \<Rightarrow> 'j \<Rightarrow> ('j, 'e) node_instance list \<times> (string \<rightharpoonup> nat)
     \<Rightarrow> stop + ('j, 'e) node_instance list \<times> (string \<rightharpoonup> nat)" where
  "load_node J registry node st =
     (case st of (nodes, node_index) \<Rightarrow>
       bind_res (or_throw (js_at J node ''id'')) (\<lambda>id_json.
       bind_res (or_throw (js_get_string J id_json)) (\<lambda>nid.
       bind_res (or_throw (js_at J node ''type'')) (\<lambda>type_json.
       bind_res (or_throw (js_get_string J type_json)) (\<lambda>ty.
       if ty = ''com.cpipe.precision_convert''
       then Inl (Returned BadIndex (''reserved implicit node type: '' @ ty))
       else case registry_find registry ty of
         None \<Rightarrow> Inl (Returned BadIndex (''unknown node type: '' @ ty))
       | Some desc \<Rightarrow>
           bind_res (or_throw (js_at J node ''params'')) (\<lambda>params.
           bind_res (validate_node_params J (Some desc) params) (\<lambda>_.
           Inr (nodes @ [\<lparr>ni_id = nid, ni_descriptor = Some desc, ni_params = params\<rparr>],
                if node_index nid = None then node_index(nid \<mapsto> length nodes)
                else node_index))))))))"

definition load_edge ::
  "'j json_api \<Rightarrow> (string \<rightharpoonup> nat) \<Rightarrow> 'j \<Rightarrow> precision_graph_edge list
     \<Rightarrow> stop + precision_graph_edge list" where
  "load_edge J node_index edge graph_edges =
     bind_res (or_throw (js_at J edge ''from'')) (\<lambda>f.
     bind_res (or_throw (js_get_string J f)) (\<lambda>from_text.
     bind_res (or_throw (js_at J edge ''to'')) (\<lambda>t.
     bind_res (or_throw (js_get_string J t)) (\<lambda>to_text.
     let from_endpoint = split_endpoint from_text; to_endpoint = split_endpoint to_text
     in case (node_index (ep_node_id from_endpoint), node_index (ep_node_id to_endpoint)) of
          (Some from, Some to) \<Rightarrow>
             Inr (graph_edges @ [\<lparr>ge_from = from, ge_to = to,
               ge_from_port = ep_port from_endpoint, ge_to_port = ep_port to_endpoint\<rparr>])
        | _ \<Rightarrow> Inl (Returned BadIndex ''dangling edge in pipeline'')))))"

text \<open>The steps that reach the output of every node, filled in execution order.\<close>

definition node_steps ::
  "'j json_api \<Rightarrow> ('j, 'e) node_instance list \<Rightarrow> precision_graph_edge list \<Rightarrow> nat
     \<Rightarrow> string list list \<Rightarrow> stop + string list list" where
  "node_steps J nodes graph_edges index cumulative =
     bind_res (Inr (fold (\<lambda>edge cs. if ge_to edge = index
         then cs[index := append_unique_steps (cs ! index) (cs ! ge_from edge)] else cs)
       graph_edges cumulative)) (\<lambda>cumulative.
     fold_res (\<lambda>edge cs. if ge_from edge = index
         then bind_res (manifest_metadata_steps J (ni_descriptor (nodes ! index)) ''out''
                (ge_from_port edge) ''sets_steps_applied'') (\<lambda>steps.
              Inr (cs[index := append_unique_steps (cs ! index) steps]))
         else Inr cs)
       graph_edges cumulative)"

definition cumulative_steps ::
  "'j json_api \<Rightarrow> ('j, 'e) node_instance list \<Rightarrow> precision_graph_edge list \<Rightarrow> nat list
     \<Rightarrow> stop + string list list" where
  "cumulative_steps J nodes graph_edges sorted_indices =
     fold_res (node_steps J nodes graph_edges) sorted_indices (replicate (length nodes) [])"

definition check_edge ::
  "'j json_api \<Rightarrow> ('j, 'e) node_instance list \<Rightarrow> string list list \<Rightarrow> precision_graph_edge
     \<Rightarrow> unit \<Rightarrow> stop + unit" where
  "check_edge J nodes cumulative edge _ =
     bind_res (manifest_metadata_steps J (ni_descriptor (nodes ! ge_to edge)) ''in''
       (ge_to_port edge) ''requires_steps_applied'') (\<lambda>required.
     case List.find (\<lambda>step. \<not> contains_step (cumulative ! ge_from edge) step) required of
       Some step \<Rightarrow> Inl (Returned NeedMetadata
         (''metadata step required by pipeline edge is not produced: '' @ step))
     | None \<Rightarrow>
         bind_res (manifest_color_role J (ni_descriptor (nodes ! ge_from edge)) ''output_role'')
           (\<lambda>produced_role.
         bind_res (manifest_color_role J (ni_descriptor (nodes ! ge_to edge)) ''input_role'')
           (\<lambda>required_role.
         if \<not> color_roles_compatible produced_role required_role
         then Inl (Returned NeedMetadata (''color role mismatch on pipeline edge: '' @
           produced_role @ '' -> '' @ required_role))
         else Inr ())))"

definition precision_nodes_of ::
  "('j, 'e) node_instance list \<Rightarrow> ('j, 'e) precision_graph_node list" where
  "precision_nodes_of nodes = map (\<lambda>node. \<lparr>gn_id = ni_id node, gn_descriptor = ni_descriptor node,
     gn_params = ni_params node, gn_implicit = False\<rparr>) nodes"

definition plan_node_instance :: "('j, 'e) precision_graph_node \<Rightarrow> ('j, 'e) node_instance" where
  "plan_node_instance node = \<lparr>ni_id = gn_id node, ni_descriptor = gn_descriptor node,
     ni_params = gn_params node\<rparr>"

definition load_graph ::
  "'j json_api \<Rightarrow> 'e registry \<Rightarrow> 'j
     \<Rightarrow> stop + ('j, 'e) node_instance list \<times> precision_graph_edge list" where
  "load_graph J registry document =
     bind_res (or_throw (js_at J document ''nodes'')) (\<lambda>json_nodes.
     bind_res (fold_res (load_node J registry) (js_elements J json_nodes) ([], Map.empty))
       (\<lambda>(nodes, node_index).
     bind_res (or_throw (js_at J document ''edges'')) (\<lambda>json_edges.
     bind_res (fold_res (load_edge J node_index) (js_elements J json_edges) []) (\<lambda>graph_edges.
     Inr (nodes, graph_edges)))))"

definition check_graph ::
  "'j json_api \<Rightarrow> ('j, 'e) node_instance list \<Rightarrow> precision_graph_edge list \<Rightarrow> stop + unit" where
  "check_graph J nodes graph_edges =
     bind_res (or_diverge (kahn (length nodes) (graph_of graph_edges))) (\<lambda>sorted_indices.
     if length sorted_indices \<noteq> length nodes then Inl (Returned Failed ''cycle in pipeline graph'')
     else
       bind_res (cumulative_steps J nodes graph_edges sorted_indices) (\<lambda>cumulative.
       fold_res (check_edge J nodes cumulative) graph_edges ()))"

definition plan_nodes ::
  "'j json_api \<Rightarrow> 'e registry \<Rightarrow> ('j, 'e) node_instance list \<Rightarrow> precision_graph_edge list
     \<Rightarrow> stop + ('j, 'e) precision_plan \<times> ('j, 'e) node_instance list" where
  "plan_nodes J registry nodes graph_edges =
     (case auto_insert J (precision_nodes_of nodes) graph_edges
             (registry_find registry ''com.cpipe.precision_convert'')
             (Some \<lparr>pp_nodes = [], pp_edges = [], pp_inserted = []\<rparr>) of
        (Some reason, _) \<Rightarrow> Inl reason
      | (None, None) \<Rightarrow> Inl Thrown
      | (None, Some pplan) \<Rightarrow>
          if list_ex (\<lambda>edge. length (pp_nodes pplan) \<le> ge_from edge \<or>
                length (pp_nodes pplan) \<le> ge_to edge) (pp_edges pplan)
          then Inl (Returned BadIndex ''precision edge index out of range'')
          else
            bind_res (or_diverge (kahn (length (pp_nodes pplan)) (graph_of (pp_edges pplan)))) (\<lambda>order.
            if length order \<noteq> length (pp_nodes pplan)
            then Inl (Returned Failed ''cycle in precision-planned pipeline graph'')
            else Inr (pplan, map (\<lambda>i. plan_node_instance (pp_nodes pplan ! i)) order)))"

definition load_inputs :: "'j json_api \<Rightarrow> 'j \<Rightarrow> stop + input_port list" where
  "load_inputs J document =
     bind_res (or_throw (js_at J document ''inputs'')) (\<lambda>inputs.
     map_res (\<lambda>input_json.
         bind_res (or_throw (js_at J input_json ''port'')) (\<lambda>port.
         bind_res (or_throw (js_get_string J port)) (\<lambda>name.
         bind_res (layout_from_json J input_json) (\<lambda>layout.
         Inr \<lparr>ip_name = name, ip_layout = layout\<rparr>))))
       (js_elements J inputs))"

definition load_document ::
  "'j load_env \<Rightarrow> 'e registry \<Rightarrow> 'j \<Rightarrow> ('j, 'e) pipeline \<Rightarrow> stop + ('j, 'e) pipeline" where
  "load_document E registry document out =
     (let J = env_json E in
      bind_res (validate_pipeline_schema E document) (\<lambda>_.
      bind_res (load_graph J registry document) (\<lambda>(nodes, graph_edges).
      bind_res (check_graph J nodes graph_edges) (\<lambda>_.
      bind_res (plan_nodes J registry nodes graph_edges) (\<lambda>(pplan, planned_nodes).
      bind_res (load_inputs J document) (\<lambda>inputs.
      let primary_layout = (case inputs of [] \<Rightarrow> default_layout | i # _ \<Rightarrow> ip_layout i) in
      bind_res (plan_graph J primary_layout (map gn_descriptor (pp_nodes pplan))
                  (graph_of (pp_edges pplan))) (\<lambda>memory_plan.
      if peak_bytes memory_plan > pl_cap_bytes out
      then Inl (Returned Oom ''memory peak exceeds device cap'')
      else Inr (out\<lparr>pl_inputs := inputs, pl_layout := primary_layout, pl_nodes := planned_nodes,
             pl_sources := Map.empty, pl_registry := Some registry,
             pl_peak_bytes := peak_bytes memory_plan\<rparr>))))))))"

definition load_pipeline ::
  "'j load_env \<Rightarrow> string \<Rightarrow> 'e registry \<Rightarrow> ('j, 'e) pipeline option
     \<Rightarrow> stop option \<times> ('j, 'e) pipeline option" where
  "load_pipeline E path registry out =
     (case out of
        None \<Rightarrow> (Some (Returned BadIndex ''output pipeline pointer is null''), None)
      | Some pl \<Rightarrow>
          (case env_read E path of
             None \<Rightarrow> (Some (Returned Failed ''failed to open pipeline JSON''), out)
           | Some text \<Rightarrow>
               (case js_parse (env_json E) text of
                  None \<Rightarrow> (Some (Returned Failed
                    (''failed to parse pipeline JSON: '' @ env_parse_what E text)), out)
                | Some document \<Rightarrow>
                    (case load_document E registry document pl of
                       Inl reason \<Rightarrow> (Some reason, out)
                     | Inr pl' \<Rightarrow> (None, Some pl')))))"

definition set_source ::
  "('j, 'e) pipeline \<Rightarrow> string \<Rightarrow> string \<Rightarrow> 'j \<Rightarrow> status_code \<times> ('j, 'e) pipeline" where
  "set_source pl port_name plugin_id params =
     (if port_name \<notin> ip_name ` set (pl_inputs pl) then (BadIndex, pl)
      else case (case pl_registry pl of None \<Rightarrow> None | Some r \<Rightarrow> registry_find r plugin_id) of
        None \<Rightarrow> (BadIndex, pl)
      | Some desc \<Rightarrow> (Ok, pl\<lparr>pl_sources := (pl_sources pl)(port_name \<mapsto>
          \<lparr>sb_plugin_id = plugin_id, sb_descriptor = Some desc, sb_params = params\<rparr>)\<rparr>))"

definition set_device_memory_cap :: "u64 \<Rightarrow> ('j, 'e) pipeline \<Rightarrow> ('j, 'e) pipeline" where
  "set_device_memory_cap bytes pl = pl\<lparr>pl_cap_bytes := bytes\<rparr>"

definition node_count :: "('j, 'e) pipeline \<Rightarrow> nat" where
  "node_count pl = length (pl_nodes pl)"

end
