(* ===== verification/Pipeline_Load.thy ===== *)
theory Pipeline_Load
  imports Pipeline Memory_Plan
begin

text \<open>
  What \<open>Pipeline::load\<close> guarantees: the shape of the graph it builds, the metadata steps that reach
  each node, the order of the planned nodes, and the ways it can fail.
\<close>

section \<open>Endpoints\<close>

lemma split_endpoint_join:
  assumes "CHR ''.'' \<notin> set n"
  shows "split_endpoint (n @ CHR ''.'' # p) = \<lparr>ep_node_id = n, ep_port = p\<rparr>"
proof -
  have "takeWhile (\<lambda>c. c \<noteq> CHR ''.'') (n @ CHR ''.'' # p) = n" using assms by (induction n) auto
  then show ?thesis by (simp add: split_endpoint_def Let_def)
qed

lemma split_endpoint_no_dot:
  assumes "CHR ''.'' \<notin> set n"
  shows "split_endpoint n = \<lparr>ep_node_id = n, ep_port = []\<rparr>"
proof -
  have "takeWhile (\<lambda>c. c \<noteq> CHR ''.'') n = n" using assms by (auto simp: takeWhile_eq_all_conv)
  then show ?thesis by (simp add: split_endpoint_def)
qed

section \<open>The graph of the document\<close>

text \<open>
  \<open>index_of nodes\<close> is what the node index means: an identifier names the first node that has it.
\<close>

definition index_of :: "('j, 'e) node_instance list \<Rightarrow> string \<Rightarrow> nat option" where
  "index_of nodes i = (if i \<in> ni_id ` set nodes
     then Some (length (takeWhile (\<lambda>n. ni_id n \<noteq> i) nodes)) else None)"

lemma index_of_snoc:
  "index_of (nodes @ [n]) = (if index_of nodes (ni_id n) = None
     then (index_of nodes)(ni_id n \<mapsto> length nodes) else index_of nodes)"
proof -
  have tw: "takeWhile (\<lambda>m. ni_id m \<noteq> i) nodes = nodes" if "i \<notin> ni_id ` set nodes" for i
    using that by (auto simp: takeWhile_eq_all_conv)
  have "index_of (nodes @ [n]) i = (if index_of nodes (ni_id n) = None
     then (index_of nodes)(ni_id n \<mapsto> length nodes) else index_of nodes) i" for i
  proof (cases "i \<in> ni_id ` set nodes")
    case True
    then obtain m where "m \<in> set nodes" "ni_id m = i" by auto
    then have "takeWhile (\<lambda>m. ni_id m \<noteq> i) (nodes @ [n]) = takeWhile (\<lambda>m. ni_id m \<noteq> i) nodes"
      by (intro takeWhile_append1) auto
    with True have "index_of (nodes @ [n]) i = index_of nodes i" "index_of nodes i \<noteq> None"
      by (simp_all add: index_of_def)
    then show ?thesis by (cases "i = ni_id n") auto
  next
    case False
    then have none: "index_of nodes i = None" by (simp add: index_of_def)
    show ?thesis
    proof (cases "i = ni_id n")
      case True
      have "takeWhile (\<lambda>m. ni_id m \<noteq> i) (nodes @ [n]) = nodes"
        using tw [OF False] True by (subst takeWhile_append2) (auto simp: takeWhile_eq_all_conv)
      then show ?thesis using True none by (simp add: index_of_def)
    next
      case neq: False
      then have "index_of (nodes @ [n]) i = None" using False by (simp add: index_of_def)
      then show ?thesis using neq none by simp
    qed
  qed
  then show ?thesis by blast
qed

lemma index_of_Some:
  assumes "index_of nodes i = Some k"
  shows "k < length nodes" and "ni_id (nodes ! k) = i" and "\<And>j. j < k \<Longrightarrow> ni_id (nodes ! j) \<noteq> i"
proof -
  let ?P = "\<lambda>n. ni_id n \<noteq> i"
  from assms have k: "k = length (takeWhile ?P nodes)" and ex: "\<exists>n \<in> set nodes. \<not> ?P n"
    by (auto simp: index_of_def split: if_splits)
  from ex have "takeWhile ?P nodes \<noteq> nodes" by (auto simp: takeWhile_eq_all_conv)
  then show less: "k < length nodes"
    unfolding k by (metis length_takeWhile_le le_neq_implies_less take_all takeWhile_eq_take order_refl)
  show "ni_id (nodes ! k) = i" using nth_length_takeWhile [of ?P nodes] less k by simp
  fix j assume j: "j < k"
  then have "takeWhile ?P nodes ! j \<in> set (takeWhile ?P nodes)" by (simp add: k)
  then have "?P (takeWhile ?P nodes ! j)" by (rule set_takeWhileD [THEN conjunct2])
  then show "ni_id (nodes ! j) \<noteq> i" using takeWhile_nth j k by metis
qed

lemma load_node_cases:
  assumes "load_node J reg node (nodes, idx) = Inr (nodes', idx')"
  obtains n desc where "nodes' = nodes @ [n]" "ni_descriptor n = Some desc" "desc \<in> set reg"
    "node_id desc \<noteq> Some ''com.cpipe.precision_convert''"
    "validate_node_params J (Some desc) (ni_params n) = Inr ()"
    "idx' = (if idx (ni_id n) = None then idx(ni_id n \<mapsto> length nodes) else idx)"
proof -
  from assms obtain nid ty desc params where ty: "ty \<noteq> ''com.cpipe.precision_convert''"
    and find: "registry_find reg ty = Some desc"
    and ok: "validate_node_params J (Some desc) params = Inr ()"
    and out: "nodes' = nodes @ [\<lparr>ni_id = nid, ni_descriptor = Some desc, ni_params = params\<rparr>]"
      "idx' = (if idx nid = None then idx(nid \<mapsto> length nodes) else idx)"
    by (auto simp: load_node_def bind_res_eq_Inr_iff split: if_split_asm option.split_asm)
  show ?thesis
    by (rule that [OF out(1)]) (use registry_find_Some [OF find] ty ok out(2) in auto)
qed

definition nodes_ok :: "'j json_api \<Rightarrow> 'e registry \<Rightarrow> ('j, 'e) node_instance list \<Rightarrow> bool" where
  "nodes_ok J reg nodes \<longleftrightarrow> (\<forall>n \<in> set nodes. \<exists>desc \<in> set reg. ni_descriptor n = Some desc \<and>
     node_id desc \<noteq> Some ''com.cpipe.precision_convert'' \<and>
     validate_node_params J (Some desc) (ni_params n) = Inr ())"

lemma load_nodes_spec:
  assumes "fold_res (load_node J reg) js ([], Map.empty) = Inr (nodes, idx)"
  shows "nodes_ok J reg nodes \<and> idx = index_of nodes \<and> length nodes = length js"
  using assms
proof (induction js arbitrary: nodes idx rule: rev_induct)
  case Nil
  then show ?case by (auto simp: nodes_ok_def index_of_def)
next
  case (snoc j js)
  from snoc.prems obtain ns ix where st: "fold_res (load_node J reg) js ([], Map.empty) = Inr (ns, ix)"
    and step: "load_node J reg j (ns, ix) = Inr (nodes, idx)"
    by (auto simp: fold_res_append bind_res_eq_Inr_iff)
  from snoc.IH [OF st] have IH: "nodes_ok J reg ns" "ix = index_of ns" "length ns = length js"
    by auto
  from load_node_cases [OF step] obtain n desc where n: "nodes = ns @ [n]"
    "ni_descriptor n = Some desc" "desc \<in> set reg"
    "node_id desc \<noteq> Some ''com.cpipe.precision_convert''"
    "validate_node_params J (Some desc) (ni_params n) = Inr ()"
    "idx = (if ix (ni_id n) = None then ix(ni_id n \<mapsto> length ns) else ix)" by metis
  have "nodes_ok J reg nodes" using IH(1) n(1-5) by (auto simp: nodes_ok_def)
  then show ?case using IH(2,3) n(1,6) by (simp add: index_of_snoc)
qed

text \<open>\<open>edges_from nodes js es\<close>: the edges \<open>es\<close> are those of the JSON edges \<open>js\<close>, with their ends resolved.\<close>

definition edge_from :: "'j json_api \<Rightarrow> ('j, 'e) node_instance list \<Rightarrow> 'j \<Rightarrow> precision_graph_edge \<Rightarrow> bool" where
  "edge_from J nodes j e \<longleftrightarrow>
     (\<exists>f t ft tt. js_at J j ''from'' = Some f \<and> js_get_string J f = Some ft \<and>
        js_at J j ''to'' = Some t \<and> js_get_string J t = Some tt \<and>
        index_of nodes (ep_node_id (split_endpoint ft)) = Some (ge_from e) \<and>
        ge_from_port e = ep_port (split_endpoint ft) \<and>
        index_of nodes (ep_node_id (split_endpoint tt)) = Some (ge_to e) \<and>
        ge_to_port e = ep_port (split_endpoint tt))"

lemma edge_from_resolved:
  assumes "edge_from J nodes j e"
  shows "\<exists>f t ft tt. js_at J j ''from'' = Some f \<and> js_get_string J f = Some ft \<and>
    js_at J j ''to'' = Some t \<and> js_get_string J t = Some tt \<and>
    ge_from e < length nodes \<and> ni_id (nodes ! ge_from e) = ep_node_id (split_endpoint ft) \<and>
    ge_to e < length nodes \<and> ni_id (nodes ! ge_to e) = ep_node_id (split_endpoint tt) \<and>
    ge_from_port e = ep_port (split_endpoint ft) \<and> ge_to_port e = ep_port (split_endpoint tt) \<and>
    (\<forall>i < ge_from e. ni_id (nodes ! i) \<noteq> ni_id (nodes ! ge_from e)) \<and>
    (\<forall>i < ge_to e. ni_id (nodes ! i) \<noteq> ni_id (nodes ! ge_to e))"
proof -
  from assms obtain f t ft tt where j: "js_at J j ''from'' = Some f" "js_get_string J f = Some ft"
    "js_at J j ''to'' = Some t" "js_get_string J t = Some tt"
    and u: "index_of nodes (ep_node_id (split_endpoint ft)) = Some (ge_from e)"
    and v: "index_of nodes (ep_node_id (split_endpoint tt)) = Some (ge_to e)"
    and p: "ge_from_port e = ep_port (split_endpoint ft)" "ge_to_port e = ep_port (split_endpoint tt)"
    by (auto simp: edge_from_def)
  from j p index_of_Some [OF u] index_of_Some [OF v] show ?thesis by auto
qed

lemma load_edge_cases:
  assumes "load_edge J (index_of nodes) j es0 = Inr es"
  obtains e where "es = es0 @ [e]" "edge_from J nodes j e"
proof -
  from assms obtain f ft t tt u v where
    ft: "js_at J j ''from'' = Some f" "js_get_string J f = Some ft"
      "js_at J j ''to'' = Some t" "js_get_string J t = Some tt"
    and u: "index_of nodes (ep_node_id (split_endpoint ft)) = Some u"
    and v: "index_of nodes (ep_node_id (split_endpoint tt)) = Some v"
    and es: "es = es0 @ [\<lparr>ge_from = u, ge_to = v, ge_from_port = ep_port (split_endpoint ft),
        ge_to_port = ep_port (split_endpoint tt)\<rparr>]"
    by (auto simp: load_edge_def bind_res_eq_Inr_iff Let_def split: option.split_asm)
  show ?thesis by (rule that [OF es]) (use ft u v in \<open>auto simp: edge_from_def\<close>)
qed

lemma load_edges_spec:
  assumes "fold_res (load_edge J (index_of nodes)) js [] = Inr es"
  shows "list_all2 (edge_from J nodes) js es"
  using assms
proof (induction js arbitrary: es rule: rev_induct)
  case Nil
  then show ?case by simp
next
  case (snoc j js)
  from snoc.prems obtain es0 where "fold_res (load_edge J (index_of nodes)) js [] = Inr es0"
    and step: "load_edge J (index_of nodes) j es0 = Inr es"
    by (auto simp: fold_res_append bind_res_eq_Inr_iff)
  with snoc.IH have "list_all2 (edge_from J nodes) js es0" by blast
  moreover from load_edge_cases [OF step] obtain e where "es = es0 @ [e]" "edge_from J nodes j e" .
  ultimately show ?case by (simp add: list_all2_appendI)
qed

lemma load_graph_spec:
  assumes "load_graph J reg doc = Inr (nodes, es)"
  shows "nodes_ok J reg nodes"
    and "\<exists>ej. js_at J doc ''edges'' = Some ej \<and> list_all2 (edge_from J nodes) (js_elements J ej) es"
    and "\<And>e. e \<in> set es \<Longrightarrow> ge_from e < length nodes \<and> ge_to e < length nodes"
proof -
  from assms obtain nj ej idx where "fold_res (load_node J reg) (js_elements J nj) ([], Map.empty)
      = Inr (nodes, idx)" "js_at J doc ''edges'' = Some ej"
    and es: "fold_res (load_edge J idx) (js_elements J ej) [] = Inr es"
    by (auto simp: load_graph_def bind_res_eq_Inr_iff)
  moreover then have idx: "nodes_ok J reg nodes" "idx = index_of nodes"
    using load_nodes_spec by blast+
  ultimately show "nodes_ok J reg nodes"
    and ex: "\<exists>ej. js_at J doc ''edges'' = Some ej \<and> list_all2 (edge_from J nodes) (js_elements J ej) es"
    using load_edges_spec by blast+
  fix e assume "e \<in> set es"
  with ex obtain j where "edge_from J nodes j e"
    by (auto simp: list_all2_conv_all_nth in_set_conv_nth)
  then show "ge_from e < length nodes \<and> ge_to e < length nodes"
    by (auto simp: edge_from_def dest: index_of_Some(1))
qed

section \<open>Metadata steps\<close>

lemma set_append_unique_steps [simp]: "set (append_unique_steps out steps) = set out \<union> set steps"
  unfolding append_unique_steps_def
  by (induction steps arbitrary: out) (auto simp: contains_step_def)

text \<open>
  \<open>sets_steps\<close>: the steps a node declares on the output ports its edges leave from. \<open>steps_at\<close> is the
  specification of the propagation: what any node that reaches \<open>v\<close> sets.
\<close>

definition sets_steps ::
  "'j json_api \<Rightarrow> ('j, 'e) node_instance list \<Rightarrow> precision_graph_edge list \<Rightarrow> nat \<Rightarrow> string set" where
  "sets_steps J nodes es v = {s. \<exists>e st. e \<in> set es \<and> ge_from e = v \<and> s \<in> set st \<and>
     manifest_metadata_steps J (ni_descriptor (nodes ! v)) ''out'' (ge_from_port e)
       ''sets_steps_applied'' = Inr st}"

definition steps_at ::
  "'j json_api \<Rightarrow> ('j, 'e) node_instance list \<Rightarrow> precision_graph_edge list \<Rightarrow> nat \<Rightarrow> string set" where
  "steps_at J nodes es v = (\<Union>w \<in> {w. (w, v) \<in> (set (graph_of es))\<^sup>*}. sets_steps J nodes es w)"

lemma steps_at_unfold:
  "steps_at J nodes es v = sets_steps J nodes es v \<union>
     (\<Union>u \<in> {u. (u, v) \<in> set (graph_of es)}. steps_at J nodes es u)"
proof -
  have "{w. (w, v) \<in> (set (graph_of es))\<^sup>*} =
      insert v (\<Union>u \<in> {u. (u, v) \<in> set (graph_of es)}. {w. (w, u) \<in> (set (graph_of es))\<^sup>*})"
    by (auto elim: rtranclE intro: rtrancl_into_rtrancl)
  then show ?thesis by (auto simp: steps_at_def)
qed

lemma gather_steps:
  assumes "v < length cs" and "\<And>e. e \<in> set es \<Longrightarrow> ge_to e = v \<Longrightarrow> ge_from e \<noteq> v"
  defines "cs' \<equiv> fold (\<lambda>edge cs. if ge_to edge = v
      then cs[v := append_unique_steps (cs ! v) (cs ! ge_from edge)] else cs) es cs"
  shows "length cs' = length cs \<and> (\<forall>w. w \<noteq> v \<longrightarrow> cs' ! w = cs ! w) \<and>
    set (cs' ! v) = set (cs ! v) \<union> (\<Union>e \<in> {e \<in> set es. ge_to e = v}. set (cs ! ge_from e))"
  using assms(1,2) unfolding cs'_def
proof (induction es arbitrary: cs)
  case Nil
  then show ?case by simp
next
  case (Cons e es)
  define d where "d = (if ge_to e = v then cs[v := append_unique_steps (cs ! v) (cs ! ge_from e)]
    else cs)"
  have d: "length d = length cs" "\<And>w. w \<noteq> v \<Longrightarrow> d ! w = cs ! w"
    "set (d ! v) = set (cs ! v) \<union> (if ge_to e = v then set (cs ! ge_from e) else {})"
    using Cons.prems(1) by (auto simp: d_def)
  have eq: "set (d ! ge_from x) = set (cs ! ge_from x)" if "x \<in> set es" "ge_to x = v" for x
    using that Cons.prems(2) [of x] d(2) by simp
  have "v < length d" using Cons.prems(1) d(1) by simp
  note IH = Cons.IH [OF this Cons.prems(2), simplified]
  have "(\<Union>x \<in> {x \<in> set es. ge_to x = v}. set (d ! ge_from x)) =
      (\<Union>x \<in> {x \<in> set es. ge_to x = v}. set (cs ! ge_from x))"
    using eq by (intro SUP_cong) auto
  with IH d show ?case
    by (simp add: d_def [symmetric] Collect_conj_eq insert_Collect) (auto split: if_splits)
qed

lemma declare_steps:
  assumes "fold_res (\<lambda>edge cs. if ge_from edge = v
      then bind_res (manifest_metadata_steps J (ni_descriptor (nodes ! v)) ''out''
             (ge_from_port edge) ''sets_steps_applied'') (\<lambda>steps.
           Inr (cs[v := append_unique_steps (cs ! v) steps]))
      else Inr cs) es cs = Inr cs'" and "v < length cs"
  shows "length cs' = length cs \<and> (\<forall>w. w \<noteq> v \<longrightarrow> cs' ! w = cs ! w) \<and>
    set (cs' ! v) = set (cs ! v) \<union> sets_steps J nodes es v"
  using assms
proof (induction es arbitrary: cs)
  case Nil
  then show ?case by (simp add: sets_steps_def)
next
  case (Cons e es)
  show ?case
  proof (cases "ge_from e = v")
    case True
    with Cons.prems obtain st where st: "manifest_metadata_steps J (ni_descriptor (nodes ! v)) ''out''
        (ge_from_port e) ''sets_steps_applied'' = Inr st"
      by (auto simp: bind_res_eq_Inr_iff)
    then have "sets_steps J nodes (e # es) v = set st \<union> sets_steps J nodes es v"
      using True by (auto simp: sets_steps_def)
    with Cons True st show ?thesis by (fastforce simp: bind_res_eq_Inr_iff)
  next
    case False
    then have "sets_steps J nodes (e # es) v = sets_steps J nodes es v"
      by (auto simp: sets_steps_def)
    with Cons False show ?thesis by simp
  qed
qed

lemma node_steps_spec:
  assumes "node_steps J nodes es v cs = Inr cs'" and "v < length cs"
    and "\<And>e. e \<in> set es \<Longrightarrow> ge_to e = v \<Longrightarrow> ge_from e \<noteq> v"
  shows "length cs' = length cs \<and> (\<forall>w. w \<noteq> v \<longrightarrow> cs' ! w = cs ! w) \<and>
    set (cs' ! v) = set (cs ! v) \<union> (\<Union>e \<in> {e \<in> set es. ge_to e = v}. set (cs ! ge_from e)) \<union>
      sets_steps J nodes es v"
proof -
  note g = gather_steps [OF assms(2,3)]
  from assms(1) have "fold_res (\<lambda>edge cs. if ge_from edge = v
      then bind_res (manifest_metadata_steps J (ni_descriptor (nodes ! v)) ''out''
             (ge_from_port edge) ''sets_steps_applied'') (\<lambda>steps.
           Inr (cs[v := append_unique_steps (cs ! v) steps]))
      else Inr cs) es (fold (\<lambda>edge cs. if ge_to edge = v
      then cs[v := append_unique_steps (cs ! v) (cs ! ge_from edge)] else cs) es cs) = Inr cs'"
    by (simp add: node_steps_def)
  from declare_steps [OF this] g assms(2) show ?thesis by auto
qed

lemma is_topological_snoc:
  assumes "is_topological n es (order @ [v])"
  shows "is_topological n es order" and "v < n" and "v \<notin> set order"
    and "\<And>u. (u, v) \<in> set es \<Longrightarrow> u < n \<Longrightarrow> u \<in> set order"
proof -
  from assms show "is_topological n es order"
    by (auto simp: is_topological_def nth_append split: if_splits)
  from assms show v: "v < n" "v \<notin> set order" by (auto simp: is_topological_def)
  fix u assume "(u, v) \<in> set es" "u < n"
  with assms v show "u \<in> set order"
    using is_topological_before [OF assms, of u v "length order"] by (auto simp: nth_append)
qed

lemma cumulative_steps_spec:
  assumes "is_topological n (graph_of es) order" and "length nodes = n"
    and "\<And>e. e \<in> set es \<Longrightarrow> ge_from e < n \<and> ge_to e < n"
    and "cumulative_steps J nodes es order = Inr cs"
  shows "length cs = n \<and> (\<forall>v \<in> set order. set (cs ! v) = steps_at J nodes es v) \<and>
    (\<forall>v < n. v \<notin> set order \<longrightarrow> cs ! v = [])"
  using assms(1,4)
proof (induction order arbitrary: cs rule: rev_induct)
  case Nil
  then show ?case by (auto simp: cumulative_steps_def assms(2))
next
  case (snoc v order)
  note top = is_topological_snoc [OF snoc.prems(1)]
  from snoc.prems(2) obtain cs0 where cs0: "cumulative_steps J nodes es order = Inr cs0"
    and step: "node_steps J nodes es v cs0 = Inr cs"
    by (auto simp: cumulative_steps_def fold_res_append bind_res_eq_Inr_iff)
  from snoc.IH [OF top(1) cs0] have IH: "length cs0 = n"
    "\<And>w. w \<in> set order \<Longrightarrow> set (cs0 ! w) = steps_at J nodes es w"
    "\<And>w. w < n \<Longrightarrow> w \<notin> set order \<Longrightarrow> cs0 ! w = []" by auto
  have preds: "ge_from e \<in> set order" if "e \<in> set es" "ge_to e = v" for e
    using that assms(3) [of e] by (intro top(4)) (auto simp: graph_of_def)
  then have neq: "ge_from e \<noteq> v" if "e \<in> set es" "ge_to e = v" for e using that top(3) by blast
  have len: "v < length cs0" using top(2) IH(1) by simp
  have spec: "length cs = n" "\<And>w. w \<noteq> v \<Longrightarrow> cs ! w = cs0 ! w"
    "set (cs ! v) = set (cs0 ! v) \<union> (\<Union>e \<in> {e \<in> set es. ge_to e = v}. set (cs0 ! ge_from e)) \<union>
      sets_steps J nodes es v"
    using node_steps_spec [OF step len neq] IH(1) by simp_all
  have "(\<Union>e \<in> {e \<in> set es. ge_to e = v}. set (cs0 ! ge_from e)) =
      (\<Union>u \<in> {u. (u, v) \<in> set (graph_of es)}. steps_at J nodes es u)"
    using IH(2) preds by (fastforce simp: graph_of_def)
  then have "set (cs ! v) = steps_at J nodes es v"
    using spec(3) IH(3) [OF top(2,3)] steps_at_unfold [of J nodes es v] by auto
  moreover have "set (cs ! w) = steps_at J nodes es w" if "w \<in> set order" for w
    using that spec(2) [of w] IH(2) top(3) by metis
  ultimately show ?case using spec(1,2) IH(3) by auto
qed

section \<open>Checks on the edges\<close>

lemma find_missing_None:
  "List.find (\<lambda>step. \<not> contains_step steps step) required = None \<longleftrightarrow> set required \<subseteq> set steps"
  by (auto simp: find_None_iff contains_step_def)

lemma check_edge_Inr:
  "check_edge J nodes cs e u = Inr () \<longleftrightarrow>
     (\<exists>required. manifest_metadata_steps J (ni_descriptor (nodes ! ge_to e)) ''in'' (ge_to_port e)
         ''requires_steps_applied'' = Inr required \<and> set required \<subseteq> set (cs ! ge_from e)) \<and>
     (\<exists>produced_role required_role.
        manifest_color_role J (ni_descriptor (nodes ! ge_from e)) ''output_role'' = Inr produced_role \<and>
        manifest_color_role J (ni_descriptor (nodes ! ge_to e)) ''input_role'' = Inr required_role \<and>
        color_roles_compatible produced_role required_role)"
  unfolding check_edge_def bind_res_eq_Inr_iff
  by (auto simp: find_missing_None [symmetric] bind_res_eq_Inr_iff split: option.splits if_splits)

lemma fold_res_unit: "fold_res f xs () = Inr () \<longleftrightarrow> (\<forall>x \<in> set xs. f x () = Inr ())"
  by (induction xs) (auto simp: bind_res_eq_Inr_iff)

text \<open>What a graph that passes the checks satisfies.\<close>

definition edge_ok ::
  "'j json_api \<Rightarrow> ('j, 'e) node_instance list \<Rightarrow> precision_graph_edge list
     \<Rightarrow> precision_graph_edge \<Rightarrow> bool" where
  "edge_ok J nodes es e \<longleftrightarrow>
     (\<exists>required. manifest_metadata_steps J (ni_descriptor (nodes ! ge_to e)) ''in'' (ge_to_port e)
         ''requires_steps_applied'' = Inr required \<and> set required \<subseteq> steps_at J nodes es (ge_from e)) \<and>
     (\<exists>produced_role required_role.
        manifest_color_role J (ni_descriptor (nodes ! ge_from e)) ''output_role'' = Inr produced_role \<and>
        manifest_color_role J (ni_descriptor (nodes ! ge_to e)) ''input_role'' = Inr required_role \<and>
        color_roles_compatible produced_role required_role)"

lemma in_range_graph_of:
  assumes "\<And>e. e \<in> set es \<Longrightarrow> ge_from e < n \<and> ge_to e < n"
  shows "set (in_range n (graph_of es)) = set (graph_of es)"
  using assms by (auto simp: set_in_range graph_of_def)

lemma kahn_full:
  assumes "kahn n es = Some order" and "length order = n"
  shows "set order = {0..<n}" and "distinct order"
  using kahn_sound [OF assms(1)] assms(2)
  by (auto simp: is_topological_def card_subset_eq distinct_card)

lemma metadata_steps_Inl: "manifest_metadata_steps J d k n f = Inl s \<Longrightarrow> s = Thrown"
proof -
  have "find_port J k n ps = Inl s \<Longrightarrow> s = Thrown" for ps
    by (induction ps) (auto simp: bind_res_eq_Inl_iff or_throw_eq_Inl split: if_splits)
  then show "manifest_metadata_steps J d k n f = Inl s \<Longrightarrow> s = Thrown"
    by (auto simp: manifest_metadata_steps_def manifest_ports_def bind_res_eq_Inl_iff or_throw_eq_Inl
        split: option.splits)
qed

lemma color_role_Inl: "manifest_color_role J d f = Inl s \<Longrightarrow> s = Thrown"
  by (auto simp: manifest_color_role_def bind_res_eq_Inl_iff or_throw_eq_Inl split: option.splits)

lemma cumulative_steps_Inl: "cumulative_steps J nodes es order = Inl s \<Longrightarrow> s = Thrown"
  unfolding cumulative_steps_def node_steps_def
  by (auto dest!: fold_res_Inl_ex simp: bind_res_eq_Inl_iff split: if_splits dest: metadata_steps_Inl)

lemma check_edge_Inl:
  "check_edge J nodes cs e u = Inl s \<Longrightarrow> s = Thrown \<or> (\<exists>msg. s = Returned NeedMetadata msg)"
  by (auto simp: check_edge_def bind_res_eq_Inl_iff split: option.splits if_splits
      dest: metadata_steps_Inl color_role_Inl)

lemma check_graph_cyclic:
  assumes "\<And>e. e \<in> set es \<Longrightarrow> ge_from e < length nodes \<and> ge_to e < length nodes"
  shows "check_graph J nodes es = Inl (Returned Failed ''cycle in pipeline graph'') \<longleftrightarrow>
    \<not> acyclic (set (graph_of es))"
proof -
  obtain order where order: "kahn (length nodes) (graph_of es) = Some order" using kahn_total by blast
  have iff: "length order = length nodes \<longleftrightarrow> acyclic (set (graph_of es))"
    using kahn_complete_iff [OF order] in_range_graph_of [OF assms] by simp
  show ?thesis
  proof (cases "acyclic (set (graph_of es))")
    case True
    have "check_graph J nodes es \<noteq> Inl (Returned Failed ''cycle in pipeline graph'')"
      using True iff order
      by (auto simp: check_graph_def bind_res_eq_Inl_iff dest: cumulative_steps_Inl
          dest!: fold_res_Inl_ex check_edge_Inl)
    with True show ?thesis by simp
  next
    case False
    with iff order show ?thesis by (simp add: check_graph_def)
  qed
qed

lemma check_graph_ok:
  assumes "\<And>e. e \<in> set es \<Longrightarrow> ge_from e < length nodes \<and> ge_to e < length nodes"
    and "check_graph J nodes es = Inr ()" and "e \<in> set es"
  shows "edge_ok J nodes es e"
proof -
  from assms(2) obtain order cs where order: "kahn (length nodes) (graph_of es) = Some order"
    "length order = length nodes" and cs: "cumulative_steps J nodes es order = Inr cs"
    and chk: "fold_res (check_edge J nodes cs) es () = Inr ()"
    by (auto simp: check_graph_def bind_res_eq_Inr_iff split: if_splits)
  have "ge_from e \<in> set order" using kahn_full(1) [OF order] assms(1) [OF assms(3)] by simp
  then have "set (cs ! ge_from e) = steps_at J nodes es (ge_from e)"
    using cumulative_steps_spec [OF kahn_sound [OF order(1)] refl assms(1) cs] by blast
  moreover have "check_edge J nodes cs e () = Inr ()" using chk assms(3) by (simp add: fold_res_unit)
  ultimately show ?thesis unfolding check_edge_Inr edge_ok_def by simp
qed

section \<open>The planned graph\<close>

lemma auto_insert_plan_range:
  assumes "auto_insert J nodes es pc (Some p0) = (None, Some p)" and "e \<in> set (pp_edges p)"
  shows "ge_from e < length (pp_nodes p) \<and> ge_to e < length (pp_nodes p)"
proof -
  from auto_insert_bridge_inv [OF assms(1)] obtain orig where
    inv: "bridge_inv J nodes pc (set es) orig p" ..
  then have len: "length (pp_nodes p) = length nodes + length orig"
    and o: "\<And>i. i < length orig \<Longrightarrow> orig ! i \<in> set es"
    and e: "e \<in> set es \<or> bridges (length nodes) orig e"
    using assms(2) by (auto simp: bridge_inv_def)
  note range = auto_insert_range [OF assms(1)]
  from e show ?thesis
  proof
    assume "e \<in> set es"
    from range [OF this] show ?thesis by (simp add: len)
  next
    assume "bridges (length nodes) orig e"
    then obtain i where i: "i < length orig"
      and "e = bridge_in (orig ! i) (length nodes + i) \<or> e = bridge_out (orig ! i) (length nodes + i)"
      by (auto simp: bridges_def)
    with range [OF o [OF i]] show ?thesis by (auto simp: len)
  qed
qed

abbreviation insert_for ::
  "'j json_api \<Rightarrow> 'e registry \<Rightarrow> ('j, 'e) node_instance list \<Rightarrow> precision_graph_edge list
     \<Rightarrow> stop option \<times> ('j, 'e) precision_plan option" where
  "insert_for J reg nodes es \<equiv> auto_insert J (precision_nodes_of nodes) es
     (registry_find reg ''com.cpipe.precision_convert'')
     (Some \<lparr>pp_nodes = [], pp_edges = [], pp_inserted = []\<rparr>)"

text \<open>
  Once the graph of the document has no cycle, planning fails only as the insertion does: the range
  check and the cycle check that follow it always pass.
\<close>

lemma plan_nodes_eq:
  assumes acyc: "acyclic (set (graph_of es))"
  shows "\<exists>pl. (insert_for J reg nodes es = (None, Some pl) \<and>
       (\<exists>order. kahn (length (pp_nodes pl)) (graph_of (pp_edges pl)) = Some order \<and>
          length order = length (pp_nodes pl) \<and>
          plan_nodes J reg nodes es = Inr (pl, map (\<lambda>i. plan_node_instance (pp_nodes pl ! i)) order))) \<or>
     (\<exists>s. insert_for J reg nodes es = (Some s, Some pl) \<and> plan_nodes J reg nodes es = Inl s)"
proof -
  obtain r pl where ins: "insert_for J reg nodes es = (r, Some pl)"
    by (cases "steps_res (insert_edge J (precision_nodes_of nodes)
          (registry_find reg ''com.cpipe.precision_convert'')) es
          \<lparr>pp_nodes = precision_nodes_of nodes, pp_edges = [], pp_inserted = []\<rparr>")
       (simp add: auto_insert_def)
  show ?thesis
  proof (cases r)
    case None
    note ok = ins [unfolded None]
    let ?n = "length (pp_nodes pl)"
    obtain order where order: "kahn ?n (graph_of (pp_edges pl)) = Some order" using kahn_total by blast
    have acyc': "acyclic (set (graph_of (pp_edges pl)))"
      using auto_insert_bridge_inv [OF ok] bridge_inv_acyclic [OF _ auto_insert_range [OF ok] acyc]
      by blast
    then have full: "length order = ?n"
      using kahn_complete_iff [OF order] in_range_graph_of [OF auto_insert_plan_range [OF ok]] by simp
    have "\<not> list_ex (\<lambda>edge. ?n \<le> ge_from edge \<or> ?n \<le> ge_to edge) (pp_edges pl)"
      using auto_insert_plan_range [OF ok] by (auto simp: list_ex_iff not_le)
    with ok order full show ?thesis by (auto simp: plan_nodes_def)
  next
    case (Some s)
    with ins show ?thesis by (auto simp: plan_nodes_def)
  qed
qed

section \<open>Loading ends\<close>

text \<open>No operation of the loader fails to return.\<close>

lemma find_field_Inl: "find_field J k v xs = Inl s \<Longrightarrow> s = Thrown"
  by (induction xs) (auto simp: bind_res_eq_Inl_iff or_throw_eq_Inl split: if_splits)

lemmas inl_simps = bind_res_eq_Inl_iff or_throw_eq_Inl

lemma validate_param_ends:
  "validate_enum_param J n v d \<noteq> Inl Diverges" "validate_number_param J n v d \<noteq> Inl Diverges"
  by (auto simp: validate_enum_param_def validate_number_param_def inl_simps
      split: option.splits if_splits)

lemma validate_typed_param_ends: "validate_typed_param J n v d \<noteq> Inl Diverges"
  by (auto simp: validate_typed_param_def inl_simps validate_param_ends)

lemma validate_node_params_ends: "validate_node_params J d ps \<noteq> Inl Diverges"
  by (auto simp: validate_node_params_def inl_simps validate_typed_param_ends
      dest!: fold_res_Inl_ex dest: find_field_Inl split: option.splits)

lemma load_node_ends: "load_node J reg n st \<noteq> Inl Diverges"
  by (cases st) (auto simp: load_node_def inl_simps validate_node_params_ends split: option.splits)

lemma load_edge_ends: "load_edge J ix e es \<noteq> Inl Diverges"
  by (auto simp: load_edge_def inl_simps Let_def split: option.splits)

lemma load_graph_ends: "load_graph J reg doc \<noteq> Inl Diverges"
  by (auto simp: load_graph_def inl_simps load_node_ends load_edge_ends dest!: fold_res_Inl_ex)

lemma check_graph_ends: "check_graph J nodes es \<noteq> Inl Diverges"
  using kahn_total [of "length nodes" "graph_of es"]
  by (auto simp: check_graph_def inl_simps dest: cumulative_steps_Inl
      dest!: fold_res_Inl_ex check_edge_Inl split: if_splits)

lemma plan_nodes_ends: "plan_nodes J reg nodes es \<noteq> Inl Diverges"
proof -
  have "insert_edge J ns pc e p \<noteq> Inl Diverges" for ns :: "('a, 'b) precision_graph_node list" and pc e p
    using insert_edge_Inl [of J ns pc e p Diverges] by (auto simp: stop_reason_def split: if_splits)
  then have "fst (insert_for J reg nodes es) \<noteq> Some Diverges"
    by (auto simp: auto_insert_def steps_res_Inl dest!: fold_res_Inl_ex)
  moreover have "\<exists>o'. kahn (length (pp_nodes p)) (graph_of (pp_edges p)) = Some o'"
    for p :: "('a, 'b) precision_plan" by (rule kahn_total)
  ultimately show ?thesis
    by (auto simp: plan_nodes_def inl_simps split: prod.splits option.splits if_splits)
       (metis or_diverge_simps(2) sum.distinct(1))
qed

lemma map_res_Inl_ex: "map_res f xs = Inl s \<Longrightarrow> \<exists>x \<in> set xs. f x = Inl s"
  by (induction xs) (auto simp: bind_res_eq_Inl_iff)

lemma load_inputs_ends: "load_inputs J doc \<noteq> Inl Diverges"
  by (auto simp: load_inputs_def inl_simps layout_from_json_def dest!: map_res_Inl_ex)

section \<open>How loading stops\<close>

lemma check_graph_Inl:
  assumes "check_graph J nodes es = Inl s"
  shows "s = Returned Failed ''cycle in pipeline graph'' \<or> s = Thrown \<or>
    (\<exists>m. s = Returned NeedMetadata m)"
proof -
  obtain order where "kahn (length nodes) (graph_of es) = Some order" using kahn_total by blast
  with assms show ?thesis
    by (auto simp: check_graph_def bind_res_eq_Inl_iff dest: cumulative_steps_Inl
        dest!: fold_res_Inl_ex check_edge_Inl split: if_splits)
qed

lemma plan_nodes_Inl:
  assumes "plan_nodes J reg nodes es = Inl s"
    and "\<And>e. e \<in> set es \<Longrightarrow> ge_from e < length nodes \<and> ge_to e < length nodes"
    and "acyclic (set (graph_of es))"
  shows "s = Thrown \<or> (\<exists>m. s = Returned BadPrecision m)"
proof -
  let ?ns = "precision_nodes_of nodes" and ?pc = "registry_find reg ''com.cpipe.precision_convert''"
  from plan_nodes_eq [OF assms(3), of J nodes reg] assms(1)
  have "fst (insert_for J reg nodes es) = Some s" by auto
  then have "fold_res (insert_edge J ?ns ?pc) es \<lparr>pp_nodes = ?ns, pp_edges = [], pp_inserted = []\<rparr> = Inl s"
    by (simp add: auto_insert_def steps_res_Inl)
  from fold_res_Inl_ex [OF this] obtain e p where e: "e \<in> set es" "insert_edge J ?ns ?pc e p = Inl s"
    by blast
  have "length ?ns = length nodes" by (simp add: precision_nodes_of_def)
  with insert_edge_Inl [OF e(2)] assms(2) [OF e(1)] show ?thesis
    by (auto simp: stop_reason_def split: if_splits)
qed

lemma load_document_Inl:
  assumes "validate_pipeline_schema E doc = Inr ()"
    and "load_graph (env_json E) reg doc = Inr (nodes, es)"
    and "load_document E reg doc pl = Inl s"
  shows "check_graph (env_json E) nodes es = Inl s \<or>
    check_graph (env_json E) nodes es = Inr () \<and> plan_nodes (env_json E) reg nodes es = Inl s \<or>
    s = Thrown \<or> (\<exists>m. s = Returned Oom m)"
proof -
  have inputs: "load_inputs (env_json E) doc = Inl s \<Longrightarrow> s = Thrown"
    by (auto simp: load_inputs_def inl_simps layout_from_json_def dest!: map_res_Inl_ex)
  have memory: "plan_graph (env_json E) l ds es' = Inl s \<Longrightarrow> s = Thrown" for l ds es'
    using plan_graph_Inl by blast
  from assms show ?thesis
    by (auto simp: load_document_def Let_def bind_res_eq_Inl_iff dest: inputs memory split: if_splits)
qed

lemma load_document_ends: "load_document E reg doc pl \<noteq> Inl Diverges"
proof
  assume d: "load_document E reg doc pl = Inl Diverges"
  have "validate_pipeline_schema E doc \<noteq> Inl Diverges"
    by (auto simp: validate_pipeline_schema_def split: option.splits)
  with d load_graph_ends [of "env_json E" reg doc] obtain nodes es where
    "validate_pipeline_schema E doc = Inr ()" "load_graph (env_json E) reg doc = Inr (nodes, es)"
    by (auto simp: load_document_def Let_def bind_res_eq_Inl_iff)
  from load_document_Inl [OF this d] show False by (simp add: check_graph_ends plan_nodes_ends)
qed

section \<open>What a successful load has done\<close>

lemma load_document_Inr:
  assumes "load_document E reg doc pl = Inr pl'"
  obtains nodes es pplan inputs layout mp order where
    "validate_pipeline_schema E doc = Inr ()"
    "load_graph (env_json E) reg doc = Inr (nodes, es)"
    "check_graph (env_json E) nodes es = Inr ()"
    "acyclic (set (graph_of es))"
    "insert_for (env_json E) reg nodes es = (None, Some pplan)"
    "kahn (length (pp_nodes pplan)) (graph_of (pp_edges pplan)) = Some order"
    "length order = length (pp_nodes pplan)"
    "load_inputs (env_json E) doc = Inr inputs"
    "layout = (case inputs of [] \<Rightarrow> default_layout | i # _ \<Rightarrow> ip_layout i)"
    "plan_graph (env_json E) layout (map gn_descriptor (pp_nodes pplan)) (graph_of (pp_edges pplan))
       = Inr mp"
    "peak_bytes mp \<le> pl_cap_bytes pl"
    "pl' = pl\<lparr>pl_inputs := inputs, pl_layout := layout,
       pl_nodes := map (\<lambda>i. plan_node_instance (pp_nodes pplan ! i)) order,
       pl_sources := Map.empty, pl_registry := Some reg, pl_peak_bytes := peak_bytes mp\<rparr>"
proof -
  from assms obtain nodes es pplan planned inputs mp where
    ok: "validate_pipeline_schema E doc = Inr ()"
      "load_graph (env_json E) reg doc = Inr (nodes, es)" "check_graph (env_json E) nodes es = Inr ()"
    and pn: "plan_nodes (env_json E) reg nodes es = Inr (pplan, planned)"
    and rest: "load_inputs (env_json E) doc = Inr inputs"
      "plan_graph (env_json E) (case inputs of [] \<Rightarrow> default_layout | i # _ \<Rightarrow> ip_layout i)
         (map gn_descriptor (pp_nodes pplan)) (graph_of (pp_edges pplan)) = Inr mp"
      "peak_bytes mp \<le> pl_cap_bytes pl"
      "pl' = pl\<lparr>pl_inputs := inputs,
         pl_layout := (case inputs of [] \<Rightarrow> default_layout | i # _ \<Rightarrow> ip_layout i),
         pl_nodes := planned, pl_sources := Map.empty, pl_registry := Some reg,
         pl_peak_bytes := peak_bytes mp\<rparr>"
    by (auto simp: load_document_def Let_def bind_res_eq_Inr_iff not_less split: if_splits)
  have acyc: "acyclic (set (graph_of es))"
    using check_graph_cyclic [of es nodes "env_json E"] load_graph_spec(3) [OF ok(2)] ok(3) by simp
  from plan_nodes_eq [OF acyc, of "env_json E" nodes reg] pn obtain order where
    "insert_for (env_json E) reg nodes es = (None, Some pplan)"
    "kahn (length (pp_nodes pplan)) (graph_of (pp_edges pplan)) = Some order"
    "length order = length (pp_nodes pplan)"
    "planned = map (\<lambda>i. plan_node_instance (pp_nodes pplan ! i)) order"
    by auto
  with that ok acyc rest show ?thesis by blast
qed

lemma load_pipeline_Inr:
  assumes "load_pipeline E path reg (Some pl) = (None, Some pl')"
  obtains contents doc where "env_read E path = Some contents" "js_parse (env_json E) contents = Some doc"
    "load_document E reg doc pl = Inr pl'"
  using assms by (auto simp: load_pipeline_def split: option.splits sum.splits)

section \<open>A concrete document\<close>

text \<open>
  A raw node that sets a metadata step, a node that requires it and reads another precision, and the
  conversion node.
\<close>

definition raw_manifest :: json where
  "raw_manifest = JObj [(''ports'', JArr [JObj [(''kind'', JStr ''out''), (''name'', JStr ''out''),
      (''caps'', JObj [(''channels'', JArr [JStr ''r'']), (''precision'', JArr [JStr ''u16''])]),
      (''metadata'', JObj [(''sets_steps_applied'', JArr [JStr ''decoded''])])]]),
    (''compute'', JObj [(''out_pixel_bytes'', JNum 2)])]"

definition lin_manifest :: json where
  "lin_manifest = JObj [(''ports'', JArr [JObj [(''kind'', JStr ''in''), (''name'', JStr ''in''),
      (''caps'', JObj [(''channels'', JArr [JStr ''r'']), (''precision'', JArr [JStr ''f32''])]),
      (''metadata'', JObj [(''requires_steps_applied'', JArr [JStr ''decoded''])])]]),
    (''compute'', JObj [(''out_pixel_bytes'', JNum 4)])]"

definition conv_manifest :: json where
  "conv_manifest = JObj [(''compute'', JObj [(''out_pixel_bytes'', JNum 4)])]"

definition demo_document :: json where
  "demo_document = JObj [(''version'', JStr ''0.4''),
     (''nodes'', JArr [
        JObj [(''id'', JStr ''b''), (''type'', JStr ''lin''), (''params'', JObj [])],
        JObj [(''id'', JStr ''a''), (''type'', JStr ''raw''), (''params'', JObj [])]]),
     (''edges'', JArr [JObj [(''from'', JStr ''a.out''), (''to'', JStr ''b.in'')]]),
     (''inputs'', JArr [JObj [(''port'', JStr ''src''), (''format'', JStr ''R16_UINT''),
        (''width'', JNum 8), (''height'', JNum 4)]])]"

definition demo_env :: "json load_env" where
  "demo_env = \<lparr>env_json = json_of [(''raw'', raw_manifest), (''lin'', lin_manifest),
       (''conv'', conv_manifest), (''doc'', demo_document)],
     env_read = (\<lambda>p. if p = ''p.json'' then Some ''doc'' else None),
     env_schema = (\<lambda>_. None), env_parse_what = (\<lambda>_. []), env_version_what = (\<lambda>_. [])\<rparr>"

definition demo_entry :: "string \<Rightarrow> string \<Rightarrow> unit plugin_desc" where
  "demo_entry nid manifest = demo_desc\<lparr>node_id := Some nid, manifest_json := Some manifest\<rparr>"

definition demo_registry :: "unit registry" where
  "demo_registry = [demo_entry ''raw'' ''raw'', demo_entry ''lin'' ''lin'',
     demo_entry ''com.cpipe.precision_convert'' ''conv'']"

definition demo_graph_nodes :: "(json, unit) node_instance list" where
  "demo_graph_nodes = [
     \<lparr>ni_id = ''b'', ni_descriptor = Some (demo_entry ''lin'' ''lin''), ni_params = JObj []\<rparr>,
     \<lparr>ni_id = ''a'', ni_descriptor = Some (demo_entry ''raw'' ''raw''), ni_params = JObj []\<rparr>]"

definition demo_graph_edges :: "precision_graph_edge list" where
  "demo_graph_edges = [edge_between 1 0 ''out'' ''in'']"

definition demo_conv_node :: "(json, unit) precision_graph_node" where
  "demo_conv_node = \<lparr>gn_id = ''__precision_convert_1_0_0'',
     gn_descriptor = Some (demo_entry ''com.cpipe.precision_convert'' ''conv''),
     gn_params = JObj [(''target_format'', JStr ''R32_SFLOAT'')], gn_implicit = True\<rparr>"

definition demo_planned :: "(json, unit) precision_plan" where
  "demo_planned = \<lparr>pp_nodes = precision_nodes_of demo_graph_nodes @ [demo_conv_node],
     pp_edges = [edge_between 1 2 ''out'' ''in'', edge_between 2 0 ''out'' ''in''],
     pp_inserted = [2]\<rparr>"

definition demo_input :: input_port where
  "demo_input = \<lparr>ip_name = ''src'', ip_layout = default_layout\<lparr>format := R16_UINT, ndim := 2,
     dims := [8, 4, 0, 0, 0, 0, 0, 0]\<rparr>\<rparr>"

definition demo_loaded :: "(json, unit) pipeline" where
  "demo_loaded = new_pipeline\<lparr>pl_inputs := [demo_input], pl_layout := ip_layout demo_input,
     pl_nodes := map plan_node_instance [precision_nodes_of demo_graph_nodes ! 1, demo_conv_node,
       precision_nodes_of demo_graph_nodes ! 0],
     pl_registry := Some demo_registry, pl_peak_bytes := 192\<rparr>"

lemma demo_load_graph:
  "load_graph (env_json demo_env) demo_registry demo_document = Inr (demo_graph_nodes, demo_graph_edges)"
  by code_simp

lemma demo_check_graph: "check_graph (env_json demo_env) demo_graph_nodes demo_graph_edges = Inr ()"
  by code_simp

lemma demo_plan_nodes:
  "plan_nodes (env_json demo_env) demo_registry demo_graph_nodes demo_graph_edges =
     Inr (demo_planned, pl_nodes demo_loaded)"
  by code_simp

lemma demo_load_inputs: "load_inputs (env_json demo_env) demo_document = Inr [demo_input]"
  by code_simp

definition demo_memory :: memory_plan where
  "demo_memory = \<lparr>peak_bytes = 192, physical_slot_count = 1, assignments =
     map (\<lambda>(v, s). \<lparr>ma_buffer_id = v, ma_node_index = v, ma_physical_slot = 0, ma_size_bytes = s\<rparr>)
       [(1, 64), (2, 128), (0, 128)]\<rparr>"

lemma demo_memory_plan:
  "plan_graph (env_json demo_env) (ip_layout demo_input) (map gn_descriptor (pp_nodes demo_planned))
     (graph_of (pp_edges demo_planned)) = Inr demo_memory"
proof -
  let ?b = "\<lambda>v s e n. \<lparr>lb_node_index = v, lb_start = s, lb_end = e, lb_size_bytes = n, lb_physical_slot = 0\<rparr>"
  let ?bs = "[?b 0 2 3 128, ?b 1 0 1 64, ?b 2 1 2 128]"
  have "plan_graph (env_json demo_env) (ip_layout demo_input) (map gn_descriptor (pp_nodes demo_planned))
     (graph_of (pp_edges demo_planned)) = Inr (make_plan (size_bytes (ip_layout demo_input)) [128]
       [?b 1 0 1 64, ?b 2 1 2 128, ?b 0 2 3 128])"
  proof (rule plan_graph_eqI)
    show "topological_order (length (map gn_descriptor (pp_nodes demo_planned)))
        (graph_of (pp_edges demo_planned)) = Some [1, 2, 0]" by code_simp
    show "make_live_buffers (env_json demo_env) (map gn_descriptor (pp_nodes demo_planned)) [1, 2, 0]
        (pixel_count (ip_layout demo_input)) = Inr ?bs" by code_simp
    show "extend_live_ranges (topological_positions (length (map gn_descriptor (pp_nodes demo_planned)))
        [1, 2, 0]) (graph_of (pp_edges demo_planned)) ?bs = ?bs" by code_simp
    show "color_buffers ?bs [1, 2, 0] (build_interference_graph ?bs) =
        ([?b 1 0 1 64, ?b 2 1 2 128, ?b 0 2 3 128], [128])" by code_simp
  qed (simp add: demo_planned_def)
  also have "make_plan (size_bytes (ip_layout demo_input)) [128]
      [?b 1 0 1 64, ?b 2 1 2 128, ?b 0 2 3 128] = demo_memory" by code_simp
  finally show ?thesis .
qed

lemma demo_schema: "validate_pipeline_schema demo_env demo_document = Inr ()"
  by code_simp

lemma demo_load_document: "load_document demo_env demo_registry demo_document new_pipeline = Inr demo_loaded"
  unfolding load_document_def
  by (simp add: Let_def demo_schema demo_load_graph demo_check_graph demo_plan_nodes demo_load_inputs
      demo_memory_plan)
     (simp add: demo_memory_def demo_loaded_def new_pipeline_def)

lemma demo_load:
  "load_pipeline demo_env ''p.json'' demo_registry (Some new_pipeline) = (None, Some demo_loaded)"
proof -
  have "env_read demo_env ''p.json'' = Some ''doc''" "js_parse (env_json demo_env) ''doc'' = Some demo_document"
    by code_simp+
  then show ?thesis by (simp add: load_pipeline_def demo_load_document)
qed

section \<open>Properties\<close>

text \<open>
  A loaded pipeline executes in dependency order. Its nodes are the nodes of the precision plan of
  the document's graph, each exactly once, in an order where the producer of every planned edge comes
  before its consumer, so running them one after the other never reads an output that has not been
  written.
\<close>

lemma load_pipeline_order:
  assumes "load_pipeline E path reg (Some pl) = (None, Some pl')"
  shows "\<exists>contents doc nodes es pplan order.
    env_read E path = Some contents \<and> js_parse (env_json E) contents = Some doc \<and>
    load_graph (env_json E) reg doc = Inr (nodes, es) \<and>
    auto_insert (env_json E) (precision_nodes_of nodes) es
      (registry_find reg ''com.cpipe.precision_convert'')
      (Some \<lparr>pp_nodes = [], pp_edges = [], pp_inserted = []\<rparr>) = (None, Some pplan) \<and>
    distinct order \<and> set order = {0..<length (pp_nodes pplan)} \<and>
    pl_nodes pl' = map (\<lambda>i. plan_node_instance (pp_nodes pplan ! i)) order \<and>
    (\<forall>e \<in> set (pp_edges pplan). \<exists>i j. i < j \<and> j < length order \<and>
       order ! i = ge_from e \<and> order ! j = ge_to e)"
proof -
  from assms obtain contents doc where read: "env_read E path = Some contents"
    "js_parse (env_json E) contents = Some doc" and doc: "load_document E reg doc pl = Inr pl'"
    by (rule load_pipeline_Inr)
  from doc obtain nodes es pplan order where
    graph: "load_graph (env_json E) reg doc = Inr (nodes, es)"
    and ins: "insert_for (env_json E) reg nodes es = (None, Some pplan)"
    and k: "kahn (length (pp_nodes pplan)) (graph_of (pp_edges pplan)) = Some order"
      "length order = length (pp_nodes pplan)"
    and nodes: "pl_nodes pl' = map (\<lambda>i. plan_node_instance (pp_nodes pplan ! i)) order"
    by (rule load_document_Inr) auto
  note full = kahn_full [OF k]
  have "\<exists>i j. i < j \<and> j < length order \<and> order ! i = ge_from e \<and> order ! j = ge_to e"
    if e: "e \<in> set (pp_edges pplan)" for e
  proof -
    from auto_insert_plan_range [OF ins e] full obtain j where
      j: "j < length order" "order ! j = ge_to e" by (auto simp: in_set_conv_nth)
         (metis atLeastLessThan_iff in_set_conv_nth le0)
    moreover have "(ge_from e, ge_to e) \<in> set (graph_of (pp_edges pplan))"
      using e by (auto simp: graph_of_def)
    ultimately show ?thesis
      using is_topological_before [OF kahn_sound [OF k(1)]] auto_insert_plan_range [OF ins e] by metis
  qed
  with read graph ins full nodes show ?thesis by blast
qed

text \<open>
  C6: metadata and colour checks are sound. On every edge of a loaded pipeline, every step that the
  consumer's port requires is set by some node from which the producer can be reached, on a port
  that one of its edges leaves from, and the colour roles of the two nodes are compatible.
\<close>

theorem load_pipeline_metadata:
  assumes "load_document E reg doc pl = Inr pl'"
    and "load_graph (env_json E) reg doc = Inr (nodes, es)" and "e \<in> set es"
  shows "(\<exists>required. manifest_metadata_steps (env_json E) (ni_descriptor (nodes ! ge_to e)) ''in''
        (ge_to_port e) ''requires_steps_applied'' = Inr required \<and>
      (\<forall>s \<in> set required. \<exists>e' \<in> set es. \<exists>st.
        (ge_from e', ge_from e) \<in> (set (graph_of es))\<^sup>* \<and> s \<in> set st \<and>
        manifest_metadata_steps (env_json E) (ni_descriptor (nodes ! ge_from e')) ''out''
          (ge_from_port e') ''sets_steps_applied'' = Inr st)) \<and>
    (\<exists>produced_role required_role.
      manifest_color_role (env_json E) (ni_descriptor (nodes ! ge_from e)) ''output_role'' = Inr produced_role \<and>
      manifest_color_role (env_json E) (ni_descriptor (nodes ! ge_to e)) ''input_role'' = Inr required_role \<and>
      color_roles_compatible produced_role required_role)"
proof -
  from assms(1) obtain nodes' es' where "load_graph (env_json E) reg doc = Inr (nodes', es')"
    "check_graph (env_json E) nodes' es' = Inr ()" by (rule load_document_Inr)
  with assms(2) have "check_graph (env_json E) nodes es = Inr ()" by simp
  from check_graph_ok [OF load_graph_spec(3) [OF assms(2)] this assms(3)]
  have ok: "edge_ok (env_json E) nodes es e" by simp
  then obtain required where req: "manifest_metadata_steps (env_json E) (ni_descriptor (nodes ! ge_to e))
      ''in'' (ge_to_port e) ''requires_steps_applied'' = Inr required"
    "set required \<subseteq> steps_at (env_json E) nodes es (ge_from e)" by (auto simp: edge_ok_def)
  have "\<exists>e' \<in> set es. \<exists>st. (ge_from e', ge_from e) \<in> (set (graph_of es))\<^sup>* \<and> s \<in> set st \<and>
      manifest_metadata_steps (env_json E) (ni_descriptor (nodes ! ge_from e')) ''out''
        (ge_from_port e') ''sets_steps_applied'' = Inr st"
    if "s \<in> set required" for s
    using req(2) that by (fastforce simp: steps_at_def sets_steps_def)
  with req(1) ok show ?thesis unfolding edge_ok_def by blast
qed

theorem load_pipeline_metadata_witness:
  "\<exists>required. manifest_metadata_steps (env_json demo_env)
     (ni_descriptor (demo_graph_nodes ! ge_to (edge_between 1 0 ''out'' ''in''))) ''in''
     (ge_to_port (edge_between 1 0 ''out'' ''in'')) ''requires_steps_applied'' = Inr required"
proof -
  have "edge_between 1 0 ''out'' ''in'' \<in> set demo_graph_edges" by (simp add: demo_graph_edges_def)
  from load_pipeline_metadata [OF demo_load_document demo_load_graph this] show ?thesis by blast
qed

text \<open>
  A document whose graph has a cycle, and only such a document, is refused for a cycle; the two
  checks after the insertion of conversion nodes, a second cycle check and a range check, never fail.
\<close>

lemma load_document_cycle:
  assumes "validate_pipeline_schema E doc = Inr ()"
    and "load_graph (env_json E) reg doc = Inr (nodes, es)"
  shows "(load_document E reg doc pl = Inl (Returned Failed ''cycle in pipeline graph'') \<longleftrightarrow>
      \<not> acyclic (set (graph_of es))) \<and>
    load_document E reg doc pl \<noteq> Inl (Returned Failed ''cycle in precision-planned pipeline graph'') \<and>
    load_document E reg doc pl \<noteq> Inl (Returned BadIndex ''precision edge index out of range'')"
proof -
  have range: "ge_from e < length nodes \<and> ge_to e < length nodes" if "e \<in> set es" for e
    using load_graph_spec(3) [OF assms(2) that] .
  note cyc = check_graph_cyclic [of es nodes "env_json E", OF range]
  note stops = load_document_Inl [OF assms]
  have "load_document E reg doc pl = Inl (Returned Failed ''cycle in pipeline graph'')"
    if "\<not> acyclic (set (graph_of es))"
    using that cyc assms by (simp add: load_document_def)
  moreover have "acyclic (set (graph_of es)) \<Longrightarrow>
      load_document E reg doc pl \<noteq> Inl (Returned Failed ''cycle in pipeline graph'')"
    using stops [of pl "Returned Failed ''cycle in pipeline graph''"] cyc
    by (auto dest: plan_nodes_Inl [OF _ range])
  moreover have "load_document E reg doc pl \<noteq> Inl (Returned Failed ''cycle in precision-planned pipeline graph'')"
    using stops [of pl "Returned Failed ''cycle in precision-planned pipeline graph''"] cyc
    by (auto dest: check_graph_Inl plan_nodes_Inl [OF _ range])
  moreover have "load_document E reg doc pl \<noteq> Inl (Returned BadIndex ''precision edge index out of range'')"
    using stops [of pl "Returned BadIndex ''precision edge index out of range''"] cyc
    by (auto dest: check_graph_Inl plan_nodes_Inl [OF _ range])
  ultimately show ?thesis by blast
qed

text \<open>
  Loading always ends. It succeeds, or fails with a reason and leaves the pipeline object exactly
  as it was; when it succeeds the planned peak is within the device memory cap, the cap is kept, and
  no source is bound.
\<close>

lemma load_pipeline_outcome:
  "(\<exists>reason. reason \<noteq> Diverges \<and> load_pipeline E path reg (Some pl) = (Some reason, Some pl)) \<or>
   (\<exists>pl'. load_pipeline E path reg (Some pl) = (None, Some pl') \<and>
      pl_peak_bytes pl' \<le> pl_cap_bytes pl \<and> pl_cap_bytes pl' = pl_cap_bytes pl \<and>
      pl_sources pl' = Map.empty \<and> pl_registry pl' = Some reg)"
proof (cases "\<exists>contents doc. env_read E path = Some contents \<and> js_parse (env_json E) contents = Some doc")
  case True
  then obtain contents doc where
    read: "env_read E path = Some contents" "js_parse (env_json E) contents = Some doc" by blast
  show ?thesis
  proof (cases "load_document E reg doc pl")
    case (Inl reason)
    with read load_document_ends [of E reg doc pl] show ?thesis by (auto simp: load_pipeline_def)
  next
    case (Inr pl')
    then have "pl_peak_bytes pl' \<le> pl_cap_bytes pl \<and> pl_cap_bytes pl' = pl_cap_bytes pl \<and>
        pl_sources pl' = Map.empty \<and> pl_registry pl' = Some reg"
      by (rule load_document_Inr) simp
    with Inr read show ?thesis by (simp add: load_pipeline_def)
  qed
next
  case False
  then show ?thesis by (auto simp: load_pipeline_def split: option.splits)
qed

text \<open>
  The graph of a document has no dangling edge: every JSON edge becomes one graph edge, in order,
  whose two ends are the first nodes with the identifiers before the dots; every node comes from the
  registry, is not of the reserved conversion type, and its parameters pass validation.
\<close>

lemma load_graph_resolves:
  assumes "load_graph J reg doc = Inr (nodes, es)"
  shows "(\<exists>ej. js_at J doc ''edges'' = Some ej \<and> list_all2 (\<lambda>j e. \<exists>f t ft tt.
       js_at J j ''from'' = Some f \<and> js_get_string J f = Some ft \<and>
       js_at J j ''to'' = Some t \<and> js_get_string J t = Some tt \<and>
       ge_from e < length nodes \<and> ni_id (nodes ! ge_from e) = ep_node_id (split_endpoint ft) \<and>
       ge_to e < length nodes \<and> ni_id (nodes ! ge_to e) = ep_node_id (split_endpoint tt) \<and>
       ge_from_port e = ep_port (split_endpoint ft) \<and> ge_to_port e = ep_port (split_endpoint tt) \<and>
       (\<forall>i < ge_from e. ni_id (nodes ! i) \<noteq> ni_id (nodes ! ge_from e)) \<and>
       (\<forall>i < ge_to e. ni_id (nodes ! i) \<noteq> ni_id (nodes ! ge_to e))) (js_elements J ej) es) \<and>
    (\<forall>n \<in> set nodes. \<exists>desc \<in> set reg. ni_descriptor n = Some desc \<and>
       node_id desc \<noteq> Some ''com.cpipe.precision_convert'' \<and>
       validate_node_params J (Some desc) (ni_params n) = Inr ())"
proof -
  from load_graph_spec(2) [OF assms] obtain ej where ej: "js_at J doc ''edges'' = Some ej"
    "list_all2 (edge_from J nodes) (js_elements J ej) es" by blast
  note resolved = list_all2_mono [OF ej(2) edge_from_resolved]
  from resolved ej(1) load_graph_spec(1) [OF assms] show ?thesis unfolding nodes_ok_def by auto
qed

text \<open>
  Binding a source succeeds exactly for a declared input port and a plugin of the registry the
  pipeline was loaded with; then that port, and no other, is bound to that plugin, and a failed
  binding changes nothing.
\<close>

lemma set_source_spec:
  "(fst (set_source pl port plugin params) = Ok \<longleftrightarrow>
      (\<exists>i \<in> set (pl_inputs pl). ip_name i = port) \<and>
      (\<exists>r desc. pl_registry pl = Some r \<and> registry_find r plugin = Some desc)) \<and>
   (fst (set_source pl port plugin params) \<noteq> Ok \<longrightarrow>
      set_source pl port plugin params = (BadIndex, pl)) \<and>
   (\<forall>pl'. set_source pl port plugin params = (Ok, pl') \<longrightarrow>
      (\<exists>desc. pl_sources pl' port = Some \<lparr>sb_plugin_id = plugin, sb_descriptor = Some desc, sb_params = params\<rparr> \<and>
         node_id desc = Some plugin) \<and>
      (\<forall>q. q \<noteq> port \<longrightarrow> pl_sources pl' q = pl_sources pl q) \<and>
      pl'\<lparr>pl_sources := pl_sources pl\<rparr> = pl)"
  by (auto simp: set_source_def split: option.splits dest: registry_find_Some)

end
