(* ===== verification/Scheduler.thy ===== *)
theory Scheduler
  imports Prelude Core_Types
begin

text \<open>
  The scheduler (\<open>include/cpipe/runtime/Scheduler.hpp\<close>, \<open>src/cpipe/runtime/Scheduler.cpp\<close>): a list of
  nodes without dependencies runs in order up to the first error; otherwise every node is a task of
  a task graph that an executor runs on several threads, and the first error is kept in an atomic.

  The executor is third-party code. What the scheduler relies on is its contract: it runs every
  task once, a task starts after all tasks that precede it in the task graph have ended, and nothing
  is said about the order beyond that. \<open>task_ready\<close> is that contract; the edges it reads are those the
  scheduler itself adds with \<open>precede\<close> (\<open>wire_tasks\<close>), and the work of a task is the body of the lambda
  the scheduler emplaces. The model makes every interleaving explicit. A task is cut at its accesses to
  the shared atomic: it loads the status and is skipped or entered, it runs the node, and it reports a
  failure; \<open>task_step\<close> performs the next of these for one task.
\<close>

section \<open>Nodes\<close>

text \<open>
  A status is the integer that a plugin returns (\<open>cpipe_status_t\<close>), 0 being \<open>CPIPE_OK\<close>. What a node
  reads and writes is a state of type \<open>'w\<close>.
\<close>

record 'w scheduled_node =
  sn_id :: string
  sn_process :: "'w \<Rightarrow> int \<times> 'w"
  sn_dependencies :: "nat list"

fun run_sequential :: "'w scheduled_node list \<Rightarrow> 'w \<Rightarrow> int \<times> 'w" where
  "run_sequential [] w = (0, w)"
| "run_sequential (node # nodes) w =
     (case sn_process node w of (status, w') \<Rightarrow>
        if status \<noteq> 0 then (status, w') else run_sequential nodes w')"

section \<open>Tasks\<close>

datatype task_phase = Waiting | Entered | Reporting int | Finished

text \<open>
  The state of a run: the state of the nodes, the atomic \<open>first_status\<close>, how far each task is, and, as
  a record of the past, the nodes that have run with the status they returned.
\<close>

record 'w sched_state =
  ss_world :: 'w
  ss_first :: int
  ss_phase :: "task_phase list"
  ss_log :: "(nat \<times> int) list"

definition sched_init :: "'w scheduled_node list \<Rightarrow> 'w \<Rightarrow> 'w sched_state" where
  "sched_init nodes w = \<lparr>ss_world = w, ss_first = 0, ss_phase = replicate (length nodes) Waiting,
     ss_log = []\<rparr>"

text \<open>
  The task graph as a list of edges from a task to a successor. The two loops add an edge per
  dependency and give up at the first index that is not a task.
\<close>

type_synonym task_edges = "(nat \<times> nat) list"

fun precede_all :: "nat \<Rightarrow> nat \<Rightarrow> nat list \<Rightarrow> task_edges \<Rightarrow> bool \<times> task_edges" where
  "precede_all tasks i [] edges = (True, edges)"
| "precede_all tasks i (dependency # dependencies) edges =
     (if tasks \<le> dependency then (False, edges)
      else precede_all tasks i dependencies (edges @ [(dependency, i)]))"

fun wire_tasks :: "nat \<Rightarrow> nat \<Rightarrow> 'w scheduled_node list \<Rightarrow> task_edges \<Rightarrow> bool \<times> task_edges" where
  "wire_tasks tasks i [] edges = (True, edges)"
| "wire_tasks tasks i (node # nodes) edges =
     (case precede_all tasks i (sn_dependencies node) edges of (ok, edges') \<Rightarrow>
        if ok then wire_tasks tasks (Suc i) nodes edges' else (False, edges'))"

definition task_graph :: "'w scheduled_node list \<Rightarrow> bool \<times> task_edges" where
  "task_graph nodes = wire_tasks (length nodes) 0 nodes []"

definition task_ready :: "'w scheduled_node list \<Rightarrow> nat \<Rightarrow> 'w sched_state \<Rightarrow> bool" where
  "task_ready nodes i s \<longleftrightarrow>
     list_all (\<lambda>(before, after). after = i \<longrightarrow> ss_phase s ! before = Finished) (snd (task_graph nodes))"

definition task_step :: "'w scheduled_node list \<Rightarrow> nat \<Rightarrow> 'w sched_state \<Rightarrow> 'w sched_state option" where
  "task_step nodes i s =
     (if length nodes \<le> i then None
      else case ss_phase s ! i of
        Waiting \<Rightarrow>
          if \<not> task_ready nodes i s then None
          else if ss_first s \<noteq> 0 then Some (s\<lparr>ss_phase := (ss_phase s)[i := Finished]\<rparr>)
          else Some (s\<lparr>ss_phase := (ss_phase s)[i := Entered]\<rparr>)
      | Entered \<Rightarrow>
          (case sn_process (nodes ! i) (ss_world s) of (status, w) \<Rightarrow>
             Some (s\<lparr>ss_world := w,
               ss_phase := (ss_phase s)[i := (if status \<noteq> 0 then Reporting status else Finished)],
               ss_log := ss_log s @ [(i, status)]\<rparr>))
      | Reporting status \<Rightarrow>
          Some (s\<lparr>ss_first := (if ss_first s = 0 then status else ss_first s),
            ss_phase := (ss_phase s)[i := Finished]\<rparr>)
      | Finished \<Rightarrow> None)"

inductive sched_step :: "'w scheduled_node list \<Rightarrow> 'w sched_state \<Rightarrow> 'w sched_state \<Rightarrow> bool"
  for nodes where
  task: "task_step nodes i s = Some s' \<Longrightarrow> sched_step nodes s s'"

inductive_cases sched_stepE: "sched_step nodes s s'"

inductive reachable :: "'w scheduled_node list \<Rightarrow> 'w \<Rightarrow> 'w sched_state \<Rightarrow> bool" for nodes w where
  start: "reachable nodes w (sched_init nodes w)"
| step: "reachable nodes w s \<Longrightarrow> sched_step nodes s s' \<Longrightarrow> reachable nodes w s'"

definition all_finished :: "'w sched_state \<Rightarrow> bool" where
  "all_finished s \<longleftrightarrow> list_all (\<lambda>p. p = Finished) (ss_phase s)"

section \<open>Running a list of nodes\<close>

definition has_dependencies :: "'w scheduled_node list \<Rightarrow> bool" where
  "has_dependencies nodes \<longleftrightarrow> list_ex (\<lambda>node. sn_dependencies node \<noteq> []) nodes"

text \<open>\<open>run_nodes nodes w status w'\<close>: a call of \<open>Scheduler::run\<close> may return \<open>status\<close> and leave \<open>w'\<close>.\<close>

inductive run_nodes :: "'w scheduled_node list \<Rightarrow> 'w \<Rightarrow> int \<Rightarrow> 'w \<Rightarrow> bool" for nodes w where
  sequential: "\<not> has_dependencies nodes \<Longrightarrow> run_sequential nodes w = (status, w')
    \<Longrightarrow> run_nodes nodes w status w'"
| bad_index: "has_dependencies nodes \<Longrightarrow> \<not> fst (task_graph nodes)
    \<Longrightarrow> run_nodes nodes w (int (status_value BadIndex)) w"
| taskflow: "has_dependencies nodes \<Longrightarrow> fst (task_graph nodes) \<Longrightarrow> reachable nodes w s
    \<Longrightarrow> all_finished s \<Longrightarrow> run_nodes nodes w (ss_first s) (ss_world s)"

inductive_cases run_nodesE: "run_nodes nodes w status w'"


definition default_worker_count :: "u32 \<Rightarrow> nat" where
  "default_worker_count hardware = max 1 (if hardware > 0 then unat (hardware - 1) else 1)"

section \<open>Parallel loops of the image kernels\<close>

text \<open>
  \<open>cpipe_halide_do_par_for\<close>. Without an executor, or with at most one iteration, the iterations run in
  order up to the first error. Otherwise they are independent tasks; \<open>order\<close> is the order in which the
  executor lets them report, and \<open>task\<close> gives the status of an iteration. \<open>min + size\<close> does not
  overflow an \<open>int\<close> for the loops that Halide generates.
\<close>

fun par_for_sequential :: "(int \<Rightarrow> int) \<Rightarrow> int list \<Rightarrow> int" where
  "par_for_sequential task [] = 0"
| "par_for_sequential task (i # is) =
     (let status = task i in if status \<noteq> 0 then status else par_for_sequential task is)"

definition par_for_report :: "(int \<Rightarrow> int) \<Rightarrow> int \<Rightarrow> int \<Rightarrow> int" where
  "par_for_report task i first_error =
     (let status = task i
      in if status \<noteq> 0 then (if first_error = 0 then status else first_error) else first_error)"

definition halide_do_par_for :: "bool \<Rightarrow> (int \<Rightarrow> int) \<Rightarrow> int \<Rightarrow> int \<Rightarrow> int list \<Rightarrow> int" where
  "halide_do_par_for has_executor task lo extent order =
     (if \<not> has_executor \<or> extent \<le> 1 then par_for_sequential task [lo..lo + extent - 1]
      else fold (par_for_report task) order 0)"

section \<open>The global executor pointer\<close>

text \<open>Schedulers are numbered; the pointer is cleared only by the scheduler that it names.\<close>

definition scheduler_ctor :: "nat \<Rightarrow> nat option \<Rightarrow> nat option" where
  "scheduler_ctor self g_halide_executor = Some self"

definition scheduler_dtor :: "nat \<Rightarrow> nat option \<Rightarrow> nat option" where
  "scheduler_dtor self g_halide_executor =
     (if g_halide_executor = Some self then None else g_halide_executor)"

section \<open>The task graph\<close>

text \<open>The wiring fails exactly when some dependency is no node; otherwise it has an edge per dependency.\<close>

definition bad_dependency :: "'w scheduled_node list \<Rightarrow> bool" where
  "bad_dependency nodes \<longleftrightarrow> (\<exists>node \<in> set nodes. \<exists>d \<in> set (sn_dependencies node). length nodes \<le> d)"

lemma precede_all_eq:
  "fst (precede_all tasks i ds edges) \<longleftrightarrow> (\<forall>d \<in> set ds. d < tasks)"
  "\<forall>d \<in> set ds. d < tasks \<Longrightarrow> snd (precede_all tasks i ds edges) = edges @ map (\<lambda>d. (d, i)) ds"
  by (induction ds arbitrary: edges) auto

lemma wire_tasks_ok:
  "fst (wire_tasks tasks i nodes edges) \<longleftrightarrow> (\<forall>node \<in> set nodes. \<forall>d \<in> set (sn_dependencies node). d < tasks)"
proof (induction nodes arbitrary: i edges)
  case (Cons node nodes)
  obtain ok edges' where p: "precede_all tasks i (sn_dependencies node) edges = (ok, edges')" by fastforce
  with precede_all_eq(1) [of tasks i "sn_dependencies node" edges]
  have "ok \<longleftrightarrow> (\<forall>d \<in> set (sn_dependencies node). d < tasks)" by simp
  with p Cons.IH [of "Suc i" edges'] show ?case by auto
qed simp

lemma wire_tasks_edges:
  "\<forall>node \<in> set nodes. \<forall>d \<in> set (sn_dependencies node). d < tasks \<Longrightarrow>
   set (snd (wire_tasks tasks i nodes edges)) =
     set edges \<union> {(d, i + k) |d k. k < length nodes \<and> d \<in> set (sn_dependencies (nodes ! k))}"
proof (induction nodes arbitrary: i edges)
  case (Cons node nodes)
  have split: "{(d, i + k) |d k. k < length (node # nodes) \<and> d \<in> set (sn_dependencies ((node # nodes) ! k))}
      = (\<lambda>d. (d, i)) ` set (sn_dependencies node) \<union>
        {(d, Suc i + k) |d k. k < length nodes \<and> d \<in> set (sn_dependencies (nodes ! k))}"
    by (force simp: less_Suc_eq_0_disj)
  have "precede_all tasks i (sn_dependencies node) edges =
      (True, edges @ map (\<lambda>d. (d, i)) (sn_dependencies node))"
    using Cons.prems precede_all_eq(1) [of tasks i "sn_dependencies node" edges]
      precede_all_eq(2) [of "sn_dependencies node" tasks i edges] by (simp add: prod_eq_iff)
  with Cons.IH [of "Suc i"] Cons.prems show ?case unfolding split by (simp add: Un_assoc)
qed simp

lemma task_graph_ok: "fst (task_graph nodes) \<longleftrightarrow> \<not> bad_dependency nodes"
  by (auto simp: task_graph_def wire_tasks_ok bad_dependency_def not_le)

lemma task_ready_iff:
  assumes "\<not> bad_dependency nodes" and "i < length nodes"
  shows "task_ready nodes i s \<longleftrightarrow> (\<forall>d \<in> set (sn_dependencies (nodes ! i)). ss_phase s ! d = Finished)"
proof -
  have "\<forall>node \<in> set nodes. \<forall>d \<in> set (sn_dependencies node). d < length nodes"
    using assms(1) by (auto simp: bad_dependency_def not_le)
  from wire_tasks_edges [OF this, of 0 "[]"] assms(2) show ?thesis
    by (auto simp: task_ready_def task_graph_def list_all_iff)
qed

lemma backward_not_bad:
  assumes "\<And>i d. i < length nodes \<Longrightarrow> d \<in> set (sn_dependencies (nodes ! i)) \<Longrightarrow> d < i"
  shows "\<not> bad_dependency nodes"
  unfolding bad_dependency_def using assms by (metis in_set_conv_nth less_trans not_le)

section \<open>Steps\<close>

lemma task_step_cases:
  assumes "task_step nodes i s = Some s'"
  obtains (skip) "i < length nodes" "ss_phase s ! i = Waiting" "task_ready nodes i s" "ss_first s \<noteq> 0"
      "s' = s\<lparr>ss_phase := (ss_phase s)[i := Finished]\<rparr>"
  | (enter) "i < length nodes" "ss_phase s ! i = Waiting" "task_ready nodes i s" "ss_first s = 0"
      "s' = s\<lparr>ss_phase := (ss_phase s)[i := Entered]\<rparr>"
  | (run_ok) w where "i < length nodes" "ss_phase s ! i = Entered"
      "sn_process (nodes ! i) (ss_world s) = (0, w)"
      "s' = s\<lparr>ss_world := w, ss_phase := (ss_phase s)[i := Finished], ss_log := ss_log s @ [(i, 0)]\<rparr>"
  | (run_fail) w status where "i < length nodes" "ss_phase s ! i = Entered" "status \<noteq> 0"
      "sn_process (nodes ! i) (ss_world s) = (status, w)"
      "s' = s\<lparr>ss_world := w, ss_phase := (ss_phase s)[i := Reporting status],
         ss_log := ss_log s @ [(i, status)]\<rparr>"
  | (report) status where "i < length nodes" "ss_phase s ! i = Reporting status"
      "s' = s\<lparr>ss_first := (if ss_first s = 0 then status else ss_first s),
         ss_phase := (ss_phase s)[i := Finished]\<rparr>"
proof (cases "ss_phase s ! i")
  case Waiting
  with assms skip enter show ?thesis by (auto simp: task_step_def split: if_splits)
next
  case Entered
  obtain status w where "sn_process (nodes ! i) (ss_world s) = (status, w)" by fastforce
  with Entered assms run_ok run_fail show ?thesis
    by (cases "status = 0") (auto simp: task_step_def split: if_splits)
next
  case (Reporting status)
  with assms report show ?thesis by (auto simp: task_step_def split: if_splits)
next
  case Finished
  with assms show ?thesis by (auto simp: task_step_def split: if_splits)
qed

lemma reachable_length: "reachable nodes w s \<Longrightarrow> length (ss_phase s) = length nodes"
proof (induction rule: reachable.induct)
  case start
  then show ?case by (simp add: sched_init_def)
next
  case (step s s')
  from step.hyps(2) obtain i where "task_step nodes i s = Some s'" by (rule sched_stepE)
  then show ?case using step.IH by (cases rule: task_step_cases) auto
qed

section \<open>Invariants of every interleaving\<close>

lemma reachable_induct:
  assumes "reachable nodes w s" and "P (sched_init nodes w)"
    and "\<And>s i s'. reachable nodes w s \<Longrightarrow> length (ss_phase s) = length nodes \<Longrightarrow> P s
           \<Longrightarrow> task_step nodes i s = Some s' \<Longrightarrow> P s'"
  shows "P s"
  using assms(1)
proof (induction rule: reachable.induct)
  case start
  show ?case by (rule assms(2))
next
  case (step s s')
  from step.hyps(2) obtain i where "task_step nodes i s = Some s'" by (rule sched_stepE)
  then show ?case
    by (rule assms(3) [OF step.hyps(1) reachable_length [OF step.hyps(1)] step.IH])
qed

















section \<open>Every run ends\<close>

fun phase_weight :: "task_phase \<Rightarrow> nat" where
  "phase_weight Waiting = 3"
| "phase_weight Entered = 2"
| "phase_weight (Reporting st) = 1"
| "phase_weight Finished = 0"

definition remaining :: "'w sched_state \<Rightarrow> nat" where
  "remaining s = sum_list (map phase_weight (ss_phase s))"

lemma sum_list_update_less:
  fixes f :: "'a \<Rightarrow> nat"
  assumes "i < length xs" and "f y < f (xs ! i)"
  shows "sum_list (map f (xs[i := y])) < sum_list (map f xs)"
proof -
  have "sum_list (map f (xs[i := y])) + f (xs ! i) = sum_list (map f xs) + f y"
    using assms(1) by (induction xs arbitrary: i) (auto simp: nth_Cons split: nat.splits)
  with assms(2) show ?thesis by simp
qed

lemma task_step_remaining:
  assumes "task_step nodes i s = Some s'" and "length (ss_phase s) = length nodes"
  shows "remaining s' < remaining s"
  using assms(1)
  by (cases rule: task_step_cases)
     (use assms(2) in \<open>auto simp: remaining_def intro!: sum_list_update_less\<close>)

text \<open>When dependencies point backwards, the first unfinished task can always take a step.\<close>

lemma task_step_progress:
  assumes deps: "\<And>i d. i < length nodes \<Longrightarrow> d \<in> set (sn_dependencies (nodes ! i)) \<Longrightarrow> d < i"
    and len: "length (ss_phase s) = length nodes" and not: "\<not> all_finished s"
  shows "\<exists>i s'. task_step nodes i s = Some s'"
proof -
  from not obtain j where j: "j < length nodes \<and> ss_phase s ! j \<noteq> Finished"
    by (auto simp: all_finished_def list_all_length len)
  define i where "i = (LEAST i. i < length nodes \<and> ss_phase s ! i \<noteq> Finished)"
  have i: "i < length nodes" "ss_phase s ! i \<noteq> Finished"
    using LeastI [of "\<lambda>i. i < length nodes \<and> ss_phase s ! i \<noteq> Finished", OF j] by (simp_all add: i_def)
  have "ss_phase s ! d = Finished" if "d < i" for d
    using not_less_Least [of d "\<lambda>i. i < length nodes \<and> ss_phase s ! i \<noteq> Finished"] that i(1)
    by (auto simp: i_def)
  with deps [OF i(1)] have "task_ready nodes i s"
    by (auto simp: task_ready_iff [OF backward_not_bad [OF deps] i(1)])
  with i show ?thesis
    by (intro exI [of _ i]) (auto simp: task_step_def split: task_phase.splits prod.splits)
qed

lemma reachable_finishes:
  assumes "reachable nodes w s"
    and "\<And>i d. i < length nodes \<Longrightarrow> d \<in> set (sn_dependencies (nodes ! i)) \<Longrightarrow> d < i"
  shows "\<exists>t. reachable nodes w t \<and> all_finished t"
  using assms(1)
proof (induction "remaining s" arbitrary: s rule: less_induct)
  case less
  note len = reachable_length [OF less.prems]
  show ?case
  proof (cases "all_finished s")
    case True
    with less.prems show ?thesis by blast
  next
    case False
    with task_step_progress [OF assms(2) len] obtain i s' where st: "task_step nodes i s = Some s'"
      by blast
    have "reachable nodes w s'" by (rule reachable.step [OF less.prems sched_step.task [OF st]])
    with less.hyps [OF task_step_remaining [OF st len]] show ?thesis by blast
  qed
qed

section \<open>Chains of nodes\<close>

text \<open>
  \<open>Pipeline::run\<close> makes every node depend on the one before it. On such a chain every interleaving is
  the sequential run.
\<close>

definition chain :: "'w scheduled_node list \<Rightarrow> bool" where
  "chain nodes \<longleftrightarrow> (\<forall>i < length nodes.
     sn_dependencies (nodes ! i) = (if i = 0 then [] else [i - 1]))"

lemma chain_not_bad: "chain nodes \<Longrightarrow> \<not> bad_dependency nodes"
  by (rule backward_not_bad) (auto simp: chain_def split: if_splits)

lemma run_sequential_append:
  "run_sequential (xs @ ys) w =
     (case run_sequential xs w of (st, w') \<Rightarrow> if st \<noteq> 0 then (st, w') else run_sequential ys w')"
  by (induction xs arbitrary: w) (auto split: prod.splits)

lemma run_sequential_Suc:
  assumes "k < length nodes"
  shows "run_sequential (take (Suc k) nodes) w =
    (case run_sequential (take k nodes) w of (st, w') \<Rightarrow>
       if st \<noteq> 0 then (st, w') else sn_process (nodes ! k) w')"
  using assms by (simp add: take_Suc_conv_app_nth run_sequential_append split: prod.splits)

text \<open>
  In every state of a chain the first \<open>k\<close> tasks are finished, at most one is active and the rest wait;
  the shared state is that of the sequential run.
\<close>

definition chain_at ::
  "'w scheduled_node list \<Rightarrow> 'w \<Rightarrow> 'w sched_state \<Rightarrow> nat \<Rightarrow> task_phase list \<Rightarrow> bool" where
  "chain_at nodes w s k mid \<longleftrightarrow>
     k + length mid \<le> length nodes \<and>
     ss_phase s = replicate k Finished @ mid @ replicate (length nodes - k - length mid) Waiting \<and>
     (case mid of
        [] \<Rightarrow> run_sequential (take k nodes) w = (ss_first s, ss_world s)
      | [Entered] \<Rightarrow> ss_first s = 0 \<and> run_sequential (take k nodes) w = (0, ss_world s)
      | [Reporting st] \<Rightarrow> st \<noteq> 0 \<and> ss_first s = 0 \<and>
          run_sequential (take (Suc k) nodes) w = (st, ss_world s)
      | _ \<Rightarrow> False)"

lemma chain_at_cases:
  assumes "chain_at nodes w s k mid"
  obtains "mid = []" | "mid = [Entered]" | st where "mid = [Reporting st]"
  using assms by (auto simp: chain_at_def split: list.splits task_phase.splits)

lemma chain_at_active:
  assumes c: "chain_at nodes w s k mid" and ch: "chain nodes"
    and st: "task_step nodes i s = Some s'"
  shows "i = k \<and> k < length nodes \<and> (mid = [] \<longrightarrow> ss_phase s ! k = Waiting) \<and>
    (\<forall>p. mid = [p] \<longrightarrow> ss_phase s ! k = p)"
proof -
  from c have ph: "ss_phase s = replicate k Finished @ mid @ replicate (length nodes - k - length mid) Waiting"
    and kn: "k + length mid \<le> length nodes" by (simp_all add: chain_at_def)
  have mid: "length mid \<le> 1" using c by (cases rule: chain_at_cases) simp_all
  have i: "i < length nodes" "ss_phase s ! i \<noteq> Finished"
    "ss_phase s ! i = Waiting \<Longrightarrow> task_ready nodes i s"
    using st by (auto simp: task_step_def split: if_splits)
  have fin: "ss_phase s ! j = Finished" if "j < k" for j using that by (simp add: ph nth_append)
  have unfin: "ss_phase s ! j \<noteq> Finished" if "k \<le> j" "j < length nodes" for j
    using c that
    by (cases rule: chain_at_cases) (auto simp: ph nth_append nth_Cons split: nat.splits)
  have wait: "ss_phase s ! j = Waiting" if "k + length mid \<le> j" "j < length nodes" for j
    using that by (auto simp: ph nth_append)
  have "k \<le> i" using fin i(2) by (meson not_le)
  moreover have "\<not> k < i"
  proof
    assume ki: "k < i"
    with mid wait [of i] i have "task_ready nodes i s" by simp
    then have "ss_phase s ! (i - 1) = Finished"
      using ch i(1) ki by (auto simp: chain_def task_ready_iff [OF chain_not_bad [OF ch]])
    moreover have "ss_phase s ! (i - 1) \<noteq> Finished" using unfin [of "i - 1"] ki i(1) by simp
    ultimately show False by contradiction
  qed
  ultimately have "i = k" by simp
  with i(1) show ?thesis by (auto simp: ph nth_append)
qed

lemma chain_at_step:
  assumes c: "chain_at nodes w s k mid" and ch: "chain nodes"
    and st: "task_step nodes i s = Some s'"
  shows "\<exists>k mid. chain_at nodes w s' k mid"
proof -
  note act = chain_at_active [OF c ch st]
  have k: "i = k" "k < length nodes" using act by simp_all
  obtain m where m: "length nodes = Suc (k + m)" using k(2) less_imp_Suc_add by blast
  have ph: "ss_phase s = replicate k Finished @ mid @ replicate (Suc m - length mid) Waiting"
    using c by (simp add: chain_at_def m)
  have up: "(ss_phase s)[k := p] = replicate k Finished @ p # replicate (length nodes - k - 1) Waiting" for p
    using c by (cases rule: chain_at_cases) (simp_all add: ph m list_update_append)
  have mid_nil: "mid = []" if "ss_phase s ! k = Waiting"
    using c by (cases rule: chain_at_cases) (use act that in auto)
  have mid_entered: "mid = [Entered]" if "ss_phase s ! k = Entered"
    using c by (cases rule: chain_at_cases) (use act that in auto)
  have mid_reporting: "mid = [Reporting st]" if "ss_phase s ! k = Reporting st" for st
    using c by (cases rule: chain_at_cases) (use act that in auto)
  have next_task: "chain_at nodes w s' (Suc k) []"
    if "ss_phase s' = (ss_phase s)[k := Finished]"
      and "run_sequential (take (Suc k) nodes) w = (ss_first s', ss_world s')"
    using that k(2) by (simp add: chain_at_def up replicate_app_Cons_same)
  have seq: "mid = [] \<Longrightarrow> run_sequential (take k nodes) w = (ss_first s, ss_world s)"
    "mid = [Entered] \<Longrightarrow> ss_first s = 0 \<and> run_sequential (take k nodes) w = (0, ss_world s)"
    "mid = [Reporting st] \<Longrightarrow> st \<noteq> 0 \<and> ss_first s = 0 \<and>
       run_sequential (take (Suc k) nodes) w = (st, ss_world s)" for st
    using c by (simp_all add: chain_at_def)
  note Suc_k = run_sequential_Suc [OF k(2)] k(1)
  from st show ?thesis
  proof (cases rule: task_step_cases)
    case skip
    then have "chain_at nodes w s' (Suc k) []"
      using seq(1) [OF mid_nil] by (intro next_task) (simp_all add: Suc_k)
    then show ?thesis by blast
  next
    case enter
    then have "chain_at nodes w s' k [Entered]"
      using seq(1) [OF mid_nil] k(2) by (simp add: chain_at_def up k(1))
    then show ?thesis by blast
  next
    case (run_ok w')
    then have "chain_at nodes w s' (Suc k) []"
      using seq(2) [OF mid_entered] by (intro next_task) (simp_all add: Suc_k)
    then show ?thesis by blast
  next
    case (run_fail w' status)
    then have "chain_at nodes w s' k [Reporting status]"
      using seq(2) [OF mid_entered] k(2) by (simp add: chain_at_def up Suc_k)
    then show ?thesis by blast
  next
    case (report status)
    then have "chain_at nodes w s' (Suc k) []"
      using seq(3) [OF mid_reporting] by (intro next_task) (simp_all add: k(1))
    then show ?thesis by blast
  qed
qed

lemma reachable_chain:
  assumes "reachable nodes w s" and "chain nodes"
  shows "\<exists>k mid. chain_at nodes w s k mid"
  using assms(1)
proof (rule reachable_induct)
  show "\<exists>k mid. chain_at nodes w (sched_init nodes w) k mid"
    by (rule exI [of _ 0], rule exI [of _ "[]"]) (simp add: chain_at_def sched_init_def)
qed (use chain_at_step [OF _ assms(2)] in blast)

lemma chain_finished:
  assumes "reachable nodes w s" and "chain nodes" and "all_finished s"
  shows "run_sequential nodes w = (ss_first s, ss_world s)"
proof -
  from reachable_chain [OF assms(1,2)] obtain k mid where c: "chain_at nodes w s k mid" by blast
  then have "mid = [] \<and> k = length nodes"
    by (cases rule: chain_at_cases)
       (use c assms(3) in \<open>auto simp: chain_at_def all_finished_def list_all_iff set_replicate_conv_if
          split: if_splits\<close>)
  with c show ?thesis by (simp add: chain_at_def)
qed

lemma chain_run_nodes:
  assumes ch: "chain nodes"
  shows "run_nodes nodes w status w' \<longleftrightarrow> run_sequential nodes w = (status, w')"
proof -
  have deps: "d < i" if "i < length nodes" "d \<in> set (sn_dependencies (nodes ! i))" for i d
    using ch that by (auto simp: chain_def split: if_splits)
  have ok: "fst (task_graph nodes)" by (simp add: task_graph_ok chain_not_bad [OF ch])
  show ?thesis
  proof
    assume "run_nodes nodes w status w'"
    then show "run_sequential nodes w = (status, w')"
    proof (cases rule: run_nodes.cases)
      case (taskflow s)
      with chain_finished [OF _ ch, of w s] show ?thesis by simp
    qed (use ok in simp_all)
  next
    assume seq: "run_sequential nodes w = (status, w')"
    show "run_nodes nodes w status w'"
    proof (cases "has_dependencies nodes")
      case True
      have "\<exists>t. reachable nodes w t \<and> all_finished t"
        by (rule reachable_finishes [OF reachable.start]) (rule deps)
      then obtain t where t: "reachable nodes w t" "all_finished t" by blast
      with run_nodes.taskflow [OF True ok] chain_finished [OF t(1) ch t(2)] seq show ?thesis by simp
    next
      case False
      then show ?thesis using seq by (rule run_nodes.sequential)
    qed
  qed
qed

section \<open>Parallel loops\<close>

lemma par_for_sequential_zero: "par_for_sequential task is = 0 \<longleftrightarrow> (\<forall>i \<in> set is. task i = 0)"
  by (induction "is") (auto simp: Let_def)

lemma par_for_sequential_nonzero:
  "par_for_sequential task is \<noteq> 0 \<Longrightarrow> \<exists>i \<in> set is. task i = par_for_sequential task is"
  by (induction "is") (auto simp: Let_def split: if_splits)

lemma par_for_reports:
  "fold (par_for_report task) is e =
     (if e \<noteq> 0 then e else par_for_sequential task is)"
  by (induction "is" arbitrary: e) (auto simp: par_for_report_def Let_def)

text \<open>There is always at least one worker, and one thread is left to the caller when there are more.\<close>

lemma default_worker_count_bounds:
  "1 \<le> default_worker_count hw \<and>
   default_worker_count hw = (if unat hw \<le> 2 then 1 else unat hw - 1)"
proof -
  have "unat (hw - 1) = unat hw - 1" if "hw > 0"
    using that by (metis unat_minus_one word_gt_0)
  then show ?thesis
    by (auto simp: default_worker_count_def word_gt_0 word_less_nat_alt max_def)
qed

section \<open>Concrete schedules\<close>

text \<open>Three nodes that append to a list; the second fails. Both graphs below are chains or diamonds.\<close>

definition demo_node :: "nat \<Rightarrow> int \<Rightarrow> nat list \<Rightarrow> nat list scheduled_node" where
  "demo_node i status deps = \<lparr>sn_id = ''n'', sn_process = (\<lambda>w. (status, w @ [i])),
     sn_dependencies = deps\<rparr>"

definition demo_chain :: "nat list scheduled_node list" where
  "demo_chain = [demo_node 0 0 [], demo_node 1 7 [0], demo_node 2 0 [1]]"




lemma demo_chain_chain: "chain demo_chain"
  by (auto simp: chain_def demo_chain_def demo_node_def less_Suc_eq nth_Cons split: nat.splits)


section \<open>Properties\<close>

text \<open>
  A chain of nodes, each depending on the one before, gives the same result as running the nodes
  one after the other up to the first error, whatever the interleaving of the executor's threads.
\<close>

lemma run_nodes_chain:
  assumes "chain nodes"
  shows "run_nodes nodes w status w' \<longleftrightarrow> run_sequential nodes w = (status, w')"
  using assms by (rule chain_run_nodes)


text \<open>
  A run on the executor cannot get stuck or go on for ever when dependencies point to earlier nodes:
  every step uses up some of the at most three steps of a task, and while a task is unfinished some
  task can take a step.
\<close>

lemma sched_terminates:
  assumes "reachable nodes w s"
    and "\<forall>i < length nodes. \<forall>d \<in> set (sn_dependencies (nodes ! i)). d < i"
  shows "(\<forall>s'. sched_step nodes s s' \<longrightarrow> remaining s' < remaining s) \<and>
    remaining s \<le> 3 * length nodes \<and>
    (all_finished s \<or> (\<exists>s'. sched_step nodes s s'))"
proof (intro conjI allI impI)
  note len = reachable_length [OF assms(1)]
  show "remaining s' < remaining s" if "sched_step nodes s s'" for s'
    using that by (rule sched_stepE) (rule task_step_remaining [OF _ len])
  have "phase_weight p \<le> 3" for p by (cases p) simp_all
  then have "sum_list (map phase_weight ps) \<le> 3 * length ps" for ps
    by (induction ps) (simp_all add: add_mono)
  then show "remaining s \<le> 3 * length nodes" by (simp add: remaining_def flip: len)
  show "all_finished s \<or> (\<exists>s'. sched_step nodes s s')"
    using task_step_progress [OF _ len] assms(2) by (blast intro: sched_step.task)
qed



text \<open>
  A parallel loop of an image kernel reports success exactly when all of its iterations succeed,
  and otherwise the status of a failed one, with or without an executor and in whatever order the
  iterations report.
\<close>

lemma halide_do_par_for_result:
  assumes "set order = {lo..lo + extent - 1}"
  shows "(halide_do_par_for has_executor task lo extent order = 0 \<longleftrightarrow>
      (\<forall>i \<in> {lo..lo + extent - 1}. task i = 0)) \<and>
    (halide_do_par_for has_executor task lo extent order \<noteq> 0 \<longrightarrow>
      (\<exists>i \<in> {lo..lo + extent - 1}. task i = halide_do_par_for has_executor task lo extent order))"
proof -
  define xs where "xs = (if \<not> has_executor \<or> extent \<le> 1 then [lo..lo + extent - 1] else order)"
  have "set xs = {lo..lo + extent - 1}" using assms by (auto simp: xs_def)
  moreover have "halide_do_par_for has_executor task lo extent order = par_for_sequential task xs"
    by (simp add: halide_do_par_for_def xs_def par_for_reports)
  ultimately show ?thesis
    using par_for_sequential_zero [of task xs] par_for_sequential_nonzero [of task xs] by simp
qed

end
