(* ===== verification/Ordered_Map.thy ===== *)
theory Ordered_Map
  imports Prelude "HOL-Library.List_Lexorder" "HOL-Library.Char_ord"
begin

text \<open>
  \<open>std::map\<close> as the sources use it: an association list kept in strictly increasing key order, so
  that iteration order is the key order. The locale \<open>std_map\<close> is the interface the metadata code
  relies on; \<open>om\<close> is its interpretation on the sorted association lists.
\<close>

section \<open>Operations\<close>

fun om_insert :: "'k::linorder \<Rightarrow> 'v \<Rightarrow> ('k \<times> 'v) list \<Rightarrow> ('k \<times> 'v) list" where
  "om_insert k v [] = [(k, v)]"
| "om_insert k v ((k', v') # m) =
     (if k < k' then (k, v) # (k', v') # m
      else if k = k' then (k, v) # m
      else (k', v') # om_insert k v m)"

fun om_erase :: "'k::linorder \<Rightarrow> ('k \<times> 'v) list \<Rightarrow> ('k \<times> 'v) list" where
  "om_erase k [] = []"
| "om_erase k ((k', v') # m) = (if k = k' then m else (k', v') # om_erase k m)"

definition om_find :: "('k::linorder \<times> 'v) list \<Rightarrow> 'k \<Rightarrow> 'v option" where
  "om_find m k = map_of m k"

definition om_inv :: "('k::linorder \<times> 'v) list \<Rightarrow> bool" where
  "om_inv m \<longleftrightarrow> sorted_wrt (<) (map fst m)"

section \<open>The interface\<close>

locale std_map =
  fixes empty :: "'m"
    and insert :: "'k::linorder \<Rightarrow> 'v \<Rightarrow> 'm \<Rightarrow> 'm"
    and erase :: "'k \<Rightarrow> 'm \<Rightarrow> 'm"
    and find :: "'m \<Rightarrow> 'k \<Rightarrow> 'v option"
    and items :: "'m \<Rightarrow> ('k \<times> 'v) list"
    and invar :: "'m \<Rightarrow> bool"
  assumes find_empty: "find empty k = None"
    and find_insert: "invar m \<Longrightarrow> find (insert k v m) k' = (if k' = k then Some v else find m k')"
    and find_erase: "invar m \<Longrightarrow> find (erase k m) k' = (if k' = k then None else find m k')"
    and items_find: "invar m \<Longrightarrow> find m k = Some v \<longleftrightarrow> (k, v) \<in> set (items m)"
    and items_sorted: "invar m \<Longrightarrow> sorted_wrt (<) (map fst (items m))"
    and invar_empty: "invar empty"
    and invar_insert: "invar m \<Longrightarrow> invar (insert k v m)"
    and invar_erase: "invar m \<Longrightarrow> invar (erase k m)"
begin

lemma find_insert_same: "invar m \<Longrightarrow> find (insert k v m) k = Some v"
  by (simp add: find_insert)

lemma find_erase_same: "invar m \<Longrightarrow> find (erase k m) k = None"
  by (simp add: find_erase)

lemma erase_insert:
  assumes "invar m" and "find m k = None"
  shows "find (erase k (insert k v m)) = find m"
  using assms by (auto simp: find_erase find_insert invar_insert fun_eq_iff)

lemma keys_eq_dom: "invar m \<Longrightarrow> set (map fst (items m)) = {k. find m k \<noteq> None}"
  by (force simp: items_find image_iff)

lemma keys_distinct: "invar m \<Longrightarrow> distinct (map fst (items m))"
  using items_sorted strict_sorted_iff by blast

text \<open>Two maps with the same lookups have the same number of entries.\<close>

lemma length_items:
  assumes "invar m"
  shows "length (items m) = card {k. find m k \<noteq> None}"
  using keys_distinct [OF assms] keys_eq_dom [OF assms]
  by (metis distinct_card length_map)

end

section \<open>The interpretation\<close>

lemma om_find_insert:
  "om_inv m \<Longrightarrow> om_find (om_insert k v m) k' = (if k' = k then Some v else om_find m k')"
  by (induction k v m rule: om_insert.induct) (auto simp: om_find_def om_inv_def)

lemma om_find_erase:
  "om_inv m \<Longrightarrow> om_find (om_erase k m) k' = (if k' = k then None else om_find m k')"
proof (induction k m rule: om_erase.induct)
  case (2 k k' v' m)
  then have n: "map_of m k' = None" and inv: "om_inv m"
    by (auto simp: om_inv_def map_of_eq_None_iff)
  show ?case
    using 2 n inv by (cases "k = k'") (auto simp: om_find_def)
qed (simp add: om_find_def)

lemma om_keys_insert: "set (map fst (om_insert k v m)) = insert k (set (map fst m))"
  by (induction k v m rule: om_insert.induct) auto

lemma om_keys_erase: "set (map fst (om_erase k m)) \<subseteq> set (map fst m)"
  by (induction k m rule: om_erase.induct) auto

lemma om_inv_insert: "om_inv m \<Longrightarrow> om_inv (om_insert k v m)"
proof (induction k v m rule: om_insert.induct)
  case (2 k v k' v' m)
  then show ?case
    using om_keys_insert [of k v m] by (auto simp: om_inv_def)
qed (simp add: om_inv_def)

lemma om_inv_erase: "om_inv m \<Longrightarrow> om_inv (om_erase k m)"
proof (induction k m rule: om_erase.induct)
  case (2 k k' v' m)
  then show ?case
    using om_keys_erase [of k m] by (fastforce simp: om_inv_def)
qed simp

lemma om_find_items:
  "om_inv m \<Longrightarrow> om_find m k = Some v \<longleftrightarrow> (k, v) \<in> set m"
  unfolding om_find_def om_inv_def
  by (simp add: map_of_eq_Some_iff strict_sorted_iff)

interpretation om: std_map "[]" om_insert om_erase om_find "\<lambda>m. m" om_inv
proof unfold_locales
  show "om_find [] k = None" for k :: "'a" by (simp add: om_find_def)
  show "sorted_wrt (<) (map fst m)" if "om_inv m" for m :: "('a \<times> 'b) list"
    using that by (simp add: om_inv_def)
qed (simp_all add: om_find_insert om_find_erase om_find_items om_inv_insert om_inv_erase
  om_inv_def [of "[]"])

end
