(* ===== verification/Buffer_Metadata.thy ===== *)
theory Buffer_Metadata
  imports Core_Types Ordered_Map
begin

text \<open>
  The metadata a buffer carries (\<open>include/cpipe/core\<close>) and \<open>MetadataBuilder\<close>
  (\<open>src/cpipe/core/BufferMetadata.cpp\<close>). A \<open>shared_ptr\<close> to a const object is an optional value. The
  builder is a two-phase object: it accumulates updates until \<open>freeze\<close> takes a snapshot, and every
  later update throws.
\<close>

section \<open>Data\<close>

type_synonym byte_blob = "byte list"

record rect2u =
  rect_x :: u32
  rect_y :: u32
  rect_width :: u32
  rect_height :: u32

record mastering_display =
  red_primary :: "f32 \<times> f32"
  green_primary :: "f32 \<times> f32"
  blue_primary :: "f32 \<times> f32"
  white_point :: "f32 \<times> f32"
  min_luminance :: f32
  max_luminance :: f32

record content_light_level =
  max_cll :: u32
  max_fall :: u32

record ultra_hdr_gain_map_meta =
  min_content_boost :: f32
  max_content_boost :: f32
  uhdr_gamma :: f32
  offset_sdr :: f32
  offset_hdr :: f32

record cfa_descriptor =
  cfa_repeat :: "u8 list"
  cfa_pattern :: "u8 list"

definition default_cfa :: cfa_descriptor where
  "default_cfa = \<lparr>cfa_repeat = [2, 2], cfa_pattern = replicate 16 0\<rparr>"

type_synonym linearization_table = "u16 list"
type_synonym matrix3 = "f32 list"

record calibration_block =
  cfa :: "cfa_descriptor option"
  black_level :: "f32 list"
  white_level :: u32
  linearization_table :: "linearization_table option"
  color_matrix1 :: "matrix3 option"
  color_matrix2 :: "matrix3 option"
  forward_matrix1 :: "matrix3 option"
  forward_matrix2 :: "matrix3 option"
  camera_calibration1 :: "matrix3 option"
  camera_calibration2 :: "matrix3 option"
  calibration_illuminant1 :: u16
  calibration_illuminant2 :: u16
  noise_profile :: "(f32 \<times> f32) list"
  lens_distortion :: "f32 list"
  lens_intrinsic :: "f32 list"

definition default_calibration :: calibration_block where
  "default_calibration = \<lparr>cfa = None, black_level = replicate 4 0, white_level = 0,
     linearization_table = None, color_matrix1 = None, color_matrix2 = None,
     forward_matrix1 = None, forward_matrix2 = None, camera_calibration1 = None,
     camera_calibration2 = None, calibration_illuminant1 = 0, calibration_illuminant2 = 0,
     noise_profile = [], lens_distortion = replicate 5 0, lens_intrinsic = replicate 5 0\<rparr>"

text \<open>The bit pattern of \<open>1.0F\<close>.\<close>

definition f32_one :: f32 where
  "f32_one = 0x3F800000"

record capture_block =
  sensor_timestamp_ns :: int
  exposure_time_ns :: int
  iso :: int
  lens_focal_length_mm :: f32
  lens_aperture :: f32
  lens_focus_distance_d :: f32
  as_shot_neutral :: "f32 list"
  orientation :: u8
  camera_id :: string
  physical_camera_id :: string
  burst_index :: u32
  burst_size :: u32

definition default_capture :: capture_block where
  "default_capture = \<lparr>sensor_timestamp_ns = 0, exposure_time_ns = 0, iso = 0,
     lens_focal_length_mm = 0, lens_aperture = 0, lens_focus_distance_d = 0,
     as_shot_neutral = [f32_one, f32_one, f32_one], orientation = 1, camera_id = [],
     physical_camera_id = [], burst_index = 0, burst_size = 1\<rparr>"

datatype quant_scheme = QNone | QSymmetric | QAsymmetric

record tensor_quant =
  quant_scheme :: quant_scheme
  quant_axis :: "u8 option"
  quant_scales :: "f32 list"
  quant_zero_points :: "u32 list"

definition default_quant :: tensor_quant where
  "default_quant = \<lparr>quant_scheme = QNone, quant_axis = None, quant_scales = [],
     quant_zero_points = []\<rparr>"

record buffer_metadata =
  schema_version :: u64
  calibration :: "calibration_block option"
  capture :: capture_block
  applied_steps :: "string list"
  cs_role :: string
  active_area :: "rect2u option"
  exif_blob :: "byte_blob option"
  xmp_blob :: "byte_blob option"
  icc_blob :: "byte_blob option"
  mdcv :: "mastering_display option"
  clli :: "content_light_level option"
  ultrahdr :: "ultra_hdr_gain_map_meta option"
  tensor_quant :: tensor_quant
  ext_blobs :: "(string \<times> byte_blob) list"

definition default_metadata :: buffer_metadata where
  "default_metadata = \<lparr>schema_version = 1, calibration = None, capture = default_capture,
     applied_steps = [], cs_role = ''undefined'', active_area = None, exif_blob = None,
     xmp_blob = None, icc_blob = None, mdcv = None, clli = None, ultrahdr = None,
     tensor_quant = default_quant, ext_blobs = []\<rparr>"

section \<open>The builder\<close>

record metadata_builder =
  mb_metadata :: buffer_metadata
  mb_frozen :: "buffer_metadata option"

datatype builder_error = BuilderFrozen

definition new_builder :: metadata_builder where
  "new_builder = \<lparr>mb_metadata = default_metadata, mb_frozen = None\<rparr>"

definition builder_from_base :: "buffer_metadata option \<Rightarrow> metadata_builder" where
  "builder_from_base base =
     (case base of None \<Rightarrow> new_builder | Some m \<Rightarrow> new_builder\<lparr>mb_metadata := m\<rparr>)"

definition is_frozen :: "metadata_builder \<Rightarrow> bool" where
  "is_frozen b \<longleftrightarrow> mb_frozen b \<noteq> None"

definition freeze :: "metadata_builder \<Rightarrow> buffer_metadata \<times> metadata_builder" where
  "freeze b =
     (case mb_frozen b of
        None \<Rightarrow> (mb_metadata b, b\<lparr>mb_frozen := Some (mb_metadata b)\<rparr>)
      | Some m \<Rightarrow> (m, b))"

definition ensure_mutable :: "metadata_builder \<Rightarrow> builder_error + unit" where
  "ensure_mutable b = (if mb_frozen b \<noteq> None then Inl BuilderFrozen else Inr ())"

type_synonym builder_result = "builder_error + metadata_builder"

definition set_calibration ::
  "calibration_block option \<Rightarrow> metadata_builder \<Rightarrow> builder_result" where
  "set_calibration c b = bind_res (ensure_mutable b)
     (\<lambda>_. Inr (b\<lparr>mb_metadata := (mb_metadata b)\<lparr>calibration := c\<rparr>\<rparr>))"

definition clear_calibration :: "metadata_builder \<Rightarrow> builder_result" where
  "clear_calibration b = bind_res (ensure_mutable b)
     (\<lambda>_. Inr (b\<lparr>mb_metadata := (mb_metadata b)\<lparr>calibration := None\<rparr>\<rparr>))"

definition set_capture :: "capture_block \<Rightarrow> metadata_builder \<Rightarrow> builder_result" where
  "set_capture c b = bind_res (ensure_mutable b)
     (\<lambda>_. Inr (b\<lparr>mb_metadata := (mb_metadata b)\<lparr>capture := c\<rparr>\<rparr>))"

definition set_as_shot_neutral :: "f32 list \<Rightarrow> metadata_builder \<Rightarrow> builder_result" where
  "set_as_shot_neutral n b = bind_res (ensure_mutable b)
     (\<lambda>_. Inr (b\<lparr>mb_metadata :=
        (mb_metadata b)\<lparr>capture := (capture (mb_metadata b))\<lparr>as_shot_neutral := n\<rparr>\<rparr>\<rparr>))"

definition set_orientation :: "u8 \<Rightarrow> metadata_builder \<Rightarrow> builder_result" where
  "set_orientation v b = bind_res (ensure_mutable b)
     (\<lambda>_. Inr (b\<lparr>mb_metadata :=
        (mb_metadata b)\<lparr>capture := (capture (mb_metadata b))\<lparr>orientation := v\<rparr>\<rparr>\<rparr>))"

definition set_cs_role :: "string \<Rightarrow> metadata_builder \<Rightarrow> builder_result" where
  "set_cs_role role b = bind_res (ensure_mutable b)
     (\<lambda>_. Inr (b\<lparr>mb_metadata := (mb_metadata b)\<lparr>cs_role := role\<rparr>\<rparr>))"

definition set_active_area :: "rect2u option \<Rightarrow> metadata_builder \<Rightarrow> builder_result" where
  "set_active_area area b = bind_res (ensure_mutable b)
     (\<lambda>_. Inr (b\<lparr>mb_metadata := (mb_metadata b)\<lparr>active_area := area\<rparr>\<rparr>))"

definition clear_cfa :: "metadata_builder \<Rightarrow> builder_result" where
  "clear_cfa b = bind_res (ensure_mutable b)
     (\<lambda>_. case calibration (mb_metadata b) of
        None \<Rightarrow> Inr b
      | Some c \<Rightarrow> Inr (b\<lparr>mb_metadata := (mb_metadata b)\<lparr>calibration := Some (c\<lparr>cfa := None\<rparr>)\<rparr>\<rparr>))"

definition set_cfa :: "cfa_descriptor \<Rightarrow> metadata_builder \<Rightarrow> builder_result" where
  "set_cfa d b = bind_res (ensure_mutable b)
     (\<lambda>_. let c = (case calibration (mb_metadata b) of
                      Some c \<Rightarrow> c | None \<Rightarrow> default_calibration)
          in Inr (b\<lparr>mb_metadata := (mb_metadata b)\<lparr>calibration := Some (c\<lparr>cfa := Some d\<rparr>)\<rparr>\<rparr>))"

definition add_applied_step :: "string \<Rightarrow> metadata_builder \<Rightarrow> builder_result" where
  "add_applied_step step b = bind_res (ensure_mutable b)
     (\<lambda>_. Inr (b\<lparr>mb_metadata :=
        (mb_metadata b)\<lparr>applied_steps := applied_steps (mb_metadata b) @ [step]\<rparr>\<rparr>))"

definition remove_applied_step :: "string \<Rightarrow> metadata_builder \<Rightarrow> builder_result" where
  "remove_applied_step step b = bind_res (ensure_mutable b)
     (\<lambda>_. Inr (b\<lparr>mb_metadata :=
        (mb_metadata b)\<lparr>applied_steps := removeAll step (applied_steps (mb_metadata b))\<rparr>\<rparr>))"

definition set_exif_blob :: "byte_blob option \<Rightarrow> metadata_builder \<Rightarrow> builder_result" where
  "set_exif_blob blob b = bind_res (ensure_mutable b)
     (\<lambda>_. Inr (b\<lparr>mb_metadata := (mb_metadata b)\<lparr>exif_blob := blob\<rparr>\<rparr>))"

definition set_xmp_blob :: "byte_blob option \<Rightarrow> metadata_builder \<Rightarrow> builder_result" where
  "set_xmp_blob blob b = bind_res (ensure_mutable b)
     (\<lambda>_. Inr (b\<lparr>mb_metadata := (mb_metadata b)\<lparr>xmp_blob := blob\<rparr>\<rparr>))"

definition set_icc_blob :: "byte_blob option \<Rightarrow> metadata_builder \<Rightarrow> builder_result" where
  "set_icc_blob blob b = bind_res (ensure_mutable b)
     (\<lambda>_. Inr (b\<lparr>mb_metadata := (mb_metadata b)\<lparr>icc_blob := blob\<rparr>\<rparr>))"

definition set_blob :: "string \<Rightarrow> byte_blob option \<Rightarrow> metadata_builder \<Rightarrow> builder_result" where
  "set_blob key blob b = bind_res (ensure_mutable b)
     (\<lambda>_. case blob of
        None \<Rightarrow> Inr (b\<lparr>mb_metadata :=
          (mb_metadata b)\<lparr>ext_blobs := om_erase key (ext_blobs (mb_metadata b))\<rparr>\<rparr>)
      | Some bytes \<Rightarrow> Inr (b\<lparr>mb_metadata :=
          (mb_metadata b)\<lparr>ext_blobs := om_insert key bytes (ext_blobs (mb_metadata b))\<rparr>\<rparr>))"

definition set_tensor_quant :: "tensor_quant \<Rightarrow> metadata_builder \<Rightarrow> builder_result" where
  "set_tensor_quant q b = bind_res (ensure_mutable b)
     (\<lambda>_. Inr (b\<lparr>mb_metadata := (mb_metadata b)\<lparr>tensor_quant := q\<rparr>\<rparr>))"

section \<open>Calls on a builder\<close>

text \<open>
  A client of the builder is a sequence of calls. \<open>apply_call\<close> is the abstract effect of a call on
  the metadata under construction; \<open>exec_call\<close> runs the operation itself.
\<close>

datatype builder_call =
    SetCalibration "calibration_block option" | ClearCalibration | SetCapture capture_block
  | SetAsShotNeutral "f32 list" | SetOrientation u8 | SetCsRole string
  | SetActiveArea "rect2u option" | ClearCfa | SetCfa cfa_descriptor | AddAppliedStep string
  | RemoveAppliedStep string | SetExifBlob "byte_blob option" | SetXmpBlob "byte_blob option"
  | SetIccBlob "byte_blob option" | SetBlob string "byte_blob option"
  | SetTensorQuant tensor_quant

fun exec_call :: "builder_call \<Rightarrow> metadata_builder \<Rightarrow> builder_result" where
  "exec_call (SetCalibration c) = set_calibration c"
| "exec_call ClearCalibration = clear_calibration"
| "exec_call (SetCapture c) = set_capture c"
| "exec_call (SetAsShotNeutral n) = set_as_shot_neutral n"
| "exec_call (SetOrientation v) = set_orientation v"
| "exec_call (SetCsRole r) = set_cs_role r"
| "exec_call (SetActiveArea a) = set_active_area a"
| "exec_call ClearCfa = clear_cfa"
| "exec_call (SetCfa d) = set_cfa d"
| "exec_call (AddAppliedStep t) = add_applied_step t"
| "exec_call (RemoveAppliedStep t) = remove_applied_step t"
| "exec_call (SetExifBlob v) = set_exif_blob v"
| "exec_call (SetXmpBlob v) = set_xmp_blob v"
| "exec_call (SetIccBlob v) = set_icc_blob v"
| "exec_call (SetBlob k v) = set_blob k v"
| "exec_call (SetTensorQuant q) = set_tensor_quant q"

fun apply_call :: "builder_call \<Rightarrow> buffer_metadata \<Rightarrow> buffer_metadata" where
  "apply_call (SetCalibration c) m = m\<lparr>calibration := c\<rparr>"
| "apply_call ClearCalibration m = m\<lparr>calibration := None\<rparr>"
| "apply_call (SetCapture c) m = m\<lparr>capture := c\<rparr>"
| "apply_call (SetAsShotNeutral n) m = m\<lparr>capture := (capture m)\<lparr>as_shot_neutral := n\<rparr>\<rparr>"
| "apply_call (SetOrientation v) m = m\<lparr>capture := (capture m)\<lparr>orientation := v\<rparr>\<rparr>"
| "apply_call (SetCsRole r) m = m\<lparr>cs_role := r\<rparr>"
| "apply_call (SetActiveArea a) m = m\<lparr>active_area := a\<rparr>"
| "apply_call ClearCfa m = m\<lparr>calibration := map_option (cfa_update (\<lambda>_. None)) (calibration m)\<rparr>"
| "apply_call (SetCfa d) m = m\<lparr>calibration :=
     Some ((case calibration m of Some c \<Rightarrow> c | None \<Rightarrow> default_calibration)\<lparr>cfa := Some d\<rparr>)\<rparr>"
| "apply_call (AddAppliedStep t) m = m\<lparr>applied_steps := applied_steps m @ [t]\<rparr>"
| "apply_call (RemoveAppliedStep t) m = m\<lparr>applied_steps := [u \<leftarrow> applied_steps m. u \<noteq> t]\<rparr>"
| "apply_call (SetExifBlob v) m = m\<lparr>exif_blob := v\<rparr>"
| "apply_call (SetXmpBlob v) m = m\<lparr>xmp_blob := v\<rparr>"
| "apply_call (SetIccBlob v) m = m\<lparr>icc_blob := v\<rparr>"
| "apply_call (SetBlob k None) m = m\<lparr>ext_blobs := om_erase k (ext_blobs m)\<rparr>"
| "apply_call (SetBlob k (Some v)) m = m\<lparr>ext_blobs := om_insert k v (ext_blobs m)\<rparr>"
| "apply_call (SetTensorQuant q) m = m\<lparr>tensor_quant := q\<rparr>"

definition run_calls :: "builder_call list \<Rightarrow> metadata_builder \<Rightarrow> builder_result" where
  "run_calls = fold_res exec_call"

text \<open>The array lengths and the key order that the C++ types guarantee.\<close>

definition cfa_wf :: "cfa_descriptor \<Rightarrow> bool" where
  "cfa_wf d \<longleftrightarrow> length (cfa_repeat d) = 2 \<and> length (cfa_pattern d) = 16"

definition calibration_wf :: "calibration_block \<Rightarrow> bool" where
  "calibration_wf c \<longleftrightarrow> length (black_level c) = 4 \<and> (\<forall>d. cfa c = Some d \<longrightarrow> cfa_wf d) \<and>
     (\<forall>m \<in> {color_matrix1 c, color_matrix2 c, forward_matrix1 c, forward_matrix2 c}.
        \<forall>v. m = Some v \<longrightarrow> length v = 9)"

definition metadata_wf :: "buffer_metadata \<Rightarrow> bool" where
  "metadata_wf m \<longleftrightarrow> om_inv (ext_blobs m) \<and> length (as_shot_neutral (capture m)) = 3 \<and>
     (\<forall>c. calibration m = Some c \<longrightarrow> calibration_wf c)"

fun call_wf :: "builder_call \<Rightarrow> bool" where
  "call_wf (SetCalibration (Some c)) = calibration_wf c"
| "call_wf (SetCapture c) = (length (as_shot_neutral c) = 3)"
| "call_wf (SetAsShotNeutral n) = (length n = 3)"
| "call_wf (SetCfa d) = cfa_wf d"
| "call_wf _ = True"

section \<open>The contract of an update\<close>

locale builder_update =
  fixes exec :: "metadata_builder \<Rightarrow> builder_result"
    and upd :: "buffer_metadata \<Rightarrow> buffer_metadata"
  assumes exec_eq: "exec b = (if is_frozen b then Inl BuilderFrozen
      else Inr (b\<lparr>mb_metadata := upd (mb_metadata b)\<rparr>))"
begin

lemma frozen_throws: "is_frozen b \<Longrightarrow> exec b = Inl BuilderFrozen"
  by (simp add: exec_eq)

lemma throws_only_frozen: "exec b = Inl e \<Longrightarrow> is_frozen b"
  by (simp add: exec_eq split: if_splits)

lemma keeps_frozen: "exec b = Inr b' \<Longrightarrow> mb_frozen b' = mb_frozen b"
  by (auto simp: exec_eq split: if_splits)

lemma snapshot_after: "\<not> is_frozen b \<Longrightarrow> \<exists>b'. exec b = Inr b' \<and> fst (freeze b') = upd (mb_metadata b)"
  by (simp add: exec_eq freeze_def is_frozen_def)

lemma throws_after_freeze: "exec (snd (freeze b)) = Inl BuilderFrozen"
  by (rule frozen_throws) (auto simp: freeze_def is_frozen_def split: option.splits)

end

lemmas builder_op_defs = set_calibration_def clear_calibration_def set_capture_def
  set_as_shot_neutral_def set_orientation_def set_cs_role_def set_active_area_def clear_cfa_def
  set_cfa_def add_applied_step_def remove_applied_step_def set_exif_blob_def set_xmp_blob_def
  set_icc_blob_def set_blob_def set_tensor_quant_def

lemma removeAll_filter: "removeAll x xs = [y \<leftarrow> xs. y \<noteq> x]"
  by (induction xs) auto

lemma exec_call_eq:
  "exec_call c b = (if is_frozen b then Inl BuilderFrozen
     else Inr (b\<lparr>mb_metadata := apply_call c (mb_metadata b)\<rparr>))"
proof (cases "is_frozen b")
  case True
  then have "ensure_mutable b = Inl BuilderFrozen"
    by (simp add: ensure_mutable_def is_frozen_def)
  with True show ?thesis by (cases c) (simp_all add: builder_op_defs)
next
  case False
  then have m: "ensure_mutable b = Inr ()"
    by (simp add: ensure_mutable_def is_frozen_def)
  show ?thesis
  proof (cases c)
    case ClearCfa
    with m False show ?thesis
      by (cases "calibration (mb_metadata b)") (simp_all add: builder_op_defs)
  next
    case (SetBlob k v)
    with m False show ?thesis by (cases v) (simp_all add: builder_op_defs)
  qed (use m False in \<open>simp_all add: builder_op_defs removeAll_filter Let_def\<close>)
qed

interpretation bc: builder_update "exec_call c" "apply_call c" for c
  by unfold_locales (rule exec_call_eq)

lemma run_calls_frozen: "is_frozen b \<Longrightarrow> cs \<noteq> [] \<Longrightarrow> run_calls cs b = Inl BuilderFrozen"
  by (cases cs) (simp_all add: run_calls_def bc.frozen_throws)

lemma run_calls_eq:
  "\<not> is_frozen b \<Longrightarrow>
   run_calls cs b = Inr (b\<lparr>mb_metadata := fold apply_call cs (mb_metadata b)\<rparr>)"
proof (induction cs arbitrary: b)
  case (Cons c cs)
  let ?b = "b\<lparr>mb_metadata := apply_call c (mb_metadata b)\<rparr>"
  have "\<not> is_frozen ?b" using Cons.prems by (simp add: is_frozen_def)
  from Cons.IH [OF this] Cons.prems show ?case
    by (simp add: run_calls_def exec_call_eq)
qed (simp add: run_calls_def)

lemma calibration_wf_default: "calibration_wf default_calibration"
  by (simp add: calibration_wf_def default_calibration_def)

lemma calibration_wf_cfa:
  "calibration_wf c \<Longrightarrow> (\<And>d. v = Some d \<Longrightarrow> cfa_wf d) \<Longrightarrow> calibration_wf (c\<lparr>cfa := v\<rparr>)"
  by (auto simp: calibration_wf_def)

lemma metadata_wf_default: "metadata_wf default_metadata"
  by (simp add: metadata_wf_def default_metadata_def default_capture_def om_inv_def)

lemma apply_call_wf: "metadata_wf m \<Longrightarrow> call_wf c \<Longrightarrow> metadata_wf (apply_call c m)"
proof (cases c)
  case (SetBlob k v)
  assume "metadata_wf m"
  with SetBlob show ?thesis
    by (cases v) (simp_all add: metadata_wf_def om.invar_insert om.invar_erase)
next
  case (SetCfa d)
  assume "metadata_wf m" "call_wf c"
  with SetCfa show ?thesis
    by (auto simp: metadata_wf_def intro!: calibration_wf_cfa calibration_wf_default
        split: option.splits)
next
  case (SetCalibration v)
  assume "metadata_wf m" "call_wf c"
  with SetCalibration show ?thesis by (cases v) (simp_all add: metadata_wf_def)
next
  case ClearCfa
  assume "metadata_wf m"
  with ClearCfa show ?thesis
    by (auto simp: metadata_wf_def intro!: calibration_wf_cfa)
qed (auto simp: metadata_wf_def)

lemma fold_apply_call_wf:
  "metadata_wf m \<Longrightarrow> \<forall>c \<in> set cs. call_wf c \<Longrightarrow> metadata_wf (fold apply_call cs m)"
  by (induction cs arbitrary: m) (simp_all add: apply_call_wf)

section \<open>Properties\<close>

end
