(* ===== verification/Cpu_Buffer.thy ===== *)
theory Cpu_Buffer
  imports Buffer_Metadata
begin

text \<open>
  The buffer interface \<open>IBuffer\<close> and its host-memory implementation \<open>CpuBuffer\<close>
  (\<open>include/cpipe/core/IBuffer.hpp\<close>, \<open>CpuBuffer.hpp\<close>, \<open>src/cpipe/core/CpuBuffer.cpp\<close>). A failed
  \<open>assert\<close> and the \<open>abort\<close> of a failed allocation are error values. The memory that
  \<open>posix_memalign\<close> returns is an argument of the constructor: its contents are whatever the
  allocator left there.
\<close>

section \<open>Operations\<close>

datatype cpu_access = AccessRead | AccessWrite | AccessReadWrite

datatype buffer_error = AssertFailed | Aborted

record cpu_buffer =
  cb_layout :: buffer_layout
  cb_usage :: buffer_usage
  cb_color_role :: string
  cb_metadata :: "buffer_metadata option"
  cb_data :: "byte list"
  cb_size_bytes :: u64
  cb_locked :: bool

definition new_cpu_buffer ::
  "(nat \<Rightarrow> byte list option) \<Rightarrow> buffer_layout \<Rightarrow> buffer_usage \<Rightarrow> string \<Rightarrow> buffer_error + cpu_buffer"
where
  "new_cpu_buffer posix_memalign layout usage color_role =
     (let meta = (if color_role \<noteq> [] then default_metadata\<lparr>cs_role := color_role\<rparr>
                  else default_metadata);
          b = \<lparr>cb_layout = layout, cb_usage = usage, cb_color_role = color_role,
               cb_metadata = Some meta, cb_data = [], cb_size_bytes = size_bytes layout,
               cb_locked = False\<rparr>
      in if cb_size_bytes b = 0 then Inr b
         else (case posix_memalign (unat (cb_size_bytes b)) of
                 None \<Rightarrow> Inl Aborted
               | Some allocated \<Rightarrow> Inr (b\<lparr>cb_data := allocated\<rparr>)))"

definition cb_set_metadata :: "buffer_metadata option \<Rightarrow> cpu_buffer \<Rightarrow> cpu_buffer" where
  "cb_set_metadata m b = b\<lparr>cb_metadata := m\<rparr>"

definition lock_cpu :: "cpu_access \<Rightarrow> cpu_buffer \<Rightarrow> buffer_error + cpu_buffer" where
  "lock_cpu access b =
     (if cb_locked b then Inl AssertFailed
      else if (case access of
            AccessRead \<Rightarrow> has_usage (cb_usage b) usage_CpuRead
          | AccessWrite \<Rightarrow> has_usage (cb_usage b) usage_CpuWrite
          | AccessReadWrite \<Rightarrow> has_usage (cb_usage b) usage_CpuRead \<and>
                               has_usage (cb_usage b) usage_CpuWrite)
        then Inr (b\<lparr>cb_locked := True\<rparr>)
      else Inl AssertFailed)"

definition unlock_cpu :: "cpu_buffer \<Rightarrow> buffer_error + cpu_buffer" where
  "unlock_cpu b = (if \<not> cb_locked b then Inl AssertFailed else Inr (b\<lparr>cb_locked := False\<rparr>))"

definition flush_cpu_writes :: "cpu_buffer \<Rightarrow> cpu_buffer" where
  "flush_cpu_writes b = b"

definition sub_view :: "u32 \<Rightarrow> u32 \<Rightarrow> u32 \<Rightarrow> u32 \<Rightarrow> cpu_buffer \<Rightarrow> cpu_buffer option" where
  "sub_view x0 y0 w h b = None"

text \<open>
  \<open>std::memcpy\<close> into the start of a locked buffer: \<open>None\<close> when the bytes do not fit, which is
  undefined behaviour in C++.
\<close>

definition memcpy_in :: "byte list \<Rightarrow> cpu_buffer \<Rightarrow> cpu_buffer option" where
  "memcpy_in src b =
     (if length src \<le> length (cb_data b)
      then Some (b\<lparr>cb_data := src @ drop (length src) (cb_data b)\<rparr>) else None)"

definition cpu_buffer_wf :: "cpu_buffer \<Rightarrow> bool" where
  "cpu_buffer_wf b \<longleftrightarrow> cb_size_bytes b = size_bytes (cb_layout b) \<and>
     length (cb_data b) = unat (cb_size_bytes b)"

section \<open>The buffer interface\<close>

text \<open>
  What the runtime relies on when it moves data through a buffer: a lock is exclusive and is undone
  by one unlock, neither touches the data, and metadata is what was last set.
\<close>

locale ibuffer =
  fixes lock :: "cpu_access \<Rightarrow> 'b \<Rightarrow> 'e + 'b"
    and unlock :: "'b \<Rightarrow> 'e + 'b"
    and locked :: "'b \<Rightarrow> bool"
    and allows :: "cpu_access \<Rightarrow> 'b \<Rightarrow> bool"
    and data :: "'b \<Rightarrow> byte list"
    and copy_in :: "byte list \<Rightarrow> 'b \<Rightarrow> 'b option"
    and set_meta :: "buffer_metadata option \<Rightarrow> 'b \<Rightarrow> 'b"
    and meta :: "'b \<Rightarrow> buffer_metadata option"
  assumes lock_iff: "(\<exists>b'. lock a b = Inr b') \<longleftrightarrow> \<not> locked b \<and> allows a b"
    and lock_locked: "lock a b = Inr b' \<Longrightarrow> locked b' \<and> data b' = data b"
    and unlock_iff: "(\<exists>b'. unlock b = Inr b') \<longleftrightarrow> locked b"
    and unlock_unlocked: "unlock b = Inr b' \<Longrightarrow> \<not> locked b' \<and> data b' = data b"
    and lock_unlock: "lock a b = Inr b' \<Longrightarrow> unlock b' = Inr b"
    and copy_in_data: "copy_in src b = Some b' \<Longrightarrow>
          data b' = src @ drop (length src) (data b) \<and> locked b' = locked b"
    and copy_in_iff: "(\<exists>b'. copy_in src b = Some b') \<longleftrightarrow> length src \<le> length (data b)"
    and meta_set: "meta (set_meta m b) = m"
    and set_meta_data: "data (set_meta m b) = data b"
begin

lemma lock_exclusive: "lock a b = Inr b' \<Longrightarrow> \<not> (\<exists>b''. lock a' b' = Inr b'')"
  using lock_iff lock_locked by metis

text \<open>The write sequence of \<open>Pipeline::run_file\<close> and \<open>DngReader::read\<close>: lock, copy, unlock.\<close>

lemma write_sequence:
  assumes "\<not> locked b" and "allows AccessWrite b" and "length src \<le> length (data b)"
  shows "\<exists>b1 b2 b3. lock AccessWrite b = Inr b1 \<and> copy_in src b1 = Some b2 \<and> unlock b2 = Inr b3 \<and>
           \<not> locked b3 \<and> data b3 = src @ drop (length src) (data b)"
proof -
  from assms lock_iff obtain b1 where b1: "lock AccessWrite b = Inr b1" by blast
  then have l: "locked b1" and d: "data b1 = data b" using lock_locked by blast+
  with assms(3) copy_in_iff obtain b2 where b2: "copy_in src b1 = Some b2" by metis
  with l d copy_in_data have "locked b2" and d2: "data b2 = src @ drop (length src) (data b)"
    by metis+
  with unlock_iff obtain b3 where b3: "unlock b2 = Inr b3" by blast
  with d2 unlock_unlocked have "\<not> locked b3" "data b3 = src @ drop (length src) (data b)"
    by metis+
  with b1 b2 b3 show ?thesis by blast
qed

end

definition cb_allows :: "cpu_access \<Rightarrow> cpu_buffer \<Rightarrow> bool" where
  "cb_allows a b \<longleftrightarrow>
     (a \<noteq> AccessWrite \<longrightarrow> has_usage (cb_usage b) usage_CpuRead) \<and>
     (a \<noteq> AccessRead \<longrightarrow> has_usage (cb_usage b) usage_CpuWrite)"

lemma lock_cpu_eq:
  "lock_cpu a b = (if \<not> cb_locked b \<and> cb_allows a b then Inr (b\<lparr>cb_locked := True\<rparr>)
     else Inl AssertFailed)"
  by (cases a) (simp_all add: lock_cpu_def cb_allows_def)

interpretation cb: ibuffer lock_cpu unlock_cpu cb_locked cb_allows cb_data memcpy_in
  cb_set_metadata cb_metadata
  by unfold_locales
    (auto simp: lock_cpu_eq unlock_cpu_def memcpy_in_def cb_set_metadata_def split: if_splits)

lemma new_cpu_buffer_wf:
  assumes "\<forall>n m. memalign n = Some m \<longrightarrow> length m = n"
    and "new_cpu_buffer memalign l u r = Inr b"
  shows "cpu_buffer_wf b" and "\<not> cb_locked b" and "cb_layout b = l" and "cb_usage b = u"
    and "cb_color_role b = r"
  using assms
  by (auto simp: new_cpu_buffer_def cpu_buffer_wf_def Let_def split: if_splits option.splits)

end
