(* ===== verification/Handles.thy ===== *)
theory Handles
  imports Cpu_Buffer
begin

text \<open>
  The handles behind the C interface of the runtime (\<open>BufferHandle.cpp\<close>, \<open>MetadataHandle.cpp\<close>). A handle
  is a pointer, so a function that takes one takes an option; \<open>None\<close> is the null pointer.
\<close>

record metadata_handle =
  mh_metadata :: "buffer_metadata option"

record metadata_builder_handle =
  bh_builder :: metadata_builder
  bh_input_metadata :: "buffer_metadata option list"

record buffer_handle =
  hd_buffer :: "cpu_buffer option"
  hd_metadata_view :: metadata_handle

definition make_metadata_handle :: "buffer_metadata option \<Rightarrow> metadata_handle" where
  "make_metadata_handle m = \<lparr>mh_metadata = m\<rparr>"

definition metadata_from_handle :: "metadata_handle option \<Rightarrow> buffer_metadata option" where
  "metadata_from_handle handle = (case handle of None \<Rightarrow> None | Some h \<Rightarrow> mh_metadata h)"

definition make_metadata_builder_handle ::
  "buffer_metadata option \<Rightarrow> buffer_metadata option list \<Rightarrow> metadata_builder_handle" where
  "make_metadata_builder_handle base input_metadata =
     \<lparr>bh_builder = builder_from_base base, bh_input_metadata = input_metadata\<rparr>"

definition builder_from_handle :: "metadata_builder_handle option \<Rightarrow> metadata_builder option" where
  "builder_from_handle handle = map_option bh_builder handle"

definition freeze_metadata_builder ::
  "metadata_builder_handle option \<Rightarrow> buffer_metadata option" where
  "freeze_metadata_builder handle = map_option (\<lambda>h. fst (freeze (bh_builder h))) handle"

definition make_buffer_handle :: "cpu_buffer option \<Rightarrow> buffer_handle" where
  "make_buffer_handle b =
     \<lparr>hd_buffer = b, hd_metadata_view = \<lparr>mh_metadata = (case b of None \<Rightarrow> None | Some c \<Rightarrow> cb_metadata c)\<rparr>\<rparr>"

definition buffer_from_handle :: "buffer_handle option \<Rightarrow> cpu_buffer option" where
  "buffer_from_handle handle = (case handle of None \<Rightarrow> None | Some h \<Rightarrow> hd_buffer h)"

end
