(* ===== verification/Pipeline_Run.thy ===== *)
theory Pipeline_Run
  imports Pipeline_Load Scheduler Handles
begin

text \<open>
  Running a pipeline (the second half of \<open>src/cpipe/runtime/Pipeline.cpp\<close>, with the handles of
  \<open>BufferHandle.cpp\<close>, \<open>MetadataHandle.cpp\<close> and \<open>ParamHandle.cpp\<close>): the source plugin fills the first
  buffer, then every node is created, processes the current buffer into a new one, and is destroyed.

  A plugin is third-party code behind \<open>main_entry\<close>; its three actions are functions over a state \<open>'w\<close>
  that stands for everything a plugin can reach (files, devices, its own memory). Inputs are const in
  the interface, so an action returns the output buffer and the metadata builder it was given. A
  null dereference, a failed assertion and an abort do not return (\<open>Diverges\<close>).
\<close>

section \<open>The process context\<close>

record process_ctx =
  px_inputs :: "cpu_buffer list"
  px_output :: "cpu_buffer option"
  px_out_metadata :: "metadata_builder_handle option"

section \<open>Plugins\<close>

text \<open>\<open>'i\<close> is the type of instance pointers. A null parameter handle is \<open>None\<close>.\<close>

record ('j, 'i, 'w) plugin_entry =
  en_create :: "'j option \<Rightarrow> 'w \<Rightarrow> int \<times> 'i \<times> 'w"
  en_process :: "'i \<Rightarrow> 'j option \<Rightarrow> process_ctx \<Rightarrow> 'w \<Rightarrow> int \<times> process_ctx \<times> 'w"
  en_destroy :: "'i \<Rightarrow> 'w \<Rightarrow> int \<times> 'w"

datatype action = Create | Process | Destroy

text \<open>
  The state of a run: the current buffer, the text of \<open>*error\<close>, and the calls made so far.
\<close>

record 'w run_state =
  rs_world :: 'w
  rs_current :: "cpu_buffer option"
  rs_error :: "string option"
  rs_calls :: "(action \<times> string) list"

definition called :: "action \<Rightarrow> string \<Rightarrow> 'w \<Rightarrow> 'w run_state \<Rightarrow> 'w run_state" where
  "called a name w st = st\<lparr>rs_world := w, rs_calls := rs_calls st @ [(a, name)]\<rparr>"

definition failed :: "string \<Rightarrow> 'w run_state \<Rightarrow> 'w run_state" where
  "failed message st = st\<lparr>rs_error := Some message\<rparr>"

definition entry_of :: "'e plugin_desc option \<Rightarrow> stop + 'e" where
  "entry_of desc = or_diverge (case desc of None \<Rightarrow> None | Some d \<Rightarrow> main_entry d)"

definition output_usage :: buffer_usage where
  "output_usage = usage_or (usage_or usage_Output usage_CpuRead) usage_CpuWrite"

definition alloc_buffer ::
  "(nat \<Rightarrow> byte list option) \<Rightarrow> buffer_layout \<Rightarrow> buffer_usage \<Rightarrow> stop + cpu_buffer" where
  "alloc_buffer memalign layout usage =
     (case new_cpu_buffer memalign layout usage [] of Inl _ \<Rightarrow> Inl Diverges | Inr b \<Rightarrow> Inr b)"

section \<open>One node\<close>

text \<open>The output of a node: a fresh buffer and a builder over the metadata of the current one.\<close>

definition node_output ::
  "'j json_api \<Rightarrow> (nat \<Rightarrow> byte list option) \<Rightarrow> ('j, 'e) node_instance \<Rightarrow> nat \<Rightarrow> cpu_buffer
     \<Rightarrow> stop + (cpu_buffer \<times> metadata_builder_handle) option" where
  "node_output J memalign node input_count current =
     bind_res (output_layout_for_node J (ni_descriptor node) (ni_params node) (cb_layout current))
       (\<lambda>layout.
     case layout of
       None \<Rightarrow> Inr None
     | Some l \<Rightarrow>
         bind_res (alloc_buffer memalign l output_usage) (\<lambda>next_buffer.
         Inr (Some (next_buffer, make_metadata_builder_handle (cb_metadata current)
           (replicate input_count (cb_metadata current))))))"

text \<open>After the call, the frozen metadata is attached to the output buffer.\<close>

definition finish_output ::
  "process_ctx \<Rightarrow> cpu_buffer \<times> metadata_builder_handle \<Rightarrow> cpu_buffer" where
  "finish_output ctx output =
     (case output of (b, h) \<Rightarrow>
        cb_set_metadata (freeze_metadata_builder (case px_out_metadata ctx of
            None \<Rightarrow> Some h | Some h' \<Rightarrow> Some h'))
          (case px_output ctx of None \<Rightarrow> b | Some b' \<Rightarrow> b'))"

text \<open>
  The lambda of a scheduled node, from the creation of the instance on. \<open>output\<close> is \<open>None\<close> for a node
  without an output.
\<close>

definition process_node ::
  "('j, 'i, 'w) plugin_entry \<Rightarrow> string \<Rightarrow> 'i \<Rightarrow> 'j option \<Rightarrow> nat \<Rightarrow> cpu_buffer
     \<Rightarrow> (cpu_buffer \<times> metadata_builder_handle) option \<Rightarrow> 'w run_state \<Rightarrow> int \<times> 'w run_state" where
  "process_node entry name inst params input_count current output st =
     (let ctx = \<lparr>px_inputs = replicate input_count current, px_output = map_option fst output,
                px_out_metadata = map_option snd output\<rparr>
      in case en_process entry inst params ctx (rs_world st) of (node_status, ctx', w2) \<Rightarrow>
         let st2 = called Process name w2 st;
             next_buffer = map_option (finish_output ctx') output
         in case en_destroy entry inst w2 of (destroy_status, w3) \<Rightarrow>
            let st3 = called Destroy name w3 st2
            in if node_status \<noteq> 0 then (node_status, failed (''node process failed: '' @ name) st3)
               else if destroy_status \<noteq> 0
                 then (destroy_status, failed (''node destroy failed: '' @ name) st3)
               else (0, case next_buffer of None \<Rightarrow> st3
                        | Some b \<Rightarrow> st3\<lparr>rs_current := Some b\<rparr>))"

definition run_created ::
  "'j json_api \<Rightarrow> (nat \<Rightarrow> byte list option) \<Rightarrow> ('j, ('j, 'i, 'w) plugin_entry) node_instance
     \<Rightarrow> ('j, 'i, 'w) plugin_entry \<Rightarrow> 'i \<Rightarrow> 'j \<Rightarrow> bool \<Rightarrow> 'w run_state \<Rightarrow> stop + int \<times> 'w run_state" where
  "run_created J memalign node entry inst params has_output st =
     bind_res (or_diverge (rs_current st)) (\<lambda>current.
     bind_res (node_input_count J (ni_descriptor node)) (\<lambda>input_count.
     if \<not> has_output
     then Inr (process_node entry (ni_id node) inst (Some params) input_count current None st)
     else (case node_output J memalign node input_count current of
         Inl reason \<Rightarrow>
           (case reason of
              Returned _ message \<Rightarrow> Inr (int (status_value Failed), failed message st)
            | _ \<Rightarrow> Inl reason)
       | Inr result \<Rightarrow>
           (case result of
              None \<Rightarrow> Inr (int (status_value Failed), st)
            | Some out \<Rightarrow> Inr (process_node entry (ni_id node) inst (Some params) input_count current
                (Some out) st)))))"

definition run_node ::
  "'j json_api \<Rightarrow> (nat \<Rightarrow> byte list option) \<Rightarrow> string option
     \<Rightarrow> ('j, ('j, 'i, 'w) plugin_entry) node_instance \<Rightarrow> 'w run_state \<Rightarrow> stop + int \<times> 'w run_state" where
  "run_node J memalign output node st =
     bind_res (node_has_output J (ni_descriptor node)) (\<lambda>has_output.
     bind_res (case output of
         Some path \<Rightarrow> if has_output then Inr (ni_params node)
           else or_throw (js_set_string J (ni_params node) ''path'' path)
       | None \<Rightarrow> Inr (ni_params node)) (\<lambda>params.
     bind_res (entry_of (ni_descriptor node)) (\<lambda>entry.
     case en_create entry (Some params) (rs_world st) of (create_status, inst, w1) \<Rightarrow>
       let st1 = called Create (ni_id node) w1 st
       in if create_status \<noteq> 0
          then Inr (create_status, failed (''node create failed: '' @ ni_id node) st1)
          else run_created J memalign node entry inst params has_output st1)))"

section \<open>The source\<close>

definition run_source ::
  "(nat \<Rightarrow> byte list option) \<Rightarrow> ('j, ('j, 'i, 'w) plugin_entry) pipeline \<Rightarrow> 'w run_state
     \<Rightarrow> stop + int \<times> 'w run_state" where
  "run_source memalign pl st =
     (case List.find (\<lambda>i. pl_sources pl (ip_name i) = None) (pl_inputs pl) of
        Some i \<Rightarrow> Inr (int (status_value Failed),
          failed (''source not bound for input port: '' @ ip_name i) st)
      | None \<Rightarrow>
          (case pl_inputs pl of
             [input] \<Rightarrow>
               (case pl_sources pl (ip_name input) of
                  None \<Rightarrow> Inr (int (status_value Failed), failed ''source plugin is not bound'' st)
                | Some source \<Rightarrow>
                  if sb_descriptor source = None
                  then Inr (int (status_value Failed), failed ''source plugin is not bound'' st)
                  else
                    bind_res (alloc_buffer memalign (ip_layout input) output_usage) (\<lambda>buffer.
                    bind_res (entry_of (sb_descriptor source)) (\<lambda>entry.
                    case en_create entry (Some (sb_params source)) (rs_world st) of
                      (create_status, inst, w1) \<Rightarrow>
                      let st1 = called Create (sb_plugin_id source) w1 st
                      in if create_status \<noteq> 0
                         then Inr (create_status,
                           failed (''source create failed: '' @ sb_plugin_id source) st1)
                         else
                         (case en_process entry inst (Some (sb_params source))
                             \<lparr>px_inputs = [], px_output = Some buffer, px_out_metadata = None\<rparr> w1 of
                           (status, ctx', w2) \<Rightarrow>
                         let st2 = called Process (sb_plugin_id source) w2 st1
                         in case en_destroy entry inst w2 of (destroy_status, w3) \<Rightarrow>
                         let st3 = called Destroy (sb_plugin_id source) w3 st2
                         in Inr (if status \<noteq> 0
                             then (status, failed (''source process failed: '' @ sb_plugin_id source) st3)
                           else if destroy_status \<noteq> 0
                             then (destroy_status,
                               failed (''source destroy failed: '' @ sb_plugin_id source) st3)
                           else (case px_output ctx' of
                               None \<Rightarrow> (int (status_value Failed), failed ''source produced no buffer'' st3)
                             | Some b \<Rightarrow> (0, st3\<lparr>rs_current := Some b\<rparr>)))))))
           | _ \<Rightarrow> Inr (int (status_value Unsupported),
               failed ''only one pipeline input is supported in P1'' st)))"

section \<open>The whole run\<close>

text \<open>
  \<open>on_throw\<close> is what the task graph library makes of an exception that leaves a node.
\<close>

definition scheduled_nodes ::
  "'j json_api \<Rightarrow> (nat \<Rightarrow> byte list option) \<Rightarrow> (stop \<Rightarrow> 'w run_state \<Rightarrow> int \<times> 'w run_state)
     \<Rightarrow> string option \<Rightarrow> ('j, ('j, 'i, 'w) plugin_entry) node_instance list
     \<Rightarrow> 'w run_state scheduled_node list" where
  "scheduled_nodes J memalign on_throw output nodes =
     map (\<lambda>(index, node). \<lparr>sn_id = ni_id node,
         sn_process = (\<lambda>st. case run_node J memalign output node st of
             Inl reason \<Rightarrow> on_throw reason st | Inr r \<Rightarrow> r),
         sn_dependencies = (if index > 0 then [index - 1] else [])\<rparr>)
       (enumerate 0 nodes)"

inductive run_bound ::
  "'j json_api \<Rightarrow> (nat \<Rightarrow> byte list option) \<Rightarrow> (stop \<Rightarrow> 'w run_state \<Rightarrow> int \<times> 'w run_state)
     \<Rightarrow> ('j, ('j, 'i, 'w) plugin_entry) pipeline \<Rightarrow> string option \<Rightarrow> 'w run_state
     \<Rightarrow> int \<Rightarrow> 'w run_state \<Rightarrow> bool"
  for J memalign on_throw pl out st where
  source_failed: "run_source memalign pl st = Inr (status, st') \<Longrightarrow> status \<noteq> 0
    \<Longrightarrow> run_bound J memalign on_throw pl out st status st'"
| nodes_run: "run_source memalign pl st = Inr (0, st1)
    \<Longrightarrow> run_nodes (scheduled_nodes J memalign on_throw out (pl_nodes pl)) st1 status st'
    \<Longrightarrow> run_bound J memalign on_throw pl out st status st'"

inductive_cases run_boundE: "run_bound J memalign on_throw pl out st status st'"

section \<open>Running over files\<close>

text \<open>
  \<open>Pipeline::run_file\<close>: \<open>input_bytes\<close> is the contents of the input file, \<open>None\<close> when it cannot be opened;
  \<open>can_open\<close> and \<open>can_write\<close> say whether the output file can be opened and written. The third
  component of the result is what was written.
\<close>

definition input_usage :: buffer_usage where
  "input_usage = usage_or (usage_or usage_Input usage_CpuRead) usage_CpuWrite"

definition or_abort :: "buffer_error + 'a \<Rightarrow> stop + 'a" where
  "or_abort m = (case m of Inl _ \<Rightarrow> Inl Diverges | Inr x \<Rightarrow> Inr x)"

definition fill_input ::
  "(nat \<Rightarrow> byte list option) \<Rightarrow> buffer_layout \<Rightarrow> byte list \<Rightarrow> stop + cpu_buffer" where
  "fill_input memalign layout bytes =
     bind_res (alloc_buffer memalign layout input_usage) (\<lambda>b0.
     bind_res (or_abort (lock_cpu AccessWrite b0)) (\<lambda>b1.
     bind_res (or_diverge (memcpy_in bytes b1)) (\<lambda>b2.
     bind_res (or_abort (unlock_cpu b2)) (\<lambda>b3. Inr (flush_cpu_writes b3)))))"

definition run_file_node ::
  "'j json_api \<Rightarrow> (nat \<Rightarrow> byte list option) \<Rightarrow> buffer_layout
     \<Rightarrow> ('j, ('j, 'i, 'w) plugin_entry) node_instance \<Rightarrow> cpu_buffer \<Rightarrow> 'w run_state
     \<Rightarrow> stop + int \<times> 'w run_state" where
  "run_file_node J memalign layout node current st =
     bind_res (alloc_buffer memalign layout output_usage) (\<lambda>next_buffer.
     bind_res (entry_of (ni_descriptor node)) (\<lambda>entry.
     case en_create entry None (rs_world st) of (create_status, inst, w1) \<Rightarrow>
       let st1 = called Create (ni_id node) w1 st
       in if create_status \<noteq> 0
          then Inr (create_status, failed (''node create failed: '' @ ni_id node) st1)
          else
            bind_res (node_input_count J (ni_descriptor node)) (\<lambda>input_count.
            Inr (process_node entry (ni_id node) inst None input_count current
              (Some (next_buffer, make_metadata_builder_handle (cb_metadata current)
                 (replicate input_count (cb_metadata current)))) st1))))"

fun run_file_nodes ::
  "'j json_api \<Rightarrow> (nat \<Rightarrow> byte list option) \<Rightarrow> buffer_layout
     \<Rightarrow> ('j, ('j, 'i, 'w) plugin_entry) node_instance list \<Rightarrow> 'w run_state
     \<Rightarrow> stop + int \<times> 'w run_state" where
  "run_file_nodes J memalign layout [] st = Inr (0, st)"
| "run_file_nodes J memalign layout (node # nodes) st =
     bind_res (or_diverge (rs_current st)) (\<lambda>current.
     bind_res (run_file_node J memalign layout node current st) (\<lambda>(status, st').
     if status \<noteq> 0 then Inr (status, st') else run_file_nodes J memalign layout nodes st'))"

definition run_file ::
  "'j json_api \<Rightarrow> (nat \<Rightarrow> byte list option) \<Rightarrow> ('j, ('j, 'i, 'w) plugin_entry) pipeline
     \<Rightarrow> byte list option \<Rightarrow> bool \<Rightarrow> bool \<Rightarrow> 'w run_state
     \<Rightarrow> stop + int \<times> 'w run_state \<times> byte list option" where
  "run_file J memalign pl input_bytes can_open can_write st =
     (case input_bytes of
        None \<Rightarrow> Inr (int (status_value Failed), failed ''failed to open input file'' st, None)
      | Some bytes \<Rightarrow>
          if length bytes \<noteq> unat (size_bytes (pl_layout pl))
          then Inr (int (status_value Failed), failed ''input size does not match pipeline layout'' st, None)
          else
            bind_res (fill_input memalign (pl_layout pl) bytes) (\<lambda>current.
            bind_res (run_file_nodes J memalign (pl_layout pl) (pl_nodes pl)
              (st\<lparr>rs_current := Some current\<rparr>)) (\<lambda>(status, st1).
            if status \<noteq> 0 then Inr (status, st1, None)
            else if \<not> can_open
              then Inr (int (status_value Failed), failed ''failed to open output file'' st1, None)
            else
              bind_res (or_diverge (rs_current st1)) (\<lambda>final.
              bind_res (or_abort (lock_cpu AccessRead final)) (\<lambda>locked.
              bind_res (or_abort (unlock_cpu locked)) (\<lambda>unlocked.
              if \<not> can_write
              then Inr (int (status_value Failed), failed ''failed to write output file'' (st1\<lparr>rs_current := Some unlocked\<rparr>), None)
              else Inr (0, st1\<lparr>rs_current := Some unlocked\<rparr>,
                     Some (take (unat (cb_size_bytes locked)) (cb_data locked)))))))))"

section \<open>The sequential specification\<close>

text \<open>
  \<open>run_all\<close> is what a run of the nodes promises: the nodes one after the other up to the first status
  that is not \<open>CPIPE_OK\<close>. It stops when an exception leaves a node.
\<close>

fun run_all ::
  "'j json_api \<Rightarrow> (nat \<Rightarrow> byte list option) \<Rightarrow> string option
     \<Rightarrow> ('j, ('j, 'i, 'w) plugin_entry) node_instance list \<Rightarrow> 'w run_state
     \<Rightarrow> stop + int \<times> 'w run_state" where
  "run_all J memalign out [] st = Inr (0, st)"
| "run_all J memalign out (node # nodes) st =
     bind_res (run_node J memalign out node st) (\<lambda>(status, st').
     if status \<noteq> 0 then Inr (status, st') else run_all J memalign out nodes st')"

lemma scheduled_nodes_chain: "chain (scheduled_nodes J memalign on_throw out nodes)"
  by (auto simp: chain_def scheduled_nodes_def enumerate_eq_zip)

lemma run_sequential_process_only:
  "map sn_process xs = map sn_process ys \<Longrightarrow> run_sequential xs w = run_sequential ys w"
proof (induction xs arbitrary: ys w)
  case (Cons x xs)
  then obtain y ys' where "ys = y # ys'" "sn_process x = sn_process y"
    "map sn_process xs = map sn_process ys'" by (cases ys) auto
  with Cons.IH show ?case by (auto split: prod.splits)
qed simp

lemma run_sequential_run_all:
  assumes "run_all J memalign out nodes st = Inr (status, st')"
  shows "run_sequential (scheduled_nodes J memalign on_throw out nodes) st = (status, st')"
  using assms
proof (induction nodes arbitrary: st)
  case Nil
  then show ?case by (simp add: scheduled_nodes_def)
next
  case (Cons node nodes)
  let ?p = "\<lambda>node st. case run_node J memalign out node st of Inl r \<Rightarrow> on_throw r st | Inr r \<Rightarrow> r"
  have procs: "map sn_process (scheduled_nodes J memalign on_throw out ns) = map ?p ns" for ns
    by (rule nth_equalityI) (simp_all add: scheduled_nodes_def enumerate_eq_zip)
  have hd: "\<exists>n ns. scheduled_nodes J memalign on_throw out (node # nodes) = n # ns \<and> sn_process n = ?p node \<and>
      map sn_process ns = map sn_process (scheduled_nodes J memalign on_throw out nodes)"
  proof (cases "scheduled_nodes J memalign on_throw out (node # nodes)")
    case Nil
    then show ?thesis by (simp add: scheduled_nodes_def)
  next
    case (Cons n ns)
    with procs [of "node # nodes"] procs [of nodes] show ?thesis by simp
  qed
  then obtain n ns where n: "scheduled_nodes J memalign on_throw out (node # nodes) = n # ns"
    "sn_process n = ?p node"
    "map sn_process ns = map sn_process (scheduled_nodes J memalign on_throw out nodes)" by blast
  from Cons.prems obtain s1 st1 where s1: "run_node J memalign out node st = Inr (s1, st1)"
    by (auto simp: bind_res_eq_Inr_iff)
  have "run_sequential ns st1 = run_sequential (scheduled_nodes J memalign on_throw out nodes) st1"
    using n(3) by (rule run_sequential_process_only)
  with n(1,2) s1 Cons.prems Cons.IH [of st1] show ?case by (auto split: if_splits)
qed

section \<open>Life cycles\<close>

definition life_cycle :: "string \<Rightarrow> (action \<times> string) list" where
  "life_cycle name = [(Create, name), (Process, name), (Destroy, name)]"

lemma called_simps [simp]:
  "rs_calls (called a n w st) = rs_calls st @ [(a, n)]" "rs_world (called a n w st) = w"
  "rs_current (called a n w st) = rs_current st" "rs_error (called a n w st) = rs_error st"
  by (simp_all add: called_def)

lemma failed_simps [simp]:
  "rs_calls (failed m st) = rs_calls st" "rs_world (failed m st) = rs_world st"
  "rs_current (failed m st) = rs_current st" "rs_error (failed m st) = Some m"
  by (simp_all add: failed_def)





section \<open>Running over files: the buffer\<close>

lemma alloc_buffer_wf:
  assumes "\<forall>n m. memalign n = Some m \<longrightarrow> length m = n" and "alloc_buffer memalign l u = Inr b"
  shows "cpu_buffer_wf b" and "\<not> cb_locked b" and "cb_layout b = l" and "cb_usage b = u"
proof -
  from assms(2) have "new_cpu_buffer memalign l u [] = Inr b"
    by (simp add: alloc_buffer_def split: sum.splits)
  from new_cpu_buffer_wf [OF assms(1) this]
  show "cpu_buffer_wf b" "\<not> cb_locked b" "cb_layout b = l" "cb_usage b = u" by simp_all
qed

lemma input_usage_access: "has_usage input_usage usage_CpuRead" "has_usage input_usage usage_CpuWrite"
  by code_simp+

text \<open>The first buffer of \<open>run_file\<close> holds the bytes of the file.\<close>

lemma fill_input_ok:
  assumes mem: "\<forall>n m. memalign n = Some m \<longrightarrow> length m = n"
    and some: "memalign (unat (size_bytes l)) \<noteq> None" and len: "length bytes = unat (size_bytes l)"
  shows "\<exists>b. fill_input memalign l bytes = Inr b \<and> cb_data b = bytes \<and> \<not> cb_locked b \<and>
    cb_usage b = input_usage \<and> cb_size_bytes b = size_bytes l \<and> cb_layout b = l"
proof -
  from some obtain b0 where b0: "alloc_buffer memalign l input_usage = Inr b0"
    by (cases "size_bytes l = 0") (auto simp: alloc_buffer_def new_cpu_buffer_def)
  note wf = alloc_buffer_wf [OF mem b0]
  have d: "length (cb_data b0) = length bytes" "cb_size_bytes b0 = size_bytes l"
    using wf(1,3) len by (simp_all add: cpu_buffer_wf_def)
  have lock: "lock_cpu AccessWrite b0 = Inr (b0\<lparr>cb_locked := True\<rparr>)"
    using wf(2,4) input_usage_access by (simp add: lock_cpu_eq cb_allows_def)
  have "fill_input memalign l bytes = Inr (b0\<lparr>cb_data := bytes, cb_locked := False\<rparr>)"
    using d by (simp add: fill_input_def b0 lock or_abort_def memcpy_in_def unlock_cpu_def flush_cpu_writes_def)
  with wf d show ?thesis by auto
qed

section \<open>A concrete run\<close>

text \<open>Plugins that count the calls they get and leave their output as it is.\<close>

definition demo_plugin :: "(json, unit, nat) plugin_entry" where
  "demo_plugin = \<lparr>en_create = (\<lambda>p w. (0, (), w + 1)), en_process = (\<lambda>i p c w. (0, c, w + 1)),
     en_destroy = (\<lambda>i w. (0, w + 1))\<rparr>"

definition demo_run_desc :: "string \<Rightarrow> (json, unit, nat) plugin_entry plugin_desc option" where
  "demo_run_desc m = Some \<lparr>abi_major = 0, abi_minor = 4, node_id = Some ''demo'',
     node_version = Some ''1'', manifest_json = Some m, main_entry = Some demo_plugin\<rparr>"

definition demo_run_nodes :: "(json, (json, unit, nat) plugin_entry) node_instance list" where
  "demo_run_nodes = [\<lparr>ni_id = ''a'', ni_descriptor = demo_run_desc ''u16'', ni_params = JObj []\<rparr>,
     \<lparr>ni_id = ''b'', ni_descriptor = demo_run_desc ''f32'', ni_params = JObj []\<rparr>]"

definition demo_run_layout :: buffer_layout where
  "demo_run_layout = default_layout\<lparr>format := R16_UINT, ndim := 2, dims := [2, 1, 0, 0, 0, 0, 0, 0]\<rparr>"

definition demo_pipeline :: "(json, (json, unit, nat) plugin_entry) pipeline" where
  "demo_pipeline = new_pipeline\<lparr>
     pl_inputs := [\<lparr>ip_name = ''src'', ip_layout = demo_run_layout\<rparr>], pl_layout := demo_run_layout,
     pl_nodes := demo_run_nodes,
     pl_sources := [''src'' \<mapsto> \<lparr>sb_plugin_id = ''reader'', sb_descriptor = demo_run_desc ''u16'',
       sb_params = JObj []\<rparr>]\<rparr>"

definition demo_memalign :: "nat \<Rightarrow> byte list option" where
  "demo_memalign n = Some (replicate n 0)"

definition demo_start :: "nat run_state" where
  "demo_start = \<lparr>rs_world = 0, rs_current = None, rs_error = None, rs_calls = []\<rparr>"

definition demo_source_state :: "nat run_state" where
  "demo_source_state = \<lparr>rs_world = 3, rs_current = Some \<lparr>cb_layout = demo_run_layout,
       cb_usage = output_usage, cb_color_role = [], cb_metadata = Some default_metadata,
       cb_data = replicate 4 0, cb_size_bytes = 4, cb_locked = False\<rparr>, rs_error = None,
     rs_calls = life_cycle ''reader''\<rparr>"

definition demo_end_state :: "nat run_state" where
  "demo_end_state = \<lparr>rs_world = 9, rs_current = Some \<lparr>cb_layout = demo_run_layout\<lparr>format := R32_SFLOAT\<rparr>,
       cb_usage = output_usage, cb_color_role = [], cb_metadata = Some default_metadata,
       cb_data = replicate 8 0, cb_size_bytes = 8, cb_locked = False\<rparr>, rs_error = None,
     rs_calls = life_cycle ''reader'' @ life_cycle ''a'' @ life_cycle ''b''\<rparr>"

definition leaky_node :: "(json, (json, unit, nat) plugin_entry) node_instance" where
  "leaky_node = \<lparr>ni_id = ''l'', ni_descriptor = demo_run_desc ''odd'', ni_params = JObj []\<rparr>"

definition leaky_json :: "json json_api" where
  "leaky_json = json_of [(''odd'', JObj [(''ports'', JArr [port_json ''out'' ''rgb'' ''f64''])])]"

lemma demo_run_source: "run_source demo_memalign demo_pipeline demo_start = Inr (0, demo_source_state)"
  by code_simp

lemma demo_run_all:
  "run_all precision_json demo_memalign None (pl_nodes demo_pipeline) demo_source_state =
     Inr (0, demo_end_state)"
  by code_simp

section \<open>Properties\<close>

text \<open>
  C5: running a pipeline through the scheduler, on any number of threads, has exactly one outcome: that
  of running the source and then the nodes one after the other in their planned order, each reading
  the buffer the one before it has written, up to the first failure. This is when no exception leaves
  a node.
\<close>

theorem run_bound_refines:
  assumes "run_source memalign pl st = Inr (0, st1)"
    and "run_all J memalign out (pl_nodes pl) st1 = Inr (s, st2)"
  shows "run_bound J memalign on_throw pl out st status st' \<longleftrightarrow> status = s \<and> st' = st2"
proof -
  note seq = run_sequential_run_all [OF assms(2), of on_throw]
  note iff = chain_run_nodes [OF scheduled_nodes_chain, of J memalign on_throw out "pl_nodes pl" st1]
  show ?thesis
  proof
    assume "run_bound J memalign on_throw pl out st status st'"
    then show "status = s \<and> st' = st2"
      by (rule run_boundE) (use assms(1) iff seq in auto)
  next
    assume "status = s \<and> st' = st2"
    with iff seq show "run_bound J memalign on_throw pl out st status st'"
      by (auto intro: run_bound.nodes_run [OF assms(1)])
  qed
qed

theorem run_bound_refines_witness:
  "run_bound precision_json demo_memalign (\<lambda>r st. (1, st)) demo_pipeline None demo_start 0 demo_end_state"
  using run_bound_refines [OF demo_run_source demo_run_all] by blast



text \<open>
  C10: a node whose output format cannot be determined is left alive. After a successful create, when
  the layout of the output cannot be computed, the run fails with \<open>CPIPE_FAILED\<close> and the instance is
  never destroyed.
\<close>

theorem run_node_leaks_instance:
  assumes "node_has_output J (ni_descriptor node) = Inr True"
    and "entry_of (ni_descriptor node) = Inr entry"
    and "en_create entry (Some (ni_params node)) (rs_world st) = (0, inst, w1)"
    and "rs_current st = Some current" and "node_input_count J (ni_descriptor node) = Inr n"
    and "output_layout_for_node J (ni_descriptor node) (ni_params node) (cb_layout current) =
      Inl (Returned Failed message)"
  shows "\<exists>st'. run_node J memalign out node st = Inr (int (status_value Failed), st') \<and>
    rs_calls st' = rs_calls st @ [(Create, ni_id node)] \<and> rs_error st' = Some message"
proof -
  have "node_output J memalign node n current = Inl (Returned Failed message)"
    using assms(6) by (simp add: node_output_def)
  with assms(1-5) show ?thesis
    by (auto simp: run_node_def run_created_def split: option.splits)
qed

theorem run_node_leaks_instance_witness:
  "\<exists>st'. run_node leaky_json demo_memalign None leaky_node demo_source_state =
      Inr (int (status_value Failed), st') \<and>
    rs_calls st' = rs_calls demo_source_state @ [(Create, ''l'')] \<and>
    rs_error st' = Some ''unsupported output port format''"
proof -
  have entry: "entry_of (ni_descriptor leaky_node) = Inr demo_plugin"
    by (simp add: entry_of_def leaky_node_def demo_run_desc_def)
  have out: "node_has_output leaky_json (ni_descriptor leaky_node) = Inr True"
    and create: "en_create demo_plugin (Some (ni_params leaky_node)) (rs_world demo_source_state) = (0, (), 4)"
    and count: "node_input_count leaky_json (ni_descriptor leaky_node) = Inr 1"
    and layout: "output_layout_for_node leaky_json (ni_descriptor leaky_node) (ni_params leaky_node)
      (cb_layout (the (rs_current demo_source_state))) =
      Inl (Returned Failed ''unsupported output port format'')"
    by code_simp+
  have current: "rs_current demo_source_state = Some (the (rs_current demo_source_state))"
    by (simp add: demo_source_state_def)
  have "ni_id leaky_node = ''l''" by (simp add: leaky_node_def)
  with run_node_leaks_instance [OF out entry create current count layout, of demo_memalign None]
  show ?thesis by metis
qed

text \<open>
  Running a pipeline without nodes over files copies the input file to the output file, when its
  size is that of the pipeline's layout and the allocator delivers the memory; an input of any other
  size is refused and nothing is written.
\<close>

lemma run_file_copies:
  assumes "\<forall>n m. memalign n = Some m \<longrightarrow> length m = n"
    and "memalign (unat (size_bytes (pl_layout pl))) \<noteq> None" and "pl_nodes pl = []"
  shows "\<exists>status st' written. run_file J memalign pl (Some bytes) True True st = Inr (status, st', written) \<and>
    (if length bytes = unat (size_bytes (pl_layout pl)) then status = 0 \<and> written = Some bytes
     else status = int (status_value Failed) \<and> written = None)"
proof (cases "length bytes = unat (size_bytes (pl_layout pl))")
  case True
  from fill_input_ok [OF assms(1,2) True] obtain b where
    b: "fill_input memalign (pl_layout pl) bytes = Inr b" "cb_data b = bytes" "\<not> cb_locked b"
      "cb_usage b = input_usage" "cb_size_bytes b = size_bytes (pl_layout pl)" by blast
  have "lock_cpu AccessRead b = Inr (b\<lparr>cb_locked := True\<rparr>)"
    using b(3,4) input_usage_access by (simp add: lock_cpu_eq cb_allows_def)
  with True b assms(3) show ?thesis
    by (simp add: run_file_def or_abort_def unlock_cpu_def)
next
  case False
  then show ?thesis by (simp add: run_file_def)
qed

end
