(* ===== verification/Byte_Reader.thy ===== *)
theory Byte_Reader
  imports Prelude
begin

text \<open>
  The big-endian byte reader of the DNG opcode parsers (\<open>struct Reader\<close> in
  \<open>src/cpipe/ingest/dng_opcode/OpcodeList2.cpp\<close> and \<open>OpcodeList3.cpp\<close>, the same code twice). Reading
  past the end of the span is undefined behaviour in C++; here it is the fault \<open>OutOfBounds\<close>, so that
  the absence of such reads is a theorem.
\<close>

unbundle bit_operations_syntax

section \<open>The reader\<close>

datatype fault = OutOfBounds | BadAlloc | BadCast

record reader =
  rd_bytes :: "byte list"
  rd_offset :: nat

definition reader_of :: "byte list \<Rightarrow> reader" where
  "reader_of bytes = \<lparr>rd_bytes = bytes, rd_offset = 0\<rparr>"

definition can_read :: "nat \<Rightarrow> reader \<Rightarrow> bool" where
  "can_read n r \<longleftrightarrow> rd_offset r \<le> length (rd_bytes r) \<and> n \<le> length (rd_bytes r) - rd_offset r"

definition byte_at :: "byte list \<Rightarrow> nat \<Rightarrow> fault + byte" where
  "byte_at bytes i = (if i < length bytes then Inr (bytes ! i) else Inl OutOfBounds)"

definition read_u32 :: "reader \<Rightarrow> fault + u32 \<times> reader" where
  "read_u32 r =
     bind_res (byte_at (rd_bytes r) (rd_offset r)) (\<lambda>b0.
     bind_res (byte_at (rd_bytes r) (rd_offset r + 1)) (\<lambda>b1.
     bind_res (byte_at (rd_bytes r) (rd_offset r + 2)) (\<lambda>b2.
     bind_res (byte_at (rd_bytes r) (rd_offset r + 3)) (\<lambda>b3.
     Inr (push_bit 24 (ucast b0) OR push_bit 16 (ucast b1) OR push_bit 8 (ucast b2) OR ucast b3,
          r\<lparr>rd_offset := rd_offset r + 4\<rparr>)))))"

definition read_u64 :: "reader \<Rightarrow> fault + u64 \<times> reader" where
  "read_u64 r =
     bind_res (read_u32 r) (\<lambda>(high, r1).
     bind_res (read_u32 r1) (\<lambda>(low, r2).
     Inr (push_bit 32 (ucast high) OR ucast low, r2)))"

text \<open>Floating point values are their bit patterns, so \<open>std::bit_cast\<close> is the identity.\<close>

definition read_double :: "reader \<Rightarrow> fault + f64 \<times> reader" where
  "read_double r = read_u64 r"

definition read_float :: "reader \<Rightarrow> fault + f32 \<times> reader" where
  "read_float r = read_u32 r"

text \<open>A loop that reads \<open>n\<close> items.\<close>

fun read_many :: "(reader \<Rightarrow> fault + 'a \<times> reader) \<Rightarrow> nat \<Rightarrow> reader \<Rightarrow> fault + 'a list \<times> reader" where
  "read_many get 0 r = Inr ([], r)"
| "read_many get (Suc n) r =
     bind_res (get r) (\<lambda>(x, r1).
     bind_res (read_many get n r1) (\<lambda>(xs, r2). Inr (x # xs, r2)))"

section \<open>Encodings\<close>

definition put_u32 :: "u32 \<Rightarrow> byte list" where
  "put_u32 w = [ucast (drop_bit 24 w), ucast (drop_bit 16 w), ucast (drop_bit 8 w), ucast w]"

definition put_u64 :: "u64 \<Rightarrow> byte list" where
  "put_u64 w = put_u32 (ucast (drop_bit 32 w)) @ put_u32 (ucast w)"

text \<open>What is left to read, and a reader moved forward.\<close>

definition remaining_bytes :: "reader \<Rightarrow> byte list" where
  "remaining_bytes r = drop (rd_offset r) (rd_bytes r)"

definition advance :: "nat \<Rightarrow> reader \<Rightarrow> reader" where
  "advance n r = r\<lparr>rd_offset := rd_offset r + n\<rparr>"

lemma advance_simps [simp]:
  "rd_bytes (advance n r) = rd_bytes r" "rd_offset (advance n r) = rd_offset r + n"
  by (simp_all add: advance_def)

lemma advance_0 [simp]: "advance 0 r = r"
  by (simp add: advance_def)

lemma advance_advance [simp]: "advance m (advance n r) = advance (n + m) r"
  by (simp add: advance_def add.assoc)

lemma remaining_advance [simp]: "remaining_bytes (advance n r) = drop n (remaining_bytes r)"
  by (simp add: remaining_bytes_def add.commute)

lemma remaining_reader_of [simp]: "remaining_bytes (reader_of bytes) = bytes"
  by (simp add: remaining_bytes_def reader_of_def)

lemma can_read_remaining:
  "rd_offset r \<le> length (rd_bytes r) \<Longrightarrow> can_read n r \<longleftrightarrow> n \<le> length (remaining_bytes r)"
  by (simp add: can_read_def remaining_bytes_def)

section \<open>Codecs\<close>

text \<open>
  What a client of a reading function relies on. It reads an item of a fixed width when that many
  bytes are left, moves forward by that width, and reads back what the encoding wrote.
\<close>

locale codec =
  fixes get :: "reader \<Rightarrow> fault + 'a \<times> reader"
    and put :: "'a \<Rightarrow> byte list"
    and width :: nat
  assumes length_put: "length (put x) = width"
    and get_ok: "width \<le> length (remaining_bytes r) \<Longrightarrow>
          \<exists>x. get r = Inr (x, advance width r) \<and> take width (remaining_bytes r) = put x"
    and get_fault: "length (remaining_bytes r) < width \<Longrightarrow> get r = Inl OutOfBounds"
    and put_inject: "put x = put y \<Longrightarrow> x = y"
begin

lemma get_put:
  assumes "remaining_bytes r = put x @ ys"
  shows "get r = Inr (x, advance width r)"
proof -
  have "width \<le> length (remaining_bytes r)" using assms length_put by simp
  from get_ok [OF this] obtain y where y: "get r = Inr (y, advance width r)"
    "take width (remaining_bytes r) = put y" by blast
  with assms length_put [of x] have "put x = put y" by simp
  with y(1) put_inject show ?thesis by simp
qed

lemma get_InrD:
  assumes "get r = Inr (x, r')"
  shows "r' = advance width r" and "take width (remaining_bytes r) = put x"
    and "width \<le> length (remaining_bytes r)"
proof -
  show len: "width \<le> length (remaining_bytes r)" using assms get_fault by (metis not_le sum.distinct(1))
  from get_ok [OF len] assms show "r' = advance width r" "take width (remaining_bytes r) = put x"
    by auto
qed

lemma get_Inl: "get r = Inl e \<longleftrightarrow> length (remaining_bytes r) < width \<and> e = OutOfBounds"
  using get_ok [of r] get_fault [of r] by (cases "width \<le> length (remaining_bytes r)") auto

text \<open>Reading several items.\<close>

lemma length_concat_put: "length (concat (map put xs)) = width * length xs"
  by (induction xs) (simp_all add: length_put)

lemma read_many_ok:
  "n * width \<le> length (remaining_bytes r) \<Longrightarrow>
     \<exists>xs. read_many get n r = Inr (xs, advance (n * width) r) \<and> length xs = n \<and>
       take (n * width) (remaining_bytes r) = concat (map put xs)"
proof (induction n arbitrary: r)
  case (Suc n)
  from Suc.prems have "width \<le> length (remaining_bytes r)" by simp
  from get_ok [OF this] obtain x where x: "get r = Inr (x, advance width r)"
    "take width (remaining_bytes r) = put x" by blast
  have "n * width \<le> length (remaining_bytes (advance width r))" using Suc.prems by simp
  from Suc.IH [OF this] obtain xs where
    "read_many get n (advance width r) = Inr (xs, advance (Suc n * width) r)" "length xs = n"
    "take (n * width) (drop width (remaining_bytes r)) = concat (map put xs)" by auto
  with x show ?case by (auto simp: take_add)
qed simp

lemma read_many_put:
  assumes "remaining_bytes r = concat (map put xs) @ ys"
  shows "read_many get (length xs) r = Inr (xs, advance (length xs * width) r)"
  using assms
proof (induction xs arbitrary: r)
  case (Cons x xs)
  from Cons.prems have "get r = Inr (x, advance width r)" by (intro get_put) simp
  moreover have "read_many get (length xs) (advance width r) =
      Inr (xs, advance (length xs * width) (advance width r))"
    using Cons.prems by (intro Cons.IH) (simp add: length_put)
  ultimately show ?case by simp
qed simp

lemma read_many_InrD:
  assumes "read_many get n r = Inr (xs, r')"
  shows "length xs = n \<and> r' = advance (n * width) r \<and>
    take (n * width) (remaining_bytes r) = concat (map put xs) \<and>
    n * width \<le> length (remaining_bytes r)"
  using assms
proof (induction n arbitrary: r xs)
  case (Suc n)
  from Suc.prems obtain x r1 ys where x: "get r = Inr (x, r1)"
    and ys: "read_many get n r1 = Inr (ys, r')" "xs = x # ys"
    by (auto simp: bind_res_eq_Inr_iff)
  note g = get_InrD [OF x]
  from Suc.IH [OF ys(1)] have "length ys = n" "r' = advance (n * width) r1"
    "take (n * width) (remaining_bytes r1) = concat (map put ys)"
    "n * width \<le> length (remaining_bytes r1)" by auto
  with g ys(2) show ?case by (auto simp: take_add)
qed simp

text \<open>A record of \<open>n\<close> items of the same kind is again a codec.\<close>

lemma record_codec:
  assumes get: "\<And>r. G r = bind_res (read_many get n r) (\<lambda>(xs, r'). Inr (mk xs, r'))"
    and un_mk: "\<And>xs. length xs = n \<Longrightarrow> un (mk xs) = xs"
    and mk_un: "\<And>x. mk (un x) = x" and len: "\<And>x. length (un x) = n"
  shows "codec G (\<lambda>x. concat (map put (un x))) (n * width)"
proof
  show "length (concat (map put (un x))) = n * width" for x by (simp add: length_concat_put len)
next
  fix r assume "n * width \<le> length (remaining_bytes r)"
  from read_many_ok [OF this] obtain xs where
    "read_many get n r = Inr (xs, advance (n * width) r)" "length xs = n"
    "take (n * width) (remaining_bytes r) = concat (map put xs)" by blast
  then show "\<exists>x. G r = Inr (x, advance (n * width) r) \<and>
      take (n * width) (remaining_bytes r) = concat (map put (un x))"
    by (intro exI [of _ "mk xs"]) (simp add: get un_mk)
next
  fix r assume short: "length (remaining_bytes r) < n * width"
  have "read_many get n r = Inl OutOfBounds" using short
  proof (induction n arbitrary: r)
    case (Suc n)
    show ?case
    proof (cases "length (remaining_bytes r) < width")
      case True
      then show ?thesis by (simp add: get_fault)
    next
      case False
      then obtain x where "get r = Inr (x, advance width r)" using get_ok [of r] by auto
      moreover have "read_many get n (advance width r) = Inl OutOfBounds"
        using Suc.prems False by (intro Suc.IH) simp
      ultimately show ?thesis by simp
    qed
  qed simp
  then show "G r = Inl OutOfBounds" by (simp add: get)
next
  fix x y assume eq: "concat (map put (un x)) = concat (map put (un y))"
  have "map put xs = map put ys" if "concat (map put xs) = concat (map put ys)" "length xs = length ys" for xs ys
    using that(2,1) by (induction xs ys rule: list_induct2) (simp_all add: append_eq_append_conv length_put)
  from this [OF eq] have "map put (un x) = map put (un y)" by (simp add: len)
  moreover have "inj put" by (rule injI) (rule put_inject)
  ultimately have "un x = un y" by (metis map_injective)
  then show "x = y" using mk_un by metis
qed

end

section \<open>The reading functions are codecs\<close>

lemma length_put_u32 [simp]: "length (put_u32 w) = 4"
  by (simp add: put_u32_def)

lemma length_put_u64 [simp]: "length (put_u64 w) = 8"
  by (simp add: put_u64_def)

lemma u32_from_bytes:
  "(push_bit 24 (ucast (ucast (drop_bit 24 w) :: byte)) OR push_bit 16 (ucast (ucast (drop_bit 16 w) :: byte)) OR
    push_bit 8 (ucast (ucast (drop_bit 8 w) :: byte)) OR ucast (ucast w :: byte) :: u32) = w"
proof (rule bit_word_eqI)
  fix n assume "n < LENGTH(32)"
  then consider "n < 8" | "8 \<le> n" "n < 16" | "16 \<le> n" "n < 24" | "24 \<le> n" "n < 32" by fastforce
  then show "bit (push_bit 24 (ucast (ucast (drop_bit 24 w) :: byte)) OR
      push_bit 16 (ucast (ucast (drop_bit 16 w) :: byte)) OR
      push_bit 8 (ucast (ucast (drop_bit 8 w) :: byte)) OR ucast (ucast w :: byte) :: u32) n \<longleftrightarrow> bit w n"
    by cases (auto simp: bit_simps)
qed

lemma high_bits_clear [simp]:
  "\<not> bit (b :: byte) (8 + n)" "\<not> bit b (16 + n)" "\<not> bit b (24 + n)" "\<not> bit (h :: u32) (32 + n)"
  using bit_imp_le_length [of b "8 + n"] bit_imp_le_length [of b "16 + n"]
    bit_imp_le_length [of b "24 + n"] bit_imp_le_length [of h "32 + n"] by auto

lemma bytes_of_u32:
  fixes b0 b1 b2 b3 :: byte
  defines "w \<equiv> push_bit 24 (ucast b0) OR push_bit 16 (ucast b1) OR push_bit 8 (ucast b2) OR ucast b3 :: u32"
  shows "put_u32 w = [b0, b1, b2, b3]"
  unfolding put_u32_def w_def
  by (auto intro!: bit_word_eqI simp: bit_simps)

lemma put_u32_inject: "put_u32 v = put_u32 w \<Longrightarrow> v = w"
  unfolding put_u32_def by (metis list.inject u32_from_bytes)

lemma read_u32_ok:
  assumes "4 \<le> length (remaining_bytes r)"
  shows "\<exists>x. read_u32 r = Inr (x, advance 4 r) \<and> take 4 (remaining_bytes r) = put_u32 x"
proof -
  have len: "rd_offset r + 3 < length (rd_bytes r)" using assms by (simp add: remaining_bytes_def)
  then have "read_u32 r = Inr (push_bit 24 (ucast (rd_bytes r ! rd_offset r)) OR
      push_bit 16 (ucast (rd_bytes r ! (rd_offset r + 1))) OR
      push_bit 8 (ucast (rd_bytes r ! (rd_offset r + 2))) OR ucast (rd_bytes r ! (rd_offset r + 3)),
      advance 4 r)"
    by (simp add: read_u32_def byte_at_def advance_def)
  moreover have "take 4 (remaining_bytes r) = [rd_bytes r ! rd_offset r, rd_bytes r ! (rd_offset r + 1),
      rd_bytes r ! (rd_offset r + 2), rd_bytes r ! (rd_offset r + 3)]"
    using len by (intro nth_equalityI)
      (auto simp: remaining_bytes_def less_Suc_eq nth_Cons numeral_eq_Suc split: nat.splits)
  ultimately show ?thesis using bytes_of_u32 by metis
qed

lemma read_u32_fault:
  assumes "length (remaining_bytes r) < 4"
  shows "read_u32 r = Inl OutOfBounds"
proof -
  have "length (rd_bytes r) \<le> rd_offset r + 3" using assms by (simp add: remaining_bytes_def)
  then have "byte_at (rd_bytes r) (rd_offset r + 3) = Inl OutOfBounds" by (simp add: byte_at_def)
  then show ?thesis by (auto simp: read_u32_def byte_at_def bind_res_def)
qed

interpretation u32: codec read_u32 put_u32 4
  by unfold_locales (simp_all add: read_u32_ok read_u32_fault, rule put_u32_inject)

lemma u64_from_halves:
  "(push_bit 32 (ucast (ucast (drop_bit 32 w) :: u32)) OR ucast (ucast w :: u32) :: u64) = w"
proof (rule bit_word_eqI)
  fix n assume "n < LENGTH(64)"
  then consider "n < 32" | "32 \<le> n" "n < 64" by fastforce
  then show "bit (push_bit 32 (ucast (ucast (drop_bit 32 w) :: u32)) OR ucast (ucast w :: u32) :: u64) n
      \<longleftrightarrow> bit w n"
    by cases (auto simp: bit_simps)
qed

lemma halves_of_u64:
  fixes high low :: u32
  defines "w \<equiv> push_bit 32 (ucast high) OR ucast low :: u64"
  shows "ucast (drop_bit 32 w) = high" and "ucast w = low"
  unfolding w_def by (auto intro!: bit_word_eqI simp: bit_simps)

lemma read_u64_ok:
  assumes "8 \<le> length (remaining_bytes r)"
  shows "\<exists>x. read_u64 r = Inr (x, advance 8 r) \<and> take 8 (remaining_bytes r) = put_u64 x"
proof -
  from assms have "4 \<le> length (remaining_bytes r)" by simp
  from read_u32_ok [OF this] obtain high where high: "read_u32 r = Inr (high, advance 4 r)"
    "take 4 (remaining_bytes r) = put_u32 high" by blast
  have "4 \<le> length (remaining_bytes (advance 4 r))" using assms by simp
  from read_u32_ok [OF this] obtain low where low: "read_u32 (advance 4 r) = Inr (low, advance 8 r)"
    "take 4 (drop 4 (remaining_bytes r)) = put_u32 low" by auto
  have "take 8 (remaining_bytes r) = put_u32 high @ put_u32 low"
    using high(2) low(2) take_add [of 4 4 "remaining_bytes r"] by simp
  then have "take 8 (remaining_bytes r) = put_u64 (push_bit 32 (ucast high) OR ucast low)"
    unfolding put_u64_def halves_of_u64 .
  with high(1) low(1) show ?thesis by (simp add: read_u64_def)
qed

lemma read_u64_fault:
  assumes "length (remaining_bytes r) < 8"
  shows "read_u64 r = Inl OutOfBounds"
proof (cases "length (remaining_bytes r) < 4")
  case True
  then show ?thesis by (simp add: read_u64_def read_u32_fault)
next
  case False
  then obtain x where "read_u32 r = Inr (x, advance 4 r)" using read_u32_ok [of r] by auto
  moreover have "read_u32 (advance 4 r) = Inl OutOfBounds" using assms by (intro read_u32_fault) simp
  ultimately show ?thesis by (simp add: read_u64_def)
qed

lemma put_u64_inject:
  assumes "put_u64 v = put_u64 w"
  shows "v = w"
proof -
  define a b c d :: u32 where "a = ucast (drop_bit 32 v)" and "b = ucast v"
    and "c = ucast (drop_bit 32 w)" and "d = ucast w"
  from assms have "put_u32 a @ put_u32 b = put_u32 c @ put_u32 d"
    unfolding put_u64_def a_def b_def c_def d_def .
  then have "put_u32 a = put_u32 c \<and> put_u32 b = put_u32 d" by (simp add: append_eq_append_conv)
  then have eq: "a = c" "b = d" by (auto intro: put_u32_inject)
  have "v = push_bit 32 (ucast a) OR ucast b" "w = push_bit 32 (ucast c) OR ucast d"
    unfolding a_def b_def c_def d_def by (simp_all only: u64_from_halves)
  with eq show ?thesis by simp
qed

interpretation u64: codec read_u64 put_u64 8
  by unfold_locales (simp_all add: read_u64_ok read_u64_fault, rule put_u64_inject)

interpretation double: codec read_double put_u64 8
  by unfold_locales (simp_all add: read_double_def read_u64_ok read_u64_fault, rule put_u64_inject)

interpretation float: codec read_float put_u32 4
  by unfold_locales (simp_all add: read_float_def read_u32_ok read_u32_fault, rule put_u32_inject)

section \<open>Reading sequences of words\<close>

lemma length_2: "length xs = 2 \<Longrightarrow> \<exists>a b. xs = [a, b]"
  by (auto simp: numeral_eq_Suc length_Suc_conv)

lemma length_4: "length xs = 4 \<Longrightarrow> \<exists>a b c d. xs = [a, b, c, d]"
  by (auto simp: numeral_eq_Suc length_Suc_conv)

lemma length_6: "length xs = 6 \<Longrightarrow> \<exists>a b c d e f. xs = [a, b, c, d, e, f]"
  by (auto simp: numeral_eq_Suc length_Suc_conv)

lemma read_many_unfold:
  "read_many get (numeral k) r =
     bind_res (get r) (\<lambda>(x, r1). bind_res (read_many get (pred_numeral k) r1) (\<lambda>(xs, r2). Inr (x # xs, r2)))"
  by (simp add: numeral_eq_Suc)

lemma bind_res_pair_assoc:
  "bind_res (bind_res m (\<lambda>(x, r). k x r)) h = bind_res m (\<lambda>(x, r). bind_res (k x r) h)"
  by (cases m) auto

lemmas read_many_steps = read_many_unfold bind_res_pair_assoc

lemma take_take_drop: "xs = take a xs @ take b (drop a xs) @ drop (a + b) xs"
  by (metis append_take_drop_id drop_drop add.commute)

lemma whole_block_get:
  assumes "codec get put width" and "length params = width"
  shows "\<exists>x. get (reader_of params) = Inr (x, advance width (reader_of params)) \<and> params = put x"
  using codec.get_ok [OF assms(1), of "reader_of params"] assms(2) by simp

lemma whole_block_put:
  assumes "codec get put width"
  shows "get (reader_of (put x)) = Inr (x, advance width (reader_of (put x)))"
  by (rule codec.get_put [OF assms, where ys = "[]"]) simp

lemma put_u32_neq_Nil [simp]: "put_u32 a \<noteq> []"
  by (simp add: put_u32_def)

lemma put_u32_eq_iff: "put_u32 a = put_u32 b \<longleftrightarrow> a = b"
  by (auto intro: put_u32_inject)

lemma put_u32_append_inject: "put_u32 a @ xs = put_u32 b @ ys \<longleftrightarrow> a = b \<and> xs = ys"
  by (auto simp: append_eq_append_conv intro: put_u32_inject)

lemma take_eq_append_drop: "take n xs = ys \<Longrightarrow> xs = ys @ drop n xs"
  by (metis append_take_drop_id)

lemma read_u32_header:
  assumes "16 \<le> length (remaining_bytes r)"
  shows "\<exists>a b c d. read_u32 r = Inr (a, advance 4 r) \<and> read_u32 (advance 4 r) = Inr (b, advance 8 r) \<and>
    read_u32 (advance 8 r) = Inr (c, advance 12 r) \<and> read_u32 (advance 12 r) = Inr (d, advance 16 r) \<and>
    take 16 (remaining_bytes r) = put_u32 a @ put_u32 b @ put_u32 c @ put_u32 d"
proof -
  let ?m = "remaining_bytes r"
  have len: "4 \<le> length ?m" "4 \<le> length ?m - 4" "4 \<le> length ?m - 8" "4 \<le> length ?m - 12"
    using assms by arith+
  from u32.get_ok [of r] len obtain a where a: "read_u32 r = Inr (a, advance 4 r)"
    "take 4 ?m = put_u32 a" by auto
  from u32.get_ok [of "advance 4 r"] len obtain b where b: "read_u32 (advance 4 r) = Inr (b, advance 8 r)"
    "take 4 (drop 4 ?m) = put_u32 b" by auto
  from u32.get_ok [of "advance 8 r"] len obtain c where c: "read_u32 (advance 8 r) = Inr (c, advance 12 r)"
    "take 4 (drop 8 ?m) = put_u32 c" by auto
  from u32.get_ok [of "advance 12 r"] len obtain d where d: "read_u32 (advance 12 r) = Inr (d, advance 16 r)"
    "take 4 (drop 12 ?m) = put_u32 d" by auto
  have "take 16 ?m = take 4 ?m @ take 4 (drop 4 ?m) @ take 4 (drop 8 ?m) @ take 4 (drop 12 ?m)"
    using take_add [of 4 12 ?m] take_add [of 4 8 "drop 4 ?m"] take_add [of 4 4 "drop 8 ?m"] by simp
  with a b c d show ?thesis by auto
qed

end
