(* ===== verification/Float_Bits.thy ===== *)
theory Float_Bits
  imports Prelude
begin

text \<open>
  The tests the sources make on floating point values, on IEEE 754 bit patterns: \<open>std::isfinite\<close>, the
  NaN test and the comparison with zero.
\<close>

unbundle bit_operations_syntax

definition f64_exponent :: "f64 \<Rightarrow> f64" where
  "f64_exponent x = take_bit 11 (drop_bit 52 x)"

definition f64_mantissa :: "f64 \<Rightarrow> f64" where
  "f64_mantissa x = take_bit 52 x"

definition f64_isfinite :: "f64 \<Rightarrow> bool" where
  "f64_isfinite x \<longleftrightarrow> f64_exponent x \<noteq> mask 11"

definition f64_isnan :: "f64 \<Rightarrow> bool" where
  "f64_isnan x \<longleftrightarrow> f64_exponent x = mask 11 \<and> f64_mantissa x \<noteq> 0"

text \<open>\<open>x > 0.0\<close>: not a NaN, not a zero of either sign, and the sign bit is clear.\<close>

definition f64_positive :: "f64 \<Rightarrow> bool" where
  "f64_positive x \<longleftrightarrow> \<not> f64_isnan x \<and> \<not> bit x 63 \<and> take_bit 63 x \<noteq> 0"

section \<open>Single precision arithmetic\<close>

text \<open>
  A single is a finite value \<open>\<plusminus> m * 2 ^ e\<close>, an infinity or a NaN. The arithmetic the sources use rounds to
  nearest, ties to even, from the exact quotient of two integers.
\<close>

datatype f32_class = F32_Fin bool int int | F32_Inf bool | F32_NaN

definition f32_classify :: "f32 \<Rightarrow> f32_class" where
  "f32_classify w =
     (let s = bit w 31; e = uint (take_bit 8 (drop_bit 23 w)); m = uint (take_bit 23 w)
      in if e = 255 then if m = 0 then F32_Inf s else F32_NaN
         else if e = 0 then F32_Fin s m (- 149)
         else F32_Fin s (m + 2 ^ 23) (e - 150))"

function ilog2 :: "int \<Rightarrow> int" where
  "ilog2 n = (if n < 2 then 0 else 1 + ilog2 (n div 2))"
  by auto
termination by (relation "measure nat") auto

declare ilog2.simps [simp del]

text \<open>The largest \<open>e\<close> with \<open>2 ^ e \<le> n / d\<close>, and \<open>n / d * 2 ^ k\<close> as a fraction.\<close>

definition scale_frac :: "int \<Rightarrow> int \<Rightarrow> int \<Rightarrow> int \<times> int" where
  "scale_frac k n d = (if k \<ge> 0 then (n * 2 ^ nat k, d) else (n, d * 2 ^ nat (- k)))"

definition frac_log2 :: "int \<Rightarrow> int \<Rightarrow> int" where
  "frac_log2 n d =
     (let k = ilog2 n - ilog2 d; (a, b) = scale_frac (- k) n d
      in if b \<le> a then k else k - 1)"

definition round_half_even :: "int \<Rightarrow> int \<Rightarrow> int" where
  "round_half_even n d =
     (let q = n div d; r = n mod d in if 2 * r > d \<or> 2 * r = d \<and> odd q then q + 1 else q)"

definition f32_sign :: "bool \<Rightarrow> f32" where
  "f32_sign s = (if s then 0x80000000 else 0)"

definition f32_inf :: "bool \<Rightarrow> f32" where
  "f32_inf s = f32_sign s + 0x7F800000"

definition f32_nan :: f32 where
  "f32_nan = 0x7FC00000"

definition f32_round :: "bool \<Rightarrow> int \<Rightarrow> int \<Rightarrow> f32" where
  "f32_round s n d =
     (if n = 0 then f32_sign s
      else
        let e = max (- 126) (frac_log2 n d); (a, b) = scale_frac (23 - e) n d;
            bits = (e + 126) * 2 ^ 23 + round_half_even a b
        in if bits \<ge> 0x7F800000 then f32_inf s else f32_sign s + of_int bits)"

text \<open>The conversions from 32-bit integers, the product, the quotient, and the cast to an integer.\<close>

definition f32_of_u32 :: "u32 \<Rightarrow> f32" where
  "f32_of_u32 w = f32_round False (uint w) 1"

definition f32_of_i32 :: "int \<Rightarrow> f32" where
  "f32_of_i32 i = f32_round (i < 0) \<bar>i\<bar> 1"

definition f32_mul :: "f32 \<Rightarrow> f32 \<Rightarrow> f32" where
  "f32_mul x y =
     (case (f32_classify x, f32_classify y) of
        (F32_NaN, _) \<Rightarrow> f32_nan
      | (_, F32_NaN) \<Rightarrow> f32_nan
      | (F32_Inf s, F32_Inf t) \<Rightarrow> f32_inf (s \<noteq> t)
      | (F32_Inf s, F32_Fin t m e) \<Rightarrow> if m = 0 then f32_nan else f32_inf (s \<noteq> t)
      | (F32_Fin s m e, F32_Inf t) \<Rightarrow> if m = 0 then f32_nan else f32_inf (s \<noteq> t)
      | (F32_Fin s m e, F32_Fin t n f) \<Rightarrow>
          let (a, b) = scale_frac (e + f) (m * n) 1 in f32_round (s \<noteq> t) a b)"

definition f32_div :: "f32 \<Rightarrow> f32 \<Rightarrow> f32" where
  "f32_div x y =
     (case (f32_classify x, f32_classify y) of
        (F32_NaN, _) \<Rightarrow> f32_nan
      | (_, F32_NaN) \<Rightarrow> f32_nan
      | (F32_Inf s, F32_Inf t) \<Rightarrow> f32_nan
      | (F32_Inf s, F32_Fin t m e) \<Rightarrow> f32_inf (s \<noteq> t)
      | (F32_Fin s m e, F32_Inf t) \<Rightarrow> f32_sign (s \<noteq> t)
      | (F32_Fin s m e, F32_Fin t n f) \<Rightarrow>
          if n = 0 then if m = 0 then f32_nan else f32_inf (s \<noteq> t)
          else let (a, b) = scale_frac (e - f) m n in f32_round (s \<noteq> t) a b)"

text \<open>Truncation towards zero; \<open>None\<close> for what has no integer value.\<close>

definition f32_trunc :: "f32 \<Rightarrow> int option" where
  "f32_trunc x =
     (case f32_classify x of
        F32_Fin s m e \<Rightarrow> let (a, b) = scale_frac e m 1; n = a div b in Some (if s then - n else n)
      | F32_Inf _ \<Rightarrow> None | F32_NaN \<Rightarrow> None)"

definition f32_is_zero :: "f32 \<Rightarrow> bool" where
  "f32_is_zero x \<longleftrightarrow> take_bit 31 x = 0"

definition f32_isnan :: "f32 \<Rightarrow> bool" where
  "f32_isnan x \<longleftrightarrow> f32_classify x = F32_NaN"

definition f32_positive :: "f32 \<Rightarrow> bool" where
  "f32_positive x \<longleftrightarrow> \<not> f32_isnan x \<and> \<not> bit x 31 \<and> \<not> f32_is_zero x"

end
