(* ===== verification/Opcode_List2.thy ===== *)
theory Opcode_List2
  imports Byte_Reader Float_Bits Core_Types
begin

text \<open>
  The parser of the gain maps in the DNG tag OpcodeList2
  (\<open>include/cpipe/ingest/dng_opcode/OpcodeList2.hpp\<close>, \<open>src/cpipe/ingest/dng_opcode/OpcodeList2.cpp\<close>).
\<close>

section \<open>Data\<close>

text \<open>\<open>struct GainMap\<close>: the fields of the 76 byte header, and the table that follows it.\<close>

record gain_header =
  gm_top :: u32
  gm_left :: u32
  gm_bottom :: u32
  gm_right :: u32
  gm_plane :: u32
  gm_planes :: u32
  gm_row_pitch :: u32
  gm_col_pitch :: u32
  gm_map_points_v :: u32
  gm_map_points_h :: u32
  gm_map_spacing_v :: f64
  gm_map_spacing_h :: f64
  gm_map_origin_v :: f64
  gm_map_origin_h :: f64
  gm_map_planes :: u32

record gain_map = gain_header +
  gm_gain :: "f32 list"

record gain_map_result =
  gr_status :: status_code
  gr_gain_maps :: "gain_map list"
  gr_message :: string

definition kOpcodeGainMap :: u32 where "kOpcodeGainMap = 9"
definition kOpcodeHeaderBytes2 :: nat where "kOpcodeHeaderBytes2 = 16"
definition kGainMapHeaderBytes :: nat where "kGainMapHeaderBytes = 76"

section \<open>One gain map\<close>

definition checked_gain_count :: "'a gain_header_scheme \<Rightarrow> u64 option" where
  "checked_gain_count m =
     (let v = ucast (gm_map_points_v m); h = ucast (gm_map_points_h m); planes = ucast (gm_map_planes m)
      in if gm_map_points_v m = 0 \<or> gm_map_points_h m = 0 \<or> gm_map_planes m = 0 \<or> v > (- 1) div h
         then None
         else let vh = v * h
              in if vh > (- 1) div planes then None
                 else let total = vh * planes
                      in if unat total > size_max then None else Some total)"

definition valid_required_shape :: "'a gain_header_scheme \<Rightarrow> bool" where
  "valid_required_shape m \<longleftrightarrow>
     (gm_planes m = 1 \<or> gm_planes m = 4) \<and> gm_plane m < gm_planes m \<and> gm_map_planes m = 1 \<and>
     gm_row_pitch m > 0 \<and> gm_col_pitch m > 0 \<and> f64_isfinite (gm_map_spacing_v m) \<and>
     f64_isfinite (gm_map_spacing_h m) \<and> f64_positive (gm_map_spacing_v m) \<and>
     f64_positive (gm_map_spacing_h m) \<and> f64_isfinite (gm_map_origin_v m) \<and>
     f64_isfinite (gm_map_origin_h m)"

definition failed2 :: "string \<Rightarrow> gain_map_result" where
  "failed2 message = \<lparr>gr_status = Failed, gr_gain_maps = [], gr_message = message\<rparr>"

definition unsupported2 :: "string \<Rightarrow> gain_map_result" where
  "unsupported2 message = \<lparr>gr_status = Unsupported, gr_gain_maps = [], gr_message = message\<rparr>"

definition read_gain_header :: "reader \<Rightarrow> fault + gain_header \<times> reader" where
  "read_gain_header r =
     bind_res (read_u32 r) (\<lambda>(t, r).
     bind_res (read_u32 r) (\<lambda>(l, r).
     bind_res (read_u32 r) (\<lambda>(b, r).
     bind_res (read_u32 r) (\<lambda>(e, r).
     bind_res (read_u32 r) (\<lambda>(plane, r).
     bind_res (read_u32 r) (\<lambda>(planes, r).
     bind_res (read_u32 r) (\<lambda>(row_pitch, r).
     bind_res (read_u32 r) (\<lambda>(col_pitch, r).
     bind_res (read_u32 r) (\<lambda>(points_v, r).
     bind_res (read_u32 r) (\<lambda>(points_h, r).
     bind_res (read_double r) (\<lambda>(spacing_v, r).
     bind_res (read_double r) (\<lambda>(spacing_h, r).
     bind_res (read_double r) (\<lambda>(origin_v, r).
     bind_res (read_double r) (\<lambda>(origin_h, r).
     bind_res (read_u32 r) (\<lambda>(map_planes, r).
     Inr (\<lparr>gm_top = t, gm_left = l, gm_bottom = b, gm_right = e, gm_plane = plane, gm_planes = planes,
       gm_row_pitch = row_pitch, gm_col_pitch = col_pitch, gm_map_points_v = points_v,
       gm_map_points_h = points_h, gm_map_spacing_v = spacing_v, gm_map_spacing_h = spacing_h,
       gm_map_origin_v = origin_v, gm_map_origin_h = origin_h, gm_map_planes = map_planes\<rparr>, r))))))))))))))))"

text \<open>The result of the call and the vector of maps after it.\<close>

definition parse_gain_map :: "byte list \<Rightarrow> gain_map list \<Rightarrow> fault + gain_map_result \<times> gain_map list" where
  "parse_gain_map params maps =
     (if length params < kGainMapHeaderBytes then Inr (failed2 ''GainMap params truncated'', maps)
      else
        bind_res (read_gain_header (reader_of params)) (\<lambda>(m, r).
        case checked_gain_count m of
          None \<Rightarrow> Inr (failed2 ''GainMap size overflows'', maps)
        | Some gain_count \<Rightarrow>
            if unat gain_count > (size_max - kGainMapHeaderBytes) div 4
            then Inr (failed2 ''GainMap byte size overflows'', maps)
            else
              let expected_size = kGainMapHeaderBytes + unat gain_count * 4
              in if length params < expected_size
                 then Inr (failed2 ''GainMap gain table truncated'', maps)
                 else if \<not> valid_required_shape m
                 then Inr (unsupported2 ''GainMap shape is outside cpipe v1 support'', maps)
                 else
                   bind_res (read_many read_float (unat gain_count) r) (\<lambda>(gain, r).
                   Inr (\<lparr>gr_status = Ok, gr_gain_maps = [], gr_message = []\<rparr>,
                        maps @ [gain_header.extend m (gain_map.fields gain)]))))"

section \<open>The list\<close>

text \<open>One round of the loop: an early return of the function, or the maps and the moved reader.\<close>

definition parse_opcode2 :: "reader \<Rightarrow> gain_map list \<Rightarrow> fault + gain_map_result + gain_map list \<times> reader" where
  "parse_opcode2 r maps =
     (if \<not> can_read kOpcodeHeaderBytes2 r
      then Inr (Inl (failed2 ''OpcodeList2 opcode header truncated''))
      else
        bind_res (read_u32 r) (\<lambda>(opcode_id, r).
        bind_res (read_u32 r) (\<lambda>(_, r).
        bind_res (read_u32 r) (\<lambda>(_, r).
        bind_res (read_u32 r) (\<lambda>(param_size, r).
        if \<not> can_read (unat param_size) r
        then Inr (Inl (failed2 ''OpcodeList2 opcode params truncated''))
        else
          let params = take (unat param_size) (drop (rd_offset r) (rd_bytes r));
              r = r\<lparr>rd_offset := rd_offset r + unat param_size\<rparr>
          in if opcode_id \<noteq> kOpcodeGainMap then Inr (Inr (maps, r))
             else
               bind_res (parse_gain_map params maps) (\<lambda>(parsed, maps).
               if gr_status parsed \<noteq> Ok then Inr (Inl parsed) else Inr (Inr (maps, r))))))))"

fun parse_opcodes2 :: "nat \<Rightarrow> reader \<Rightarrow> gain_map list \<Rightarrow> fault + gain_map_result" where
  "parse_opcodes2 0 r maps = Inr \<lparr>gr_status = Ok, gr_gain_maps = maps, gr_message = []\<rparr>"
| "parse_opcodes2 (Suc n) r maps =
     bind_res (parse_opcode2 r maps) (\<lambda>res.
     case res of Inl result \<Rightarrow> Inr result | Inr (maps, r) \<Rightarrow> parse_opcodes2 n r maps)"

definition parse_gain_maps :: "byte list \<Rightarrow> fault + gain_map_result" where
  "parse_gain_maps bytes =
     (if bytes = [] then Inr \<lparr>gr_status = Ok, gr_gain_maps = [], gr_message = []\<rparr>
      else if \<not> can_read 4 (reader_of bytes) then Inr (failed2 ''OpcodeList2 count truncated'')
      else
        bind_res (read_u32 (reader_of bytes)) (\<lambda>(count, r). parse_opcodes2 (unat count) r []))"

section \<open>The encoding\<close>

definition put_gain_header :: "'a gain_header_scheme \<Rightarrow> byte list" where
  "put_gain_header m =
     concat (map put_u32 [gm_top m, gm_left m, gm_bottom m, gm_right m, gm_plane m, gm_planes m,
       gm_row_pitch m, gm_col_pitch m, gm_map_points_v m, gm_map_points_h m]) @
     concat (map put_u64 [gm_map_spacing_v m, gm_map_spacing_h m, gm_map_origin_v m, gm_map_origin_h m]) @
     put_u32 (gm_map_planes m)"

definition put_gain_map :: "gain_map \<Rightarrow> byte list" where
  "put_gain_map m = put_gain_header m @ concat (map put_u32 (gm_gain m))"

text \<open>A gain map in the supported shape, with a table of the size its header gives.\<close>

definition gain_map_wf :: "gain_map \<Rightarrow> bool" where
  "gain_map_wf m \<longleftrightarrow> valid_required_shape m \<and> gm_gain m \<noteq> [] \<and>
     length (gm_gain m) = unat (gm_map_points_v m) * unat (gm_map_points_h m)"

record raw_opcode =
  ro_id :: u32
  ro_dng_version :: u32
  ro_flags :: u32
  ro_params :: "byte list"

definition put_raw_opcode :: "raw_opcode \<Rightarrow> byte list" where
  "put_raw_opcode op = put_u32 (ro_id op) @ put_u32 (ro_dng_version op) @ put_u32 (ro_flags op) @
     put_u32 (of_nat (length (ro_params op))) @ ro_params op"

text \<open>The map an opcode carries: none unless it is a gain map opcode, whose block may have a tail.\<close>

definition carries :: "raw_opcode \<Rightarrow> gain_map option \<Rightarrow> bool" where
  "carries op m \<longleftrightarrow> length (ro_params op) < 2 ^ 32 \<and>
     (case m of None \<Rightarrow> ro_id op \<noteq> kOpcodeGainMap
      | Some g \<Rightarrow> ro_id op = kOpcodeGainMap \<and> gain_map_wf g \<and> (\<exists>tail. ro_params op = put_gain_map g @ tail))"

section \<open>The header is a codec\<close>

definition header_words :: "gain_header \<Rightarrow> u32 list" where
  "header_words m = [gm_top m, gm_left m, gm_bottom m, gm_right m, gm_plane m, gm_planes m,
     gm_row_pitch m, gm_col_pitch m, gm_map_points_v m, gm_map_points_h m,
     ucast (drop_bit 32 (gm_map_spacing_v m)), ucast (gm_map_spacing_v m),
     ucast (drop_bit 32 (gm_map_spacing_h m)), ucast (gm_map_spacing_h m),
     ucast (drop_bit 32 (gm_map_origin_v m)), ucast (gm_map_origin_v m),
     ucast (drop_bit 32 (gm_map_origin_h m)), ucast (gm_map_origin_h m), gm_map_planes m]"

definition header_of_words :: "u32 list \<Rightarrow> gain_header" where
  "header_of_words xs = \<lparr>gm_top = xs ! 0, gm_left = xs ! 1, gm_bottom = xs ! 2, gm_right = xs ! 3,
     gm_plane = xs ! 4, gm_planes = xs ! 5, gm_row_pitch = xs ! 6, gm_col_pitch = xs ! 7,
     gm_map_points_v = xs ! 8, gm_map_points_h = xs ! 9,
     gm_map_spacing_v = or (push_bit 32 (ucast (xs ! 10))) (ucast (xs ! 11)),
     gm_map_spacing_h = or (push_bit 32 (ucast (xs ! 12))) (ucast (xs ! 13)),
     gm_map_origin_v = or (push_bit 32 (ucast (xs ! 14))) (ucast (xs ! 15)),
     gm_map_origin_h = or (push_bit 32 (ucast (xs ! 16))) (ucast (xs ! 17)), gm_map_planes = xs ! 18\<rparr>"

lemma length_19: "length xs = 19 \<Longrightarrow> \<exists>a b c d e f g h i j k l m n p q s t u.
    xs = [a, b, c, d, e, f, g, h, i, j, k, l, m, n, p, q, s, t, u]"
  by (auto simp: numeral_eq_Suc length_Suc_conv)

interpretation header: codec read_gain_header put_gain_header 76
proof -
  have "codec read_gain_header (\<lambda>m. concat (map put_u32 (header_words m))) (19 * 4)"
  proof (rule u32.record_codec [where mk = header_of_words])
    show "read_gain_header r = bind_res (read_many read_u32 19 r) (\<lambda>(xs, r'). Inr (header_of_words xs, r'))" for r
      by (simp add: read_gain_header_def read_double_def read_u64_def read_many_steps header_of_words_def)
    show "header_words (header_of_words xs) = xs" if "length xs = 19" for xs
      using length_19 [OF that] by (elim exE) (simp add: header_words_def header_of_words_def halves_of_u64 del: drop_bit_or)
    show "header_of_words (header_words m) = m" for m
      by (simp add: header_words_def header_of_words_def u64_from_halves)
    show "length (header_words m) = 19" for m by (simp add: header_words_def)
  qed
  moreover have "put_gain_header = (\<lambda>m. concat (map put_u32 (header_words m)))"
    by (rule ext) (simp add: put_gain_header_def header_words_def put_u64_def)
  ultimately show "codec read_gain_header put_gain_header 76" by simp
qed

section \<open>Gain maps\<close>

text \<open>The element count is exact: no product wraps.\<close>

lemma unat_max_div: "unat ((- 1 :: u64) div w) = (2 ^ 64 - 1) div unat w"
  by (simp add: unat_div_distrib unsigned_minus_1_eq_mask mask_eq_exp_minus_1)

lemma unat_le_size_max: "unat (t :: u64) \<le> size_max"
proof -
  have "unat t < 2 ^ LENGTH(64)" by (rule unsigned_less)
  then show ?thesis by (simp add: size_max_def)
qed

lemma checked_gain_count_Some:
  assumes "checked_gain_count m = Some t"
  shows "unat t = unat (gm_map_points_v m) * unat (gm_map_points_h m) * unat (gm_map_planes m) \<and> unat t \<noteq> 0"
proof -
  define v h p :: u64 where "v = ucast (gm_map_points_v m)" and "h = ucast (gm_map_points_h m)"
    and "p = ucast (gm_map_planes m)"
  note u = v_def h_def p_def
  have nz: "gm_map_points_v m \<noteq> 0" "gm_map_points_h m \<noteq> 0" "gm_map_planes m \<noteq> 0"
    and a: "unat v \<le> (2 ^ 64 - 1) div unat h" and b: "unat (v * h) \<le> (2 ^ 64 - 1) div unat p"
    and t: "t = v * h * p"
    using assms
    by (auto simp: checked_gain_count_def Let_def u word_le_nat_alt not_less unat_max_div split: if_splits)
  have pos: "0 < unat v" "0 < unat h" "0 < unat p" using nz by (simp_all add: u unat_gt_0)
  have "unat v * unat h \<le> 2 ^ 64 - 1" using a pos by (simp add: less_eq_div_iff_mult_less_eq)
  then have vh: "unat (v * h) = unat v * unat h" by (simp add: unat_word_ariths)
  with b pos have "unat v * unat h * unat p \<le> 2 ^ 64 - 1" by (simp add: less_eq_div_iff_mult_less_eq)
  then have "unat t = unat v * unat h * unat p" unfolding t by (simp add: unat_word_ariths(2) [of "v * h"] vh)
  with pos show ?thesis by (auto simp: u)
qed

lemma checked_gain_count_one_plane:
  assumes "gm_map_planes m = 1" and "unat (gm_map_points_v m) * unat (gm_map_points_h m) \<noteq> 0"
  shows "\<exists>t. checked_gain_count m = Some t"
proof -
  define v h :: u64 where "v = ucast (gm_map_points_v m)" and "h = ucast (gm_map_points_h m)"
  have "unat v < 2 ^ 32" "unat h < 2 ^ 32"
    using unsigned_less [of "gm_map_points_v m"] unsigned_less [of "gm_map_points_h m"] by (simp_all add: v_def h_def)
  moreover have "0 < unat h" using assms(2) by (simp add: h_def unat_gt_0)
  ultimately have "unat v \<le> (2 ^ 64 - 1) div unat h"
    by (simp add: less_eq_div_iff_mult_less_eq) (use mult_strict_mono' [of "unat v" "2 ^ 32" "unat h" "2 ^ 32"] in simp)
  then have "\<not> v > (- 1) div h" by (simp add: word_le_nat_alt not_less unat_max_div)
  moreover have "\<not> v * h > (- 1) div 1" by (simp add: not_less)
  moreover have "gm_map_points_v m \<noteq> 0" "gm_map_points_h m \<noteq> 0" using assms(2) by auto
  ultimately show ?thesis
    by (simp add: checked_gain_count_def Let_def v_def h_def assms(1) unat_le_size_max [THEN leD])
qed

lemma shape_planes: "valid_required_shape m \<Longrightarrow> gm_map_planes m = 1"
  by (simp add: valid_required_shape_def)

lemma put_gain_header_truncate: "put_gain_header (gain_header.truncate m) = put_gain_header m"
  by (simp add: put_gain_header_def gain_header.defs)

lemma header_fields_extend:
  "gain_header.truncate m = h \<Longrightarrow> checked_gain_count m = checked_gain_count h \<and>
     (valid_required_shape m \<longleftrightarrow> valid_required_shape h) \<and> gm_map_points_v m = gm_map_points_v h \<and>
     gm_map_points_h m = gm_map_points_h h \<and> gm_map_planes m = gm_map_planes h"
  by (auto simp: gain_header.defs checked_gain_count_def valid_required_shape_def)

lemma gain_map_extend:
  "gain_header.truncate (gain_header.extend h (gain_map.fields gs)) = (h :: gain_header)"
  "gm_gain (gain_header.extend h (gain_map.fields gs)) = gs"
  by (simp_all add: gain_header.defs gain_map.defs)

lemma length_put_gain_header [simp]: "length (put_gain_header m) = 76"
  by (simp add: put_gain_header_def)

lemma parse_gain_map_short:
  "length params < 76 \<Longrightarrow> parse_gain_map params maps = Inr (failed2 ''GainMap params truncated'', maps)"
  by (simp add: parse_gain_map_def kGainMapHeaderBytes_def)

lemma put_gain_map_split:
  assumes "take 76 params = put_gain_header h"
  shows "params = put_gain_map g @ tail \<longleftrightarrow>
    gain_header.truncate g = h \<and> drop 76 params = concat (map put_u32 (gm_gain g)) @ tail"
proof -
  have "params = put_gain_header h @ drop 76 params" by (rule take_eq_append_drop [OF assms])
  then have "params = put_gain_map g @ tail \<longleftrightarrow>
      put_gain_header h @ drop 76 params = put_gain_header g @ concat (map put_u32 (gm_gain g)) @ tail"
    by (simp add: put_gain_map_def)
  also have "\<dots> \<longleftrightarrow> put_gain_header h = put_gain_header (gain_header.truncate g) \<and>
      drop 76 params = concat (map put_u32 (gm_gain g)) @ tail"
    by (subst append_eq_append_conv) (simp_all add: put_gain_header_truncate)
  finally show ?thesis using header.put_inject by blast
qed

lemma parse_gain_map_cases:
  assumes "length params < 2 ^ 32"
  shows "(\<exists>g tail. gain_map_wf g \<and> params = put_gain_map g @ tail \<and>
      parse_gain_map params maps = Inr (\<lparr>gr_status = Ok, gr_gain_maps = [], gr_message = []\<rparr>, maps @ [g])) \<or>
    (\<exists>res. parse_gain_map params maps = Inr (res, maps) \<and> gr_status res \<noteq> Ok \<and>
      \<not> (\<exists>g tail. gain_map_wf g \<and> params = put_gain_map g @ tail))"
  (is "?good \<or> (\<exists>res. parse_gain_map params maps = Inr (res, maps) \<and> _ \<and> \<not> ?enc)")
proof (cases "length params < 76")
  case True
  then show ?thesis by (auto simp: parse_gain_map_short failed2_def put_gain_map_def)
next
  case False
  let ?r = "reader_of params"
  from False header.get_ok [of ?r] obtain h where h: "read_gain_header ?r = Inr (h, advance 76 ?r)"
    "take 76 params = put_gain_header h" by auto
  note split = put_gain_map_split [OF h(2)]
  have enc: "checked_gain_count h \<noteq> None \<and> valid_required_shape h \<and>
      76 + 4 * (unat (gm_map_points_v h) * unat (gm_map_points_h h)) \<le> length params" if ?enc
  proof -
    from that obtain g tail where g: "gain_map_wf g" "gain_header.truncate g = h"
      "drop 76 params = concat (map put_u32 (gm_gain g)) @ tail" using split by blast
    from arg_cong [OF g(3), of length] have "76 + 4 * length (gm_gain g) \<le> length params"
      using False by (simp add: u32.length_concat_put)
    moreover have wf: "valid_required_shape g"
      "length (gm_gain g) = unat (gm_map_points_v g) * unat (gm_map_points_h g)" "gm_gain g \<noteq> []"
      using g(1) by (simp_all add: gain_map_wf_def)
    then have "unat (gm_map_points_v g) * unat (gm_map_points_h g) \<noteq> 0" by (metis length_0_conv)
    then have "\<exists>t. checked_gain_count g = Some t"
      using wf(1) by (intro checked_gain_count_one_plane shape_planes)
    ultimately show ?thesis using header_fields_extend [OF g(2)] wf by auto
  qed
  show ?thesis
  proof (cases "checked_gain_count h")
    case None
    with False h enc show ?thesis by (auto simp: parse_gain_map_def kGainMapHeaderBytes_def failed2_def)
  next
    case (Some t)
    note t = checked_gain_count_Some [OF Some]
    consider "length params < 76 + unat t * 4" | "76 + unat t * 4 \<le> length params" "\<not> valid_required_shape h"
      | (ok) "76 + unat t * 4 \<le> length params" "valid_required_shape h" by linarith
    then show ?thesis
    proof cases
      case 1
      have no: "\<not> ?enc"
      proof
        assume ?enc
        from enc [OF this] 1 t shape_planes [of h] show False by simp
      qed
      have "\<exists>res. parse_gain_map params maps = Inr (res, maps) \<and> gr_status res \<noteq> Ok" using False h(1) Some 1
        by (auto simp: parse_gain_map_def kGainMapHeaderBytes_def failed2_def Let_def)
      with no show ?thesis by blast
    next
      case 2
      have "\<not> unat t > (size_max - 76) div 4" using assms 2 by (simp add: size_max_def)
      with False h Some 2 enc show ?thesis
        by (auto simp: parse_gain_map_def kGainMapHeaderBytes_def unsupported2_def Let_def)
    next
      case ok
      have small: "\<not> unat t > (size_max - 76) div 4" using assms ok by (simp add: size_max_def)
      have "unat t * 4 \<le> length params - 76" using ok(1) by arith
      with float.read_many_ok [of "unat t" "advance 76 ?r"] obtain gs where gs:
        "read_many read_float (unat t) (advance 76 ?r) = Inr (gs, advance (76 + unat t * 4) ?r)"
        "length gs = unat t" "take (unat t * 4) (drop 76 params) = concat (map put_u32 gs)" by auto
      define g where "g = gain_header.extend h (gain_map.fields gs)"
      have g: "gain_header.truncate g = h" "gm_gain g = gs" by (simp_all add: g_def gain_map_extend)
      have "params = put_gain_map g @ drop (unat t * 4) (drop 76 params)"
        unfolding split g gs(3) [symmetric] by (simp del: drop_drop)
      moreover have "gain_map_wf g" using header_fields_extend [OF g(1)] g(2) gs(2) t ok(2)
        by (auto simp: gain_map_wf_def dest: shape_planes)
      moreover have "parse_gain_map params maps =
          Inr (\<lparr>gr_status = Ok, gr_gain_maps = [], gr_message = []\<rparr>, maps @ [g])"
        using False h Some ok small gs(1) by (simp add: parse_gain_map_def kGainMapHeaderBytes_def g_def)
      ultimately show ?thesis by blast
    qed
  qed
qed

section \<open>The loop\<close>

lemma parse_opcode2_short:
  assumes "rd_offset r \<le> length (rd_bytes r)" and "length (remaining_bytes r) < 16"
  shows "parse_opcode2 r maps = Inr (Inl (failed2 ''OpcodeList2 opcode header truncated''))"
  using assms by (simp add: parse_opcode2_def can_read_remaining kOpcodeHeaderBytes2_def)

lemma length_put_raw_opcode: "length (put_raw_opcode op) = 16 + length (ro_params op)"
  by (simp add: put_raw_opcode_def)

lemma parse_opcode2_header:
  assumes "rd_offset r \<le> length (rd_bytes r)" and "16 \<le> length (remaining_bytes r)"
  shows "\<exists>a b c d. take 16 (remaining_bytes r) = put_u32 a @ put_u32 b @ put_u32 c @ put_u32 d \<and>
    parse_opcode2 r maps =
     (if length (remaining_bytes r) < 16 + unat d
      then Inr (Inl (failed2 ''OpcodeList2 opcode params truncated''))
      else if a \<noteq> kOpcodeGainMap then Inr (Inr (maps, advance (16 + unat d) r))
      else bind_res (parse_gain_map (take (unat d) (drop 16 (remaining_bytes r))) maps)
        (\<lambda>(parsed, maps). if gr_status parsed \<noteq> Ok then Inr (Inl parsed)
           else Inr (Inr (maps, advance (16 + unat d) r))))"
proof -
  from read_u32_header [OF assms(2)] obtain a b c d where
    h: "read_u32 r = Inr (a, advance 4 r)" "read_u32 (advance 4 r) = Inr (b, advance 8 r)"
    "read_u32 (advance 8 r) = Inr (c, advance 12 r)" "read_u32 (advance 12 r) = Inr (d, advance 16 r)"
    and t: "take 16 (remaining_bytes r) = put_u32 a @ put_u32 b @ put_u32 c @ put_u32 d" by blast
  have g: "can_read kOpcodeHeaderBytes2 r" using assms by (simp add: can_read_remaining kOpcodeHeaderBytes2_def)
  have p: "can_read (unat d) (advance 16 r) \<longleftrightarrow> \<not> length (remaining_bytes r) < 16 + unat d"
    using assms by (subst can_read_remaining) (auto simp: remaining_bytes_def)
  have x: "drop (rd_offset r + 16) (rd_bytes r) = drop 16 (remaining_bytes r)"
    by (simp add: remaining_bytes_def add.commute)
  have y: "(advance 16 r)\<lparr>rd_offset := rd_offset r + 16 + unat d\<rparr> = advance (16 + unat d) r"
    by (simp add: advance_def)
  show ?thesis
    by (rule exI [of _ a], rule exI [of _ b], rule exI [of _ c], rule exI [of _ d])
       (simp add: parse_opcode2_def g h p x y t cong: if_cong)
qed

text \<open>
  A round of the loop either passes over an encoded opcode and collects the map it carries, or stops
  because no such opcode is there.
\<close>

lemma parse_opcode2_cases:
  assumes off: "rd_offset r \<le> length (rd_bytes r)"
  shows "(\<exists>op m ys. carries op m \<and> remaining_bytes r = put_raw_opcode op @ ys \<and>
      parse_opcode2 r maps = Inr (Inr (maps @ (case m of None \<Rightarrow> [] | Some g \<Rightarrow> [g]),
        advance (length (put_raw_opcode op)) r))) \<or>
    (\<exists>res. parse_opcode2 r maps = Inr (Inl res) \<and> gr_status res \<noteq> Ok \<and>
      \<not> (\<exists>op m ys. carries op m \<and> remaining_bytes r = put_raw_opcode op @ ys))"
  (is "_ \<or> (\<exists>res. _ \<and> _ \<and> \<not> ?enc)")
proof (cases "length (remaining_bytes r) < 16")
  case True
  then show ?thesis using off by (auto simp: parse_opcode2_short failed2_def length_put_raw_opcode)
next
  case False
  let ?m = "remaining_bytes r"
  from False have "16 \<le> length ?m" by simp
  from parse_opcode2_header [OF off this, of maps] obtain a b c d where
    t: "take 16 ?m = put_u32 a @ put_u32 b @ put_u32 c @ put_u32 d" and
    eq: "parse_opcode2 r maps = (if length ?m < 16 + unat d
      then Inr (Inl (failed2 ''OpcodeList2 opcode params truncated''))
      else if a \<noteq> kOpcodeGainMap then Inr (Inr (maps, advance (16 + unat d) r))
      else bind_res (parse_gain_map (take (unat d) (drop 16 ?m)) maps)
        (\<lambda>(parsed, maps). if gr_status parsed \<noteq> Ok then Inr (Inl parsed)
           else Inr (Inr (maps, advance (16 + unat d) r))))" by blast
  define op where "op = \<lparr>ro_id = a, ro_dng_version = b, ro_flags = c, ro_params = take (unat d) (drop 16 ?m)\<rparr>"
  have m: "?m = put_u32 a @ put_u32 b @ put_u32 c @ put_u32 d @ drop 16 ?m"
    using take_eq_append_drop [OF t] by simp
  have unique: "op' = op \<and> 16 + unat d \<le> length ?m"
    if "carries op' k" and eq': "?m = put_raw_opcode op' @ ys" for op' k ys
  proof -
    from m eq' have f: "a = ro_id op'" "b = ro_dng_version op'" "c = ro_flags op'"
      "d = of_nat (length (ro_params op'))" "drop 16 ?m = ro_params op' @ ys"
      by (simp_all add: put_raw_opcode_def put_u32_append_inject put_u32_eq_iff)
    moreover have "unat d = length (ro_params op')" using f(4) that(1) by (simp add: carries_def unat_of_nat)
    ultimately show ?thesis using eq' by (simp add: op_def length_put_raw_opcode)
  qed
  show ?thesis
  proof (cases "length ?m < 16 + unat d")
    case True
    with unique show ?thesis by (fastforce simp: eq failed2_def)
  next
    case len: False
    then have plen: "length (ro_params op) = unat d" by (simp add: op_def)
    then have small: "length (ro_params op) < 2 ^ 32" using unsigned_less [of d] by simp
    have put: "?m = put_raw_opcode op @ drop (unat d) (drop 16 ?m)"
      using m append_take_drop_id [of "unat d" "drop 16 ?m"] plen
      by (simp add: put_raw_opcode_def) (simp add: op_def)
    have adv: "16 + unat d = length (put_raw_opcode op)" by (simp add: length_put_raw_opcode plen)
    show ?thesis
    proof (cases "a = kOpcodeGainMap")
      case False
      then have "carries op None" using small by (simp add: carries_def op_def)
      with put len False show ?thesis unfolding eq adv [symmetric]
        by (intro disjI1 exI [of _ op] exI [of _ None]) (auto simp: length_put_raw_opcode plen)
    next
      case True
      have params: "ro_params op = take (unat d) (drop 16 ?m)" by (simp add: op_def)
      from parse_gain_map_cases [OF small, of maps] show ?thesis
      proof (elim disjE exE conjE)
        fix g tail assume "gain_map_wf g" "ro_params op = put_gain_map g @ tail"
          and run: "parse_gain_map (ro_params op) maps = Inr (\<lparr>gr_status = Ok, gr_gain_maps = [], gr_message = []\<rparr>, maps @ [g])"
        then have "carries op (Some g)" using small True by (auto simp: carries_def op_def)
        with put len True run show ?thesis unfolding eq params [symmetric] adv [symmetric]
          by (intro disjI1 exI [of _ op] exI [of _ "Some g"]) (auto simp: length_put_raw_opcode plen)
      next
        fix res assume run: "parse_gain_map (ro_params op) maps = Inr (res, maps)" "gr_status res \<noteq> Ok"
          and no: "\<nexists>g tail. gain_map_wf g \<and> ro_params op = put_gain_map g @ tail"
        have "\<not> carries op k" for k using no True by (auto simp: carries_def op_def split: option.splits)
        with unique have "\<not> ?enc" by blast
        with len True run show ?thesis unfolding eq params [symmetric] by simp
      qed
    qed
  qed
qed

lemma put_gain_map_unique:
  assumes wf: "gain_map_wf g" "gain_map_wf g'" and eq: "put_gain_map g @ t = put_gain_map g' @ t'"
  shows "g = g'"
proof -
  from eq have "put_gain_header g = put_gain_header g'"
    and gs: "concat (map put_u32 (gm_gain g)) @ t = concat (map put_u32 (gm_gain g')) @ t'"
    by (simp_all add: put_gain_map_def append_eq_append_conv)
  then have tr: "gain_header.truncate g = gain_header.truncate g'"
    by (metis put_gain_header_truncate header.put_inject)
  then have len: "length (gm_gain g) = length (gm_gain g')"
    using wf header_fields_extend [OF refl, of g] header_fields_extend [OF refl, of g'] by (simp add: gain_map_wf_def)
  let ?r = "reader_of (concat (map put_u32 (gm_gain g)) @ t)"
  have "read_many read_float (length (gm_gain g)) ?r = Inr (gm_gain g, advance (length (gm_gain g) * 4) ?r)"
    by (rule float.read_many_put) simp
  moreover have "read_many read_float (length (gm_gain g')) ?r = Inr (gm_gain g', advance (length (gm_gain g') * 4) ?r)"
    by (rule float.read_many_put) (simp only: remaining_reader_of gs)
  ultimately have "gm_gain g = gm_gain g'" unfolding len by (metis sum.inject(2) prod.inject)
  moreover have "m = gain_header.extend (gain_header.truncate m) (gain_map.fields (gm_gain m))" for m :: gain_map
    by (cases m) (simp add: gain_header.defs gain_map.defs)
  ultimately show ?thesis using tr by metis
qed

lemma carries_unique: "carries op m \<Longrightarrow> carries op m' \<Longrightarrow> m = m'"
  by (auto simp: carries_def split: option.splits intro: put_gain_map_unique)

lemma of_nat_u32_inject:
  assumes "m < 2 ^ 32" "n < 2 ^ 32" "of_nat m = (of_nat n :: u32)"
  shows "m = n"
proof -
  have "unat (of_nat m :: u32) = unat (of_nat n :: u32)" using assms(3) by (rule arg_cong)
  then show ?thesis using assms(1,2) by (simp add: unat_of_nat)
qed

lemma put_raw_opcode_unique:
  assumes "carries op m" "carries op' m'" and eq: "put_raw_opcode op @ ys = put_raw_opcode op' @ zs"
  shows "op = op' \<and> ys = zs"
proof -
  have "length (ro_params op) < 2 ^ 32" "length (ro_params op') < 2 ^ 32"
    using assms(1,2) by (simp_all add: carries_def)
  moreover from eq have f: "ro_id op = ro_id op'" "ro_dng_version op = ro_dng_version op'"
      "ro_flags op = ro_flags op'" "of_nat (length (ro_params op)) = (of_nat (length (ro_params op')) :: u32)"
      "ro_params op @ ys = ro_params op' @ zs"
    by (simp_all add: put_raw_opcode_def put_u32_append_inject)
  ultimately have "length (ro_params op) = length (ro_params op')" using of_nat_u32_inject by blast
  with f show ?thesis by (simp add: append_eq_append_conv)
qed

lemma put_raw_opcodes_unique:
  assumes "list_all2 carries ops ms" "list_all2 carries ops' ms'" "length ops = length ops'"
    and "concat (map put_raw_opcode ops) @ ys = concat (map put_raw_opcode ops') @ zs"
  shows "ms = ms'"
  using assms(3,1,2,4)
proof (induction ops ops' arbitrary: ms ms' rule: list_induct2)
  case (Cons op ops op' ops')
  from Cons.prems obtain m ns m' ns' where c: "ms = m # ns" "ms' = m' # ns'" "carries op m" "carries op' m'"
    "list_all2 carries ops ns" "list_all2 carries ops' ns'" by (auto simp: list_all2_Cons1)
  with Cons.prems(3) put_raw_opcode_unique [OF c(3,4)] have
    "op = op'" "concat (map put_raw_opcode ops) @ ys = concat (map put_raw_opcode ops') @ zs" by auto
  with Cons.IH [OF c(5,6)] c carries_unique show ?case by auto
qed auto

definition collected :: "gain_map option list \<Rightarrow> gain_map list" where
  "collected ms = concat (map (\<lambda>m. case m of None \<Rightarrow> [] | Some g \<Rightarrow> [g]) ms)"

lemma parse_opcodes2_cases:
  "rd_offset r \<le> length (rd_bytes r) \<Longrightarrow>
   (\<exists>ops ms ys. length ops = n \<and> list_all2 carries ops ms \<and>
      remaining_bytes r = concat (map put_raw_opcode ops) @ ys \<and>
      parse_opcodes2 n r maps = Inr \<lparr>gr_status = Ok, gr_gain_maps = maps @ collected ms, gr_message = []\<rparr>) \<or>
   (\<exists>res. parse_opcodes2 n r maps = Inr res \<and> gr_status res \<noteq> Ok \<and>
      \<not> (\<exists>ops ms ys. length ops = n \<and> list_all2 carries ops ms \<and>
           remaining_bytes r = concat (map put_raw_opcode ops) @ ys))"
proof (induction n arbitrary: r maps)
  case 0
  show ?case by (rule disjI1) (simp add: collected_def)
next
  case (Suc n)
  note off = Suc.prems
  have cons: "\<exists>op ops' m ms'. ops = op # ops' \<and> length ops' = n \<and> carries op m \<and> list_all2 carries ops' ms' \<and>
      remaining_bytes r = put_raw_opcode op @ concat (map put_raw_opcode ops') @ ys"
    if "length ops = Suc n \<and> list_all2 carries ops ms \<and> remaining_bytes r = concat (map put_raw_opcode ops) @ ys"
    for ops ms ys using that by (auto simp: length_Suc_conv list_all2_Cons1)
  from parse_opcode2_cases [OF off, of maps] show ?case
  proof (elim disjE exE conjE)
    fix op m ys assume op: "carries op m" "remaining_bytes r = put_raw_opcode op @ ys"
      and run: "parse_opcode2 r maps = Inr (Inr (maps @ (case m of None \<Rightarrow> [] | Some g \<Rightarrow> [g]),
        advance (length (put_raw_opcode op)) r))"
    let ?r = "advance (length (put_raw_opcode op)) r"
    have "length (rd_bytes r) - rd_offset r = length (put_raw_opcode op) + length ys"
      using arg_cong [OF op(2), of length] by (simp add: remaining_bytes_def)
    then have "rd_offset ?r \<le> length (rd_bytes ?r)" using off by simp
    note IH = Suc.IH [OF this, of "maps @ (case m of None \<Rightarrow> [] | Some g \<Rightarrow> [g])"]
    have ys: "remaining_bytes ?r = ys" using op(2) by simp
    have next_eq: "parse_opcodes2 (Suc n) r maps =
        parse_opcodes2 n ?r (maps @ (case m of None \<Rightarrow> [] | Some g \<Rightarrow> [g]))" using run by simp
    have same: "zs = ys" if "carries op' k" "remaining_bytes r = put_raw_opcode op' @ zs" for op' k zs
      using put_raw_opcode_unique [OF op(1) that(1), of ys zs] op(2) that(2) by simp
    from IH show ?thesis
    proof (elim disjE exE conjE)
      fix ops ms zs assume "length ops = n" "list_all2 carries ops ms"
        "remaining_bytes ?r = concat (map put_raw_opcode ops) @ zs"
        "parse_opcodes2 n ?r (maps @ (case m of None \<Rightarrow> [] | Some g \<Rightarrow> [g])) =
          Inr \<lparr>gr_status = Ok, gr_gain_maps = (maps @ (case m of None \<Rightarrow> [] | Some g \<Rightarrow> [g])) @ collected ms,
               gr_message = []\<rparr>"
      with op ys next_eq show ?thesis
        by (intro disjI1 exI [of _ "op # ops"] exI [of _ "m # ms"] exI [of _ zs]) (simp add: collected_def)
    next
      fix res assume "parse_opcodes2 n ?r (maps @ (case m of None \<Rightarrow> [] | Some g \<Rightarrow> [g])) = Inr res" "gr_status res \<noteq> Ok"
        and no: "\<nexists>ops ms zs. length ops = n \<and> list_all2 carries ops ms \<and>
          remaining_bytes ?r = concat (map put_raw_opcode ops) @ zs"
      moreover have "\<nexists>ops ms zs. length ops = Suc n \<and> list_all2 carries ops ms \<and>
          remaining_bytes r = concat (map put_raw_opcode ops) @ zs"
        using cons same no ys by metis
      ultimately show ?thesis using next_eq by simp
    qed
  next
    fix res assume "parse_opcode2 r maps = Inr (Inl res)" "gr_status res \<noteq> Ok"
      and "\<nexists>op m ys. carries op m \<and> remaining_bytes r = put_raw_opcode op @ ys"
    moreover from this have "\<nexists>ops ms ys. length ops = Suc n \<and> list_all2 carries ops ms \<and>
        remaining_bytes r = concat (map put_raw_opcode ops) @ ys" using cons by metis
    ultimately show ?thesis by simp
  qed
qed

lemma parse_gain_maps_count:
  assumes "4 \<le> length bytes"
  obtains count :: u32 where "parse_gain_maps bytes = parse_opcodes2 (unat count) (advance 4 (reader_of bytes)) []"
    and "\<And>ops ys. (length ops = unat count \<and> drop 4 bytes = concat (map put_raw_opcode ops) @ ys) \<longleftrightarrow>
      (bytes = put_u32 (of_nat (length ops)) @ concat (map put_raw_opcode ops) @ ys \<and> length ops < 2 ^ 32)"
proof -
  from assms obtain count where c: "read_u32 (reader_of bytes) = Inr (count, advance 4 (reader_of bytes))"
    "take 4 bytes = put_u32 count" using u32.get_ok [of "reader_of bytes"] by auto
  have bytes: "bytes = put_u32 count @ drop 4 bytes" by (rule take_eq_append_drop [OF c(2)])
  have run: "parse_gain_maps bytes = parse_opcodes2 (unat count) (advance 4 (reader_of bytes)) []"
    using c assms by (auto simp: parse_gain_maps_def can_read_def reader_of_def)
  have enc: "(length ops = unat count \<and> drop 4 bytes = concat (map put_raw_opcode ops) @ ys) \<longleftrightarrow>
      (bytes = put_u32 (of_nat (length ops)) @ concat (map put_raw_opcode ops) @ ys \<and> length ops < 2 ^ 32)"
    for ops :: "raw_opcode list" and ys
  proof -
    have "bytes = put_u32 (of_nat (length ops)) @ concat (map put_raw_opcode ops) @ ys \<longleftrightarrow>
        count = of_nat (length ops) \<and> drop 4 bytes = concat (map put_raw_opcode ops) @ ys"
      by (subst bytes) (simp add: put_u32_append_inject)
    moreover have "length ops = unat count \<longleftrightarrow> count = of_nat (length ops) \<and> length ops < 2 ^ 32"
      using unsigned_less [of count] by (auto simp: unat_of_nat)
    ultimately show ?thesis by auto
  qed
  show thesis by (rule that [OF run enc])
qed

lemma gain_maps_iff:
  "(\<exists>res. parse_gain_maps bytes = Inr res) \<and>
   (parse_gain_maps bytes = Inr res \<and> gr_status res = Ok \<longleftrightarrow>
     (\<exists>maps. res = \<lparr>gr_status = Ok, gr_gain_maps = maps, gr_message = []\<rparr> \<and>
       (bytes = [] \<and> maps = [] \<or>
        (\<exists>ops ms rest. list_all2 carries ops ms \<and> length ops < 2 ^ 32 \<and>
          bytes = put_u32 (of_nat (length ops)) @ concat (map put_raw_opcode ops) @ rest \<and>
          maps = collected ms))))"
proof (cases "length bytes < 4")
  case True
  then show ?thesis by (auto simp: parse_gain_maps_def can_read_def reader_of_def failed2_def)
next
  case False
  let ?r = "advance 4 (reader_of bytes)"
  from False have len: "4 \<le> length bytes" by simp
  obtain count :: u32 where
    eq: "parse_gain_maps bytes = parse_opcodes2 (unat count) ?r []" and
    enc: "\<And>ops ys. (length ops = unat count \<and> drop 4 bytes = concat (map put_raw_opcode ops) @ ys) \<longleftrightarrow>
      (bytes = put_u32 (of_nat (length ops)) @ concat (map put_raw_opcode ops) @ ys \<and> length ops < 2 ^ 32)"
    by (rule parse_gain_maps_count [OF len]) (rule that)
  have "rd_offset ?r \<le> length (rd_bytes ?r)" using False by (simp add: reader_of_def)
  from parse_opcodes2_cases [OF this, of "unat count" "[]"] show ?thesis
  proof (elim disjE exE conjE)
    fix ops ms ys assume o: "length ops = unat count" "list_all2 carries ops ms"
      "remaining_bytes ?r = concat (map put_raw_opcode ops) @ ys"
      and run: "parse_opcodes2 (unat count) ?r [] =
        Inr \<lparr>gr_status = Ok, gr_gain_maps = [] @ collected ms, gr_message = []\<rparr>"
    from o have d: "drop 4 bytes = concat (map put_raw_opcode ops) @ ys" by simp
    have uni: "ms' = ms" if "list_all2 carries ops' ms'" "length ops' < 2 ^ 32"
      "bytes = put_u32 (of_nat (length ops')) @ concat (map put_raw_opcode ops') @ zs" for ops' ms' zs
    proof (rule put_raw_opcodes_unique [OF that(1) o(2)])
      have "length ops' = unat count \<and> drop 4 bytes = concat (map put_raw_opcode ops') @ zs"
        unfolding enc using that(2,3) by (rule conjI [rotated])
      then show "length ops' = length ops"
        "concat (map put_raw_opcode ops') @ zs = concat (map put_raw_opcode ops) @ ys" using o(1) d by auto
    qed
    have "\<exists>rest. list_all2 carries ops ms \<and> length ops < 2 ^ 32 \<and>
        bytes = put_u32 (of_nat (length ops)) @ concat (map put_raw_opcode ops) @ rest"
      using enc [of ops ys] o d by blast
    with uni False show ?thesis unfolding eq run by auto
  next
    fix res' assume "parse_opcodes2 (unat count) ?r [] = Inr res'" "gr_status res' \<noteq> Ok"
      and "\<nexists>ops ms ys. length ops = unat count \<and> list_all2 carries ops ms \<and>
        remaining_bytes ?r = concat (map put_raw_opcode ops) @ ys"
    moreover from this(3) have "\<nexists>ops ms rest. list_all2 carries ops ms \<and> length ops < 2 ^ 32 \<and>
        bytes = put_u32 (of_nat (length ops)) @ concat (map put_raw_opcode ops) @ rest" using enc by auto
    ultimately show ?thesis using False unfolding eq by auto
  qed
qed

text \<open>
  C13: The gain maps of OpcodeList2: on every input the parser returns (no read outside the input, whatever
  sizes the headers claim), and it returns OK with a list of maps exactly when the input is empty (and the
  list too) or starts with the claimed number of encoded opcodes, the maps being those of the gain map
  opcodes in order, each in the supported shape and with a table of exactly points_v times points_h values.
\<close>

theorem parse_gain_maps_iff:
  "(\<exists>res. parse_gain_maps bytes = Inr res) \<and>
   (parse_gain_maps bytes = Inr res \<and> gr_status res = Ok \<longleftrightarrow>
     (\<exists>maps. res = \<lparr>gr_status = Ok, gr_gain_maps = maps, gr_message = []\<rparr> \<and>
       (bytes = [] \<and> maps = [] \<or>
        (\<exists>ops ms rest. list_all2 carries ops ms \<and> length ops < 2 ^ 32 \<and>
          bytes = put_u32 (of_nat (length ops)) @ concat (map put_raw_opcode ops) @ rest \<and>
          maps = collected ms))))"
  by (rule gain_maps_iff)

end
