(* ===== verification/Opcode_List3.thy ===== *)
theory Opcode_List3
  imports Byte_Reader Core_Types
begin

text \<open>
  The parser of the DNG tag OpcodeList3 (\<open>include/cpipe/ingest/dng_opcode/OpcodeList3.hpp\<close>,
  \<open>src/cpipe/ingest/dng_opcode/OpcodeList3.cpp\<close>): lens and defect corrections as a list of opcodes with
  a header and a parameter block each.
\<close>

section \<open>Data\<close>

datatype opcode_id =
    Unknown | WarpRectilinear | FixVignetteRadial | FixBadPixelsConstant | FixBadPixelsList | TrimBounds

record warp_coefficient =
  kr0 :: f64
  kr1 :: f64
  kr2 :: f64
  kr3 :: f64
  kt0 :: f64
  kt1 :: f64

record warp_rectilinear =
  wr_coefficients :: "warp_coefficient list"
  wr_cx_hat :: f64
  wr_cy_hat :: f64

record fix_vignette_radial =
  vr_k :: "f64 list"
  vr_cx_hat :: f64
  vr_cy_hat :: f64

record fix_bad_pixels_constant =
  bc_constant :: u32
  bc_bayer_phase :: u32

record bad_point =
  bp_row :: u32
  bp_column :: u32

record bad_rect =
  br_top :: u32
  br_left :: u32
  br_bottom :: u32
  br_right :: u32

record fix_bad_pixels_list =
  bl_bayer_phase :: u32
  bl_points :: "bad_point list"
  bl_rects :: "bad_rect list"

record trim_bounds =
  tb_top :: u32
  tb_left :: u32
  tb_bottom :: u32
  tb_right :: u32

record opcode =
  op_id :: opcode_id
  op_raw_id :: u32
  op_dng_version :: u32
  op_flags :: u32
  op_optional :: bool
  op_raw_params :: "byte list"
  op_warp :: "warp_rectilinear option"
  op_vignette :: "fix_vignette_radial option"
  op_constant :: "fix_bad_pixels_constant option"
  op_list :: "fix_bad_pixels_list option"
  op_trim :: "trim_bounds option"

record list3_result =
  l3_status :: status_code
  l3_opcodes :: "opcode list"
  l3_message :: string

section \<open>Parameter blocks\<close>

definition failed3 :: "string \<Rightarrow> list3_result" where
  "failed3 message = \<lparr>l3_status = Failed, l3_opcodes = [], l3_message = message\<rparr>"

definition unsupported3 :: "string \<Rightarrow> list3_result" where
  "unsupported3 message = \<lparr>l3_status = Unsupported, l3_opcodes = [], l3_message = message\<rparr>"

definition exact_size :: "byte list \<Rightarrow> nat \<Rightarrow> bool" where
  "exact_size params expected \<longleftrightarrow> length params = expected"

definition opcode_id_from_raw :: "u32 \<Rightarrow> opcode_id" where
  "opcode_id_from_raw raw_id =
     (if raw_id = 1 then WarpRectilinear
      else if raw_id = 3 then FixVignetteRadial
      else if raw_id = 4 then FixBadPixelsConstant
      else if raw_id = 5 then FixBadPixelsList
      else if raw_id = 6 then TrimBounds
      else Unknown)"

definition kOpcodeHeaderBytes :: nat where "kOpcodeHeaderBytes = 16"
definition kOptionalFlag :: u32 where "kOptionalFlag = 1"
definition kMaxWarpPlanes :: u32 where "kMaxWarpPlanes = 4"

definition read_coefficient :: "reader \<Rightarrow> fault + warp_coefficient \<times> reader" where
  "read_coefficient r =
     bind_res (read_double r) (\<lambda>(a, r).
     bind_res (read_double r) (\<lambda>(b, r).
     bind_res (read_double r) (\<lambda>(c, r).
     bind_res (read_double r) (\<lambda>(d, r).
     bind_res (read_double r) (\<lambda>(e, r).
     bind_res (read_double r) (\<lambda>(f, r).
     Inr (\<lparr>kr0 = a, kr1 = b, kr2 = c, kr3 = d, kt0 = e, kt1 = f\<rparr>, r)))))))"

definition read_point :: "reader \<Rightarrow> fault + bad_point \<times> reader" where
  "read_point r =
     bind_res (read_u32 r) (\<lambda>(row, r).
     bind_res (read_u32 r) (\<lambda>(col, r).
     Inr (\<lparr>bp_row = row, bp_column = col\<rparr>, r)))"

definition read_rect :: "reader \<Rightarrow> fault + bad_rect \<times> reader" where
  "read_rect r =
     bind_res (read_u32 r) (\<lambda>(t, r).
     bind_res (read_u32 r) (\<lambda>(l, r).
     bind_res (read_u32 r) (\<lambda>(b, r).
     bind_res (read_u32 r) (\<lambda>(e, r).
     Inr (\<lparr>br_top = t, br_left = l, br_bottom = b, br_right = e\<rparr>, r)))))"

text \<open>A parameter parser returns \<open>None\<close> where the source returns \<open>false\<close>.\<close>

definition parse_warp_rectilinear :: "byte list \<Rightarrow> opcode \<Rightarrow> fault + opcode option" where
  "parse_warp_rectilinear params opcode =
     (if length params < 4 then Inr None
      else
        bind_res (read_u32 (reader_of params)) (\<lambda>(count, r).
        if count = 0 \<or> count > kMaxWarpPlanes then Inr None
        else
          let coefficient_bytes = unat count * 6 * 8; expected_size = 4 + coefficient_bytes + 2 * 8
          in if \<not> exact_size params expected_size then Inr None
             else
               bind_res (read_many read_coefficient (unat count) r) (\<lambda>(coefficients, r).
               bind_res (read_double r) (\<lambda>(cx, r).
               bind_res (read_double r) (\<lambda>(cy, r).
               Inr (Some (opcode\<lparr>op_warp := Some \<lparr>wr_coefficients = coefficients,
                 wr_cx_hat = cx, wr_cy_hat = cy\<rparr>\<rparr>)))))))"

definition read_vignette :: "reader \<Rightarrow> fault + fix_vignette_radial \<times> reader" where
  "read_vignette r =
     bind_res (read_many read_double 5 r) (\<lambda>(k, r).
     bind_res (read_double r) (\<lambda>(cx, r).
     bind_res (read_double r) (\<lambda>(cy, r).
     Inr (\<lparr>vr_k = k, vr_cx_hat = cx, vr_cy_hat = cy\<rparr>, r))))"

definition parse_fix_vignette_radial :: "byte list \<Rightarrow> opcode \<Rightarrow> fault + opcode option" where
  "parse_fix_vignette_radial params opcode =
     (if \<not> exact_size params (7 * 8) then Inr None
      else
        bind_res (read_vignette (reader_of params)) (\<lambda>(vignette, r).
        Inr (Some (opcode\<lparr>op_vignette := Some vignette\<rparr>))))"

definition read_constant :: "reader \<Rightarrow> fault + fix_bad_pixels_constant \<times> reader" where
  "read_constant r =
     bind_res (read_u32 r) (\<lambda>(c, r).
     bind_res (read_u32 r) (\<lambda>(phase, r).
     Inr (\<lparr>bc_constant = c, bc_bayer_phase = phase\<rparr>, r)))"

definition parse_fix_bad_pixels_constant :: "byte list \<Rightarrow> opcode \<Rightarrow> fault + opcode option" where
  "parse_fix_bad_pixels_constant params opcode =
     (if \<not> exact_size params (2 * 4) then Inr None
      else
        bind_res (read_constant (reader_of params)) (\<lambda>(constant, r).
        Inr (Some (opcode\<lparr>op_constant := Some constant\<rparr>))))"

text \<open>The expected size of a bad pixel list, computed in \<open>std::size_t\<close> with its overflow checks.\<close>

definition checked_list_size :: "u32 \<Rightarrow> u32 \<Rightarrow> u64 option" where
  "checked_list_size points rects =
     (let header_bytes = 12; point_bytes = 8; rect_bytes = 16;
          point_count = ucast points; rect_count = ucast rects
      in if point_count > (- 1 - header_bytes) div point_bytes then None
         else
           let with_points = header_bytes + point_count * point_bytes
           in if rect_count > (- 1 - with_points) div rect_bytes then None
              else Some (with_points + rect_count * rect_bytes))"

definition parse_fix_bad_pixels_list :: "byte list \<Rightarrow> opcode \<Rightarrow> fault + opcode option" where
  "parse_fix_bad_pixels_list params opcode =
     (if length params < 3 * 4 then Inr None
      else
        bind_res (read_u32 (reader_of params)) (\<lambda>(phase, r).
        bind_res (read_u32 r) (\<lambda>(point_count, r).
        bind_res (read_u32 r) (\<lambda>(rect_count, r).
        case checked_list_size point_count rect_count of
          None \<Rightarrow> Inr None
        | Some expected_size \<Rightarrow>
            if \<not> exact_size params (unat expected_size) then Inr None
            else
              bind_res (read_many read_point (unat point_count) r) (\<lambda>(points, r).
              bind_res (read_many read_rect (unat rect_count) r) (\<lambda>(rects, r).
              Inr (Some (opcode\<lparr>op_list := Some \<lparr>bl_bayer_phase = phase, bl_points = points,
                bl_rects = rects\<rparr>\<rparr>))))))))"

definition read_trim :: "reader \<Rightarrow> fault + trim_bounds \<times> reader" where
  "read_trim r =
     bind_res (read_u32 r) (\<lambda>(t, r).
     bind_res (read_u32 r) (\<lambda>(l, r).
     bind_res (read_u32 r) (\<lambda>(b, r).
     bind_res (read_u32 r) (\<lambda>(e, r).
     Inr (\<lparr>tb_top = t, tb_left = l, tb_bottom = b, tb_right = e\<rparr>, r)))))"

definition parse_trim_bounds :: "byte list \<Rightarrow> opcode \<Rightarrow> fault + opcode option" where
  "parse_trim_bounds params opcode =
     (if \<not> exact_size params (4 * 4) then Inr None
      else
        bind_res (read_trim (reader_of params)) (\<lambda>(trim, r).
        Inr (Some (opcode\<lparr>op_trim := Some trim\<rparr>))))"

definition parse_known_opcode :: "byte list \<Rightarrow> opcode \<Rightarrow> fault + opcode option" where
  "parse_known_opcode params opcode =
     (case op_id opcode of
        WarpRectilinear \<Rightarrow> parse_warp_rectilinear params opcode
      | FixVignetteRadial \<Rightarrow> parse_fix_vignette_radial params opcode
      | FixBadPixelsConstant \<Rightarrow> parse_fix_bad_pixels_constant params opcode
      | FixBadPixelsList \<Rightarrow> parse_fix_bad_pixels_list params opcode
      | TrimBounds \<Rightarrow> parse_trim_bounds params opcode
      | Unknown \<Rightarrow> Inr None)"

section \<open>The list\<close>

definition header_opcode :: "u32 \<Rightarrow> u32 \<Rightarrow> u32 \<Rightarrow> byte list \<Rightarrow> opcode" where
  "header_opcode raw_id dng_version flags params =
     \<lparr>op_id = opcode_id_from_raw raw_id, op_raw_id = raw_id, op_dng_version = dng_version,
      op_flags = flags, op_optional = (and flags kOptionalFlag \<noteq> 0), op_raw_params = params,
      op_warp = None, op_vignette = None, op_constant = None, op_list = None, op_trim = None\<rparr>"

text \<open>
  One round of the loop: an early return of the function, or the opcode and the moved reader. The
  part after the parameter block is known is \<open>finish_opcode3\<close>.
\<close>

definition finish_opcode3 :: "opcode \<Rightarrow> fault + list3_result + opcode" where
  "finish_opcode3 opcode =
     (if op_id opcode = Unknown
      then if \<not> op_optional opcode
        then Inr (Inl (unsupported3 ''OpcodeList3 mandatory unknown opcode''))
        else Inr (Inr opcode)
      else
        bind_res (parse_known_opcode (op_raw_params opcode) opcode) (\<lambda>parsed.
        case parsed of
          None \<Rightarrow> Inr (Inl (failed3 ''OpcodeList3 known opcode params invalid''))
        | Some opcode \<Rightarrow> Inr (Inr opcode)))"

definition parse_opcode3 :: "reader \<Rightarrow> fault + list3_result + opcode \<times> reader" where
  "parse_opcode3 r =
     (if \<not> can_read kOpcodeHeaderBytes r
      then Inr (Inl (failed3 ''OpcodeList3 opcode header truncated''))
      else
        bind_res (read_u32 r) (\<lambda>(raw_id, r).
        bind_res (read_u32 r) (\<lambda>(dng_version, r).
        bind_res (read_u32 r) (\<lambda>(flags, r).
        bind_res (read_u32 r) (\<lambda>(param_size, r).
        if \<not> can_read (unat param_size) r
        then Inr (Inl (failed3 ''OpcodeList3 opcode params truncated''))
        else
          let params = take (unat param_size) (drop (rd_offset r) (rd_bytes r));
              r = r\<lparr>rd_offset := rd_offset r + unat param_size\<rparr>
          in bind_res (finish_opcode3 (header_opcode raw_id dng_version flags params)) (\<lambda>res.
             case res of Inl result \<Rightarrow> Inr (Inl result) | Inr opcode \<Rightarrow> Inr (Inr (opcode, r))))))))"

fun parse_opcodes3 :: "nat \<Rightarrow> reader \<Rightarrow> opcode list \<Rightarrow> fault + list3_result" where
  "parse_opcodes3 0 r opcodes = Inr \<lparr>l3_status = Ok, l3_opcodes = opcodes, l3_message = []\<rparr>"
| "parse_opcodes3 (Suc n) r opcodes =
     bind_res (parse_opcode3 r) (\<lambda>res.
     case res of Inl result \<Rightarrow> Inr result
     | Inr (opcode, r) \<Rightarrow> parse_opcodes3 n r (opcodes @ [opcode]))"

text \<open>\<open>can_reserve\<close> says whether \<open>std::vector::reserve\<close> gets the memory; otherwise it throws.\<close>

definition parse_opcode_list3 :: "(nat \<Rightarrow> bool) \<Rightarrow> byte list \<Rightarrow> fault + list3_result" where
  "parse_opcode_list3 can_reserve bytes =
     (if bytes = [] then Inr \<lparr>l3_status = Ok, l3_opcodes = [], l3_message = []\<rparr>
      else if \<not> can_read 4 (reader_of bytes) then Inr (failed3 ''OpcodeList3 count truncated'')
      else
        bind_res (read_u32 (reader_of bytes)) (\<lambda>(count, r).
        if \<not> can_reserve (unat count) then Inl BadAlloc
        else parse_opcodes3 (unat count) r []))"

section \<open>The encoding\<close>

text \<open>
  The byte format of the DNG specification, as an encoder. The parameter blocks of fixed shape are
  sequences of big-endian words.
\<close>

definition coefficient_words :: "warp_coefficient \<Rightarrow> f64 list" where
  "coefficient_words c = [kr0 c, kr1 c, kr2 c, kr3 c, kt0 c, kt1 c]"

definition put_coefficient :: "warp_coefficient \<Rightarrow> byte list" where
  "put_coefficient c = concat (map put_u64 (coefficient_words c))"

definition put_point :: "bad_point \<Rightarrow> byte list" where
  "put_point p = concat (map put_u32 [bp_row p, bp_column p])"

definition put_rect :: "bad_rect \<Rightarrow> byte list" where
  "put_rect b = concat (map put_u32 [br_top b, br_left b, br_bottom b, br_right b])"

definition put_constant :: "fix_bad_pixels_constant \<Rightarrow> byte list" where
  "put_constant c = concat (map put_u32 [bc_constant c, bc_bayer_phase c])"

definition put_trim :: "trim_bounds \<Rightarrow> byte list" where
  "put_trim t = concat (map put_u32 [tb_top t, tb_left t, tb_bottom t, tb_right t])"

definition put_vignette :: "fix_vignette_radial \<Rightarrow> byte list" where
  "put_vignette v = concat (map put_u64 (vr_k v @ [vr_cx_hat v, vr_cy_hat v]))"

definition put_warp :: "warp_rectilinear \<Rightarrow> byte list" where
  "put_warp w = put_u32 (of_nat (length (wr_coefficients w))) @
     concat (map put_coefficient (wr_coefficients w)) @ put_u64 (wr_cx_hat w) @ put_u64 (wr_cy_hat w)"

definition put_bad_list :: "fix_bad_pixels_list \<Rightarrow> byte list" where
  "put_bad_list l = put_u32 (bl_bayer_phase l) @ put_u32 (of_nat (length (bl_points l))) @
     put_u32 (of_nat (length (bl_rects l))) @ concat (map put_point (bl_points l)) @
     concat (map put_rect (bl_rects l))"

text \<open>An opcode whose parsed fields agree with its header and its raw parameter block.\<close>

definition params_wf :: "opcode \<Rightarrow> bool" where
  "params_wf op =
     (case (op_id op, op_warp op, op_vignette op, op_constant op, op_list op, op_trim op) of
        (WarpRectilinear, Some w, None, None, None, None) \<Rightarrow>
          length (wr_coefficients w) \<in> {1..4} \<and> op_raw_params op = put_warp w
      | (FixVignetteRadial, None, Some v, None, None, None) \<Rightarrow>
          length (vr_k v) = 5 \<and> op_raw_params op = put_vignette v
      | (FixBadPixelsConstant, None, None, Some c, None, None) \<Rightarrow> op_raw_params op = put_constant c
      | (FixBadPixelsList, None, None, None, Some l, None) \<Rightarrow>
          length (bl_points l) < 2 ^ 32 \<and> length (bl_rects l) < 2 ^ 32 \<and> op_raw_params op = put_bad_list l
      | (TrimBounds, None, None, None, None, Some t) \<Rightarrow> op_raw_params op = put_trim t
      | (Unknown, None, None, None, None, None) \<Rightarrow> op_optional op
      | _ \<Rightarrow> False)"

definition opcode_wf :: "opcode \<Rightarrow> bool" where
  "opcode_wf op \<longleftrightarrow> op_id op = opcode_id_from_raw (op_raw_id op) \<and>
     op_optional op = (and (op_flags op) kOptionalFlag \<noteq> 0) \<and>
     length (op_raw_params op) < 2 ^ 32 \<and> params_wf op"

definition put_opcode :: "opcode \<Rightarrow> byte list" where
  "put_opcode op = put_u32 (op_raw_id op) @ put_u32 (op_dng_version op) @ put_u32 (op_flags op) @
     put_u32 (of_nat (length (op_raw_params op))) @ op_raw_params op"

definition put_opcode_list :: "opcode list \<Rightarrow> byte list" where
  "put_opcode_list ops = put_u32 (of_nat (length ops)) @ concat (map put_opcode ops)"

section \<open>Records of words are codecs\<close>

interpretation point: codec read_point put_point 8
proof -
  have "codec read_point (\<lambda>p. concat (map put_u32 [bp_row p, bp_column p])) (2 * 4)"
    by (rule u32.record_codec [where mk = "\<lambda>xs. \<lparr>bp_row = xs ! 0, bp_column = xs ! 1\<rparr>"])
       (auto simp: read_point_def read_many_steps dest: length_2)
  then show "codec read_point put_point 8" unfolding put_point_def by simp
qed

interpretation rect: codec read_rect put_rect 16
proof -
  have "codec read_rect (\<lambda>b. concat (map put_u32 [br_top b, br_left b, br_bottom b, br_right b])) (4 * 4)"
    by (rule u32.record_codec [where mk = "\<lambda>xs. \<lparr>br_top = xs ! 0, br_left = xs ! 1, br_bottom = xs ! 2,
        br_right = xs ! 3\<rparr>"])
       (auto simp: read_rect_def read_many_steps dest: length_4)
  then show "codec read_rect put_rect 16" unfolding put_rect_def by simp
qed

interpretation bconst: codec read_constant put_constant 8
proof -
  have "codec read_constant (\<lambda>c. concat (map put_u32 [bc_constant c, bc_bayer_phase c])) (2 * 4)"
    by (rule u32.record_codec [where mk = "\<lambda>xs. \<lparr>bc_constant = xs ! 0, bc_bayer_phase = xs ! 1\<rparr>"])
       (auto simp: read_constant_def read_many_steps dest: length_2)
  then show "codec read_constant put_constant 8" unfolding put_constant_def by simp
qed

interpretation trim: codec read_trim put_trim 16
proof -
  have "codec read_trim (\<lambda>b. concat (map put_u32 [tb_top b, tb_left b, tb_bottom b, tb_right b])) (4 * 4)"
    by (rule u32.record_codec [where mk = "\<lambda>xs. \<lparr>tb_top = xs ! 0, tb_left = xs ! 1, tb_bottom = xs ! 2,
        tb_right = xs ! 3\<rparr>"])
       (auto simp: read_trim_def read_many_steps dest: length_4)
  then show "codec read_trim put_trim 16" unfolding put_trim_def by simp
qed

interpretation coeff: codec read_coefficient put_coefficient 48
proof -
  have "codec read_coefficient (\<lambda>c. concat (map put_u64 (coefficient_words c))) (6 * 8)"
    by (rule double.record_codec [where mk = "\<lambda>xs. \<lparr>kr0 = xs ! 0, kr1 = xs ! 1, kr2 = xs ! 2, kr3 = xs ! 3,
        kt0 = xs ! 4, kt1 = xs ! 5\<rparr>"])
       (auto simp: read_coefficient_def read_many_steps coefficient_words_def dest: length_6)
  then show "codec read_coefficient put_coefficient 48" unfolding put_coefficient_def by simp
qed

section \<open>Parameter parsers\<close>

text \<open>
  A parser of parameter blocks is right for an encoding when it never faults, accepts only encodings
  of well-formed values, and accepts all of them.
\<close>

locale params_parser =
  fixes parse :: "byte list \<Rightarrow> opcode \<Rightarrow> fault + opcode option"
    and put :: "'a \<Rightarrow> byte list"
    and wf :: "'a \<Rightarrow> bool"
    and upd :: "'a \<Rightarrow> opcode \<Rightarrow> opcode"
  assumes accepts: "wf x \<Longrightarrow> parse (put x) op = Inr (Some (upd x op))"
    and sound: "parse params op = Inr None \<or>
          (\<exists>x. wf x \<and> params = put x \<and> parse params op = Inr (Some (upd x op)))"
begin

lemma parse_Some_iff:
  "parse params op = Inr (Some op') \<longleftrightarrow> (\<exists>x. wf x \<and> params = put x \<and> op' = upd x op)"
  using accepts sound [of params op] by auto

lemma no_fault: "parse params op \<noteq> Inl e"
  using sound [of params op] by auto

end

lemma block_parser:
  assumes c: "codec get put width"
    and p: "\<And>params op. parse params op =
      (if \<not> exact_size params width then Inr None
       else bind_res (get (reader_of params)) (\<lambda>(x, r). Inr (Some (upd x op))))"
  shows "params_parser parse put (\<lambda>_. True) upd"
proof
  show "parse (put x) op = Inr (Some (upd x op))" for x op
    by (simp add: p exact_size_def codec.length_put [OF c] whole_block_put [OF c])
  show "parse params op = Inr None \<or> (\<exists>x. True \<and> params = put x \<and> parse params op = Inr (Some (upd x op)))"
    for params op
  proof (cases "length params = width")
    case True
    then show ?thesis using whole_block_get [OF c True] by (auto simp: p exact_size_def codec.length_put [OF c])
  qed (simp add: p exact_size_def)
qed

interpretation ptrim: params_parser parse_trim_bounds put_trim "\<lambda>_. True" "\<lambda>t op. op\<lparr>op_trim := Some t\<rparr>"
  by (rule block_parser [OF trim.codec_axioms]) (simp add: parse_trim_bounds_def)

interpretation pconst: params_parser parse_fix_bad_pixels_constant put_constant "\<lambda>_. True"
  "\<lambda>c op. op\<lparr>op_constant := Some c\<rparr>"
  by (rule block_parser [OF bconst.codec_axioms]) (simp add: parse_fix_bad_pixels_constant_def)

text \<open>The radial polynomial: five coefficients and the centre.\<close>

lemma length_put_vignette: "length (vr_k v) = 5 \<Longrightarrow> length (put_vignette v) = 56"
  by (simp add: put_vignette_def double.length_concat_put)

lemma read_vignette_put:
  assumes "length (vr_k v) = 5"
  shows "\<exists>r. read_vignette (reader_of (put_vignette v)) = Inr (v, r)"
proof -
  let ?r = "reader_of (put_vignette v)"
  have "read_many read_double (length (vr_k v)) ?r = Inr (vr_k v, advance (length (vr_k v) * 8) ?r)"
    by (rule double.read_many_put) (simp add: put_vignette_def)
  moreover have "read_double (advance 40 ?r) = Inr (vr_cx_hat v, advance 8 (advance 40 ?r))"
    by (rule double.get_put) (simp add: put_vignette_def double.length_concat_put assms)
  moreover have "read_double (advance 48 ?r) = Inr (vr_cy_hat v, advance 8 (advance 48 ?r))"
    by (rule double.get_put [where ys = "[]"]) (simp add: put_vignette_def double.length_concat_put assms)
  ultimately show ?thesis by (simp add: read_vignette_def assms)
qed

lemma read_vignette_get:
  assumes "length params = 56"
  shows "\<exists>v r. read_vignette (reader_of params) = Inr (v, r) \<and> length (vr_k v) = 5 \<and> params = put_vignette v"
proof -
  let ?r = "reader_of params"
  from double.read_many_ok [of 5 ?r] assms obtain k where k: "read_many read_double 5 ?r = Inr (k, advance 40 ?r)"
    "length k = 5" "take 40 params = concat (map put_u64 k)" by auto
  from double.get_ok [of "advance 40 ?r"] assms obtain cx where cx:
    "read_double (advance 40 ?r) = Inr (cx, advance 48 ?r)" "take 8 (drop 40 params) = put_u64 cx" by auto
  from double.get_ok [of "advance 48 ?r"] assms obtain cy where cy:
    "read_double (advance 48 ?r) = Inr (cy, advance 56 ?r)" "drop 48 params = put_u64 cy" by auto
  have "params = take 40 params @ take 8 (drop 40 params) @ drop 48 params"
    using take_take_drop [of params 40 8] by simp
  with k cx cy show ?thesis
    by (intro exI [of _ "\<lparr>vr_k = k, vr_cx_hat = cx, vr_cy_hat = cy\<rparr>"] exI [of _ "advance 56 ?r"])
       (simp add: read_vignette_def put_vignette_def)
qed

interpretation pvig: params_parser parse_fix_vignette_radial put_vignette "\<lambda>v. length (vr_k v) = 5"
  "\<lambda>v op. op\<lparr>op_vignette := Some v\<rparr>"
proof
  show "parse_fix_vignette_radial (put_vignette v) op = Inr (Some (op\<lparr>op_vignette := Some v\<rparr>))"
    if "length (vr_k v) = 5" for v op
    using read_vignette_put [OF that] length_put_vignette [OF that]
    by (auto simp: parse_fix_vignette_radial_def exact_size_def)
  show "parse_fix_vignette_radial params op = Inr None \<or>
      (\<exists>v. length (vr_k v) = 5 \<and> params = put_vignette v \<and>
        parse_fix_vignette_radial params op = Inr (Some (op\<lparr>op_vignette := Some v\<rparr>)))" for params op
  proof (cases "length params = 56")
    case True
    from read_vignette_get [OF this] obtain v r where "read_vignette (reader_of params) = Inr (v, r)"
      "length (vr_k v) = 5" "params = put_vignette v" by blast
    with True show ?thesis by (intro disjI2 exI [of _ v]) (simp add: parse_fix_vignette_radial_def exact_size_def)
  qed (simp add: parse_fix_vignette_radial_def exact_size_def)
qed

text \<open>The warp: a plane count of one to four, the coefficients of each plane and the centre.\<close>

lemma length_put_warp: "length (put_warp w) = 20 + 48 * length (wr_coefficients w)"
  by (simp add: put_warp_def coeff.length_concat_put)

lemma parse_warp_accepts:
  assumes "length (wr_coefficients w) \<in> {1..4}"
  shows "parse_warp_rectilinear (put_warp w) op = Inr (Some (op\<lparr>op_warp := Some w\<rparr>))"
proof -
  let ?n = "length (wr_coefficients w)" and ?r = "reader_of (put_warp w)"
  have n: "unat (of_nat ?n :: u32) = ?n" using assms by (simp add: unat_of_nat)
  have guard: "\<not> (of_nat ?n = (0 :: u32) \<or> of_nat ?n > kMaxWarpPlanes)"
    using assms n by (auto simp: kMaxWarpPlanes_def word_less_nat_alt word_arith_nat_defs(6) simp del: unat_of_nat)
  have "read_u32 ?r = Inr (of_nat ?n, advance 4 ?r)" by (rule u32.get_put) (simp add: put_warp_def)
  moreover have "read_many read_coefficient ?n (advance 4 ?r) =
      Inr (wr_coefficients w, advance (?n * 48) (advance 4 ?r))"
    by (rule coeff.read_many_put) (simp add: put_warp_def)
  moreover have "read_double (advance (4 + ?n * 48) ?r) = Inr (wr_cx_hat w, advance 8 (advance (4 + ?n * 48) ?r))"
    by (rule double.get_put) (simp add: put_warp_def coeff.length_concat_put)
  moreover have "read_double (advance (12 + ?n * 48) ?r) = Inr (wr_cy_hat w, advance 8 (advance (12 + ?n * 48) ?r))"
    by (rule double.get_put [where ys = "[]"]) (simp add: put_warp_def coeff.length_concat_put)
  ultimately show ?thesis using guard length_put_warp [of w]
    by (simp add: parse_warp_rectilinear_def exact_size_def n ac_simps)
qed

lemma parse_warp_sound:
  "parse_warp_rectilinear params op = Inr None \<or>
     (\<exists>w. length (wr_coefficients w) \<in> {1..4} \<and> params = put_warp w \<and>
       parse_warp_rectilinear params op = Inr (Some (op\<lparr>op_warp := Some w\<rparr>)))"
proof (cases "length params < 4")
  case False
  let ?r = "reader_of params"
  from False u32.get_ok [of ?r] obtain count where count: "read_u32 ?r = Inr (count, advance 4 ?r)"
    "take 4 params = put_u32 count" by auto
  let ?n = "unat count"
  show ?thesis
  proof (cases "count = 0 \<or> count > kMaxWarpPlanes \<or> length params \<noteq> 20 + ?n * 48")
    case True
    with False count show ?thesis by (auto simp: parse_warp_rectilinear_def exact_size_def)
  next
    case ok: False
    then have n: "?n \<in> {1..4}"
      by (auto simp: kMaxWarpPlanes_def word_le_nat_alt not_less Suc_le_eq unat_gt_0)
    from coeff.read_many_ok [of ?n "advance 4 ?r"] ok obtain cs where cs:
      "read_many read_coefficient ?n (advance 4 ?r) = Inr (cs, advance (4 + ?n * 48) ?r)" "length cs = ?n"
      "take (?n * 48) (drop 4 params) = concat (map put_coefficient cs)" by auto
    from double.get_ok [of "advance (4 + ?n * 48) ?r"] ok obtain cx where cx:
      "read_double (advance (4 + ?n * 48) ?r) = Inr (cx, advance (12 + ?n * 48) ?r)"
      "take 8 (drop (4 + ?n * 48) params) = put_u64 cx" by auto
    from double.get_ok [of "advance (12 + ?n * 48) ?r"] ok obtain cy where cy:
      "read_double (advance (12 + ?n * 48) ?r) = Inr (cy, advance (20 + ?n * 48) ?r)"
      "drop (12 + ?n * 48) params = put_u64 cy" by auto
    have "params = put_u32 count @ concat (map put_coefficient cs) @ put_u64 cx @ put_u64 cy"
      using take_take_drop [of params 4 "?n * 48"] take_take_drop [of "drop (4 + ?n * 48) params" 8 8]
        count(2) cs(3) cx(2) cy(2) ok by simp
    with n count cs cx cy ok show ?thesis
      by (intro disjI2 exI [of _ "\<lparr>wr_coefficients = cs, wr_cx_hat = cx, wr_cy_hat = cy\<rparr>"])
         (simp add: parse_warp_rectilinear_def exact_size_def put_warp_def ac_simps)
  qed
qed (simp add: parse_warp_rectilinear_def)

interpretation pwarp: params_parser parse_warp_rectilinear put_warp
  "\<lambda>w. length (wr_coefficients w) \<in> {1..4}" "\<lambda>w op. op\<lparr>op_warp := Some w\<rparr>"
  using parse_warp_accepts parse_warp_sound by unfold_locales

text \<open>
  The size of a bad pixel list: with 32-bit counts the overflow checks in \<open>std::size_t\<close> never fire and
  the size is exact.
\<close>

lemma checked_list_size_exact:
  "\<exists>s. checked_list_size points rects = Some s \<and> unat s = 12 + 8 * unat points + 16 * unat rects"
proof -
  have lt: "unat points < 2 ^ 32" "unat rects < 2 ^ 32"
    using unsigned_less [of points] unsigned_less [of rects] by simp_all
  define p :: u64 where "p = 12 + ucast points * 8"
  have p: "unat p = 12 + 8 * unat points"
    using lt(1) by (simp add: p_def unat_word_ariths)
  have "unat ((- 1 - 12 :: u64) div 8) = (2 ^ 64 - 13) div 8" by simp
  then have a: "\<not> ucast points > (- 1 - 12 :: u64) div 8" using lt(1)
    by (simp add: word_less_nat_alt)
  have "unat (- 1 - p) = 2 ^ 64 - 1 - unat p"
    by (simp add: unat_sub [OF word_order.extremum] unsigned_minus_1_eq_mask mask_eq_exp_minus_1)
  then have b: "\<not> ucast rects > (- 1 - p) div 16" using lt p
    by (simp add: word_less_nat_alt unat_div_distrib)
  have "unat (p + ucast rects * 16) = 12 + 8 * unat points + 16 * unat rects"
    using lt p by (simp add: unat_word_ariths)
  with a b show ?thesis by (simp add: checked_list_size_def Let_def p_def)
qed

lemma length_put_bad_list: "length (put_bad_list l) = 12 + 8 * length (bl_points l) + 16 * length (bl_rects l)"
  by (simp add: put_bad_list_def point.length_concat_put rect.length_concat_put)

lemma parse_bad_list_accepts:
  assumes "length (bl_points l) < 2 ^ 32" and "length (bl_rects l) < 2 ^ 32"
  shows "parse_fix_bad_pixels_list (put_bad_list l) op = Inr (Some (op\<lparr>op_list := Some l\<rparr>))"
proof -
  let ?p = "length (bl_points l)" and ?q = "length (bl_rects l)" and ?r = "reader_of (put_bad_list l)"
  have n: "unat (of_nat ?p :: u32) = ?p" "unat (of_nat ?q :: u32) = ?q" using assms
    by (simp_all add: unat_of_nat)
  obtain s where s: "checked_list_size (of_nat ?p) (of_nat ?q) = Some s" "unat s = 12 + 8 * ?p + 16 * ?q"
    using checked_list_size_exact [of "of_nat ?p" "of_nat ?q"] n by auto
  have "read_u32 ?r = Inr (bl_bayer_phase l, advance 4 ?r)"
    by (rule u32.get_put) (simp add: put_bad_list_def)
  moreover have "read_u32 (advance 4 ?r) = Inr (of_nat ?p, advance 4 (advance 4 ?r))"
    by (rule u32.get_put) (simp add: put_bad_list_def)
  moreover have "read_u32 (advance 8 ?r) = Inr (of_nat ?q, advance 4 (advance 8 ?r))"
    by (rule u32.get_put) (simp add: put_bad_list_def)
  moreover have "read_many read_point ?p (advance 12 ?r) = Inr (bl_points l, advance (?p * 8) (advance 12 ?r))"
    by (rule point.read_many_put) (simp add: put_bad_list_def)
  moreover have "read_many read_rect ?q (advance (12 + ?p * 8) ?r) =
      Inr (bl_rects l, advance (?q * 16) (advance (12 + ?p * 8) ?r))"
    by (rule rect.read_many_put [where ys = "[]"]) (simp add: put_bad_list_def point.length_concat_put)
  ultimately show ?thesis using s n length_put_bad_list [of l]
    by (simp add: parse_fix_bad_pixels_list_def exact_size_def)
qed

lemma parse_bad_list_sound:
  "parse_fix_bad_pixels_list params op = Inr None \<or>
     (\<exists>l. (length (bl_points l) < 2 ^ 32 \<and> length (bl_rects l) < 2 ^ 32) \<and> params = put_bad_list l \<and>
       parse_fix_bad_pixels_list params op = Inr (Some (op\<lparr>op_list := Some l\<rparr>)))"
proof (cases "length params < 12")
  case False
  let ?r = "reader_of params"
  from False have len: "4 \<le> length params" "4 \<le> length params - 4" "4 \<le> length params - 8" by arith+
  from len u32.get_ok [of ?r] obtain phase where ph: "read_u32 ?r = Inr (phase, advance 4 ?r)"
    "take 4 params = put_u32 phase" by auto
  from len u32.get_ok [of "advance 4 ?r"] obtain p where p: "read_u32 (advance 4 ?r) = Inr (p, advance 8 ?r)"
    "take 4 (drop 4 params) = put_u32 p" by auto
  from len u32.get_ok [of "advance 8 ?r"] obtain q where q: "read_u32 (advance 8 ?r) = Inr (q, advance 12 ?r)"
    "take 4 (drop 8 params) = put_u32 q" by auto
  obtain s where s: "checked_list_size p q = Some s" "unat s = 12 + 8 * unat p + 16 * unat q"
    using checked_list_size_exact by blast
  note head = False ph(1) p(1) q(1) s
  show ?thesis
  proof (cases "length params = unat s")
    case True
    from point.read_many_ok [of "unat p" "advance 12 ?r"] True s(2) obtain ps where ps:
      "read_many read_point (unat p) (advance 12 ?r) = Inr (ps, advance (12 + unat p * 8) ?r)"
      "length ps = unat p" "take (unat p * 8) (drop 12 params) = concat (map put_point ps)" by auto
    from rect.read_many_ok [of "unat q" "advance (12 + unat p * 8) ?r"] True s(2) obtain qs where qs:
      "read_many read_rect (unat q) (advance (12 + unat p * 8) ?r) = Inr (qs, advance (12 + unat p * 8 + unat q * 16) ?r)"
      "length qs = unat q" "drop (12 + unat p * 8) params = concat (map put_rect qs)" by auto
    have "params = put_u32 phase @ put_u32 p @ put_u32 q @ concat (map put_point ps) @ concat (map put_rect qs)"
      using take_take_drop [of params 4 4] take_take_drop [of "drop 8 params" 4 "unat p * 8"]
        ph(2) p(2) q(2) ps(3) qs(3) by simp
    moreover have "unat p < 2 ^ 32" "unat q < 2 ^ 32" using unsigned_less [of p] unsigned_less [of q] by simp_all
    ultimately show ?thesis using True head ps qs
      by (intro disjI2 exI [of _ "\<lparr>bl_bayer_phase = phase, bl_points = ps, bl_rects = qs\<rparr>"])
         (simp add: parse_fix_bad_pixels_list_def exact_size_def put_bad_list_def)
  qed (use head in \<open>simp add: parse_fix_bad_pixels_list_def exact_size_def\<close>)
qed (simp add: parse_fix_bad_pixels_list_def)

interpretation pblist: params_parser parse_fix_bad_pixels_list put_bad_list
  "\<lambda>l. length (bl_points l) < 2 ^ 32 \<and> length (bl_rects l) < 2 ^ 32" "\<lambda>l op. op\<lparr>op_list := Some l\<rparr>"
proof
  show "parse_fix_bad_pixels_list (put_bad_list l) op = Inr (Some (op\<lparr>op_list := Some l\<rparr>))"
    if "length (bl_points l) < 2 ^ 32 \<and> length (bl_rects l) < 2 ^ 32" for l op
    using that parse_bad_list_accepts by blast
qed (rule parse_bad_list_sound)

section \<open>One opcode\<close>

text \<open>An opcode as the loop has it before its parameters are parsed.\<close>

definition header_of :: "opcode \<Rightarrow> opcode" where
  "header_of op = op\<lparr>op_warp := None, op_vignette := None, op_constant := None, op_list := None, op_trim := None\<rparr>"

lemma header_of_simps [simp]:
  "op_id (header_of op) = op_id op" "op_raw_id (header_of op) = op_raw_id op"
  "op_dng_version (header_of op) = op_dng_version op" "op_flags (header_of op) = op_flags op"
  "op_optional (header_of op) = op_optional op" "op_raw_params (header_of op) = op_raw_params op"
  by (simp_all add: header_of_def)

lemma header_of_header_opcode [simp]: "header_of (header_opcode i v f params) = header_opcode i v f params"
  by (simp add: header_of_def header_opcode_def)

lemmas parse_known_iffs = pwarp.parse_Some_iff pvig.parse_Some_iff pconst.parse_Some_iff
  pblist.parse_Some_iff ptrim.parse_Some_iff

lemma parse_known_no_fault: "parse_known_opcode params op \<noteq> Inl e"
  using pwarp.no_fault pvig.no_fault pconst.no_fault pblist.no_fault ptrim.no_fault
  by (simp add: parse_known_opcode_def split: opcode_id.split)

lemma parse_known_iff:
  assumes "header_of op = op" and "op_id op \<noteq> Unknown"
  shows "parse_known_opcode (op_raw_params op) op = Inr (Some op') \<longleftrightarrow> params_wf op' \<and> header_of op' = op"
  using assms
  by (cases op; cases op')
     (auto simp: parse_known_opcode_def params_wf_def header_of_def parse_known_iffs
       split: opcode_id.split option.split)

lemma parse_opcode3_header:
  assumes "rd_offset r \<le> length (rd_bytes r)" and "16 \<le> length (remaining_bytes r)"
  shows "\<exists>a b c d. take 16 (remaining_bytes r) = put_u32 a @ put_u32 b @ put_u32 c @ put_u32 d \<and>
    parse_opcode3 r =
     (if length (remaining_bytes r) < 16 + unat d
      then Inr (Inl (failed3 ''OpcodeList3 opcode params truncated''))
      else bind_res (finish_opcode3 (header_opcode a b c (take (unat d) (drop 16 (remaining_bytes r)))))
        (\<lambda>res. case res of Inl result \<Rightarrow> Inr (Inl result)
           | Inr opcode \<Rightarrow> Inr (Inr (opcode, advance (16 + unat d) r))))"
proof -
  from read_u32_header [OF assms(2)] obtain a b c d where
    h: "read_u32 r = Inr (a, advance 4 r)" "read_u32 (advance 4 r) = Inr (b, advance 8 r)"
    "read_u32 (advance 8 r) = Inr (c, advance 12 r)" "read_u32 (advance 12 r) = Inr (d, advance 16 r)"
    and t: "take 16 (remaining_bytes r) = put_u32 a @ put_u32 b @ put_u32 c @ put_u32 d" by blast
  have g: "can_read kOpcodeHeaderBytes r" using assms by (simp add: can_read_remaining kOpcodeHeaderBytes_def)
  have p: "can_read (unat d) (advance 16 r) \<longleftrightarrow> \<not> length (remaining_bytes r) < 16 + unat d"
    using assms by (subst can_read_remaining) (auto simp: remaining_bytes_def)
  have x: "drop (rd_offset r + 16) (rd_bytes r) = drop 16 (remaining_bytes r)"
    by (simp add: remaining_bytes_def add.commute)
  have y: "(advance 16 r)\<lparr>rd_offset := rd_offset r + 16 + unat d\<rparr> = advance (16 + unat d) r"
    by (simp add: advance_def)
  show ?thesis
    by (rule exI [of _ a], rule exI [of _ b], rule exI [of _ c], rule exI [of _ d])
       (simp add: parse_opcode3_def g h p x y t cong: if_cong)
qed

lemma parse_opcode3_short:
  assumes "rd_offset r \<le> length (rd_bytes r)" and "length (remaining_bytes r) < 16"
  shows "parse_opcode3 r = Inr (Inl (failed3 ''OpcodeList3 opcode header truncated''))"
  using assms by (simp add: parse_opcode3_def can_read_remaining kOpcodeHeaderBytes_def)

lemma finish_opcode3_no_fault: "finish_opcode3 op \<noteq> Inl e"
  by (auto simp: finish_opcode3_def bind_res_eq_Inl_iff parse_known_no_fault split: option.split)

lemma case_next_iff:
  "(case x of Inl result \<Rightarrow> Inr (Inl result) | Inr opcode \<Rightarrow> Inr (Inr (opcode, r))) = Inr (Inr (op, r')) \<longleftrightarrow>
     x = Inr op \<and> r' = r"
  "(case x of Inl result \<Rightarrow> Inr (Inl result) | Inr opcode \<Rightarrow> Inr (Inr (opcode, r))) = Inr (Inl res) \<longleftrightarrow> x = Inl res"
  "(case x of Inl result \<Rightarrow> Inr (Inl result) | Inr opcode \<Rightarrow> Inr (Inr (opcode, r))) \<noteq> Inl e"
  by (auto split: sum.split)

lemma parse_opcode3_no_fault:
  assumes "rd_offset r \<le> length (rd_bytes r)"
  shows "parse_opcode3 r \<noteq> Inl e"
proof (cases "length (remaining_bytes r) < 16")
  case False
  then show ?thesis using parse_opcode3_header [OF assms]
    by (auto simp: Inl_eq_bind_res_iff bind_res_eq_Inl_iff finish_opcode3_no_fault case_next_iff split: if_splits)
qed (simp add: parse_opcode3_short assms)

lemma finish_opcode3_iff:
  assumes "header_of op = op"
  shows "finish_opcode3 op = Inr (Inr op') \<longleftrightarrow> params_wf op' \<and> header_of op' = op"
proof (cases "op_id op = Unknown")
  case True
  with assms show ?thesis
    by (cases op; cases op')
       (auto simp: finish_opcode3_def params_wf_def header_of_def split: opcode_id.split option.split)
next
  case False
  from parse_known_iff [OF assms this] False show ?thesis
    by (auto simp: finish_opcode3_def bind_res_eq_Inr_iff split: option.splits)
qed

lemma length_put_opcode: "length (put_opcode op) = 16 + length (op_raw_params op)"
  by (simp add: put_opcode_def)

lemma opcode_wf_header:
  "opcode_wf op \<longleftrightarrow> params_wf op \<and> length (op_raw_params op) < 2 ^ 32 \<and>
     header_of op = header_opcode (op_raw_id op) (op_dng_version op) (op_flags op) (op_raw_params op)"
  by (cases op) (auto simp: opcode_wf_def header_of_def header_opcode_def)

text \<open>A round of the loop succeeds exactly on an encoded well-formed opcode, and moves behind it.\<close>

lemma parse_opcode3_iff:
  assumes off: "rd_offset r \<le> length (rd_bytes r)"
  shows "parse_opcode3 r = Inr (Inr (op, r')) \<longleftrightarrow>
    opcode_wf op \<and> (\<exists>ys. remaining_bytes r = put_opcode op @ ys) \<and> r' = advance (length (put_opcode op)) r"
proof (cases "length (remaining_bytes r) < 16")
  case True
  then show ?thesis using off by (auto simp: parse_opcode3_short length_put_opcode)
next
  case False
  let ?m = "remaining_bytes r"
  from False have "16 \<le> length ?m" by simp
  from parse_opcode3_header [OF off this] obtain a b c d where
    t: "take 16 ?m = put_u32 a @ put_u32 b @ put_u32 c @ put_u32 d" and
    eq: "parse_opcode3 r = (if length ?m < 16 + unat d
      then Inr (Inl (failed3 ''OpcodeList3 opcode params truncated''))
      else bind_res (finish_opcode3 (header_opcode a b c (take (unat d) (drop 16 ?m))))
        (\<lambda>res. case res of Inl result \<Rightarrow> Inr (Inl result)
           | Inr opcode \<Rightarrow> Inr (Inr (opcode, advance (16 + unat d) r))))" by blast
  define params where "params = take (unat d) (drop 16 ?m)"
  have m: "?m = put_u32 a @ put_u32 b @ put_u32 c @ put_u32 d @ drop 16 ?m"
    using take_eq_append_drop [OF t] by simp
  have run: "parse_opcode3 r = Inr (Inr (op, r')) \<longleftrightarrow> 16 + unat d \<le> length ?m \<and>
      params_wf op \<and> header_of op = header_opcode a b c params \<and> r' = advance (16 + unat d) r"
    unfolding eq params_def [symmetric]
    by (auto simp: bind_res_eq_Inr_iff finish_opcode3_iff case_next_iff)
  show ?thesis
  proof
    assume "parse_opcode3 r = Inr (Inr (op, r'))"
    with run have r: "16 + unat d \<le> length ?m" "params_wf op" "header_of op = header_opcode a b c params"
      "r' = advance (16 + unat d) r" by auto
    from r(3) have f: "op_raw_id op = a" "op_dng_version op = b" "op_flags op = c" "op_raw_params op = params"
      by (metis header_of_simps header_opcode_def opcode.select_convs)+
    have len: "length params = unat d" using r(1) by (simp add: params_def)
    then have "?m = put_opcode op @ drop (unat d) (drop 16 ?m)"
      using m append_take_drop_id [of "unat d" "drop 16 ?m"] by (simp add: put_opcode_def f params_def)
    moreover have "opcode_wf op" using r(2,3) f len unsigned_less [of d] by (simp add: opcode_wf_header)
    ultimately show "opcode_wf op \<and> (\<exists>ys. ?m = put_opcode op @ ys) \<and> r' = advance (length (put_opcode op)) r"
      using r(4) len f by (auto simp: length_put_opcode)
  next
    assume wf: "opcode_wf op \<and> (\<exists>ys. ?m = put_opcode op @ ys) \<and> r' = advance (length (put_opcode op)) r"
    then obtain ys where ys: "?m = put_opcode op @ ys" by blast
    from wf have small: "length (op_raw_params op) < 2 ^ 32" by (simp add: opcode_wf_def)
    from m ys have f: "a = op_raw_id op" "b = op_dng_version op" "c = op_flags op"
      "d = of_nat (length (op_raw_params op))" "drop 16 ?m = op_raw_params op @ ys"
      by (simp_all add: put_opcode_def put_u32_append_inject put_u32_eq_iff)
    then have "unat d = length (op_raw_params op)" using small by (simp add: unat_of_nat)
    with f have "params = op_raw_params op" by (simp add: params_def)
    with wf ys \<open>unat d = _\<close> f show "parse_opcode3 r = Inr (Inr (op, r'))"
      unfolding run by (simp add: opcode_wf_header length_put_opcode)
  qed
qed

lemma finish_opcode3_result: "finish_opcode3 op = Inr (Inl res) \<Longrightarrow> l3_status res \<noteq> Ok"
  by (auto simp: finish_opcode3_def failed3_def unsupported3_def bind_res_eq_Inr_iff
      split: if_splits option.splits)

lemma parse_opcode3_result: "parse_opcode3 r = Inr (Inl res) \<Longrightarrow> l3_status res \<noteq> Ok"
  by (auto simp: parse_opcode3_def Let_def bind_res_eq_Inr_iff case_next_iff failed3_def
      split: if_splits dest: finish_opcode3_result)

section \<open>The whole list\<close>

lemma put_opcode_offset:
  "remaining_bytes r = put_opcode op @ ys \<Longrightarrow> rd_offset r \<le> length (rd_bytes r) \<Longrightarrow>
     rd_offset (advance (length (put_opcode op)) r) \<le> length (rd_bytes r)"
proof -
  assume a: "remaining_bytes r = put_opcode op @ ys" "rd_offset r \<le> length (rd_bytes r)"
  have "length (rd_bytes r) - rd_offset r = length (put_opcode op @ ys)"
    unfolding a(1) [symmetric] by (simp add: remaining_bytes_def)
  with a(2) show ?thesis by simp
qed

lemma parse_opcodes3_no_fault:
  "rd_offset r \<le> length (rd_bytes r) \<Longrightarrow> parse_opcodes3 n r acc \<noteq> Inl e"
proof (induction n arbitrary: r acc)
  case (Suc n)
  from parse_opcode3_no_fault [OF Suc.prems] obtain x where x: "parse_opcode3 r = Inr x"
    by (cases "parse_opcode3 r") auto
  show ?case
  proof (cases x)
    case (Inr y)
    then obtain op r' where y: "x = Inr (op, r')" by (cases y) auto
    with x parse_opcode3_iff [OF Suc.prems] obtain ys where
      "remaining_bytes r = put_opcode op @ ys" "r' = advance (length (put_opcode op)) r" by auto
    with Suc.prems have "rd_offset r' \<le> length (rd_bytes r')" using put_opcode_offset by auto
    from Suc.IH [OF this] x y show ?thesis by simp
  qed (use x in simp)
qed simp

lemma parse_opcodes3_iff:
  "rd_offset r \<le> length (rd_bytes r) \<Longrightarrow>
   (parse_opcodes3 n r acc = Inr res \<and> l3_status res = Ok \<longleftrightarrow>
     (\<exists>ops ys. length ops = n \<and> list_all opcode_wf ops \<and>
        remaining_bytes r = concat (map put_opcode ops) @ ys \<and>
        res = \<lparr>l3_status = Ok, l3_opcodes = acc @ ops, l3_message = []\<rparr>))"
proof (induction n arbitrary: r acc)
  case 0
  then show ?case by auto
next
  case (Suc n)
  note off = Suc.prems
  from parse_opcode3_no_fault [OF off] obtain x where x: "parse_opcode3 r = Inr x"
    by (cases "parse_opcode3 r") auto
  show ?case
  proof (cases x)
    case (Inl res')
    then have "l3_status res' \<noteq> Ok" using x parse_opcode3_result by blast
    moreover have no: False if "opcode_wf op" "remaining_bytes r = put_opcode op @ ys" for op ys
      using parse_opcode3_iff [OF off, of op "advance (length (put_opcode op)) r"] that x Inl by auto
    have "\<not> (length ops = Suc n \<and> list_all opcode_wf ops \<and>
        remaining_bytes r = concat (map put_opcode ops) @ ys)" for ops ys
      using no [of "hd ops" "concat (map put_opcode (tl ops)) @ ys"] by (cases ops) auto
    ultimately show ?thesis using x Inl by (auto simp del: concat_append)
  next
    case (Inr y)
    then obtain op r' where y: "x = Inr (op, r')" by (cases y) auto
    with x parse_opcode3_iff [OF off] obtain ys where op: "opcode_wf op"
      "remaining_bytes r = put_opcode op @ ys" "r' = advance (length (put_opcode op)) r" by auto
    then have "rd_offset r' \<le> length (rd_bytes r')" using put_opcode_offset [OF _ off] by auto
    note IH = Suc.IH [OF this, of "acc @ [op]"]
    have unique: "op' = op" if "opcode_wf op'" "remaining_bytes r = put_opcode op' @ zs" for op' zs
      using parse_opcode3_iff [OF off, of op' "advance (length (put_opcode op')) r"] that x y by auto
    have "parse_opcodes3 (Suc n) r acc = parse_opcodes3 n r' (acc @ [op])" using x y by simp
    moreover have "remaining_bytes r' = ys" using op(2,3) by simp
    ultimately have "parse_opcodes3 (Suc n) r acc = Inr res \<and> l3_status res = Ok \<longleftrightarrow>
      (\<exists>ops zs. length ops = n \<and> list_all opcode_wf ops \<and> ys = concat (map put_opcode ops) @ zs \<and>
        res = \<lparr>l3_status = Ok, l3_opcodes = acc @ op # ops, l3_message = []\<rparr>)" using IH by simp
    also have "\<dots> \<longleftrightarrow> (\<exists>ops zs. length ops = Suc n \<and> list_all opcode_wf ops \<and>
        remaining_bytes r = concat (map put_opcode ops) @ zs \<and>
        res = \<lparr>l3_status = Ok, l3_opcodes = acc @ ops, l3_message = []\<rparr>)" (is "?L \<longleftrightarrow> ?R")
    proof
      assume ?L
      then obtain ops zs where "length ops = n" "list_all opcode_wf ops" "ys = concat (map put_opcode ops) @ zs"
        "res = \<lparr>l3_status = Ok, l3_opcodes = acc @ op # ops, l3_message = []\<rparr>" by blast
      with op show ?R by (intro exI [of _ "op # ops"] exI [of _ zs]) simp
    next
      assume ?R
      then obtain op' ops zs where r: "length ops = n" "opcode_wf op'" "list_all opcode_wf ops"
        "remaining_bytes r = put_opcode op' @ concat (map put_opcode ops) @ zs"
        "res = \<lparr>l3_status = Ok, l3_opcodes = acc @ op' # ops, l3_message = []\<rparr>"
        by (auto simp: length_Suc_conv)
      from unique [OF r(2,4)] r op(2) show ?L by auto
    qed
    finally show ?thesis .
  qed
qed

text \<open>
  C11: The parser of OpcodeList3 never reads outside its input: on every byte sequence it returns a
  result, and the only way it can fail to is that the memory reserved for the claimed number of opcodes
  is not available.
\<close>

theorem parse_opcode_list3_safe:
  "parse_opcode_list3 can_reserve bytes \<noteq> Inl OutOfBounds \<and>
   ((\<exists>res. parse_opcode_list3 can_reserve bytes = Inr res) \<or>
    (\<exists>count rest. bytes = put_u32 count @ rest \<and> \<not> can_reserve (unat count)))"
proof (cases "bytes = [] \<or> length bytes < 4")
  case True
  then show ?thesis by (auto simp: parse_opcode_list3_def can_read_def reader_of_def)
next
  case False
  then obtain count where c: "read_u32 (reader_of bytes) = Inr (count, advance 4 (reader_of bytes))"
    "take 4 bytes = put_u32 count" using u32.get_ok [of "reader_of bytes"] by auto
  have "can_read 4 (reader_of bytes)" using False by (simp add: can_read_def reader_of_def)
  with c False have "parse_opcode_list3 can_reserve bytes =
      (if \<not> can_reserve (unat count) then Inl BadAlloc
       else parse_opcodes3 (unat count) (advance 4 (reader_of bytes)) [])"
    by (simp add: parse_opcode_list3_def)
  moreover have "parse_opcodes3 (unat count) (advance 4 (reader_of bytes)) [] \<noteq> Inl e" for e
    using False by (intro parse_opcodes3_no_fault) (simp add: reader_of_def)
  then obtain res where "parse_opcodes3 (unat count) (advance 4 (reader_of bytes)) [] = Inr res"
    by (cases "parse_opcodes3 (unat count) (advance 4 (reader_of bytes)) []") auto
  ultimately show ?thesis using take_eq_append_drop [OF c(2)] by auto
qed

text \<open>
  C12: The parser of OpcodeList3 and the byte format agree: it returns a list of opcodes with status OK
  exactly when the input is empty (and the list too) or starts with the encoding of that list, all
  opcodes being well-formed - header, optional flag, raw parameters and decoded parameters agree, and an
  opcode of unknown kind is optional. So parsing an encoded list gives it back, and nothing else is
  accepted.
\<close>

theorem parse_opcode_list3_iff:
  "(parse_opcode_list3 can_reserve bytes = Inr res \<and> l3_status res = Ok) \<longleftrightarrow>
   (\<exists>ops. res = \<lparr>l3_status = Ok, l3_opcodes = ops, l3_message = []\<rparr> \<and>
     (bytes = [] \<and> ops = [] \<or>
      (\<exists>rest. bytes = put_opcode_list ops @ rest) \<and> list_all opcode_wf ops \<and> length ops < 2 ^ 32 \<and>
        can_reserve (length ops)))"
proof (cases "length bytes < 4")
  case True
  then show ?thesis
    by (auto simp: parse_opcode_list3_def can_read_def reader_of_def failed3_def put_opcode_list_def)
next
  case False
  then obtain count where c: "read_u32 (reader_of bytes) = Inr (count, advance 4 (reader_of bytes))"
    "take 4 bytes = put_u32 count" using u32.get_ok [of "reader_of bytes"] by auto
  let ?r = "advance 4 (reader_of bytes)"
  have bytes: "bytes = put_u32 count @ drop 4 bytes" by (rule take_eq_append_drop [OF c(2)])
  have "can_read 4 (reader_of bytes)" using False by (simp add: can_read_def reader_of_def)
  with c False have "parse_opcode_list3 can_reserve bytes =
      (if \<not> can_reserve (unat count) then Inl BadAlloc else parse_opcodes3 (unat count) ?r [])"
    by (auto simp: parse_opcode_list3_def)
  moreover have "rd_offset ?r \<le> length (rd_bytes ?r)" using False by (simp add: reader_of_def)
  ultimately have "(parse_opcode_list3 can_reserve bytes = Inr res \<and> l3_status res = Ok) \<longleftrightarrow>
      can_reserve (unat count) \<and> (\<exists>ops ys. length ops = unat count \<and> list_all opcode_wf ops \<and>
        drop 4 bytes = concat (map put_opcode ops) @ ys \<and>
        res = \<lparr>l3_status = Ok, l3_opcodes = ops, l3_message = []\<rparr>)"
    using parse_opcodes3_iff [of ?r "unat count" "[]" res] by auto
  also have "\<dots> \<longleftrightarrow> (\<exists>ops. res = \<lparr>l3_status = Ok, l3_opcodes = ops, l3_message = []\<rparr> \<and>
      (\<exists>rest. bytes = put_opcode_list ops @ rest) \<and> list_all opcode_wf ops \<and> length ops < 2 ^ 32 \<and>
      can_reserve (length ops))"
  proof -
    have "(length ops = unat count \<and> drop 4 bytes = concat (map put_opcode ops) @ ys) \<longleftrightarrow>
        (bytes = put_opcode_list ops @ ys \<and> length ops < 2 ^ 32)" for ops :: "opcode list" and ys
    proof -
      have "(bytes = put_opcode_list ops @ ys) \<longleftrightarrow>
          count = of_nat (length ops) \<and> drop 4 bytes = concat (map put_opcode ops) @ ys"
        by (subst bytes) (simp add: put_opcode_list_def put_u32_append_inject)
      moreover have "length ops = unat count \<longleftrightarrow> count = of_nat (length ops) \<and> length ops < 2 ^ 32"
        using unsigned_less [of count] by (auto simp: unat_of_nat)
      ultimately show ?thesis by auto
    qed
    then show ?thesis by metis
  qed
  finally show ?thesis using False by auto
qed

end
