(* ===== verification/Tiff_Parser.thy ===== *)
theory Tiff_Parser
  imports Byte_Reader Float_Bits Core_Types Buffer_Metadata
begin

text \<open>
  The TIFF/DNG metadata parser (\<open>include/cpipe/ingest/dng_opcode/OpcodeList.hpp\<close>,
  \<open>src/cpipe/ingest/dng_opcode/OpcodeListParser.cpp\<close>). Offsets the code computes in 32 bits wrap here too;
  an index outside the file is the fault \<open>OutOfBounds\<close>, a float that does not fit the integer it is cast to
  is \<open>BadCast\<close> (both are undefined behaviour in C++).
\<close>

section \<open>Constants and data\<close>

definition kTiffMagic :: u16 where "kTiffMagic = 42"
definition kTypeByte :: u16 where "kTypeByte = 1"
definition kTypeAscii :: u16 where "kTypeAscii = 2"
definition kTypeShort :: u16 where "kTypeShort = 3"
definition kTypeLong :: u16 where "kTypeLong = 4"
definition kTypeRational :: u16 where "kTypeRational = 5"
definition kTypeUndefined :: u16 where "kTypeUndefined = 7"
definition kTypeSRational :: u16 where "kTypeSRational = 10"

definition kTagImageWidth :: u16 where "kTagImageWidth = 256"
definition kTagImageLength :: u16 where "kTagImageLength = 257"
definition kTagBitsPerSample :: u16 where "kTagBitsPerSample = 258"
definition kTagCompression :: u16 where "kTagCompression = 259"
definition kTagPhotometricInterpretation :: u16 where "kTagPhotometricInterpretation = 262"
definition kTagMake :: u16 where "kTagMake = 271"
definition kTagModel :: u16 where "kTagModel = 272"
definition kTagStripOffsets :: u16 where "kTagStripOffsets = 273"
definition kTagOrientation :: u16 where "kTagOrientation = 274"
definition kTagSamplesPerPixel :: u16 where "kTagSamplesPerPixel = 277"
definition kTagStripByteCounts :: u16 where "kTagStripByteCounts = 279"
definition kTagXmp :: u16 where "kTagXmp = 700"
definition kTagCfaRepeatPatternDim :: u16 where "kTagCfaRepeatPatternDim = 33421"
definition kTagCfaPattern :: u16 where "kTagCfaPattern = 33422"
definition kTagExposureTime :: u16 where "kTagExposureTime = 33434"
definition kTagFNumber :: u16 where "kTagFNumber = 33437"
definition kTagExifIFD :: u16 where "kTagExifIFD = 34665"
definition kTagIccProfile :: u16 where "kTagIccProfile = 34675"
definition kTagIsoSpeedRatings :: u16 where "kTagIsoSpeedRatings = 34855"
definition kTagFocalLength :: u16 where "kTagFocalLength = 37386"
definition kTagLinearizationTable :: u16 where "kTagLinearizationTable = 50712"
definition kTagBlackLevel :: u16 where "kTagBlackLevel = 50714"
definition kTagWhiteLevel :: u16 where "kTagWhiteLevel = 50717"
definition kTagColorMatrix1 :: u16 where "kTagColorMatrix1 = 50721"
definition kTagColorMatrix2 :: u16 where "kTagColorMatrix2 = 50722"
definition kTagAsShotNeutral :: u16 where "kTagAsShotNeutral = 50728"
definition kTagCalibrationIlluminant1 :: u16 where "kTagCalibrationIlluminant1 = 50778"
definition kTagCalibrationIlluminant2 :: u16 where "kTagCalibrationIlluminant2 = 50779"
definition kTagActiveArea :: u16 where "kTagActiveArea = 50829"
definition kTagForwardMatrix1 :: u16 where "kTagForwardMatrix1 = 50964"
definition kTagForwardMatrix2 :: u16 where "kTagForwardMatrix2 = 50965"
definition kTagOpcodeList1 :: u16 where "kTagOpcodeList1 = 51008"
definition kTagOpcodeList2 :: u16 where "kTagOpcodeList2 = 51009"
definition kTagOpcodeList3 :: u16 where "kTagOpcodeList3 = 51022"

definition kCompressionNone :: u32 where "kCompressionNone = 1"
definition kPhotometricCfa :: u32 where "kPhotometricCfa = 32803"

record entry =
  en_tag :: u16
  en_type :: u16
  en_count :: u32
  en_value_or_offset :: u32

record parsed_dng_metadata =
  pd_width :: u32
  pd_height :: u32
  pd_bits_per_sample :: u16
  pd_strip_offset :: u32
  pd_strip_byte_count :: u32
  pd_calibration :: calibration_block
  pd_capture :: capture_block
  pd_active_area :: "rect2u option"
  pd_make :: string
  pd_model :: string
  pd_linearization_table :: "u16 list"
  pd_exif_blob :: "byte list"
  pd_xmp_blob :: "byte list"
  pd_icc_blob :: "byte list"
  pd_opcode_list_1 :: "byte list"
  pd_opcode_list_2 :: "byte list"
  pd_opcode_list_3 :: "byte list"

definition default_parsed :: parsed_dng_metadata where
  "default_parsed = \<lparr>pd_width = 0, pd_height = 0, pd_bits_per_sample = 0, pd_strip_offset = 0,
     pd_strip_byte_count = 0, pd_calibration = default_calibration, pd_capture = default_capture,
     pd_active_area = None, pd_make = [], pd_model = [], pd_linearization_table = [], pd_exif_blob = [],
     pd_xmp_blob = [], pd_icc_blob = [], pd_opcode_list_1 = [], pd_opcode_list_2 = [], pd_opcode_list_3 = []\<rparr>"

record parse_result =
  pr_status :: status_code
  pr_metadata :: parsed_dng_metadata
  pr_message :: string

section \<open>Little-endian reads\<close>

definition read_u16_at :: "byte list \<Rightarrow> nat \<Rightarrow> fault + u16" where
  "read_u16_at bytes i =
     bind_res (byte_at bytes i) (\<lambda>b0.
     bind_res (byte_at bytes (i + 1)) (\<lambda>b1.
     Inr (or (ucast b0) (push_bit 8 (ucast b1)))))"

definition read_u32_at :: "byte list \<Rightarrow> nat \<Rightarrow> fault + u32" where
  "read_u32_at bytes i =
     bind_res (read_u16_at bytes i) (\<lambda>low.
     bind_res (read_u16_at bytes (i + 2)) (\<lambda>high.
     Inr (or (ucast low) (push_bit 16 (ucast high)))))"

definition read_i32_at :: "byte list \<Rightarrow> nat \<Rightarrow> fault + int" where
  "read_i32_at bytes i = bind_res (read_u32_at bytes i) (\<lambda>w. Inr (sint w))"

section \<open>Entries of an image file directory\<close>

definition type_size :: "u16 \<Rightarrow> u32" where
  "type_size type =
     (if type = kTypeByte \<or> type = kTypeAscii \<or> type = kTypeUndefined then 1
      else if type = kTypeShort then 2
      else if type = kTypeLong then 4
      else if type = kTypeRational \<or> type = kTypeSRational then 8
      else 0)"

definition entry_byte_count :: "entry \<Rightarrow> u64" where
  "entry_byte_count e = ucast (en_count e) * ucast (type_size (en_type e))"

text \<open>The values of an entry: up to four bytes are stored in the entry itself.\<close>

definition entry_data :: "byte list \<Rightarrow> entry \<Rightarrow> byte list" where
  "entry_data bytes e =
     (let n = unat (entry_byte_count e)
      in if type_size (en_type e) = 0 \<or> n = 0 \<or> n > length bytes then []
         else if n \<le> 4 then map (\<lambda>i. ucast (drop_bit (8 * i) (en_value_or_offset e))) [0..<n]
         else if unat (en_value_or_offset e) > length bytes \<or> n > length bytes - unat (en_value_or_offset e)
         then []
         else take n (drop (unat (en_value_or_offset e)) bytes))"

definition find_entry :: "entry list \<Rightarrow> u16 \<Rightarrow> entry option" where
  "find_entry entries tag = find (\<lambda>e. en_tag e = tag) entries"

text \<open>The offsets of a directory are 32-bit sums.\<close>

definition read_entry :: "byte list \<Rightarrow> u32 \<Rightarrow> fault + entry" where
  "read_entry bytes offset =
     bind_res (read_u16_at bytes (unat offset)) (\<lambda>tag.
     bind_res (read_u16_at bytes (unat (offset + 2))) (\<lambda>type.
     bind_res (read_u32_at bytes (unat (offset + 4))) (\<lambda>count.
     bind_res (read_u32_at bytes (unat (offset + 8))) (\<lambda>value.
     Inr \<lparr>en_tag = tag, en_type = type, en_count = count, en_value_or_offset = value\<rparr>))))"

definition read_entries :: "byte list \<Rightarrow> u32 \<Rightarrow> fault + entry list option" where
  "read_entries bytes ifd_offset =
     (if unat (ifd_offset + 2) > length bytes then Inr None
      else
        bind_res (read_u16_at bytes (unat ifd_offset)) (\<lambda>entry_count.
        let entries_offset = ifd_offset + 2
        in if unat entries_offset + unat entry_count * 12 > length bytes then Inr None
           else
             bind_res (map_res (\<lambda>i. read_entry bytes (entries_offset + of_nat i * 12)) [0..<unat entry_count])
               (\<lambda>entries. Inr (Some entries))))"

definition copy_ifd_bytes :: "byte list \<Rightarrow> u32 \<Rightarrow> fault + byte list" where
  "copy_ifd_bytes bytes ifd_offset =
     (if unat (ifd_offset + 2) > length bytes then Inr []
      else
        bind_res (read_u16_at bytes (unat ifd_offset)) (\<lambda>entry_count.
        let byte_count = 2 + unat entry_count * 12 + 4
        in if byte_count > length bytes \<or> unat ifd_offset > length bytes - byte_count then Inr []
           else Inr (take byte_count (drop (unat ifd_offset) bytes))))"

section \<open>Values of entries\<close>

definition first_u32 :: "byte list \<Rightarrow> entry \<Rightarrow> fault + u32" where
  "first_u32 bytes e =
     (let data = entry_data bytes e
      in if data = [] then Inr 0
         else if en_type e = kTypeShort \<and> length data \<ge> 2
         then bind_res (read_u16_at data 0) (\<lambda>w. Inr (ucast w))
         else if en_type e = kTypeLong \<and> length data \<ge> 4 then read_u32_at data 0
         else if en_type e = kTypeByte then bind_res (byte_at data 0) (\<lambda>b. Inr (ucast b))
         else Inr 0)"

definition u32_values :: "byte list \<Rightarrow> entry \<Rightarrow> fault + u32 list" where
  "u32_values bytes e =
     (let data = entry_data bytes e; count = unat (en_count e)
      in if data = [] then Inr []
         else if en_type e = kTypeByte \<and> length data \<ge> count
         then map_res (\<lambda>i. bind_res (byte_at data i) (\<lambda>b. Inr (ucast b))) [0..<count]
         else if en_type e = kTypeShort \<and> length data \<ge> count * 2
         then map_res (\<lambda>i. bind_res (read_u16_at data (i * 2)) (\<lambda>w. Inr (ucast w))) [0..<count]
         else if en_type e = kTypeLong \<and> length data \<ge> count * 4
         then map_res (\<lambda>i. read_u32_at data (i * 4)) [0..<count]
         else Inr [])"

definition shorts :: "byte list \<Rightarrow> entry \<Rightarrow> fault + u16 list" where
  "shorts bytes e =
     bind_res (u32_values bytes e) (\<lambda>vs.
     if en_type e \<noteq> kTypeShort then Inr [] else Inr (map ucast vs))"

definition read_number :: "u16 \<Rightarrow> byte list \<Rightarrow> u32 \<Rightarrow> fault + f32" where
  "read_number type data offset =
     (if type = kTypeRational then bind_res (read_u32_at data (unat offset)) (\<lambda>w. Inr (f32_of_u32 w))
      else bind_res (read_i32_at data (unat offset)) (\<lambda>i. Inr (f32_of_i32 i)))"

definition read_rational :: "u16 \<Rightarrow> byte list \<Rightarrow> u32 \<Rightarrow> fault + f32" where
  "read_rational type data offset =
     bind_res (read_number type data (offset + 4)) (\<lambda>denominator.
     if f32_is_zero denominator then Inr 0
     else bind_res (read_number type data offset) (\<lambda>numerator. Inr (f32_div numerator denominator)))"

definition numeric_values :: "byte list \<Rightarrow> entry \<Rightarrow> fault + f32 list" where
  "numeric_values bytes e =
     (let data = entry_data bytes e; count = unat (en_count e)
      in if data = [] then Inr []
         else if en_type e = kTypeByte \<or> en_type e = kTypeShort \<or> en_type e = kTypeLong
         then bind_res (u32_values bytes e) (\<lambda>vs. Inr (map f32_of_u32 vs))
         else if en_type e \<noteq> kTypeRational \<and> en_type e \<noteq> kTypeSRational \<or> length data < count * 8
         then Inr []
         else map_res (\<lambda>i. read_rational (en_type e) data (of_nat i * 8)) [0..<count])"

definition ascii :: "byte list \<Rightarrow> entry \<Rightarrow> string" where
  "ascii bytes e =
     (let data = entry_data bytes e
      in if en_type e \<noteq> kTypeAscii \<or> data = [] then []
         else map (\<lambda>b. char_of (unat b)) (takeWhile (\<lambda>b. b \<noteq> 0) data))"

definition blob :: "byte list \<Rightarrow> entry \<Rightarrow> byte list" where
  "blob bytes e = entry_data bytes e"

text \<open>A loop that overwrites the first elements of a fixed array.\<close>

definition overlay :: "'a list \<Rightarrow> 'a list \<Rightarrow> 'a list" where
  "overlay array vs = take (length array) vs @ drop (length vs) array"

definition default_matrix3 :: matrix3 where
  "default_matrix3 = replicate 9 0"

definition matrix3 :: "byte list \<Rightarrow> entry \<Rightarrow> fault + matrix3" where
  "matrix3 bytes e = bind_res (numeric_values bytes e) (\<lambda>vs. Inr (overlay default_matrix3 vs))"

section \<open>Applying tags\<close>

text \<open>\<open>if (const auto entry = find_entry(...)) { ... }\<close>\<close>

definition with_entry :: "entry list \<Rightarrow> u16 \<Rightarrow> (entry \<Rightarrow> 's \<Rightarrow> fault + 's) \<Rightarrow> 's \<Rightarrow> fault + 's" where
  "with_entry entries tag f s = (case find_entry entries tag of None \<Rightarrow> Inr s | Some e \<Rightarrow> f e s)"

text \<open>A cast of a float to \<open>std::int64_t\<close>.\<close>

definition cast_i64 :: "f32 \<Rightarrow> fault + int" where
  "cast_i64 x =
     (case f32_trunc x of
        None \<Rightarrow> Inl BadCast
      | Some i \<Rightarrow> if - (2 ^ 63) \<le> i \<and> i < 2 ^ 63 then Inr i else Inl BadCast)"

text \<open>The bit pattern of \<open>1'000'000'000.0F\<close>.\<close>

definition f32_billion :: f32 where
  "f32_billion = 0x4E6E6B28"

definition apply_capture_entries :: "byte list \<Rightarrow> entry list \<Rightarrow> capture_block \<Rightarrow> fault + capture_block" where
  "apply_capture_entries bytes entries cap =
     bind_res (with_entry entries kTagExposureTime (\<lambda>e c.
       bind_res (numeric_values bytes e) (\<lambda>vs.
       case vs of [] \<Rightarrow> Inr c
       | v # _ \<Rightarrow> bind_res (cast_i64 (f32_mul v f32_billion)) (\<lambda>t. Inr (c\<lparr>exposure_time_ns := t\<rparr>)))) cap) (\<lambda>c.
     bind_res (with_entry entries kTagIsoSpeedRatings (\<lambda>e c.
       bind_res (first_u32 bytes e) (\<lambda>w. Inr (c\<lparr>iso := sint w\<rparr>))) c) (\<lambda>c.
     bind_res (with_entry entries kTagFNumber (\<lambda>e c.
       bind_res (numeric_values bytes e) (\<lambda>vs.
       case vs of [] \<Rightarrow> Inr c | v # _ \<Rightarrow> Inr (c\<lparr>lens_aperture := v\<rparr>))) c) (\<lambda>c.
     with_entry entries kTagFocalLength (\<lambda>e c.
       bind_res (numeric_values bytes e) (\<lambda>vs.
       case vs of [] \<Rightarrow> Inr c | v # _ \<Rightarrow> Inr (c\<lparr>lens_focal_length_mm := v\<rparr>))) c)))"

definition apply_u32 :: "byte list \<Rightarrow> entry list \<Rightarrow> u16 \<Rightarrow> (u32 \<Rightarrow> parsed_dng_metadata \<Rightarrow> parsed_dng_metadata) \<Rightarrow>
    parsed_dng_metadata \<Rightarrow> fault + parsed_dng_metadata" where
  "apply_u32 bytes entries tag setter out =
     with_entry entries tag (\<lambda>e out. bind_res (first_u32 bytes e) (\<lambda>w. Inr (setter w out))) out"

definition first_or :: "byte list \<Rightarrow> entry list \<Rightarrow> u16 \<Rightarrow> u32 \<Rightarrow> fault + u32" where
  "first_or bytes entries tag fallback =
     (case find_entry entries tag of None \<Rightarrow> Inr fallback | Some e \<Rightarrow> first_u32 bytes e)"

definition with_calibration ::
  "(calibration_block \<Rightarrow> calibration_block) \<Rightarrow> parsed_dng_metadata \<Rightarrow> parsed_dng_metadata" where
  "with_calibration f out = out\<lparr>pd_calibration := f (pd_calibration out)\<rparr>"

definition with_capture ::
  "(capture_block \<Rightarrow> capture_block) \<Rightarrow> parsed_dng_metadata \<Rightarrow> parsed_dng_metadata" where
  "with_capture f out = out\<lparr>pd_capture := f (pd_capture out)\<rparr>"

text \<open>The scalar tags in the order of the source.\<close>

definition scalar_tags :: "(u16 \<times> (u32 \<Rightarrow> parsed_dng_metadata \<Rightarrow> parsed_dng_metadata)) list" where
  "scalar_tags =
     [(kTagImageWidth, \<lambda>v out. out\<lparr>pd_width := v\<rparr>),
      (kTagImageLength, \<lambda>v out. out\<lparr>pd_height := v\<rparr>),
      (kTagBitsPerSample, \<lambda>v out. out\<lparr>pd_bits_per_sample := ucast v\<rparr>),
      (kTagStripOffsets, \<lambda>v out. out\<lparr>pd_strip_offset := v\<rparr>),
      (kTagStripByteCounts, \<lambda>v out. out\<lparr>pd_strip_byte_count := v\<rparr>),
      (kTagOrientation, \<lambda>v. with_capture (\<lambda>c. c\<lparr>orientation := ucast v\<rparr>)),
      (kTagWhiteLevel, \<lambda>v. with_calibration (\<lambda>c. c\<lparr>white_level := v\<rparr>)),
      (kTagCalibrationIlluminant1, \<lambda>v. with_calibration (\<lambda>c. c\<lparr>calibration_illuminant1 := ucast v\<rparr>)),
      (kTagCalibrationIlluminant2, \<lambda>v. with_calibration (\<lambda>c. c\<lparr>calibration_illuminant2 := ucast v\<rparr>))]"

definition apply_scalars :: "byte list \<Rightarrow> entry list \<Rightarrow> parsed_dng_metadata \<Rightarrow> fault + parsed_dng_metadata" where
  "apply_scalars bytes entries out =
     fold_res (\<lambda>(tag, setter). apply_u32 bytes entries tag setter) scalar_tags out"

definition apply_names :: "byte list \<Rightarrow> entry list \<Rightarrow> parsed_dng_metadata \<Rightarrow> fault + parsed_dng_metadata" where
  "apply_names bytes entries out =
     bind_res (with_entry entries kTagMake (\<lambda>e out.
       Inr (with_capture (\<lambda>c. c\<lparr>camera_id := ascii bytes e\<rparr>) (out\<lparr>pd_make := ascii bytes e\<rparr>))) out) (\<lambda>out.
     with_entry entries kTagModel (\<lambda>e out.
       Inr (with_capture (\<lambda>c. c\<lparr>physical_camera_id := ascii bytes e\<rparr>) (out\<lparr>pd_model := ascii bytes e\<rparr>))) out)"

text \<open>
  The colour filter array: a supported repeat pattern and a pattern of exactly that size. \<open>Inl\<close> of the
  inner sum is the early return with its message, whose metadata is what was read so far.
\<close>

definition read_cfa_repeat :: "byte list \<Rightarrow> entry list \<Rightarrow> parsed_dng_metadata \<Rightarrow>
    fault + string + parsed_dng_metadata" where
  "read_cfa_repeat bytes entries out =
     (case find_entry entries kTagCfaRepeatPatternDim of
        None \<Rightarrow> Inr (Inl ''DNG is missing CFARepeatPatternDim'')
      | Some e \<Rightarrow>
          bind_res (shorts bytes e) (\<lambda>rep.
          if length rep \<noteq> 2 then Inr (Inl ''only 2x2 Bayer or 4x4 Quad Bayer DNG is supported'')
          else if \<not> (rep ! 0 = rep ! 1 \<and> (rep ! 0 = 2 \<or> rep ! 0 = 4))
          then Inr (Inl ''only 2x2 Bayer or 4x4 Quad Bayer DNG is supported'')
          else Inr (Inr (with_calibration (\<lambda>c.
            c\<lparr>cfa := Some (default_cfa\<lparr>cfa_repeat := [ucast (rep ! 0), ucast (rep ! 1)]\<rparr>)\<rparr>) out))))"

definition cfa_with_pattern :: "byte list \<Rightarrow> cfa_descriptor \<Rightarrow> cfa_descriptor option" where
  "cfa_with_pattern data d =
     (let expected_count = unat (cfa_repeat d ! 0) * unat (cfa_repeat d ! 1)
      in if length data = expected_count \<and> expected_count \<le> length (cfa_pattern d)
         then Some (d\<lparr>cfa_pattern := overlay (cfa_pattern d) data\<rparr>)
         else None)"

definition read_cfa_pattern :: "byte list \<Rightarrow> entry list \<Rightarrow> parsed_dng_metadata \<Rightarrow> parsed_dng_metadata" where
  "read_cfa_pattern bytes entries out =
     with_calibration (\<lambda>c. c\<lparr>cfa :=
       (case find_entry entries kTagCfaPattern of
          None \<Rightarrow> None
        | Some e \<Rightarrow>
            (case cfa c of None \<Rightarrow> None | Some d \<Rightarrow> cfa_with_pattern (entry_data bytes e) d))\<rparr>) out"

definition apply_matrix :: "byte list \<Rightarrow> entry list \<Rightarrow> u16 \<Rightarrow>
    (matrix3 \<Rightarrow> calibration_block \<Rightarrow> calibration_block) \<Rightarrow> parsed_dng_metadata \<Rightarrow> fault + parsed_dng_metadata" where
  "apply_matrix bytes entries tag setter out =
     with_entry entries tag (\<lambda>e out.
       bind_res (matrix3 bytes e) (\<lambda>mat. Inr (with_calibration (setter mat) out))) out"

definition matrix_tags :: "(u16 \<times> (matrix3 \<Rightarrow> calibration_block \<Rightarrow> calibration_block)) list" where
  "matrix_tags =
     [(kTagColorMatrix1, \<lambda>m c. c\<lparr>color_matrix1 := Some m\<rparr>),
      (kTagColorMatrix2, \<lambda>m c. c\<lparr>color_matrix2 := Some m\<rparr>),
      (kTagForwardMatrix1, \<lambda>m c. c\<lparr>forward_matrix1 := Some m\<rparr>),
      (kTagForwardMatrix2, \<lambda>m c. c\<lparr>forward_matrix2 := Some m\<rparr>)]"

definition apply_calibration :: "byte list \<Rightarrow> entry list \<Rightarrow> parsed_dng_metadata \<Rightarrow> fault + parsed_dng_metadata" where
  "apply_calibration bytes entries out =
     bind_res (with_entry entries kTagBlackLevel (\<lambda>e out.
       bind_res (numeric_values bytes e) (\<lambda>black.
       Inr (with_calibration (\<lambda>c. c\<lparr>black_level := overlay (black_level c) black\<rparr>) out))) out) (\<lambda>out.
     bind_res (with_entry entries kTagLinearizationTable (\<lambda>e out.
       bind_res (shorts bytes e) (\<lambda>table.
       Inr (with_calibration (\<lambda>c. c\<lparr>linearization_table := Some table\<rparr>)
         (out\<lparr>pd_linearization_table := table\<rparr>)))) out) (\<lambda>out.
     fold_res (\<lambda>(tag, setter). apply_matrix bytes entries tag setter) matrix_tags out))"

definition area_of_values :: "u32 list \<Rightarrow> rect2u option \<Rightarrow> rect2u option" where
  "area_of_values vs area =
     (if length vs = 4 \<and> vs ! 2 \<ge> vs ! 0 \<and> vs ! 3 \<ge> vs ! 1
      then Some \<lparr>rect_x = vs ! 1, rect_y = vs ! 0, rect_width = vs ! 3 - vs ! 1, rect_height = vs ! 2 - vs ! 0\<rparr>
      else area)"

definition apply_exif :: "byte list \<Rightarrow> entry list \<Rightarrow> parsed_dng_metadata \<Rightarrow> fault + parsed_dng_metadata" where
  "apply_exif bytes entries out =
     with_entry entries kTagExifIFD (\<lambda>e out.
       bind_res (first_u32 bytes e) (\<lambda>exif_offset.
       bind_res (copy_ifd_bytes bytes exif_offset) (\<lambda>exif.
       bind_res (read_entries bytes exif_offset) (\<lambda>exif_entries.
       case exif_entries of
         None \<Rightarrow> Inr (out\<lparr>pd_exif_blob := exif\<rparr>)
       | Some es \<Rightarrow>
           bind_res (apply_capture_entries bytes es (pd_capture out)) (\<lambda>c.
           Inr (out\<lparr>pd_exif_blob := exif, pd_capture := c\<rparr>)))))) out"

definition apply_area :: "byte list \<Rightarrow> entry list \<Rightarrow> parsed_dng_metadata \<Rightarrow> fault + parsed_dng_metadata" where
  "apply_area bytes entries out =
     bind_res (with_entry entries kTagAsShotNeutral (\<lambda>e out.
       bind_res (numeric_values bytes e) (\<lambda>neutral.
       Inr (with_capture (\<lambda>c. c\<lparr>as_shot_neutral := overlay (as_shot_neutral c) neutral\<rparr>) out))) out) (\<lambda>out.
     with_entry entries kTagActiveArea (\<lambda>e out.
       bind_res (u32_values bytes e) (\<lambda>vs.
       Inr (out\<lparr>pd_active_area := area_of_values vs (pd_active_area out)\<rparr>))) out)"

definition blob_tags :: "(u16 \<times> (byte list \<Rightarrow> parsed_dng_metadata \<Rightarrow> parsed_dng_metadata)) list" where
  "blob_tags =
     [(kTagXmp, \<lambda>b out. out\<lparr>pd_xmp_blob := b\<rparr>),
      (kTagIccProfile, \<lambda>b out. out\<lparr>pd_icc_blob := b\<rparr>),
      (kTagOpcodeList1, \<lambda>b out. out\<lparr>pd_opcode_list_1 := b\<rparr>),
      (kTagOpcodeList2, \<lambda>b out. out\<lparr>pd_opcode_list_2 := b\<rparr>),
      (kTagOpcodeList3, \<lambda>b out. out\<lparr>pd_opcode_list_3 := b\<rparr>)]"

definition apply_blobs :: "byte list \<Rightarrow> entry list \<Rightarrow> parsed_dng_metadata \<Rightarrow> fault + parsed_dng_metadata" where
  "apply_blobs bytes entries out =
     fold_res (\<lambda>(tag, setter). with_entry entries tag (\<lambda>e out. Inr (setter (blob bytes e) out))) blob_tags out"

section \<open>The parser\<close>

definition failed_parse :: "string \<Rightarrow> parse_result" where
  "failed_parse message = \<lparr>pr_status = Failed, pr_metadata = default_parsed, pr_message = message\<rparr>"

definition unsupported_parse :: "parsed_dng_metadata \<Rightarrow> string \<Rightarrow> parse_result" where
  "unsupported_parse out message = \<lparr>pr_status = Unsupported, pr_metadata = out, pr_message = message\<rparr>"

definition finish_parse :: "u32 \<Rightarrow> parsed_dng_metadata \<Rightarrow> parse_result" where
  "finish_parse compression out =
     (if pd_width out = 0 \<or> pd_height out = 0 \<or> pd_bits_per_sample out = 0 \<or> pd_bits_per_sample out > 16 \<or>
         pd_strip_byte_count out = 0
      then failed_parse ''DNG is missing required RAW fields''
      else if compression \<noteq> kCompressionNone \<and> pd_strip_offset out = 0
      then failed_parse ''compressed DNG is missing a raw strip offset''
      else \<lparr>pr_status = Ok, pr_metadata = out, pr_message = []\<rparr>)"

definition parse_tail :: "byte list \<Rightarrow> entry list \<Rightarrow> u32 \<Rightarrow> parsed_dng_metadata \<Rightarrow> fault + parse_result" where
  "parse_tail bytes entries compression out =
     bind_res (apply_calibration bytes entries out) (\<lambda>out.
     bind_res (apply_area bytes entries out) (\<lambda>out.
     bind_res (apply_exif bytes entries out) (\<lambda>out.
     bind_res (apply_blobs bytes entries out) (\<lambda>out.
     Inr (finish_parse compression out)))))"

definition parse_cfa :: "byte list \<Rightarrow> entry list \<Rightarrow> u32 \<Rightarrow> parsed_dng_metadata \<Rightarrow> fault + parse_result" where
  "parse_cfa bytes entries compression out =
     bind_res (read_cfa_repeat bytes entries out) (\<lambda>res.
     case res of
       Inl message \<Rightarrow> Inr (unsupported_parse out message)
     | Inr out \<Rightarrow>
         let out = read_cfa_pattern bytes entries out
         in if cfa (pd_calibration out) = None
            then Inr (unsupported_parse out ''DNG is missing a supported CFA pattern'')
            else parse_tail bytes entries compression out)"

definition parse_entries :: "byte list \<Rightarrow> entry list \<Rightarrow> fault + parse_result" where
  "parse_entries bytes entries =
     bind_res (first_or bytes entries kTagCompression kCompressionNone) (\<lambda>compression.
     bind_res (first_or bytes entries kTagPhotometricInterpretation kPhotometricCfa) (\<lambda>photometric.
     bind_res (first_or bytes entries kTagSamplesPerPixel 1) (\<lambda>samples_per_pixel.
     if photometric \<noteq> kPhotometricCfa \<or> samples_per_pixel \<noteq> 1
     then Inr (unsupported_parse default_parsed ''only single-plane Bayer CFA DNG is supported in P1'')
     else
       bind_res (apply_scalars bytes entries default_parsed) (\<lambda>out.
       bind_res (apply_capture_entries bytes entries (pd_capture out)) (\<lambda>c.
       bind_res (apply_names bytes entries (out\<lparr>pd_capture := c\<rparr>)) (\<lambda>out.
       parse_cfa bytes entries compression out))))))"

text \<open>\<open>file\<close> is the content of the file, \<open>None\<close> when it cannot be opened.\<close>

definition parse_dng :: "byte list option \<Rightarrow> fault + parse_result" where
  "parse_dng file =
     (case file of
        None \<Rightarrow> Inr (failed_parse ''failed to open DNG'')
      | Some bytes \<Rightarrow>
          if length bytes < 8 \<or> bytes ! 0 \<noteq> 0x49 \<or> bytes ! 1 \<noteq> 0x49
          then Inr (failed_parse ''unsupported DNG/TIFF header'')
          else
            bind_res (read_u16_at bytes 2) (\<lambda>magic.
            if magic \<noteq> kTiffMagic then Inr (failed_parse ''unsupported DNG/TIFF header'')
            else
              bind_res (read_u32_at bytes 4) (\<lambda>ifd_offset.
              bind_res (read_entries bytes ifd_offset) (\<lambda>entries.
              case entries of
                None \<Rightarrow> Inr (failed_parse ''invalid IFD table'')
              | Some es \<Rightarrow> parse_entries bytes es))))"

end
