(* ===== verification/Float_Bounds.thy ===== *)
theory Float_Bounds
  imports Complex_Main Float_Bits
begin

text \<open>
  Bounds on rounded single precision results: a quotient between two powers of two stays between them
  after rounding. The parsers cast such results to integers, which is undefined behaviour out of range.
\<close>

section \<open>Logarithms and fractions\<close>

lemma ilog2_nonneg: "0 \<le> ilog2 n"
proof (induction n rule: ilog2.induct)
  case (1 n)
  then show ?case by (subst ilog2.simps) auto
qed

lemma ilog2_bounds:
  "1 \<le> n \<Longrightarrow> 2 powi ilog2 n \<le> real_of_int n \<and> real_of_int n < 2 powi (ilog2 n + 1)"
proof (induction n rule: ilog2.induct)
  case (1 n)
  show ?case
  proof (cases "n < 2")
    case True
    with 1(2) show ?thesis by (simp add: ilog2.simps)
  next
    case False
    have l: "ilog2 n = 1 + ilog2 (n div 2)" using False by (subst ilog2.simps) simp
    have IH: "2 powi ilog2 (n div 2) \<le> real_of_int (n div 2)" "real_of_int (n div 2) < 2 powi (ilog2 (n div 2) + 1)"
      using 1 False by simp_all
    have half: "2 * (n div 2) \<le> n" "n \<le> 2 * (n div 2) + 1" by simp_all
    then have "2 * real_of_int (n div 2) \<le> real_of_int n" "real_of_int n \<le> 2 * real_of_int (n div 2) + 1"
      by linarith+
    moreover have "real_of_int (n div 2) + 1 \<le> 2 powi (ilog2 (n div 2) + 1)"
    proof -
      obtain j where j: "ilog2 (n div 2) + 1 = int j" using ilog2_nonneg [of "n div 2"] by (metis add_nonneg_nonneg zero_le_one nonneg_int_cases)
      with IH(2) have "n div 2 < 2 ^ j" by simp
      then have "n div 2 + 1 \<le> 2 ^ j" by simp
      then have "real_of_int (n div 2 + 1) \<le> real_of_int (2 ^ j)" by (simp only: of_int_le_iff)
      with j show ?thesis by (simp add: power_int_of_nat)
    qed
    ultimately show ?thesis using IH(1) unfolding l by (simp add: power_int_add)
  qed
qed

lemma scale_frac_value:
  assumes "scale_frac k n d = (a, b)" and "0 < d"
  shows "0 < b \<and> real_of_int a / real_of_int b = real_of_int n / real_of_int d * 2 powi k"
proof (cases "k \<ge> 0")
  case True
  then show ?thesis using assms by (auto simp: scale_frac_def power_int_def)
next
  case False
  then show ?thesis using assms by (auto simp: scale_frac_def power_int_def field_simps power_inverse)
qed

lemma frac_log2_bounds:
  assumes "0 < n" and "0 < d"
  shows "2 powi frac_log2 n d \<le> real_of_int n / real_of_int d"
    and "real_of_int n / real_of_int d < 2 powi (frac_log2 n d + 1)"
proof -
  define k where "k = ilog2 n - ilog2 d"
  define x where "x = real_of_int n / real_of_int d"
  obtain a b where ab: "scale_frac (- k) n d = (a, b)" by (cases "scale_frac (- k) n d")
  from scale_frac_value [OF ab assms(2)] have b: "0 < b" and v: "real_of_int a / real_of_int b = x * 2 powi (- k)"
    by (auto simp: x_def)
  have n: "2 powi ilog2 n \<le> real_of_int n" "real_of_int n < 2 * 2 powi ilog2 n"
    using ilog2_bounds [of n] assms by (auto simp: power_int_add)
  have d: "2 powi ilog2 d \<le> real_of_int d" "real_of_int d < 2 * 2 powi ilog2 d"
    using ilog2_bounds [of d] assms by (auto simp: power_int_add)
  have pos: "0 < (2::real) powi ilog2 n" "0 < (2::real) powi ilog2 d" by simp_all
  have kk: "(2::real) powi k = 2 powi ilog2 n / 2 powi ilog2 d" by (simp add: k_def power_int_diff)
  have "x < 2 * 2 powi ilog2 n / 2 powi ilog2 d"
    unfolding x_def using n d pos assms by (intro frac_less) auto
  then have hi: "x < 2 powi (k + 1)" by (simp add: kk power_int_add mult.commute)
  have "2 powi ilog2 n / (2 * 2 powi ilog2 d) < x"
    unfolding x_def using n d pos assms by (intro frac_less2) auto
  then have lo: "2 powi (k - 1) < x" by (simp add: kk power_int_diff)
  have test: "b \<le> a \<longleftrightarrow> 2 powi k \<le> x"
  proof -
    have "b \<le> a \<longleftrightarrow> 1 \<le> real_of_int a / real_of_int b" using b by (simp add: le_divide_eq)
    also have "\<dots> \<longleftrightarrow> 2 powi k \<le> x" by (simp add: v power_int_minus le_divide_eq flip: divide_inverse)
    finally show ?thesis .
  qed
  have e: "frac_log2 n d = (if b \<le> a then k else k - 1)" by (simp add: frac_log2_def ab Let_def flip: k_def)
  from e test lo show "2 powi frac_log2 n d \<le> real_of_int n / real_of_int d" by (auto simp: x_def)
  from e test hi show "real_of_int n / real_of_int d < 2 powi (frac_log2 n d + 1)" by (auto simp: x_def)
qed

text \<open>Rounding does not cross an integer.\<close>

lemma round_half_even_le:
  assumes "0 < b" and "real_of_int a / real_of_int b \<le> real_of_int M"
  shows "round_half_even a b \<le> M"
proof -
  have "real_of_int a \<le> real_of_int (M * b)" using assms by (simp add: divide_le_eq)
  then have le: "a \<le> M * b" by linarith
  have q: "a = b * (a div b) + a mod b" by simp
  show ?thesis
  proof (cases "a div b < M")
    case False
    then have "M * b \<le> b * (a div b)" using assms(1) by (simp add: mult.commute)
    with le q have "a mod b = 0" using pos_mod_sign [OF assms(1), of a] by linarith
    moreover from this le q False have "a div b \<le> M" using assms(1)
      by (metis add.right_neutral mult.commute mult_le_cancel_right_pos)
    ultimately show ?thesis using assms(1) by (simp add: round_half_even_def)
  qed (auto simp: round_half_even_def Let_def)
qed

lemma round_half_even_ge:
  assumes "0 < b" and "real_of_int M \<le> real_of_int a / real_of_int b"
  shows "M \<le> round_half_even a b"
proof -
  have "real_of_int (M * b) \<le> real_of_int a" using assms by (simp add: le_divide_eq)
  then have "M * b \<le> a" by linarith
  then have "M \<le> a div b" using zdiv_mono1 [of "M * b" a b] assms(1) by simp
  then show ?thesis by (auto simp: round_half_even_def Let_def)
qed

section \<open>Rounded quotients\<close>

text \<open>The magnitude bits of a single.\<close>

definition f32_magnitude :: "f32 \<Rightarrow> int" where
  "f32_magnitude w = uint (take_bit 31 w)"

lemma f32_magnitude_sign_add:
  assumes "0 \<le> bits" and "bits < 2 ^ 31"
  shows "f32_magnitude (f32_sign s + of_int bits) = bits"
proof -
  have "uint (take_bit 31 (f32_sign s + of_int bits)) = take_bit 31 ((if s then 2 ^ 31 else 0) + bits)"
    by (simp add: unsigned_take_bit_eq uint_word_ariths f32_sign_def take_bit_int_def uint_word_of_int mod_add_right_eq mod_mod_cancel)
  also have "\<dots> = bits" using assms by (simp add: take_bit_int_def)
  finally show ?thesis by (simp add: f32_magnitude_def)
qed

lemma f32_round_bits_upper:
  assumes d: "0 < d" and n: "0 < n" and le: "real_of_int n / real_of_int d \<le> 2 ^ k"
    and e: "e = max (- 126) (frac_log2 n d)" and ab: "scale_frac (23 - e) n d = (a, b)"
  shows "(e + 126) * 2 ^ 23 + round_half_even a b \<le> (int k + 127) * 2 ^ 23"
proof -
  define x where "x = real_of_int n / real_of_int d"
  from scale_frac_value [OF ab d] have b: "0 < b" and v: "real_of_int a / real_of_int b = x * 2 powi (23 - e)"
    by (auto simp: x_def)
  note lg = frac_log2_bounds [OF n d, folded x_def]
  have "(2::real) powi (frac_log2 n d + 1) \<le> 2 powi (e + 1)" using e by (intro power_int_increasing) auto
  with lg(2) have xlt: "x < 2 powi (e + 1)" by linarith
  have x2: "x \<le> 2 powi int k" using le by (simp add: x_def)
  show ?thesis
  proof (cases "e < int k")
    case True
    have "x * 2 powi (23 - e) \<le> 2 powi (e + 1) * 2 powi (23 - e)" using xlt by (intro mult_right_mono) auto
    also have "\<dots> = 2 powi 24" by (simp flip: power_int_add)
    finally have "round_half_even a b \<le> 2 ^ 24" using v b by (intro round_half_even_le) auto
    with True show ?thesis by (simp add: distrib_right)
  next
    case False
    then have fe: "e = frac_log2 n d" using e by (auto simp: max_def split: if_splits)
    have "(2::real) powi e \<le> 2 powi int k" using lg(1) x2 unfolding fe by linarith
    then have "e \<le> int k" using power_int_strict_increasing [of "int k" e "2::real"] by (cases "int k < e") auto
    with False have ek: "e = int k" by simp
    have "x * 2 powi (23 - e) \<le> 2 powi e * 2 powi (23 - e)" using x2 ek by (intro mult_right_mono) auto
    also have "\<dots> = 2 powi 23" by (simp flip: power_int_add)
    finally have "round_half_even a b \<le> 2 ^ 23" using v b by (intro round_half_even_le) auto
    with ek show ?thesis by (simp add: distrib_right)
  qed
qed

lemma f32_round_upper:
  assumes "0 < d" and "0 \<le> n" and "real_of_int n / real_of_int d \<le> 2 ^ k" and "k \<le> 126"
  shows "f32_magnitude (f32_round s n d) \<le> (int k + 127) * 2 ^ 23"
proof (cases "n = 0")
  case True
  then show ?thesis using f32_magnitude_sign_add [of 0 s] by (simp add: f32_round_def)
next
  case False
  define e where "e = max (- 126) (frac_log2 n d)"
  obtain a b where ab: "scale_frac (23 - e) n d = (a, b)" by (cases "scale_frac (23 - e) n d")
  let ?bits = "(e + 126) * 2 ^ 23 + round_half_even a b"
  have up: "?bits \<le> (int k + 127) * 2 ^ 23"
    using assms False e_def ab by (intro f32_round_bits_upper) auto
  also have "\<dots> < 0x7F800000" using assms(4) by simp
  finally have lt: "?bits < 0x7F800000" .
  have "0 < b" using scale_frac_value [OF ab assms(1)] by simp
  moreover have "0 \<le> a" using ab assms False by (auto simp: scale_frac_def split: if_splits)
  ultimately have "0 \<le> round_half_even a b" by (intro round_half_even_ge) auto
  then have "0 \<le> ?bits" by (simp add: e_def)
  moreover have "f32_round s n d = f32_sign s + of_int ?bits"
    using False lt by (simp add: f32_round_def Let_def ab flip: e_def)
  ultimately show ?thesis using f32_magnitude_sign_add [of ?bits s] lt up by simp
qed

lemma f32_round_lower:
  assumes "0 < d" and ge: "1 \<le> real_of_int n / real_of_int d" and le: "real_of_int n / real_of_int d \<le> 2 ^ k"
    and "k \<le> 126"
  shows "127 * 2 ^ 23 \<le> f32_magnitude (f32_round s n d)"
proof -
  define x where "x = real_of_int n / real_of_int d"
  have n: "0 < n" using ge assms(1) by (simp add: le_divide_eq)
  define e where "e = max (- 126) (frac_log2 n d)"
  obtain a b where ab: "scale_frac (23 - e) n d = (a, b)" by (cases "scale_frac (23 - e) n d")
  from scale_frac_value [OF ab assms(1)] have b: "0 < b" and v: "real_of_int a / real_of_int b = x * 2 powi (23 - e)"
    by (auto simp: x_def)
  note lg = frac_log2_bounds [OF n assms(1), folded x_def]
  have "0 \<le> frac_log2 n d"
  proof (rule ccontr)
    assume "\<not> 0 \<le> frac_log2 n d"
    then have "(2::real) powi (frac_log2 n d + 1) \<le> 2 powi 0" by (intro power_int_increasing) auto
    with lg(2) ge show False by (simp add: x_def)
  qed
  then have e: "e = frac_log2 n d" "0 \<le> e" by (simp_all add: e_def)
  have "(2::real) powi 23 = 2 powi e * 2 powi (23 - e)" by (simp flip: power_int_add)
  also have "\<dots> \<le> x * 2 powi (23 - e)" using lg(1) e by (intro mult_right_mono) auto
  finally have m: "2 ^ 23 \<le> round_half_even a b" using v b by (intro round_half_even_ge) auto
  let ?bits = "(e + 126) * 2 ^ 23 + round_half_even a b"
  have "?bits \<le> (int k + 127) * 2 ^ 23" using assms n e_def ab by (intro f32_round_bits_upper) auto
  also have "\<dots> < 0x7F800000" using assms(4) by simp
  finally have lt: "?bits < 0x7F800000" .
  have ge': "127 * 2 ^ 23 \<le> ?bits" using m e(2) by simp
  have "f32_round s n d = f32_sign s + of_int ?bits"
    using n lt by (simp add: f32_round_def Let_def ab flip: e_def)
  with ge' lt f32_magnitude_sign_add [of ?bits s] show ?thesis by simp
qed

text \<open>Reading a single whose magnitude is bounded.\<close>

lemma f32_classify_magnitude:
  "f32_classify w =
     (let E = f32_magnitude w div 2 ^ 23; M = f32_magnitude w mod 2 ^ 23
      in if E = 255 then if M = 0 then F32_Inf (bit w 31) else F32_NaN
         else if E = 0 then F32_Fin (bit w 31) M (- 149)
         else F32_Fin (bit w 31) (M + 2 ^ 23) (E - 150))"
proof -
  have "uint (take_bit 8 (drop_bit 23 w)) = drop_bit 23 (take_bit 31 (uint w))"
    by (simp add: unsigned_take_bit_eq unsigned_drop_bit_eq drop_bit_take_bit)
  then have "uint (take_bit 8 (drop_bit 23 w)) = f32_magnitude w div 2 ^ 23"
    unfolding f32_magnitude_def by (simp add: unsigned_take_bit_eq drop_bit_eq_div)
  moreover have "uint (take_bit 23 w) = f32_magnitude w mod 2 ^ 23"
    unfolding f32_magnitude_def by (simp add: unsigned_take_bit_eq take_bit_int_def mod_mod_cancel)
  ultimately show ?thesis by (simp add: f32_classify_def Let_def)
qed

lemma f32_magnitude_nonneg: "0 \<le> f32_magnitude w"
  by (simp add: f32_magnitude_def)

lemma f32_magnitude_divmod:
  "f32_magnitude w = (f32_magnitude w div 2 ^ 23) * 2 ^ 23 + f32_magnitude w mod 2 ^ 23"
  "0 \<le> f32_magnitude w div 2 ^ 23" "0 \<le> f32_magnitude w mod 2 ^ 23" "f32_magnitude w mod 2 ^ 23 < 2 ^ 23"
  using f32_magnitude_nonneg [of w] by (simp_all add: pos_imp_zdiv_nonneg_iff)

lemma f32_upper_value:
  assumes "f32_magnitude w \<le> (int k + 127) * 2 ^ 23" and "k \<le> 126"
  shows "\<exists>s m e. f32_classify w = F32_Fin s m e \<and> 0 \<le> m \<and> real_of_int m * 2 powi e \<le> 2 ^ k"
proof -
  define E M where "E = f32_magnitude w div 2 ^ 23" and "M = f32_magnitude w mod 2 ^ 23"
  note dm = f32_magnitude_divmod [of w, folded E_def M_def]
  have "E * 2 ^ 23 \<le> (int k + 127) * 2 ^ 23" using assms(1) dm by linarith
  then have E: "E \<le> int k + 127" by simp
  have c: "f32_classify w = (if E = 0 then F32_Fin (bit w 31) M (- 149) else F32_Fin (bit w 31) (M + 2 ^ 23) (E - 150))"
    using E assms(2) by (simp add: f32_classify_magnitude Let_def E_def M_def)
  have bound: "real_of_int m * 2 powi e \<le> 2 ^ k" if "m \<le> 2 ^ j" "e + int j \<le> int k" for m e j
  proof -
    have "real_of_int m \<le> 2 ^ j" using that(1) by (metis of_int_le_iff of_int_numeral of_int_power)
    then have "real_of_int m * 2 powi e \<le> 2 powi int j * 2 powi e" by (intro mult_right_mono) auto
    also have "\<dots> = 2 powi (e + int j)" by (simp add: power_int_add)
    also have "\<dots> \<le> 2 powi int k" using that(2) by (intro power_int_increasing) auto
    finally show ?thesis by simp
  qed
  show ?thesis
  proof (cases "E = int k + 127")
    case True
    then have "M = 0" using dm assms(1) by simp
    with True c show ?thesis using bound [of "2 ^ 23" 23 "E - 150"] by auto
  next
    case False
    with E have "E \<le> int k + 126" by simp
    then show ?thesis using c bound [of M 23 "- 149"] bound [of "M + 2 ^ 23" 24 "E - 150"] dm by auto
  qed
qed

lemma f32_lower_value:
  assumes "127 * 2 ^ 23 \<le> f32_magnitude w" and "f32_classify w = F32_Fin s m e"
  shows "1 \<le> real_of_int m * 2 powi e"
proof -
  define E M where "E = f32_magnitude w div 2 ^ 23" and "M = f32_magnitude w mod 2 ^ 23"
  note dm = f32_magnitude_divmod [of w, folded E_def M_def]
  have E: "127 \<le> E" using assms(1) by (simp add: E_def)
  have me: "m = M + 2 ^ 23" "e = E - 150" using assms(2) E
    by (auto simp: f32_classify_magnitude Let_def E_def M_def split: if_splits)
  have "1 = (2::real) powi 23 * 2 powi (- 23)" by (simp flip: power_int_add)
  also have "\<dots> \<le> 2 powi 23 * 2 powi e" using E me by (intro mult_left_mono power_int_increasing) auto
  also have "\<dots> \<le> real_of_int m * 2 powi e" using dm me by (intro mult_right_mono) auto
  finally show ?thesis .
qed

section \<open>The numbers of a TIFF file\<close>

text \<open>A single that is finite with a magnitude of at most \<open>2 ^ k\<close>.\<close>

definition f32_within :: "nat \<Rightarrow> f32 \<Rightarrow> bool" where
  "f32_within k w \<longleftrightarrow> (\<exists>s m e. f32_classify w = F32_Fin s m e \<and> 0 \<le> m \<and> real_of_int m * 2 powi e \<le> 2 ^ k)"

lemma f32_withinI:
  "0 < d \<Longrightarrow> 0 \<le> n \<Longrightarrow> real_of_int n / real_of_int d \<le> 2 ^ k \<Longrightarrow> k \<le> 126 \<Longrightarrow> f32_within k (f32_round s n d)"
  unfolding f32_within_def by (intro f32_upper_value f32_round_upper)

lemma f32_of_u32_within: "f32_within 32 (f32_of_u32 w)"
proof -
  have "uint w < 2 ^ 32" using uint_range_size [of w] by (simp add: word_size)
  then have "uint w \<le> 2 ^ 32" by simp
  then have "real_of_int (uint w) \<le> 2 ^ 32" by (metis of_int_le_iff of_int_numeral of_int_power)
  then show ?thesis unfolding f32_of_u32_def by (intro f32_withinI) auto
qed

lemma f32_of_i32_within: "\<bar>i\<bar> \<le> 2 ^ 32 \<Longrightarrow> f32_within 32 (f32_of_i32 i)"
proof -
  assume "\<bar>i\<bar> \<le> 2 ^ 32"
  then have "real_of_int \<bar>i\<bar> \<le> 2 ^ 32" by (metis of_int_le_iff of_int_numeral of_int_power)
  then show ?thesis unfolding f32_of_i32_def by (intro f32_withinI) auto
qed

lemma f32_round_zero: "f32_is_zero (f32_round s 0 d)"
  by (simp add: f32_round_def f32_sign_def f32_is_zero_def)

lemma f32_round_one_le:
  assumes "1 \<le> n" and "n \<le> 2 ^ 32" and "f32_classify (f32_round s n 1) = F32_Fin t m e"
  shows "1 \<le> real_of_int m * 2 powi e"
proof (rule f32_lower_value [OF _ assms(3)])
  have "real_of_int n \<le> 2 ^ 32" using assms(2) by (metis of_int_le_iff of_int_numeral of_int_power)
  then show "127 * 2 ^ 23 \<le> f32_magnitude (f32_round s n 1)" using assms(1)
    by (intro f32_round_lower [where k = 32]) auto
qed

lemma f32_of_u32_one_le:
  assumes "\<not> f32_is_zero (f32_of_u32 w)" and "f32_classify (f32_of_u32 w) = F32_Fin t m e"
  shows "1 \<le> real_of_int m * 2 powi e"
proof (rule f32_round_one_le)
  show "f32_classify (f32_round False (uint w) 1) = F32_Fin t m e" using assms(2) by (simp add: f32_of_u32_def)
  have "uint w \<noteq> 0" using assms(1) f32_round_zero by (auto simp: f32_of_u32_def)
  moreover have "0 \<le> uint w" by simp
  ultimately show "1 \<le> uint w" by linarith
  show "uint w \<le> 2 ^ 32" using uint_range_size [of w] by (simp add: word_size)
qed

lemma f32_of_i32_one_le:
  assumes "\<not> f32_is_zero (f32_of_i32 i)" and "\<bar>i\<bar> \<le> 2 ^ 32" and "f32_classify (f32_of_i32 i) = F32_Fin t m e"
  shows "1 \<le> real_of_int m * 2 powi e"
proof (rule f32_round_one_le [OF _ assms(2)])
  show "f32_classify (f32_round (i < 0) \<bar>i\<bar> 1) = F32_Fin t m e" using assms(3) by (simp add: f32_of_i32_def)
  show "1 \<le> \<bar>i\<bar>" using assms(1) f32_round_zero by (cases "i = 0") (auto simp: f32_of_i32_def)
qed

lemma f32_div_within:
  assumes "f32_within 32 x" and "f32_within 32 y"
    and "\<And>t m e. f32_classify y = F32_Fin t m e \<Longrightarrow> 1 \<le> real_of_int m * 2 powi e"
  shows "f32_within 32 (f32_div x y)"
proof -
  from assms(1) obtain s m e where x: "f32_classify x = F32_Fin s m e" "0 \<le> m" "real_of_int m * 2 powi e \<le> 2 ^ 32"
    by (auto simp: f32_within_def)
  from assms(2) obtain t n f where y: "f32_classify y = F32_Fin t n f" "0 \<le> n" by (auto simp: f32_within_def)
  from assms(3) [OF y(1)] have one: "1 \<le> real_of_int n * 2 powi f" .
  then have n: "0 < n" using y(2) by (cases "n = 0") auto
  obtain a b where ab: "scale_frac (e - f) m n = (a, b)" by (cases "scale_frac (e - f) m n")
  from scale_frac_value [OF ab n] have b: "0 < b" and
    v: "real_of_int a / real_of_int b = (real_of_int m * 2 powi e) / (real_of_int n * 2 powi f)"
    by (auto simp: power_int_diff)
  have "0 \<le> a" using ab x(2) by (auto simp: scale_frac_def split: if_splits)
  moreover have "real_of_int a / real_of_int b \<le> 2 ^ 32"
  proof -
    have "(real_of_int m * 2 powi e) / (real_of_int n * 2 powi f) \<le> (real_of_int m * 2 powi e) / 1"
      using one x(2) by (intro divide_left_mono) auto
    with x(3) v show ?thesis by simp
  qed
  ultimately have "f32_within 32 (f32_round (s \<noteq> t) a b)" using b by (intro f32_withinI) auto
  then show ?thesis using x(1) y(1) n ab by (simp add: f32_div_def)
qed

lemma f32_trunc_within:
  assumes "f32_within k w"
  shows "\<exists>i. f32_trunc w = Some i \<and> \<bar>i\<bar> \<le> 2 ^ k"
proof -
  from assms obtain s m e where x: "f32_classify w = F32_Fin s m e" "0 \<le> m" "real_of_int m * 2 powi e \<le> 2 ^ k"
    by (auto simp: f32_within_def)
  obtain a b where ab: "scale_frac e m 1 = (a, b)" by (cases "scale_frac e m 1")
  from scale_frac_value [OF ab] have b: "0 < b" and v: "real_of_int a / real_of_int b \<le> 2 ^ k" using x(3) by auto
  have a: "0 \<le> a" using ab x(2) by (auto simp: scale_frac_def split: if_splits)
  have "real_of_int a \<le> real_of_int (2 ^ k * b)" using v b by (simp add: divide_le_eq)
  then have "a \<le> 2 ^ k * b" by linarith
  then have "a div b \<le> 2 ^ k" using zdiv_mono1 [of a "2 ^ k * b" b] b by simp
  moreover have "0 \<le> a div b" using a b by (simp add: pos_imp_zdiv_nonneg_iff)
  ultimately show ?thesis using x(1) ab by (auto simp: f32_trunc_def Let_def)
qed

lemma f32_mul_within:
  assumes "f32_within j x" and "f32_within k y" and "j + k \<le> 126"
  shows "f32_within (j + k) (f32_mul x y)"
proof -
  from assms(1) obtain s m e where x: "f32_classify x = F32_Fin s m e" "0 \<le> m" "real_of_int m * 2 powi e \<le> 2 ^ j"
    by (auto simp: f32_within_def)
  from assms(2) obtain t n f where y: "f32_classify y = F32_Fin t n f" "0 \<le> n" "real_of_int n * 2 powi f \<le> 2 ^ k"
    by (auto simp: f32_within_def)
  obtain a b where ab: "scale_frac (e + f) (m * n) 1 = (a, b)" by (cases "scale_frac (e + f) (m * n) 1")
  from scale_frac_value [OF ab] have b: "0 < b" and
    v: "real_of_int a / real_of_int b = (real_of_int m * 2 powi e) * (real_of_int n * 2 powi f)"
    by (auto simp: power_int_add)
  have "0 \<le> a" using ab x(2) y(2) by (auto simp: scale_frac_def split: if_splits)
  moreover have "(real_of_int m * 2 powi e) * (real_of_int n * 2 powi f) \<le> 2 ^ j * 2 ^ k"
    using x y by (intro mult_mono) auto
  ultimately have "f32_within (j + k) (f32_round (s \<noteq> t) a b)" using b v assms(3)
    by (intro f32_withinI) (auto simp: power_add)
  then show ?thesis using x(1) y(1) ab by (simp add: f32_mul_def)
qed

end
