(* ===== verification/Tiff_Safety.thy ===== *)
theory Tiff_Safety
  imports Tiff_Parser Float_Bounds
begin

text \<open>
  The TIFF parser stays inside the file, except for directory offsets at the very end of the 32-bit
  range, where the bounds check of \<open>read_entries\<close> wraps around; what it accepts is well-formed.
\<close>

section \<open>Computations without a fault\<close>

definition faultless :: "fault + 'a \<Rightarrow> bool" where
  "faultless m \<longleftrightarrow> (\<exists>x. m = Inr x)"

named_theorems faultless_intros \<open>rules that show the absence of faults\<close>

lemma faultless_Inr [faultless_intros, simp]: "faultless (Inr x)"
  by (simp add: faultless_def)

lemma faultless_bind [faultless_intros]:
  "faultless m \<Longrightarrow> (\<And>x. m = Inr x \<Longrightarrow> faultless (k x)) \<Longrightarrow> faultless (bind_res m k)"
  by (auto simp: faultless_def)

lemma faultless_if [faultless_intros]:
  "(c \<Longrightarrow> faultless a) \<Longrightarrow> (\<not> c \<Longrightarrow> faultless b) \<Longrightarrow> faultless (if c then a else b)"
  by simp

lemma faultless_case_list [faultless_intros]:
  "(xs = [] \<Longrightarrow> faultless a) \<Longrightarrow> (\<And>y ys. xs = y # ys \<Longrightarrow> faultless (f y ys)) \<Longrightarrow>
     faultless (case xs of [] \<Rightarrow> a | y # ys \<Rightarrow> f y ys)"
  by (cases xs) auto

lemma faultless_case_option [faultless_intros]:
  "(x = None \<Longrightarrow> faultless a) \<Longrightarrow> (\<And>y. x = Some y \<Longrightarrow> faultless (f y)) \<Longrightarrow>
     faultless (case x of None \<Rightarrow> a | Some y \<Rightarrow> f y)"
  by (cases x) auto

lemma faultless_map_res:
  "(\<And>x. x \<in> set xs \<Longrightarrow> faultless (f x)) \<Longrightarrow> faultless (map_res f xs)"
  by (induction xs) (auto intro!: faultless_intros)

lemma faultless_fold_res:
  "(\<And>x s. x \<in> set xs \<Longrightarrow> faultless (f x s)) \<Longrightarrow> faultless (fold_res f xs s)"
  by (induction xs arbitrary: s) (auto intro!: faultless_intros)

lemma faultless_with_entry [faultless_intros]:
  "(\<And>e s. find_entry entries tag = Some e \<Longrightarrow> faultless (f e s)) \<Longrightarrow> faultless (with_entry entries tag f s)"
  by (auto simp: with_entry_def split: option.split)

section \<open>Reads\<close>

lemma faultless_byte_at: "i < length bytes \<Longrightarrow> faultless (byte_at bytes i)"
  by (simp add: byte_at_def)

lemma faultless_u16: "i + 1 < length bytes \<Longrightarrow> faultless (read_u16_at bytes i)"
  unfolding read_u16_at_def by (intro faultless_intros faultless_byte_at) auto

lemma faultless_u32: "i + 3 < length bytes \<Longrightarrow> faultless (read_u32_at bytes i)"
  unfolding read_u32_at_def by (intro faultless_intros faultless_u16) auto

lemma unat_plus_le: "unat (a + b :: u32) \<le> unat a + unat b"
  by (simp add: unat_word_ariths)

lemma unat_of_nat_mult_le: "unat (of_nat i * c :: u32) \<le> i * unat c"
proof -
  have "unat (of_nat i :: u32) \<le> i" by (simp add: unat_of_nat)
  then show ?thesis by (simp add: unat_word_ariths) (meson le_trans mod_less_eq_dividend mult_le_mono1)
qed

lemma faultless_read_entry:
  assumes "unat offset + 12 \<le> length bytes"
  shows "faultless (read_entry bytes offset)"
  unfolding read_entry_def
  using assms unat_plus_le [of offset 2] unat_plus_le [of offset 4] unat_plus_le [of offset 8]
  by (intro faultless_intros faultless_u16 faultless_u32) auto

text \<open>A directory offset whose successor fields do not wrap around.\<close>

definition offset_ok :: "u32 \<Rightarrow> bool" where
  "offset_ok off \<longleftrightarrow> unat off < 2 ^ 32 - 2"

lemma unat_offset_2: "offset_ok off \<Longrightarrow> unat (off + 2) = unat off + 2"
  by (simp add: offset_ok_def unat_word_ariths)

lemma faultless_read_entries:
  assumes "offset_ok off"
  shows "faultless (read_entries bytes off)"
proof -
  have "faultless (map_res (\<lambda>i. read_entry bytes (off + 2 + of_nat i * 12)) [0..<n])"
    if "unat (off + 2) + n * 12 \<le> length bytes" for n
  proof (intro faultless_map_res faultless_read_entry)
    fix i assume "i \<in> set [0..<n]"
    then have "i * 12 + 12 \<le> n * 12" by simp
    with that unat_plus_le [of "off + 2" "of_nat i * 12"] unat_of_nat_mult_le [of i 12]
    show "unat (off + 2 + of_nat i * 12) + 12 \<le> length bytes" by simp
  qed
  then show ?thesis unfolding read_entries_def Let_def
    by (intro faultless_intros faultless_u16) (auto simp: unat_offset_2 [OF assms])
qed

lemma faultless_copy_ifd: "offset_ok off \<Longrightarrow> faultless (copy_ifd_bytes bytes off)"
  unfolding copy_ifd_bytes_def Let_def
  by (intro faultless_intros faultless_u16) (auto simp: unat_offset_2)

section \<open>Values\<close>

lemma length_entry_data:
  assumes "entry_data bytes e \<noteq> []"
  shows "length (entry_data bytes e) = unat (en_count e) * unat (type_size (en_type e))"
proof -
  have "unat (type_size (en_type e)) \<le> 8" by (simp add: type_size_def)
  moreover have "unat (en_count e) < 2 ^ 32" using unsigned_less [of "en_count e"] by simp
  ultimately have "unat (en_count e) * unat (type_size (en_type e)) \<le> 2 ^ 32 * 8" by (intro mult_le_mono) auto
  then have "unat (entry_byte_count e) = unat (en_count e) * unat (type_size (en_type e))"
    by (simp add: entry_byte_count_def unat_word_ariths)
  with assms show ?thesis by (auto simp: entry_data_def Let_def split: if_splits)
qed

lemmas type_sizes = type_size_def kTypeByte_def kTypeAscii_def kTypeShort_def kTypeLong_def kTypeRational_def
  kTypeUndefined_def kTypeSRational_def

lemma faultless_first_u32 [faultless_intros]: "faultless (first_u32 bytes e)"
  unfolding first_u32_def Let_def
  by (intro faultless_intros faultless_u16 faultless_u32 faultless_byte_at) auto

lemma faultless_u32_values [faultless_intros]: "faultless (u32_values bytes e)"
  unfolding u32_values_def Let_def
  by (intro faultless_intros faultless_map_res faultless_u16 faultless_u32 faultless_byte_at) auto

lemma faultless_shorts [faultless_intros]: "faultless (shorts bytes e)"
  unfolding shorts_def by (intro faultless_intros)

lemma faultless_number [faultless_intros]:
  "unat off + 3 < length data \<Longrightarrow> faultless (read_number type data off)"
  unfolding read_number_def read_i32_at_def by (intro faultless_intros faultless_u32)

lemma faultless_numeric_values [faultless_intros]: "faultless (numeric_values bytes e)"
proof -
  have "faultless (read_rational type data (of_nat i * 8))" if "i < n" "n * 8 \<le> length data" for type data i n
  proof -
    have "i * 8 + 8 \<le> n * 8" using that(1) by simp
    then have "unat (of_nat i * 8 :: u32) + 7 < length data" "unat (of_nat i * 8 + 4 :: u32) + 3 < length data"
      using that(2) unat_of_nat_mult_le [of i 8] unat_plus_le [of "of_nat i * 8" 4] by simp_all
    then show ?thesis unfolding read_rational_def by (intro faultless_intros) auto
  qed
  then show ?thesis unfolding numeric_values_def Let_def
    by (intro faultless_intros faultless_map_res) auto
qed

lemma faultless_matrix3 [faultless_intros]: "faultless (matrix3 bytes e)"
  unfolding matrix3_def by (intro faultless_intros)

text \<open>Every number the parser computes is finite and at most \<open>2 ^ 32\<close> in magnitude.\<close>

lemma read_number_within:
  assumes "read_number type data off = Inr x"
  shows "f32_within 32 x" and "\<not> f32_is_zero x \<Longrightarrow> f32_classify x = F32_Fin t m e \<Longrightarrow> 1 \<le> real_of_int m * 2 powi e"
proof -
  have i: "\<bar>sint w\<bar> \<le> 2 ^ 32" for w :: u32
    using sint_greater_eq [of w] sint_less [of w] by simp
  from assms show "f32_within 32 x"
    by (auto simp: read_number_def read_i32_at_def bind_res_eq_Inr_iff f32_of_u32_within
        split: if_splits intro!: f32_of_i32_within i)
  from assms show "\<not> f32_is_zero x \<Longrightarrow> f32_classify x = F32_Fin t m e \<Longrightarrow> 1 \<le> real_of_int m * 2 powi e"
    by (auto simp: read_number_def read_i32_at_def bind_res_eq_Inr_iff
        split: if_splits intro: f32_of_u32_one_le f32_of_i32_one_le [OF _ i])
qed

lemma f32_within_zero: "f32_within k 0"
  unfolding f32_within_def by (intro exI [of _ False] exI [of _ 0] exI [of _ "- 149"]) (simp add: f32_classify_def Let_def)

lemma read_rational_within:
  assumes "read_rational type data off = Inr x"
  shows "f32_within 32 x"
proof -
  from assms obtain d where d: "read_number type data (off + 4) = Inr d"
    and x: "x = 0 \<or> (\<not> f32_is_zero d \<and> (\<exists>n. read_number type data off = Inr n \<and> x = f32_div n d))"
    by (auto simp: read_rational_def bind_res_eq_Inr_iff split: if_splits)
  from x show ?thesis
  proof (elim disjE conjE exE)
    fix n assume "\<not> f32_is_zero d" "read_number type data off = Inr n" "x = f32_div n d"
    with f32_div_within [OF read_number_within(1) read_number_within(1) [OF d]] read_number_within(2) [OF d]
    show ?thesis by blast
  qed (simp add: f32_within_zero)
qed

lemma map_res_set: "map_res f xs = Inr ys \<Longrightarrow> y \<in> set ys \<Longrightarrow> \<exists>x \<in> set xs. f x = Inr y"
  by (induction xs arbitrary: ys) (auto simp: bind_res_eq_Inr_iff)

lemma numeric_values_within:
  assumes "numeric_values bytes e = Inr vs" and "v \<in> set vs"
  shows "f32_within 32 v"
  using assms
  by (auto simp: numeric_values_def Let_def bind_res_eq_Inr_iff f32_of_u32_within
      split: if_splits dest!: map_res_set intro: read_rational_within)

lemma f32_billion_within: "f32_within 30 f32_billion"
proof -
  have "f32_classify f32_billion = F32_Fin False 15625000 6" by code_simp
  then show ?thesis by (auto simp: f32_within_def)
qed

lemma faultless_exposure:
  assumes "numeric_values bytes e = Inr (v # vs)"
  shows "faultless (cast_i64 (f32_mul v f32_billion))"
proof -
  have "f32_within 32 v" using numeric_values_within [OF assms] by simp
  from f32_mul_within [OF this f32_billion_within] have "f32_within 62 (f32_mul v f32_billion)" by simp
  from f32_trunc_within [OF this] show ?thesis by (auto simp: cast_i64_def)
qed

lemma faultless_capture [faultless_intros]: "faultless (apply_capture_entries bytes es c)"
  unfolding apply_capture_entries_def by (intro faultless_intros) (auto intro: faultless_exposure)

section \<open>The whole parser\<close>

lemma faultless_apply_u32: "faultless (apply_u32 bytes es tag f out)"
  unfolding apply_u32_def by (intro faultless_intros)

lemma faultless_scalars: "faultless (apply_scalars bytes es out)"
  unfolding apply_scalars_def by (intro faultless_fold_res) (auto simp: faultless_apply_u32)

lemma faultless_names: "faultless (apply_names bytes es out)"
  unfolding apply_names_def by (intro faultless_intros)

lemma faultless_first_or: "faultless (first_or bytes es tag d)"
  unfolding first_or_def by (intro faultless_intros)

lemma faultless_calibration: "faultless (apply_calibration bytes es out)"
  unfolding apply_calibration_def
  by (intro faultless_intros faultless_fold_res) (auto simp: apply_matrix_def intro!: faultless_intros)

lemma faultless_area: "faultless (apply_area bytes es out)"
  unfolding apply_area_def by (intro faultless_intros)

lemma faultless_blobs: "faultless (apply_blobs bytes es out)"
  unfolding apply_blobs_def by (intro faultless_fold_res) (auto intro!: faultless_intros)

lemma faultless_cfa_repeat: "faultless (read_cfa_repeat bytes es out)"
  unfolding read_cfa_repeat_def by (intro faultless_intros)

lemma faultless_exif:
  assumes "\<And>e off. find_entry es kTagExifIFD = Some e \<Longrightarrow> first_u32 bytes e = Inr off \<Longrightarrow> offset_ok off"
  shows "faultless (apply_exif bytes es out)"
  unfolding apply_exif_def by (intro faultless_intros) (auto intro: faultless_copy_ifd faultless_read_entries assms)

lemma faultless_parse_entries:
  assumes "\<And>e off. find_entry es kTagExifIFD = Some e \<Longrightarrow> first_u32 bytes e = Inr off \<Longrightarrow> offset_ok off"
  shows "faultless (parse_entries bytes es)"
proof -
  have tail: "faultless (parse_tail bytes es k out)" for k out
    unfolding parse_tail_def
    by (intro faultless_intros faultless_calibration faultless_area faultless_exif faultless_blobs assms)
  have "faultless (parse_cfa bytes es k out)" for k out
    unfolding parse_cfa_def Let_def
    by (intro faultless_bind faultless_cfa_repeat) (auto split: sum.split intro!: faultless_intros tail)
  then show ?thesis unfolding parse_entries_def
    by (intro faultless_intros faultless_first_or faultless_scalars faultless_names)
qed

text \<open>The directory offsets the parser follows: the one in the header and the one in the Exif tag.\<close>

definition exif_offsets :: "byte list \<Rightarrow> u32 \<Rightarrow> u32 list" where
  "exif_offsets bytes off =
     (case read_entries bytes off of
        Inr (Some es) \<Rightarrow>
          (case find_entry es kTagExifIFD of
             None \<Rightarrow> []
           | Some e \<Rightarrow> (case first_u32 bytes e of Inl _ \<Rightarrow> [] | Inr x \<Rightarrow> [x]))
      | _ \<Rightarrow> [])"

definition ifd_offsets :: "byte list \<Rightarrow> u32 list" where
  "ifd_offsets bytes = (case read_u32_at bytes 4 of Inl _ \<Rightarrow> [] | Inr off \<Rightarrow> off # exif_offsets bytes off)"

text \<open>
  C14: The DNG parser returns a result on every file whose directory offsets (the one in the header and,
  if there is one, the Exif offset) are below 2^32 - 2, whatever else the file contains: no read goes
  outside the file, and the conversion of the exposure time to nanoseconds is always in range of the
  64-bit integer it is stored in.
\<close>

theorem parse_dng_safe:
  assumes "\<forall>off \<in> set (ifd_offsets bytes). unat off < 2 ^ 32 - 2"
  shows "\<exists>res. parse_dng (Some bytes) = Inr res"
proof -
  have main: "offset_ok off" if "read_u32_at bytes 4 = Inr off" for off
    using assms that by (auto simp: ifd_offsets_def offset_ok_def)
  have exif: "offset_ok x" if "read_u32_at bytes 4 = Inr off" "read_entries bytes off = Inr (Some es)"
    "find_entry es kTagExifIFD = Some e" "first_u32 bytes e = Inr x" for off es e x
    using assms that by (auto simp: ifd_offsets_def exif_offsets_def offset_ok_def)
  have "faultless (parse_dng (Some bytes))"
    unfolding parse_dng_def option.case
    by (intro faultless_intros faultless_u16 faultless_u32 faultless_read_entries faultless_parse_entries main exif)
       auto
  then show ?thesis by (simp add: faultless_def)
qed

text \<open>A small file: a directory with seven entries and a strip of four samples.\<close>

definition demo_dng :: "byte list" where
  "demo_dng = [73, 73, 42, 0, 8, 0, 0, 0, 7, 0, 0, 1, 3, 0, 1, 0, 0, 0, 2, 0, 0, 0, 1, 1, 3, 0, 1, 0, 0, 0, 2, 0,
     0, 0, 2, 1, 3, 0, 1, 0, 0, 0, 16, 0, 0, 0, 17, 1, 4, 0, 1, 0, 0, 0, 98, 0, 0, 0, 23, 1, 4, 0, 1, 0,
     0, 0, 8, 0, 0, 0, 141, 130, 3, 0, 2, 0, 0, 0, 2, 0, 2, 0, 142, 130, 1, 0, 4, 0, 0, 0, 0, 1, 1, 2, 0,
     0, 0, 0, 1, 0, 2, 0, 3, 0, 4, 0]"

theorem parse_dng_safe_witness:
  "\<exists>res. parse_dng (Some demo_dng) = Inr res"
proof (rule parse_dng_safe)
  have "ifd_offsets demo_dng = [8]" by code_simp
  then show "\<forall>off \<in> set (ifd_offsets demo_dng). unat off < 2 ^ 32 - 2" by simp
qed

text \<open>
  C15: The bounds check of read_entries is not sound at the end of the 32-bit range: on a file with a
  valid TIFF header whose directory offset is 2^32 - 2 or 2^32 - 1 the sum offset + 2 wraps to 0 or 1,
  passes the check, and the parser reads outside the file.
\<close>

theorem parse_dng_offset_wraps:
  assumes "bytes = [0x49, 0x49, 42, 0] @ off_bytes @ rest" and "length off_bytes = 4"
    and "read_u32_at off_bytes 0 = Inr off" and "2 ^ 32 - 2 \<le> unat off" and "length bytes \<le> unat off"
  shows "parse_dng (Some bytes) = Inl OutOfBounds"
proof -
  have b: "bytes ! 0 = 0x49" "bytes ! 1 = 0x49" "8 \<le> length bytes" using assms(1,2) by auto
  have m: "read_u16_at bytes 2 = Inr kTiffMagic" using assms(1,2)
    by (simp add: read_u16_at_def byte_at_def kTiffMagic_def)
  have "byte_at bytes (4 + i) = byte_at off_bytes i" if "i < 4" for i
    using that assms(1,2) by (auto simp: byte_at_def nth_append numeral_eq_Suc)
  from this [of 0] this [of 1] this [of 2] this [of 3] have o: "read_u32_at bytes 4 = Inr off"
    using assms(3) by (simp add: read_u32_at_def read_u16_at_def numeral_2_eq_2 numeral_3_eq_3)
  have "unat off < 2 ^ 32" using unsigned_less [of off] by simp
  then have "unat (off + 2) \<le> 1" using assms(4) by (simp add: unat_word_ariths mod_if) linarith
  moreover have "read_u16_at bytes (unat off) = Inl OutOfBounds"
    using assms(5) by (simp add: read_u16_at_def byte_at_def)
  ultimately have "read_entries bytes off = Inl OutOfBounds" using b(3) by (simp add: read_entries_def)
  with b m o show ?thesis by (simp add: parse_dng_def)
qed

theorem parse_dng_offset_wraps_witness:
  "parse_dng (Some [0x49, 0x49, 42, 0, 0xFE, 0xFF, 0xFF, 0xFF]) = Inl OutOfBounds"
proof (rule parse_dng_offset_wraps [where off_bytes = "[0xFE, 0xFF, 0xFF, 0xFF]" and rest = "[]" and off = "0xFFFFFFFE"])
  show "read_u32_at [0xFE, 0xFF, 0xFF, 0xFF] 0 = Inr 0xFFFFFFFE" by code_simp
qed simp_all

section \<open>What the parser accepts\<close>

text \<open>A property of the result of a computation, if it has one.\<close>

definition ensures :: "('a \<Rightarrow> bool) \<Rightarrow> fault + 'a \<Rightarrow> bool" where
  "ensures P m \<longleftrightarrow> (\<forall>x. m = Inr x \<longrightarrow> P x)"

named_theorems ensures_intros \<open>rules that show a property of a result\<close>

lemma ensures_Inr [ensures_intros]: "P x \<Longrightarrow> ensures P (Inr x)"
  by (simp add: ensures_def)

lemma ensures_bind: "ensures Q m \<Longrightarrow> (\<And>x. Q x \<Longrightarrow> ensures P (k x)) \<Longrightarrow> ensures P (bind_res m k)"
  by (auto simp: ensures_def bind_res_eq_Inr_iff)

lemma ensures_bind_any [ensures_intros]: "(\<And>x. m = Inr x \<Longrightarrow> ensures P (k x)) \<Longrightarrow> ensures P (bind_res m k)"
  by (auto simp: ensures_def bind_res_eq_Inr_iff)

lemma ensures_with_entry:
  "P s \<Longrightarrow> (\<And>e s. P s \<Longrightarrow> ensures P (f e s)) \<Longrightarrow> ensures P (with_entry es tag f s)"
  by (auto simp: with_entry_def ensures_def split: option.split)

lemma ensures_fold_res:
  "P s \<Longrightarrow> (\<And>x s. x \<in> set xs \<Longrightarrow> P s \<Longrightarrow> ensures P (f x s)) \<Longrightarrow> ensures P (fold_res f xs s)"
proof (induction xs arbitrary: s)
  case (Cons x xs)
  have "ensures P (f x s)" using Cons.prems by simp
  then have "ensures P (bind_res (f x s) (fold_res f xs))"
    by (rule ensures_bind) (rule Cons.IH, simp_all add: Cons.prems)
  then show ?case by simp
qed (simp add: ensures_Inr)

text \<open>The shape every intermediate record has: the fixed arrays keep their length.\<close>

definition shape_wf :: "parsed_dng_metadata \<Rightarrow> bool" where
  "shape_wf out \<longleftrightarrow> calibration_wf (pd_calibration out) \<and> length (as_shot_neutral (pd_capture out)) = 3"

lemma length_overlay [simp]: "length (overlay xs vs) = length xs"
  by (simp add: overlay_def)

lemma shape_default: "shape_wf default_parsed"
  by (simp add: shape_wf_def default_parsed_def calibration_wf_default default_capture_def)

lemma capture_keeps_neutral:
  "length (as_shot_neutral c) = 3 \<Longrightarrow> ensures (\<lambda>c. length (as_shot_neutral c) = 3) (apply_capture_entries bytes es c)"
  unfolding apply_capture_entries_def
  by (intro ensures_bind [where Q = "\<lambda>c. length (as_shot_neutral c) = 3"] ensures_with_entry)
     (auto intro!: ensures_intros split: list.split)

lemma scalars_keep_shape: "shape_wf out \<Longrightarrow> ensures shape_wf (apply_scalars bytes es out)"
  unfolding apply_scalars_def apply_u32_def
  by (intro ensures_fold_res)
     (auto simp: scalar_tags_def shape_wf_def with_calibration_def with_capture_def calibration_wf_def
       intro!: ensures_with_entry ensures_intros)

lemma names_keep_shape: "shape_wf out \<Longrightarrow> ensures shape_wf (apply_names bytes es out)"
  unfolding apply_names_def
  by (intro ensures_bind [where Q = shape_wf] ensures_with_entry ensures_Inr)
     (auto simp: shape_wf_def with_capture_def)

text \<open>From the colour filter array on, the descriptor is a supported one.\<close>

definition cfa_supported :: "parsed_dng_metadata \<Rightarrow> bool" where
  "cfa_supported out \<longleftrightarrow> (\<exists>r \<in> {2, 4}. \<exists>pattern. cfa (pd_calibration out) =
     Some \<lparr>cfa_repeat = [r, r], cfa_pattern = pattern\<rparr> \<and> length pattern = 16)"

lemma cfa_keeps:
  assumes "shape_wf out" and "read_cfa_repeat bytes es out = Inr (Inr out1)"
    and "cfa (pd_calibration (read_cfa_pattern bytes es out1)) \<noteq> None"
  shows "shape_wf (read_cfa_pattern bytes es out1) \<and> cfa_supported (read_cfa_pattern bytes es out1)"
proof -
  from assms(2) obtain r where r: "r \<in> {2, 4 :: u16}" and
    o1: "out1 = with_calibration (\<lambda>c. c\<lparr>cfa := Some (default_cfa\<lparr>cfa_repeat := [ucast r, ucast r]\<rparr>)\<rparr>) out"
    by (auto simp: read_cfa_repeat_def bind_res_eq_Inr_iff split: option.splits if_splits)
  from assms(3) show ?thesis
    using assms(1) r unfolding o1
    by (auto simp: read_cfa_pattern_def with_calibration_def shape_wf_def calibration_wf_def cfa_wf_def
        cfa_with_pattern_def default_cfa_def cfa_supported_def Let_def split: option.splits if_splits)
qed

definition inv3 :: "parsed_dng_metadata \<Rightarrow> bool" where
  "inv3 out \<longleftrightarrow> shape_wf out \<and> cfa_supported out"

lemma matrix3_length: "ensures (\<lambda>m. length m = 9) (matrix3 bytes e)"
  unfolding matrix3_def by (intro ensures_intros) (simp add: default_matrix3_def)

lemma matrix_keeps:
  assumes "inv3 out" and "(tag, setter) \<in> set matrix_tags"
  shows "ensures inv3 (apply_matrix bytes es tag setter out)"
  unfolding apply_matrix_def
proof (rule ensures_with_entry [where P = inv3, OF assms(1)])
  fix e out assume inv: "inv3 out"
  have "inv3 (with_calibration (setter m) out)" if "length m = 9" for m
    using assms(2) inv that
    by (auto simp: matrix_tags_def inv3_def shape_wf_def cfa_supported_def with_calibration_def calibration_wf_def)
  then show "ensures inv3 (bind_res (matrix3 bytes e) (\<lambda>mat. Inr (with_calibration (setter mat) out)))"
    by (intro ensures_bind [OF matrix3_length] ensures_Inr)
qed

lemma calibration_keeps:
  assumes "inv3 out"
  shows "ensures inv3 (apply_calibration bytes es out)"
proof -
  have black: "inv3 (with_calibration (\<lambda>c. c\<lparr>black_level := overlay (black_level c) b\<rparr>) out)"
    and table: "inv3 (with_calibration (\<lambda>c. c\<lparr>linearization_table := Some t\<rparr>) (out\<lparr>pd_linearization_table := t\<rparr>))"
    if "inv3 out" for b t out
    using that by (auto simp: inv3_def shape_wf_def cfa_supported_def with_calibration_def calibration_wf_def)
  show ?thesis unfolding apply_calibration_def
  proof (rule ensures_bind [where Q = inv3])
    show "ensures inv3 (with_entry es kTagBlackLevel (\<lambda>e out. bind_res (numeric_values bytes e) (\<lambda>black.
        Inr (with_calibration (\<lambda>c. c\<lparr>black_level := overlay (black_level c) black\<rparr>) out))) out)"
      by (rule ensures_with_entry [where P = inv3, OF assms], rule ensures_bind_any, rule ensures_Inr, rule black)
  next
    fix out assume o: "inv3 out"
    show "ensures inv3 (bind_res (with_entry es kTagLinearizationTable (\<lambda>e out. bind_res (shorts bytes e) (\<lambda>table.
        Inr (with_calibration (\<lambda>c. c\<lparr>linearization_table := Some table\<rparr>) (out\<lparr>pd_linearization_table := table\<rparr>)))) out)
        (\<lambda>out. fold_res (\<lambda>(tag, setter). apply_matrix bytes es tag setter) matrix_tags out))"
    proof (rule ensures_bind [where Q = inv3])
      show "ensures inv3 (with_entry es kTagLinearizationTable (\<lambda>e out. bind_res (shorts bytes e) (\<lambda>table.
          Inr (with_calibration (\<lambda>c. c\<lparr>linearization_table := Some table\<rparr>) (out\<lparr>pd_linearization_table := table\<rparr>)))) out)"
        by (rule ensures_with_entry [where P = inv3, OF o], rule ensures_bind_any, rule ensures_Inr, rule table)
    next
      fix out assume "inv3 out"
      then show "ensures inv3 (fold_res (\<lambda>(tag, setter). apply_matrix bytes es tag setter) matrix_tags out)"
        by (rule ensures_fold_res) (use matrix_keeps in auto)
    qed
  qed
qed

lemma area_keeps: "inv3 out \<Longrightarrow> ensures inv3 (apply_area bytes es out)"
  unfolding apply_area_def
  by (intro ensures_bind [where Q = inv3] ensures_with_entry)
     (auto simp: inv3_def shape_wf_def cfa_supported_def with_capture_def intro!: ensures_intros)

lemma exif_keeps:
  assumes "inv3 out"
  shows "ensures inv3 (apply_exif bytes es out)"
  unfolding apply_exif_def
proof (rule ensures_with_entry [where P = inv3, OF assms])
  fix e out assume inv: "inv3 out"
  then have "length (as_shot_neutral (pd_capture out)) = 3" by (simp add: inv3_def shape_wf_def)
  from capture_keeps_neutral [OF this] inv
  show "ensures inv3 (bind_res (first_u32 bytes e) (\<lambda>exif_offset.
      bind_res (copy_ifd_bytes bytes exif_offset) (\<lambda>exif.
      bind_res (read_entries bytes exif_offset) (\<lambda>exif_entries.
      case exif_entries of None \<Rightarrow> Inr (out\<lparr>pd_exif_blob := exif\<rparr>)
      | Some es \<Rightarrow> bind_res (apply_capture_entries bytes es (pd_capture out)) (\<lambda>c.
          Inr (out\<lparr>pd_exif_blob := exif, pd_capture := c\<rparr>))))))"
    by (intro ensures_bind_any)
       (auto simp: inv3_def shape_wf_def cfa_supported_def split: option.split
         intro!: ensures_Inr ensures_bind [where Q = "\<lambda>c. length (as_shot_neutral c) = 3"])
qed

lemma blobs_keep: "inv3 out \<Longrightarrow> ensures inv3 (apply_blobs bytes es out)"
  unfolding apply_blobs_def
  by (intro ensures_fold_res)
     (auto simp: blob_tags_def inv3_def shape_wf_def cfa_supported_def intro!: ensures_with_entry ensures_Inr)

definition raw_fields_ok :: "parsed_dng_metadata \<Rightarrow> bool" where
  "raw_fields_ok out \<longleftrightarrow> pd_width out \<noteq> 0 \<and> pd_height out \<noteq> 0 \<and> pd_bits_per_sample out \<noteq> 0 \<and>
     pd_bits_per_sample out \<le> 16 \<and> pd_strip_byte_count out \<noteq> 0"

definition result_ok :: "parse_result \<Rightarrow> bool" where
  "result_ok res \<longleftrightarrow> (pr_status res = Ok \<longrightarrow> inv3 (pr_metadata res) \<and> raw_fields_ok (pr_metadata res))"

lemma parse_cfa_ok:
  assumes "shape_wf out"
  shows "ensures result_ok (parse_cfa bytes es compression out)"
proof -
  have tail: "ensures result_ok (parse_tail bytes es compression out)" if "inv3 out" for out
    unfolding parse_tail_def using that
    by (intro ensures_bind [where Q = inv3] calibration_keeps area_keeps exif_keeps blobs_keep ensures_Inr)
       (auto simp: result_ok_def raw_fields_ok_def finish_parse_def failed_parse_def not_less)
  have "result_ok (unsupported_parse m msg)" for m msg by (simp add: result_ok_def unsupported_parse_def)
  then show ?thesis unfolding parse_cfa_def Let_def
    using cfa_keeps [OF assms] tail by (intro ensures_bind_any) (auto simp: inv3_def intro!: ensures_Inr split: sum.split)
qed

lemma parse_entries_ok: "ensures result_ok (parse_entries bytes es)"
proof -
  have u: "result_ok (unsupported_parse m msg)" for m msg by (simp add: result_ok_def unsupported_parse_def)
  have "ensures result_ok
      (bind_res (apply_scalars bytes es default_parsed) (\<lambda>out.
       bind_res (apply_capture_entries bytes es (pd_capture out)) (\<lambda>c.
       bind_res (apply_names bytes es (out\<lparr>pd_capture := c\<rparr>)) (\<lambda>out. parse_cfa bytes es compression out))))"
    for compression
  proof (rule ensures_bind [OF scalars_keep_shape [OF shape_default]])
    fix out assume o: "shape_wf out"
    then have "length (as_shot_neutral (pd_capture out)) = 3" by (simp add: shape_wf_def)
    from capture_keeps_neutral [OF this]
    show "ensures result_ok (bind_res (apply_capture_entries bytes es (pd_capture out)) (\<lambda>c.
       bind_res (apply_names bytes es (out\<lparr>pd_capture := c\<rparr>)) (\<lambda>out. parse_cfa bytes es compression out)))"
    proof (rule ensures_bind)
      fix c :: capture_block assume "length (as_shot_neutral c) = 3"
      with o have "shape_wf (out\<lparr>pd_capture := c\<rparr>)" by (simp add: shape_wf_def)
      from ensures_bind [OF names_keep_shape [OF this]] parse_cfa_ok
      show "ensures result_ok (bind_res (apply_names bytes es (out\<lparr>pd_capture := c\<rparr>))
          (\<lambda>out. parse_cfa bytes es compression out))" by blast
    qed
  qed
  then show ?thesis unfolding parse_entries_def using u
    by (intro ensures_bind_any) (auto intro!: ensures_Inr)
qed

text \<open>
  C16: Metadata the DNG parser returns with status OK is well-formed: the image and the strip are not
  empty, samples have 1 to 16 bits, the colour filter array is a supported 2x2 or 4x4 pattern, and the
  calibration arrays and matrices have the lengths the later stages index.
\<close>

theorem parse_dng_wf:
  assumes "parse_dng file = Inr res" and "pr_status res = Ok"
  shows "raw_fields_ok (pr_metadata res) \<and> cfa_supported (pr_metadata res) \<and>
    calibration_wf (pd_calibration (pr_metadata res)) \<and>
    length (as_shot_neutral (pd_capture (pr_metadata res))) = 3"
proof -
  have "result_ok (failed_parse msg)" for msg by (simp add: result_ok_def failed_parse_def)
  then have "ensures result_ok (parse_dng file)" unfolding parse_dng_def
    by (auto intro!: ensures_Inr ensures_bind_any parse_entries_ok split: option.split)
  with assms show ?thesis by (auto simp: ensures_def result_ok_def inv3_def shape_wf_def)
qed

theorem parse_dng_wf_witness:
  "\<exists>res. parse_dng (Some demo_dng) = Inr res \<and> raw_fields_ok (pr_metadata res) \<and> cfa_supported (pr_metadata res)"
proof -
  have "(case parse_dng (Some demo_dng) of Inr res \<Rightarrow> pr_status res = Ok | Inl _ \<Rightarrow> False)" by code_simp
  then obtain res where "parse_dng (Some demo_dng) = Inr res" "pr_status res = Ok"
    by (cases "parse_dng (Some demo_dng)") auto
  with parse_dng_wf [OF this] show ?thesis by blast
qed

end
