(* ===== verification/Dng_Reader.thy ===== *)
theory Dng_Reader
  imports Tiff_Safety Cpu_Buffer
begin

text \<open>
  The DNG reader (\<open>src/cpipe/ingest/dng/DngReader.cpp\<close>). The decoder LibRaw is not part of the sources:
  what it makes of the file is the argument \<open>libraw\<close>, the fields of its image that the reader uses, or
  \<open>None\<close> when opening or unpacking fails. \<open>can_alloc\<close> says which sizes \<open>std::vector\<close> can allocate.
\<close>

section \<open>Data\<close>

record libraw_image =
  lr_make :: string
  lr_model :: string
  lr_iso_speed :: f32
  lr_shutter :: f32
  lr_aperture :: f32
  lr_focal_len :: f32
  lr_timestamp :: int
  lr_maximum :: u32
  lr_black :: u32
  lr_xmp :: "byte list option"
  lr_profile :: "byte list option"
  lr_rawopcodes :: "byte list option list"
  lr_raw_width :: u16
  lr_raw_height :: u16
  lr_raw_image :: "u16 list option"

record decoded_raw =
  dr_bytes :: "byte list"
  dr_metadata :: parsed_dng_metadata

record dng_read_result =
  rr_status :: status_code
  rr_buffer :: "cpu_buffer option"
  rr_message :: string

datatype read_stop = Faulted fault | BufferFailed buffer_error

definition failed_read :: "status_code \<Rightarrow> string \<Rightarrow> dng_read_result" where
  "failed_read status message = \<lparr>rr_status = status, rr_buffer = None, rr_message = message\<rparr>"

section \<open>Metadata from LibRaw\<close>

definition copy_opcode_blob :: "byte list option \<Rightarrow> byte list" where
  "copy_opcode_blob opcode = (case opcode of None \<Rightarrow> [] | Some bytes \<Rightarrow> bytes)"

definition cast_i32 :: "f32 \<Rightarrow> fault + int" where
  "cast_i32 x =
     (case f32_trunc x of
        None \<Rightarrow> Inl BadCast
      | Some i \<Rightarrow> if - (2 ^ 31) \<le> i \<and> i < 2 ^ 31 then Inr i else Inl BadCast)"

definition mul_i64 :: "int \<Rightarrow> int \<Rightarrow> fault + int" where
  "mul_i64 a b = (if - (2 ^ 63) \<le> a * b \<and> a * b < 2 ^ 63 then Inr (a * b) else Inl BadCast)"

text \<open>The capture block: only fields the file did not set are filled in.\<close>

definition libraw_capture :: "libraw_image \<Rightarrow> capture_block \<Rightarrow> fault + capture_block" where
  "libraw_capture img c =
     bind_res (if iso c = 0 \<and> f32_positive (lr_iso_speed img)
       then bind_res (cast_i32 (lr_iso_speed img)) (\<lambda>v. Inr (c\<lparr>iso := v\<rparr>)) else Inr c) (\<lambda>c.
     bind_res (if exposure_time_ns c = 0 \<and> f32_positive (lr_shutter img)
       then bind_res (cast_i64 (f32_mul (lr_shutter img) f32_billion)) (\<lambda>v. Inr (c\<lparr>exposure_time_ns := v\<rparr>))
       else Inr c) (\<lambda>c.
     bind_res (if sensor_timestamp_ns c = 0 \<and> lr_timestamp img > 0
       then bind_res (mul_i64 (lr_timestamp img) 1000000000) (\<lambda>v. Inr (c\<lparr>sensor_timestamp_ns := v\<rparr>))
       else Inr c) (\<lambda>c.
     let c = (if f32_is_zero (lens_aperture c) \<and> f32_positive (lr_aperture img)
              then c\<lparr>lens_aperture := lr_aperture img\<rparr> else c)
     in Inr (if f32_is_zero (lens_focal_length_mm c) \<and> f32_positive (lr_focal_len img)
             then c\<lparr>lens_focal_length_mm := lr_focal_len img\<rparr> else c))))"

definition libraw_calibration :: "libraw_image \<Rightarrow> calibration_block \<Rightarrow> calibration_block" where
  "libraw_calibration img c =
     (let c = (if white_level c = 0 \<and> lr_maximum img > 0 then c\<lparr>white_level := lr_maximum img\<rparr> else c)
      in if list_all f32_is_zero (black_level c) \<and> lr_black img > 0
         then c\<lparr>black_level := replicate (length (black_level c)) (f32_of_u32 (lr_black img))\<rparr> else c)"

definition fill_blob :: "byte list \<Rightarrow> byte list option \<Rightarrow> byte list" where
  "fill_blob current other = (if current = [] then copy_opcode_blob other else current)"

definition apply_libraw_metadata :: "libraw_image \<Rightarrow> parsed_dng_metadata \<Rightarrow> fault + parsed_dng_metadata" where
  "apply_libraw_metadata img m =
     (let m = (if pd_make m = [] then with_capture (\<lambda>c. c\<lparr>camera_id := lr_make img\<rparr>) (m\<lparr>pd_make := lr_make img\<rparr>)
               else m);
          m = (if pd_model m = []
               then with_capture (\<lambda>c. c\<lparr>physical_camera_id := lr_model img\<rparr>) (m\<lparr>pd_model := lr_model img\<rparr>)
               else m)
      in bind_res (libraw_capture img (pd_capture m)) (\<lambda>c.
         Inr (m\<lparr>pd_capture := c, pd_calibration := libraw_calibration img (pd_calibration m),
           pd_xmp_blob := fill_blob (pd_xmp_blob m) (lr_xmp img),
           pd_icc_blob := fill_blob (pd_icc_blob m) (lr_profile img),
           pd_opcode_list_1 := fill_blob (pd_opcode_list_1 m) (lr_rawopcodes img ! 0),
           pd_opcode_list_2 := fill_blob (pd_opcode_list_2 m) (lr_rawopcodes img ! 1),
           pd_opcode_list_3 := fill_blob (pd_opcode_list_3 m) (lr_rawopcodes img ! 2)\<rparr>)))"

section \<open>Pixels\<close>

text \<open>The host is little-endian.\<close>

definition put_u16 :: "u16 \<Rightarrow> byte list" where
  "put_u16 w = [ucast w, ucast (drop_bit 8 w)]"

definition copy_row :: "u16 list \<Rightarrow> nat \<Rightarrow> nat \<Rightarrow> nat \<Rightarrow> fault + byte list" where
  "copy_row img raw_width width y =
     (if y * raw_width + width \<le> length img
      then Inr (concat (map put_u16 (take width (drop (y * raw_width) img))))
      else Inl OutOfBounds)"

definition decode_with_libraw ::
  "(nat \<Rightarrow> bool) \<Rightarrow> libraw_image option \<Rightarrow> parsed_dng_metadata \<Rightarrow> fault + decoded_raw option" where
  "decode_with_libraw can_alloc libraw m =
     (case libraw of
        None \<Rightarrow> Inr None
      | Some img \<Rightarrow>
          (case lr_raw_image img of
             None \<Rightarrow> Inr None
           | Some pixels \<Rightarrow>
               bind_res (apply_libraw_metadata img m) (\<lambda>m.
               let width = unat (pd_width m); height = unat (pd_height m);
                   raw_width = unat (lr_raw_width img); raw_height = unat (lr_raw_height img)
               in if width = 0 \<or> height = 0 \<or> raw_width < width \<or> raw_height < height then Inr None
                  else if \<not> can_alloc (width * height * 2) then Inl BadAlloc
                  else
                    bind_res (map_res (copy_row pixels raw_width width) [0..<height]) (\<lambda>rows.
                    Inr (Some \<lparr>dr_bytes = concat rows, dr_metadata = m\<rparr>)))))"

definition decode_single_strip ::
  "(nat \<Rightarrow> bool) \<Rightarrow> byte list option \<Rightarrow> parsed_dng_metadata \<Rightarrow> fault + decoded_raw option" where
  "decode_single_strip can_alloc file m =
     (case file of
        None \<Rightarrow> Inr None
      | Some bytes \<Rightarrow>
          let off = unat (pd_strip_offset m); count = unat (pd_strip_byte_count m)
          in if off > length bytes \<or> count > length bytes - off then Inr None
             else
               let expected = unat (ucast (pd_width m) * ucast (pd_height m) * 2 :: u64);
                   copy_bytes = min expected count
               in if \<not> can_alloc expected then Inl BadAlloc
                  else if off + copy_bytes \<le> length bytes
                  then Inr (Some \<lparr>dr_bytes = overlay (replicate expected 0) (take copy_bytes (drop off bytes)),
                         dr_metadata = m\<rparr>)
                  else Inl OutOfBounds)"

section \<open>The reader\<close>

definition opt_blob :: "byte list \<Rightarrow> byte list option" where
  "opt_blob bytes = (if bytes = [] then None else Some bytes)"

definition add_blob :: "string \<Rightarrow> byte list \<Rightarrow> (string \<times> byte_blob) list \<Rightarrow> (string \<times> byte_blob) list" where
  "add_blob key bytes blobs = (if bytes = [] then blobs else om_insert key bytes blobs)"

definition make_metadata :: "parsed_dng_metadata \<Rightarrow> buffer_metadata" where
  "make_metadata info =
     default_metadata\<lparr>calibration := Some (pd_calibration info), capture := pd_capture info,
       active_area := pd_active_area info, cs_role := ''raw_camera'', applied_steps := [],
       exif_blob := opt_blob (pd_exif_blob info), xmp_blob := opt_blob (pd_xmp_blob info),
       icc_blob := opt_blob (pd_icc_blob info),
       ext_blobs :=
         add_blob ''com.cpipe.dng.opcode_list_3_bytes'' (pd_opcode_list_3 info)
         (add_blob ''com.cpipe.dng.opcode_list_2_bytes'' (pd_opcode_list_2 info)
         (add_blob ''com.cpipe.dng.opcode_list_1_bytes'' (pd_opcode_list_1 info) []))\<rparr>"

definition raw_layout :: "parsed_dng_metadata \<Rightarrow> buffer_layout" where
  "raw_layout m =
     default_layout\<lparr>kind := Image2D, format := R16_UINT, ndim := 2,
       dims := (dims default_layout)[0 := pd_width m, 1 := pd_height m]\<rparr>"

definition raw_usage :: buffer_usage where
  "raw_usage = usage_or (usage_or usage_Input usage_CpuRead) usage_CpuWrite"

definition faulted :: "fault + 'a \<Rightarrow> read_stop + 'a" where
  "faulted m = (case m of Inl f \<Rightarrow> Inl (Faulted f) | Inr x \<Rightarrow> Inr x)"

definition buffered :: "buffer_error + 'a \<Rightarrow> read_stop + 'a" where
  "buffered m = (case m of Inl f \<Rightarrow> Inl (BufferFailed f) | Inr x \<Rightarrow> Inr x)"

definition fill_buffer :: "(nat \<Rightarrow> byte list option) \<Rightarrow> decoded_raw \<Rightarrow> read_stop + cpu_buffer" where
  "fill_buffer memalign decoded =
     bind_res (buffered (new_cpu_buffer memalign (raw_layout (dr_metadata decoded)) raw_usage ''raw_camera'')) (\<lambda>b0.
     bind_res (buffered (lock_cpu AccessWrite b0)) (\<lambda>b1.
     case memcpy_in (take (min (length (dr_bytes decoded)) (unat (cb_size_bytes b1))) (dr_bytes decoded)) b1 of
       None \<Rightarrow> Inl (Faulted OutOfBounds)
     | Some b2 \<Rightarrow>
         bind_res (buffered (unlock_cpu b2)) (\<lambda>b3.
         Inr (cb_set_metadata (Some (make_metadata (dr_metadata decoded))) (flush_cpu_writes b3)))))"

definition decode :: "(nat \<Rightarrow> bool) \<Rightarrow> byte list option \<Rightarrow> libraw_image option \<Rightarrow> parsed_dng_metadata \<Rightarrow>
    fault + decoded_raw option" where
  "decode can_alloc file libraw m =
     bind_res (decode_with_libraw can_alloc libraw m) (\<lambda>decoded.
     case decoded of Some d \<Rightarrow> Inr (Some d) | None \<Rightarrow> decode_single_strip can_alloc file m)"

definition dng_read :: "(nat \<Rightarrow> bool) \<Rightarrow> (nat \<Rightarrow> byte list option) \<Rightarrow> libraw_image option \<Rightarrow> byte list option \<Rightarrow>
    read_stop + dng_read_result" where
  "dng_read can_alloc memalign libraw file =
     bind_res (faulted (parse_dng file)) (\<lambda>parsed.
     if pr_status parsed \<noteq> Ok
     then let status = (if pr_status parsed = Unsupported then Failed else pr_status parsed)
          in Inr (failed_read status (pr_message parsed))
     else
       bind_res (faulted (decode can_alloc file libraw (pr_metadata parsed))) (\<lambda>decoded.
       case decoded of
         None \<Rightarrow> Inr (failed_read Failed ''failed to decode DNG RAW16 payload'')
       | Some d \<Rightarrow>
           bind_res (fill_buffer memalign d) (\<lambda>b.
           Inr \<lparr>rr_status = Ok, rr_buffer = Some b, rr_message = []\<rparr>)))"

section \<open>Filling the buffer\<close>

lemma raw_layout_size:
  "unat (size_bytes (raw_layout m)) = (unat (pd_width m) * unat (pd_height m) * 2) mod 2 ^ 64"
proof -
  have d: "take 2 (dims (raw_layout m)) = [pd_width m, pd_height m]" "length (dims (raw_layout m)) = 8"
    by (simp_all add: raw_layout_def default_layout_def numeral_eq_Suc)
  have f: "kind (raw_layout m) = Image2D" "format (raw_layout m) = R16_UINT" "ndim (raw_layout m) = 2"
    "stride (raw_layout m) = replicate 8 0" by (simp_all add: raw_layout_def default_layout_def)
  have "unat (size_bytes (raw_layout m)) = (2 * (unat (pd_width m) * unat (pd_height m))) mod 2 ^ 64"
    using d f by (subst size_bytes_packed) (simp_all add: layout_wf_def)
  then show ?thesis by (simp only: mult.commute)
qed

lemma raw_usage_allows: "has_usage raw_usage usage_CpuWrite"
  by (simp add: raw_usage_def has_usage_or) (simp add: has_usage_def usage_and_def usage_flag_defs)

text \<open>A payload of the size of the layout fills the buffer exactly.\<close>

lemma fill_buffer_ok:
  assumes mem: "memalign (unat (size_bytes (raw_layout (dr_metadata d)))) = Some mem"
    and len: "length mem = unat (size_bytes (raw_layout (dr_metadata d)))"
    and size: "length (dr_bytes d) = unat (size_bytes (raw_layout (dr_metadata d)))"
  shows "\<exists>b. fill_buffer memalign d = Inr b \<and> cb_data b = dr_bytes d \<and> \<not> cb_locked b \<and>
    cb_layout b = raw_layout (dr_metadata d) \<and> cb_metadata b = Some (make_metadata (dr_metadata d))"
proof -
  let ?l = "raw_layout (dr_metadata d)"
  have "\<exists>b0. new_cpu_buffer memalign ?l raw_usage ''raw_camera'' = Inr b0 \<and>
      length (cb_data b0) = unat (size_bytes ?l) \<and> \<not> cb_locked b0 \<and> cb_layout b0 = ?l \<and>
      cb_size_bytes b0 = size_bytes ?l \<and> cb_usage b0 = raw_usage"
    using mem len by (auto simp: new_cpu_buffer_def Let_def)
  then obtain b0 where b0: "new_cpu_buffer memalign ?l raw_usage ''raw_camera'' = Inr b0"
    "length (cb_data b0) = unat (size_bytes ?l)" "\<not> cb_locked b0" "cb_layout b0 = ?l"
    "cb_size_bytes b0 = size_bytes ?l" "cb_usage b0 = raw_usage" by blast
  then have "lock_cpu AccessWrite b0 = Inr (b0\<lparr>cb_locked := True\<rparr>)"
    by (simp add: lock_cpu_def raw_usage_allows)
  with b0 size show ?thesis
    by (simp add: fill_buffer_def buffered_def memcpy_in_def unlock_cpu_def cb_set_metadata_def flush_cpu_writes_def)
qed

section \<open>The two decoders\<close>

lemma length_put_u16 [simp]: "length (put_u16 w) = 2"
  by (simp add: put_u16_def)

lemma length_concat_put_u16: "length (concat (map put_u16 xs)) = 2 * length xs"
  by (induction xs) simp_all

lemma concat_put_u16_nth:
  "i < length xs \<Longrightarrow> take 2 (drop (2 * i) (concat (map put_u16 xs))) = put_u16 (xs ! i)"
proof (induction xs arbitrary: i)
  case (Cons x xs)
  then show ?case by (cases i) (simp_all add: put_u16_def)
qed simp

text \<open>The rows of a cropped image, one after the other.\<close>

definition cropped :: "u16 list \<Rightarrow> nat \<Rightarrow> nat \<Rightarrow> nat \<Rightarrow> u16 list" where
  "cropped px raw_width width height =
     concat (map (\<lambda>y. take width (drop (y * raw_width) px)) [0..<height])"

lemma row_fits:
  "y < (rh :: nat) \<Longrightarrow> w \<le> rw \<Longrightarrow> length px = rw * rh \<Longrightarrow> y * rw + w \<le> length px"
proof -
  assume a: "y < rh" "w \<le> rw" "length px = rw * rh"
  have "(y + 1) * rw \<le> rh * rw" using a(1) by (intro mult_le_mono1) simp
  with a show ?thesis by (simp add: mult.commute)
qed

lemma copy_rows:
  assumes "length px = rw * rh" and "w \<le> rw" and "h \<le> rh"
  shows "map_res (copy_row px rw w) [0..<h] =
    Inr (map (\<lambda>y. concat (map put_u16 (take w (drop (y * rw) px)))) [0..<h])"
proof -
  have "map_res (copy_row px rw w) ys = Inr (map (\<lambda>y. concat (map put_u16 (take w (drop (y * rw) px)))) ys)"
    if "\<forall>y \<in> set ys. y < rh" for ys
    using that row_fits [OF _ assms(2,1)] by (induction ys) (simp_all add: copy_row_def)
  then show ?thesis using assms(3) by simp
qed

lemma concat_map_concat: "concat (map (\<lambda>y. concat (map f (g y))) ys) = concat (map f (concat (map g ys)))"
  by (induction ys) simp_all

lemma length_cropped:
  assumes "length px = rw * rh" and "w \<le> rw" and "h \<le> rh"
  shows "length (cropped px rw w h) = h * w"
proof -
  have "map (\<lambda>y. length (take w (drop (y * rw) px))) [0..<h] = replicate h w"
  proof (intro nth_equalityI; simp)
    fix y assume "y < h"
    then show "min (length px - y * rw) w = w" using row_fits [OF _ assms(2,1), of y] assms(3) by simp
  qed
  then show ?thesis by (simp add: cropped_def length_concat comp_def sum_list_replicate)
qed

lemma cropped_nth:
  assumes "length px = rw * rh" and "w \<le> rw" and "h \<le> rh" and "x < w" and "y < h"
  shows "cropped px rw w h ! (y * w + x) = px ! (y * rw + x)"
  using assms(3,5)
proof (induction h)
  case (Suc h)
  have eq: "cropped px rw w (Suc h) = cropped px rw w h @ take w (drop (h * rw) px)"
    by (simp add: cropped_def)
  have len: "length (cropped px rw w h) = h * w" using assms Suc.prems by (intro length_cropped) auto
  show ?case
  proof (cases "y < h")
    case True
    then have "(y + 1) * w \<le> h * w" by (intro mult_le_mono1) simp
    then have "y * w + x < h * w" using assms(4) by simp
    with True Suc eq len show ?thesis by (simp add: nth_append)
  next
    case False
    then have "y = h" using Suc.prems by simp
    with assms(4) eq len row_fits [OF _ assms(2,1), of h] Suc.prems show ?thesis
      by (simp add: nth_append)
  qed
qed simp

lemma decode_with_libraw_ok:
  assumes "lr_raw_image img = Some px" and "apply_libraw_metadata img m = Inr m'"
    and "length px = unat (lr_raw_width img) * unat (lr_raw_height img)"
    and "pd_width m' \<noteq> 0" and "pd_height m' \<noteq> 0" and "unat (pd_width m') \<le> unat (lr_raw_width img)"
    and "unat (pd_height m') \<le> unat (lr_raw_height img)" and "\<And>n. can_alloc n"
  shows "decode_with_libraw can_alloc (Some img) m =
    Inr (Some \<lparr>dr_bytes = concat (map put_u16 (cropped px (unat (lr_raw_width img)) (unat (pd_width m'))
      (unat (pd_height m')))), dr_metadata = m'\<rparr>)"
  using assms copy_rows [OF assms(3,6,7)]
  by (simp add: decode_with_libraw_def cropped_def concat_map_concat not_less Let_def unsigned_eq_0_iff)

lemma decode_single_strip_ok:
  assumes "unat (pd_strip_offset m) + unat (pd_strip_byte_count m) \<le> length bytes" and "\<And>n. can_alloc n"
  shows "decode_single_strip can_alloc (Some bytes) m =
    Inr (Some \<lparr>dr_bytes = (let n = (unat (pd_width m) * unat (pd_height m) * 2) mod 2 ^ 64;
        strip = take (unat (pd_strip_byte_count m)) (drop (unat (pd_strip_offset m)) bytes)
      in overlay (replicate n 0) (take n strip)), dr_metadata = m\<rparr>)"
  using assms
  by (auto simp: decode_single_strip_def Let_def unat_word_ariths mod_simps min_def)

text \<open>
  When LibRaw decodes the file, the buffer the reader returns holds the top left part of the raw image
  of the size the metadata gives, row by row: the sample at column x and row y is the one at the same
  position of LibRaw's image, whose rows may be longer. Nothing is read outside LibRaw's image.
\<close>

lemma dng_read_libraw:
  assumes "parse_dng file = Inr \<lparr>pr_status = Ok, pr_metadata = m, pr_message = []\<rparr>"
    and "lr_raw_image img = Some px" and "length px = unat (lr_raw_width img) * unat (lr_raw_height img)"
    and "apply_libraw_metadata img m = Inr m'" and "pd_width m' \<noteq> 0" and "pd_height m' \<noteq> 0"
    and "unat (pd_width m') \<le> unat (lr_raw_width img)" and "unat (pd_height m') \<le> unat (lr_raw_height img)"
    and "\<And>n. can_alloc n" and "\<And>n. \<exists>mem. memalign n = Some mem \<and> length mem = n"
  shows "\<exists>b. dng_read can_alloc memalign (Some img) file = Inr \<lparr>rr_status = Ok, rr_buffer = Some b, rr_message = []\<rparr> \<and>
    cb_metadata b = Some (make_metadata m') \<and> \<not> cb_locked b \<and>
    length (cb_data b) = unat (pd_width m') * unat (pd_height m') * 2 \<and>
    (\<forall>x < unat (pd_width m'). \<forall>y < unat (pd_height m').
      take 2 (drop (2 * (y * unat (pd_width m') + x)) (cb_data b)) =
        put_u16 (px ! (y * unat (lr_raw_width img) + x)))"
proof -
  let ?w = "unat (pd_width m')" and ?h = "unat (pd_height m')" and ?rw = "unat (lr_raw_width img)"
  define d where "d = \<lparr>dr_bytes = concat (map put_u16 (cropped px ?rw ?w ?h)), dr_metadata = m'\<rparr>"
  have len: "length (cropped px ?rw ?w ?h) = ?h * ?w" using assms by (intro length_cropped) auto
  have "unat (lr_raw_width img) < 2 ^ 16" "unat (lr_raw_height img) < 2 ^ 16"
    using unsigned_less [of "lr_raw_width img"] unsigned_less [of "lr_raw_height img"] by simp_all
  then have "?w < 2 ^ 16" "?h < 2 ^ 16" using assms(7,8) by linarith+
  then have "?w * ?h < 2 ^ 16 * 2 ^ 16" by (intro mult_strict_mono') auto
  moreover have "n * 2 < 2 ^ 64" if "n < 2 ^ 16 * 2 ^ 16" for n :: nat using that by simp
  ultimately have "?w * ?h * 2 < 2 ^ 64" by blast
  then have size: "unat (size_bytes (raw_layout m')) = ?w * ?h * 2" by (simp only: raw_layout_size mod_less)
  from assms(10) obtain mem where mem: "memalign (?w * ?h * 2) = Some mem" "length mem = ?w * ?h * 2" by blast
  have "length (dr_bytes d) = ?w * ?h * 2" by (simp add: d_def length_concat_put_u16 len)
  with mem obtain b where b: "fill_buffer memalign d = Inr b" "cb_data b = dr_bytes d" "\<not> cb_locked b"
    "cb_metadata b = Some (make_metadata m')"
    using fill_buffer_ok [of memalign d mem] by (auto simp: d_def size)
  have "decode can_alloc file (Some img) m = Inr (Some d)"
    using decode_with_libraw_ok [OF assms(2,4,3,5-9)] by (simp add: decode_def d_def)
  with assms(1) b(1) have "dng_read can_alloc memalign (Some img) file =
      Inr \<lparr>rr_status = Ok, rr_buffer = Some b, rr_message = []\<rparr>"
    by (simp add: dng_read_def faulted_def)
  moreover have "take 2 (drop (2 * (y * ?w + x)) (cb_data b)) = put_u16 (px ! (y * ?rw + x))"
    if "x < ?w" "y < ?h" for x y
  proof -
    have "(y + 1) * ?w \<le> ?h * ?w" using that(2) by (intro mult_le_mono1) simp
    then have "y * ?w + x < length (cropped px ?rw ?w ?h)" using that(1) by (simp add: len)
    from concat_put_u16_nth [OF this] show ?thesis
      by (simp only: b(2) d_def decoded_raw.select_convs cropped_nth [OF assms(3,7,8) that])
  qed
  ultimately show ?thesis using b \<open>length (dr_bytes d) = _\<close> by auto
qed

text \<open>A decoder that finds a 3x2 image, of which the 2x2 part is used.\<close>

definition demo_image :: libraw_image where
  "demo_image = \<lparr>lr_make = ''maker'', lr_model = ''model'', lr_iso_speed = 0x42C80000, lr_shutter = 0,
     lr_aperture = 0, lr_focal_len = 0, lr_timestamp = 0, lr_maximum = 1023, lr_black = 64, lr_xmp = None,
     lr_profile = None, lr_rawopcodes = [None, None, None], lr_raw_width = 3, lr_raw_height = 2,
     lr_raw_image = Some [1, 2, 3, 4, 5, 6]\<rparr>"

text \<open>
  When LibRaw gives nothing, the reader takes the bytes of the strip as they are: the buffer holds the
  first width times height times two bytes of the strip, and zeros when the strip is shorter. The
  compression tag of the file plays no part in this.
\<close>

lemma dng_read_single_strip:
  assumes "parse_dng (Some bytes) = Inr \<lparr>pr_status = Ok, pr_metadata = m, pr_message = []\<rparr>"
    and "unat (pd_strip_offset m) + unat (pd_strip_byte_count m) \<le> length bytes"
    and "\<And>n. can_alloc n" and "\<And>n. \<exists>mem. memalign n = Some mem \<and> length mem = n"
  shows "\<exists>b. dng_read can_alloc memalign None (Some bytes) = Inr \<lparr>rr_status = Ok, rr_buffer = Some b, rr_message = []\<rparr> \<and>
    cb_metadata b = Some (make_metadata m) \<and> cb_layout b = raw_layout m \<and>
    (let n = (unat (pd_width m) * unat (pd_height m) * 2) mod 2 ^ 64;
         strip = take (unat (pd_strip_byte_count m)) (drop (unat (pd_strip_offset m)) bytes)
     in cb_data b = take n strip @ replicate (n - length strip) 0)"
proof -
  let ?n = "(unat (pd_width m) * unat (pd_height m) * 2) mod 2 ^ 64"
  let ?strip = "take (unat (pd_strip_byte_count m)) (drop (unat (pd_strip_offset m)) bytes)"
  define d where "d = \<lparr>dr_bytes = overlay (replicate ?n 0) (take ?n ?strip), dr_metadata = m\<rparr>"
  have eq: "overlay (replicate n 0) (take n xs) = take n xs @ replicate (n - length xs) 0" for n and xs :: "byte list"
    by (simp add: overlay_def min_def)
  from assms(4) obtain mem where "memalign ?n = Some mem" "length mem = ?n" by blast
  moreover have "length (dr_bytes d) = ?n" by (simp add: d_def)
  ultimately obtain b where b: "fill_buffer memalign d = Inr b" "cb_data b = dr_bytes d"
    "cb_layout b = raw_layout m" "cb_metadata b = Some (make_metadata m)"
    using fill_buffer_ok [of memalign d mem] by (auto simp: d_def raw_layout_size)
  have "decode can_alloc (Some bytes) None m = Inr (Some d)"
    using decode_single_strip_ok [OF assms(2,3)] by (simp add: decode_def decode_with_libraw_def d_def Let_def)
  with assms(1) b(1) have run: "dng_read can_alloc memalign None (Some bytes) =
      Inr \<lparr>rr_status = Ok, rr_buffer = Some b, rr_message = []\<rparr>" by (simp add: dng_read_def faulted_def)
  have "cb_data b = take ?n ?strip @ replicate (?n - length ?strip) 0"
    using eq [of ?n ?strip] b(2) by (simp only: d_def decoded_raw.select_convs)
  with run b(3,4) show ?thesis unfolding Let_def by blast
qed

end
