(* ===== verification/Half_Float.thy ===== *)
theory Half_Float
  imports Float_Bounds
begin

text \<open>
  The conversions between half and single precision of \<open>src/cpipe/runtime/HostContext.cpp\<close>, on bit
  patterns.
\<close>

unbundle bit_operations_syntax

section \<open>The conversions\<close>

text \<open>
  The loop that normalises the mantissa of a subnormal half. It need not end for every word, so its
  result is an option.
\<close>

partial_function (option) normalize_half :: "u32 \<Rightarrow> u32 \<Rightarrow> (u32 \<times> u32) option" where
  "normalize_half mantissa exponent =
     (if mantissa AND 0x0400 = 0 then normalize_half (push_bit 1 mantissa) (exponent - 1)
      else Some (mantissa, exponent))"

declare normalize_half.simps [code]

definition half_to_bits :: "u16 \<Rightarrow> u32 option" where
  "half_to_bits bits =
     (let sign = push_bit 16 (ucast (bits AND 0x8000)) :: u32;
          exponent = ucast (drop_bit 10 bits AND 0x1f) :: u32;
          mantissa = ucast (bits AND 0x03ff) :: u32
      in if exponent = 0
         then if mantissa = 0 then Some sign
           else (case normalize_half mantissa 1 of
               None \<Rightarrow> None
             | Some (mantissa, exponent) \<Rightarrow>
                 let mantissa = mantissa AND 0x03ff
                 in Some (sign OR push_bit 23 (exponent + 112) OR push_bit 13 mantissa))
         else if exponent = 31 then Some (sign OR 0x7f800000 OR push_bit 13 mantissa)
         else Some (sign OR push_bit 23 (exponent + 112) OR push_bit 13 mantissa))"

definition half_to_float :: "u16 \<Rightarrow> f32 option" where
  "half_to_float bits = half_to_bits bits"

text \<open>The exponent is a signed integer; the shift counts are between 14 and 24.\<close>

definition float_to_half :: "f32 \<Rightarrow> u16" where
  "float_to_half bits =
     (let sign = ucast (drop_bit 16 bits AND 0x8000) :: u16;
          exponent = uint (drop_bit 23 bits AND 0xff) - 127 + 15;
          mantissa = bits AND 0x7fffff
      in if exponent \<le> 0
         then if exponent < - 10 then sign
           else let shifted = drop_bit (nat (1 - exponent + 13)) (mantissa OR 0x800000)
                in ucast (ucast sign OR shifted)
         else if exponent \<ge> 31 then ucast (ucast sign OR 0x7c00 :: u32)
         else ucast (ucast sign OR push_bit 10 (word_of_int exponent) OR drop_bit 13 mantissa))"

section \<open>Fields of a half\<close>

definition half_sign :: "u16 \<Rightarrow> bool" where "half_sign h \<longleftrightarrow> bit h 15"
definition half_exponent :: "u16 \<Rightarrow> int" where "half_exponent h = uint (take_bit 5 (drop_bit 10 h))"
definition half_mantissa :: "u16 \<Rightarrow> int" where "half_mantissa h = uint (take_bit 10 h)"

lemma masks16: "0x8000 = (2 ^ 15 :: u16)" "0x1f = (mask 5 :: u16)" "0x03ff = (mask 10 :: u16)"
  by (simp_all add: mask_eq_exp_minus_1)

lemma masks32: "0x8000 = (2 ^ 15 :: u32)" "0x0400 = (2 ^ 10 :: u32)" "0x03ff = (mask 10 :: u32)"
  "0xff = (mask 8 :: u32)" "0x7fffff = (mask 23 :: u32)" "0x800000 = (2 ^ 23 :: u32)"
  by (simp_all add: mask_eq_exp_minus_1)

lemma bit_8000 [simp]: "bit (0x8000 :: u16) n \<longleftrightarrow> n = 15" "bit (0x8000 :: u32) n \<longleftrightarrow> n = 15"
  "bit (0x8000 :: int) n \<longleftrightarrow> n = 15"
proof -
  have "0x8000 = (2 ^ 15 :: int)" by simp
  then show "bit (0x8000 :: int) n \<longleftrightarrow> n = 15" by (simp only: bit_exp_iff) auto
qed (unfold masks16(1) masks32(1), simp_all only: bit_exp_iff, auto)

lemma half_fields:
  "(ucast (drop_bit 10 h AND 0x1f) :: u32) = ucast (take_bit 5 (drop_bit 10 h))"
  "(ucast (h AND 0x03ff) :: u32) = ucast (take_bit 10 h)" for h :: u16
  unfolding masks16 take_bit_eq_mask by simp_all

lemma half_split:
  "h = (h AND 0x8000) OR push_bit 10 (take_bit 5 (drop_bit 10 h)) OR take_bit 10 h" for h :: u16
proof (rule bit_word_eqI)
  fix n assume "n < LENGTH(16)"
  then consider "n < 10" | "10 \<le> n" "n < 15" | "n = 15" by fastforce
  then show "bit h n \<longleftrightarrow> bit ((h AND 0x8000) OR push_bit 10 (take_bit 5 (drop_bit 10 h)) OR take_bit 10 h) n"
    unfolding masks16 by cases (auto simp: bit_simps)
qed

text \<open>Packing a single from its fields, and reading them back.\<close>

definition pack32 :: "u16 \<Rightarrow> u32 \<Rightarrow> u32 \<Rightarrow> u32" where
  "pack32 h E M = push_bit 16 (ucast (h AND 0x8000)) OR push_bit 23 E OR push_bit 13 M"

lemma bit_take_bit_eq: "take_bit k w = w \<Longrightarrow> bit w n \<Longrightarrow> n < k" for w :: "'a::len word"
  by (metis bit_take_bit_iff)

lemma pack32_fields:
  assumes E: "take_bit 8 E = E" and M: "take_bit 10 M = M"
  shows "drop_bit 23 (pack32 h E M) AND 0xff = E"
    and "pack32 h E M AND 0x7fffff = push_bit 13 M"
    and "(ucast (drop_bit 16 (pack32 h E M) AND 0x8000) :: u16) = h AND 0x8000"
proof -
  note bits = bit_take_bit_eq [OF E] bit_take_bit_eq [OF M]
  show "drop_bit 23 (pack32 h E M) AND 0xff = E"
    unfolding pack32_def masks16 masks32
    by (rule bit_word_eqI) (auto simp: bit_simps dest: bits)
  show "pack32 h E M AND 0x7fffff = push_bit 13 M"
    unfolding pack32_def masks16 masks32
    by (rule bit_word_eqI) (auto simp: bit_simps dest: bits)
  show "(ucast (drop_bit 16 (pack32 h E M) AND 0x8000) :: u16) = h AND 0x8000"
    unfolding pack32_def masks16 masks32
    by (rule bit_word_eqI) (auto simp: bit_simps dest: bits)
qed

section \<open>The normalising loop ends\<close>

lemma bit_10:
  fixes n :: nat
  assumes "2 ^ 10 \<le> n" and "n < 2 ^ 11"
  shows "bit n 10"
proof -
  have "n div 2 ^ 10 = 1" using assms by (simp add: div_nat_eqI)
  then show ?thesis by (simp add: bit_iff_odd)
qed

lemma normalize_half_shift:
  "2 ^ 10 \<le> m * 2 ^ k \<Longrightarrow> m * 2 ^ k < 2 ^ 11 \<Longrightarrow>
     normalize_half (of_nat m) e = Some (of_nat (m * 2 ^ k), e - of_nat k)"
proof (induction k arbitrary: m e)
  case 0
  have "bit m 10" using 0 by (intro bit_10) simp_all
  then have "bit (of_nat m :: u32) 10" by (simp add: bit_of_nat_iff)
  then have "of_nat m AND 0x0400 \<noteq> (0 :: u32)"
    using and_exp_eq_0_iff_not_bit [of "of_nat m :: u32" 10] by simp
  then show ?case by (subst normalize_half.simps) simp
next
  case (Suc k)
  have "m * 2 \<le> m * 2 * 2 ^ k" by simp
  also have "\<dots> < 2 ^ 11" using Suc.prems(2) by (simp add: ac_simps)
  finally have "m < 2 ^ 10" by simp
  then have "\<not> bit m 10" by (simp add: bit_iff_odd)
  then have "of_nat m AND 0x0400 = (0 :: u32)"
    using and_exp_eq_0_iff_not_bit [of "of_nat m :: u32" 10] by (simp add: bit_of_nat_iff)
  then have "normalize_half (of_nat m) e = normalize_half (push_bit 1 (of_nat m)) (e - 1)"
    by (subst normalize_half.simps) simp
  also have "push_bit 1 (of_nat m :: u32) = of_nat (m * 2)" by (simp add: push_bit_eq_mult mult.commute)
  also have "normalize_half (of_nat (m * 2)) (e - 1) = Some (of_nat (m * 2 * 2 ^ k), e - 1 - of_nat k)"
    using Suc.prems by (intro Suc.IH) (simp_all add: ac_simps)
  finally show ?case by (simp add: ac_simps diff_diff_eq)
qed

lemma normalize_shift_exists:
  assumes "0 < m" and "m < 2 ^ 10"
  shows "\<exists>k. 0 < k \<and> k \<le> 10 \<and> 2 ^ 10 \<le> m * 2 ^ k \<and> m * 2 ^ k < (2 ^ 11 :: nat)"
proof -
  define k where "k = (LEAST k. 2 ^ 10 \<le> m * (2 :: nat) ^ k)"
  have ten: "2 ^ 10 \<le> m * (2 :: nat) ^ 10" using assms(1) by simp
  have ge: "2 ^ 10 \<le> m * 2 ^ k" unfolding k_def by (rule LeastI [where P = "\<lambda>k. 2 ^ 10 \<le> m * 2 ^ k", OF ten])
  have "k \<le> 10" unfolding k_def by (rule Least_le [where P = "\<lambda>k. 2 ^ 10 \<le> m * 2 ^ k", OF ten])
  moreover have "0 < k" using ge assms(2) by (cases k) auto
  moreover have "m * 2 ^ (k - 1) < 2 ^ 10"
    using not_less_Least [of "k - 1" "\<lambda>k. 2 ^ 10 \<le> m * 2 ^ k", folded k_def] \<open>0 < k\<close> by simp
  moreover have "m * 2 ^ k = 2 * (m * 2 ^ (k - 1))" using \<open>0 < k\<close> by (cases k) auto
  moreover have "2 * n < 2 ^ 11" if "n < 2 ^ 10" for n :: nat using that by simp
  ultimately have "m * 2 ^ k < 2 ^ 11" by metis
  with \<open>k \<le> 10\<close> \<open>0 < k\<close> ge show ?thesis by blast
qed

section \<open>Round trip\<close>

text \<open>A half in terms of its fields, and the half of a packed single.\<close>

lemma half_to_bits_fields:
  "half_to_bits h =
     (let E = ucast (take_bit 5 (drop_bit 10 h)); M = ucast (take_bit 10 h)
      in if E = 0
         then if M = 0 then Some (pack32 h 0 0)
           else (case normalize_half M 1 of None \<Rightarrow> None
             | Some (M, E) \<Rightarrow> Some (pack32 h (E + 112) (take_bit 10 M)))
         else if E = 31 then Some (pack32 h 255 M)
         else Some (pack32 h (E + 112) M))"
proof -
  have "M AND 0x03ff = take_bit 10 M" for M :: u32 unfolding masks32 by (simp add: take_bit_eq_mask)
  then show ?thesis unfolding half_to_bits_def half_fields Let_def pack32_def
    by (simp split: option.split)
qed

lemma float_to_half_pack:
  assumes "take_bit 8 E = E" and "take_bit 10 M = M"
  shows "float_to_half (pack32 h E M) =
    (let exponent = uint E - 112
     in if exponent \<le> 0
        then if exponent < - 10 then h AND 0x8000
          else ucast (ucast (h AND 0x8000) OR
            drop_bit (nat (14 - exponent)) (push_bit 13 M OR 0x800000) :: u32)
        else if exponent \<ge> 31 then ucast (ucast (h AND 0x8000) OR 0x7c00 :: u32)
        else ucast (ucast (h AND 0x8000) OR push_bit 10 (word_of_int exponent) OR M :: u32))"
proof -
  have "drop_bit 13 (push_bit 13 M) = M"
    by (rule bit_word_eqI) (auto simp: bit_simps dest: bit_take_bit_eq [OF assms(2)])
  then show ?thesis
    unfolding float_to_half_def pack32_fields [OF assms] Let_def by (simp add: algebra_simps)
qed

lemma half_sign_only: "h = h AND 0x8000 \<longleftrightarrow> take_bit 5 (drop_bit 10 h) = 0 \<and> take_bit 10 h = 0" for h :: u16
proof
  assume h: "h = h AND 0x8000"
  have "take_bit 10 (h AND 0x8000) = 0" "take_bit 5 (drop_bit 10 (h AND 0x8000)) = 0"
    unfolding masks16 by (rule bit_word_eqI, auto simp: bit_simps)+
  with h show "take_bit 5 (drop_bit 10 h) = 0 \<and> take_bit 10 h = 0" by metis
next
  assume "take_bit 5 (drop_bit 10 h) = 0 \<and> take_bit 10 h = 0"
  with half_split [of h] show "h = h AND 0x8000" by simp
qed

text \<open>Putting a half together again from its sign and its lower fifteen bits.\<close>

lemma half_join:
  "(ucast (ucast (h AND 0x8000) OR push_bit 10 (ucast (take_bit 5 (drop_bit 10 h))) OR
      ucast (take_bit 10 h) :: u32) :: u16) = h" for h :: u16
proof -
  have "(ucast (ucast (h AND 0x8000) OR push_bit 10 (ucast (take_bit 5 (drop_bit 10 h))) OR
      ucast (take_bit 10 h) :: u32) :: u16) =
      (h AND 0x8000) OR push_bit 10 (take_bit 5 (drop_bit 10 h)) OR take_bit 10 h"
    by (rule bit_word_eqI) (auto simp: bit_simps)
  then show ?thesis using half_split [of h] by simp
qed

lemma subnormal_join:
  "take_bit 5 (drop_bit 10 h) = 0 \<Longrightarrow>
     (ucast (ucast (h AND 0x8000) OR ucast (take_bit 10 h) :: u32) :: u16) = h" for h :: u16
  using half_join [of h] by simp

lemma unat_mantissa: "unat (take_bit 10 h) < 2 ^ 10" for h :: u16
  by (simp only: unsigned_take_bit_eq take_bit_nat_less_exp)

lemma unat_exponent: "unat (take_bit 5 (drop_bit 10 h)) < 2 ^ 5" for h :: u16
  by (simp only: unsigned_take_bit_eq take_bit_nat_less_exp)

lemma take_bit_small: "unat w < 2 ^ k \<Longrightarrow> take_bit k w = w" for w :: "'a::len word"
  by (simp only: word_unat_eq_iff unsigned_take_bit_eq take_bit_nat_eq_self)

lemma infinity_join:
  "(ucast (ucast (h AND 0x8000) OR 0x7c00 :: u32) :: u16) = h \<longleftrightarrow> take_bit 10 h = 0"
  if "take_bit 5 (drop_bit 10 h) = 31" for h :: u16
proof -
  have "(ucast (ucast (h AND 0x8000) OR 0x7c00 :: u32) :: u16) = (h AND 0x8000) OR push_bit 10 31"
    by (rule bit_word_eqI) (auto simp: bit_simps)
  moreover have "take_bit 10 ((h AND 0x8000) OR push_bit 10 31) = (0 :: u16)"
    unfolding masks16 by (rule bit_word_eqI) (auto simp: bit_simps)
  ultimately show ?thesis using half_split [of h] that by (metis or.right_neutral)
qed

lemma bit_800000 [simp]: "bit (0x800000 :: int) n \<longleftrightarrow> n = 23"
proof -
  have "0x800000 = (2 ^ 23 :: int)" by simp
  then show ?thesis by (simp only: bit_exp_iff) auto
qed

lemma hidden_bit:
  assumes "2 ^ 10 \<le> x" and "x < (2 ^ 11 :: nat)"
  shows "push_bit 13 (take_bit 10 (of_nat x)) OR 0x800000 = (push_bit 13 (of_nat x) :: u32)"
proof (rule bit_word_eqI)
  fix n assume n: "n < LENGTH(32)"
  have high: "\<not> bit x i" if "10 < i" for i
  proof -
    have "x < 2 ^ i" using assms(2) that power_increasing [of 11 i "2 :: nat"] by simp
    then show ?thesis by (simp add: bit_iff_odd)
  qed
  consider "n < 13" | "13 \<le> n" "n < 23" | "n = 23" | "23 < n" by linarith
  then show "bit (push_bit 13 (take_bit 10 (of_nat x)) OR 0x800000 :: u32) n =
      bit (push_bit 13 (of_nat x) :: u32) n"
    using n bit_10 [OF assms] high [of "n - 13"]
    by cases (auto simp: bit_simps)
qed

lemma bit_nat_le: "bit m n \<Longrightarrow> 2 ^ n \<le> m" for m :: nat
  by (rule ccontr) (simp add: bit_iff_odd)

lemma subnormal_shift:
  assumes "m < 2 ^ 10" and "2 ^ 10 \<le> m * 2 ^ k" and "m * 2 ^ k < (2 ^ 11 :: nat)" and "k \<le> 10"
  shows "drop_bit (13 + k) (push_bit 13 (take_bit 10 (of_nat (m * 2 ^ k))) OR 0x800000) = (of_nat m :: u32)"
proof -
  let ?X = "m * 2 ^ k"
  have "push_bit 13 (take_bit 10 (of_nat ?X)) OR 0x800000 = (push_bit 13 (of_nat ?X) :: u32)"
    using assms(2,3) by (rule hidden_bit)
  moreover have "drop_bit (13 + k) (push_bit 13 (of_nat ?X)) = (of_nat m :: u32)"
  proof -
    have "push_bit 13 (of_nat ?X) = (push_bit (13 + k) (of_nat m) :: u32)"
      by (simp add: push_bit_eq_mult power_add ac_simps)
    moreover have "drop_bit (13 + k) (push_bit (13 + k) (of_nat m)) = (of_nat m :: u32)"
    proof (rule bit_word_eqI)
      fix n assume n: "n < LENGTH(32)"
      have "n + k < 11" if "bit m n"
      proof -
        have "2 ^ n \<le> m" using that by (rule bit_nat_le)
        then have "2 ^ (n + k) \<le> m * 2 ^ k" by (simp add: power_add)
        with assms(3) have "(2 :: nat) ^ (n + k) < 2 ^ 11" by linarith
        then show ?thesis by (simp only: power_strict_increasing_iff)
      qed
      then show "bit (drop_bit (13 + k) (push_bit (13 + k) (of_nat m)) :: u32) n = bit (of_nat m :: u32) n"
        using n by (cases "bit m n") (auto simp: bit_simps)
    qed
    ultimately show ?thesis by simp
  qed
  ultimately show ?thesis by simp
qed

section \<open>Properties\<close>

lemma half_roundtrip_subnormal:
  assumes E: "take_bit 5 (drop_bit 10 h) = 0" and M: "take_bit 10 h \<noteq> 0"
  shows "\<exists>w. half_to_bits h = Some w \<and> float_to_half w = h"
proof -
  define m where "m = unat (take_bit 10 h)"
  have m: "0 < m" "m < 2 ^ 10" using M unat_mantissa [of h] by (simp_all add: m_def unat_gt_0)
  then obtain k where k: "0 < k" "k \<le> 10" "2 ^ 10 \<le> m * 2 ^ k" "m * 2 ^ k < 2 ^ 11"
    using normalize_shift_exists [of m] by auto
  have mant: "ucast (take_bit 10 h) = (of_nat m :: u32)" by (simp add: m_def)
  have m0: "of_nat m \<noteq> (0 :: u32)" using m by (simp add: word_of_nat_eq_0_iff nat_dvd_not_less)
  let ?E = "1 - of_nat k + 112 :: u32" and ?M = "take_bit 10 (of_nat (m * 2 ^ k)) :: u32"
  have uE: "uint ?E = 113 - int k"
  proof -
    have "?E = word_of_int (113 - int k)" by simp
    then show ?thesis using k(2) by (simp only: uint_word_of_int_eq) (simp add: take_bit_int_eq_self)
  qed
  have "take_bit 8 ?E = ?E" using uE k by (intro take_bit_small) (simp add: unat_eq_nat_uint)
  then have "float_to_half (pack32 h ?E ?M) = ucast (ucast (h AND 0x8000) OR (of_nat m :: u32))"
    using k m uE subnormal_shift [OF m(2) k(3,4,2)]
    by (subst float_to_half_pack) (simp_all add: Let_def nat_add_distrib)
  moreover have "half_to_bits h = Some (pack32 h ?E ?M)"
    unfolding half_to_bits_fields mant using E M m0 normalize_half_shift [OF k(3,4), of 1] mant
    by (simp add: Let_def)
  ultimately show ?thesis using subnormal_join [OF E] mant by simp
qed

lemma half_roundtrip_normal:
  assumes "take_bit 5 (drop_bit 10 h) \<noteq> 0" and "take_bit 5 (drop_bit 10 h) \<noteq> 31"
  shows "\<exists>w. half_to_bits h = Some w \<and> float_to_half w = h \<and> uint (take_bit 5 (drop_bit 10 h)) \<noteq> 31"
proof -
  let ?E = "take_bit 5 (drop_bit 10 h)" and ?M = "take_bit 10 h"
  have M: "take_bit 10 (ucast ?M) = (ucast ?M :: u32)" by (rule bit_word_eqI) (auto simp: bit_simps)
  let ?X = "ucast ?E + 112 :: u32"
  have up: "uint (ucast ?E :: u32) = uint ?E" by (rule uint_up_ucast) (simp add: is_up)
  have "unat ?E \<noteq> 0" "unat ?E \<noteq> 31" using assms by (auto simp: unat_eq_0 dest: arg_cong [where f = "of_nat :: nat \<Rightarrow> u16"])
  moreover have "n < 2 ^ 5 \<Longrightarrow> n \<noteq> 0 \<Longrightarrow> n \<noteq> 31 \<Longrightarrow> 0 < int n \<and> int n < 31" for n :: nat by simp
  ultimately have lt: "0 < uint ?E" "uint ?E < 31" using unat_exponent [of h] uint_nat [of ?E] by metis+
  moreover have "uint (w + 112) = uint w + 112" if "uint w < 31" for w :: u32
    using uint_add_lem [of w 112] that by simp
  ultimately have X: "uint ?X = uint ?E + 112" using up by metis
  have nz: "(ucast ?E :: u32) \<noteq> 0" "(ucast ?E :: u32) \<noteq> 31" using lt up by auto
  then have "half_to_bits h = Some (pack32 h ?X (ucast ?M))" by (simp add: half_to_bits_fields Let_def)
  moreover have t: "take_bit 8 ?X = ?X" using X lt by (intro take_bit_small) (simp add: unat_eq_nat_uint)
  have "uint ?X - 112 = uint ?E" using X by simp
  then have "float_to_half (pack32 h ?X (ucast ?M)) = h"
    unfolding float_to_half_pack [OF t M] Let_def using lt half_join [of h] by (simp add: not_le)
  ultimately show ?thesis using lt(2) by (intro exI conjI) (assumption | linarith)+
qed

text \<open>
  Every half converts to a single, so the loop that normalises a subnormal ends, and converting
  back gives the same half for every zero, subnormal, normal number and infinity. The halves that do
  not come back are exactly the NaNs, which become an infinity.
\<close>

lemma half_float_roundtrip:
  "\<exists>w. half_to_float h = Some w \<and>
     (float_to_half w = h \<longleftrightarrow> \<not> (half_exponent h = 31 \<and> half_mantissa h \<noteq> 0))"
proof -
  let ?E = "take_bit 5 (drop_bit 10 h)" and ?M = "take_bit 10 h"
  have M: "take_bit 10 (ucast ?M) = (ucast ?M :: u32)" by (rule bit_word_eqI) (auto simp: bit_simps)
  consider "?E = 0" "?M = 0" | "?E = 0" "?M \<noteq> 0" | "?E = 31" | "?E \<noteq> 0" "?E \<noteq> 31" by blast
  then show ?thesis
  proof cases
    case 1
    then have "half_to_bits h = Some (pack32 h 0 0)" by (simp add: half_to_bits_fields)
    moreover have "float_to_half (pack32 h 0 0) = h AND 0x8000"
      by (subst float_to_half_pack) simp_all
    ultimately show ?thesis
      using 1 half_sign_only [of h] by (simp add: half_to_float_def half_exponent_def)
  next
    case 2
    with half_roundtrip_subnormal [OF 2] show ?thesis
      by (auto simp: half_to_float_def half_exponent_def)
  next
    case 3
    then have "half_to_bits h = Some (pack32 h 255 (ucast ?M))" by (simp add: half_to_bits_fields)
    moreover have "float_to_half (pack32 h 255 (ucast ?M)) = ucast (ucast (h AND 0x8000) OR 0x7c00 :: u32)"
      using M by (subst float_to_half_pack) simp_all
    ultimately show ?thesis using infinity_join [OF 3] 3
      by (simp add: half_to_float_def half_exponent_def half_mantissa_def uint_0_iff)
  next
    case 4
    with half_roundtrip_normal [OF 4] show ?thesis
      by (auto simp: half_to_float_def half_exponent_def)
  qed
qed

end
