(* ===== verification/Host_Context.thy ===== *)
theory Host_Context
  imports Handles Plugin Byte_Reader
begin

text \<open>
  The suites of functions the host gives to a plugin (\<open>src/cpipe/runtime/HostContext.cpp\<close>): the buffer,
  the metadata, the metadata builder and the parameter suite.

  A pointer argument is an option, \<open>None\<close> the null pointer. An out parameter is passed with the value
  it points to and returned with the value it points to afterwards. An array is a list of the length
  the caller provides; a read or a write outside it is the fault \<open>OutOfBounds\<close>. A C string is the string
  it points to.
\<close>

section \<open>Suites\<close>

datatype suite =
    BufferSuite | ComputeSuite | ParamSuite | InferenceSuite | MetadataSuite | MetadataBuilderSuite

text \<open>\<open>self\<close> tells whether the host pointer is not null.\<close>

definition get_suite :: "bool \<Rightarrow> string \<Rightarrow> int \<Rightarrow> suite option" where
  "get_suite self suite_name version =
     (if \<not> self \<or> version \<noteq> 1 then None
      else if suite_name = ''buffer'' then Some BufferSuite
      else if suite_name = ''compute'' then Some ComputeSuite
      else if suite_name = ''param'' then Some ParamSuite
      else if suite_name = ''inference'' then Some InferenceSuite
      else if suite_name = ''metadata'' then Some MetadataSuite
      else if suite_name = ''metadata_builder'' then Some MetadataBuilderSuite
      else None)"

text \<open>The loop that copies \<open>n\<close> elements.\<close>

definition copy_n :: "nat \<Rightarrow> 'a list \<Rightarrow> 'a list \<Rightarrow> fault + 'a list" where
  "copy_n n src dst =
     (if n \<le> length src \<and> n \<le> length dst then Inr (take n src @ drop n dst) else Inl OutOfBounds)"

text \<open>The same loop into an array that may be a null pointer.\<close>

definition copy_to :: "nat \<Rightarrow> 'a list \<Rightarrow> 'a list option \<Rightarrow> fault + 'a list option" where
  "copy_to n src dst =
     (if n = 0 then Inr dst
      else case dst of None \<Rightarrow> Inl OutOfBounds | Some d \<Rightarrow> bind_res (copy_n n src d) (\<lambda>d. Inr (Some d)))"

section \<open>Buffer suite\<close>

definition hc_get_dims ::
  "buffer_handle option \<Rightarrow> u8 option \<Rightarrow> u32 list option \<Rightarrow> fault + status_code \<times> u8 option \<times> u32 list option"
where
  "hc_get_dims buffer nd out_dims =
     (case (buffer_from_handle buffer, nd, out_dims) of
        (Some impl, Some _, Some out) \<Rightarrow>
          let l = cb_layout impl
          in bind_res (copy_n (unat (ndim l)) (dims l) out) (\<lambda>out.
             Inr (Ok, Some (ndim l), Some out))
      | _ \<Rightarrow> Inr (BadIndex, nd, out_dims))"

definition hc_get_format :: "buffer_handle option \<Rightarrow> int option \<Rightarrow> status_code \<times> int option" where
  "hc_get_format buffer out_format =
     (case (buffer_from_handle buffer, out_format) of
        (Some impl, Some _) \<Rightarrow> (Ok, Some (int (pixel_format_value (format (cb_layout impl)))))
      | _ \<Rightarrow> (BadIndex, out_format))"

fun buffer_kind_value :: "buffer_kind \<Rightarrow> int" where
  "buffer_kind_value Image2D = 0"
| "buffer_kind_value Volume3D = 1"
| "buffer_kind_value TensorND = 2"
| "buffer_kind_value Blob = 3"

definition hc_get_kind :: "buffer_handle option \<Rightarrow> int option \<Rightarrow> status_code \<times> int option" where
  "hc_get_kind buffer out_kind =
     (case (buffer_from_handle buffer, out_kind) of
        (Some impl, Some _) \<Rightarrow> (Ok, Some (buffer_kind_value (kind (cb_layout impl))))
      | _ \<Rightarrow> (BadIndex, out_kind))"

definition hc_get_stride ::
  "buffer_handle option \<Rightarrow> u64 list option \<Rightarrow> fault + status_code \<times> u64 list option" where
  "hc_get_stride buffer out_stride =
     (case (buffer_from_handle buffer, out_stride) of
        (Some impl, Some out) \<Rightarrow>
          let l = cb_layout impl
          in bind_res (copy_n (unat (ndim l)) (stride l) out) (\<lambda>out. Inr (Ok, Some out))
      | _ \<Rightarrow> Inr (BadIndex, out_stride))"

text \<open>A string out parameter points to a pointer, which is null before the call when it is \<open>Some None\<close>.\<close>

definition hc_get_color_role ::
  "buffer_handle option \<Rightarrow> string option option \<Rightarrow> status_code \<times> string option option" where
  "hc_get_color_role buffer out_role =
     (case (buffer_from_handle buffer, out_role) of
        (Some impl, Some _) \<Rightarrow> (Ok, Some (Some (cb_color_role impl)))
      | _ \<Rightarrow> (BadIndex, out_role))"

text \<open>The metadata view of the handle is refreshed first; the out parameter is \<open>Some None\<close> for a null view.\<close>

definition hc_get_metadata ::
  "buffer_handle option \<Rightarrow> metadata_handle option option \<Rightarrow>
     status_code \<times> buffer_handle option \<times> metadata_handle option option" where
  "hc_get_metadata buffer out =
     (case (buffer, buffer_from_handle buffer, out) of
        (Some handle, Some impl, Some _) \<Rightarrow>
          let view = \<lparr>mh_metadata = cb_metadata impl\<rparr>
          in (Ok, Some (handle\<lparr>hd_metadata_view := view\<rparr>),
              Some (if mh_metadata view \<noteq> None then Some view else None))
      | _ \<Rightarrow> (BadIndex, buffer, out))"

text \<open>The cast of the access mode; \<open>CpuBuffer::lock_cpu\<close> treats every other value as read and write.\<close>

definition cast_access :: "int \<Rightarrow> cpu_access" where
  "cast_access access = (if access = 0 then AccessRead else if access = 1 then AccessWrite else AccessReadWrite)"

text \<open>The operations of the buffer behind the handle; the pointer \<open>ptr\<close> receives is the start of its data.\<close>

definition hc_lock_cpu ::
  "buffer_handle option \<Rightarrow> int \<Rightarrow> bool \<Rightarrow> buffer_error + status_code \<times> buffer_handle option" where
  "hc_lock_cpu buffer access ptr =
     (case (buffer, buffer_from_handle buffer) of
        (Some handle, Some impl) \<Rightarrow>
          if \<not> ptr then Inr (BadIndex, buffer)
          else bind_res (lock_cpu (cast_access access) impl) (\<lambda>impl.
            Inr (Ok, Some (handle\<lparr>hd_buffer := Some impl\<rparr>)))
      | _ \<Rightarrow> Inr (BadIndex, buffer))"

definition hc_unlock_cpu ::
  "buffer_handle option \<Rightarrow> buffer_error + status_code \<times> buffer_handle option" where
  "hc_unlock_cpu buffer =
     (case (buffer, buffer_from_handle buffer) of
        (Some handle, Some impl) \<Rightarrow>
          bind_res (unlock_cpu impl) (\<lambda>impl. Inr (Ok, Some (handle\<lparr>hd_buffer := Some impl\<rparr>)))
      | _ \<Rightarrow> Inr (BadIndex, buffer))"

definition hc_flush_cpu_writes :: "buffer_handle option \<Rightarrow> status_code \<times> buffer_handle option" where
  "hc_flush_cpu_writes buffer =
     (case (buffer, buffer_from_handle buffer) of
        (Some handle, Some impl) \<Rightarrow> (Ok, Some (handle\<lparr>hd_buffer := Some (flush_cpu_writes impl)\<rparr>))
      | _ \<Rightarrow> (BadIndex, buffer))"

section \<open>Metadata suite\<close>

text \<open>The function pointers a view carries are the functions below and are left out.\<close>

record calibration_view =
  cv_has_cfa :: int
  cv_cfa_repeat :: "u8 list"
  cv_cfa_pattern :: "u8 list"
  cv_black_level :: "f32 list"
  cv_white_level :: u32
  cv_has_linearization_table :: int
  cv_has_color_matrix1 :: int
  cv_color_matrix1 :: "f32 list"
  cv_has_color_matrix2 :: int
  cv_color_matrix2 :: "f32 list"
  cv_has_forward_matrix1 :: int
  cv_forward_matrix1 :: "f32 list"
  cv_has_forward_matrix2 :: int
  cv_forward_matrix2 :: "f32 list"
  cv_calibration_illuminant1 :: u16
  cv_calibration_illuminant2 :: u16

definition empty_calibration_view :: calibration_view where
  "empty_calibration_view = \<lparr>cv_has_cfa = 0, cv_cfa_repeat = replicate 2 0,
     cv_cfa_pattern = replicate 16 0, cv_black_level = replicate 4 0, cv_white_level = 0,
     cv_has_linearization_table = 0, cv_has_color_matrix1 = 0, cv_color_matrix1 = replicate 9 0,
     cv_has_color_matrix2 = 0, cv_color_matrix2 = replicate 9 0, cv_has_forward_matrix1 = 0,
     cv_forward_matrix1 = replicate 9 0, cv_has_forward_matrix2 = 0,
     cv_forward_matrix2 = replicate 9 0, cv_calibration_illuminant1 = 0,
     cv_calibration_illuminant2 = 0\<rparr>"

text \<open>An optional field: the flag and the copied array, which stays zero when the field is absent.\<close>

definition view_matrix :: "matrix3 option \<Rightarrow> int \<times> f32 list" where
  "view_matrix m = (case m of None \<Rightarrow> (0, replicate 9 0) | Some values \<Rightarrow> (1, values))"

definition fill_calibration_view :: "calibration_block \<Rightarrow> calibration_view" where
  "fill_calibration_view c =
     (let v = empty_calibration_view;
          v = (case cfa c of None \<Rightarrow> v
               | Some d \<Rightarrow> v\<lparr>cv_has_cfa := 1, cv_cfa_repeat := cfa_repeat d, cv_cfa_pattern := cfa_pattern d\<rparr>);
          v = v\<lparr>cv_black_level := black_level c, cv_white_level := white_level c\<rparr>;
          v = (if linearization_table c \<noteq> None then v\<lparr>cv_has_linearization_table := 1\<rparr> else v);
          v = v\<lparr>cv_has_color_matrix1 := fst (view_matrix (color_matrix1 c)),
                cv_color_matrix1 := snd (view_matrix (color_matrix1 c))\<rparr>;
          v = v\<lparr>cv_has_color_matrix2 := fst (view_matrix (color_matrix2 c)),
                cv_color_matrix2 := snd (view_matrix (color_matrix2 c))\<rparr>;
          v = v\<lparr>cv_has_forward_matrix1 := fst (view_matrix (forward_matrix1 c)),
                cv_forward_matrix1 := snd (view_matrix (forward_matrix1 c))\<rparr>;
          v = v\<lparr>cv_has_forward_matrix2 := fst (view_matrix (forward_matrix2 c)),
                cv_forward_matrix2 := snd (view_matrix (forward_matrix2 c))\<rparr>
      in v\<lparr>cv_calibration_illuminant1 := calibration_illuminant1 c,
           cv_calibration_illuminant2 := calibration_illuminant2 c\<rparr>)"

definition hc_get_calibration ::
  "metadata_handle option \<Rightarrow> calibration_view option \<Rightarrow> status_code \<times> calibration_view option" where
  "hc_get_calibration metadata out =
     (case (metadata_from_handle metadata, out) of
        (Some impl, Some _) \<Rightarrow>
          (case calibration impl of
             None \<Rightarrow> (Ok, Some empty_calibration_view)
           | Some c \<Rightarrow> (Ok, Some (fill_calibration_view c)))
      | _ \<Rightarrow> (BadIndex, out))"

text \<open>
  The accessors that fill an array of the caller: they report the number of elements there are and
  copy as many as the caller has room for.
\<close>

definition list_values ::
  "'a list \<Rightarrow> nat \<Rightarrow> 'a list option \<Rightarrow> fault + status_code \<times> nat option \<times> 'a list option" where
  "list_values values max_n out =
     bind_res (copy_to (min max_n (length values)) values out) (\<lambda>out.
     Inr (Ok, Some (length values), out))"

definition hc_get_linearization_table ::
  "metadata_handle option \<Rightarrow> nat \<Rightarrow> nat option \<Rightarrow> u16 list option \<Rightarrow>
     fault + status_code \<times> nat option \<times> u16 list option" where
  "hc_get_linearization_table metadata max_values out_n out_values =
     (case metadata_from_handle metadata of
        None \<Rightarrow> Inr (BadIndex, out_n, out_values)
      | Some impl \<Rightarrow>
          if out_n = None \<or> max_values > 0 \<and> out_values = None then Inr (BadIndex, out_n, out_values)
          else (case calibration impl of
              None \<Rightarrow> Inr (Ok, Some 0, out_values)
            | Some c \<Rightarrow> (case linearization_table c of
                  None \<Rightarrow> Inr (Ok, Some 0, out_values)
                | Some values \<Rightarrow> list_values values max_values out_values)))"

definition hc_get_noise_profile ::
  "metadata_handle option \<Rightarrow> nat \<Rightarrow> nat option \<Rightarrow> f32 list option \<Rightarrow> f32 list option \<Rightarrow>
     fault + status_code \<times> nat option \<times> f32 list option \<times> f32 list option" where
  "hc_get_noise_profile metadata max_pairs out_n out_a out_b =
     (case metadata_from_handle metadata of
        None \<Rightarrow> Inr (BadIndex, out_n, out_a, out_b)
      | Some impl \<Rightarrow>
          if out_n = None \<or> max_pairs > 0 \<and> (out_a = None \<or> out_b = None)
          then Inr (BadIndex, out_n, out_a, out_b)
          else (case calibration impl of
              None \<Rightarrow> Inr (Ok, Some 0, out_a, out_b)
            | Some c \<Rightarrow>
                let count = min max_pairs (length (noise_profile c))
                in bind_res (copy_to count (map fst (noise_profile c)) out_a) (\<lambda>out_a.
                   bind_res (copy_to count (map snd (noise_profile c)) out_b) (\<lambda>out_b.
                   Inr (Ok, Some (length (noise_profile c)), out_a, out_b)))))"

record capture_view =
  pv_sensor_timestamp_ns :: int
  pv_exposure_time_ns :: int
  pv_iso :: int
  pv_lens_focal_length_mm :: f32
  pv_lens_aperture :: f32
  pv_lens_focus_distance_d :: f32
  pv_as_shot_neutral :: "f32 list"
  pv_orientation :: u8
  pv_burst_index :: u32
  pv_burst_size :: u32

definition hc_get_capture ::
  "metadata_handle option \<Rightarrow> capture_view option \<Rightarrow> status_code \<times> capture_view option" where
  "hc_get_capture metadata out =
     (case (metadata_from_handle metadata, out) of
        (Some impl, Some _) \<Rightarrow>
          let p = capture impl
          in (Ok, Some \<lparr>pv_sensor_timestamp_ns = sensor_timestamp_ns p,
                pv_exposure_time_ns = exposure_time_ns p, pv_iso = iso p,
                pv_lens_focal_length_mm = lens_focal_length_mm p, pv_lens_aperture = lens_aperture p,
                pv_lens_focus_distance_d = lens_focus_distance_d p,
                pv_as_shot_neutral = as_shot_neutral p, pv_orientation = orientation p,
                pv_burst_index = burst_index p, pv_burst_size = burst_size p\<rparr>)
      | _ \<Rightarrow> (BadIndex, out))"

record tensor_quant_view =
  tv_scheme :: int
  tv_has_axis :: int
  tv_axis :: u8

fun quant_scheme_value :: "quant_scheme \<Rightarrow> int" where
  "quant_scheme_value QNone = 0"
| "quant_scheme_value QSymmetric = 1"
| "quant_scheme_value QAsymmetric = 2"

definition hc_get_tensor_quant ::
  "metadata_handle option \<Rightarrow> tensor_quant_view option \<Rightarrow> status_code \<times> tensor_quant_view option" where
  "hc_get_tensor_quant metadata out =
     (case (metadata_from_handle metadata, out) of
        (Some impl, Some _) \<Rightarrow>
          let q = tensor_quant impl;
              v = \<lparr>tv_scheme = quant_scheme_value (quant_scheme q), tv_has_axis = 0, tv_axis = 0\<rparr>
          in (Ok, Some (case quant_axis q of None \<Rightarrow> v | Some axis \<Rightarrow> v\<lparr>tv_has_axis := 1, tv_axis := axis\<rparr>))
      | _ \<Rightarrow> (BadIndex, out))"

definition hc_get_cs_role ::
  "metadata_handle option \<Rightarrow> string option option \<Rightarrow> status_code \<times> string option option" where
  "hc_get_cs_role metadata out =
     (case (metadata_from_handle metadata, out) of
        (Some impl, Some _) \<Rightarrow> (Ok, Some (Some (cs_role impl)))
      | _ \<Rightarrow> (BadIndex, out))"

definition hc_get_active_area ::
  "metadata_handle option \<Rightarrow> u32 option \<Rightarrow> u32 option \<Rightarrow> u32 option \<Rightarrow> u32 option \<Rightarrow>
     status_code \<times> u32 option \<times> u32 option \<times> u32 option \<times> u32 option" where
  "hc_get_active_area metadata x y w h =
     (case metadata_from_handle metadata of
        None \<Rightarrow> (BadIndex, x, y, w, h)
      | Some impl \<Rightarrow>
          if x = None \<or> y = None \<or> w = None \<or> h = None then (BadIndex, x, y, w, h)
          else (case active_area impl of
              None \<Rightarrow> (Ok, Some 0, Some 0, Some 0, Some 0)
            | Some a \<Rightarrow>
                (Ok, Some (rect_x a), Some (rect_y a), Some (rect_width a), Some (rect_height a))))"

definition hc_has_applied_step ::
  "metadata_handle option \<Rightarrow> string option \<Rightarrow> int option \<Rightarrow> status_code \<times> int option" where
  "hc_has_applied_step metadata step out_bool =
     (case (metadata_from_handle metadata, step, out_bool) of
        (Some impl, Some s, Some _) \<Rightarrow> (Ok, Some (if s \<in> set (applied_steps impl) then 1 else 0))
      | _ \<Rightarrow> (BadIndex, out_bool))"

text \<open>The caller's array holds string pointers, which are null until they are written.\<close>

definition hc_list_applied_steps ::
  "metadata_handle option \<Rightarrow> nat \<Rightarrow> nat option \<Rightarrow> string option list option \<Rightarrow>
     fault + status_code \<times> nat option \<times> string option list option" where
  "hc_list_applied_steps metadata max_n out_n out_steps =
     (case metadata_from_handle metadata of
        None \<Rightarrow> Inr (BadIndex, out_n, out_steps)
      | Some impl \<Rightarrow>
          if out_n = None \<or> max_n > 0 \<and> out_steps = None then Inr (BadIndex, out_n, out_steps)
          else list_values (map Some (applied_steps impl)) max_n out_steps)"

text \<open>The out pointer and the out size are the bytes of the blob; \<open>Some None\<close> is a null pointer and size 0.\<close>

definition find_blob :: "buffer_metadata \<Rightarrow> string \<Rightarrow> byte_blob option" where
  "find_blob impl key =
     (if key = ''exif_raw'' \<and> exif_blob impl \<noteq> None then exif_blob impl
      else if key = ''xmp_raw'' \<and> xmp_blob impl \<noteq> None then xmp_blob impl
      else if key = ''icc_raw'' \<and> icc_blob impl \<noteq> None then icc_blob impl
      else om_find (ext_blobs impl) key)"

definition hc_get_blob ::
  "metadata_handle option \<Rightarrow> string option \<Rightarrow> byte_blob option option \<Rightarrow>
     status_code \<times> byte_blob option option" where
  "hc_get_blob metadata key out =
     (case (metadata_from_handle metadata, key, out) of
        (Some impl, Some k, Some _) \<Rightarrow>
          (case find_blob impl k of
             None \<Rightarrow> (Failed, Some None)
           | Some bytes \<Rightarrow> (Ok, Some (Some bytes)))
      | _ \<Rightarrow> (BadIndex, out))"

text \<open>One call of \<open>write_key\<close>; \<open>written\<close> counts all keys, also those that no longer fit.\<close>

definition write_key ::
  "nat \<Rightarrow> string \<Rightarrow> nat \<times> string list option \<Rightarrow> fault + nat \<times> string list option" where
  "write_key max_n key = (\<lambda>(written, out_keys).
     if written < max_n
     then (case out_keys of
         None \<Rightarrow> Inl OutOfBounds
       | Some out \<Rightarrow>
           if written < length out then Inr (written + 1, Some (out[written := key])) else Inl OutOfBounds)
     else Inr (written + 1, out_keys))"

definition blob_keys :: "buffer_metadata \<Rightarrow> string list" where
  "blob_keys impl =
     (if exif_blob impl \<noteq> None then [''exif_raw''] else []) @
     (if xmp_blob impl \<noteq> None then [''xmp_raw''] else []) @
     (if icc_blob impl \<noteq> None then [''icc_raw''] else []) @
     map fst (ext_blobs impl)"

definition hc_list_blob_keys ::
  "metadata_handle option \<Rightarrow> nat \<Rightarrow> nat option \<Rightarrow> string list option \<Rightarrow>
     fault + status_code \<times> nat option \<times> string list option" where
  "hc_list_blob_keys metadata max_n out_total out_keys =
     (case metadata_from_handle metadata of
        None \<Rightarrow> Inr (BadIndex, out_total, out_keys)
      | Some impl \<Rightarrow>
          if out_total = None \<or> max_n > 0 \<and> out_keys = None then Inr (BadIndex, out_total, out_keys)
          else
            let total = length (ext_blobs impl) + (if exif_blob impl \<noteq> None then 1 else 0)
                  + (if xmp_blob impl \<noteq> None then 1 else 0) + (if icc_blob impl \<noteq> None then 1 else 0)
            in bind_res (fold_res (write_key max_n) (blob_keys impl) (0, out_keys)) (\<lambda>(written, out_keys).
               Inr (Ok, Some total, out_keys)))"

text \<open>A string copied into a caller's buffer of \<open>cap\<close> bytes, always terminated.\<close>

definition copy_cstring :: "string \<Rightarrow> string option \<Rightarrow> nat \<Rightarrow> fault + status_code \<times> string option" where
  "copy_cstring s out cap =
     (let count = (if cap = 0 then 0 else min (cap - 1) (length s))
      in bind_res (copy_to count s out) (\<lambda>out.
         if cap > 0
         then (case out of
             None \<Rightarrow> Inl OutOfBounds
           | Some o' \<Rightarrow>
               if count < length o' then Inr (Ok, Some (o'[count := CHR 0x00])) else Inl OutOfBounds)
         else Inr (Ok, out)))"

definition hc_get_camera_id ::
  "metadata_handle option \<Rightarrow> string option \<Rightarrow> nat \<Rightarrow> fault + status_code \<times> string option" where
  "hc_get_camera_id metadata out cap =
     (case metadata_from_handle metadata of
        None \<Rightarrow> Inr (BadIndex, out)
      | Some impl \<Rightarrow>
          if cap > 0 \<and> out = None then Inr (BadIndex, out)
          else copy_cstring (camera_id (capture impl)) out cap)"

definition hc_get_physical_camera_id ::
  "metadata_handle option \<Rightarrow> string option \<Rightarrow> nat \<Rightarrow> fault + status_code \<times> string option" where
  "hc_get_physical_camera_id metadata out cap =
     (case metadata_from_handle metadata of
        None \<Rightarrow> Inr (BadIndex, out)
      | Some impl \<Rightarrow>
          if cap > 0 \<and> out = None then Inr (BadIndex, out)
          else copy_cstring (physical_camera_id (capture impl)) out cap)"

definition hc_get_scales ::
  "metadata_handle option \<Rightarrow> nat \<Rightarrow> nat option \<Rightarrow> f32 list option \<Rightarrow>
     fault + status_code \<times> nat option \<times> f32 list option" where
  "hc_get_scales metadata max_n out_n out =
     (case metadata_from_handle metadata of
        None \<Rightarrow> Inr (BadIndex, out_n, out)
      | Some impl \<Rightarrow>
          if out_n = None \<or> max_n > 0 \<and> out = None then Inr (BadIndex, out_n, out)
          else list_values (quant_scales (tensor_quant impl)) max_n out)"

definition hc_get_zero_points ::
  "metadata_handle option \<Rightarrow> nat \<Rightarrow> nat option \<Rightarrow> u32 list option \<Rightarrow>
     fault + status_code \<times> nat option \<times> u32 list option" where
  "hc_get_zero_points metadata max_n out_n out =
     (case metadata_from_handle metadata of
        None \<Rightarrow> Inr (BadIndex, out_n, out)
      | Some impl \<Rightarrow>
          if out_n = None \<or> max_n > 0 \<and> out = None then Inr (BadIndex, out_n, out)
          else list_values (quant_zero_points (tensor_quant impl)) max_n out)"

section \<open>Metadata builder suite\<close>

text \<open>A call can fault on an array argument that is too short, and a frozen builder throws.\<close>

datatype host_stop = MemoryFault fault | BuilderThrows builder_error

type_synonym host_result = "host_stop + status_code \<times> metadata_builder_handle option"

definition read_array :: "nat \<Rightarrow> 'a list \<Rightarrow> host_stop + 'a list" where
  "read_array n xs = (if n \<le> length xs then Inr (take n xs) else Inl (MemoryFault OutOfBounds))"

text \<open>The guard on the handle, the operation of the builder, and the status.\<close>

definition with_builder ::
  "metadata_builder_handle option \<Rightarrow> (metadata_builder \<Rightarrow> builder_result) \<Rightarrow> host_result" where
  "with_builder builder f =
     (case builder of
        None \<Rightarrow> Inr (BadIndex, builder)
      | Some h \<Rightarrow>
          (case f (bh_builder h) of
             Inl e \<Rightarrow> Inl (BuilderThrows e)
           | Inr b \<Rightarrow> Inr (Ok, Some (h\<lparr>bh_builder := b\<rparr>))))"

definition hc_share_calibration_from :: "metadata_builder_handle option \<Rightarrow> nat \<Rightarrow> host_result" where
  "hc_share_calibration_from builder input_idx =
     (case builder of
        None \<Rightarrow> Inr (BadIndex, builder)
      | Some h \<Rightarrow>
          if input_idx \<ge> length (bh_input_metadata h) then Inr (BadIndex, builder)
          else with_builder builder (set_calibration
            (case bh_input_metadata h ! input_idx of None \<Rightarrow> None | Some m \<Rightarrow> calibration m)))"

definition hc_clear_calibration :: "metadata_builder_handle option \<Rightarrow> host_result" where
  "hc_clear_calibration builder = with_builder builder clear_calibration"

definition hc_clear_cfa :: "metadata_builder_handle option \<Rightarrow> host_result" where
  "hc_clear_cfa builder = with_builder builder clear_cfa"

definition hc_set_as_shot_neutral ::
  "metadata_builder_handle option \<Rightarrow> f32 list option \<Rightarrow> host_result" where
  "hc_set_as_shot_neutral builder rgb =
     (case (builder, rgb) of
        (Some _, Some v) \<Rightarrow>
          bind_res (read_array 3 v) (\<lambda>v. with_builder builder (set_as_shot_neutral v))
      | _ \<Rightarrow> Inr (BadIndex, builder))"

definition hc_set_orientation :: "metadata_builder_handle option \<Rightarrow> u8 \<Rightarrow> host_result" where
  "hc_set_orientation builder orient = with_builder builder (set_orientation orient)"

definition hc_set_cs_role :: "metadata_builder_handle option \<Rightarrow> string option \<Rightarrow> host_result" where
  "hc_set_cs_role builder role =
     (case role of
        None \<Rightarrow> Inr (BadIndex, builder)
      | Some r \<Rightarrow> with_builder builder (set_cs_role r))"

definition hc_add_applied_step :: "metadata_builder_handle option \<Rightarrow> string option \<Rightarrow> host_result" where
  "hc_add_applied_step builder step =
     (case step of
        None \<Rightarrow> Inr (BadIndex, builder)
      | Some s \<Rightarrow> with_builder builder (add_applied_step s))"

definition hc_remove_applied_step :: "metadata_builder_handle option \<Rightarrow> string option \<Rightarrow> host_result" where
  "hc_remove_applied_step builder step =
     (case step of
        None \<Rightarrow> Inr (BadIndex, builder)
      | Some s \<Rightarrow> with_builder builder (remove_applied_step s))"

definition hc_set_active_area ::
  "metadata_builder_handle option \<Rightarrow> u32 \<Rightarrow> u32 \<Rightarrow> u32 \<Rightarrow> u32 \<Rightarrow> host_result" where
  "hc_set_active_area builder x y w h =
     with_builder builder (set_active_area
       (Some \<lparr>rect_x = x, rect_y = y, rect_width = w, rect_height = h\<rparr>))"

definition cast_scheme :: "int \<Rightarrow> quant_scheme" where
  "cast_scheme scheme = (if scheme = 0 then QNone else if scheme = 1 then QSymmetric else QAsymmetric)"

text \<open>\<open>scales\<close> and \<open>zero_points\<close> with their counts; an empty array is not read.\<close>

definition read_counted :: "nat \<Rightarrow> 'a list option \<Rightarrow> host_stop + 'a list" where
  "read_counted n xs =
     (if n > 0 then (case xs of None \<Rightarrow> Inl (MemoryFault OutOfBounds) | Some v \<Rightarrow> read_array n v) else Inr [])"

definition hc_set_tensor_quant ::
  "metadata_builder_handle option \<Rightarrow> int \<Rightarrow> int \<Rightarrow> u8 \<Rightarrow> f32 list option \<Rightarrow> nat \<Rightarrow> u32 list option \<Rightarrow> nat \<Rightarrow>
     host_result" where
  "hc_set_tensor_quant builder scheme has_axis axis scales n_scales zero_points n_zp =
     (if builder = None \<or> scheme < 0 \<or> scheme > 2 \<or> n_scales > 0 \<and> scales = None \<or>
         n_zp > 0 \<and> zero_points = None
      then Inr (BadIndex, builder)
      else
        bind_res (read_counted n_scales scales) (\<lambda>s.
        bind_res (read_counted n_zp zero_points) (\<lambda>z.
        with_builder builder (set_tensor_quant
          \<lparr>quant_scheme = cast_scheme scheme, quant_axis = (if has_axis \<noteq> 0 then Some axis else None),
           quant_scales = s, quant_zero_points = z\<rparr>))))"

definition hc_set_blob ::
  "metadata_builder_handle option \<Rightarrow> string option \<Rightarrow> byte list option \<Rightarrow> nat \<Rightarrow> host_result" where
  "hc_set_blob builder key ptr n =
     (case key of
        None \<Rightarrow> Inr (BadIndex, builder)
      | Some k \<Rightarrow>
          if builder = None \<or> n > 0 \<and> ptr = None then Inr (BadIndex, builder)
          else if n = 0 then with_builder builder (set_blob k None)
          else bind_res (read_counted n ptr) (\<lambda>bytes. with_builder builder (set_blob k (Some bytes))))"

definition hc_set_cfa ::
  "metadata_builder_handle option \<Rightarrow> u8 list option \<Rightarrow> u8 list option \<Rightarrow> host_result" where
  "hc_set_cfa builder repeat pattern =
     (case (builder, repeat, pattern) of
        (Some _, Some r, Some p) \<Rightarrow>
          bind_res (read_array 2 r) (\<lambda>r.
          bind_res (read_array 16 p) (\<lambda>p.
          with_builder builder (set_cfa (default_cfa\<lparr>cfa_repeat := r, cfa_pattern := p\<rparr>))))
      | _ \<Rightarrow> Inr (BadIndex, builder))"

definition hc_merge_from :: "metadata_builder_handle option \<Rightarrow> nat \<Rightarrow> int \<Rightarrow> host_result" where
  "hc_merge_from builder input_idx policy = Inr (if policy = 0 then Ok else Unsupported, builder)"

section \<open>Parameter suite\<close>

text \<open>\<open>ParamHandle.cpp\<close>: a parameter handle holds a JSON value. The further accessors the suite calls.\<close>

record 'j param_api = "'j json_api" +
  js_contains :: "'j \<Rightarrow> string \<Rightarrow> bool"
  js_is_integer :: "'j \<Rightarrow> bool"
  js_get_i64 :: "'j \<Rightarrow> int option"
  js_get_bool :: "'j \<Rightarrow> bool option"
  js_size :: "'j \<Rightarrow> nat"
  js_index :: "'j \<Rightarrow> nat \<Rightarrow> 'j option"
  js_get_float :: "'j \<Rightarrow> f32 option"

record 'j param_handle =
  ph_params :: 'j

definition make_param_handle :: "'j \<Rightarrow> 'j param_handle" where
  "make_param_handle params = \<lparr>ph_params = params\<rparr>"

definition params_from_handle :: "'j param_handle option \<Rightarrow> 'j option" where
  "params_from_handle handle = map_option ph_params handle"

text \<open>
  The shared shape of the scalar accessors: the guards in order, the type test on the value, and the
  conversion, which may throw.
\<close>

definition get_param ::
  "('j, 'x) param_api_scheme \<Rightarrow> ('j \<Rightarrow> bool) \<Rightarrow> ('j \<Rightarrow> 'a option) \<Rightarrow>
     'j param_handle option \<Rightarrow> string option \<Rightarrow> 'a option \<Rightarrow> stop + status_code \<times> 'a option" where
  "get_param J is_type conv props key out =
     (case (params_from_handle props, key, out) of
        (Some params, Some k, Some _) \<Rightarrow>
          if \<not> js_contains J params k then Inr (NeedParam, out)
          else bind_res (or_throw (js_at J params k)) (\<lambda>v.
            if \<not> is_type v then Inr (NeedParam, out)
            else bind_res (or_throw (conv v)) (\<lambda>x. Inr (Ok, Some x)))
      | _ \<Rightarrow> Inr (NeedParam, out))"

definition hc_get_param_double ::
  "('j, 'x) param_api_scheme \<Rightarrow> 'j param_handle option \<Rightarrow> string option \<Rightarrow> rat option \<Rightarrow>
     stop + status_code \<times> rat option" where
  "hc_get_param_double J = get_param J (js_is_number J) (js_get_double J)"

definition hc_get_param_int ::
  "('j, 'x) param_api_scheme \<Rightarrow> 'j param_handle option \<Rightarrow> string option \<Rightarrow> int option \<Rightarrow>
     stop + status_code \<times> int option" where
  "hc_get_param_int J = get_param J (js_is_integer J) (js_get_i64 J)"

definition hc_get_param_bool ::
  "('j, 'x) param_api_scheme \<Rightarrow> 'j param_handle option \<Rightarrow> string option \<Rightarrow> int option \<Rightarrow>
     stop + status_code \<times> int option" where
  "hc_get_param_bool J =
     get_param J (js_is_boolean J) (\<lambda>v. map_option (\<lambda>b. if b then 1 else 0) (js_get_bool J v))"

definition hc_get_param_enum ::
  "('j, 'x) param_api_scheme \<Rightarrow> 'j param_handle option \<Rightarrow> string option \<Rightarrow> string option option \<Rightarrow>
     stop + status_code \<times> string option option" where
  "hc_get_param_enum J = get_param J (js_is_string J) (\<lambda>v. map_option Some (js_get_string J v))"

definition hc_get_param_curve :: status_code where
  "hc_get_param_curve = Unsupported"

text \<open>The loop over the four components; the components before a bad one have been written.\<close>

fun read_color ::
  "('j, 'x) param_api_scheme \<Rightarrow> 'j \<Rightarrow> nat list \<Rightarrow> f32 list \<Rightarrow> stop + status_code \<times> f32 list" where
  "read_color J v [] rgba = Inr (Ok, rgba)"
| "read_color J v (i # is) rgba =
     bind_res (or_throw (js_index J v i)) (\<lambda>e.
       if \<not> js_is_number J e then Inr (NeedParam, rgba)
       else bind_res (or_throw (js_get_float J e)) (\<lambda>x. read_color J v is (rgba[i := x])))"

definition hc_get_param_color ::
  "('j, 'x) param_api_scheme \<Rightarrow> 'j param_handle option \<Rightarrow> string option \<Rightarrow> f32 list option \<Rightarrow>
     stop + status_code \<times> f32 list option" where
  "hc_get_param_color J props key rgba =
     (case (params_from_handle props, key, rgba) of
        (Some params, Some k, Some out) \<Rightarrow>
          if \<not> js_contains J params k then Inr (NeedParam, rgba)
          else bind_res (or_throw (js_at J params k)) (\<lambda>v.
            if \<not> js_is_array J v \<or> js_size J v \<noteq> 4 then Inr (NeedParam, rgba)
            else bind_res (read_color J v [0, 1, 2, 3] out) (\<lambda>(status, out). Inr (status, Some out)))
      | _ \<Rightarrow> Inr (NeedParam, rgba))"

section \<open>A plugin's calls on the builder\<close>

datatype host_call =
    HShareCalibration nat | HClearCalibration | HClearCfa | HSetAsShotNeutral "f32 list option"
  | HSetOrientation u8 | HSetCsRole "string option" | HAddAppliedStep "string option"
  | HRemoveAppliedStep "string option" | HSetActiveArea u32 u32 u32 u32
  | HSetTensorQuant int int u8 "f32 list option" nat "u32 list option" nat
  | HSetBlob "string option" "byte list option" nat | HSetCfa "u8 list option" "u8 list option"
  | HMergeFrom nat int

fun exec_host_call :: "host_call \<Rightarrow> metadata_builder_handle option \<Rightarrow> host_result" where
  "exec_host_call (HShareCalibration i) b = hc_share_calibration_from b i"
| "exec_host_call HClearCalibration b = hc_clear_calibration b"
| "exec_host_call HClearCfa b = hc_clear_cfa b"
| "exec_host_call (HSetAsShotNeutral v) b = hc_set_as_shot_neutral b v"
| "exec_host_call (HSetOrientation v) b = hc_set_orientation b v"
| "exec_host_call (HSetCsRole r) b = hc_set_cs_role b r"
| "exec_host_call (HAddAppliedStep s) b = hc_add_applied_step b s"
| "exec_host_call (HRemoveAppliedStep s) b = hc_remove_applied_step b s"
| "exec_host_call (HSetActiveArea x y w h) b = hc_set_active_area b x y w h"
| "exec_host_call (HSetTensorQuant s ha a sc n zp m) b = hc_set_tensor_quant b s ha a sc n zp m"
| "exec_host_call (HSetBlob k p n) b = hc_set_blob b k p n"
| "exec_host_call (HSetCfa r p) b = hc_set_cfa b r p"
| "exec_host_call (HMergeFrom i p) b = hc_merge_from b i p"

fun run_host_calls ::
  "host_call list \<Rightarrow> metadata_builder_handle option \<Rightarrow>
     host_stop + status_code list \<times> metadata_builder_handle option" where
  "run_host_calls [] b = Inr ([], b)"
| "run_host_calls (c # cs) b =
     bind_res (exec_host_call c b) (\<lambda>(s, b1).
     bind_res (run_host_calls cs b1) (\<lambda>(ss, b2). Inr (s # ss, b2)))"

text \<open>
  The specification of a call: the builder call it stands for, or the status with which it is
  refused; \<open>inputs\<close> are the metadata of the node's inputs. And the memory the call reads.
\<close>

fun host_call_spec :: "buffer_metadata option list \<Rightarrow> host_call \<Rightarrow> status_code + builder_call" where
  "host_call_spec inputs (HShareCalibration i) =
     (if i < length inputs then Inr (SetCalibration (Option.bind (inputs ! i) calibration)) else Inl BadIndex)"
| "host_call_spec inputs HClearCalibration = Inr ClearCalibration"
| "host_call_spec inputs HClearCfa = Inr ClearCfa"
| "host_call_spec inputs (HSetAsShotNeutral v) =
     (case v of None \<Rightarrow> Inl BadIndex | Some rgb \<Rightarrow> Inr (SetAsShotNeutral (take 3 rgb)))"
| "host_call_spec inputs (HSetOrientation v) = Inr (SetOrientation v)"
| "host_call_spec inputs (HSetCsRole r) =
     (case r of None \<Rightarrow> Inl BadIndex | Some role \<Rightarrow> Inr (SetCsRole role))"
| "host_call_spec inputs (HAddAppliedStep s) =
     (case s of None \<Rightarrow> Inl BadIndex | Some step \<Rightarrow> Inr (AddAppliedStep step))"
| "host_call_spec inputs (HRemoveAppliedStep s) =
     (case s of None \<Rightarrow> Inl BadIndex | Some step \<Rightarrow> Inr (RemoveAppliedStep step))"
| "host_call_spec inputs (HSetActiveArea x y w h) =
     Inr (SetActiveArea (Some \<lparr>rect_x = x, rect_y = y, rect_width = w, rect_height = h\<rparr>))"
| "host_call_spec inputs (HSetTensorQuant s ha a sc n zp m) =
     (if s < 0 \<or> 2 < s \<or> 0 < n \<and> sc = None \<or> 0 < m \<and> zp = None then Inl BadIndex
      else Inr (SetTensorQuant \<lparr>quant_scheme = [QNone, QSymmetric, QAsymmetric] ! nat s,
        quant_axis = (if ha = 0 then None else Some a),
        quant_scales = (case sc of None \<Rightarrow> [] | Some v \<Rightarrow> take n v),
        quant_zero_points = (case zp of None \<Rightarrow> [] | Some v \<Rightarrow> take m v)\<rparr>))"
| "host_call_spec inputs (HSetBlob k p n) =
     (case (k, p) of
        (None, _) \<Rightarrow> Inl BadIndex
      | (Some key, None) \<Rightarrow> if n = 0 then Inr (SetBlob key None) else Inl BadIndex
      | (Some key, Some bytes) \<Rightarrow> Inr (SetBlob key (if n = 0 then None else Some (take n bytes))))"
| "host_call_spec inputs (HSetCfa r p) =
     (case (r, p) of
        (Some r', Some p') \<Rightarrow> Inr (SetCfa \<lparr>cfa_repeat = take 2 r', cfa_pattern = take 16 p'\<rparr>)
      | _ \<Rightarrow> Inl BadIndex)"
| "host_call_spec inputs (HMergeFrom i p) = Inl (if p = 0 then Ok else Unsupported)"

fun host_call_readable :: "host_call \<Rightarrow> bool" where
  "host_call_readable (HSetAsShotNeutral (Some v)) = (3 \<le> length v)"
| "host_call_readable (HSetTensorQuant s ha a sc n zp m) =
     ((case sc of None \<Rightarrow> True | Some v \<Rightarrow> n \<le> length v) \<and> (case zp of None \<Rightarrow> True | Some v \<Rightarrow> m \<le> length v))"
| "host_call_readable (HSetBlob k (Some p) n) = (n \<le> length p)"
| "host_call_readable (HSetCfa (Some r) (Some p)) = (2 \<le> length r \<and> 16 \<le> length p)"
| "host_call_readable _ = True"

lemmas host_builder_defs = hc_share_calibration_from_def hc_clear_calibration_def hc_clear_cfa_def
  hc_set_as_shot_neutral_def hc_set_orientation_def hc_set_cs_role_def hc_add_applied_step_def
  hc_remove_applied_step_def hc_set_active_area_def hc_set_tensor_quant_def hc_set_blob_def
  hc_set_cfa_def hc_merge_from_def

text \<open>A call is its specification, run by the builder.\<close>

lemma cast_scheme_nth: "0 \<le> s \<Longrightarrow> s \<le> 2 \<Longrightarrow> cast_scheme s = [QNone, QSymmetric, QAsymmetric] ! nat s"
proof -
  assume "0 \<le> s" "s \<le> 2"
  then have "s = 0 \<or> s = 1 \<or> s = 2" by presburger
  then show ?thesis by (auto simp: cast_scheme_def numeral_2_eq_2)
qed

lemma read_counted_eq:
  "(case v of None \<Rightarrow> n = 0 | Some xs \<Rightarrow> n \<le> length xs) \<Longrightarrow>
     read_counted n v = Inr (case v of None \<Rightarrow> [] | Some xs \<Rightarrow> take n xs)"
  by (auto simp: read_counted_def read_array_def split: option.splits)

lemma exec_host_call_spec:
  assumes "host_call_readable c"
  shows "exec_host_call c (Some h) =
    (case host_call_spec (bh_input_metadata h) c of
       Inl s \<Rightarrow> Inr (s, Some h) | Inr bc \<Rightarrow> with_builder (Some h) (exec_call bc))"
proof (cases c)
  case (HSetTensorQuant s ha a sc n zp m)
  with assms show ?thesis
    by (auto simp: host_builder_defs read_counted_eq cast_scheme_nth split: option.splits)
next
  case (HSetBlob k p n)
  with assms show ?thesis
    by (auto simp: host_builder_defs read_counted_eq split: option.splits)
next
  case (HShareCalibration i)
  then show ?thesis by (auto simp: host_builder_defs split: option.splits)
qed (use assms in \<open>auto simp: host_builder_defs read_array_def default_cfa_def split: option.splits\<close>)

lemma exec_host_call_unfrozen:
  assumes "host_call_readable c" and "\<not> is_frozen (bh_builder h)"
  shows "exec_host_call c (Some h) =
    (case host_call_spec (bh_input_metadata h) c of
       Inl s \<Rightarrow> Inr (s, Some h)
     | Inr bc \<Rightarrow> Inr (Ok, Some (h\<lparr>bh_builder :=
         (bh_builder h)\<lparr>mb_metadata := apply_call bc (mb_metadata (bh_builder h))\<rparr>\<rparr>)))"
  using assms by (simp add: exec_host_call_spec with_builder_def exec_call_eq split: sum.splits)

definition host_status :: "buffer_metadata option list \<Rightarrow> host_call \<Rightarrow> status_code" where
  "host_status inputs c = (case host_call_spec inputs c of Inl s \<Rightarrow> s | Inr _ \<Rightarrow> Ok)"

fun accepted_calls :: "buffer_metadata option list \<Rightarrow> host_call list \<Rightarrow> builder_call list" where
  "accepted_calls inputs [] = []"
| "accepted_calls inputs (c # cs) =
     (case host_call_spec inputs c of Inl _ \<Rightarrow> [] | Inr bc \<Rightarrow> [bc]) @ accepted_calls inputs cs"

lemma run_host_calls_unfrozen:
  assumes "\<forall>c \<in> set cs. host_call_readable c" and "\<not> is_frozen (bh_builder h)"
  shows "run_host_calls cs (Some h) = Inr (map (host_status (bh_input_metadata h)) cs,
    Some (h\<lparr>bh_builder := (bh_builder h)\<lparr>mb_metadata :=
      fold apply_call (accepted_calls (bh_input_metadata h) cs) (mb_metadata (bh_builder h))\<rparr>\<rparr>))"
  using assms
proof (induction cs arbitrary: h)
  case (Cons c cs)
  have r: "host_call_readable c" "\<forall>c \<in> set cs. host_call_readable c" using Cons.prems(1) by auto
  show ?case
  proof (cases "host_call_spec (bh_input_metadata h) c")
    case (Inl s)
    with Cons.IH [OF r(2) Cons.prems(2)] show ?thesis
      by (simp add: exec_host_call_unfrozen [OF r(1) Cons.prems(2)] host_status_def)
  next
    case (Inr bc)
    let ?h = "h\<lparr>bh_builder := (bh_builder h)\<lparr>mb_metadata := apply_call bc (mb_metadata (bh_builder h))\<rparr>\<rparr>"
    have "\<not> is_frozen (bh_builder ?h)" using Cons.prems(2) by (simp add: is_frozen_def)
    from Cons.IH [OF r(2) this] Inr show ?thesis
      by (simp add: exec_host_call_unfrozen [OF r(1) Cons.prems(2)] host_status_def)
  qed
qed simp

lemma host_call_spec_wf:
  assumes "host_call_readable c" and "\<forall>m. Some m \<in> set inputs \<longrightarrow> metadata_wf m"
    and "host_call_spec inputs c = Inr bc"
  shows "call_wf bc"
proof (cases c)
  case (HShareCalibration i)
  show ?thesis
  proof (cases "Option.bind (inputs ! i) calibration")
    case None
    with HShareCalibration assms(3) show ?thesis by (auto split: if_splits)
  next
    case (Some k)
    with HShareCalibration assms(3) have "i < length inputs" "bc = SetCalibration (Some k)"
      by (auto split: if_splits)
    moreover from Some obtain m where "inputs ! i = Some m" "calibration m = Some k"
      by (auto simp: bind_eq_Some_conv)
    ultimately show ?thesis using assms(2) by (metis call_wf.simps(1) metadata_wf_def nth_mem)
  qed
qed (use assms in \<open>auto simp: cfa_wf_def split: option.splits if_splits\<close>)

lemma accepted_calls_wf:
  assumes "\<forall>c \<in> set cs. host_call_readable c" and "\<forall>m. Some m \<in> set inputs \<longrightarrow> metadata_wf m"
  shows "\<forall>bc \<in> set (accepted_calls inputs cs). call_wf bc"
  using assms(1)
proof (induction cs)
  case (Cons c cs)
  with host_call_spec_wf [OF _ assms(2), of c] show ?case by (auto split: sum.splits)
qed simp

section \<open>Properties\<close>

definition base_metadata :: "buffer_metadata option \<Rightarrow> buffer_metadata" where
  "base_metadata base = (case base of None \<Rightarrow> default_metadata | Some m \<Rightarrow> m)"

text \<open>
  C18: a plugin that drives the metadata of its output through the builder suite gets exactly the
  builder calls its arguments stand for. Each call returns the status its specification gives (in
  particular \<open>merge_from\<close> accepts policy 0 only, which does nothing; the four merging policies that the
  documentation of the SDK lists are refused as unsupported), a call that is refused changes nothing, nothing is read outside the arrays the plugin passes, and freezing
  the handle yields the base metadata with the accepted calls applied in order, well-formed when the
  base and the input metadata are.
\<close>

theorem host_calls_refine:
  assumes "\<forall>c \<in> set cs. host_call_readable c"
    and "\<forall>m. Some m \<in> set (base # inputs) \<longrightarrow> metadata_wf m"
  shows "\<exists>h m. run_host_calls cs (Some (make_metadata_builder_handle base inputs)) =
      Inr (map (host_status inputs) cs, Some h) \<and>
    freeze_metadata_builder (Some h) = Some m \<and>
    m = fold apply_call (accepted_calls inputs cs) (base_metadata base) \<and> metadata_wf m"
proof -
  let ?h = "make_metadata_builder_handle base inputs"
  have b: "\<not> is_frozen (bh_builder ?h)" "bh_input_metadata ?h = inputs"
    "mb_metadata (bh_builder ?h) = base_metadata base"
    by (auto simp: make_metadata_builder_handle_def builder_from_base_def new_builder_def is_frozen_def
        base_metadata_def split: option.splits)
  have "metadata_wf (base_metadata base)"
    using assms(2) metadata_wf_default by (auto simp: base_metadata_def split: option.splits)
  then have "metadata_wf (fold apply_call (accepted_calls inputs cs) (base_metadata base))"
    using accepted_calls_wf assms by (intro fold_apply_call_wf) auto
  with run_host_calls_unfrozen [OF assms(1) b(1)] b show ?thesis
    by (simp add: freeze_metadata_builder_def freeze_def is_frozen_def)
qed

theorem host_calls_refine_witness:
  "\<exists>h m. run_host_calls [HSetCsRole (Some ''scene''), HSetCsRole None, HAddAppliedStep (Some ''demosaic''),
        HShareCalibration 0, HMergeFrom 0 3]
      (Some (make_metadata_builder_handle None [Some default_metadata])) =
      Inr ([Ok, BadIndex, Ok, Ok, Unsupported], Some h) \<and>
    freeze_metadata_builder (Some h) = Some m \<and>
    m = default_metadata\<lparr>cs_role := ''scene'', applied_steps := [''demosaic'']\<rparr> \<and> metadata_wf m"
proof -
  let ?cs = "[HSetCsRole (Some ''scene''), HSetCsRole None, HAddAppliedStep (Some ''demosaic''),
        HShareCalibration 0, HMergeFrom 0 3]" and ?inputs = "[Some default_metadata]"
  have r: "\<forall>c \<in> set ?cs. host_call_readable c" by simp
  have w: "\<forall>m. Some m \<in> set (None # ?inputs) \<longrightarrow> metadata_wf m" by (simp add: metadata_wf_default)
  have s: "map (host_status ?inputs) ?cs = [Ok, BadIndex, Ok, Ok, Unsupported]"
    by (simp add: host_status_def)
  have f: "fold apply_call (accepted_calls ?inputs ?cs) (base_metadata None) =
      default_metadata\<lparr>cs_role := ''scene'', applied_steps := [''demosaic'']\<rparr>"
    by (simp add: base_metadata_def default_metadata_def)
  show ?thesis using host_calls_refine [OF r w] unfolding s f .
qed

text \<open>Whether a reserved key names a blob of its own, which hides an entry of the map.\<close>

definition shadowed :: "buffer_metadata \<Rightarrow> string \<Rightarrow> bool" where
  "shadowed m key \<longleftrightarrow> key = ''exif_raw'' \<and> exif_blob m \<noteq> None \<or>
     key = ''xmp_raw'' \<and> xmp_blob m \<noteq> None \<or> key = ''icc_raw'' \<and> icc_blob m \<noteq> None"

lemma find_blob_shadowed:
  "find_blob m key = (if shadowed m key
     then if key = ''exif_raw'' then exif_blob m else if key = ''xmp_raw'' then xmp_blob m else icc_blob m
     else om_find (ext_blobs m) key)"
  unfolding find_blob_def shadowed_def by (cases "exif_blob m"; cases "xmp_blob m"; cases "icc_blob m") simp_all

lemma find_blob_insert:
  assumes "metadata_wf m"
  shows "find_blob (m\<lparr>ext_blobs := om_insert key bytes (ext_blobs m)\<rparr>) key' =
    (if key' = key \<and> \<not> shadowed m key then Some bytes else find_blob m key')"
proof -
  have "shadowed (m\<lparr>ext_blobs := v\<rparr>) = shadowed m" for v by (simp add: shadowed_def fun_eq_iff)
  moreover have "om_inv (ext_blobs m)" using assms by (simp add: metadata_wf_def)
  ultimately show ?thesis by (simp add: find_blob_shadowed om_find_insert)
qed

text \<open>
  C19: a blob a plugin sets is the blob the next plugin gets, and no other key is affected, unless the
  key is one of \<open>exif_raw\<close>, \<open>xmp_raw\<close>, \<open>icc_raw\<close> and the metadata has that blob already: then the call
  reports success and \<open>get_blob\<close> keeps returning the old bytes.
\<close>

theorem host_blob_roundtrip:
  assumes "metadata_wf m" and "0 < n" and "n \<le> length bytes"
  shows "\<exists>h m'. hc_set_blob (Some (make_metadata_builder_handle (Some m) inputs)) (Some key)
      (Some bytes) n = Inr (Ok, Some h) \<and> freeze_metadata_builder (Some h) = Some m' \<and>
    (\<forall>key'. hc_get_blob (Some (make_metadata_handle (Some m'))) (Some key') (Some None) =
      (if key' = key \<and> \<not> shadowed m key then (Ok, Some (Some (take n bytes)))
       else hc_get_blob (Some (make_metadata_handle (Some m))) (Some key') (Some None)))"
proof -
  let ?h = "make_metadata_builder_handle (Some m) inputs"
  let ?m = "m\<lparr>ext_blobs := om_insert key (take n bytes) (ext_blobs m)\<rparr>"
  have nf: "\<not> is_frozen (bh_builder ?h)" and m: "mb_metadata (bh_builder ?h) = m"
    by (simp_all add: make_metadata_builder_handle_def builder_from_base_def new_builder_def is_frozen_def)
  have "exec_host_call (HSetBlob (Some key) (Some bytes) n) (Some ?h) =
      Inr (Ok, Some (?h\<lparr>bh_builder := (bh_builder ?h)\<lparr>mb_metadata := ?m\<rparr>\<rparr>))"
    using assms nf m by (subst exec_host_call_unfrozen) simp_all
  moreover have "freeze_metadata_builder (Some (?h\<lparr>bh_builder := (bh_builder ?h)\<lparr>mb_metadata := ?m\<rparr>\<rparr>)) = Some ?m"
    using nf by (simp add: freeze_metadata_builder_def freeze_def is_frozen_def)
  moreover have "find_blob ?m key' = (if key' = key \<and> \<not> shadowed m key then Some (take n bytes) else find_blob m key')"
    for key' using assms(1) by (rule find_blob_insert)
  ultimately show ?thesis
    by (simp add: hc_get_blob_def metadata_from_handle_def make_metadata_handle_def)
qed

theorem host_blob_roundtrip_witness:
  "\<exists>h m'. hc_set_blob (Some (make_metadata_builder_handle (Some default_metadata) [])) (Some ''lut'')
      (Some [1, 2, 3]) 2 = Inr (Ok, Some h) \<and> freeze_metadata_builder (Some h) = Some m' \<and>
    hc_get_blob (Some (make_metadata_handle (Some m'))) (Some ''lut'') (Some None) = (Ok, Some (Some [1, 2]))"
proof -
  have "metadata_wf default_metadata" "(0 :: nat) < 2" "2 \<le> length [1 :: byte, 2, 3]"
    by (simp_all add: metadata_wf_default)
  from host_blob_roundtrip [OF this, of "[]" "''lut''"] show ?thesis
    by (auto simp: shadowed_def)
qed

text \<open>The key loop fills the caller's array from the front and counts every key.\<close>

lemma write_keys:
  assumes "n \<le> length out"
  shows "fold_res (write_key n) ks (w, Some out) = Inr (w + length ks,
    Some (if w < n then take w out @ take (n - w) ks @ drop (w + length (take (n - w) ks)) out else out))"
  using assms
proof (induction ks arbitrary: w out)
  case (Cons k ks)
  show ?case
  proof (cases "w < n")
    case True
    with Cons.prems have w: "w < length out" by simp
    have "take (Suc w) (out[w := k]) = take w out @ [k]"
      using w by (simp add: take_Suc_conv_app_nth)
    moreover have "take (n - w) (k # ks) = k # take (n - Suc w) ks"
      using True by (simp add: Suc_diff_Suc [symmetric])
    moreover have "drop (Suc w + j) (out[w := k]) = drop (Suc w + j) out" for j by simp
    moreover have "out[w := k] = take w out @ k # drop (Suc w) out"
      using w by (simp add: upd_conv_take_nth_drop)
    ultimately show ?thesis using Cons.IH [of "out[w := k]" "Suc w"] Cons.prems True w
      by (cases "Suc w < n") (simp_all add: write_key_def)
  next
    case False
    with Cons.IH [of out "Suc w"] Cons.prems show ?thesis by (simp add: write_key_def)
  qed
qed simp

lemma find_blob_keys: "metadata_wf m \<Longrightarrow> find_blob m key \<noteq> None \<longleftrightarrow> key \<in> set (blob_keys m)"
proof -
  assume "metadata_wf m"
  then have "om_find (ext_blobs m) key \<noteq> None \<longleftrightarrow> key \<in> set (map fst (ext_blobs m))"
    using om.keys_eq_dom [of "ext_blobs m"] by (simp add: metadata_wf_def)
  then show ?thesis unfolding find_blob_def blob_keys_def
    by (cases "exif_blob m"; cases "xmp_blob m"; cases "icc_blob m") simp_all
qed

text \<open>
  \<open>list_blob_keys\<close> reports how many keys there are and writes as many as the caller has room for,
  in a fixed order and never past the room given, and the keys it lists are exactly those for which
  \<open>get_blob\<close> succeeds.
\<close>

lemma host_blob_keys:
  assumes "metadata_wf m" and "n \<le> length out"
  shows "hc_list_blob_keys (Some (make_metadata_handle (Some m))) n (Some t) (Some out) =
      Inr (Ok, Some (length (blob_keys m)),
        Some (take n (blob_keys m) @ drop (length (take n (blob_keys m))) out)) \<and>
    (\<forall>key. fst (hc_get_blob (Some (make_metadata_handle (Some m))) (Some key) (Some None)) = Ok \<longleftrightarrow>
      key \<in> set (blob_keys m))"
proof (intro conjI allI)
  have "length (blob_keys m) = length (ext_blobs m) + (if exif_blob m \<noteq> None then 1 else 0)
      + (if xmp_blob m \<noteq> None then 1 else 0) + (if icc_blob m \<noteq> None then 1 else 0)"
    by (simp add: blob_keys_def)
  then show "hc_list_blob_keys (Some (make_metadata_handle (Some m))) n (Some t) (Some out) =
      Inr (Ok, Some (length (blob_keys m)),
        Some (take n (blob_keys m) @ drop (length (take n (blob_keys m))) out))"
    using write_keys [OF assms(2), of "blob_keys m" 0]
    by (simp add: hc_list_blob_keys_def metadata_from_handle_def make_metadata_handle_def Let_def)
next
  fix key
  show "fst (hc_get_blob (Some (make_metadata_handle (Some m))) (Some key) (Some None)) = Ok \<longleftrightarrow>
      key \<in> set (blob_keys m)"
    using find_blob_keys [OF assms(1), of key]
    by (auto simp: hc_get_blob_def metadata_from_handle_def make_metadata_handle_def split: option.splits)
qed

end
