(* ===== verification/Compute_Context.thy ===== *)
theory Compute_Context
  imports Handles "HOL-Library.AList"
begin

text \<open>
  Submission of precompiled Halide filters (\<open>HalideFilterRegistry.cpp\<close>, \<open>HalideBufferAdapter.cpp\<close>,
  \<open>ComputeContext.cpp\<close> under \<open>src/cpipe/runtime\<close>).

  Buffers are shared, and the same buffer may be passed twice, so they live in a store and a
  \<open>shared_ptr\<close> is an address, \<open>None\<close> when it is null. A filter is compiled code outside the sources: it
  is a function of the Halide views of its inputs and outputs that returns its status and the bytes
  it leaves in their memory. A mutex-protected operation of the registry is one atomic step. A failed
  \<open>assert\<close> of a buffer stops the call, as in a build with assertions; a build with \<open>NDEBUG\<close> goes on.
\<close>

section \<open>The filter registry\<close>

type_synonym address = nat
type_synonym buffer_store = "address \<Rightarrow> cpu_buffer"

record halide_dimension =
  hdim_min :: int
  hdim_extent :: int
  hdim_stride :: int

datatype halide_type_code = HalideInt | HalideUInt | HalideFloat

record halide_buffer =
  hb_host :: "byte list"
  hb_type :: "halide_type_code \<times> nat"
  hb_host_dirty :: bool
  hb_dims :: "halide_dimension list"

text \<open>The status, and the bytes of the inputs and of the outputs afterwards.\<close>

type_synonym halide_filter = "halide_buffer \<Rightarrow> halide_buffer \<Rightarrow> int \<times> byte list \<times> byte list"
type_synonym halide_param_filter =
  "halide_buffer list \<Rightarrow> halide_buffer list \<Rightarrow> byte list \<Rightarrow> int \<times> byte list list \<times> byte list list"

text \<open>An unordered map is an association list; an entry may be a null pointer.\<close>

record filter_registry =
  fr_filters :: "(string \<times> halide_filter option) list"
  fr_param_filters :: "(string \<times> halide_param_filter option) list"

definition fr_register_halide_filter ::
  "string \<Rightarrow> halide_filter option \<Rightarrow> filter_registry \<Rightarrow> filter_registry" where
  "fr_register_halide_filter aot_id entry r = r\<lparr>fr_filters := AList.update aot_id entry (fr_filters r)\<rparr>"

definition fr_register_halide_param_filter ::
  "string \<Rightarrow> halide_param_filter option \<Rightarrow> filter_registry \<Rightarrow> filter_registry" where
  "fr_register_halide_param_filter aot_id entry r =
     r\<lparr>fr_param_filters := AList.update aot_id entry (fr_param_filters r)\<rparr>"

definition halide_filter_ids :: "filter_registry \<Rightarrow> string list" where
  "halide_filter_ids r = sort (map fst [(k, e) \<leftarrow> fr_filters r. e \<noteq> None])"

section \<open>The buffer adapter\<close>

datatype compute_error = LockFailed buffer_error | DivideByZero | DimensionOverrun | SignedOverflow

definition halide_type_for :: "pixel_format \<Rightarrow> halide_type_code \<times> nat" where
  "halide_type_for f =
     (case f of
        R16G16B16A16_SFLOAT \<Rightarrow> (HalideFloat, 16)
      | R16G16B16_SFLOAT \<Rightarrow> (HalideFloat, 16)
      | F16 \<Rightarrow> (HalideFloat, 16)
      | R32G32B32A32_SFLOAT \<Rightarrow> (HalideFloat, 32)
      | R32G32B32_SFLOAT \<Rightarrow> (HalideFloat, 32)
      | R32_SFLOAT \<Rightarrow> (HalideFloat, 32)
      | F32 \<Rightarrow> (HalideFloat, 32)
      | I8 \<Rightarrow> (HalideInt, 8)
      | R16G16B16A16_UNORM \<Rightarrow> (HalideUInt, 16)
      | R16_UINT \<Rightarrow> (HalideUInt, 16)
      | _ \<Rightarrow> (HalideUInt, 8))"

text \<open>The casts to \<open>std::int32_t\<close>, which keep the low 32 bits.\<close>

definition int32_of_u32 :: "u32 \<Rightarrow> int" where "int32_of_u32 w = sint w"
definition int32_of_u64 :: "u64 \<Rightarrow> int" where "int32_of_u64 w = sint (ucast w :: u32)"

definition in_int32 :: "int \<Rightarrow> bool" where
  "in_int32 i \<longleftrightarrow> - (2 ^ 31) \<le> i \<and> i < 2 ^ 31"

definition image_dims :: "buffer_layout \<Rightarrow> halide_dimension list" where
  "image_dims l =
     (let channels = channel_count (format l); channel_bytes = bytes_per_channel (format l);
          pixel_stride = (if stride l ! 0 \<noteq> 0 then stride l ! 0 else channel_bytes * channels);
          row_stride = (if stride l ! 1 \<noteq> 0 then stride l ! 1 else pixel_stride * ucast (dims l ! 0))
      in [\<lparr>hdim_min = 0, hdim_extent = int32_of_u32 (dims l ! 0),
            hdim_stride = int32_of_u64 (pixel_stride div channel_bytes)\<rparr>,
          \<lparr>hdim_min = 0, hdim_extent = int32_of_u32 (dims l ! 1),
            hdim_stride = int32_of_u64 (row_stride div channel_bytes)\<rparr>,
          \<lparr>hdim_min = 0, hdim_extent = int32_of_u64 channels, hdim_stride = 1\<rparr>])"

text \<open>The loop over the dimensions; \<open>dimensions_\<close> has eight entries.\<close>

fun dense_dims :: "buffer_layout \<Rightarrow> nat list \<Rightarrow> int \<Rightarrow> compute_error + halide_dimension list" where
  "dense_dims l [] dense = Inr []"
| "dense_dims l (i # is) dense =
     (if i \<ge> 8 then Inl DimensionOverrun
      else if stride l ! i \<noteq> 0 \<and> bytes_per_channel (format l) = 0 then Inl DivideByZero
      else
        let s = (if stride l ! i \<noteq> 0 then int32_of_u64 (stride l ! i div bytes_per_channel (format l)) else dense);
            e = int32_of_u32 (dims l ! i)
        in if \<not> in_int32 (s * e) then Inl SignedOverflow
           else bind_res (dense_dims l is (s * e)) (\<lambda>ds.
             Inr (\<lparr>hdim_min = 0, hdim_extent = e, hdim_stride = s\<rparr> # ds)))"

definition halide_dims :: "buffer_layout \<Rightarrow> compute_error + halide_dimension list" where
  "halide_dims l =
     (if kind l = Image2D \<and> channel_count (format l) > 1 then Inr (image_dims l)
      else dense_dims l [0..<unat (ndim l)] 1)"

definition adapter_new ::
  "cpu_access \<Rightarrow> address \<Rightarrow> buffer_store \<Rightarrow> compute_error + halide_buffer \<times> buffer_store" where
  "adapter_new access p st =
     (case lock_cpu access (st p) of
        Inl e \<Rightarrow> Inl (LockFailed e)
      | Inr b \<Rightarrow>
          bind_res (halide_dims (cb_layout b)) (\<lambda>ds.
          Inr (\<lparr>hb_host = cb_data b, hb_type = halide_type_for (format (cb_layout b)),
                hb_host_dirty = (access = AccessWrite), hb_dims = ds\<rparr>, st(p := b))))"

definition adapter_delete ::
  "cpu_access \<Rightarrow> address \<Rightarrow> buffer_store \<Rightarrow> compute_error + buffer_store" where
  "adapter_delete access p st =
     (case unlock_cpu (st p) of
        Inl e \<Rightarrow> Inl (LockFailed e)
      | Inr b \<Rightarrow>
          Inr (st(p := (if access = AccessWrite \<or> access = AccessReadWrite then flush_cpu_writes b else b))))"

section \<open>The compute context\<close>

record compute_context =
  cc_filters :: "(string \<times> halide_filter option) list"
  cc_param_filters :: "(string \<times> halide_param_filter option) list"

definition new_compute_context :: "filter_registry \<Rightarrow> compute_context" where
  "new_compute_context r = \<lparr>cc_filters = fr_filters r, cc_param_filters = fr_param_filters r\<rparr>"

definition cc_register_halide_filter ::
  "string \<Rightarrow> halide_filter option \<Rightarrow> compute_context \<Rightarrow> compute_context" where
  "cc_register_halide_filter aot_id entry c = c\<lparr>cc_filters := AList.update aot_id entry (cc_filters c)\<rparr>"

definition cc_register_halide_param_filter ::
  "string \<Rightarrow> halide_param_filter option \<Rightarrow> compute_context \<Rightarrow> compute_context" where
  "cc_register_halide_param_filter aot_id entry c =
     c\<lparr>cc_param_filters := AList.update aot_id entry (cc_param_filters c)\<rparr>"

definition status_int :: "status_code \<Rightarrow> int" where
  "status_int s = int (status_value s)"

definition write_host :: "address \<Rightarrow> byte list \<Rightarrow> buffer_store \<Rightarrow> buffer_store" where
  "write_host p bytes st = st(p := (st p)\<lparr>cb_data := bytes\<rparr>)"

text \<open>The adapters are destroyed in the reverse order of their construction.\<close>

definition submit_halide ::
  "compute_context \<Rightarrow> string \<Rightarrow> address option list \<Rightarrow> address option list \<Rightarrow> buffer_store \<Rightarrow>
     compute_error + int \<times> buffer_store" where
  "submit_halide c aot_id inputs outputs st =
     (case map_of (cc_filters c) aot_id of
        Some (Some entry) \<Rightarrow>
          (case (inputs, outputs) of
             ([Some p], [Some q]) \<Rightarrow>
               bind_res (adapter_new AccessRead p st) (\<lambda>(input, st).
               bind_res (adapter_new AccessWrite q st) (\<lambda>(out_view, st).
               let (status, in_bytes, out_bytes) = entry input out_view;
                   st = write_host q out_bytes (write_host p in_bytes st)
               in bind_res (adapter_delete AccessWrite q st) (\<lambda>st.
                  bind_res (adapter_delete AccessRead p st) (\<lambda>st.
                  Inr (status_int (if status = 0 then Ok else Failed), st)))))
           | _ \<Rightarrow> Inr (status_int BadIndex, st))
      | _ \<Rightarrow> Inr (status_int Unsupported, st))"

text \<open>The loops that adapt the buffers up to the first null pointer; the flag tells whether there was none.\<close>

fun adapt_all ::
  "cpu_access \<Rightarrow> address option list \<Rightarrow> buffer_store \<Rightarrow>
     compute_error + bool \<times> (address \<times> halide_buffer) list \<times> buffer_store" where
  "adapt_all access [] st = Inr (True, [], st)"
| "adapt_all access (None # ps) st = Inr (False, [], st)"
| "adapt_all access (Some p # ps) st =
     bind_res (adapter_new access p st) (\<lambda>(v, st).
     bind_res (adapt_all access ps st) (\<lambda>(ok, vs, st). Inr (ok, (p, v) # vs, st)))"

definition release_all ::
  "cpu_access \<Rightarrow> (address \<times> halide_buffer) list \<Rightarrow> buffer_store \<Rightarrow> compute_error + buffer_store" where
  "release_all access vs st = fold_res (\<lambda>(p, v). adapter_delete access p) vs st"

definition write_hosts :: "address list \<Rightarrow> byte list list \<Rightarrow> buffer_store \<Rightarrow> buffer_store" where
  "write_hosts ps bytes st = fold (\<lambda>(p, b). write_host p b) (zip ps bytes) st"

definition submit_halide_with_params ::
  "compute_context \<Rightarrow> string \<Rightarrow> address option list \<Rightarrow> address option list \<Rightarrow> byte list \<Rightarrow> buffer_store \<Rightarrow>
     compute_error + int \<times> buffer_store" where
  "submit_halide_with_params c aot_id inputs outputs param_blob st =
     (case map_of (cc_param_filters c) aot_id of
        Some (Some entry) \<Rightarrow>
          bind_res (adapt_all AccessRead inputs st) (\<lambda>(ok, ins, st).
          if \<not> ok then bind_res (release_all AccessRead ins st) (\<lambda>st. Inr (status_int BadIndex, st))
          else
            bind_res (adapt_all AccessWrite outputs st) (\<lambda>(ok, outs, st).
            if \<not> ok
            then bind_res (release_all AccessWrite outs st) (\<lambda>st.
                 bind_res (release_all AccessRead ins st) (\<lambda>st. Inr (status_int BadIndex, st)))
            else
              let (status, in_bytes, out_bytes) = entry (map snd ins) (map snd outs) param_blob;
                  st = write_hosts (map fst outs) out_bytes (write_hosts (map fst ins) in_bytes st)
              in bind_res (release_all AccessWrite outs st) (\<lambda>st.
                 bind_res (release_all AccessRead ins st) (\<lambda>st.
                 Inr (if status = 0 then status_int Ok else status, st)))))
      | _ \<Rightarrow> Inr (status_int Unsupported, st))"

section \<open>The compute suite of the host\<close>

text \<open>
  The functions of \<open>HostContext.cpp\<close> that plugins call. A buffer handle is the shared pointer it holds,
  and a handle argument may itself be null; \<open>buffer_from_handle\<close> gives null for both.
\<close>

type_synonym shared_handle = "address option"

definition handle_address :: "shared_handle option \<Rightarrow> address option" where
  "handle_address h = (case h of None \<Rightarrow> None | Some p \<Rightarrow> p)"

definition hc_submit_halide ::
  "compute_context option \<Rightarrow> string option \<Rightarrow> shared_handle option list \<Rightarrow> shared_handle option list \<Rightarrow>
     buffer_store \<Rightarrow> compute_error + int \<times> buffer_store" where
  "hc_submit_halide compute aot_id inputs outputs st =
     (case (compute, aot_id) of
        (Some c, Some i) \<Rightarrow> submit_halide c i (map handle_address inputs) (map handle_address outputs) st
      | _ \<Rightarrow> Inr (status_int BadIndex, st))"

text \<open>The parameter blob is a pointer with a size; the size counts only when the pointer is not null.\<close>

definition hc_submit_halide_with_params ::
  "compute_context option \<Rightarrow> string option \<Rightarrow> shared_handle option list \<Rightarrow> shared_handle option list \<Rightarrow>
     byte list option \<Rightarrow> nat \<Rightarrow> buffer_store \<Rightarrow> compute_error + int \<times> buffer_store" where
  "hc_submit_halide_with_params compute aot_id inputs outputs param_blob param_blob_size st =
     (case (compute, aot_id) of
        (Some c, Some i) \<Rightarrow>
          if param_blob = None \<and> param_blob_size \<noteq> 0 then Inr (status_int BadIndex, st)
          else submit_halide_with_params c i (map handle_address inputs) (map handle_address outputs)
            (case param_blob of None \<Rightarrow> [] | Some bytes \<Rightarrow> take param_blob_size bytes) st
      | _ \<Rightarrow> Inr (status_int BadIndex, st))"

definition hc_submit_slang :: int where "hc_submit_slang = status_int Unsupported"
definition hc_request_scratch :: int where "hc_request_scratch = status_int Unsupported"
definition hc_submit_inference :: int where "hc_submit_inference = status_int Unsupported"

section \<open>Locks\<close>

definition set_locks :: "bool \<Rightarrow> address list \<Rightarrow> buffer_store \<Rightarrow> buffer_store" where
  "set_locks v ps st = (\<lambda>p. if p \<in> set ps then (st p)\<lparr>cb_locked := v\<rparr> else st p)"

text \<open>What an adapter needs of a buffer, and the view it gives.\<close>

definition adaptable :: "cpu_access \<Rightarrow> cpu_buffer \<Rightarrow> bool" where
  "adaptable a b \<longleftrightarrow> \<not> cb_locked b \<and> cb_allows a b \<and> (\<exists>ds. halide_dims (cb_layout b) = Inr ds)"

definition view_of :: "cpu_access \<Rightarrow> cpu_buffer \<Rightarrow> halide_buffer" where
  "view_of a b = \<lparr>hb_host = cb_data b, hb_type = halide_type_for (format (cb_layout b)),
     hb_host_dirty = (a = AccessWrite),
     hb_dims = (case halide_dims (cb_layout b) of Inl _ \<Rightarrow> [] | Inr ds \<Rightarrow> ds)\<rparr>"

lemma adapter_new_iff:
  "adapter_new a p st = Inr (v, st') \<longleftrightarrow>
     adaptable a (st p) \<and> v = view_of a (st p) \<and> st' = set_locks True [p] st"
  by (auto simp: adapter_new_def lock_cpu_eq adaptable_def view_of_def set_locks_def bind_res_eq_Inr_iff
      fun_eq_iff split: if_splits sum.splits)

lemma adapter_delete_locked:
  "cb_locked (st p) \<Longrightarrow> adapter_delete a p st = Inr (set_locks False [p] st)"
  by (auto simp: adapter_delete_def unlock_cpu_def flush_cpu_writes_def set_locks_def fun_eq_iff)

lemma set_locks_Cons: "set_locks v (p # ps) st = set_locks v ps (set_locks v [p] st)"
  by (auto simp: set_locks_def fun_eq_iff)

lemma release_all_locked:
  "distinct (map fst vs) \<Longrightarrow> \<forall>p \<in> set (map fst vs). cb_locked (st p) \<Longrightarrow>
     release_all a vs st = Inr (set_locks False (map fst vs) st)"
proof (induction vs arbitrary: st)
  case (Cons x vs)
  obtain p v where x: "x = (p, v)" by (cases x) auto
  let ?st = "set_locks False [p] st"
  have "\<forall>q \<in> set (map fst vs). cb_locked (?st q)" using Cons.prems x by (auto simp: set_locks_def)
  with Cons.IH [of ?st] Cons.prems x show ?case
    by (simp add: release_all_def adapter_delete_locked set_locks_Cons [of _ p "map fst vs"])
qed (simp add: release_all_def set_locks_def)

text \<open>What the adapting loop has done when it returns, with or without a null pointer on the way.\<close>

lemma adapt_all_Inr:
  assumes "adapt_all a ps st = Inr (ok, vs, st')"
  shows "distinct (map fst vs) \<and> (\<forall>p \<in> set (map fst vs). adaptable a (st p)) \<and>
    st' = set_locks True (map fst vs) st \<and> vs = map (\<lambda>p. (p, view_of a (st p))) (map fst vs) \<and>
    map Some (map fst vs) = takeWhile (\<lambda>p. p \<noteq> None) ps \<and> (ok \<longleftrightarrow> None \<notin> set ps)"
  using assms
proof (induction a ps st arbitrary: ok vs st' rule: adapt_all.induct)
  case (3 a p ps st)
  let ?st = "set_locks True [p] st"
  from 3(2) obtain ws where new: "adaptable a (st p)"
    and rest: "adapt_all a ps ?st = Inr (ok, ws, st')" and vs: "vs = (p, view_of a (st p)) # ws"
    by (auto simp: bind_res_eq_Inr_iff adapter_new_iff)
  note IH = 3(1) [OF rest]
  have fresh: "p \<notin> set (map fst ws)" using IH by (auto simp: adaptable_def set_locks_def)
  then have same: "?st q = st q" if "q \<in> set (map fst ws)" for q using that by (auto simp: set_locks_def)
  have "vs = map (\<lambda>p. (p, view_of a (st p))) (map fst vs)"
  proof -
    have "ws = map (\<lambda>q. (q, view_of a (?st q))) (map fst ws)" using IH by blast
    also have "\<dots> = map (\<lambda>q. (q, view_of a (st q))) (map fst ws)" by (rule map_cong) (simp_all add: same)
    finally show ?thesis using vs by simp
  qed
  with IH fresh same new vs show ?case
    by (simp add: set_locks_Cons [of _ p "map fst ws"])
qed (auto simp: set_locks_def)

lemma adapt_all_ok:
  "distinct ps \<Longrightarrow> \<forall>p \<in> set ps. adaptable a (st p) \<Longrightarrow>
     adapt_all a (map Some ps) st = Inr (True, map (\<lambda>p. (p, view_of a (st p))) ps, set_locks True ps st)"
proof (induction ps arbitrary: st)
  case (Cons p ps)
  let ?st = "set_locks True [p] st"
  have same: "?st q = st q" if "q \<in> set ps" for q using that Cons.prems(1) by (auto simp: set_locks_def)
  have "adapter_new a p st = Inr (view_of a (st p), ?st)" using Cons.prems by (simp add: adapter_new_iff)
  moreover have "adapt_all a (map Some ps) ?st = Inr (True, map (\<lambda>q. (q, view_of a (st q))) ps, set_locks True ps ?st)"
    using Cons.IH [of ?st] Cons.prems same by simp
  ultimately show ?case by (simp add: set_locks_Cons [of _ p ps])
qed (simp add: set_locks_def)

lemma write_hosts_Cons:
  "write_hosts (p # ps) (b # bs) st = write_hosts ps bs (write_host p b st)"
  "write_hosts [] bs st = st" "write_hosts ps [] st = st"
  by (simp_all add: write_hosts_def)

lemma write_hosts_set_locks:
  "write_hosts ps bs (set_locks v qs st) = set_locks v qs (write_hosts ps bs st)"
proof (induction ps bs arbitrary: st rule: list_induct2')
  case (4 p ps b bs)
  have "write_host p b (set_locks v qs st) = set_locks v qs (write_host p b st)"
    by (auto simp: write_host_def set_locks_def fun_eq_iff)
  with 4 [of "write_host p b st"] show ?case by (simp add: write_hosts_Cons)
qed (simp_all add: write_hosts_Cons)

lemma write_hosts_frame:
  "cb_locked (write_hosts ps bs st p) = cb_locked (st p)"
  by (induction ps bs arbitrary: st rule: list_induct2')
    (simp_all add: write_hosts_Cons write_host_def)

lemma unlock_locked:
  "\<forall>p \<in> set ps. \<not> cb_locked (st p) \<Longrightarrow> set_locks False ps (set_locks True ps st) = st"
  by (auto simp: set_locks_def fun_eq_iff)

lemma adaptable_locked:
  "adaptable a (set_locks True ps st q) \<longleftrightarrow> q \<notin> set ps \<and> adaptable a (st q)"
  by (auto simp: adaptable_def set_locks_def cb_allows_def)

lemma view_locked: "q \<notin> set ps \<Longrightarrow> set_locks v ps st q = st q"
  by (simp add: set_locks_def)

text \<open>Two releases undo two rounds of locking, whatever the filter wrote in between.\<close>

lemma release_both:
  assumes d: "distinct (map fst ins)" "distinct (map fst outs)" "set (map fst ins) \<inter> set (map fst outs) = {}"
    and u: "\<forall>p \<in> set (map fst ins) \<union> set (map fst outs). \<not> cb_locked (st p)"
  shows "bind_res (release_all AccessWrite outs (set_locks True (map fst outs) (set_locks True (map fst ins) st)))
      (\<lambda>st. bind_res (release_all AccessRead ins st) (\<lambda>st. Inr (s, st))) = Inr (s, st)"
proof -
  let ?st1 = "set_locks True (map fst ins) st"
  have "release_all AccessWrite outs (set_locks True (map fst outs) ?st1) =
      Inr (set_locks False (map fst outs) (set_locks True (map fst outs) ?st1))"
    using d(2) by (intro release_all_locked) (simp_all add: set_locks_def)
  also have "set_locks False (map fst outs) (set_locks True (map fst outs) ?st1) = ?st1"
    using d(3) u by (intro unlock_locked) (auto simp: set_locks_def)
  moreover have "release_all AccessRead ins ?st1 = Inr (set_locks False (map fst ins) ?st1)"
    using d(1) by (intro release_all_locked) (simp_all add: set_locks_def)
  moreover have "set_locks False (map fst ins) ?st1 = st"
    using u by (intro unlock_locked) auto
  ultimately show ?thesis by simp
qed

section \<open>Properties\<close>

text \<open>The views of the buffers at the addresses \<open>ps\<close>.\<close>

definition views :: "cpu_access \<Rightarrow> address list \<Rightarrow> buffer_store \<Rightarrow> halide_buffer list" where
  "views a ps st = map (\<lambda>p. view_of a (st p)) ps"

lemma submit_halide_run:
  assumes "map_of (cc_param_filters c) aot_id = Some (Some entry)"
    and d: "distinct (ins @ outs)"
    and ins: "\<forall>p \<in> set ins. adaptable AccessRead (st p)"
    and outs: "\<forall>p \<in> set outs. adaptable AccessWrite (st p)"
    and run: "entry (views AccessRead ins st) (views AccessWrite outs st) blob = (code, ib, ob)"
  shows "submit_halide_with_params c aot_id (map Some ins) (map Some outs) blob st =
    Inr (if code = 0 then status_int Ok else code, write_hosts outs ob (write_hosts ins ib st))"
proof -
  let ?st1 = "set_locks True ins st" and ?w = "write_hosts outs ob (write_hosts ins ib st)"
  define vi where "vi = map (\<lambda>p. (p, view_of AccessRead (st p))) ins"
  define vo where "vo = map (\<lambda>p. (p, view_of AccessWrite (?st1 p))) outs"
  have fst: "map fst vi = ins" "map fst vo = outs" by (simp_all add: vi_def vo_def comp_def)
  have same: "\<forall>p \<in> set outs. ?st1 p = st p" using d by (auto simp: set_locks_def)
  have a1: "adapt_all AccessRead (map Some ins) st = Inr (True, vi, ?st1)"
    unfolding vi_def using d ins by (intro adapt_all_ok) simp_all
  have a2: "adapt_all AccessWrite (map Some outs) ?st1 = Inr (True, vo, set_locks True outs ?st1)"
    unfolding vo_def using d outs same by (intro adapt_all_ok) simp_all
  have v: "map snd vi = views AccessRead ins st" "map snd vo = views AccessWrite outs st"
    using same by (simp_all add: views_def vi_def vo_def)
  have "\<forall>p \<in> set ins \<union> set outs. \<not> cb_locked (?w p)"
    using ins outs by (auto simp: write_hosts_frame adaptable_def)
  with release_both [of vi vo ?w "if code = 0 then status_int Ok else code"] d fst show ?thesis
    unfolding submit_halide_with_params_def assms(1) option.case a1 bind_res_Inr prod.case a2 v run
    by (simp add: fst write_hosts_set_locks)
qed

lemma adapt_all_addresses:
  assumes "adapt_all a (map Some ps) st = Inr (ok, vs, st')"
  shows "map fst vs = ps" and ok
proof -
  have "takeWhile (\<lambda>p. p \<noteq> None) (map Some ps) = map Some ps" by (simp add: takeWhile_eq_all_conv)
  with adapt_all_Inr [OF assms] have "map Some (map fst vs) = map Some ps" by argo
  then show "map fst vs = ps" by (rule map_injective) (simp add: inj_def)
  show ok using adapt_all_Inr [OF assms] by auto
qed

lemma adapt_both:
  assumes "adapt_all AccessRead inputs st = Inr (ok', ins, st1)"
    and "adapt_all AccessWrite outputs st1 = Inr (ok, outs, st2)"
  shows "distinct (map fst ins @ map fst outs)"
    and "\<forall>p \<in> set (map fst ins). adaptable AccessRead (st p)"
    and "\<forall>p \<in> set (map fst outs). adaptable AccessWrite (st p)"
    and "st2 = set_locks True (map fst outs) (set_locks True (map fst ins) st)"
proof -
  note a = adapt_all_Inr [OF assms(1)] and b = adapt_all_Inr [OF assms(2)]
  have st1: "st1 = set_locks True (map fst ins) st" using a by blast
  have o': "\<forall>p \<in> set (map fst outs). p \<notin> set (map fst ins) \<and> adaptable AccessWrite (st p)"
    using b unfolding st1 adaptable_locked by blast
  then show "\<forall>p \<in> set (map fst outs). adaptable AccessWrite (st p)" by blast
  have "distinct (map fst ins)" "distinct (map fst outs)" using a b by blast+
  with o' show "distinct (map fst ins @ map fst outs)" unfolding distinct_append by blast
  show "\<forall>p \<in> set (map fst ins). adaptable AccessRead (st p)" using a by blast
  show "st2 = set_locks True (map fst outs) (set_locks True (map fst ins) st)" using b st1 by blast
qed

text \<open>A null pointer among the buffers: the adapters built so far are released and nothing changes.\<close>

lemma submit_halide_null:
  assumes "map_of (cc_param_filters c) aot_id = Some (Some entry)"
    and null: "None \<in> set (inputs @ outputs)"
    and run: "submit_halide_with_params c aot_id inputs outputs blob st = Inr r"
  shows "r = (status_int BadIndex, st)"
proof -
  from run obtain ok ins st1 where a: "adapt_all AccessRead inputs st = Inr (ok, ins, st1)"
    by (auto simp: submit_halide_with_params_def assms(1) bind_res_eq_Inr_iff)
  note A = adapt_all_Inr [OF a]
  show ?thesis
  proof (cases ok)
    case False
    have "release_all AccessRead ins st1 = Inr (set_locks False (map fst ins) st1)"
      using A by (intro release_all_locked) (auto simp: set_locks_def)
    moreover have "set_locks False (map fst ins) st1 = st"
    proof -
      have "\<forall>p \<in> set (map fst ins). \<not> cb_locked (st p)" using A by (auto simp: adaptable_def)
      with A unlock_locked show ?thesis by metis
    qed
    ultimately show ?thesis
      using run a False by (simp add: submit_halide_with_params_def assms(1))
  next
    case True
    then have "None \<in> set outputs" using A null by auto
    from run a True obtain ok' outs st2 where b: "adapt_all AccessWrite outputs st1 = Inr (ok', outs, st2)"
      by (auto simp: submit_halide_with_params_def assms(1) bind_res_eq_Inr_iff)
    with \<open>None \<in> set outputs\<close> have ok': "\<not> ok'" using adapt_all_Inr [OF b] by blast
    note both = adapt_both [OF a b]
    have "bind_res (release_all AccessWrite outs st2) (\<lambda>st. bind_res (release_all AccessRead ins st)
        (\<lambda>st. Inr (status_int BadIndex, st))) = Inr (status_int BadIndex, st)"
      unfolding both(4) using both(1,2,3) by (intro release_both) (auto simp: adaptable_def)
    with run a b True ok' show ?thesis
      by (simp add: submit_halide_with_params_def assms(1))
  qed
qed

definition halide_ready :: "address list \<Rightarrow> address list \<Rightarrow> buffer_store \<Rightarrow> bool" where
  "halide_ready ins outs st \<longleftrightarrow> distinct (ins @ outs) \<and>
     (\<forall>p \<in> set ins. adaptable AccessRead (st p)) \<and> (\<forall>p \<in> set outs. adaptable AccessWrite (st p))"

text \<open>
  C17: a registered filter called on buffers that are all present runs exactly when no buffer is passed
  twice and every buffer is unlocked, allows the access and has a layout Halide can describe. Then the
  caller gets the status of the filter, and the store afterwards differs only in the bytes the filter
  left in its buffers: every lock taken for the call is given back. With a null pointer among the
  buffers a call that returns reports a bad index and changes nothing.
\<close>

theorem submit_halide_spec:
  assumes "map_of (cc_param_filters c) aot_id = Some (Some entry)"
  shows "(submit_halide_with_params c aot_id (map Some ins) (map Some outs) blob st = Inr r \<longleftrightarrow>
      halide_ready ins outs st \<and>
      r = (case entry (views AccessRead ins st) (views AccessWrite outs st) blob of (code, ib, ob) \<Rightarrow>
        (if code = 0 then status_int Ok else code, write_hosts outs ob (write_hosts ins ib st)))) \<and>
    (None \<in> set (inputs @ outputs) \<and>
      submit_halide_with_params c aot_id inputs outputs blob st = Inr r' \<longrightarrow> r' = (status_int BadIndex, st))"
    (is "(?run \<longleftrightarrow> ?ok \<and> r = ?r) \<and> ?null")
proof (intro conjI)
  have result: "?ok \<Longrightarrow> submit_halide_with_params c aot_id (map Some ins) (map Some outs) blob st = Inr ?r"
    by (cases "entry (views AccessRead ins st) (views AccessWrite outs st) blob")
      (simp add: submit_halide_run [OF assms] halide_ready_def)
  have ready: ?ok if ?run
  proof -
    from that obtain ok vi st1 where a: "adapt_all AccessRead (map Some ins) st = Inr (ok, vi, st1)"
      by (auto simp: submit_halide_with_params_def assms bind_res_eq_Inr_iff)
    note i = adapt_all_addresses [OF a]
    from that a i(2) obtain ok' vo st2 where b: "adapt_all AccessWrite (map Some outs) st1 = Inr (ok', vo, st2)"
      by (auto simp: submit_halide_with_params_def assms bind_res_eq_Inr_iff)
    from adapt_both [OF a b] i(1) adapt_all_addresses(1) [OF b] show ?thesis by (simp add: halide_ready_def)
  qed
  show "?run \<longleftrightarrow> ?ok \<and> r = ?r"
  proof
    assume run: ?run
    from ready [OF run] result [OF ready [OF run]] run show "?ok \<and> r = ?r" by (simp only: sum.inject simp_thms)
  next
    assume "?ok \<and> r = ?r"
    with result show ?run by blast
  qed
  show ?null using submit_halide_null [OF assms] by blast
qed

text \<open>A filter that copies its input to its output, on two one-pixel buffers.\<close>

definition copy_filter :: halide_param_filter where
  "copy_filter ins outs blob = (0, map hb_host ins, map hb_host ins)"

definition copy_context :: compute_context where
  "copy_context = \<lparr>cc_filters = [], cc_param_filters = [(''copy'', Some copy_filter)]\<rparr>"

definition pixel_buffer :: "byte list \<Rightarrow> cpu_buffer" where
  "pixel_buffer bytes = \<lparr>cb_layout = default_layout\<lparr>format := R8G8B8A8_UNORM, ndim := 2,
       dims := [1, 1, 0, 0, 0, 0, 0, 0]\<rparr>,
     cb_usage = usage_or usage_CpuRead usage_CpuWrite, cb_color_role = [], cb_metadata = None,
     cb_data = bytes, cb_size_bytes = 4, cb_locked = False\<rparr>"

theorem submit_halide_spec_witness:
  "\<exists>st'. submit_halide_with_params copy_context ''copy'' [Some 0] [Some 1] []
      (\<lambda>p. if p = 0 then pixel_buffer [1, 2, 3, 4] else pixel_buffer [0, 0, 0, 0]) = Inr (0, st') \<and>
    st' 1 = pixel_buffer [1, 2, 3, 4] \<and> st' 0 = pixel_buffer [1, 2, 3, 4]"
proof -
  let ?st = "\<lambda>p. if p = 0 then pixel_buffer [1, 2, 3, 4] else pixel_buffer [0, 0, 0, 0]"
  have lookup: "map_of (cc_param_filters copy_context) ''copy'' = Some (Some copy_filter)"
    by (simp add: copy_context_def)
  have ad: "adaptable a (pixel_buffer b)" for a b
    by (auto simp: adaptable_def pixel_buffer_def cb_allows_def has_usage_def usage_or_def usage_and_def
        usage_CpuRead_def usage_CpuWrite_def halide_dims_def default_layout_def channel_count_def)
  have "halide_ready [0] [1] ?st" by (simp add: halide_ready_def ad)
  with submit_halide_spec [OF lookup, of "[0]" "[1]" "[]" ?st] show ?thesis
    by (simp add: copy_filter_def views_def view_of_def write_hosts_def write_host_def status_int_def
        pixel_buffer_def)
qed

end
