(* ===== verification/Editor_Protocol.thy ===== *)
theory Editor_Protocol
  imports Byte_Reader
begin

text \<open>
  The binary frames between the editor and its server (\<open>src/cpipe/server/EditorProtocol.cpp\<close>): a type
  byte, a node id, a time stamp and the payload length as big-endian 32-bit numbers, and the payload.
\<close>

unbundle bit_operations_syntax

section \<open>Frames\<close>

datatype frame_type = FThumbnail | FProfile | FLog | FAck | FControl

fun frame_type_value :: "frame_type \<Rightarrow> u8" where
  "frame_type_value FThumbnail = 0x01"
| "frame_type_value FProfile = 0x02"
| "frame_type_value FLog = 0x03"
| "frame_type_value FAck = 0x04"
| "frame_type_value FControl = 0x10"

record editor_frame =
  ef_type :: frame_type
  ef_node_id :: u32
  ef_timestamp_ms :: u32
  ef_payload :: "byte list"

definition kHeaderBytes :: nat where
  "kHeaderBytes = 13"

definition write_be32 :: "byte list \<Rightarrow> u32 \<Rightarrow> byte list" where
  "write_be32 out value =
     out @ [ucast (drop_bit 24 value AND 0xff)] @ [ucast (drop_bit 16 value AND 0xff)] @
       [ucast (drop_bit 8 value AND 0xff)] @ [ucast (value AND 0xff)]"

definition read_be32 :: "byte list \<Rightarrow> nat \<Rightarrow> fault + u32" where
  "read_be32 bytes pos =
     bind_res (byte_at bytes pos) (\<lambda>b0.
     bind_res (byte_at bytes (pos + 1)) (\<lambda>b1.
     bind_res (byte_at bytes (pos + 2)) (\<lambda>b2.
     bind_res (byte_at bytes (pos + 3)) (\<lambda>b3.
     Inr (push_bit 24 (ucast b0) OR push_bit 16 (ucast b1) OR push_bit 8 (ucast b2) OR ucast b3)))))"

definition frame_type_from_byte :: "u8 \<Rightarrow> frame_type option" where
  "frame_type_from_byte value =
     (if value = frame_type_value FThumbnail then Some FThumbnail
      else if value = frame_type_value FProfile then Some FProfile
      else if value = frame_type_value FLog then Some FLog
      else if value = frame_type_value FAck then Some FAck
      else if value = frame_type_value FControl then Some FControl
      else None)"

text \<open>The length of the payload is cast to 32 bits.\<close>

definition encode_frame :: "frame_type \<Rightarrow> u32 \<Rightarrow> u32 \<Rightarrow> byte list \<Rightarrow> byte list" where
  "encode_frame type node timestamp payload =
     (let out = [frame_type_value type];
          out = write_be32 out node;
          out = write_be32 out timestamp;
          out = write_be32 out (of_nat (length payload))
      in out @ payload)"

definition decode_frame :: "byte list \<Rightarrow> fault + editor_frame option" where
  "decode_frame bytes =
     (if length bytes < kHeaderBytes then Inr None
      else
        bind_res (byte_at bytes 0) (\<lambda>b.
        case frame_type_from_byte b of
          None \<Rightarrow> Inr None
        | Some type \<Rightarrow>
            bind_res (read_be32 bytes 9) (\<lambda>len.
            if length bytes \<noteq> kHeaderBytes + unat len then Inr None
            else
              bind_res (read_be32 bytes 1) (\<lambda>node.
              bind_res (read_be32 bytes 5) (\<lambda>timestamp.
              Inr (Some \<lparr>ef_type = type, ef_node_id = node, ef_timestamp_ms = timestamp,
                ef_payload = drop kHeaderBytes bytes\<rparr>))))))"

section \<open>Encoding and decoding\<close>

lemma frame_type_byte: "frame_type_from_byte b = Some t \<longleftrightarrow> b = frame_type_value t"
  by (cases t) (auto simp: frame_type_from_byte_def split: if_splits)

lemma write_be32_put: "write_be32 out w = out @ put_u32 w"
proof -
  have ff: "(0xff :: u32) = mask 8" by (simp add: mask_eq_exp_minus_1)
  have "ucast (v AND 0xff) = (ucast v :: byte)" for v :: u32
    unfolding ff by (rule bit_word_eqI) (simp add: bit_simps)
  then show ?thesis by (simp add: write_be32_def put_u32_def)
qed

lemma encode_frame_eq:
  "encode_frame t n ts payload =
     frame_type_value t # put_u32 n @ put_u32 ts @ put_u32 (of_nat (length payload)) @ payload"
  by (simp add: encode_frame_def write_be32_put)

lemma read_be32_reader:
  "read_be32 bytes p = bind_res (read_u32 \<lparr>rd_bytes = bytes, rd_offset = p\<rparr>) (\<lambda>(x, _). Inr x)"
  by (simp add: read_be32_def read_u32_def bind_res_assoc)

lemma read_be32_ok:
  assumes "p + 4 \<le> length bytes"
  shows "\<exists>x. read_be32 bytes p = Inr x \<and> take 4 (drop p bytes) = put_u32 x"
proof -
  have "4 \<le> length (remaining_bytes \<lparr>rd_bytes = bytes, rd_offset = p\<rparr>)"
    using assms by (simp add: remaining_bytes_def)
  from u32.get_ok [OF this] show ?thesis by (auto simp: read_be32_reader remaining_bytes_def)
qed

lemma take_drop_4: "p + 4 \<le> length bs \<Longrightarrow> drop p bs = take 4 (drop p bs) @ drop (p + 4) bs"
  by (metis append_take_drop_id drop_drop add.commute)

text \<open>A buffer with room for a header is a type byte, three numbers and the rest.\<close>

lemma header_split:
  assumes "kHeaderBytes \<le> length bytes"
  obtains n ts len where "bytes = bytes ! 0 # put_u32 n @ put_u32 ts @ put_u32 len @ drop 13 bytes"
    and "read_be32 bytes 1 = Inr n" and "read_be32 bytes 5 = Inr ts" and "read_be32 bytes 9 = Inr len"
proof -
  have len: "13 \<le> length bytes" using assms by (simp add: kHeaderBytes_def)
  obtain n where n: "read_be32 bytes 1 = Inr n" "take 4 (drop 1 bytes) = put_u32 n"
    using read_be32_ok [of 1 bytes] len by auto
  obtain ts where ts: "read_be32 bytes 5 = Inr ts" "take 4 (drop 5 bytes) = put_u32 ts"
    using read_be32_ok [of 5 bytes] len by auto
  obtain l where l: "read_be32 bytes 9 = Inr l" "take 4 (drop 9 bytes) = put_u32 l"
    using read_be32_ok [of 9 bytes] len by auto
  have "bytes = bytes ! 0 # drop 1 bytes" using len by (cases bytes) simp_all
  also have "drop 1 bytes = put_u32 n @ drop 5 bytes" using take_drop_4 [of 1 bytes] len n by simp
  also have "drop 5 bytes = put_u32 ts @ drop 9 bytes" using take_drop_4 [of 5 bytes] len ts by simp
  also have "drop 9 bytes = put_u32 l @ drop 13 bytes" using take_drop_4 [of 9 bytes] len l by simp
  finally show ?thesis using that n ts l by blast
qed

lemma decode_frame_cases:
  assumes "kHeaderBytes \<le> length bytes"
    and "bytes = bytes ! 0 # put_u32 n @ put_u32 ts @ put_u32 len @ drop 13 bytes"
    and "read_be32 bytes 1 = Inr n" "read_be32 bytes 5 = Inr ts" "read_be32 bytes 9 = Inr len"
  shows "decode_frame bytes = Inr (case frame_type_from_byte (bytes ! 0) of
      None \<Rightarrow> None
    | Some t \<Rightarrow> if length bytes \<noteq> 13 + unat len then None
        else Some \<lparr>ef_type = t, ef_node_id = n, ef_timestamp_ms = ts, ef_payload = drop 13 bytes\<rparr>)"
  using assms by (auto simp: decode_frame_def kHeaderBytes_def byte_at_def split: option.splits)

lemma unat_of_small: "m < 2 ^ 32 \<Longrightarrow> unat (of_nat m :: u32) = m"
  by (simp add: unsigned_of_nat take_bit_nat_eq_self)

lemma encode_header:
  fixes t n ts payload
  defines "bytes \<equiv> encode_frame t n ts payload"
  shows "bytes ! 0 = frame_type_value t" and "drop 13 bytes = payload"
    and "length bytes = 13 + length payload"
  by (simp_all add: bytes_def encode_frame_eq put_u32_def)

lemma encode_fields:
  assumes h: "bytes = bytes ! 0 # put_u32 n @ put_u32 ts @ put_u32 len @ drop 13 bytes"
  shows "bytes = encode_frame (ef_type f) (ef_node_id f) (ef_timestamp_ms f) (ef_payload f) \<longleftrightarrow>
    bytes ! 0 = frame_type_value (ef_type f) \<and> ef_node_id f = n \<and> ef_timestamp_ms f = ts \<and>
    ef_payload f = drop 13 bytes \<and> len = of_nat (length (drop 13 bytes))" (is "?enc \<longleftrightarrow> ?fields")
proof
  assume e: ?enc
  then have b: "bytes ! 0 = frame_type_value (ef_type f)" "drop 13 bytes = ef_payload f"
    using encode_header by metis+
  from e h have "put_u32 n @ put_u32 ts @ put_u32 len = put_u32 (ef_node_id f) @
      put_u32 (ef_timestamp_ms f) @ put_u32 (of_nat (length (ef_payload f)))"
    unfolding encode_frame_eq b by (metis append.assoc append_same_eq list.inject)
  then show ?fields using b by (auto simp: append_eq_append_conv dest!: put_u32_inject)
next
  assume ?fields
  then show ?enc using h by (simp add: encode_frame_eq)
qed

lemma payload_length:
  fixes len :: u32
  assumes "kHeaderBytes \<le> length bytes"
  shows "length bytes = 13 + unat len \<longleftrightarrow>
    len = of_nat (length (drop 13 bytes)) \<and> length (drop 13 bytes) < 2 ^ 32"
proof
  assume "length bytes = 13 + unat len"
  then have "length (drop 13 bytes) = unat len" by simp
  then show "len = of_nat (length (drop 13 bytes)) \<and> length (drop 13 bytes) < 2 ^ 32"
    using unsigned_less [of len, where 'a = nat] by simp
next
  assume a: "len = of_nat (length (drop 13 bytes)) \<and> length (drop 13 bytes) < 2 ^ 32"
  have "unat len = length (drop 13 bytes)"
    by (subst conjunct1 [OF a]) (rule unat_of_small [OF conjunct2 [OF a]])
  then show "length bytes = 13 + unat len" using assms by (simp add: kHeaderBytes_def)
qed

section \<open>Properties\<close>

text \<open>
  C26: decoding a frame never reads outside the message, and it accepts exactly the encodings of frames
  with less than \<open>2 ^ 32\<close> payload bytes and gives back the frame that was encoded. A longer payload
  encodes with a truncated length, which the decoder refuses.
\<close>

theorem decode_frame_iff:
  "(\<exists>r. decode_frame bytes = Inr r) \<and>
   (decode_frame bytes = Inr (Some f) \<longleftrightarrow> length (ef_payload f) < 2 ^ 32 \<and>
      bytes = encode_frame (ef_type f) (ef_node_id f) (ef_timestamp_ms f) (ef_payload f))"
proof (cases "kHeaderBytes \<le> length bytes")
  case False
  then have "decode_frame bytes = Inr None" by (simp add: decode_frame_def)
  moreover have "bytes \<noteq> encode_frame t n ts p" for t n ts p
    using False encode_header(3) [of t n ts p] by (auto simp: kHeaderBytes_def)
  ultimately show ?thesis by simp
next
  case True
  then obtain n ts len where h: "bytes = bytes ! 0 # put_u32 n @ put_u32 ts @ put_u32 len @ drop 13 bytes"
    "read_be32 bytes 1 = Inr n" "read_be32 bytes 5 = Inr ts" "read_be32 bytes 9 = Inr len"
    by (rule header_split)
  note dec = decode_frame_cases [OF True h]
  have "decode_frame bytes = Inr (Some f) \<longleftrightarrow> bytes ! 0 = frame_type_value (ef_type f) \<and>
      ef_node_id f = n \<and> ef_timestamp_ms f = ts \<and> ef_payload f = drop 13 bytes \<and> length bytes = 13 + unat len"
  proof (cases "frame_type_from_byte (bytes ! 0)")
    case None
    then have "bytes ! 0 \<noteq> frame_type_value (ef_type f)" using frame_type_byte by (metis option.distinct(1))
    then show ?thesis unfolding dec None by simp
  next
    case (Some t)
    then have "bytes ! 0 = frame_type_value (ef_type f) \<longleftrightarrow> t = ef_type f" by (metis frame_type_byte option.inject)
    then show ?thesis unfolding dec Some by (cases f) auto
  qed
  moreover have "\<exists>r. decode_frame bytes = Inr r" unfolding dec by blast
  ultimately show ?thesis using encode_fields [OF h(1), of f] payload_length [OF True, of len] by metis
qed

end
