(* ===== verification/Editor_Debounce.thy ===== *)
theory Editor_Debounce
  imports Main
begin

text \<open>
  The debounce thread of the editor server (\<open>schedule_param_rerun\<close>, \<open>param_debounce_loop\<close> and
  \<open>stop_param_debounce\<close> of \<open>src/cpipe/server/EditorServer.cpp\<close>) as a state machine. The thread holds
  \<open>param_debounce_mutex_\<close> except while it waits and while it defers a callback, so one step runs from
  one such point to the next and the steps of the other threads fall in between: the callers that change
  the flags under the mutex and notify afterwards, and the thread of the event loop, which runs the
  deferred callbacks. The steady clock counts milliseconds.

  The condition variable wakes a blocked thread only when it is notified or when its time is up; wake-ups
  without a cause, which C++ allows, are left out, so that a notification that is missing stays visible.
  A callback that \<open>Loop::defer\<close> accepts waits in a queue until the thread of the loop runs it.
\<close>

section \<open>State and steps\<close>

text \<open>
  Where the thread is: about to take the mutex and to test the loop conditions (at its start, when it
  has been woken from its wait and when it comes back from the callback), blocked on the condition
  variable, blocked until the deadline it has read, woken from there and about to test whether there is
  a new deadline, about to defer the callback with the lock released, or finished.
\<close>

datatype debounce_pc = DLock | DWait | DUntil nat | DRecheck nat | DEmit | DExit

text \<open>
  \<open>db_notify\<close> counts the callers that have changed the flags and have not notified yet, \<open>db_queue\<close> the
  deferred callbacks that have not run and \<open>db_runs\<close> those that have run.
\<close>

record debounce =
  db_pending :: bool
  db_stop :: bool
  db_deadline :: nat
  db_now :: nat
  db_notify :: nat
  db_loop :: bool
  db_queue :: nat
  db_runs :: nat
  db_pc :: debounce_pc

text \<open>The thread as \<open>start\<close> creates it; the loop may have ended by then.\<close>

definition debounce_start :: "nat \<Rightarrow> nat \<Rightarrow> bool \<Rightarrow> debounce" where
  "debounce_start now deadline loop = \<lparr>db_pending = False, db_stop = False, db_deadline = deadline,
     db_now = now, db_notify = 0, db_loop = loop, db_queue = 0, db_runs = 0, db_pc = DLock\<rparr>"

text \<open>The two calls up to the end of their critical section; \<open>notify_one\<close> is the step that follows.\<close>

definition schedule_param_rerun :: "debounce \<Rightarrow> debounce" where
  "schedule_param_rerun s =
     s\<lparr>db_pending := True, db_deadline := db_now s + 200, db_notify := Suc (db_notify s)\<rparr>"

definition stop_param_debounce :: "debounce \<Rightarrow> debounce" where
  "stop_param_debounce s = s\<lparr>db_stop := True, db_pending := False, db_notify := Suc (db_notify s)\<rparr>"

text \<open>A notification wakes the thread if it is blocked and is lost otherwise.\<close>

definition notify_one :: "debounce \<Rightarrow> debounce option" where
  "notify_one s =
     (if db_notify s = 0 then None
      else Some (s\<lparr>db_notify := db_notify s - 1,
        db_pc := (case db_pc s of DWait \<Rightarrow> DLock | DUntil deadline \<Rightarrow> DRecheck deadline | pc \<Rightarrow> pc)\<rparr>))"

text \<open>
  The conditions of the two loops, from the inner one outwards, up to the next point at which the thread
  blocks: both waits test their predicate first, and it is false there.
\<close>

definition debounce_loops :: "debounce \<Rightarrow> debounce" where
  "debounce_loops s =
     (if \<not> db_stop s \<and> db_pending s then s\<lparr>db_pc := DUntil (db_deadline s)\<rparr>
      else if \<not> db_stop s then s\<lparr>db_pc := DWait\<rparr>
      else s\<lparr>db_pc := DExit\<rparr>)"

text \<open>
  A step of the thread; \<open>None\<close> when it is blocked. A timed wait that has been notified tests its
  predicate and blocks again when it is false; when the time is up it returns the predicate.
\<close>

definition debounce_step :: "debounce \<Rightarrow> debounce option" where
  "debounce_step s =
     (case db_pc s of
        DLock \<Rightarrow> Some (debounce_loops s)
      | DWait \<Rightarrow> None
      | DRecheck deadline \<Rightarrow>
          if db_stop s \<or> db_deadline s \<noteq> deadline then Some (debounce_loops s)
          else Some (s\<lparr>db_pc := DUntil deadline\<rparr>)
      | DUntil deadline \<Rightarrow>
          if db_now s < deadline then None
          else if db_stop s \<or> db_deadline s \<noteq> deadline then Some (debounce_loops s)
          else Some (s\<lparr>db_pending := False, db_pc := DEmit\<rparr>)
      | DEmit \<Rightarrow>
          Some ((if db_loop s then s\<lparr>db_queue := Suc (db_queue s)\<rparr> else s)\<lparr>db_pc := DLock\<rparr>)
      | DExit \<Rightarrow> None)"

text \<open>The thread of the loop runs a deferred callback, which calls \<open>emit_completed_run\<close>.\<close>

definition run_deferred :: "debounce \<Rightarrow> debounce option" where
  "run_deferred s =
     (if db_loop s \<and> 0 < db_queue s
      then Some (s\<lparr>db_queue := db_queue s - 1, db_runs := Suc (db_runs s)\<rparr>) else None)"

datatype debounce_event =
  EvSchedule | EvStop | EvNotify | EvTick | EvClose | EvRun | EvThread | EvFire | EvDefer

text \<open>\<open>EvFire\<close> is the step in which the thread gives up waiting for a further change.\<close>

definition thread_event :: "debounce \<Rightarrow> debounce_event" where
  "thread_event s =
     (case db_pc s of
        DEmit \<Rightarrow> EvDefer
      | DUntil d \<Rightarrow> if db_stop s \<or> db_deadline s \<noteq> d then EvThread else EvFire
      | _ \<Rightarrow> EvThread)"

text \<open>\<open>EvClose\<close> is the end of the loop thread, which clears the pointer to the loop.\<close>

inductive debounce_trans :: "debounce_event \<Rightarrow> debounce \<Rightarrow> debounce \<Rightarrow> bool" where
  schedule: "debounce_trans EvSchedule s (schedule_param_rerun s)"
| stop: "debounce_trans EvStop s (stop_param_debounce s)"
| notify: "notify_one s = Some s' \<Longrightarrow> debounce_trans EvNotify s s'"
| tick: "debounce_trans EvTick s (s\<lparr>db_now := Suc (db_now s)\<rparr>)"
| close: "debounce_trans EvClose s (s\<lparr>db_loop := False\<rparr>)"
| run: "run_deferred s = Some s' \<Longrightarrow> debounce_trans EvRun s s'"
| thread: "debounce_step s = Some s' \<Longrightarrow> debounce_trans (thread_event s) s s'"

inductive_cases debounce_transE: "debounce_trans e s s'"
inductive_simps debounce_trans_simps: "debounce_trans e s s'"

text \<open>The executions, with the events and their times, the latest first.\<close>

inductive debounce_run :: "(debounce_event \<times> nat) list \<Rightarrow> debounce \<Rightarrow> bool" where
  init: "debounce_run [] (debounce_start now deadline loop)"
| step: "debounce_run tr s \<Longrightarrow> debounce_trans e s s' \<Longrightarrow> debounce_run ((e, db_now s) # tr) s'"

section \<open>A rerun waits for quiet\<close>

definition last_schedule :: "(debounce_event \<times> nat) list \<Rightarrow> nat option" where
  "last_schedule tr = map_option snd (List.find (\<lambda>(e, t). e = EvSchedule) tr)"

definition scheduled_since_fire :: "(debounce_event \<times> nat) list \<Rightarrow> bool" where
  "scheduled_since_fire tr \<longleftrightarrow> (\<exists>t. (EvSchedule, t) \<in> set (takeWhile (\<lambda>(e, t). e \<noteq> EvFire) tr))"

lemma last_schedule_Cons [simp]:
  "last_schedule ((e, t) # tr) = (if e = EvSchedule then Some t else last_schedule tr)"
  by (simp add: last_schedule_def)

lemma scheduled_since_Cons [simp]:
  "scheduled_since_fire ((e, t) # tr) \<longleftrightarrow> e = EvSchedule \<or> e \<noteq> EvFire \<and> scheduled_since_fire tr"
  by (auto simp: scheduled_since_fire_def)

definition debounce_inv :: "(debounce_event \<times> nat) list \<Rightarrow> debounce \<Rightarrow> bool" where
  "debounce_inv tr s \<longleftrightarrow>
     (db_pending s \<longrightarrow> last_schedule tr = Some (db_deadline s - 200) \<and> 200 \<le> db_deadline s \<and>
        scheduled_since_fire tr) \<and>
     (\<forall>d. db_pc s \<in> {DUntil d, DRecheck d} \<and> \<not> db_stop s \<longrightarrow> db_pending s)"

lemmas debounce_defs = schedule_param_rerun_def stop_param_debounce_def notify_one_def debounce_loops_def
  debounce_step_def run_deferred_def thread_event_def

lemma debounce_inv_run: "debounce_run tr s \<Longrightarrow> debounce_inv tr s"
proof (induction rule: debounce_run.induct)
  case (init now deadline loop)
  then show ?case by (simp add: debounce_inv_def debounce_start_def)
next
  case (step tr s e s')
  from step.hyps(2) step.IH show ?case
    by (cases rule: debounce_trans.cases)
      (auto simp: debounce_inv_def debounce_defs split: debounce_pc.splits if_splits)
qed

text \<open>
  No wake-up is lost: a thread that is blocked although there is something to do is about to be notified.
  And the deadline a thread waits for is never later than the current one.
\<close>

definition wake_inv :: "debounce \<Rightarrow> bool" where
  "wake_inv s \<longleftrightarrow> (db_pc s = DWait \<and> (db_pending s \<or> db_stop s) \<longrightarrow> 0 < db_notify s) \<and>
     (\<forall>d. db_pc s = DUntil d \<and> db_stop s \<longrightarrow> 0 < db_notify s) \<and>
     (db_pending s \<longrightarrow> db_deadline s \<le> db_now s + 200) \<and>
     (\<forall>d. db_pc s \<in> {DUntil d, DRecheck d} \<longrightarrow> d \<le> db_deadline s \<and> d \<le> db_now s + 200) \<and>
     (db_pc s = DExit \<longrightarrow> db_stop s)"

lemma wake_inv_trans: "wake_inv s \<Longrightarrow> debounce_trans e s s' \<Longrightarrow> wake_inv s'"
  by (erule debounce_trans.cases)
     (auto simp: wake_inv_def debounce_defs split: debounce_pc.splits if_splits)

section \<open>Every change is followed by a rerun\<close>

text \<open>An infinite execution.\<close>

definition debounce_path :: "(nat \<Rightarrow> debounce) \<Rightarrow> (nat \<Rightarrow> debounce_event) \<Rightarrow> bool" where
  "debounce_path \<sigma> ev \<longleftrightarrow> (\<exists>now deadline loop. \<sigma> 0 = debounce_start now deadline loop) \<and>
     (\<forall>i. debounce_trans (ev i) (\<sigma> i) (\<sigma> (Suc i)))"

text \<open>
  The threads that take part: the debounce thread, the callers that still have to notify, and the thread
  of the loop. Each of them runs again and again as long as it can, and time goes on.
\<close>

datatype actor = Thread | Notifier | LoopThread

fun actor_events :: "actor \<Rightarrow> debounce_event set" where
  "actor_events Thread = {EvThread, EvFire, EvDefer}"
| "actor_events Notifier = {EvNotify}"
| "actor_events LoopThread = {EvRun}"

fun actor_enabled :: "actor \<Rightarrow> debounce \<Rightarrow> bool" where
  "actor_enabled Thread s \<longleftrightarrow> debounce_step s \<noteq> None"
| "actor_enabled Notifier s \<longleftrightarrow> notify_one s \<noteq> None"
| "actor_enabled LoopThread s \<longleftrightarrow> run_deferred s \<noteq> None"

definition debounce_fair :: "(nat \<Rightarrow> debounce) \<Rightarrow> (nat \<Rightarrow> debounce_event) \<Rightarrow> bool" where
  "debounce_fair \<sigma> ev \<longleftrightarrow>
     (\<forall>a i. \<exists>j \<ge> i. ev j \<in> actor_events a \<or> \<not> actor_enabled a (\<sigma> j)) \<and>
     (\<forall>t. \<exists>i. t \<le> db_now (\<sigma> i))"

definition disturbing :: "debounce_event set" where
  "disturbing = {EvSchedule, EvStop, EvClose}"

text \<open>
  Progress: as long as \<open>P\<close> holds there is an actor that is not blocked and helps. Every step reaches the
  goal, comes closer to it, or leaves the distance and the helpful actor alone and is not one of his.
\<close>

locale debounce_progress =
  fixes P :: "debounce \<Rightarrow> bool" and rank :: "debounce \<Rightarrow> nat" and helpful :: "debounce \<Rightarrow> actor"
    and goal :: "debounce_event \<Rightarrow> debounce \<Rightarrow> bool"
  assumes enabled: "P s \<Longrightarrow> actor_enabled (helpful s) s"
    and advance: "P s \<Longrightarrow> debounce_trans e s s' \<Longrightarrow> e \<notin> disturbing \<Longrightarrow>
      goal e s' \<or> P s' \<and> (rank s' < rank s \<or>
        rank s' = rank s \<and> helpful s' = helpful s \<and> e \<notin> actor_events (helpful s))"
begin

lemma closer:
  assumes trans: "\<And>i. debounce_trans (ev i) (\<sigma> i) (\<sigma> (Suc i))"
    and quiet: "\<And>k. j \<le> k \<Longrightarrow> ev k \<notin> disturbing \<and> \<not> goal (ev k) (\<sigma> (Suc k))"
    and fair: "\<And>a i. \<exists>m \<ge> i. ev m \<in> actor_events a \<or> \<not> actor_enabled a (\<sigma> m)"
    and "P (\<sigma> j)"
  shows "\<exists>m \<ge> j. P (\<sigma> m) \<and> rank (\<sigma> m) < rank (\<sigma> j)"
proof (rule ccontr)
  assume no: "\<not> ?thesis"
  have same: "P (\<sigma> (j + n)) \<and> rank (\<sigma> (j + n)) = rank (\<sigma> j) \<and> helpful (\<sigma> (j + n)) = helpful (\<sigma> j)" for n
  proof (induction n)
    case (Suc n)
    then show ?case
      using advance [OF _ trans [of "j + n"]] quiet [of "j + n"] no by (metis add_Suc_right le_add1)
  qed (simp add: assms(4))
  have "ev (j + n) \<notin> actor_events (helpful (\<sigma> j))" for n
    using advance [OF _ trans [of "j + n"]] quiet [of "j + n"] same [of n] same [of "Suc n"]
    by (metis add_Suc_right le_add1 less_irrefl)
  moreover have "actor_enabled (helpful (\<sigma> j)) (\<sigma> (j + n))" for n
    using enabled [of "\<sigma> (j + n)"] same [of n] by simp
  ultimately show False using fair [of j "helpful (\<sigma> j)"] by (metis le_add_diff_inverse)
qed

lemma reaches_goal:
  assumes trans: "\<And>i. debounce_trans (ev i) (\<sigma> i) (\<sigma> (Suc i))"
    and quiet: "\<And>k. j \<le> k \<Longrightarrow> ev k \<notin> disturbing"
    and fair: "\<And>a i. \<exists>m \<ge> i. ev m \<in> actor_events a \<or> \<not> actor_enabled a (\<sigma> m)"
    and "P (\<sigma> j)"
  shows "\<exists>k \<ge> j. goal (ev k) (\<sigma> (Suc k))"
  using assms(4) quiet
proof (induction "rank (\<sigma> j)" arbitrary: j rule: less_induct)
  case less
  show ?case
  proof (rule ccontr)
    assume no: "\<not> ?thesis"
    with less.prems(2) have "ev k \<notin> disturbing \<and> \<not> goal (ev k) (\<sigma> (Suc k))" if "j \<le> k" for k
      using that by blast
    from closer [OF trans this fair less.prems(1)] obtain m where
      m: "j \<le> m" "P (\<sigma> m)" "rank (\<sigma> m) < rank (\<sigma> j)" by blast
    from less.hyps [OF m(3,2)] less.prems(2) m(1) no show False by (meson le_trans)
  qed
qed

end

text \<open>From a change whose deadline has passed to the decision to rerun.\<close>

fun pc_rank :: "nat \<Rightarrow> debounce_pc \<Rightarrow> nat" where
  "pc_rank deadline DEmit = 5"
| "pc_rank deadline DWait = 4"
| "pc_rank deadline DLock = 3"
| "pc_rank deadline (DRecheck d) = 3"
| "pc_rank deadline (DUntil d) = (if d = deadline then 1 else 2)"
| "pc_rank deadline DExit = 0"

definition fire_rank :: "debounce \<Rightarrow> nat" where
  "fire_rank s = 5 * db_notify s + pc_rank (db_deadline s) (db_pc s)"

definition fire_helper :: "debounce \<Rightarrow> actor" where
  "fire_helper s = (if db_pc s = DWait then Notifier else Thread)"

definition change_pending :: "debounce \<Rightarrow> bool" where
  "change_pending s \<longleftrightarrow> \<not> db_stop s \<and> db_pending s \<and> wake_inv s"

definition change_due :: "debounce \<Rightarrow> bool" where
  "change_due s \<longleftrightarrow> change_pending s \<and> db_deadline s \<le> db_now s"

lemma pending_trans:
  assumes "change_pending s" and "debounce_trans e s s'" and "e \<notin> disturbing"
  shows "e = EvFire \<or> change_pending s' \<and> db_deadline s' = db_deadline s \<and> db_now s \<le> db_now s' \<and>
    (fire_rank s' < fire_rank s \<or> e \<in> {EvTick, EvRun} \<and> fire_rank s' = fire_rank s \<and>
       fire_helper s' = fire_helper s)"
proof -
  have inv: "wake_inv s'" using wake_inv_trans [OF _ assms(2)] assms(1) by (simp add: change_pending_def)
  from assms(2) show ?thesis
    using assms(1,3) inv
    by cases (auto simp: change_pending_def fire_rank_def fire_helper_def disturbing_def debounce_defs
      split: debounce_pc.splits if_splits)
qed

interpretation fire: debounce_progress change_due fire_rank fire_helper "\<lambda>e s'. e = EvFire"
proof
  show "actor_enabled (fire_helper s) s" if "change_due s" for s
    using that by (auto simp: change_due_def change_pending_def wake_inv_def fire_helper_def debounce_step_def
      notify_one_def split: debounce_pc.splits)
  show "e = EvFire \<or> change_due s' \<and> (fire_rank s' < fire_rank s \<or>
      fire_rank s' = fire_rank s \<and> fire_helper s' = fire_helper s \<and> e \<notin> actor_events (fire_helper s))"
    if "change_due s" "debounce_trans e s s'" "e \<notin> disturbing" for s e s'
    using that pending_trans [of s e s'] by (auto simp: change_due_def fire_helper_def)
qed

text \<open>From the decision to the deferred callback.\<close>

definition about_to_defer :: "debounce \<Rightarrow> bool" where
  "about_to_defer s \<longleftrightarrow> db_pc s = DEmit"

interpretation emit: debounce_progress about_to_defer "\<lambda>s. 0" "\<lambda>s. Thread" "\<lambda>e s'. e = EvDefer"
proof
  show "actor_enabled Thread s" if "about_to_defer s" for s
    using that by (simp add: about_to_defer_def debounce_step_def)
  show "e = EvDefer \<or> about_to_defer s' \<and> ((0 :: nat) < 0 \<or> 0 = (0 :: nat) \<and> Thread = Thread \<and> e \<notin> actor_events Thread)"
    if "about_to_defer s" "debounce_trans e s s'" "e \<notin> disturbing" for s e s'
    using that(2,1,3) by cases (auto simp: about_to_defer_def disturbing_def notify_one_def run_deferred_def
      thread_event_def split: if_splits)
qed

text \<open>From the deferral to the run: more than \<open>n\<close> callbacks have been deferred, at most \<open>n\<close> have run.\<close>

definition awaiting_run :: "nat \<Rightarrow> debounce \<Rightarrow> bool" where
  "awaiting_run n s \<longleftrightarrow> db_loop s \<and> db_runs s \<le> n \<and> n < db_queue s + db_runs s"

lemma deferred_mono: "debounce_trans e s s' \<Longrightarrow> db_queue s + db_runs s \<le> db_queue s' + db_runs s'"
  by (erule debounce_trans.cases) (auto simp: debounce_defs split: debounce_pc.splits if_splits)

lemma trans_now: "debounce_trans e s s' \<Longrightarrow> db_now s \<le> db_now s'"
  by (erule debounce_trans.cases) (auto simp: debounce_defs split: debounce_pc.splits if_splits)

lemma trans_loop: "debounce_trans e s s' \<Longrightarrow> e \<notin> disturbing \<Longrightarrow> db_loop s' = db_loop s"
  by (erule debounce_trans.cases) (auto simp: debounce_defs disturbing_def split: debounce_pc.splits if_splits)

lemma trans_runs: "debounce_trans e s s' \<Longrightarrow> db_runs s' = (if e = EvRun then Suc (db_runs s) else db_runs s)"
  by (erule debounce_trans.cases) (auto simp: debounce_defs split: debounce_pc.splits if_splits)

interpretation ran: debounce_progress "awaiting_run n" "\<lambda>s. Suc n - db_runs s" "\<lambda>s. LoopThread"
  "\<lambda>e s'. n < db_runs s'" for n
proof
  show "actor_enabled LoopThread s" if "awaiting_run n s" for s
    using that by (simp add: awaiting_run_def run_deferred_def)
  show "n < db_runs s' \<or> awaiting_run n s' \<and> (Suc n - db_runs s' < Suc n - db_runs s \<or>
      Suc n - db_runs s' = Suc n - db_runs s \<and> LoopThread = LoopThread \<and> e \<notin> actor_events LoopThread)"
    if "awaiting_run n s" "debounce_trans e s s'" "e \<notin> disturbing" for s e s'
    using that(1) deferred_mono [OF that(2)] trans_loop [OF that(2,3)] trans_runs [OF that(2)]
    by (auto simp: awaiting_run_def)
qed

text \<open>Facts on single steps and on paths.\<close>

lemma fire_trans:
  assumes "debounce_trans EvFire s s'"
  shows "\<not> db_stop s \<and> db_pc s = DUntil (db_deadline s) \<and> db_deadline s \<le> db_now s \<and>
    s' = s\<lparr>db_pending := False, db_pc := DEmit\<rparr>"
  using assms by (cases rule: debounce_trans.cases)
    (auto simp: thread_event_def debounce_step_def split: debounce_pc.splits if_splits)

lemma schedule_trans: "debounce_trans EvSchedule s s' \<Longrightarrow> s' = schedule_param_rerun s"
  by (cases rule: debounce_trans.cases) (auto simp: thread_event_def split: debounce_pc.splits if_splits)

lemma defer_trans:
  assumes "debounce_trans EvDefer s s'" and "db_loop s"
  shows "db_queue s' = Suc (db_queue s)"
  using assms by (cases rule: debounce_trans.cases)
    (auto simp: thread_event_def debounce_step_def split: debounce_pc.splits if_splits)

text \<open>A thread that is told to stop and is awake ends, so the join of \<open>stop\<close> returns.\<close>

lemma stopped_exits:
  assumes "db_stop s" and "db_pc s \<in> {DLock, DRecheck d}"
  shows "\<exists>s'. debounce_step s = Some s' \<and> db_pc s' = DExit"
  using assms by (auto simp: debounce_defs)

lemma path_wake_inv: "debounce_path \<sigma> ev \<Longrightarrow> wake_inv (\<sigma> i)"
proof (induction i)
  case 0
  then show ?case by (auto simp: debounce_path_def wake_inv_def debounce_start_def)
next
  case (Suc i)
  then show ?case using wake_inv_trans [of "\<sigma> i" "ev i"] by (simp add: debounce_path_def)
qed

lemma path_now:
  assumes "debounce_path \<sigma> ev" and "i \<le> j"
  shows "db_now (\<sigma> i) \<le> db_now (\<sigma> j)"
  using assms(2) by (rule lift_Suc_mono_le [rotated]) (use assms(1) trans_now in \<open>auto simp: debounce_path_def\<close>)

lemma path_deferred:
  assumes "debounce_path \<sigma> ev" and "i \<le> j"
  shows "db_queue (\<sigma> i) + db_runs (\<sigma> i) \<le> db_queue (\<sigma> j) + db_runs (\<sigma> j)"
  using assms(2) by (rule lift_Suc_mono_le [rotated])
    (use assms(1) deferred_mono in \<open>auto simp: debounce_path_def\<close>)

lemma path_loop:
  assumes "debounce_path \<sigma> ev" and "\<And>k. j \<le> k \<Longrightarrow> ev k \<notin> disturbing" and "j \<le> i"
  shows "db_loop (\<sigma> i) = db_loop (\<sigma> j)"
  using assms(3)
proof (induction i rule: dec_induct)
  case (step n)
  have "debounce_trans (ev n) (\<sigma> n) (\<sigma> (Suc n))" using assms(1) by (simp add: debounce_path_def)
  from trans_loop [OF this assms(2) [OF step.hyps(1)]] step.IH show ?case by simp
qed simp

text \<open>Until the thread decides to rerun, a change stays pending with its deadline.\<close>

lemma pending_persists:
  assumes path: "debounce_path \<sigma> ev"
    and quiet: "\<And>k. j \<le> k \<Longrightarrow> ev k \<notin> disturbing \<and> ev k \<noteq> EvFire"
    and "change_pending (\<sigma> j)"
  shows "change_pending (\<sigma> (j + n)) \<and> db_deadline (\<sigma> (j + n)) = db_deadline (\<sigma> j)"
proof (induction n)
  case (Suc n)
  have "debounce_trans (ev (j + n)) (\<sigma> (j + n)) (\<sigma> (Suc (j + n)))" using path by (simp add: debounce_path_def)
  with Suc quiet [of "j + n"] pending_trans [of "\<sigma> (j + n)"] show ?case by fastforce
qed (simp add: assms(3))

lemma change_fires:
  assumes path: "debounce_path \<sigma> ev" and fair: "debounce_fair \<sigma> ev"
    and quiet: "\<And>k. j \<le> k \<Longrightarrow> ev k \<notin> disturbing" and pending: "change_pending (\<sigma> j)"
  shows "\<exists>k \<ge> j. ev k = EvFire"
proof (rule ccontr)
  assume no: "\<not> ?thesis"
  with quiet have "j \<le> k \<Longrightarrow> ev k \<notin> disturbing \<and> ev k \<noteq> EvFire" for k by blast
  note keep = pending_persists [OF path this pending]
  have trans: "debounce_trans (ev k) (\<sigma> k) (\<sigma> (Suc k))" for k using path by (simp add: debounce_path_def)
  have runs: "\<exists>m \<ge> i. ev m \<in> actor_events a \<or> \<not> actor_enabled a (\<sigma> m)" for a i
    using fair by (simp add: debounce_fair_def)
  obtain m where "db_deadline (\<sigma> j) \<le> db_now (\<sigma> m)" using fair unfolding debounce_fair_def by blast
  then have "db_deadline (\<sigma> j) \<le> db_now (\<sigma> (j + m))" using path_now [OF path, of m "j + m"] by simp
  with keep [of m] have "change_due (\<sigma> (j + m))" by (simp add: change_due_def)
  from fire.reaches_goal [OF trans _ runs this] quiet no show False by (metis le_add1 le_trans)
qed

text \<open>After the decision a callback that was not in the queue before is run.\<close>

lemma fire_runs:
  assumes path: "debounce_path \<sigma> ev" and fair: "debounce_fair \<sigma> ev"
    and quiet: "\<And>k. j \<le> k \<Longrightarrow> ev k \<notin> disturbing" and fires: "ev j = EvFire" and loop: "db_loop (\<sigma> j)"
  shows "\<exists>n > j. db_queue (\<sigma> j) + db_runs (\<sigma> j) < db_runs (\<sigma> n)"
proof -
  let ?D = "\<lambda>i. db_queue (\<sigma> i) + db_runs (\<sigma> i)"
  have trans: "debounce_trans (ev k) (\<sigma> k) (\<sigma> (Suc k))" for k using path by (simp add: debounce_path_def)
  have runs: "\<exists>m \<ge> i. ev m \<in> actor_events a \<or> \<not> actor_enabled a (\<sigma> m)" for a i
    using fair by (simp add: debounce_fair_def)
  have quiet': "Suc j \<le> k \<Longrightarrow> ev k \<notin> disturbing" for k using quiet by simp
  have "about_to_defer (\<sigma> (Suc j))"
    using fire_trans [of "\<sigma> j" "\<sigma> (Suc j)"] trans [of j] fires by (simp add: about_to_defer_def)
  from emit.reaches_goal [OF trans quiet' runs this] obtain k where k: "Suc j \<le> k" "ev k = EvDefer" by blast
  have loop': "db_loop (\<sigma> i)" if "j \<le> i" for i
    using path_loop [OF path quiet that] loop by simp
  have "?D j < ?D (Suc k)"
  proof -
    have "debounce_trans EvDefer (\<sigma> k) (\<sigma> (Suc k))" using trans [of k] k(2) by simp
    then have "?D (Suc k) = Suc (?D k)"
      using defer_trans [of "\<sigma> k" "\<sigma> (Suc k)"] trans_runs [of EvDefer "\<sigma> k" "\<sigma> (Suc k)"] loop' [of k] k(1) by simp
    with path_deferred [OF path, of j k] k(1) show ?thesis by simp
  qed
  show ?thesis
  proof (cases "db_runs (\<sigma> (Suc k)) \<le> ?D j")
    case True
    with \<open>?D j < ?D (Suc k)\<close> loop' [of "Suc k"] k(1) have "awaiting_run (?D j) (\<sigma> (Suc k))"
      by (simp add: awaiting_run_def)
    moreover have "Suc k \<le> i \<Longrightarrow> ev i \<notin> disturbing" for i using quiet k(1) by simp
    ultimately obtain n where "Suc k \<le> n" "?D j < db_runs (\<sigma> (Suc n))"
      using ran.reaches_goal [OF trans _ runs] by blast
    with k(1) show ?thesis by (intro exI [of _ "Suc n"]) simp
  next
    case False
    with k(1) show ?thesis by (intro exI [of _ "Suc k"]) simp
  qed
qed

section \<open>Properties\<close>

text \<open>
  The server reruns the pipeline only after the parameters have been quiet: whenever the thread
  decides to rerun, the last change was at least 200 milliseconds ago, and there has been a change
  since the previous rerun, so a burst of changes gives one rerun and no rerun comes without a change.
\<close>

lemma debounce_quiet:
  assumes "debounce_run ((EvFire, t) # tr) s"
  shows "\<exists>ts. last_schedule tr = Some ts \<and> ts + 200 \<le> t \<and> scheduled_since_fire tr"
proof -
  from assms obtain s0 where run: "debounce_run tr s0" and trans: "debounce_trans EvFire s0 s"
    and t: "t = db_now s0" by (auto elim: debounce_run.cases)
  from fire_trans [OF trans] debounce_inv_run [OF run] t show ?thesis by (auto simp: debounce_inv_def)
qed

text \<open>
  C22: no change is lost. In every infinite execution in which time goes on and the debounce thread, the
  callers that have to notify it and the thread of the event loop keep running whenever they can, a change
  that is followed by no other change, no stop and no end of the loop, made while the loop is there, leads
  to a decision to rerun after the change, and then to the run of a callback that was not deferred before
  that decision.
\<close>

theorem debounce_liveness:
  assumes path: "debounce_path \<sigma> ev" and fair: "debounce_fair \<sigma> ev"
    and change: "ev i = EvSchedule" "\<not> db_stop (\<sigma> i)" "db_loop (\<sigma> i)"
    and last: "\<forall>k > i. ev k \<noteq> EvSchedule \<and> ev k \<noteq> EvStop \<and> ev k \<noteq> EvClose"
  shows "\<exists>j > i. ev j = EvFire \<and> (\<exists>n > j. db_queue (\<sigma> j) + db_runs (\<sigma> j) < db_runs (\<sigma> n))"
proof -
  have quiet: "Suc i \<le> k \<Longrightarrow> ev k \<notin> disturbing" for k using last by (simp add: disturbing_def)
  have sched: "\<sigma> (Suc i) = schedule_param_rerun (\<sigma> i)"
    using path change(1) schedule_trans by (metis debounce_path_def)
  then have "change_pending (\<sigma> (Suc i))"
    using change(2) path_wake_inv [OF path, of "Suc i"] by (simp add: change_pending_def schedule_param_rerun_def)
  from change_fires [OF path fair quiet this] obtain j where j: "Suc i \<le> j" "ev j = EvFire" by blast
  have "db_loop (\<sigma> j)"
    using path_loop [OF path quiet j(1)] sched change(3) by (simp add: schedule_param_rerun_def)
  with fire_runs [OF path fair _ j(2)] quiet j show ?thesis by (metis Suc_le_eq le_trans)
qed

text \<open>
  An execution: the thread starts to wait, a change comes and notifies it, 200 milliseconds pass, the
  thread decides and defers, the loop runs the callback, and then only time goes on.
\<close>

definition demo_event :: "nat \<Rightarrow> debounce_event" where
  "demo_event i = (if i \<in> {0, 3, 206} then EvThread else if i = 1 then EvSchedule else if i = 2 then EvNotify
     else if i = 204 then EvFire else if i = 205 then EvDefer else if i = 207 then EvRun else EvTick)"

definition demo_path :: "nat \<Rightarrow> debounce" where
  "demo_path i = \<lparr>db_pending = (1 < i \<and> i \<le> 204), db_stop = False,
     db_deadline = (if i \<le> 1 then 0 else 200),
     db_now = (if i < 4 then 0 else if i \<le> 204 then i - 4 else if i \<le> 208 then 200 else i - 8),
     db_notify = (if i = 2 then 1 else 0), db_loop = True,
     db_queue = (if 206 \<le> i \<and> i \<le> 207 then 1 else 0), db_runs = (if i \<le> 207 then 0 else 1),
     db_pc = (if i \<in> {0, 3, 206} then DLock else if i < 4 \<or> 206 < i then DWait
       else if i = 205 then DEmit else DUntil 200)\<rparr>"

lemma demo_trans: "debounce_trans (demo_event i) (demo_path i) (demo_path (Suc i))"
proof -
  consider "i = 1" | "i = 2" | "i = 207" | "i \<in> {0, 3, 204, 205, 206}" | "i \<notin> {0, 1, 2, 3, 204, 205, 206, 207}"
    by blast
  then show ?thesis
  proof cases
    case 1
    have "schedule_param_rerun (demo_path 1) = demo_path (Suc 1)"
      by (simp add: demo_path_def schedule_param_rerun_def)
    with 1 debounce_trans.schedule [of "demo_path 1"] show ?thesis by (simp add: demo_event_def)
  next
    case 2
    then show ?thesis using debounce_trans.notify [of "demo_path i" "demo_path (Suc i)"]
      by (simp add: demo_path_def demo_event_def notify_one_def)
  next
    case 3
    then show ?thesis using debounce_trans.run [of "demo_path i" "demo_path (Suc i)"]
      by (simp add: demo_path_def demo_event_def run_deferred_def)
  next
    case 4
    then show ?thesis using debounce_trans.thread [of "demo_path i" "demo_path (Suc i)"]
      by (auto simp: demo_path_def demo_event_def debounce_defs)
  next
    case 5
    then have "demo_path (Suc i) = (demo_path i)\<lparr>db_now := Suc (db_now (demo_path i))\<rparr>"
      by (auto simp: demo_path_def)
    with 5 debounce_trans.tick [of "demo_path i"] show ?thesis by (simp add: demo_event_def)
  qed
qed

theorem debounce_liveness_witness:
  "debounce_path demo_path demo_event \<and> debounce_fair demo_path demo_event \<and>
   (\<exists>j > 1. demo_event j = EvFire \<and>
      (\<exists>n > j. db_queue (demo_path j) + db_runs (demo_path j) < db_runs (demo_path n)))"
proof -
  have "demo_path 0 = debounce_start 0 0 True" by (simp add: demo_path_def debounce_start_def)
  then have path: "debounce_path demo_path demo_event"
    using demo_trans unfolding debounce_path_def by blast
  have "\<not> actor_enabled a (demo_path (i + 208))" for a i
    by (cases a) (simp_all add: demo_path_def debounce_step_def notify_one_def run_deferred_def)
  moreover have "t \<le> db_now (demo_path (t + 209))" for t by (simp add: demo_path_def)
  ultimately have fair: "debounce_fair demo_path demo_event"
    unfolding debounce_fair_def by (metis le_add1)
  have ev: "demo_event 1 = EvSchedule" "\<not> db_stop (demo_path 1)" "db_loop (demo_path 1)"
    "\<forall>k > 1. demo_event k \<noteq> EvSchedule \<and> demo_event k \<noteq> EvStop \<and> demo_event k \<noteq> EvClose"
    by (simp_all add: demo_event_def demo_path_def)
  from debounce_liveness [OF path fair ev] path fair show ?thesis by blast
qed

end
