(* ===== verification/Fs_Path.thy ===== *)
theory Fs_Path
  imports Prelude "HOL-Library.Sublist"
begin

text \<open>
  Paths as strings, with the operations of \<open>std::filesystem::path\<close> the sources use, on POSIX systems:
  \<open>operator/\<close>, \<open>lexically_normal\<close> and \<open>extension\<close>.
\<close>

section \<open>Operations\<close>

abbreviation slash :: char where
  "slash \<equiv> CHR ''/''"

fun split_slash :: "string \<Rightarrow> string list" where
  "split_slash [] = [[]]"
| "split_slash (c # s) =
     (if c = slash then [] # split_slash s
      else (case split_slash s of [] \<Rightarrow> [[c]] | p # ps \<Rightarrow> (c # p) # ps))"

definition path_parts :: "string \<Rightarrow> string list" where
  "path_parts s = filter (\<lambda>p. p \<noteq> []) (split_slash s)"

definition is_absolute :: "string \<Rightarrow> bool" where
  "is_absolute p \<longleftrightarrow> take 1 p = [slash]"

text \<open>\<open>operator/\<close>: an absolute right operand replaces the left one.\<close>

definition path_append :: "string \<Rightarrow> string \<Rightarrow> string" where
  "path_append p q =
     (if is_absolute q then q
      else if p = [] \<or> last p = slash then p @ q
      else p @ [slash] @ q)"

text \<open>
  \<open>lexically_normal\<close>: the names that remain, last first, and whether the last of them is followed by a
  separator.
\<close>

fun normal_step :: "bool \<Rightarrow> string \<Rightarrow> string list \<times> bool \<Rightarrow> string list \<times> bool" where
  "normal_step absolute part (names, dir) =
     (if part = ''.'' then (names, True)
      else if part = ''..'' then
        (case names of
           [] \<Rightarrow> if absolute then ([], True) else ([''..''], False)
         | n # ns \<Rightarrow> if n = ''..'' then (''..'' # names, False) else (ns, True))
      else (part # names, False))"

fun join_parts :: "string list \<Rightarrow> string" where
  "join_parts [] = []"
| "join_parts [p] = p"
| "join_parts (p # ps) = p @ [slash] @ join_parts ps"

definition normal_names :: "string \<Rightarrow> string list \<times> bool" where
  "normal_names p = fold (normal_step (is_absolute p)) (path_parts p) ([], False)"

definition lexically_normal :: "string \<Rightarrow> string" where
  "lexically_normal p =
     (if p = [] then []
      else case normal_names p of (names, dir) \<Rightarrow>
        if names = [] then (if is_absolute p then [slash] else ''.'')
        else (if is_absolute p then [slash] else []) @ join_parts (rev names) @
          (if (dir \<or> last p = slash) \<and> hd names \<noteq> ''..'' then [slash] else []))"

text \<open>\<open>extension\<close>: from the last dot of the file name, unless it is the first character.\<close>

definition file_name :: "string \<Rightarrow> string" where
  "file_name p = last (split_slash p)"

definition path_extension :: "string \<Rightarrow> string" where
  "path_extension p =
     (let f = file_name p; ext = rev (takeWhile (\<lambda>c. c \<noteq> CHR ''.'') (rev f))
      in if f = ''..'' \<or> CHR ''.'' \<notin> set f \<or> length f = Suc (length ext) then [] else CHR ''.'' # ext)"

text \<open>\<open>std::tolower\<close> in the default locale, on every character.\<close>

definition ascii_lower :: "string \<Rightarrow> string" where
  "ascii_lower s =
     map (\<lambda>c. if 65 \<le> (of_char c :: nat) \<and> (of_char c :: nat) \<le> 90 then char_of ((of_char c :: nat) + 32) else c) s"

section \<open>Parts of a path\<close>

lemma split_slash_neq_Nil [simp]: "split_slash s \<noteq> []"
  by (induction s) (auto split: list.splits)

lemma split_slash_append: "split_slash (a @ slash # b) = split_slash a @ split_slash b"
  by (induction a) (auto split: list.splits)

lemma split_slash_none: "slash \<notin> set p \<Longrightarrow> split_slash p = [p]"
  by (induction p) auto

lemma split_slash_part: "p \<in> set (split_slash s) \<Longrightarrow> slash \<notin> set p"
  by (induction s arbitrary: p) (auto split: if_splits list.splits)

lemma split_slash_sublist: "p \<in> set (split_slash s) \<Longrightarrow> sublist p s"
proof (induction s arbitrary: p)
  case (Cons c s)
  obtain q qs where q: "split_slash s = q # qs" by (cases "split_slash s") auto
  have "prefix q s"
  proof (cases "slash \<in> set s")
    case True
    then obtain a b where "s = a @ slash # b" "slash \<notin> set a" by (meson split_list_first)
    with q show ?thesis by (simp add: split_slash_append split_slash_none)
  next
    case False
    with q show ?thesis by (simp add: split_slash_none)
  qed
  with Cons q show ?case
    by (auto simp: sublist_Cons_right prefix_imp_sublist split: if_splits)
qed simp

lemma path_parts_append: "path_parts (a @ slash # b) = path_parts a @ path_parts b"
  by (simp add: path_parts_def split_slash_append)

lemma path_parts_Nil [simp]: "path_parts [] = []"
  by (simp add: path_parts_def)

lemma path_parts_slash: "path_parts (slash # b) = path_parts b"
  using path_parts_append [of "[]" b] by simp

lemma path_parts_good: "p \<in> set (path_parts s) \<Longrightarrow> p \<noteq> [] \<and> slash \<notin> set p"
  by (auto simp: path_parts_def dest: split_slash_part)

lemma path_parts_single: "p \<noteq> [] \<Longrightarrow> slash \<notin> set p \<Longrightarrow> path_parts p = [p]"
  by (simp add: path_parts_def split_slash_none)

lemma path_parts_join:
  "(\<And>p. p \<in> set ps \<Longrightarrow> p \<noteq> [] \<and> slash \<notin> set p) \<Longrightarrow> path_parts (join_parts ps) = ps"
  by (induction ps rule: join_parts.induct) (simp_all add: path_parts_append path_parts_single)

lemma path_parts_path_append:
  assumes "\<not> is_absolute q"
  shows "path_parts (path_append p q) = path_parts p @ path_parts q"
proof (cases "p = [] \<or> last p = slash")
  case True
  then show ?thesis
  proof (cases "p = []")
    case False
    with True obtain r where "p = r @ [slash]" by (metis append_butlast_last_id)
    then show ?thesis using assms by (simp add: path_append_def path_parts_append)
  qed (use assms in \<open>simp add: path_append_def\<close>)
next
  case False
  with assms show ?thesis by (simp add: path_append_def path_parts_append)
qed

section \<open>Normal forms\<close>

definition good_names :: "string list \<Rightarrow> bool" where
  "good_names ns \<longleftrightarrow> (\<forall>n \<in> set ns. n \<noteq> [] \<and> slash \<notin> set n)"

declare normal_step.simps [simp del]

lemma good_names_step: "good_names (p # ns) \<Longrightarrow> good_names (fst (normal_step a p (ns, d)))"
  by (cases "p = ''.''"; cases "p = ''..''"; cases ns) 
    (simp_all add: good_names_def normal_step.simps)

lemma good_names_fold:
  "good_names ps \<Longrightarrow> good_names ns \<Longrightarrow> good_names (fst (fold (normal_step a) ps (ns, d)))"
proof (induction ps arbitrary: ns d)
  case (Cons p ps)
  obtain ns' d' where s: "normal_step a p (ns, d) = (ns', d')" by fastforce
  from Cons.prems have "good_names (p # ns)" and ps: "good_names ps" by (simp_all add: good_names_def)
  from good_names_step [OF this(1), of a d] have "good_names ns'" unfolding s by simp
  from Cons.IH [OF ps this] show ?case unfolding fold.simps s o_apply .
qed simp

lemma good_names_normal: "good_names (fst (normal_names p))"
  unfolding normal_names_def by (rule good_names_fold) (auto simp: good_names_def dest: path_parts_good)

text \<open>Without \<open>..\<close> the names only grow.\<close>

lemma normal_step_plain:
  "p \<noteq> ''..'' \<Longrightarrow> normal_step a p (ns, d) = (if p = ''.'' then (ns, True) else (p # ns, False))"
  unfolding normal_step.simps by (simp only: if_False)

lemma fold_normal_step:
  "\<forall>p \<in> set ps. p \<noteq> ''..'' \<Longrightarrow> fst (fold (normal_step a) ps (ns, d)) = rev (filter (\<lambda>p. p \<noteq> ''.'') ps) @ ns"
  by (induction ps arbitrary: ns d) (simp_all add: normal_step_plain)

lemma normal_names_append:
  assumes "\<not> is_absolute q" and "\<not> sublist ''..'' q"
  shows "fst (normal_names (path_append p q)) =
    rev (filter (\<lambda>p. p \<noteq> ''.'') (path_parts q)) @ fst (normal_names p)"
proof -
  from assms(2) have "\<forall>p \<in> set (path_parts q). p \<noteq> ''..''"
    by (auto simp: path_parts_def dest: split_slash_sublist)
  moreover have "is_absolute (path_append p q) = is_absolute p"
    using assms(1) by (cases p) (auto simp: path_append_def is_absolute_def)
  moreover obtain ns d where "fold (normal_step (is_absolute p)) (path_parts p) ([], False) = (ns, d)" by fastforce
  ultimately show ?thesis
    by (simp add: normal_names_def path_parts_path_append [OF assms(1)] fold_normal_step)
qed

lemma is_absolute_join: "good_names ns \<Longrightarrow> ns \<noteq> [] \<Longrightarrow> \<not> is_absolute (join_parts ns @ s)"
  by (cases ns rule: join_parts.cases) (auto simp: good_names_def is_absolute_def neq_Nil_conv)

lemma is_absolute_normal: "is_absolute (lexically_normal p) = is_absolute p"
proof -
  obtain ns d where n: "normal_names p = (ns, d)" by fastforce
  with good_names_normal [of p] have "good_names (rev ns)" by (simp add: good_names_def)
  then show ?thesis
    using is_absolute_join [of "rev ns"] by (auto simp: lexically_normal_def n is_absolute_def)
qed

lemma path_parts_normal:
  "path_parts (lexically_normal p) = rev (fst (normal_names p)) \<or>
   fst (normal_names p) = [] \<and> path_parts (lexically_normal p) = [''.'']"
proof -
  obtain ns d where n: "normal_names p = (ns, d)" by fastforce
  with good_names_normal [of p] have "path_parts (join_parts (rev ns)) = rev ns"
    by (intro path_parts_join) (simp add: good_names_def)
  moreover have "path_parts (x @ [slash]) = path_parts x" for x using path_parts_append [of x "[]"] by simp
  moreover have "path_parts ''.'' = [''.'']" by (simp add: path_parts_single)
  moreover have "path_parts [slash] = []" by (simp add: path_parts_slash)
  moreover have "p = [] \<Longrightarrow> ns = []" using n by (simp add: normal_names_def)
  ultimately show ?thesis by (auto simp: lexically_normal_def n path_parts_slash)
qed

end
