(* ===== verification/Editor_Static.thy ===== *)
theory Editor_Static
  imports Fs_Path
begin

text \<open>
  The static files of the editor (\<open>static_content_type\<close>, \<open>editor_asset_path\<close> and
  \<open>static_file_response\<close> of \<open>src/cpipe/server/EditorServer.cpp\<close>). The file system is a parameter: the type of a path, where
  the query may throw, and the contents of a file that can be opened.
\<close>

section \<open>Static files\<close>

definition static_content_type :: "string \<Rightarrow> string" where
  "static_content_type path =
     (let e = path_extension path
      in if e = ''.html'' \<or> e = ''.htm'' then ''text/html; charset=utf-8''
         else if e = ''.js'' then ''text/javascript; charset=utf-8''
         else if e = ''.css'' then ''text/css; charset=utf-8''
         else if e = ''.json'' then ''application/json''
         else if e = ''.png'' then ''image/png''
         else if e = ''.webp'' then ''image/webp''
         else ''application/octet-stream'')"

datatype file_type = Regular | Directory | Other | NotFound

record file_system =
  fs_status :: "string \<Rightarrow> file_type option"
  fs_read :: "string \<Rightarrow> byte list option"

text \<open>\<open>Inl ()\<close>: the query of the file system throws. \<open>Inr None\<close>: \<open>std::nullopt\<close>.\<close>

definition query_type :: "file_system \<Rightarrow> string \<Rightarrow> unit + file_type" where
  "query_type fs p = (case fs_status fs p of None \<Rightarrow> Inl () | Some t \<Rightarrow> Inr t)"

definition editor_prefix :: string where
  "editor_prefix = ''/editor''"

definition relative_url :: "string \<Rightarrow> string" where
  "relative_url url =
     (let relative = drop (length editor_prefix) url
      in if relative = [] \<or> relative = ''/'' then ''/index.html'' else relative)"

definition editor_asset_path :: "file_system \<Rightarrow> string \<Rightarrow> string \<Rightarrow> unit + string option" where
  "editor_asset_path fs root url =
     (if \<not> prefix editor_prefix url then Inr None
      else
        let relative = relative_url url
        in if \<not> prefix ''/'' relative \<or> sublist ''..'' relative then Inr None
           else
             let path = lexically_normal (path_append root (drop 1 relative))
             in bind_res (query_type fs path) (\<lambda>t.
                let path = (if t = Directory then path_append path ''index.html'' else path)
                in bind_res (query_type fs path) (\<lambda>t.
                   Inr (if t \<noteq> Regular then None else Some path))))"

text \<open>A response: the status, the content type and the body; an error has a JSON body.\<close>

datatype static_response = Served string "byte list" | StaticNotFound

definition static_file_response :: "file_system \<Rightarrow> string \<Rightarrow> string \<Rightarrow> unit + static_response" where
  "static_file_response fs root url =
     bind_res (editor_asset_path fs root url) (\<lambda>path.
     case path of
       None \<Rightarrow> Inr StaticNotFound
     | Some path \<Rightarrow>
         (case fs_read fs path of
            None \<Rightarrow> Inr StaticNotFound
          | Some body \<Rightarrow> Inr (Served (static_content_type path) body)))"

section \<open>Confinement\<close>

text \<open>\<open>p\<close> lies below \<open>root\<close>, and no step of the rest of it goes up.\<close>

definition below :: "string \<Rightarrow> string \<Rightarrow> bool" where
  "below root p \<longleftrightarrow> is_absolute p = is_absolute root \<and>
     (\<exists>rest. path_parts p = rev (fst (normal_names root)) @ rest \<and> ''..'' \<notin> set rest)"

lemma below_normal:
  assumes "\<not> is_absolute q" and "\<not> sublist ''..'' q"
  shows "below root (lexically_normal (path_append root q))"
proof -
  let ?p = "path_append root q"
  have "is_absolute ?p = is_absolute root"
    using assms(1) by (cases root) (auto simp: path_append_def is_absolute_def)
  moreover have "''..'' \<notin> set (path_parts q)"
    using assms(2) by (auto simp: path_parts_def dest: split_slash_sublist)
  ultimately show ?thesis
    using path_parts_normal [of ?p] normal_names_append [OF assms, of root]
    by (auto simp: below_def is_absolute_normal)
qed

lemma below_index: "below root p \<Longrightarrow> below root (path_append p ''index.html'')"
proof -
  assume b: "below root p"
  have r: "\<not> is_absolute ''index.html''" by (simp add: is_absolute_def)
  have "is_absolute (path_append p ''index.html'') = is_absolute p"
    by (cases p) (auto simp: path_append_def is_absolute_def)
  with b show ?thesis
    by (auto simp: below_def path_parts_path_append [OF r] path_parts_single)
qed

text \<open>
  C24: A file that is served lies below the directory of the static files, whatever the URL, unless the
  URL goes on after \<open>/editor/\<close> with a second slash.
\<close>

theorem asset_confined:
  assumes "editor_asset_path fs root url = Inr (Some p)" and "\<not> prefix ''/editor//'' url"
  shows "below root p \<and> fs_status fs p = Some Regular"
proof -
  define path where "path = lexically_normal (path_append root (drop 1 (relative_url url)))"
  from assms(1) have pre: "prefix editor_prefix url"
    and rel: "prefix ''/'' (relative_url url)" "\<not> sublist ''..'' (relative_url url)"
    and p: "p = path \<or> p = path_append path ''index.html''" "fs_status fs p = Some Regular"
    by (auto simp: editor_asset_path_def Let_def path_def query_type_def bind_res_eq_Inr_iff
      split: if_splits option.splits)
  from rel(1) obtain q where q: "relative_url url = slash # q" by (auto simp: prefix_def)
  have "\<not> is_absolute q"
  proof
    assume "is_absolute q"
    then obtain r where "q = slash # r" by (cases q) (auto simp: is_absolute_def)
    with q have "drop (length editor_prefix) url = ''//'' @ r"
      by (auto simp: relative_url_def Let_def split: if_splits)
    with pre have "url = editor_prefix @ ''//'' @ r" by (auto simp: prefix_def)
    with assms(2) show False by (simp add: editor_prefix_def)
  qed
  moreover have "\<not> sublist ''..'' q" using rel(2) q by (simp add: sublist_Cons_right)
  ultimately have "below root path" by (simp add: path_def q below_normal)
  with p show ?thesis by (auto intro: below_index)
qed

text \<open>
  C25: With a second slash the directory of the static files has no effect: every regular file that
  the server can read is served, wherever it is, when its absolute path is in normal form and does not
  contain two adjacent dots (a file such as \<open>/tmp/a..b\<close> is refused).
\<close>

theorem asset_escapes:
  assumes "is_absolute f" and "\<not> sublist ''..'' f" and "lexically_normal f = f"
    and "fs_status fs f = Some Regular" and "fs_read fs f = Some body"
  shows "static_file_response fs root (''/editor/'' @ f) = Inr (Served (static_content_type f) body)"
proof -
  from assms(1) obtain g where f: "f = slash # g" by (cases f) (auto simp: is_absolute_def)
  have "\<not> sublist ''..'' (slash # f)" using assms(2) by (simp add: sublist_Cons_right)
  with assms f show ?thesis
    by (simp add: static_file_response_def editor_asset_path_def relative_url_def editor_prefix_def Let_def
      path_append_def query_type_def)
qed

text \<open>A system with a page of the editor and a password file.\<close>

definition demo_fs :: file_system where
  "demo_fs = \<lparr>fs_status = (\<lambda>p. Some (if p = ''/srv/www'' \<or> p = ''/srv/www/'' then Directory
       else if p = ''/srv/www/index.html'' \<or> p = ''/etc/passwd'' then Regular else NotFound)),
     fs_read = (\<lambda>p. if p = ''/etc/passwd'' then Some [114, 111, 111, 116] else Some [])\<rparr>"

theorem asset_confined_witness: "below ''/srv/./www'' ''/srv/www/index.html''"
proof -
  have "editor_asset_path demo_fs ''/srv/./www'' ''/editor/./'' = Inr (Some ''/srv/www/index.html'')"
    by code_simp
  then show ?thesis by (rule asset_confined [THEN conjunct1]) code_simp
qed

theorem asset_escapes_witness:
  "static_file_response demo_fs ''/srv/www'' ''/editor//etc/passwd'' =
     Inr (Served ''application/octet-stream'' [114, 111, 111, 116])"
proof -
  have 1: "is_absolute ''/etc/passwd''" by code_simp
  have 2: "\<not> sublist ''..'' ''/etc/passwd''" by code_simp
  have 3: "lexically_normal ''/etc/passwd'' = ''/etc/passwd''" by code_simp
  have 4: "static_content_type ''/etc/passwd'' = ''application/octet-stream''" by code_simp
  show ?thesis using asset_escapes [OF 1 2 3, of demo_fs "[114, 111, 111, 116]" "''/srv/www''"]
    by (simp add: demo_fs_def 4)
qed

end
