(* ===== verification/Text_Stream.thy ===== *)
theory Text_Stream
  imports Float_Bits
begin

text \<open>
  Extraction from a text stream (\<open>operator>>\<close> of \<open>std::istream\<close> in the default locale), used by the loader of
  3D tables and by the editor server. A stream is the text that is left; \<open>None\<close> is a failed extraction.
\<close>

section \<open>Words and integers\<close>

definition is_blank :: "char \<Rightarrow> bool" where
  "is_blank c \<longleftrightarrow> c \<in> {CHR 0x20, CHR 0x09, CHR 0x0A, CHR 0x0B, CHR 0x0C, CHR 0x0D}"

definition is_digit :: "char \<Rightarrow> bool" where
  "is_digit c \<longleftrightarrow> 48 \<le> (of_char c :: nat) \<and> (of_char c :: nat) \<le> 57"

definition digits_value :: "string \<Rightarrow> nat" where
  "digits_value ds = fold (\<lambda>c n. 10 * n + (of_char c - 48)) ds 0"

text \<open>A word is what is left up to the next blank.\<close>

definition read_word :: "string \<Rightarrow> (string \<times> string) option" where
  "read_word s =
     (let s = dropWhile is_blank s; w = takeWhile (\<lambda>c. \<not> is_blank c) s
      in if w = [] then None else Some (w, drop (length w) s))"

definition read_sign :: "string \<Rightarrow> bool \<times> string" where
  "read_sign s =
     (case s of [] \<Rightarrow> (False, [])
      | c # cs \<Rightarrow> if c = CHR ''-'' then (True, cs) else if c = CHR ''+'' then (False, cs) else (False, s))"

text \<open>A 32-bit signed number; a number out of range fails.\<close>

definition read_i32 :: "string \<Rightarrow> (int \<times> string) option" where
  "read_i32 s =
     (let (negative, s) = read_sign (dropWhile is_blank s); ds = takeWhile is_digit s;
          n = (if negative then - int (digits_value ds) else int (digits_value ds))
      in if ds = [] \<or> n < - (2 ^ 31) \<or> n \<ge> 2 ^ 31 then None else Some (n, drop (length ds) s))"

text \<open>A 64-bit unsigned number; a minus sign negates modulo \<open>2 ^ 64\<close>.\<close>

definition stream_u64 :: "string \<Rightarrow> (u64 \<times> string) option" where
  "stream_u64 s =
     (let (negative, s) = read_sign (dropWhile is_blank s); ds = takeWhile is_digit s; n = digits_value ds
      in if ds = [] \<or> n \<ge> 2 ^ 64 then None
         else Some (if negative then - of_nat n else of_nat n, drop (length ds) s))"

section \<open>Floating point numbers\<close>

text \<open>
  The characters of a number: sign, digits, a point and digits, and an exponent, which needs a digit before
  the letter and one after it. The value is \<open>\<plusminus> digits * 10 ^ exponent\<close>, as sign, numerator and denominator.
\<close>

definition read_fraction :: "string \<Rightarrow> string \<times> string" where
  "read_fraction s =
     (case s of [] \<Rightarrow> ([], [])
      | c # cs \<Rightarrow> if c = CHR ''.'' then (takeWhile is_digit cs, dropWhile is_digit cs) else ([], s))"

definition read_exponent :: "string \<Rightarrow> ((bool \<times> nat) \<times> string) option" where
  "read_exponent s =
     (case s of [] \<Rightarrow> Some ((False, 0), [])
      | c # cs \<Rightarrow>
          if c \<noteq> CHR ''e'' \<and> c \<noteq> CHR ''E'' then Some ((False, 0), s)
          else
            let (below, cs) = read_sign cs; ds = takeWhile is_digit cs
            in if ds = [] then None else Some ((below, digits_value ds), dropWhile is_digit cs))"

definition read_decimal :: "string \<Rightarrow> ((bool \<times> int \<times> int) \<times> string) option" where
  "read_decimal s =
     (let (negative, s) = read_sign (dropWhile is_blank s);
          whole = takeWhile is_digit s;
          (fraction, s) = read_fraction (dropWhile is_digit s);
          n = int (digits_value (whole @ fraction)); places = length fraction
      in if whole @ fraction = [] then None
         else
           (case read_exponent s of
              None \<Rightarrow> None
            | Some ((below, e), rest) \<Rightarrow>
                Some (if below then (negative, n, 10 ^ (places + e)) else (negative, n * 10 ^ e, 10 ^ places), rest)))"

text \<open>A single, rounded to nearest; a value that rounds to infinity fails.\<close>

definition read_f32 :: "string \<Rightarrow> (f32 \<times> string) option" where
  "read_f32 s =
     (case read_decimal s of
        None \<Rightarrow> None
      | Some ((negative, n, d), rest) \<Rightarrow>
          if f32_round negative n d = f32_inf negative then None else Some (f32_round negative n d, rest))"

text \<open>Whether a double can be extracted: the text is a number below the rounding threshold of infinity.\<close>

definition skip_f64 :: "string \<Rightarrow> string option" where
  "skip_f64 s =
     (case read_decimal s of
        None \<Rightarrow> None
      | Some ((negative, n, d), rest) \<Rightarrow> if n \<ge> d * (2 ^ 1024 - 2 ^ 970) then None else Some rest)"

section \<open>Lines\<close>

text \<open>\<open>std::getline\<close>: a line that ends the text without a line break counts, an empty rest does not.\<close>

fun text_lines :: "string \<Rightarrow> string list" where
  "text_lines [] = []"
| "text_lines (c # s) =
     (if c = CHR 0x0A then [] # text_lines s
      else if s = [] then [[c]]
      else if hd s = CHR 0x0A then [c] # text_lines (tl s)
      else (case text_lines s of [] \<Rightarrow> [[c]] | l # ls \<Rightarrow> (c # l) # ls))"

section \<open>Decimal numerals\<close>

text \<open>A decimal numeral is read back as the number.\<close>

lemma digits_value_append: "digits_value (ds @ [c]) = 10 * digits_value ds + (of_char c - 48)"
  by (simp add: digits_value_def)

lemma digits_value_nat_to_string: "digits_value (nat_to_string n) = n"
proof (induction n rule: nat_to_string.induct)
  case (1 n)
  show ?case
  proof (cases "n < 10")
    case True
    then show ?thesis by (subst nat_to_string.simps) (simp add: digits_value_def of_char_digit)
  next
    case False
    with 1 show ?thesis by (subst nat_to_string.simps) (simp add: digits_value_append of_char_digit)
  qed
qed

lemma stream_u64_nat_to_string:
  assumes "n < 2 ^ 64"
  shows "stream_u64 (nat_to_string n) = Some (of_nat n, [])"
proof -
  have digit: "is_digit c" if "c \<in> set (nat_to_string n)" for c
    using set_nat_to_string [OF that] by (simp add: is_digit_def)
  obtain c cs where c: "nat_to_string n = c # cs" using nat_to_string_neq_Nil by (cases "nat_to_string n") auto
  then have "\<not> is_blank c" and "c \<noteq> CHR ''-''" and "c \<noteq> CHR ''+''"
    using digit [of c] by (auto simp: is_digit_def is_blank_def)
  moreover have "takeWhile is_digit (c # cs) = c # cs"
    using digit unfolding c [symmetric] by (simp add: takeWhile_eq_all_conv)
  ultimately show ?thesis
    using assms digits_value_nat_to_string [of n] by (simp add: stream_u64_def read_sign_def Let_def c)
qed

end
