(* ===== verification/Editor_Server.thy ===== *)
theory Editor_Server
  imports Host_Context Editor_Protocol Editor_Static Text_Stream "HOL-Library.AList"
begin

text \<open>
  The session of the editor server (\<open>src/cpipe/server/EditorServer.cpp\<close>): the active pipeline, the run
  records, the connected clients and their thumbnail subscriptions, the operations on them, and the
  request and message handlers. All handlers run on the thread of the event loop, one after the other,
  so a server is a sequence of handler calls.

  The JSON library, the WebP encoder and the sockets are third-party code. The accessors and
  constructors of JSON values are parameters, the encoder is a parameter, and a message sent to a
  client is part of the result of a handler. An exception that leaves a handler ends the event loop.
\<close>

section \<open>Parameters\<close>

record 'j editor_api = "'j param_api" +
  js_is_object :: "'j \<Rightarrow> bool"
  js_is_null :: "'j \<Rightarrow> bool"
  js_null :: "'j"
  js_bool :: "bool \<Rightarrow> 'j"
  js_string :: "string \<Rightarrow> 'j"
  js_u64 :: "u64 \<Rightarrow> 'j"
  js_make_object :: "(string \<times> 'j) list \<Rightarrow> 'j"
  js_make_array :: "'j list \<Rightarrow> 'j"
  js_dump :: "'j \<Rightarrow> byte list option"
  js_assign_nested :: "'j \<Rightarrow> string \<Rightarrow> string \<Rightarrow> 'j \<Rightarrow> 'j option"
  js_with_elements :: "'j \<Rightarrow> string \<Rightarrow> 'j list \<Rightarrow> 'j"

text \<open>
  \<open>js_assign_nested d k1 k2 v\<close> is the value after \<open>d[k1][k2] = v\<close>, and \<open>js_with_elements d k es\<close> the value
  after the elements of \<open>d.at(k)\<close> have been updated in place to \<open>es\<close>. \<open>js_dump\<close> is \<open>None\<close> when \<open>dump\<close>
  throws because a string of the value is not valid UTF-8; \<open>dump_law\<close> is the documented behaviour.
\<close>

definition utf8_tail :: "nat \<Rightarrow> bool" where
  "utf8_tail c \<longleftrightarrow> 0x80 \<le> c \<and> c \<le> 0xBF"

fun utf8_bytes :: "nat list \<Rightarrow> bool" where
  "utf8_bytes [] = True"
| "utf8_bytes (b # bs) =
     (if b \<le> 0x7F then utf8_bytes bs
      else if 0xC2 \<le> b \<and> b \<le> 0xDF
      then (case bs of c # cs \<Rightarrow> utf8_tail c \<and> utf8_bytes cs | _ \<Rightarrow> False)
      else if 0xE0 \<le> b \<and> b \<le> 0xEF
      then (case bs of c # d # cs \<Rightarrow> utf8_tail c \<and> utf8_tail d \<and> (b = 0xE0 \<longrightarrow> 0xA0 \<le> c) \<and>
          (b = 0xED \<longrightarrow> c \<le> 0x9F) \<and> utf8_bytes cs | _ \<Rightarrow> False)
      else if 0xF0 \<le> b \<and> b \<le> 0xF4
      then (case bs of c # d # e # cs \<Rightarrow> utf8_tail c \<and> utf8_tail d \<and> utf8_tail e \<and> (b = 0xF0 \<longrightarrow> 0x90 \<le> c) \<and>
          (b = 0xF4 \<longrightarrow> c \<le> 0x8F) \<and> utf8_bytes cs | _ \<Rightarrow> False)
      else False)"

definition utf8_valid :: "string \<Rightarrow> bool" where
  "utf8_valid s = utf8_bytes (map of_char s)"

definition dump_law :: "('j, 'x) editor_api_scheme \<Rightarrow> bool" where
  "dump_law J \<longleftrightarrow>
     (\<forall>s. js_dump J (js_string J s) = None \<longleftrightarrow> \<not> utf8_valid s) \<and>
     (\<forall>b. js_dump J (js_bool J b) \<noteq> None) \<and> (\<forall>n. js_dump J (js_u64 J n) \<noteq> None) \<and>
     (\<forall>js. js_dump J (js_make_array J js) = None \<longleftrightarrow> (\<exists>j \<in> set js. js_dump J j = None)) \<and>
     (\<forall>kvs. distinct (map fst kvs) \<longrightarrow> (js_dump J (js_make_object J kvs) = None \<longleftrightarrow>
        (\<exists>(k, v) \<in> set kvs. \<not> utf8_valid k \<or> js_dump J v = None)))"

section \<open>State\<close>

type_synonym client = nat

record 'j run_entry =
  rr_status :: string
  rr_output_paths :: 'j

record thumbnail_subscription =
  ts_node_id :: string
  ts_port :: string
  ts_max_size :: u32
  ts_fps :: u32

record 'j session =
  se_pipeline :: 'j
  se_next_run_id :: u64
  se_runs :: "(u64 \<times> 'j run_entry) list"
  se_clients :: "client list"
  se_subscriptions :: "(client \<times> thumbnail_subscription) list"
  se_last_emit :: "(string \<times> nat) list"

definition new_session :: "('j, 'x) editor_api_scheme \<Rightarrow> 'j session" where
  "new_session J = \<lparr>se_pipeline = js_null J, se_next_run_id = 1, se_runs = [], se_clients = [],
     se_subscriptions = [], se_last_emit = []\<rparr>"

text \<open>A message on its way to a client.\<close>

type_synonym outgoing = "(client \<times> byte list) list"

section \<open>Operations on the session\<close>

text \<open>
  An operation that reports an error returns its status and message; an exception of the JSON library
  is \<open>Inl Thrown\<close>. \<open>std::unordered_map\<close> is an association list; \<open>emplace\<close> keeps an entry that exists.
\<close>

definition replace_active_pipeline ::
  "('j, 'x) editor_api_scheme \<Rightarrow> 'j \<Rightarrow> 'j session \<Rightarrow> stop + 'j session" where
  "replace_active_pipeline J pipeline s =
     (let bad = Inl (Returned BadIndex ''expected pipeline-v0.4 JSON object'')
      in if \<not> js_is_object J pipeline then bad
         else bind_res (or_throw (js_value_string J pipeline ''version'' [])) (\<lambda>version.
           if version \<noteq> ''0.4'' \<or> \<not> js_contains J pipeline ''nodes'' \<or> \<not> js_contains J pipeline ''edges''
           then bad
           else Inr (s\<lparr>se_pipeline := pipeline, se_runs := [], se_next_run_id := 1, se_last_emit := []\<rparr>)))"

definition set_active_pipeline ::
  "('j, 'x) editor_api_scheme \<Rightarrow> 'j \<Rightarrow> 'j session \<Rightarrow> stop + 'j session" where
  "set_active_pipeline J pipeline s = replace_active_pipeline J pipeline s"

text \<open>The loop over the nodes: the first node with the identifier is updated, the others stay.\<close>

fun update_node ::
  "('j, 'x) editor_api_scheme \<Rightarrow> string \<Rightarrow> string \<Rightarrow> 'j option \<Rightarrow> 'j list \<Rightarrow> stop + 'j list option" where
  "update_node J nid key v [] = Inr None"
| "update_node J nid key v (n # ns) =
     bind_res (or_throw (js_value_string J n ''id'' [])) (\<lambda>i.
       if i \<noteq> nid
       then bind_res (update_node J nid key v ns) (\<lambda>r. Inr (map_option (Cons n) r))
       else
         bind_res (or_throw v) (\<lambda>x.
         bind_res (or_throw (js_assign_nested J n ''params'' key x)) (\<lambda>n'. Inr (Some (n' # ns)))))"

definition apply_param_delta ::
  "('j, 'x) editor_api_scheme \<Rightarrow> 'j \<Rightarrow> 'j session \<Rightarrow> stop + 'j session" where
  "apply_param_delta J delta s =
     (if \<not> js_is_object J delta \<or> \<not> js_contains J delta ''node_id'' \<or> \<not> js_contains J delta ''key'' \<or>
         \<not> js_contains J delta ''value''
      then Inl (Returned BadIndex ''expected {node_id,key,value}'')
      else
        bind_res (or_throw (Option.bind (js_at J delta ''node_id'') (js_get_string J))) (\<lambda>nid.
        bind_res (or_throw (Option.bind (js_at J delta ''key'') (js_get_string J))) (\<lambda>key.
        if js_is_null J (se_pipeline s) then Inl (Returned BadIndex ''no active pipeline'')
        else
          bind_res (or_throw (js_at J (se_pipeline s) ''nodes'')) (\<lambda>nodes.
          bind_res (update_node J nid key (js_at J delta ''value'') (js_elements J nodes)) (\<lambda>r.
          case r of
            None \<Rightarrow> Inl (Returned BadIndex (''node not found: '' @ nid))
          | Some ns \<Rightarrow> Inr (s\<lparr>se_pipeline := js_with_elements J (se_pipeline s) ''nodes'' ns\<rparr>))))))"

definition run_json :: "('j, 'x) editor_api_scheme \<Rightarrow> u64 \<Rightarrow> 'j run_entry \<Rightarrow> 'j" where
  "run_json J run_id r = js_make_object J [(''run_id'', js_u64 J run_id),
     (''status'', js_string J (rr_status r)), (''output_paths'', rr_output_paths r)]"

definition emplace :: "'k \<Rightarrow> 'v \<Rightarrow> ('k \<times> 'v) list \<Rightarrow> ('k \<times> 'v) list" where
  "emplace k v m = (if map_of m k = None then m @ [(k, v)] else m)"

definition create_run_record ::
  "('j, 'x) editor_api_scheme \<Rightarrow> 'j session \<Rightarrow> u64 \<times> 'j \<times> 'j session" where
  "create_run_record J s =
     (let run_id = se_next_run_id s; r = \<lparr>rr_status = ''completed'', rr_output_paths = js_make_array J []\<rparr>
      in (run_id, run_json J run_id r,
          s\<lparr>se_next_run_id := run_id + 1, se_runs := emplace run_id r (se_runs s)\<rparr>))"

definition run_record :: "('j, 'x) editor_api_scheme \<Rightarrow> u64 \<Rightarrow> 'j session \<Rightarrow> 'j option" where
  "run_record J run_id s = map_option (run_json J run_id) (map_of (se_runs s) run_id)"

definition profile_node :: "('j, 'x) editor_api_scheme \<Rightarrow> 'j \<Rightarrow> stop + 'j" where
  "profile_node J node =
     bind_res (or_throw (js_value_string J node ''id'' [])) (\<lambda>i.
     Inr (js_make_object J [(''node_id'', js_string J i), (''start_ms'', js_u64 J 0), (''end_ms'', js_u64 J 0),
       (''ms'', js_u64 J 0), (''peak_mem_kb'', js_u64 J 0), (''mem_kb'', js_u64 J 0), (''device'', js_string J ''cpu'')]))"

definition profile_payload :: "('j, 'x) editor_api_scheme \<Rightarrow> u64 \<Rightarrow> 'j session \<Rightarrow> stop + 'j" where
  "profile_payload J run_id s =
     bind_res (if js_is_object J (se_pipeline s) \<and> js_contains J (se_pipeline s) ''nodes''
       then bind_res (or_throw (js_at J (se_pipeline s) ''nodes'')) (\<lambda>nodes.
         map_res (profile_node J) (js_elements J nodes))
       else Inr []) (\<lambda>nodes.
     Inr (js_make_object J [(''type'', js_string J ''pipeline.profile''), (''run_id'', js_u64 J run_id),
       (''nodes'', js_make_array J nodes)]))"

text \<open>\<open>std::clamp\<close> on unsigned numbers.\<close>

definition clamp_u32 :: "u32 \<Rightarrow> u32 \<Rightarrow> u32 \<Rightarrow> u32" where
  "clamp_u32 v lo hi = (if v < lo then lo else if hi < v then hi else v)"

definition apply_thumbnail_control ::
  "('j, 'x) editor_api_scheme \<Rightarrow> client \<Rightarrow> 'j \<Rightarrow> 'j session \<Rightarrow> stop + 'j session" where
  "apply_thumbnail_control J c payload s =
     bind_res (or_throw (js_value_string J payload ''type'' [])) (\<lambda>type.
     if type = ''node.unsubscribe_thumbnail''
     then Inr (s\<lparr>se_subscriptions := AList.delete c (se_subscriptions s)\<rparr>)
     else if type \<noteq> ''node.subscribe_thumbnail'' \<or> \<not> js_contains J payload ''node_id'' \<or>
        \<not> js_contains J payload ''port''
     then Inl (Returned BadIndex ''expected thumbnail subscribe/unsubscribe control'')
     else
       bind_res (or_throw (Option.bind (js_at J payload ''node_id'') (js_get_string J))) (\<lambda>nid.
       bind_res (or_throw (Option.bind (js_at J payload ''port'') (js_get_string J))) (\<lambda>port.
       bind_res (or_throw (js_value_u32 J payload ''max_size'' 256)) (\<lambda>max_size.
       bind_res (or_throw (js_value_u32 J payload ''fps'' 5)) (\<lambda>fps.
       Inr (s\<lparr>se_subscriptions := AList.update c
         \<lparr>ts_node_id = nid, ts_port = port, ts_max_size = clamp_u32 max_size 1 256,
          ts_fps = clamp_u32 fps 1 60\<rparr> (se_subscriptions s)\<rparr>))))))"

section \<open>Thumbnails\<close>

text \<open>
  \<open>ThumbnailEncoder.cpp\<close>: the placeholder image in 32-bit unsigned arithmetic, row by row, four bytes per
  pixel. The WebP encoder gets the pixels and the size and gives no bytes when it fails.
\<close>

definition placeholder_pixel :: "u32 \<Rightarrow> u32 \<Rightarrow> u32 \<Rightarrow> byte list" where
  "placeholder_pixel n x y =
     [ucast (x * 255 div n), ucast (y * 255 div n), ucast (xor x y * 255 div n), 255]"

definition placeholder_image :: "u32 \<Rightarrow> byte list" where
  "placeholder_image n =
     concat (map (\<lambda>y. concat (map (\<lambda>x. placeholder_pixel n (of_nat x) (of_nat y)) [0..<unat n])) [0..<unat n])"

type_synonym webp_encoder = "byte list \<Rightarrow> u32 \<Rightarrow> byte list"

definition encode_placeholder_thumbnail_webp :: "webp_encoder \<Rightarrow> u32 \<Rightarrow> byte list" where
  "encode_placeholder_thumbnail_webp webp max_size =
     (let n = clamp_u32 max_size 1 256 in webp (placeholder_image n) n)"

definition thumbnail_key :: "string \<Rightarrow> string \<Rightarrow> string" where
  "thumbnail_key nid port = nid @ [CHR 0x0A] @ port"

type_synonym target = "client \<times> thumbnail_subscription"

definition group_targets ::
  "client list \<Rightarrow> (client \<times> thumbnail_subscription) list \<Rightarrow> (string \<times> target list) list" where
  "group_targets clients subs =
     fold (\<lambda>(c, sub) groups.
         if c \<notin> set clients then groups
         else
           let key = thumbnail_key (ts_node_id sub) (ts_port sub);
               targets = (case map_of groups key of None \<Rightarrow> [] | Some ts \<Rightarrow> ts)
           in AList.update key (targets @ [(c, sub)]) groups)
       subs []"

text \<open>The largest value of a field, as \<open>std::max_element\<close> finds it.\<close>

fun max_field :: "(thumbnail_subscription \<Rightarrow> u32) \<Rightarrow> target list \<Rightarrow> u32" where
  "max_field f [] = 0"
| "max_field f (t # ts) = fold (\<lambda>(c, sub) m. if m < f sub then f sub else m) ts (f (snd t))"

definition effective_fps :: "target list \<Rightarrow> u32" where
  "effective_fps targets = (if length targets > 4 then 2 else max_field ts_fps targets)"

text \<open>
  One group: \<open>None\<close> is a division by zero. Times are nanoseconds of the steady clock, the interval is a
  whole number of milliseconds.
\<close>

definition push_group ::
  "webp_encoder \<Rightarrow> nat \<Rightarrow> string \<times> target list \<Rightarrow> (string \<times> nat) list \<times> outgoing \<Rightarrow>
     ((string \<times> nat) list \<times> outgoing) option" where
  "push_group webp now grp st =
     (case (grp, st) of ((key, targets), (last_emit, out)) \<Rightarrow>
        if targets = [] then Some (last_emit, out)
        else if effective_fps targets = 0 then None
        else
          let interval = unat (1000 div effective_fps targets) * 1000000
          in if (case map_of last_emit key of None \<Rightarrow> False | Some prev \<Rightarrow> now - prev < interval)
             then Some (last_emit, out)
             else
               let last_emit = AList.update key now last_emit;
                   thumbnail = encode_placeholder_thumbnail_webp webp (max_field ts_max_size targets)
               in if thumbnail = [] then Some (last_emit, out)
                  else Some (last_emit,
                    out @ map (\<lambda>t. (fst t, encode_frame FThumbnail 0 0 thumbnail)) targets))"

fun push_groups ::
  "webp_encoder \<Rightarrow> nat \<Rightarrow> (string \<times> target list) list \<Rightarrow> (string \<times> nat) list \<times> outgoing \<Rightarrow>
     ((string \<times> nat) list \<times> outgoing) option" where
  "push_groups webp now [] st = Some st"
| "push_groups webp now (g # gs) st = Option.bind (push_group webp now g st) (push_groups webp now gs)"

definition push_thumbnail_frames ::
  "webp_encoder \<Rightarrow> nat \<Rightarrow> 'j session \<Rightarrow> (outgoing \<times> 'j session) option" where
  "push_thumbnail_frames webp now s =
     map_option (\<lambda>(last_emit, out). (out, s\<lparr>se_last_emit := last_emit\<rparr>))
       (push_groups webp now (group_targets (se_clients s) (se_subscriptions s)) (se_last_emit s, []))"

definition broadcast_json_frame ::
  "('j, 'x) editor_api_scheme \<Rightarrow> frame_type \<Rightarrow> 'j \<Rightarrow> 'j session \<Rightarrow> stop + outgoing" where
  "broadcast_json_frame J type payload s =
     bind_res (or_throw (js_dump J payload)) (\<lambda>bytes.
     Inr (map (\<lambda>c. (c, encode_frame type 0 0 bytes)) (se_clients s)))"

definition log_payload :: "('j, 'x) editor_api_scheme \<Rightarrow> u64 \<Rightarrow> 'j" where
  "log_payload J run_id = js_make_object J [(''level'', js_string J ''info''),
     (''message'', js_string J ''event=pipeline_run status=completed''), (''run_id'', js_u64 J run_id)]"

text \<open>An exception outside every \<open>try\<close> block leaves the callback of the loop.\<close>

definition uncaught :: "stop + 'a \<Rightarrow> 'a option" where
  "uncaught r = (case r of Inl _ \<Rightarrow> None | Inr x \<Rightarrow> Some x)"

lemma uncaught_simps [simp]: "uncaught (Inl e) = None" "uncaught (Inr x) = Some x"
  by (simp_all add: uncaught_def)

lemma uncaught_eq [simp]: "uncaught r = Some x \<longleftrightarrow> r = Inr x" "uncaught r = None \<longleftrightarrow> isl r"
  by (cases r; simp)+

text \<open>\<open>None\<close>: the division by zero above, or an exception that leaves the callback.\<close>

definition emit_completed_run ::
  "('j, 'x) editor_api_scheme \<Rightarrow> webp_encoder \<Rightarrow> nat \<Rightarrow> 'j session \<Rightarrow> ('j \<times> outgoing \<times> 'j session) option" where
  "emit_completed_run J webp now s =
     (case create_run_record J s of (run_id, record, s) \<Rightarrow>
      Option.bind (push_thumbnail_frames webp now s) (\<lambda>(thumbs, s).
      uncaught (
        bind_res (profile_payload J run_id s) (\<lambda>profile.
        bind_res (broadcast_json_frame J FProfile profile s) (\<lambda>profiles.
        bind_res (broadcast_json_frame J FLog (log_payload J run_id) s) (\<lambda>logs.
        Inr (record, thumbs @ profiles @ logs, s)))))))"

section \<open>Handlers\<close>

text \<open>
  A response is a status line and the text of a JSON body. \<open>what\<close> is the text of the exception that a \<open>try\<close>
  block of a handler catches.
\<close>

type_synonym response = "string \<times> byte list"

definition json_response :: "('j, 'x) editor_api_scheme \<Rightarrow> 'j \<Rightarrow> string \<Rightarrow> stop + response" where
  "json_response J body status = bind_res (or_throw (js_dump J body)) (\<lambda>text. Inr (status, text))"

definition json_ok :: "('j, 'x) editor_api_scheme \<Rightarrow> 'j \<Rightarrow> 'j" where
  "json_ok J data = js_make_object J [(''ok'', js_bool J True), (''data'', data)]"

definition error_envelope :: "('j, 'x) editor_api_scheme \<Rightarrow> string \<Rightarrow> string \<Rightarrow> 'j" where
  "error_envelope J code message = js_make_object J [(''ok'', js_bool J False),
     (''error'', js_make_object J [(''code'', js_string J code), (''message'', js_string J message)])]"

text \<open>
  The two handlers that parse a body and change the session: the \<open>try\<close> block, with the session as it is
  when the block ends, and the whole handler, whose \<open>catch\<close> block sends the text of the exception. What it
  sends has to be dumped too, and an exception of that dump leaves the handler.
\<close>

definition put_active_try ::
  "('j, 'x) editor_api_scheme \<Rightarrow> string \<Rightarrow> 'j session \<Rightarrow> (stop + response) \<times> 'j session" where
  "put_active_try J body s =
     (case js_parse J body of
        None \<Rightarrow> (Inl Thrown, s)
      | Some document \<Rightarrow>
          (case replace_active_pipeline J document s of
             Inr s' \<Rightarrow> (json_response J (json_ok J (js_make_object J [(''pipeline'', document)])) ''200 OK'', s')
           | Inl (Returned code message) \<Rightarrow>
               (json_response J (error_envelope J ''bad_pipeline'' message) ''400 Bad Request'', s)
           | Inl e \<Rightarrow> (Inl e, s)))"

definition post_params_try ::
  "('j, 'x) editor_api_scheme \<Rightarrow> string \<Rightarrow> 'j session \<Rightarrow> (stop + response) \<times> 'j session" where
  "post_params_try J body s =
     (case js_parse J body of
        None \<Rightarrow> (Inl Thrown, s)
      | Some document \<Rightarrow>
          (case apply_param_delta J document s of
             Inr s' \<Rightarrow> (json_response J (json_ok J (js_make_object J [(''applied'', js_bool J True)])) ''200 OK'', s')
           | Inl (Returned code message) \<Rightarrow>
               (json_response J (error_envelope J ''bad_param_delta'' message) ''400 Bad Request'', s)
           | Inl e \<Rightarrow> (Inl e, s)))"

definition answer_exception ::
  "('j, 'x) editor_api_scheme \<Rightarrow> string \<Rightarrow> (stop + response) \<times> 'j session \<Rightarrow> (response \<times> 'j session) option" where
  "answer_exception J what result =
     (case result of
        (Inr response, s) \<Rightarrow> Some (response, s)
      | (Inl _, s) \<Rightarrow> map_option (\<lambda>response. (response, s))
          (uncaught (json_response J (error_envelope J ''bad_json'' what) ''400 Bad Request'')))"

definition put_active_pipeline ::
  "('j, 'x) editor_api_scheme \<Rightarrow> string \<Rightarrow> string \<Rightarrow> 'j session \<Rightarrow> (response \<times> 'j session) option" where
  "put_active_pipeline J what body s = answer_exception J what (put_active_try J body s)"

definition post_params ::
  "('j, 'x) editor_api_scheme \<Rightarrow> string \<Rightarrow> string \<Rightarrow> 'j session \<Rightarrow> (response \<times> 'j session) option" where
  "post_params J what body s = answer_exception J what (post_params_try J body s)"

text \<open>The other handlers have no \<open>try\<close> block.\<close>

definition get_active_pipeline :: "('j, 'x) editor_api_scheme \<Rightarrow> 'j session \<Rightarrow> stop + response" where
  "get_active_pipeline J s =
     (if js_is_null J (se_pipeline s)
      then json_response J (error_envelope J ''not_found'' ''no active pipeline'') ''404 Not Found''
      else json_response J (json_ok J (js_make_object J [(''pipeline'', se_pipeline s)])) ''200 OK'')"

text \<open>The registry of node classes is an argument; a null pointer is \<open>None\<close>.\<close>

type_synonym node_registry = "unit plugin_desc option list option"

definition registry_node :: "('j, 'x) editor_api_scheme \<Rightarrow> unit plugin_desc option \<Rightarrow> stop + 'j list" where
  "registry_node J desc =
     (case desc of
        None \<Rightarrow> Inr []
      | Some d \<Rightarrow>
          (case (node_id d, manifest_json d) of
             (Some i, Some manifest) \<Rightarrow>
               bind_res (or_throw (js_parse J manifest)) (\<lambda>document.
               Inr [js_make_object J [(''id'', js_string J i), (''manifest'', document)]])
           | _ \<Rightarrow> Inr []))"

definition registry_nodes :: "('j, 'x) editor_api_scheme \<Rightarrow> node_registry \<Rightarrow> stop + 'j" where
  "registry_nodes J registry =
     bind_res (case registry of None \<Rightarrow> Inr [] | Some descs \<Rightarrow> map_res (registry_node J) descs) (\<lambda>nodes.
     Inr (js_make_object J [(''nodes'', js_make_array J (concat nodes))]))"

definition get_registry :: "('j, 'x) editor_api_scheme \<Rightarrow> node_registry \<Rightarrow> stop + response" where
  "get_registry J registry =
     bind_res (registry_nodes J registry) (\<lambda>nodes. json_response J (json_ok J nodes) ''200 OK'')"

text \<open>A static file is sent as it is; the answer for a missing one is a JSON text.\<close>

definition get_static ::
  "('j, 'x) editor_api_scheme \<Rightarrow> file_system \<Rightarrow> string \<Rightarrow> string \<Rightarrow> stop + byte list" where
  "get_static J fs editor_static url =
     (case static_file_response fs editor_static url of
        Inl _ \<Rightarrow> Inl Thrown
      | Inr (Served content_type body) \<Rightarrow> Inr body
      | Inr StaticNotFound \<Rightarrow>
          bind_res (json_response J (error_envelope J ''not_found'' ''static asset not found'') ''404 Not Found'')
            (\<lambda>(status, text). Inr text))"

definition post_run ::
  "('j, 'x) editor_api_scheme \<Rightarrow> webp_encoder \<Rightarrow> nat \<Rightarrow> 'j session \<Rightarrow> (response \<times> outgoing \<times> 'j session) option" where
  "post_run J webp now s =
     Option.bind (emit_completed_run J webp now s) (\<lambda>(record, out, s).
     map_option (\<lambda>response. (response, out, s)) (uncaught (json_response J (json_ok J record) ''200 OK'')))"

definition runs_prefix :: string where
  "runs_prefix = ''/api/pipelines/active/runs/''"

definition parse_run_id :: "string \<Rightarrow> u64 option" where
  "parse_run_id url =
     (if take (length runs_prefix) url \<noteq> runs_prefix then None
      else (case stream_u64 (drop (length runs_prefix) url) of
          None \<Rightarrow> None
        | Some (value, rest) \<Rightarrow> if rest \<noteq> [] then None else Some value))"

definition get_run :: "('j, 'x) editor_api_scheme \<Rightarrow> string \<Rightarrow> 'j session \<Rightarrow> stop + response" where
  "get_run J url s =
     (case parse_run_id url of
        None \<Rightarrow> json_response J (error_envelope J ''bad_run_id'' ''invalid run id'') ''400 Bad Request''
      | Some run_id \<Rightarrow>
          (case run_record J run_id s of
             None \<Rightarrow> json_response J (error_envelope J ''not_found'' ''run id not found'') ''404 Not Found''
           | Some record \<Rightarrow> json_response J (json_ok J record) ''200 OK''))"

definition ack_frame :: "('j, 'x) editor_api_scheme \<Rightarrow> (string \<times> 'j) list \<Rightarrow> stop + byte list" where
  "ack_frame J kvs =
     bind_res (or_throw (js_dump J (js_make_object J kvs))) (\<lambda>text. Inr (encode_frame FAck 0 0 text))"

definition ack_error :: "('j, 'x) editor_api_scheme \<Rightarrow> string \<Rightarrow> stop + byte list" where
  "ack_error J message = ack_frame J [(''ok'', js_bool J False), (''error'', js_string J message)]"

definition payload_string :: "editor_frame \<Rightarrow> string" where
  "payload_string f = map (\<lambda>b. char_of (unat b)) (ef_payload f)"

text \<open>
  A control message: whether a rerun is scheduled, and the session. A rejected message leaves the session
  as it was; an exception after a change keeps the change.
\<close>

definition control_message ::
  "('j, 'x) editor_api_scheme \<Rightarrow> client \<Rightarrow> 'j \<Rightarrow> 'j session \<Rightarrow> stop + bool \<times> 'j session" where
  "control_message J c payload s =
     bind_res (or_throw (js_value_string J payload ''type'' [])) (\<lambda>type.
     if type = ''node.update_param''
     then bind_res (apply_param_delta J payload s) (\<lambda>s. Inr (True, s))
     else if type = ''node.subscribe_thumbnail'' \<or> type = ''node.unsubscribe_thumbnail''
     then bind_res (apply_thumbnail_control J c payload s) (\<lambda>s. Inr (False, s))
     else Inr (False, s))"

text \<open>The \<open>try\<close> block: the acknowledgement, whether a rerun is scheduled, and the session at its end.\<close>

definition control_try ::
  "('j, 'x) editor_api_scheme \<Rightarrow> client \<Rightarrow> editor_frame \<Rightarrow> 'j session \<Rightarrow>
     (stop + byte list) \<times> bool \<times> 'j session" where
  "control_try J c f s =
     (case js_parse J (payload_string f) of
        None \<Rightarrow> (Inl Thrown, False, s)
      | Some payload \<Rightarrow>
          (case control_message J c payload s of
             Inl (Returned code message) \<Rightarrow> (ack_error J message, False, s)
           | Inl e \<Rightarrow> (Inl e, False, s)
           | Inr (rerun, s') \<Rightarrow>
               (bind_res (or_throw (js_value_string J payload ''type'' [])) (\<lambda>type.
                ack_frame J [(''ok'', js_bool J True), (''received'', js_string J type)]), rerun, s')))"

definition ws_message ::
  "('j, 'x) editor_api_scheme \<Rightarrow> string \<Rightarrow> client \<Rightarrow> bool \<Rightarrow> byte list \<Rightarrow> 'j session \<Rightarrow>
     (byte list \<times> bool \<times> 'j session) option" where
  "ws_message J what c binary message s =
     (if \<not> binary then map_option (\<lambda>ack. (ack, False, s)) (uncaught (ack_error J ''binary frame required''))
      else (case decode_frame message of
          Inr (Some f) \<Rightarrow>
            if ef_type f \<noteq> FControl
            then map_option (\<lambda>ack. (ack, False, s)) (uncaught (ack_error J ''invalid control frame''))
            else (case control_try J c f s of
                (Inr ack, rerun, s') \<Rightarrow> Some (ack, rerun, s')
              | (Inl _, rerun, s') \<Rightarrow> map_option (\<lambda>ack. (ack, rerun, s')) (uncaught (ack_error J what)))
        | _ \<Rightarrow> map_option (\<lambda>ack. (ack, False, s)) (uncaught (ack_error J ''invalid control frame''))))"

definition ws_open :: "client \<Rightarrow> 'j session \<Rightarrow> 'j session" where
  "ws_open c s = s\<lparr>se_clients := insort_insert c (se_clients s)\<rparr>"

definition ws_close :: "client \<Rightarrow> 'j session \<Rightarrow> 'j session" where
  "ws_close c s = s\<lparr>se_clients := removeAll c (se_clients s),
     se_subscriptions := AList.delete c (se_subscriptions s)\<rparr>"

end
