(* ===== verification/Editor_Session.thy ===== *)
theory Editor_Session
  imports Editor_Server Json_Instance
begin

text \<open>
  The editor server as a whole: the events of its loop, the sessions it can reach, and what holds of
  every session and of every message it sends.
\<close>

section \<open>The event loop\<close>

datatype 'j event =
    Opened client
  | Received client bool "byte list"
  | Closed client
  | PutPipeline string
  | PostParams string
  | PostRun
  | DebounceFired
  | SetPipeline 'j
  | GetActive
  | GetRun string
  | GetRegistry node_registry
  | GetStatic file_system string string

text \<open>
  One event: the messages that are sent and the session afterwards. \<open>None\<close>: the process divides by zero,
  or an exception leaves a callback of the loop. The routes that are left out (health and schemas) answer
  with a constant text. The registry and the file system may be others at every request.
\<close>

definition serve ::
  "('j, 'x) editor_api_scheme \<Rightarrow> webp_encoder \<Rightarrow> string \<Rightarrow> nat \<Rightarrow> 'j event \<Rightarrow> 'j session \<Rightarrow>
     (outgoing \<times> 'j session) option" where
  "serve J webp what now e s =
     (case e of
        Opened c \<Rightarrow> Some ([], ws_open c s)
      | Received c binary message \<Rightarrow>
          map_option (\<lambda>(ack, rerun, s'). ([(c, ack)], s')) (ws_message J what c binary message s)
      | Closed c \<Rightarrow> Some ([], ws_close c s)
      | PutPipeline body \<Rightarrow> map_option (\<lambda>(response, s'). ([], s')) (put_active_pipeline J what body s)
      | PostParams body \<Rightarrow> map_option (\<lambda>(response, s'). ([], s')) (post_params J what body s)
      | PostRun \<Rightarrow> map_option snd (post_run J webp now s)
      | DebounceFired \<Rightarrow> map_option snd (emit_completed_run J webp now s)
      | SetPipeline pipeline \<Rightarrow>
          Some ([], case set_active_pipeline J pipeline s of Inl _ \<Rightarrow> s | Inr s' \<Rightarrow> s')
      | GetActive \<Rightarrow> map_option (\<lambda>response. ([], s)) (uncaught (get_active_pipeline J s))
      | GetRun url \<Rightarrow> map_option (\<lambda>response. ([], s)) (uncaught (get_run J url s))
      | GetRegistry registry \<Rightarrow> map_option (\<lambda>response. ([], s)) (uncaught (get_registry J registry))
      | GetStatic fs editor_static url \<Rightarrow>
          map_option (\<lambda>response. ([], s)) (uncaught (get_static J fs editor_static url)))"

text \<open>The sockets library opens a new socket and calls the other handlers for an open one only.\<close>

fun admissible :: "'j event \<Rightarrow> 'j session \<Rightarrow> bool" where
  "admissible (Opened c) s \<longleftrightarrow> c \<notin> set (se_clients s)"
| "admissible (Received c _ _) s \<longleftrightarrow> c \<in> set (se_clients s)"
| "admissible (Closed c) s \<longleftrightarrow> c \<in> set (se_clients s)"
| "admissible _ s \<longleftrightarrow> True"

text \<open>\<open>server_run J webp n s\<close>: after \<open>n\<close> events the session can be \<open>s\<close>.\<close>

inductive server_run ::
  "('j, 'x) editor_api_scheme \<Rightarrow> webp_encoder \<Rightarrow> nat \<Rightarrow> 'j session \<Rightarrow> bool"
  for J :: "('j, 'x) editor_api_scheme" and webp :: webp_encoder where
  run_start: "server_run J webp 0 (new_session J)"
| run_event: "server_run J webp (Suc n) s'"
    if "server_run J webp n s" and "admissible e s" and "serve J webp what now e s = Some (out, s')"

section \<open>What every operation keeps\<close>

definition subscription_ok :: "thumbnail_subscription \<Rightarrow> bool" where
  "subscription_ok sub \<longleftrightarrow>
     1 \<le> ts_max_size sub \<and> ts_max_size sub \<le> 256 \<and> 1 \<le> ts_fps sub \<and> ts_fps sub \<le> 60"

definition session_ok :: "'j session \<Rightarrow> bool" where
  "session_ok s \<longleftrightarrow> distinct (se_clients s) \<and> distinct (map fst (se_subscriptions s)) \<and>
     (\<forall>x \<in> set (se_subscriptions s). fst x \<in> set (se_clients s) \<and> subscription_ok (snd x))"

lemma clamp_u32_bounds: "lo \<le> hi \<Longrightarrow> lo \<le> clamp_u32 v lo hi \<and> clamp_u32 v lo hi \<le> hi"
  by (auto simp: clamp_u32_def)

lemma replace_active_pipeline_clients:
  assumes "replace_active_pipeline J p s = Inr s'"
  shows "se_clients s' = se_clients s" and "se_subscriptions s' = se_subscriptions s"
  using assms by (auto simp: replace_active_pipeline_def Let_def bind_res_eq_Inr_iff split: if_splits)

lemma apply_param_delta_clients:
  assumes "apply_param_delta J d s = Inr s'"
  shows "se_clients s' = se_clients s" and "se_subscriptions s' = se_subscriptions s"
  using assms by (auto simp: apply_param_delta_def bind_res_eq_Inr_iff split: if_splits option.splits)

lemma set_AList_update: "set (AList.update k v m) \<subseteq> insert (k, v) (set m)"
  by (induction m) auto

lemma set_AList_delete: "set (AList.delete k m) = {x \<in> set m. fst x \<noteq> k}"
  by (auto simp: AList.delete_eq)

lemma apply_thumbnail_control_ok:
  assumes "apply_thumbnail_control J c p s = Inr s'" and "session_ok s" and "c \<in> set (se_clients s)"
  shows "session_ok s'" and "se_clients s' = se_clients s"
proof -
  from assms(1) consider
      (unsub) "s' = s\<lparr>se_subscriptions := AList.delete c (se_subscriptions s)\<rparr>"
    | (sub) sub where "s' = s\<lparr>se_subscriptions := AList.update c sub (se_subscriptions s)\<rparr>" "subscription_ok sub"
    using clamp_u32_bounds [of 1 256] clamp_u32_bounds [of 1 60]
    by (auto simp: apply_thumbnail_control_def subscription_ok_def bind_res_eq_Inr_iff split: if_splits)
  then have "session_ok s' \<and> se_clients s' = se_clients s"
  proof cases
    case unsub
    with assms(2) show ?thesis
      by (auto simp: session_ok_def AList.distinct_delete set_AList_delete)
  next
    case sub
    with assms(2,3) show ?thesis
      by (auto simp: session_ok_def AList.distinct_update dest!: set_AList_update [THEN subsetD])
  qed
  then show "session_ok s'" and "se_clients s' = se_clients s" by simp_all
qed

lemma ws_open_ok:
  assumes "session_ok s" and "c \<notin> set (se_clients s)"
  shows "session_ok (ws_open c s)"
  using assms by (auto simp: session_ok_def ws_open_def insort_insert_key_def set_insort_key distinct_insort)

lemma ws_close_ok: "session_ok s \<Longrightarrow> session_ok (ws_close c s)"
  by (auto simp: session_ok_def ws_close_def AList.distinct_delete set_AList_delete distinct_removeAll)

lemma same_clients_ok:
  assumes "session_ok s" and "se_clients s' = se_clients s" and "se_subscriptions s' = se_subscriptions s"
  shows "session_ok s'"
  using assms by (simp add: session_ok_def)

text \<open>A control message keeps the session's invariant and its clients, whatever the payload.\<close>

lemma if_cases3: "(if P then a else if Q then b else c) = x \<Longrightarrow> a = x \<or> b = x \<or> c = x"
  by (auto split: if_splits)

lemma control_message_cases:
  assumes "control_message J c p s = Inr (rerun, s')"
  obtains (param) "apply_param_delta J p s = Inr s'" | (thumb) "apply_thumbnail_control J c p s = Inr s'"
    | (other) "s' = s"
proof -
  from assms obtain type where t: "js_value_string J p ''type'' [] = Some type"
    by (cases "js_value_string J p ''type'' []") (simp_all add: control_message_def)
  have "bind_res (apply_param_delta J p s) (\<lambda>s. Inr (True, s)) = Inr (rerun, s') \<or>
      bind_res (apply_thumbnail_control J c p s) (\<lambda>s. Inr (False, s)) = Inr (rerun, s') \<or>
      (Inr (False, s) :: stop + bool \<times> 'a session) = Inr (rerun, s')"
    using assms unfolding control_message_def t or_throw_simps bind_res_Inr by (rule if_cases3)
  then show ?thesis by (auto simp: bind_res_eq_Inr_iff intro: that)
qed

lemma control_message_ok:
  assumes "control_message J c p s = Inr (rerun, s')" and "session_ok s" and "c \<in> set (se_clients s)"
  shows "session_ok s'"
  using assms(1)
proof (cases rule: control_message_cases)
  case param
  from apply_param_delta_clients [OF this] show ?thesis by (rule same_clients_ok [OF assms(2)])
next
  case thumb
  then show ?thesis by (rule apply_thumbnail_control_ok [OF _ assms(2,3)])
next
  case other
  with assms(2) show ?thesis by simp
qed

text \<open>A message leaves the session alone or has the effect of its control message.\<close>

lemma control_try_cases:
  assumes "control_try J c f s = (r, rerun, s')"
  obtains "s' = s" | p where "control_message J c p s = Inr (rerun, s')"
  using assms by (auto simp: control_try_def split: option.splits sum.splits stop.splits)

lemma ws_message_cases:
  assumes "ws_message J what c binary bytes s = Some (ack, rerun, s')"
  obtains "s' = s" | p where "control_message J c p s = Inr (rerun, s')"
proof -
  from assms consider "s' = s" | f r where "control_try J c f s = (r, rerun, s')"
    by (auto simp: ws_message_def split: if_splits sum.splits option.splits prod.splits)
  then show ?thesis using that by cases (auto elim: control_try_cases)
qed

lemma ws_message_ok:
  assumes "ws_message J what c binary bytes s = Some (ack, rerun, s')" and "session_ok s" and "c \<in> set (se_clients s)"
  shows "session_ok s'"
  using assms(1)
proof (cases rule: ws_message_cases)
  case 1
  with assms(2) show ?thesis by simp
next
  case (2 p)
  then show ?thesis by (rule control_message_ok [OF _ assms(2,3)])
qed

section \<open>Thumbnails\<close>

text \<open>The largest value of a field is the value of one of the targets.\<close>

lemma max_field_mem: "ts \<noteq> [] \<Longrightarrow> max_field f ts \<in> (\<lambda>t. f (snd t)) ` set ts"
proof (induction f ts rule: max_field.induct)
  case (2 f t ts)
  have "fold (\<lambda>(c, sub) m. if m < f sub then f sub else m) ts m \<in> insert m ((\<lambda>t. f (snd t)) ` set ts)" for m
    by (induction ts arbitrary: m) (auto split: prod.splits)
  from this [of "f (snd t)"] show ?case by simp
qed simp

text \<open>Every group has a target, and every target is a subscription of a connected client.\<close>

definition groups_ok :: "client list \<Rightarrow> target list \<Rightarrow> (string \<times> target list) list \<Rightarrow> bool" where
  "groups_ok clients subs groups \<longleftrightarrow>
     (\<forall>g \<in> set groups. snd g \<noteq> [] \<and> (\<forall>t \<in> set (snd g). t \<in> set subs \<and> fst t \<in> set clients))"

lemma groups_ok_update:
  assumes "groups_ok clients subs groups" and "ts \<noteq> []"
    and "\<And>t. t \<in> set ts \<Longrightarrow> t \<in> set subs \<and> fst t \<in> set clients"
  shows "groups_ok clients subs (AList.update key ts groups)"
  using assms set_AList_update [of key ts groups] unfolding groups_ok_def by fastforce

lemma groups_ok_lookup:
  "groups_ok clients subs groups \<Longrightarrow> map_of groups key = Some ts \<Longrightarrow> t \<in> set ts \<Longrightarrow>
     t \<in> set subs \<and> fst t \<in> set clients"
  by (auto simp: groups_ok_def dest!: map_of_SomeD)

lemma group_targets_ok: "groups_ok clients subs (group_targets clients subs)"
proof -
  let ?f = "\<lambda>(c, sub) groups. if c \<notin> set clients then groups
     else let key = thumbnail_key (ts_node_id sub) (ts_port sub);
              targets = (case map_of groups key of None \<Rightarrow> [] | Some ts \<Rightarrow> ts)
          in AList.update key (targets @ [(c, sub)]) groups"
  have "groups_ok clients subs (fold ?f xs groups)"
    if "set xs \<subseteq> set subs" and "groups_ok clients subs groups" for xs groups
    using that
  proof (induction xs arbitrary: groups)
    case (Cons x xs)
    obtain c sub where x: "x = (c, sub)" by fastforce
    have "groups_ok clients subs (?f x groups)"
      using Cons.prems groups_ok_lookup [OF Cons.prems(2)]
      by (force simp: x Let_def intro!: groups_ok_update split: option.splits)
    with Cons show ?case by simp
  qed simp
  from this [OF subset_refl, of "[]"] show ?thesis by (simp add: group_targets_def groups_ok_def)
qed

text \<open>One group is handled without a division by zero and reaches connected clients only.\<close>

lemma push_group_ok:
  assumes "groups_ok clients subs [g]" and "\<And>x. x \<in> set subs \<Longrightarrow> subscription_ok (snd x)"
  shows "\<exists>le msgs. push_group webp now g (prev, out) = Some (le, out @ msgs) \<and> fst ` set msgs \<subseteq> set clients"
proof -
  obtain key ts where g: "g = (key, ts)" by fastforce
  from assms(1) have ne: "ts \<noteq> []" and mem: "\<And>t. t \<in> set ts \<Longrightarrow> t \<in> set subs \<and> fst t \<in> set clients"
    by (simp_all add: groups_ok_def g)
  from max_field_mem [OF ne, of ts_fps] obtain t where "t \<in> set ts" "max_field ts_fps ts = ts_fps (snd t)" by auto
  moreover from this mem assms(2) [of t] have "subscription_ok (snd t)" by simp
  ultimately have "max_field ts_fps ts \<noteq> 0" by (auto simp: subscription_ok_def)
  then have "effective_fps ts \<noteq> 0" by (auto simp: effective_fps_def)
  with ne mem show ?thesis
    by (force simp: push_group_def g Let_def split: option.splits)
qed

lemma push_groups_ok:
  assumes "groups_ok clients subs gs" and "\<And>x. x \<in> set subs \<Longrightarrow> subscription_ok (snd x)"
  shows "\<exists>le msgs. push_groups webp now gs (prev, out) = Some (le, out @ msgs) \<and> fst ` set msgs \<subseteq> set clients"
  using assms(1)
proof (induction gs arbitrary: prev out)
  case (Cons g gs)
  then have "groups_ok clients subs [g]" and gs: "groups_ok clients subs gs" by (simp_all add: groups_ok_def)
  from push_group_ok [OF this(1) assms(2)] obtain le1 m1
    where 1: "push_group webp now g (prev, out) = Some (le1, out @ m1)" "fst ` set m1 \<subseteq> set clients" by blast
  from Cons.IH [OF gs, of le1 "out @ m1"] obtain le2 m2
    where "push_groups webp now gs (le1, out @ m1) = Some (le2, (out @ m1) @ m2)" "fst ` set m2 \<subseteq> set clients"
    by blast
  with 1 show ?case by (intro exI [of _ le2] exI [of _ "m1 @ m2"]) auto
qed simp

lemma push_thumbnail_frames_ok:
  assumes "session_ok s"
  obtains le msgs where "push_thumbnail_frames webp now s = Some (msgs, s\<lparr>se_last_emit := le\<rparr>)"
    and "fst ` set msgs \<subseteq> set (se_clients s)"
proof -
  from assms have "\<And>x. x \<in> set (se_subscriptions s) \<Longrightarrow> subscription_ok (snd x)" by (simp add: session_ok_def)
  with group_targets_ok [of "se_clients s" "se_subscriptions s"] obtain le msgs
    where "push_groups webp now (group_targets (se_clients s) (se_subscriptions s)) (se_last_emit s, []) =
      Some (le, [] @ msgs)" and "fst ` set msgs \<subseteq> set (se_clients s)"
    using push_groups_ok by blast
  then show ?thesis by (intro that) (simp_all add: push_thumbnail_frames_def)
qed

section \<open>Runs\<close>

lemma profile_payload_Inl:
  "(\<exists>e. profile_payload J k s = Inl e) \<longleftrightarrow>
     js_is_object J (se_pipeline s) \<and> js_contains J (se_pipeline s) ''nodes'' \<and>
     (case js_at J (se_pipeline s) ''nodes'' of None \<Rightarrow> True
      | Some nodes \<Rightarrow> \<exists>n \<in> set (js_elements J nodes). js_value_string J n ''id'' [] = None)"
proof -
  have "(\<exists>e. map_res (profile_node J) ns = Inl e) \<longleftrightarrow> (\<exists>n \<in> set ns. js_value_string J n ''id'' [] = None)" for ns
    by (induction ns) (auto simp: profile_node_def bind_res_eq_Inl_iff or_throw_def split: option.splits)
  then show ?thesis
    by (auto simp: profile_payload_def bind_res_eq_Inl_iff split: option.splits)
qed

text \<open>The effect of a completed run: the thumbnails, then the two broadcasts.\<close>

definition run_broadcasts :: "('j, 'x) editor_api_scheme \<Rightarrow> 'j session \<Rightarrow> stop + outgoing" where
  "run_broadcasts J s =
     bind_res (profile_payload J (se_next_run_id s) s) (\<lambda>profile.
     bind_res (broadcast_json_frame J FProfile profile s) (\<lambda>profiles.
     bind_res (broadcast_json_frame J FLog (log_payload J (se_next_run_id s)) s) (\<lambda>logs.
     Inr (profiles @ logs))))"

lemma emit_completed_run_unfold:
  assumes "session_ok s"
  obtains le msgs where "fst ` set msgs \<subseteq> set (se_clients s)"
    and "emit_completed_run J webp now s =
      map_option (\<lambda>frames. (fst (snd (create_run_record J s)), msgs @ frames,
        (snd (snd (create_run_record J s)))\<lparr>se_last_emit := le\<rparr>)) (uncaught (run_broadcasts J s))"
proof -
  let ?s = "snd (snd (create_run_record J s))"
  have "session_ok ?s"
    by (rule same_clients_ok [OF assms]) (simp_all add: create_run_record_def Let_def)
  then obtain le msgs where m: "push_thumbnail_frames webp now ?s = Some (msgs, ?s\<lparr>se_last_emit := le\<rparr>)"
    "fst ` set msgs \<subseteq> set (se_clients ?s)" by (rule push_thumbnail_frames_ok)
  have "profile_payload J k (?s\<lparr>se_last_emit := le\<rparr>) = profile_payload J k s" for k
    by (simp add: profile_payload_def create_run_record_def Let_def)
  moreover have "broadcast_json_frame J t p (?s\<lparr>se_last_emit := le\<rparr>) = broadcast_json_frame J t p s" for t p
    by (simp add: broadcast_json_frame_def create_run_record_def Let_def)
  moreover have "fst (create_run_record J s) = se_next_run_id s" by (simp add: create_run_record_def Let_def)
  ultimately have "emit_completed_run J webp now s =
      map_option (\<lambda>frames. (fst (snd (create_run_record J s)), msgs @ frames, ?s\<lparr>se_last_emit := le\<rparr>))
        (uncaught (run_broadcasts J s))"
    by (simp add: emit_completed_run_def run_broadcasts_def m(1) split_beta bind_res_def uncaught_def
        split: sum.split)
  with m(2) show ?thesis by (intro that) (simp_all add: create_run_record_def Let_def)
qed

lemma run_broadcasts_clients: "run_broadcasts J s = Inr frames \<Longrightarrow> fst ` set frames \<subseteq> set (se_clients s)"
  by (auto simp: run_broadcasts_def broadcast_json_frame_def bind_res_eq_Inr_iff)

lemma emit_completed_run_ok:
  assumes "session_ok s" and "emit_completed_run J webp now s = Some (r, out, s')"
  shows "fst ` set out \<subseteq> set (se_clients s)"
    and "\<exists>le. s' = (snd (snd (create_run_record J s)))\<lparr>se_last_emit := le\<rparr>"
    and "r = fst (snd (create_run_record J s))"
proof -
  from assms(1) obtain le msgs where m: "fst ` set msgs \<subseteq> set (se_clients s)"
    and e: "emit_completed_run J webp now s =
      map_option (\<lambda>frames. (fst (snd (create_run_record J s)), msgs @ frames,
        (snd (snd (create_run_record J s)))\<lparr>se_last_emit := le\<rparr>)) (uncaught (run_broadcasts J s))"
    by (rule emit_completed_run_unfold)
  from assms(2) obtain frames where "run_broadcasts J s = Inr frames" "out = msgs @ frames"
    "s' = (snd (snd (create_run_record J s)))\<lparr>se_last_emit := le\<rparr>" "r = fst (snd (create_run_record J s))"
    by (auto simp: e)
  with m run_broadcasts_clients [of J s frames]
  show "fst ` set out \<subseteq> set (se_clients s)" "\<exists>le. s' = (snd (snd (create_run_record J s)))\<lparr>se_last_emit := le\<rparr>"
    "r = fst (snd (create_run_record J s))" by auto
qed

lemma emit_completed_run_None:
  assumes "session_ok s"
  shows "emit_completed_run J webp now s = None \<longleftrightarrow> isl (run_broadcasts J s)"
  using assms by (rule emit_completed_run_unfold [of s J webp now]) simp

section \<open>Run identifiers\<close>

lemma parse_run_id_nat_to_string: "n < 2 ^ 64 \<Longrightarrow> parse_run_id (runs_prefix @ nat_to_string n) = Some (of_nat n)"
  by (simp add: parse_run_id_def stream_u64_nat_to_string)

text \<open>While the counter has not wrapped, the records are those of the runs so far.\<close>

definition completed_run :: "('j, 'x) editor_api_scheme \<Rightarrow> 'j run_entry" where
  "completed_run J = \<lparr>rr_status = ''completed'', rr_output_paths = js_make_array J []\<rparr>"

definition runs_ok :: "('j, 'x) editor_api_scheme \<Rightarrow> nat \<Rightarrow> 'j session \<Rightarrow> bool" where
  "runs_ok J n s \<longleftrightarrow> 1 \<le> se_next_run_id s \<and> unat (se_next_run_id s) \<le> Suc n \<and>
     (\<forall>k. map_of (se_runs s) k = (if 1 \<le> k \<and> k < se_next_run_id s then Some (completed_run J) else None))"

lemma runs_ok_create:
  assumes "runs_ok J n s" and "Suc n < 2 ^ 64 - 1"
  shows "runs_ok J (Suc n) (snd (snd (create_run_record J s)))"
proof -
  let ?k = "se_next_run_id s"
  from assms have k: "1 \<le> ?k" "unat ?k \<le> Suc n" by (simp_all add: runs_ok_def)
  with assms(2) have nx: "unat (?k + 1) = Suc (unat ?k)" by (simp add: unat_word_ariths)
  then have lt: "x < ?k + 1 \<longleftrightarrow> x < ?k \<or> x = ?k" for x
    by (auto simp: word_less_nat_alt word_unat_eq_iff)
  have "1 \<le> ?k + 1" using nx by (simp add: word_le_nat_alt)
  with assms k nx lt show ?thesis
    by (auto simp: runs_ok_def create_run_record_def Let_def emplace_def completed_run_def map_add_def
      split: if_splits option.splits)
qed

lemma runs_ok_mono: "runs_ok J n s \<Longrightarrow> runs_ok J (Suc n) s"
  by (simp add: runs_ok_def)

lemma runs_ok_cong:
  "se_next_run_id s' = se_next_run_id s \<Longrightarrow> se_runs s' = se_runs s \<Longrightarrow> runs_ok J n s' = runs_ok J n s"
  by (simp add: runs_ok_def)

lemma runs_ok_fresh: "se_next_run_id s = 1 \<Longrightarrow> se_runs s = [] \<Longrightarrow> runs_ok J n s"
  by (auto simp: runs_ok_def)

lemma replace_active_pipeline_runs:
  assumes "replace_active_pipeline J p s = Inr s'"
  shows "se_next_run_id s' = 1" and "se_runs s' = []"
  using assms by (auto simp: replace_active_pipeline_def Let_def bind_res_eq_Inr_iff split: if_splits)

lemma apply_param_delta_runs:
  assumes "apply_param_delta J d s = Inr s'"
  shows "runs_ok J' n s' = runs_ok J' n s"
  using assms by (intro runs_ok_cong) (auto simp: apply_param_delta_def bind_res_eq_Inr_iff split: if_splits option.splits)

lemma apply_thumbnail_control_runs:
  assumes "apply_thumbnail_control J c p s = Inr s'"
  shows "runs_ok J' n s' = runs_ok J' n s"
  using assms by (intro runs_ok_cong) (auto simp: apply_thumbnail_control_def bind_res_eq_Inr_iff split: if_splits)

lemma apply_param_delta_entries: "apply_param_delta J d s = Inr s' \<Longrightarrow> se_runs s' = se_runs s"
  by (auto simp: apply_param_delta_def bind_res_eq_Inr_iff split: if_splits option.splits)

lemma apply_thumbnail_control_entries: "apply_thumbnail_control J c p s = Inr s' \<Longrightarrow> se_runs s' = se_runs s"
  by (auto simp: apply_thumbnail_control_def bind_res_eq_Inr_iff split: if_splits)

lemma ws_message_entries:
  assumes "ws_message J what c binary bytes s = Some (ack, rerun, s')"
  shows "se_runs s' = se_runs s"
  using assms
proof (cases rule: ws_message_cases)
  case 1
  then show ?thesis by simp
next
  case (2 p)
  then show ?thesis
    by (cases rule: control_message_cases)
       (simp_all add: apply_param_delta_entries apply_thumbnail_control_entries)
qed

lemma ws_message_runs:
  assumes "ws_message J what c binary bytes s = Some (ack, rerun, s')"
  shows "runs_ok J' n s' = runs_ok J' n s"
  using assms
proof (cases rule: ws_message_cases)
  case 1
  then show ?thesis by simp
next
  case (2 p)
  then show ?thesis
    by (cases rule: control_message_cases)
       (simp_all add: apply_param_delta_runs apply_thumbnail_control_runs)
qed

section \<open>What can be dumped\<close>

lemma isl_bind_res: "isl (bind_res r f) \<longleftrightarrow> (case r of Inl e \<Rightarrow> True | Inr x \<Rightarrow> isl (f x))"
  by (cases r) simp_all

text \<open>The texts of the server itself are valid.\<close>

lemma server_texts_valid [simp]:
  "utf8_valid ''ok''" "utf8_valid ''data''" "utf8_valid ''error''" "utf8_valid ''code''" "utf8_valid ''message''"
  "utf8_valid ''pipeline''" "utf8_valid ''applied''" "utf8_valid ''received''" "utf8_valid ''run_id''"
  "utf8_valid ''status''" "utf8_valid ''output_paths''" "utf8_valid ''node_id''" "utf8_valid ''start_ms''"
  "utf8_valid ''end_ms''" "utf8_valid ''ms''" "utf8_valid ''peak_mem_kb''" "utf8_valid ''mem_kb''"
  "utf8_valid ''device''" "utf8_valid ''type''" "utf8_valid ''nodes''" "utf8_valid ''level''" "utf8_valid ''id''"
  "utf8_valid ''manifest''" "utf8_valid ''cpu''" "utf8_valid ''info''" "utf8_valid ''completed''"
  "utf8_valid ''pipeline.profile''" "utf8_valid ''event=pipeline_run status=completed''"
  "utf8_valid ''bad_json''" "utf8_valid ''bad_pipeline''" "utf8_valid ''bad_param_delta''"
  "utf8_valid ''not_found''" "utf8_valid ''bad_run_id''" "utf8_valid ''no active pipeline''"
  "utf8_valid ''static asset not found''" "utf8_valid ''invalid run id''" "utf8_valid ''run id not found''"
  "utf8_valid ''binary frame required''" "utf8_valid ''invalid control frame''"
  by code_simp+

lemma dump_object:
  assumes "dump_law J" and "distinct (map fst kvs)"
  shows "js_dump J (js_make_object J kvs) = None \<longleftrightarrow> (\<exists>(k, v) \<in> set kvs. \<not> utf8_valid k \<or> js_dump J v = None)"
  using assms by (simp add: dump_law_def)

lemma dump_atoms:
  assumes "dump_law J"
  shows "js_dump J (js_string J t) = None \<longleftrightarrow> \<not> utf8_valid t" "js_dump J (js_bool J b) \<noteq> None"
    "js_dump J (js_u64 J k) \<noteq> None"
    "js_dump J (js_make_array J js) = None \<longleftrightarrow> (\<exists>j \<in> set js. js_dump J j = None)"
  using assms by (simp_all add: dump_law_def)

lemma dump_envelopes:
  assumes "dump_law J"
  shows "js_dump J (json_ok J v) = None \<longleftrightarrow> js_dump J v = None"
    "js_dump J (error_envelope J c m) = None \<longleftrightarrow> \<not> utf8_valid c \<or> \<not> utf8_valid m"
    "js_dump J (run_json J k (completed_run J)) \<noteq> None" "js_dump J (log_payload J k) \<noteq> None"
  by (simp_all add: json_ok_def error_envelope_def run_json_def completed_run_def log_payload_def
    dump_object [OF assms] dump_atoms [OF assms])

lemma json_response_raises: "isl (json_response J body status) \<longleftrightarrow> js_dump J body = None"
  by (cases "js_dump J body") (simp_all add: json_response_def)

lemma ack_error_raises: "dump_law J \<Longrightarrow> isl (ack_error J m) \<longleftrightarrow> \<not> utf8_valid m"
  by (cases "js_dump J (js_make_object J [(''ok'', js_bool J False), (''error'', js_string J m)])")
     (use dump_object [of J "[(''ok'', js_bool J False), (''error'', js_string J m)]"] in
       \<open>simp_all add: ack_error_def ack_frame_def dump_atoms\<close>)

lemma answer_exception_None:
  "dump_law J \<Longrightarrow> answer_exception J what r = None \<longleftrightarrow> isl (fst r) \<and> \<not> utf8_valid what"
  by (auto simp: answer_exception_def json_response_raises dump_envelopes split: prod.splits sum.splits)

lemma ws_message_None:
  assumes "dump_law J"
  shows "ws_message J what c binary message s = None \<longleftrightarrow> binary \<and> \<not> utf8_valid what \<and>
    (\<exists>f. decode_frame message = Inr (Some f) \<and> ef_type f = FControl \<and> isl (fst (control_try J c f s)))"
  by (auto simp: ws_message_def ack_error_raises [OF assms] split: sum.splits option.splits prod.splits)

text \<open>A run, whether it is requested or debounced.\<close>

definition run_raises :: "('j, 'x) editor_api_scheme \<Rightarrow> 'j session \<Rightarrow> bool" where
  "run_raises J s \<longleftrightarrow> js_is_object J (se_pipeline s) \<and> js_contains J (se_pipeline s) ''nodes'' \<and>
     (case js_at J (se_pipeline s) ''nodes'' of None \<Rightarrow> True
      | Some nodes \<Rightarrow> \<exists>node \<in> set (js_elements J nodes).
          (case js_value_string J node ''id'' [] of None \<Rightarrow> True | Some i \<Rightarrow> \<not> utf8_valid i))"

lemma profile_nodes_raise:
  assumes "dump_law J"
  shows "(case map_res (profile_node J) ns of Inl e \<Rightarrow> True | Inr js \<Rightarrow> \<exists>j \<in> set js. js_dump J j = None) \<longleftrightarrow>
    (\<exists>n \<in> set ns. case js_value_string J n ''id'' [] of None \<Rightarrow> True | Some i \<Rightarrow> \<not> utf8_valid i)"
proof (induction ns)
  case (Cons n ns)
  show ?case
  proof (cases "js_value_string J n ''id'' []")
    case None
    then show ?thesis by (simp add: profile_node_def)
  next
    case (Some i)
    then obtain j where "profile_node J n = Inr j" "js_dump J j = None \<longleftrightarrow> \<not> utf8_valid i"
      by (simp add: profile_node_def dump_object [OF assms] dump_atoms [OF assms])
    with Cons.IH Some show ?thesis by (cases "map_res (profile_node J) ns") simp_all
  qed
qed simp

lemma run_broadcasts_raises:
  assumes "dump_law J"
  shows "isl (run_broadcasts J s) \<longleftrightarrow> run_raises J s"
proof -
  have "isl (run_broadcasts J s) \<longleftrightarrow>
      (case profile_payload J (se_next_run_id s) s of Inl e \<Rightarrow> True | Inr p \<Rightarrow> js_dump J p = None)"
    using dump_envelopes(4) [OF assms, of "se_next_run_id s"]
    by (auto simp: run_broadcasts_def isl_bind_res broadcast_json_frame_def or_throw_def split: sum.splits option.splits)
  also have "\<dots> \<longleftrightarrow> run_raises J s"
  proof (cases "js_is_object J (se_pipeline s) \<and> js_contains J (se_pipeline s) ''nodes''")
    case True
    show ?thesis
    proof (cases "js_at J (se_pipeline s) ''nodes''")
      case (Some nodes)
      then show ?thesis using True profile_nodes_raise [OF assms, of "js_elements J nodes"]
        by (cases "map_res (profile_node J) (js_elements J nodes)")
           (simp_all add: profile_payload_def run_raises_def dump_object [OF assms] dump_atoms [OF assms])
    qed (use True in \<open>simp add: profile_payload_def run_raises_def\<close>)
  qed (auto simp: profile_payload_def run_raises_def dump_object [OF assms] dump_atoms [OF assms])
  finally show ?thesis .
qed

lemma post_run_None:
  assumes "dump_law J" and "session_ok s"
  shows "post_run J webp now s = None \<longleftrightarrow> run_raises J s"
proof (cases "emit_completed_run J webp now s")
  case None
  with emit_completed_run_None [OF assms(2), of J webp now] run_broadcasts_raises [OF assms(1), of s] show ?thesis
    by (simp add: post_run_def)
next
  case (Some x)
  then obtain r out s' where x: "emit_completed_run J webp now s = Some (r, out, s')" by (cases x) simp
  have "r = run_json J (se_next_run_id s) (completed_run J)"
    using emit_completed_run_ok(3) [OF assms(2) x] by (simp add: create_run_record_def completed_run_def Let_def)
  with x emit_completed_run_None [OF assms(2), of J webp now] run_broadcasts_raises [OF assms(1), of s] show ?thesis
    using dump_envelopes(3) [OF assms(1), of "se_next_run_id s"]
    by (simp add: post_run_def json_response_raises dump_envelopes(1) [OF assms(1)])
qed

text \<open>The requests that only read.\<close>

definition entries_ok :: "('j, 'x) editor_api_scheme \<Rightarrow> 'j session \<Rightarrow> bool" where
  "entries_ok J s \<longleftrightarrow> (\<forall>x \<in> set (se_runs s). snd x = completed_run J)"

lemma get_run_answers:
  assumes "dump_law J" and "entries_ok J s"
  shows "\<not> isl (get_run J url s)"
  using assms(2) dump_envelopes(3) [OF assms(1)]
  by (auto simp: get_run_def run_record_def json_response_raises dump_envelopes(1,2) [OF assms(1)] entries_ok_def
      split: option.splits dest!: map_of_SomeD)

lemma get_static_raises:
  assumes "dump_law J"
  shows "isl (get_static J fs editor_static url) \<longleftrightarrow> static_file_response fs editor_static url = Inl ()"
proof -
  have "\<not> isl (json_response J (error_envelope J ''not_found'' ''static asset not found'') ''404 Not Found'')"
    by (simp add: json_response_raises dump_envelopes [OF assms])
  then show ?thesis
    by (auto simp: get_static_def isl_bind_res split: sum.splits static_response.splits)
qed

lemma registry_nodes_raise:
  assumes "dump_law J"
  shows "(case map_res (registry_node J) descs of Inl e \<Rightarrow> True
      | Inr js \<Rightarrow> \<exists>j \<in> set (concat js). js_dump J j = None) \<longleftrightarrow>
    (\<exists>d i manifest. Some d \<in> set descs \<and> node_id d = Some i \<and> manifest_json d = Some manifest \<and>
       (\<not> utf8_valid i \<or> Option.bind (js_parse J manifest) (js_dump J) = None))"
proof (induction descs)
  case (Cons x descs)
  have "(case registry_node J x of Inl e \<Rightarrow> True | Inr js \<Rightarrow> \<exists>j \<in> set js. js_dump J j = None) \<longleftrightarrow>
      (\<exists>d i manifest. x = Some d \<and> node_id d = Some i \<and> manifest_json d = Some manifest \<and>
       (\<not> utf8_valid i \<or> Option.bind (js_parse J manifest) (js_dump J) = None))"
    by (auto simp: registry_node_def dump_object [OF assms] dump_atoms [OF assms] bind_res_def or_throw_def
        split: option.splits)
  moreover have "(case map_res (registry_node J) (x # descs) of Inl e \<Rightarrow> True
      | Inr js \<Rightarrow> \<exists>j \<in> set (concat js). js_dump J j = None) \<longleftrightarrow>
      (case registry_node J x of Inl e \<Rightarrow> True | Inr js \<Rightarrow> \<exists>j \<in> set js. js_dump J j = None) \<or>
      (case map_res (registry_node J) descs of Inl e \<Rightarrow> True | Inr js \<Rightarrow> \<exists>j \<in> set (concat js). js_dump J j = None)"
    by (auto simp: bind_res_def split: sum.splits)
  ultimately show ?case using Cons.IH by auto
qed simp

lemma get_registry_raises:
  assumes "dump_law J"
  shows "isl (get_registry J registry) \<longleftrightarrow> (\<exists>descs d i manifest. registry = Some descs \<and> Some d \<in> set descs \<and>
    node_id d = Some i \<and> manifest_json d = Some manifest \<and>
    (\<not> utf8_valid i \<or> Option.bind (js_parse J manifest) (js_dump J) = None))"
proof (cases registry)
  case None
  then show ?thesis
    by (simp add: get_registry_def registry_nodes_def json_response_raises dump_envelopes [OF assms]
        dump_object [OF assms] dump_atoms [OF assms])
next
  case (Some descs)
  then have "isl (get_registry J registry) \<longleftrightarrow> (case map_res (registry_node J) descs of Inl e \<Rightarrow> True
      | Inr js \<Rightarrow> \<exists>j \<in> set (concat js). js_dump J j = None)"
    by (auto simp: get_registry_def registry_nodes_def isl_bind_res json_response_raises dump_envelopes [OF assms]
        dump_object [OF assms] dump_atoms [OF assms] split: sum.splits)
  with Some registry_nodes_raise [OF assms, of descs] show ?thesis by simp
qed

section \<open>Every reachable session\<close>

text \<open>The handlers that read a body replace the session or leave it.\<close>

lemma put_active_pipeline_cases:
  assumes "put_active_pipeline J what body s = Some (r, s')"
  obtains "s' = s" | p where "replace_active_pipeline J p s = Inr s'"
  using assms by (auto simp: put_active_pipeline_def answer_exception_def put_active_try_def
    split: option.splits sum.splits stop.splits prod.splits)

lemma post_params_cases:
  assumes "post_params J what body s = Some (r, s')"
  obtains "s' = s" | p where "apply_param_delta J p s = Inr s'"
  using assms by (auto simp: post_params_def answer_exception_def post_params_try_def
    split: option.splits sum.splits stop.splits prod.splits)

text \<open>The kinds of effect an event has on the session.\<close>

lemma serve_cases:
  assumes "serve J webp what now e s = Some (out, s')"
  obtains (same) "s' = s" "out = []"
    | (opened) c where "e = Opened c" "s' = ws_open c s" "out = []"
    | (closed) c where "s' = ws_close c s" "out = []"
    | (message) c b m ack rerun where "e = Received c b m" "ws_message J what c b m s = Some (ack, rerun, s')" "out = [(c, ack)]"
    | (replaced) p where "replace_active_pipeline J p s = Inr s'" "out = []"
    | (params) p where "apply_param_delta J p s = Inr s'" "out = []"
    | (ran) r where "emit_completed_run J webp now s = Some (r, out, s')"
proof (cases e)
  case (PutPipeline body)
  with assms obtain r where "put_active_pipeline J what body s = Some (r, s')" "out = []"
    by (auto simp: serve_def)
  then show ?thesis by (cases rule: put_active_pipeline_cases) (auto intro: that)
next
  case (PostParams body)
  with assms obtain r where "post_params J what body s = Some (r, s')" "out = []" by (auto simp: serve_def)
  then show ?thesis by (cases rule: post_params_cases) (auto intro: that)
next
  case PostRun
  with assms obtain r where "emit_completed_run J webp now s = Some (r, out, s')"
    by (auto simp: serve_def post_run_def bind_eq_Some_conv)
  then show ?thesis by (rule ran)
qed (use assms that in \<open>auto simp: serve_def set_active_pipeline_def split: prod.splits sum.splits\<close>)

lemma serve_ok:
  assumes "session_ok s" and "admissible e s" and "serve J webp what now e s = Some (out, s')"
  shows "session_ok s'" and "fst ` set out \<subseteq> set (se_clients s)"
proof -
  from assms(3) have "session_ok s' \<and> fst ` set out \<subseteq> set (se_clients s)"
  proof (cases rule: serve_cases)
    case (opened c)
    with assms(1,2) show ?thesis by (simp add: ws_open_ok)
  next
    case (message c b m ack rerun)
    with assms(1,2) show ?thesis using ws_message_ok [of J what c b m s ack rerun s'] by simp
  next
    case (replaced p)
    with same_clients_ok [OF assms(1) replace_active_pipeline_clients] show ?thesis by simp
  next
    case (params p)
    with same_clients_ok [OF assms(1) apply_param_delta_clients] show ?thesis by simp
  next
    case (ran r)
    from emit_completed_run_ok [OF assms(1) this] obtain le
      where "fst ` set out \<subseteq> set (se_clients s)" "s' = (snd (snd (create_run_record J s)))\<lparr>se_last_emit := le\<rparr>"
      by blast
    with assms(1) show ?thesis
      by (auto simp: create_run_record_def Let_def intro: same_clients_ok)
  qed (use assms(1) in \<open>simp_all add: ws_close_ok\<close>)
  then show "session_ok s'" and "fst ` set out \<subseteq> set (se_clients s)" by simp_all
qed

lemma serve_runs_ok:
  assumes "session_ok s" and "runs_ok J n s" and "Suc n < 2 ^ 64 - 1"
    and "serve J webp what now e s = Some (out, s')"
  shows "runs_ok J (Suc n) s'"
  using assms(4)
proof (cases rule: serve_cases)
  case (opened c)
  with assms(2) show ?thesis by (simp add: ws_open_def runs_ok_def)
next
  case (closed c)
  with assms(2) show ?thesis by (simp add: ws_close_def runs_ok_def)
next
  case (message c b m ack rerun)
  with assms(2) show ?thesis by (simp add: ws_message_runs runs_ok_mono)
next
  case (replaced p)
  then show ?thesis by (intro runs_ok_fresh replace_active_pipeline_runs)
next
  case (params p)
  with assms(2) show ?thesis by (simp add: apply_param_delta_runs runs_ok_mono)
next
  case (ran r)
  from emit_completed_run_ok(2) [OF assms(1) this] runs_ok_create [OF assms(2,3)]
  show ?thesis by (auto simp: runs_ok_def)
qed (use assms(2) in \<open>simp add: runs_ok_mono\<close>)

lemma server_run_session_ok: "server_run J webp n s \<Longrightarrow> session_ok s"
proof (induction rule: server_run.induct)
  case run_start
  show ?case by (simp add: session_ok_def new_session_def)
qed (rule serve_ok)

lemma serve_entries_ok:
  assumes "session_ok s" and "entries_ok J s" and "serve J webp what now e s = Some (out, s')"
  shows "entries_ok J s'"
  using assms(3)
proof (cases rule: serve_cases)
  case (message c b m ack rerun)
  then show ?thesis using assms(2) by (simp add: entries_ok_def ws_message_entries)
next
  case (replaced p)
  then show ?thesis using replace_active_pipeline_runs [OF replaced(1)] by (simp add: entries_ok_def)
next
  case (params p)
  with assms(2) show ?thesis by (simp add: entries_ok_def apply_param_delta_entries)
next
  case (ran r)
  from emit_completed_run_ok(2) [OF assms(1) this] assms(2) show ?thesis
    by (auto simp: entries_ok_def create_run_record_def emplace_def completed_run_def Let_def split: if_splits)
qed (use assms(2) in \<open>simp_all add: entries_ok_def ws_open_def ws_close_def\<close>)

lemma server_run_entries: "server_run J webp n s \<Longrightarrow> entries_ok J s"
proof (induction rule: server_run.induct)
  case run_start
  show ?case by (simp add: entries_ok_def new_session_def)
next
  case (run_event n s e what now out s')
  show ?case
    by (rule serve_entries_ok [OF server_run_session_ok [OF run_event.hyps(1)] run_event.IH run_event.hyps(3)])
qed

lemma server_run_runs_ok: "server_run J webp n s \<Longrightarrow> n < 2 ^ 64 - 1 \<Longrightarrow> runs_ok J n s"
proof (induction rule: server_run.induct)
  case run_start
  show ?case by (rule runs_ok_fresh) (simp_all add: new_session_def)
next
  case (run_event n s e what now out s')
  then show ?case by (intro serve_runs_ok [OF server_run_session_ok]) simp_all
qed

section \<open>Properties\<close>

text \<open>
  C20: In every session the server reaches, each thumbnail subscription belongs to a connected client and
  has a size in 1..256 and a rate in 1..60; pushing the thumbnails never divides by zero; and whatever
  the next event is, all messages it sends go to clients that are connected.
\<close>

theorem server_run_safe:
  assumes "server_run J webp n s"
  shows "session_ok s \<and> push_thumbnail_frames webp now s \<noteq> None \<and>
    (admissible e s \<longrightarrow> serve J webp what now e s = Some (out, s') \<longrightarrow> fst ` set out \<subseteq> set (se_clients s))"
proof -
  from assms have ok: "session_ok s" by (rule server_run_session_ok)
  then have "push_thumbnail_frames webp now s \<noteq> None"
    by (rule push_thumbnail_frames_ok [of s webp now]) simp
  with ok serve_ok(2) show ?thesis by blast
qed

text \<open>
  C21: The events that end the loop, for a JSON library whose \<open>dump\<close> throws exactly on strings that are not
  valid UTF-8. A request with a body and a control message end it when their \<open>try\<close> block raises an exception
  whose text is not valid UTF-8, since the \<open>catch\<close> block dumps that text. A run, requested or debounced,
  ends it when the active pipeline has a node without an \<open>id\<close> that can be read or with one that is not
  valid UTF-8; such a pipeline is accepted by \<open>replace_active_pipeline\<close>, which does not look at the nodes.
  The three requests that read end it when the active pipeline cannot be dumped, when a manifest of the
  registry cannot be parsed or its entry cannot be dumped, and when a query of the file system throws. No other
  event of the model does, and the request for a run record never does.
\<close>

theorem server_crash_iff:
  assumes "server_run J webp n s" and "dump_law J"
  shows "serve J webp what now e s = None \<longleftrightarrow>
    (case e of
       PutPipeline body \<Rightarrow> isl (fst (put_active_try J body s)) \<and> \<not> utf8_valid what
     | PostParams body \<Rightarrow> isl (fst (post_params_try J body s)) \<and> \<not> utf8_valid what
     | Received c binary message \<Rightarrow> binary \<and> \<not> utf8_valid what \<and>
         (\<exists>f. decode_frame message = Inr (Some f) \<and> ef_type f = FControl \<and> isl (fst (control_try J c f s)))
     | PostRun \<Rightarrow> run_raises J s
     | DebounceFired \<Rightarrow> run_raises J s
     | GetActive \<Rightarrow> \<not> js_is_null J (se_pipeline s) \<and> js_dump J (se_pipeline s) = None
     | GetRegistry registry \<Rightarrow> (\<exists>descs d i manifest. registry = Some descs \<and> Some d \<in> set descs \<and>
         node_id d = Some i \<and> manifest_json d = Some manifest \<and>
         (\<not> utf8_valid i \<or> Option.bind (js_parse J manifest) (js_dump J) = None))
     | GetStatic fs editor_static url \<Rightarrow> static_file_response fs editor_static url = Inl ()
     | _ \<Rightarrow> False)"
proof -
  note law = assms(2) and ok = server_run_session_ok [OF assms(1)]
  show ?thesis
  proof (cases e)
    case (Received c binary message)
    then show ?thesis using ws_message_None [OF law, of what c binary message s] by (simp add: serve_def)
  next
    case (PutPipeline body)
    then show ?thesis
      by (simp add: serve_def put_active_pipeline_def answer_exception_None [OF law])
  next
    case (PostParams body)
    then show ?thesis by (simp add: serve_def post_params_def answer_exception_None [OF law])
  next
    case PostRun
    then show ?thesis using post_run_None [OF law ok] by (simp add: serve_def)
  next
    case DebounceFired
    then show ?thesis
      using emit_completed_run_None [OF ok, of J webp now] run_broadcasts_raises [OF law, of s] by (simp add: serve_def)
  next
    case GetActive
    then show ?thesis
      by (auto simp: serve_def get_active_pipeline_def json_response_raises dump_envelopes [OF law] dump_object [OF law])
  next
    case (GetRun url)
    then show ?thesis using get_run_answers [OF law server_run_entries [OF assms(1)]] by (simp add: serve_def)
  next
    case (GetRegistry registry)
    then show ?thesis using get_registry_raises [OF law] by (simp add: serve_def)
  next
    case (GetStatic fs editor_static url)
    then show ?thesis using get_static_raises [OF law] by (simp add: serve_def)
  qed (simp_all add: serve_def)
qed

text \<open>
  The run records: as long as fewer than \<open>2 ^ 64 - 1\<close> events have been served, a request for run \<open>k\<close>
  by its decimal number finds a completed run exactly for the runs since the pipeline was last
  replaced, and answers 404 for every other number.
\<close>

lemma get_run_iff:
  assumes "server_run J webp n s" and "n < 2 ^ 64 - 1" and "k < 2 ^ 64"
  shows "get_run J (runs_prefix @ nat_to_string k) s =
    (if 1 \<le> k \<and> k < unat (se_next_run_id s)
     then json_response J (json_ok J (js_make_object J [(''run_id'', js_u64 J (of_nat k)),
       (''status'', js_string J ''completed''), (''output_paths'', js_make_array J [])])) ''200 OK''
     else json_response J (error_envelope J ''not_found'' ''run id not found'') ''404 Not Found'')"
proof -
  have "1 \<le> (of_nat k :: u64) \<longleftrightarrow> 1 \<le> k" and "(of_nat k :: u64) < w \<longleftrightarrow> k < unat w" for w
    using assms(3) by (simp_all add: word_le_nat_alt word_less_nat_alt unsigned_of_nat take_bit_nat_eq_self)
  moreover from server_run_runs_ok [OF assms(1,2)] have "map_of (se_runs s) (of_nat k) =
      (if 1 \<le> (of_nat k :: u64) \<and> of_nat k < se_next_run_id s then Some (completed_run J) else None)"
    by (simp add: runs_ok_def)
  ultimately show ?thesis
    by (simp add: get_run_def parse_run_id_nat_to_string [OF assms(3)] run_record_def run_json_def
      completed_run_def)
qed

section \<open>Concrete sessions\<close>

text \<open>A JSON instance with two documents: a subscription, and a pipeline whose only node is a number.\<close>

definition demo_subscribe :: json where
  "demo_subscribe = JObj [(''type'', JStr ''node.subscribe_thumbnail''), (''node_id'', JStr ''n''),
     (''port'', JStr ''p''), (''max_size'', JNum 4096), (''fps'', JNum 0)]"

definition demo_bad_pipeline :: json where
  "demo_bad_pipeline = JObj [(''version'', JStr ''0.4''), (''nodes'', JArr [JNum 1]), (''edges'', JArr [])]"

fun jv_bool :: "json \<Rightarrow> bool option" where
  "jv_bool (JBool b) = Some b"
| "jv_bool _ = None"

fun jv_is_object :: "json \<Rightarrow> bool" where
  "jv_is_object (JObj _) = True"
| "jv_is_object _ = False"

primrec jv_dumps :: "json \<Rightarrow> bool" where
  "jv_dumps JNull = True"
| "jv_dumps (JBool b) = True"
| "jv_dumps (JNum r) = True"
| "jv_dumps (JStr s) = utf8_valid s"
| "jv_dumps (JArr js) = list_all (\<lambda>b. b) (map jv_dumps js)"
| "jv_dumps (JObj kvs) = list_all (\<lambda>(k, b). utf8_valid k \<and> b) (map (map_prod (\<lambda>k. k) jv_dumps) kvs)"

definition demo_editor :: "json editor_api" where
  "demo_editor = json_api.extend (json_of [(''subscribe'', demo_subscribe), (''pipeline'', demo_bad_pipeline)])
     \<lparr>js_contains = (\<lambda>j k. jv_find j k \<noteq> None),
      js_is_integer = (\<lambda>j. jv_number j \<noteq> None), js_get_i64 = (\<lambda>j. map_option floor (jv_number j)),
      js_get_bool = jv_bool, js_size = (\<lambda>j. length (jv_elements j)),
      js_index = (\<lambda>j i. if i < length (jv_elements j) then Some (jv_elements j ! i) else None),
      js_get_float = (\<lambda>j. None),
      js_is_object = jv_is_object, js_is_null = (\<lambda>j. j = JNull), js_null = JNull, js_bool = JBool,
      js_string = JStr, js_u64 = (\<lambda>n. JNum (of_int (uint n))), js_make_object = JObj, js_make_array = JArr,
      js_dump = (\<lambda>j. if jv_dumps j then Some [] else None),
      js_assign_nested = (\<lambda>j k1 k2 v. Option.bind (jv_set (case jv_find j k1 of None \<Rightarrow> JNull | Some p \<Rightarrow> p) k2 v)
        (jv_set j k1)),
      js_with_elements = (\<lambda>j k es. case jv_set j k (JArr es) of None \<Rightarrow> j | Some j' \<Rightarrow> j')\<rparr>"

lemma demo_dump_law: "dump_law demo_editor"
  by (auto simp: dump_law_def demo_editor_def json_api.defs list_all_iff)

definition demo_frame :: "byte list" where
  "demo_frame = encode_frame FControl 0 0 (map (\<lambda>c. of_nat (of_char c)) ''subscribe'')"

definition demo_session :: "json session" where
  "demo_session = (new_session demo_editor)\<lparr>se_clients := [7], se_subscriptions :=
     [(7, \<lparr>ts_node_id = ''n'', ts_port = ''p'', ts_max_size = 256, ts_fps = 1\<rparr>)]\<rparr>"

lemma demo_subscribed:
  "serve demo_editor webp what now (Received 7 True demo_frame) (ws_open 7 (new_session demo_editor)) =
     Some ([(7, encode_frame FAck 0 0 [])], demo_session)"
proof -
  have d: "decode_frame demo_frame = Inr (Some \<lparr>ef_type = FControl, ef_node_id = 0, ef_timestamp_ms = 0,
      ef_payload = [115, 117, 98, 115, 99, 114, 105, 98, 101]\<rparr>)"
    by code_simp
  have p: "payload_string \<lparr>ef_type = FControl, ef_node_id = 0, ef_timestamp_ms = 0,
      ef_payload = [115, 117, 98, 115, 99, 114, 105, 98, 101]\<rparr> = ''subscribe''"
    by code_simp
  have u: "utf8_valid ''node.subscribe_thumbnail''" by code_simp
  show ?thesis
    by (simp add: serve_def demo_session_def ws_message_def control_try_def d p demo_editor_def json_api.defs json_of_def
      demo_subscribe_def control_message_def apply_thumbnail_control_def jv_with_def ws_open_def new_session_def
      insort_insert_key_def clamp_u32_def ack_frame_def u)
qed

lemma demo_session_run: "server_run demo_editor webp 2 demo_session"
proof -
  have "server_run demo_editor webp (Suc 0) (ws_open 7 (new_session demo_editor))"
    by (rule run_event [OF run_start, where e = "Opened 7"]) (simp_all add: serve_def new_session_def)
  then have "server_run demo_editor webp (Suc (Suc 0)) demo_session"
    by (rule run_event [OF _ _ demo_subscribed])
       (simp add: ws_open_def new_session_def insort_insert_key_def)
  then show ?thesis by (simp add: numeral_2_eq_2)
qed

text \<open>The subscription above was clamped; a text message is answered to its sender.\<close>

theorem server_run_safe_witness:
  "session_ok demo_session \<and> push_thumbnail_frames (\<lambda>_ _. [0]) 5 demo_session \<noteq> None \<and>
   fst ` set [(7, encode_frame FAck 0 0 [])] \<subseteq> set (se_clients demo_session)"
  using server_run_safe [OF demo_session_run, where now = 5 and e = "Received 7 False []" and what = "[]"
      and out = "[(7, encode_frame FAck 0 0 [])]" and s' = demo_session and webp = "\<lambda>_ _. [0]"]
  by (simp add: serve_def ws_message_def ack_error_def ack_frame_def demo_session_def demo_editor_def json_api.defs
      flip: One_nat_def)

definition demo_accepted :: "json session" where
  "demo_accepted = (new_session demo_editor)\<lparr>se_pipeline := demo_bad_pipeline\<rparr>"

lemma demo_accepted_run: "server_run demo_editor webp (Suc 0) demo_accepted"
proof (rule run_event [OF run_start, where e = "PutPipeline ''pipeline''"])
  have u: "utf8_valid ''version''" "utf8_valid ''0.4''" "utf8_valid ''edges''" by code_simp+
  show "serve demo_editor webp what now (PutPipeline ''pipeline'') (new_session demo_editor) = Some ([], demo_accepted)"
    for what now
    by (simp add: serve_def put_active_pipeline_def put_active_try_def answer_exception_def json_response_def json_ok_def
      replace_active_pipeline_def Let_def demo_editor_def json_api.defs json_of_def demo_bad_pipeline_def jv_with_def
      demo_accepted_def new_session_def u)
qed simp

text \<open>A run of the accepted pipeline, and a body that cannot be parsed with an exception that quotes it.\<close>

theorem server_crash_iff_witness:
  "serve demo_editor (\<lambda>_ _. []) [] 0 PostRun demo_accepted = None \<and>
   serve demo_editor (\<lambda>_ _. []) [CHR 0xFF] 0 (PutPipeline [CHR 0xFF]) demo_accepted = None \<and>
   serve demo_editor (\<lambda>_ _. []) ''parse error'' 0 (PutPipeline [CHR 0xFF]) demo_accepted \<noteq> None"
proof -
  have u: "\<not> utf8_valid [CHR 0xFF]" "utf8_valid ''parse error''" by code_simp+
  show ?thesis
    unfolding server_crash_iff [OF demo_accepted_run demo_dump_law]
    by (simp add: run_raises_def put_active_try_def demo_accepted_def demo_editor_def json_api.defs json_of_def
        demo_bad_pipeline_def jv_with_def u)
qed

definition demo_ran :: "json session" where
  "demo_ran = (new_session demo_editor)\<lparr>se_next_run_id := 2, se_runs := [(1, completed_run demo_editor)]\<rparr>"

lemma demo_ran_run: "server_run demo_editor (\<lambda>_ _. []) (Suc 0) demo_ran"
proof (rule run_event [OF run_start, where e = PostRun and out = "[]"])
  show "serve demo_editor (\<lambda>_ _. []) [] 0 PostRun (new_session demo_editor) = Some ([], demo_ran)"
    by (simp add: serve_def post_run_def emit_completed_run_def create_run_record_def Let_def push_thumbnail_frames_def
      group_targets_def profile_payload_def broadcast_json_frame_def new_session_def demo_ran_def completed_run_def
      emplace_def demo_editor_def json_api.defs log_payload_def json_response_def json_ok_def run_json_def)
qed simp

end
