(* ===== verification/Editor_Lifecycle.thy ===== *)
theory Editor_Lifecycle
  imports Core_Types
begin

text \<open>
  Starting and stopping the editor server (\<open>EditorServer::start\<close> and \<open>stop\<close> of
  \<open>src/cpipe/server/EditorServer.cpp\<close>): the thread that calls \<open>start\<close>, the thread of the event loop, and the
  mutex and condition variable they share. The steps of the two threads interleave freely; the five
  seconds of \<open>wait_for\<close> may elapse at any time while the start is not complete.
\<close>

section \<open>State\<close>

text \<open>
  The calling thread waits on the condition variable, holds the mutex after it woke up, or joins the
  loop thread inside \<open>stop\<close>, with the mutex still held or not, and then returns its status.
\<close>

datatype main_pc = MWait | MWoken | MTimedOut | MJoin bool status_code | MDone status_code

text \<open>
  The loop thread sets the routes up, calls the listen callback with the outcome of the bind, runs the
  loop, or handles an exception.
\<close>

datatype io_pc = ISetup | IListen bool | IThrow | IRun | IRunThrow | ILeave | IFinished

datatype thread = MainThread | IoThread

record life =
  li_main :: main_pc
  li_io :: io_pc
  li_lock :: "thread option"
  li_complete :: bool
  li_success :: bool
  li_loop :: bool
  li_socket :: bool
  li_running :: bool
  li_close_deferred :: bool
  li_debounce :: bool

text \<open>After the loop thread has been created.\<close>

definition life_start :: life where
  "life_start = \<lparr>li_main = MWait, li_io = ISetup, li_lock = None, li_complete = False, li_success = False,
     li_loop = False, li_socket = False, li_running = False, li_close_deferred = False, li_debounce = False\<rparr>"

section \<open>Steps\<close>

text \<open>\<open>stop\<close> up to the join: the deferred closure does nothing for a null loop or a null socket.\<close>

definition stop_begin :: "life \<Rightarrow> life" where
  "stop_begin s = s\<lparr>li_debounce := False, li_close_deferred := li_close_deferred s \<or> (li_loop s \<and> li_socket s)\<rparr>"

text \<open>\<open>stop\<close> after the join.\<close>

definition stop_end :: "life \<Rightarrow> life" where
  "stop_end s = s\<lparr>li_socket := False, li_loop := False, li_running := False\<rparr>"

definition main_step :: "bool \<Rightarrow> life \<Rightarrow> life option" where
  "main_step expired s =
     (case li_main s of
        MWait \<Rightarrow>
          if li_lock s \<noteq> None then None
          else if li_complete s then Some (s\<lparr>li_main := MWoken, li_lock := Some MainThread\<rparr>)
          else if expired then Some (s\<lparr>li_main := MTimedOut, li_lock := Some MainThread\<rparr>)
          else None
      | MTimedOut \<Rightarrow> Some ((stop_begin s)\<lparr>li_main := MJoin True Failed\<rparr>)
      | MWoken \<Rightarrow>
          if \<not> li_success s then Some ((stop_begin (s\<lparr>li_lock := None\<rparr>))\<lparr>li_main := MJoin False Failed\<rparr>)
          else Some (s\<lparr>li_debounce := True, li_lock := None, li_main := MDone Ok\<rparr>)
      | MJoin held status \<Rightarrow>
          if li_io s \<noteq> IFinished then None
          else Some ((stop_end s)\<lparr>li_lock := if held then None else li_lock s, li_main := MDone status\<rparr>)
      | MDone _ \<Rightarrow> None)"

text \<open>
  \<open>bound\<close> is the outcome of the bind and \<open>throws\<close> whether the setup or a callback of the loop throws. The callback and the handler
  hold the mutex while they report, which is one step here. Without a listen socket the loop returns at
  once; with one it returns after the deferred close (the sockets library may keep it longer, for
  connections that are still open).
\<close>

definition io_step :: "bool \<Rightarrow> bool \<Rightarrow> life \<Rightarrow> life option" where
  "io_step bound throws s =
     (case li_io s of
        ISetup \<Rightarrow> Some (if throws then s\<lparr>li_io := IThrow\<rparr> else s\<lparr>li_loop := True, li_io := IListen bound\<rparr>)
      | IListen token \<Rightarrow>
          if li_lock s \<noteq> None then None
          else Some (s\<lparr>li_socket := token, li_success := token, li_complete := True, li_running := token,
            li_io := if token then IRun else ILeave\<rparr>)
      | IThrow \<Rightarrow>
          if li_lock s \<noteq> None then None
          else Some (s\<lparr>li_success := False, li_complete := True, li_io := ILeave\<rparr>)
      | IRun \<Rightarrow>
          if throws then Some (s\<lparr>li_io := IRunThrow\<rparr>)
          else if li_close_deferred s then Some (s\<lparr>li_io := ILeave\<rparr>)
          else None
      | IRunThrow \<Rightarrow>
          if li_lock s \<noteq> None then None
          else Some (s\<lparr>li_success := False, li_complete := True, li_io := ILeave\<rparr>)
      | ILeave \<Rightarrow> Some (s\<lparr>li_socket := False, li_loop := False, li_running := False, li_io := IFinished\<rparr>)
      | IFinished \<Rightarrow> None)"

inductive life_step :: "life \<Rightarrow> life \<Rightarrow> bool" where
  step_main: "main_step expired s = Some s' \<Longrightarrow> life_step s s'"
| step_io: "io_step bound throws s = Some s' \<Longrightarrow> life_step s s'"

inductive_cases life_stepE: "life_step s s'"

abbreviation life_reach :: "life \<Rightarrow> life \<Rightarrow> bool" where
  "life_reach \<equiv> life_step\<^sup>*\<^sup>*"

section \<open>Invariant\<close>

text \<open>
  Who holds the mutex, and that the start is complete exactly when the loop thread has reported. When
  the wait has timed out, the loop thread has not reported.
\<close>

fun reported :: "io_pc \<Rightarrow> bool" where
  "reported ISetup = False"
| "reported (IListen _) = False"
| "reported IThrow = False"
| "reported _ = True"

fun holds_lock :: "main_pc \<Rightarrow> bool" where
  "holds_lock MWoken = True"
| "holds_lock MTimedOut = True"
| "holds_lock (MJoin held _) = held"
| "holds_lock _ = False"

fun gave_up :: "main_pc \<Rightarrow> bool" where
  "gave_up MTimedOut = True"
| "gave_up (MJoin held _) = held"
| "gave_up _ = False"

definition life_inv :: "life \<Rightarrow> bool" where
  "life_inv s \<longleftrightarrow>
     li_lock s = (if holds_lock (li_main s) then Some MainThread else None) \<and>
     li_complete s = reported (li_io s) \<and>
     (case li_main s of
        MWait \<Rightarrow> True
      | MWoken \<Rightarrow> li_complete s
      | MTimedOut \<Rightarrow> \<not> li_complete s
      | MJoin held status \<Rightarrow> status = Failed \<and> (if held then \<not> li_complete s else li_complete s \<and> \<not> li_success s)
      | MDone status \<Rightarrow> li_complete s \<and> (status = Ok \<or> status = Failed \<and> li_io s = IFinished \<and> \<not> li_running s)) \<and>
     (case li_io s of IRun \<Rightarrow> li_success s \<and> li_running s | ILeave \<Rightarrow> True | IRunThrow \<Rightarrow> True
      | _ \<Rightarrow> \<not> li_running s)"

lemmas life_defs = life_inv_def main_step_def io_step_def stop_begin_def stop_end_def

lemma life_inv_start: "life_inv life_start"
  by (simp add: life_inv_def life_start_def)

lemma life_inv_main: "life_inv s \<Longrightarrow> main_step expired s = Some s' \<Longrightarrow> life_inv s'"
  by (cases "li_main s"; cases "li_io s") (auto simp: life_defs split: if_splits)

lemma life_inv_io: "life_inv s \<Longrightarrow> io_step bound throws s = Some s' \<Longrightarrow> life_inv s'"
  by (cases "li_io s"; cases "li_main s") (auto simp: life_defs split: if_splits)

lemma life_inv_step: "life_inv s \<Longrightarrow> life_step s t \<Longrightarrow> life_inv t"
  by (erule life_stepE) (rule life_inv_main life_inv_io, assumption+)+

lemma life_reach_inv: "life_reach life_start s \<Longrightarrow> life_inv s"
proof (induction rule: rtranclp_induct)
  case base
  show ?case by (rule life_inv_start)
next
  case (step s t)
  then show ?case by (blast intro: life_inv_step)
qed

section \<open>Whether start returns\<close>

text \<open>Once the caller has given up waiting, it holds the mutex the loop thread needs to report.\<close>

lemma gave_up_step:
  assumes "life_inv s" and "gave_up (li_main s)" and "life_step s t"
  shows "gave_up (li_main t)"
  using assms(3)
proof (cases rule: life_step.cases)
  case (step_main expired)
  with assms(1,2) show ?thesis
    by (cases "li_main s"; cases "li_io s") (auto simp: life_defs split: if_splits)
next
  case (step_io bound throws)
  with assms(2) show ?thesis by (cases "li_io s") (auto simp: life_defs split: if_splits)
qed

lemma gave_up_reach:
  assumes "life_reach s t" and "life_inv s" and "gave_up (li_main s)"
  shows "gave_up (li_main t)"
proof -
  from assms have "life_inv t \<and> gave_up (li_main t)"
  proof (induction rule: rtranclp_induct)
    case (step t u)
    then show ?case using gave_up_step life_inv_step by blast
  qed simp
  then show ?thesis by simp
qed

text \<open>Otherwise some thread can take a step, and only a bounded number of steps is left.\<close>

fun io_rank :: "io_pc \<Rightarrow> nat" where
  "io_rank ISetup = 5"
| "io_rank (IListen _) = 4"
| "io_rank IThrow = 4"
| "io_rank IRun = 3"
| "io_rank IRunThrow = 2"
| "io_rank ILeave = 1"
| "io_rank IFinished = 0"

fun main_rank :: "main_pc \<Rightarrow> nat" where
  "main_rank MWait = 3"
| "main_rank MWoken = 2"
| "main_rank MTimedOut = 2"
| "main_rank (MJoin _ _) = 1"
| "main_rank (MDone _) = 0"

definition life_rank :: "life \<Rightarrow> nat" where
  "life_rank s = io_rank (li_io s) + main_rank (li_main s)"

lemma life_step_rank: "life_step s t \<Longrightarrow> life_rank t < life_rank s"
proof (erule life_stepE)
  show "main_step expired s = Some t \<Longrightarrow> life_rank t < life_rank s" for expired
    by (cases "li_main s") (auto simp: life_defs life_rank_def split: if_splits)
  show "io_step bound throws s = Some t \<Longrightarrow> life_rank t < life_rank s" for bound throws
    by (cases "li_io s") (auto simp: life_defs life_rank_def split: if_splits)
qed

lemma life_progress:
  assumes "life_inv s" and "\<not> gave_up (li_main s)" and "\<nexists>status. li_main s = MDone status"
  shows "\<exists>t. life_step s t \<and> \<not> gave_up (li_main t)"
proof -
  have "(\<exists>t. main_step False s = Some t \<and> \<not> gave_up (li_main t)) \<or>
      (\<exists>t. io_step True False s = Some t \<and> \<not> gave_up (li_main t))"
    using assms by (cases "li_main s"; cases "li_io s") (auto simp: life_defs)
  then show ?thesis by (auto intro: step_main step_io)
qed

lemma life_returns:
  assumes "life_inv s" and "\<not> gave_up (li_main s)"
  shows "\<exists>t status. life_reach s t \<and> li_main t = MDone status"
  using assms
proof (induction "life_rank s" arbitrary: s rule: less_induct)
  case less
  show ?case
  proof (cases "\<exists>status. li_main s = MDone status")
    case False
    with life_progress [OF less.prems] obtain t where t: "life_step s t" "\<not> gave_up (li_main t)" by blast
    then have "life_inv t" using less.prems(1) by (blast intro: life_inv_step)
    from less.hyps [OF life_step_rank [OF t(1)] this t(2)] t(1) show ?thesis
      by (meson converse_rtranclp_into_rtranclp)
  qed blast
qed

section \<open>Properties\<close>

text \<open>
  C23: At every point of a start, the call can still return exactly when its wait has not timed out: after
  the timeout \<open>stop\<close> joins the loop thread while the caller holds the mutex that thread needs, so neither
  makes progress again. A returned failure means that the loop thread has ended.
\<close>

theorem start_returns_iff:
  assumes "life_reach life_start s"
  shows "((\<exists>t status. life_reach s t \<and> li_main t = MDone status) \<longleftrightarrow> \<not> gave_up (li_main s)) \<and>
    (li_main s = MDone Failed \<longrightarrow> li_io s = IFinished \<and> \<not> li_running s)"
proof -
  from assms have inv: "life_inv s" by (rule life_reach_inv)
  have "\<not> gave_up (li_main s)" if "life_reach s t" "li_main t = MDone status" for t status
    using gave_up_reach [OF that(1) inv] that(2) by auto
  moreover have "li_main s = MDone Failed \<longrightarrow> li_io s = IFinished \<and> \<not> li_running s"
    using inv by (auto simp: life_inv_def)
  ultimately show ?thesis using life_returns [OF inv] by blast
qed

theorem start_returns_iff_witness:
  "\<exists>s. life_reach life_start s \<and> \<not> (\<exists>t status. life_reach s t \<and> li_main t = MDone status)"
proof -
  let ?s = "life_start\<lparr>li_main := MTimedOut, li_lock := Some MainThread\<rparr>"
  have "main_step True life_start = Some ?s" by (simp add: main_step_def life_start_def)
  then have "life_reach life_start ?s" by (blast intro: step_main)
  with start_returns_iff [OF this] show ?thesis by auto
qed

end
