(* ===== verification/Param_Blob.thy ===== *)
theory Param_Blob
  imports Byte_Reader
begin

text \<open>
  Parameter blocks: a node writes 32-bit words in the byte order of the machine, least significant byte
  first, and the dispatcher of its compiled filter reads them back from the bytes.
\<close>

unbundle bit_operations_syntax

text \<open>Words are stored with the least significant byte first.\<close>

definition le_bytes :: "u32 \<Rightarrow> byte list" where
  "le_bytes w = rev (put_u32 w)"

definition as_bytes :: "f32 list \<Rightarrow> byte list" where
  "as_bytes ws = concat (map le_bytes ws)"

text \<open>The word at a byte offset of a block that is long enough for it.\<close>

definition le_word :: "byte list \<Rightarrow> nat \<Rightarrow> fault + u32" where
  "le_word bytes i =
     bind_res (byte_at bytes i) (\<lambda>b0.
     bind_res (byte_at bytes (i + 1)) (\<lambda>b1.
     bind_res (byte_at bytes (i + 2)) (\<lambda>b2.
     bind_res (byte_at bytes (i + 3)) (\<lambda>b3.
     Inr (push_bit 24 (ucast b3) OR push_bit 16 (ucast b2) OR push_bit 8 (ucast b1) OR ucast b0)))))"

section \<open>Reading back\<close>

lemma length_le_bytes [simp]: "length (le_bytes w) = 4"
  by (simp add: le_bytes_def)

lemma length_as_bytes: "length (as_bytes ws) = 4 * length ws"
  by (induction ws) (simp_all add: as_bytes_def)

lemma drop_as_bytes: "drop (4 * i) (as_bytes ws) = as_bytes (drop i ws)"
proof (induction i arbitrary: ws)
  case (Suc i)
  show ?case
  proof (cases ws)
    case (Cons w ws')
    have "drop (4 * Suc i) (as_bytes ws) = drop (4 * i) (drop 4 (as_bytes ws))" by (simp add: add.commute)
    also have "drop 4 (as_bytes ws) = as_bytes ws'" by (simp add: as_bytes_def Cons)
    finally show ?thesis by (simp add: Suc Cons)
  qed (simp add: as_bytes_def)
qed simp

lemma le_word_drop: "le_word bytes i = le_word (drop i bytes) 0"
  by (simp add: le_word_def byte_at_def less_diff_conv add.commute)

lemma le_word_le_bytes: "le_word (le_bytes w @ rest) 0 = Inr w"
proof -
  obtain a b c d where p: "put_u32 w = [a, b, c, d]" by (simp add: put_u32_def)
  have "le_word (le_bytes w @ rest) 0 =
      Inr (push_bit 24 (ucast a) OR push_bit 16 (ucast b) OR push_bit 8 (ucast c) OR ucast d)"
    by (simp add: le_word_def le_bytes_def p byte_at_def numeral_2_eq_2 numeral_3_eq_3)
  moreover have "put_u32 (push_bit 24 (ucast a) OR push_bit 16 (ucast b) OR push_bit 8 (ucast c) OR ucast d) = put_u32 w"
    unfolding p by (rule bytes_of_u32)
  then have "(push_bit 24 (ucast a) OR push_bit 16 (ucast b) OR push_bit 8 (ucast c) OR ucast d) = w"
    by (rule put_u32_inject)
  ultimately show ?thesis by simp
qed

lemma le_word_as_bytes:
  assumes "i < length ws"
  shows "le_word (as_bytes ws) (4 * i) = Inr (ws ! i)"
proof -
  from assms have "as_bytes (drop i ws) = le_bytes (ws ! i) @ as_bytes (drop (Suc i) ws)"
    by (simp add: as_bytes_def Cons_nth_drop_Suc [symmetric])
  then show ?thesis by (subst le_word_drop) (simp add: drop_as_bytes le_word_le_bytes)
qed

lemma map_res_Inr: "(\<And>x. x \<in> set xs \<Longrightarrow> f x = Inr (g x)) \<Longrightarrow> map_res f xs = Inr (map g xs)"
  by (induction xs) simp_all

lemma small_u32:
  assumes "k < 2 ^ 31"
  shows "unat (of_nat k :: u32) = k" and "sint (of_nat k :: u32) = int k"
proof -
  show u: "unat (of_nat k :: u32) = k" using assms by (simp add: unsigned_of_nat take_bit_nat_eq_self)
  show "sint (of_nat k :: u32) = int k"
    using assms by (simp add: signed_of_nat signed_take_bit_int_eq_self)
qed

end
