(* ===== verification/Lut3d.thy ===== *)
theory Lut3d
  imports Core_Types Param_Blob Text_Stream Fs_Path
begin

text \<open>
  3D colour tables: the loader of \<open>.cube\<close> and \<open>.spi3d\<close> files (\<open>src/cpipe/color/Cube3dLutLoader.cpp\<close>), the
  parameter block the node sends (\<open>make_param_blob_words\<close> of \<open>src/cpipe/nodes/color/lut3d.cpp\<close>) and the
  dispatcher that hands the table to the compiled filter (\<open>src/cpipe/nodes/color/lut3d_dispatch.cpp\<close>).

  A failed load is \<open>Inl (Refused status message)\<close>; an access outside a vector is \<open>Inl (Faulty fault)\<close>.
\<close>

unbundle bit_operations_syntax

section \<open>Loader\<close>

datatype lut_stop = Refused status_code string | Faulty fault

record cube3d_lut =
  lut_size :: u32
  lut_values :: "f32 list"

definition new_lut :: cube3d_lut where
  "new_lut = \<lparr>lut_size = 0, lut_values = []\<rparr>"

definition strip_comment :: "string \<Rightarrow> string" where
  "strip_comment line = takeWhile (\<lambda>c. c \<noteq> CHR ''#'') line"

text \<open>Numbers of type \<open>std::size_t\<close>; the size is at most 256 where the count is used.\<close>

definition value_count_for_size :: "u32 \<Rightarrow> nat" where
  "value_count_for_size n = unat n * unat n * unat n * 3"

definition valid_size :: "u32 \<Rightarrow> lut_stop + unit" where
  "valid_size n =
     (if n < 2 then Inl (Refused Failed ''3D LUT size must be at least 2'')
      else if n > 256 then Inl (Refused Failed ''3D LUT size above P2 loader limit'')
      else Inr ())"

text \<open>The extraction of the three numbers of a row.\<close>

definition read_rgb :: "string \<Rightarrow> ((f32 \<times> f32 \<times> f32) \<times> string) option" where
  "read_rgb s =
     Option.bind (read_f32 s) (\<lambda>(r, s).
     Option.bind (read_f32 s) (\<lambda>(g, s).
     Option.bind (read_f32 s) (\<lambda>(b, s). Some ((r, g, b), s))))"

text \<open>One line of a \<open>.cube\<close> file, on the size and the values so far.\<close>

definition cube_line :: "string \<Rightarrow> u32 \<times> f32 list \<Rightarrow> lut_stop + u32 \<times> f32 list" where
  "cube_line line st =
     (case (read_word (strip_comment line), st) of
        (None, _) \<Rightarrow> Inr st
      | (Some (head, row), (n, values)) \<Rightarrow>
          if head = ''TITLE'' \<or> head = ''DOMAIN_MIN'' \<or> head = ''DOMAIN_MAX'' then Inr st
          else if head = ''LUT_3D_SIZE'' then
            (case read_i32 row of
               None \<Rightarrow> Inl (Refused Failed ''invalid LUT_3D_SIZE'')
             | Some (parsed_size, _) \<Rightarrow>
                 if parsed_size < 0 then Inl (Refused Failed ''invalid LUT_3D_SIZE'')
                 else bind_res (valid_size (of_int parsed_size)) (\<lambda>_. Inr (of_int parsed_size, values)))
          else
            (case read_rgb (strip_comment line) of
               None \<Rightarrow> Inl (Refused Failed ''invalid .cube RGB row'')
             | Some ((r, g, b), _) \<Rightarrow> Inr (n, values @ [r, g, b])))"

definition load_cube :: "string \<Rightarrow> lut_stop + cube3d_lut" where
  "load_cube input =
     bind_res (fold_res cube_line (text_lines input) (0, [])) (\<lambda>(n, values).
     if n = 0 then Inl (Refused Failed ''missing LUT_3D_SIZE'')
     else if length values \<noteq> value_count_for_size n then Inl (Refused Failed ''wrong number of .cube RGB rows'')
     else Inr \<lparr>lut_size = n, lut_values = values\<rparr>)"

text \<open>Writing an element of a vector.\<close>

definition store :: "nat \<Rightarrow> 'a \<Rightarrow> 'a list \<Rightarrow> lut_stop + 'a list" where
  "store i x xs = (if i < length xs then Inr (xs[i := x]) else Inl (Faulty OutOfBounds))"

definition spi3d_row ::
  "int \<Rightarrow> int \<times> int \<times> int \<Rightarrow> f32 \<times> f32 \<times> f32 \<Rightarrow> f32 list \<times> bool list \<Rightarrow> lut_stop + f32 list \<times> bool list" where
  "spi3d_row n idx rgb st =
     (case (idx, rgb, st) of ((r, g, b), (out_r, out_g, out_b), (values, seen)) \<Rightarrow>
        if r < 0 \<or> g < 0 \<or> b < 0 \<or> r \<ge> n \<or> g \<ge> n \<or> b \<ge> n
        then Inl (Refused Failed ''.spi3d index out of range'')
        else
          let index = nat r * nat n * nat n + nat g * nat n + nat b; offset = index * 3
          in bind_res (store offset out_r values) (\<lambda>values.
             bind_res (store (offset + 1) out_g values) (\<lambda>values.
             bind_res (store (offset + 2) out_b values) (\<lambda>values.
             bind_res (store index True seen) (\<lambda>seen. Inr (values, seen))))))"

definition read_3_ints :: "string \<Rightarrow> ((int \<times> int \<times> int) \<times> string) option" where
  "read_3_ints s =
     Option.bind (read_i32 s) (\<lambda>(r, s).
     Option.bind (read_i32 s) (\<lambda>(g, s).
     Option.bind (read_i32 s) (\<lambda>(b, s). Some ((r, g, b), s))))"

text \<open>The rows of a \<open>.spi3d\<close> file up to the first that cannot be extracted.\<close>

definition read_spi3d_row :: "string \<Rightarrow> (((int \<times> int \<times> int) \<times> f32 \<times> f32 \<times> f32) \<times> string) option" where
  "read_spi3d_row s =
     Option.bind (read_3_ints s) (\<lambda>(idx, s).
     Option.bind (read_rgb s) (\<lambda>(rgb, s). Some ((idx, rgb), s)))"

text \<open>Every extraction takes at least one character, so a text has finitely many rows.\<close>

lemma read_sign_length: "read_sign s = (b, t) \<Longrightarrow> length t \<le> length s"
  by (auto simp: read_sign_def split: list.splits if_splits)

lemma read_i32_length: "read_i32 s = Some (n, t) \<Longrightarrow> length t < length s"
proof -
  assume a: "read_i32 s = Some (n, t)"
  obtain neg u where u: "read_sign (dropWhile is_blank s) = (neg, u)" by fastforce
  from a u have "takeWhile is_digit u \<noteq> []" "t = drop (length (takeWhile is_digit u)) u"
    by (auto simp: read_i32_def Let_def split: if_splits)
  then have "length t < length u" by (cases u) (auto split: if_splits)
  also have "\<dots> \<le> length (dropWhile is_blank s)" using u by (rule read_sign_length)
  also have "\<dots> \<le> length s" by (rule length_dropWhile_le)
  finally show ?thesis .
qed

lemma read_fraction_length: "read_fraction s = (f, t) \<Longrightarrow> length t \<le> length s"
  by (auto simp: read_fraction_def intro: le_SucI length_dropWhile_le split: list.splits if_splits)

lemma read_exponent_length: "read_exponent s = Some (e, t) \<Longrightarrow> length t \<le> length s"
proof (cases s)
  case (Cons c cs)
  obtain below u where u: "read_sign cs = (below, u)" by fastforce
  assume "read_exponent s = Some (e, t)"
  with Cons u have "t = s \<or> t = dropWhile is_digit u"
    by (auto simp: read_exponent_def Let_def split: if_splits)
  then show ?thesis
    using read_sign_length [OF u] length_dropWhile_le [of is_digit u] Cons by auto
qed (simp add: read_exponent_def)

lemma read_decimal_length: "read_decimal s = Some (v, t) \<Longrightarrow> length t \<le> length s"
proof -
  assume a: "read_decimal s = Some (v, t)"
  obtain neg u where u: "read_sign (dropWhile is_blank s) = (neg, u)" by fastforce
  obtain f w where w: "read_fraction (dropWhile is_digit u) = (f, w)" by fastforce
  from a u w obtain e where "read_exponent w = Some (e, t)"
    by (auto simp: read_decimal_def Let_def split: if_splits option.splits)
  then have "length t \<le> length w" by (rule read_exponent_length)
  also have "\<dots> \<le> length (dropWhile is_digit u)" using w by (rule read_fraction_length)
  also have "\<dots> \<le> length u" by (rule length_dropWhile_le)
  also have "\<dots> \<le> length (dropWhile is_blank s)" using u by (rule read_sign_length)
  also have "\<dots> \<le> length s" by (rule length_dropWhile_le)
  finally show ?thesis .
qed

lemma read_f32_length: "read_f32 s = Some (x, t) \<Longrightarrow> length t \<le> length s"
  by (auto simp: read_f32_def split: option.splits prod.splits if_splits dest: read_decimal_length)

lemma read_rgb_length: "read_rgb s = Some (x, t) \<Longrightarrow> length t \<le> length s"
  by (auto simp: read_rgb_def bind_eq_Some_conv dest!: read_f32_length)

lemma read_3_ints_length: "read_3_ints s = Some (x, t) \<Longrightarrow> length t < length s"
  by (auto simp: read_3_ints_def bind_eq_Some_conv dest!: read_i32_length)

lemma read_spi3d_row_length: "read_spi3d_row s = Some (x, t) \<Longrightarrow> length t < length s"
  by (auto simp: read_spi3d_row_def bind_eq_Some_conv dest!: read_rgb_length read_3_ints_length)

function spi3d_rows :: "int \<Rightarrow> string \<Rightarrow> f32 list \<times> bool list \<Rightarrow> lut_stop + f32 list \<times> bool list" where
  "spi3d_rows n s st =
     (case read_spi3d_row s of
        None \<Rightarrow> Inr st
      | Some ((idx, rgb), rest) \<Rightarrow> bind_res (spi3d_row n idx rgb st) (spi3d_rows n rest))"
  by auto
termination by (relation "measure (\<lambda>(n, s, st). length s)") (auto dest: read_spi3d_row_length)

declare spi3d_rows.simps [simp del]

text \<open>The header: the magic word and a version, the component counts, and the grid, which must be a cube.\<close>

definition spi3d_magic :: "string \<Rightarrow> lut_stop + string" where
  "spi3d_magic input =
     (case Option.bind (read_word input) (\<lambda>(magic, s). map_option (Pair magic) (skip_f64 s)) of
        None \<Rightarrow> Inl (Refused Failed ''missing SPILUT header'')
      | Some (magic, s) \<Rightarrow> if magic \<noteq> ''SPILUT'' then Inl (Refused Failed ''missing SPILUT header'') else Inr s)"

definition spi3d_dims :: "string \<Rightarrow> lut_stop + string" where
  "spi3d_dims input =
     (case Option.bind (read_i32 input) (\<lambda>(m, s). map_option (Pair m) (read_i32 s)) of
        None \<Rightarrow> Inl (Refused Failed ''unsupported .spi3d component count'')
      | Some (input_dims, output_dims, s) \<Rightarrow>
          if input_dims \<noteq> 3 \<or> output_dims \<noteq> 3 then Inl (Refused Failed ''unsupported .spi3d component count'')
          else Inr s)"

definition spi3d_grid :: "string \<Rightarrow> lut_stop + int \<times> string" where
  "spi3d_grid input =
     (case read_3_ints input of
        None \<Rightarrow> Inl (Refused Failed ''unsupported .spi3d grid dimensions'')
      | Some ((r_size, g_size, b_size), s) \<Rightarrow>
          if r_size \<noteq> g_size \<or> g_size \<noteq> b_size \<or> r_size < 0
          then Inl (Refused Failed ''unsupported .spi3d grid dimensions'')
          else Inr (r_size, s))"

definition load_spi3d :: "string \<Rightarrow> lut_stop + cube3d_lut" where
  "load_spi3d input =
     bind_res (spi3d_magic input) (\<lambda>input.
     bind_res (spi3d_dims input) (\<lambda>input.
     bind_res (spi3d_grid input) (\<lambda>(r_size, input).
     let n = of_int r_size :: u32; count = value_count_for_size n
     in bind_res (valid_size n) (\<lambda>_.
        bind_res (spi3d_rows r_size input (replicate count 0, replicate (count div 3) False)) (\<lambda>(values, seen).
        if \<not> list_all id seen then Inl (Refused Failed ''missing .spi3d sample rows'')
        else Inr \<lparr>lut_size = n, lut_values = values\<rparr>)))))"

text \<open>\<open>Cube3dLut::at\<close>; the caller's indices may be anything.\<close>

definition lut_at :: "cube3d_lut \<Rightarrow> u32 \<Rightarrow> u32 \<Rightarrow> u32 \<Rightarrow> fault + f32 \<times> f32 \<times> f32" where
  "lut_at lut r g b =
     (let n = unat (lut_size lut); offset = (unat r * n * n + unat g * n + unat b) * 3
      in if offset + 2 < length (lut_values lut)
         then Inr (lut_values lut ! offset, lut_values lut ! (offset + 1), lut_values lut ! (offset + 2))
         else Inl OutOfBounds)"

definition lower_extension :: "string \<Rightarrow> string" where
  "lower_extension path = ascii_lower (path_extension path)"

text \<open>
  \<open>file\<close> is the text of the file, \<open>None\<close> when it cannot be opened. The result is what stopped the load, if
  anything, and the table the caller's pointer refers to afterwards.
\<close>

definition lut_load :: "string \<Rightarrow> string option \<Rightarrow> cube3d_lut option \<Rightarrow> lut_stop option \<times> cube3d_lut option" where
  "lut_load path file out =
     (case out of
        None \<Rightarrow> (Some (Refused BadIndex ''output LUT pointer is null''), None)
      | Some _ \<Rightarrow>
          let finish = (\<lambda>r. case r of Inl e \<Rightarrow> (Some e, Some new_lut) | Inr lut \<Rightarrow> (None, Some lut))
          in case file of
               None \<Rightarrow> (Some (Refused Failed ''failed to open 3D LUT file''), Some new_lut)
             | Some input \<Rightarrow>
                 if lower_extension path = ''.cube'' then finish (load_cube input)
                 else if lower_extension path = ''.spi3d'' then finish (load_spi3d input)
                 else (Some (Refused Unsupported ''unsupported 3D LUT extension''), Some new_lut))"

section \<open>Parameter block\<close>

definition make_param_blob_words :: "cube3d_lut \<Rightarrow> u32 \<Rightarrow> f32 list" where
  "make_param_blob_words lut interpolation =
     [lut_size lut, of_nat (length (lut_values lut)), interpolation] @ lut_values lut"

text \<open>
  The table the compiled filter gets: three channels by \<open>lb_extent\<close> entries with the stride of an entry,
  over the words of the block behind the header.
\<close>

record lut_buffer =
  lb_extent :: int
  lb_stride :: int
  lb_words :: "fault + f32 list"

text \<open>
  The guards of the dispatcher on the pointers are \<open>pointers_ok\<close>. \<open>Inl\<close> is the status that is returned,
  \<open>Inr\<close> the call of the filter: the table, its size and the interpolation.
\<close>

definition header_bytes :: nat where
  "header_bytes = 12"

definition color_3d_lut_param ::
  "bool \<Rightarrow> byte list option \<Rightarrow> fault + (status_code + lut_buffer \<times> int \<times> int)" where
  "color_3d_lut_param pointers_ok param_blob =
     (case param_blob of
        None \<Rightarrow> Inr (Inl BadIndex)
      | Some blob \<Rightarrow>
          if \<not> pointers_ok \<or> length blob < header_bytes then Inr (Inl BadIndex)
          else
            bind_res (le_word blob 0) (\<lambda>n.
            bind_res (le_word blob 4) (\<lambda>value_count.
            bind_res (le_word blob 8) (\<lambda>interpolation.
            if n < 2 \<or> value_count = 0 \<or> value_count mod 3 \<noteq> 0 then Inr (Inl BadIndex)
            else if length blob \<noteq> header_bytes + unat value_count * 4 \<or> n > 0x7FFFFFFF then Inr (Inl BadIndex)
            else
              Inr (Inr (\<lparr>lb_extent = sint (value_count div 3), lb_stride = 3,
                  lb_words = map_res (\<lambda>i. le_word blob (header_bytes + 4 * i)) [0..<unat value_count]\<rparr>,
                sint n, sint interpolation))))))"

section \<open>Loaded tables\<close>

definition lut_wf :: "cube3d_lut \<Rightarrow> bool" where
  "lut_wf lut \<longleftrightarrow> 2 \<le> lut_size lut \<and> lut_size lut \<le> 256 \<and> length (lut_values lut) = value_count_for_size (lut_size lut)"

lemma valid_size_iff: "valid_size n = Inr u \<longleftrightarrow> 2 \<le> n \<and> n \<le> 256"
  by (auto simp: valid_size_def)

text \<open>The position of an entry, and that different entries have different positions.\<close>

definition lut_index :: "nat \<Rightarrow> nat \<Rightarrow> nat \<Rightarrow> nat \<Rightarrow> nat" where
  "lut_index n r g b = r * n * n + g * n + b"

lemma lut_index_less:
  assumes "r < n" and "g < n" and "b < n"
  shows "lut_index n r g b < n * n * n"
proof -
  have "lut_index n r g b < r * n * n + g * n + n" using assms by (simp add: lut_index_def)
  also have "\<dots> = r * n * n + Suc g * n" by simp
  also have "\<dots> \<le> r * n * n + n * n" using assms by (intro add_left_mono mult_le_mono1) simp
  also have "\<dots> = Suc r * (n * n)" by simp
  also have "\<dots> \<le> n * (n * n)" using assms by (intro mult_le_mono1) simp
  finally show ?thesis by (simp add: mult.assoc)
qed

lemma lut_index_inject:
  assumes "g < n" "b < n" "g' < n" "b' < n"
  shows "lut_index n r g b = lut_index n r' g' b' \<longleftrightarrow> r = r' \<and> g = g' \<and> b = b'"
proof
  assume e: "lut_index n r g b = lut_index n r' g' b'"
  have split: "lut_index n r g b = (r * n + g) * n + b" for r g b by (simp add: lut_index_def algebra_simps)
  from e assms have "b = b'" and rg: "r * n + g = r' * n + g'"
    unfolding split by (metis mod_mult_self3 mod_less, metis div_mult_self3 div_less add.right_neutral add.commute
      gr_implies_not0)
  from rg assms have "g = g'" and "r = r'"
    by (metis mod_mult_self3 mod_less, metis div_mult_self3 div_less add.right_neutral add.commute gr_implies_not0)
  with \<open>b = b'\<close> show "r = r' \<and> g = g' \<and> b = b'" by simp
qed simp

subsection \<open>Files with one row per entry in order\<close>

text \<open>The rows of a \<open>.cube\<close> file: the lines that are neither blank nor a directive.\<close>

definition cube_directive :: "string \<Rightarrow> bool" where
  "cube_directive line \<longleftrightarrow>
     (case read_word (strip_comment line) of None \<Rightarrow> True
      | Some (head, _) \<Rightarrow> head \<in> {''TITLE'', ''DOMAIN_MIN'', ''DOMAIN_MAX'', ''LUT_3D_SIZE''})"

definition cube_rows :: "string list \<Rightarrow> (f32 \<times> f32 \<times> f32) list" where
  "cube_rows ls = map (\<lambda>l. fst (the (read_rgb (strip_comment l)))) (filter (\<lambda>l. \<not> cube_directive l) ls)"

definition flatten_rows :: "(f32 \<times> f32 \<times> f32) list \<Rightarrow> f32 list" where
  "flatten_rows rows = concat (map (\<lambda>(r, g, b). [r, g, b]) rows)"

text \<open>A line leaves the size alone or sets it in range, and appends its row.\<close>

lemma cube_line_Inr:
  assumes "cube_line line (n, values) = Inr (n', values')"
  shows "(n' = n \<or> 2 \<le> n' \<and> n' \<le> 256) \<and> values' = values @ flatten_rows (cube_rows [line])"
proof (cases "read_word (strip_comment line)")
  case None
  with assms show ?thesis by (simp add: cube_line_def cube_rows_def cube_directive_def flatten_rows_def)
next
  case (Some hr)
  obtain head row where hr: "hr = (head, row)" by fastforce
  consider (skip) "head \<in> {''TITLE'', ''DOMAIN_MIN'', ''DOMAIN_MAX''}" | (dim) "head = ''LUT_3D_SIZE''"
    | (rgb) "head \<notin> {''TITLE'', ''DOMAIN_MIN'', ''DOMAIN_MAX'', ''LUT_3D_SIZE''}" by blast
  then show ?thesis
  proof cases
    case skip
    then have "cube_line line (n, values) = Inr (n, values)" and "cube_directive line"
      by (auto simp: cube_line_def cube_directive_def Some hr)
    with assms show ?thesis by (simp add: cube_rows_def flatten_rows_def)
  next
    case dim
    with assms show ?thesis
      by (auto simp: cube_line_def cube_directive_def cube_rows_def flatten_rows_def Some hr bind_res_eq_Inr_iff
        valid_size_iff
        split: option.splits if_splits)
  next
    case rgb
    then have d: "\<not> cube_directive line" by (simp add: cube_directive_def Some hr)
    from rgb assms have "(case read_rgb (strip_comment line) of
          None \<Rightarrow> Inl (Refused Failed ''invalid .cube RGB row'')
        | Some ((r, g, b), _) \<Rightarrow> Inr (n, values @ [r, g, b])) = Inr (n', values')"
      by (simp add: cube_line_def Some hr)
    with d show ?thesis by (auto simp: cube_rows_def flatten_rows_def split: option.splits)
  qed
qed

lemma cube_rows_Cons: "cube_rows (l # ls) = cube_rows [l] @ cube_rows ls"
  by (simp add: cube_rows_def)

lemma flatten_rows_append: "flatten_rows (xs @ ys) = flatten_rows xs @ flatten_rows ys"
  by (simp add: flatten_rows_def)

lemma cube_lines_Inr:
  assumes "fold_res cube_line ls (n, vals) = Inr (n', vals')" and "n = 0 \<or> 2 \<le> n \<and> n \<le> 256"
  shows "(n' = 0 \<or> 2 \<le> n' \<and> n' \<le> 256) \<and> vals' = vals @ flatten_rows (cube_rows ls)"
  using assms
proof (induction ls arbitrary: n vals)
  case Nil
  then show ?case by (simp add: cube_rows_def flatten_rows_def)
next
  case (Cons l ls)
  from Cons.prems(1) obtain n1 v1 where 1: "cube_line l (n, vals) = Inr (n1, v1)"
    and 2: "fold_res cube_line ls (n1, v1) = Inr (n', vals')" by (auto simp: bind_res_eq_Inr_iff)
  from cube_line_Inr [OF 1] Cons.prems(2)
  have "n1 = 0 \<or> 2 \<le> n1 \<and> n1 \<le> 256" and v1: "v1 = vals @ flatten_rows (cube_rows [l])" by auto
  from Cons.IH [OF 2 this(1)] v1 cube_rows_Cons [of l ls] show ?case by (simp add: flatten_rows_append)
qed

lemma length_flatten_rows [simp]: "length (flatten_rows rows) = 3 * length rows"
  by (induction rows) (auto simp: flatten_rows_def)

lemma flatten_rows_nth:
  assumes "i < length rows"
  shows "(flatten_rows rows ! (3 * i), flatten_rows rows ! (3 * i + 1), flatten_rows rows ! (3 * i + 2)) = rows ! i"
  using assms
proof (induction rows arbitrary: i)
  case (Cons x rows)
  obtain r g b where x: "x = (r, g, b)" by (cases x)
  have f: "flatten_rows (x # rows) = [r, g, b] @ flatten_rows rows" by (simp add: flatten_rows_def x)
  show ?case
  proof (cases i)
    case (Suc j)
    with Cons show ?thesis by (simp add: f nth_append)
  next
    case 0
    show ?thesis unfolding 0 f by (simp add: x)
  qed
qed simp

lemma load_cube_Inr:
  assumes "load_cube input = Inr lut"
  shows "lut_wf lut" and "lut_values lut = flatten_rows (cube_rows (text_lines input))"
proof -
  from assms obtain n vals where f: "fold_res cube_line (text_lines input) (0, []) = Inr (n, vals)"
    and "n \<noteq> 0" "length vals = value_count_for_size n" "lut = \<lparr>lut_size = n, lut_values = vals\<rparr>"
    by (auto simp: load_cube_def bind_res_eq_Inr_iff split: if_splits)
  with cube_lines_Inr [OF f] show "lut_wf lut" and "lut_values lut = flatten_rows (cube_rows (text_lines input))"
    by (auto simp: lut_wf_def)
qed

lemma cube_line_no_fault: "cube_line line st \<noteq> Inl (Faulty f)"
  by (cases st) (auto simp: cube_line_def valid_size_def bind_res_eq_Inl_iff split: option.splits if_splits)

lemma load_cube_no_fault: "load_cube input \<noteq> Inl (Faulty f)"
proof
  assume "load_cube input = Inl (Faulty f)"
  then have "fold_res cube_line (text_lines input) (0, []) = Inl (Faulty f)"
    by (auto simp: load_cube_def bind_res_eq_Inl_iff split: if_splits)
  from fold_res_Inl_ex [OF this] cube_line_no_fault show False by blast
qed

subsection \<open>Files with an index in every row\<close>

text \<open>The rows of a \<open>.spi3d\<close> file, and the loop as a loop over them.\<close>

function spi3d_list :: "string \<Rightarrow> ((int \<times> int \<times> int) \<times> f32 \<times> f32 \<times> f32) list" where
  "spi3d_list s = (case read_spi3d_row s of None \<Rightarrow> [] | Some (row, rest) \<Rightarrow> row # spi3d_list rest)"
  by auto
termination by (relation "measure length") (auto dest: read_spi3d_row_length)

declare spi3d_list.simps [simp del]

lemma spi3d_rows_fold:
  "spi3d_rows n s st = fold_res (\<lambda>(idx, rgb). spi3d_row n idx rgb) (spi3d_list s) st"
proof (induction n s st rule: spi3d_rows.induct)
  case (1 n s st)
  show ?case
  proof (cases "read_spi3d_row s")
    case None
    then show ?thesis by (subst spi3d_rows.simps, subst spi3d_list.simps) simp
  next
    case (Some x)
    obtain idx rgb rest where x: "x = ((idx, rgb), rest)" by (metis prod.collapse)
    have "bind_res (spi3d_row n idx rgb st) (spi3d_rows n rest) =
        bind_res (spi3d_row n idx rgb st) (fold_res (\<lambda>(idx, rgb). spi3d_row n idx rgb) (spi3d_list rest))"
      by (cases "spi3d_row n idx rgb st") (simp_all add: 1 [OF Some x [symmetric] refl])
    with Some x show ?thesis by (subst spi3d_rows.simps, subst spi3d_list.simps) simp
  qed
qed

text \<open>The three values of an entry.\<close>

definition lut_entry :: "f32 list \<Rightarrow> nat \<Rightarrow> f32 \<times> f32 \<times> f32" where
  "lut_entry vs i = (vs ! (3 * i), vs ! (3 * i + 1), vs ! (3 * i + 2))"

fun set_entry :: "nat \<Rightarrow> f32 \<times> f32 \<times> f32 \<Rightarrow> f32 list \<Rightarrow> f32 list" where
  "set_entry i (r, g, b) vs = vs[3 * i := r, 3 * i + 1 := g, 3 * i + 2 := b]"

lemma length_set_entry [simp]: "length (set_entry i rgb vs) = length vs"
  by (cases rgb) simp

lemma entry_set_entry:
  assumes "3 * i + 2 < length vs"
  shows "lut_entry (set_entry i rgb vs) j = (if j = i then rgb else lut_entry vs j)"
proof (cases rgb)
  case (fields r g b)
  have "3 * j \<noteq> Suc (3 * i)" "3 * j \<noteq> Suc (Suc (3 * i))" "Suc (3 * j) \<noteq> 3 * i" "Suc (Suc (3 * j)) \<noteq> 3 * i" by presburger+
  with assms fields show ?thesis by (auto simp: lut_entry_def nth_list_update)
qed

lemma spi3d_row_Inr:
  assumes "r < n" and "g < n" and "b < n" and "length vs = 3 * (n * n * n)" and "length seen = n * n * n"
  shows "spi3d_row (int n) (int r, int g, int b) rgb (vs, seen) =
    Inr (set_entry (lut_index n r g b) rgb vs, seen[lut_index n r g b := True])"
proof -
  have i: "lut_index n r g b < n * n * n" using assms(1-3) by (rule lut_index_less)
  have "r * n * n + g * n + b = lut_index n r g b" by (simp add: lut_index_def)
  with i assms show ?thesis
    by (cases rgb) (simp add: spi3d_row_def store_def Let_def mult.commute)
qed

text \<open>After some rows, the entries they name are marked and hold the values of their last row.\<close>

definition entry_ok ::
  "nat \<Rightarrow> ((int \<times> int \<times> int) \<times> f32 \<times> f32 \<times> f32) list \<Rightarrow> f32 list \<times> bool list \<Rightarrow> nat \<Rightarrow> nat \<Rightarrow> nat \<Rightarrow> bool" where
  "entry_ok n rows st r g b \<longleftrightarrow>
     (case map_of (rev rows) (int r, int g, int b) of
        None \<Rightarrow> \<not> snd st ! lut_index n r g b
      | Some rgb \<Rightarrow> snd st ! lut_index n r g b \<and> lut_entry (fst st) (lut_index n r g b) = rgb)"

definition spi3d_inv ::
  "nat \<Rightarrow> ((int \<times> int \<times> int) \<times> f32 \<times> f32 \<times> f32) list \<Rightarrow> f32 list \<times> bool list \<Rightarrow> bool" where
  "spi3d_inv n rows st \<longleftrightarrow>
     length (fst st) = 3 * (n * n * n) \<and> length (snd st) = n * n * n \<and>
     (\<forall>r g b. r < n \<longrightarrow> g < n \<longrightarrow> b < n \<longrightarrow> entry_ok n rows st r g b)"

lemma spi3d_inv_row:
  assumes "spi3d_inv n rows (vs, seen)" and "spi3d_row (int n) idx rgb (vs, seen) = Inr st"
  shows "spi3d_inv n (rows @ [(idx, rgb)]) st"
proof -
  obtain x y z where idx: "idx = (x, y, z)" by (cases idx)
  from assms(2) have "0 \<le> x" "0 \<le> y" "0 \<le> z" "x < int n" "y < int n" "z < int n"
    by (auto simp: spi3d_row_def idx split: prod.splits if_splits)
  then obtain r g b where rgb: "x = int r" "y = int g" "z = int b" and lt: "r < n" "g < n" "b < n"
    by (metis nonneg_int_cases of_nat_less_iff)
  from assms(1) have len: "length vs = 3 * (n * n * n)" "length seen = n * n * n" by (simp_all add: spi3d_inv_def)
  have i: "lut_index n r g b < n * n * n" using lt by (rule lut_index_less)
  from assms(2) spi3d_row_Inr [OF lt len] have st: "st = (set_entry (lut_index n r g b) rgb vs, seen[lut_index n r g b := True])"
    by (simp add: idx rgb)
  have "entry_ok n (rows @ [(idx, rgb)]) st r' g' b'" if lt': "r' < n" "g' < n" "b' < n" for r' g' b'
  proof -
    have eq: "lut_index n r' g' b' = lut_index n r g b \<longleftrightarrow> (r', g', b') = (r, g, b)"
      using lut_index_inject [of g' n b' g b r' r] lt lt' by auto
    have "entry_ok n rows (vs, seen) r' g' b'" using assms(1) lt' by (simp add: spi3d_inv_def)
    then show ?thesis
    proof (cases "(r', g', b') = (r, g, b)")
      case True
      with i len show ?thesis by (simp add: entry_ok_def st idx rgb entry_set_entry)
    next
      case False
      with eq have "lut_index n r' g' b' \<noteq> lut_index n r g b" and "lut_index n r g b \<noteq> lut_index n r' g' b'" by metis+
      moreover from False have "(int r', int g', int b') \<noteq> idx" by (auto simp: idx rgb)
      ultimately show ?thesis
        using i len \<open>entry_ok n rows (vs, seen) r' g' b'\<close>
        by (cases "map_of (rev rows) (int r', int g', int b')") (simp_all add: entry_ok_def st entry_set_entry)
    qed
  qed
  with len show ?thesis by (simp add: spi3d_inv_def st)
qed

lemma spi3d_rows_inv:
  assumes "spi3d_inv n done st" and "fold_res (\<lambda>(idx, rgb). spi3d_row (int n) idx rgb) rows st = Inr st'"
  shows "spi3d_inv n (done @ rows) st'"
  using assms
proof (induction rows arbitrary: "done" st)
  case (Cons row rows)
  obtain idx rgb vs seen where row: "row = (idx, rgb)" and st: "st = (vs, seen)" by (cases row; cases st) auto
  from Cons.prems(2) obtain st1 where 1: "spi3d_row (int n) idx rgb (vs, seen) = Inr st1"
    and 2: "fold_res (\<lambda>(idx, rgb). spi3d_row (int n) idx rgb) rows st1 = Inr st'"
    by (auto simp: row st bind_res_eq_Inr_iff)
  from Cons.IH [OF spi3d_inv_row [OF Cons.prems(1) [unfolded st] 1] 2] show ?case by (simp add: row)
qed simp

lemma spi3d_row_no_fault:
  assumes "length vs = 3 * (n * n * n)" and "length seen = n * n * n"
  shows "spi3d_row (int n) idx rgb (vs, seen) \<noteq> Inl (Faulty f)"
proof
  assume e: "spi3d_row (int n) idx rgb (vs, seen) = Inl (Faulty f)"
  obtain x y z where idx: "idx = (x, y, z)" by (cases idx)
  from e have "0 \<le> x" "0 \<le> y" "0 \<le> z" "x < int n" "y < int n" "z < int n"
    by (auto simp: spi3d_row_def idx split: prod.splits if_splits)
  then obtain r g b where "x = int r" "y = int g" "z = int b" "r < n" "g < n" "b < n"
    by (metis nonneg_int_cases of_nat_less_iff)
  with e spi3d_row_Inr [of r n g b vs seen rgb] assms show False by (simp add: idx)
qed

lemma spi3d_rows_no_fault:
  assumes "spi3d_inv n done st"
  shows "fold_res (\<lambda>(idx, rgb). spi3d_row (int n) idx rgb) rows st \<noteq> Inl (Faulty f)"
  using assms
proof (induction rows arbitrary: "done" st)
  case (Cons row rows)
  obtain idx rgb vs seen where row: "row = (idx, rgb)" and st: "st = (vs, seen)" by (cases row; cases st) auto
  from Cons.prems have len: "length vs = 3 * (n * n * n)" "length seen = n * n * n" by (simp_all add: spi3d_inv_def st)
  show ?case
  proof (cases "spi3d_row (int n) idx rgb (vs, seen)")
    case (Inl e)
    with spi3d_row_no_fault [OF len, of idx rgb f] show ?thesis by (simp add: row st)
  next
    case (Inr st1)
    from Cons.IH [OF spi3d_inv_row [OF Cons.prems [unfolded st] Inr]] Inr show ?thesis by (simp add: row st)
  qed
qed simp

lemma spi3d_inv_start: "spi3d_inv n [] (replicate (3 * (n * n * n)) 0, replicate (n * n * n) False)"
  by (simp add: spi3d_inv_def entry_ok_def lut_index_less)

text \<open>A load that gets to the rows: the size is in range and the rest of the text holds the rows.\<close>

lemma load_spi3d_rows:
  assumes "load_spi3d input = res" and "\<And>m. res \<noteq> Inl (Refused Failed m)"
  obtains n :: nat and body where "2 \<le> n" and "n \<le> 256"
    and "res = bind_res (fold_res (\<lambda>(idx, rgb). spi3d_row (int n) idx rgb) (spi3d_list body)
        (replicate (3 * (n * n * n)) 0, replicate (n * n * n) False)) (\<lambda>(vs, seen).
      if \<not> list_all id seen then Inl (Refused Failed ''missing .spi3d sample rows'')
      else Inr \<lparr>lut_size = of_nat n, lut_values = vs\<rparr>)"
proof -
  have refused: "\<exists>m. e = Refused Failed m"
    if "spi3d_magic t = Inl e \<or> spi3d_dims t = Inl e \<or> spi3d_grid t = Inl e \<or> valid_size k = Inl e" for t e k
    using that by (auto simp: spi3d_magic_def spi3d_dims_def spi3d_grid_def valid_size_def
      split: option.splits if_splits prod.splits)
  from assms refused obtain s1 where "spi3d_magic input = Inr s1"
    by (cases "spi3d_magic input") (fastforce simp: load_spi3d_def)+
  moreover from this assms refused obtain s2 where "spi3d_dims s1 = Inr s2"
    by (cases "spi3d_dims s1") (fastforce simp: load_spi3d_def)+
  moreover from calculation assms refused obtain r_size s where g: "spi3d_grid s2 = Inr (r_size, s)"
    by (cases "spi3d_grid s2") (fastforce simp: load_spi3d_def)+
  moreover from calculation assms refused have v: "valid_size (of_int r_size) = Inr ()"
    by (cases "valid_size (of_int r_size)") (fastforce simp: load_spi3d_def)+
  ultimately have res: "res = bind_res (spi3d_rows r_size s (replicate (value_count_for_size (of_int r_size)) 0,
        replicate (value_count_for_size (of_int r_size) div 3) False)) (\<lambda>(vs, seen).
      if \<not> list_all id seen then Inl (Refused Failed ''missing .spi3d sample rows'')
      else Inr \<lparr>lut_size = of_int r_size, lut_values = vs\<rparr>)"
    using assms(1) by (simp add: load_spi3d_def Let_def)
  from g have "0 \<le> r_size" and lo: "r_size < 2 ^ 31"
    by (auto simp: spi3d_grid_def read_3_ints_def read_i32_def Let_def bind_eq_Some_conv
      split: option.splits if_splits prod.splits)
  define n where "n = nat r_size"
  have r: "r_size = int n" using \<open>0 \<le> r_size\<close> by (simp add: n_def)
  then have w: "(of_int r_size :: u32) = of_nat n" by simp
  have u: "unat (of_int r_size :: u32) = n" using lo unfolding r by (simp add: unsigned_of_nat take_bit_nat_eq_self)
  have "value_count_for_size (of_int r_size) = 3 * (n * n * n)" by (simp add: value_count_for_size_def u)
  with res have "res = bind_res (fold_res (\<lambda>(idx, rgb). spi3d_row (int n) idx rgb) (spi3d_list s)
        (replicate (3 * (n * n * n)) 0, replicate (n * n * n) False)) (\<lambda>(vs, seen).
      if \<not> list_all id seen then Inl (Refused Failed ''missing .spi3d sample rows'')
      else Inr \<lparr>lut_size = of_nat n, lut_values = vs\<rparr>)"
    unfolding w by (simp add: r spi3d_rows_fold)
  moreover from v u have "2 \<le> n" "n \<le> 256" by (simp_all add: valid_size_iff word_le_nat_alt)
  ultimately show ?thesis by (rule that [rotated 2])
qed

lemma load_spi3d_Inr:
  assumes "load_spi3d input = Inr lut"
  obtains rows where "lut_wf lut"
    and "\<And>r g b. r < unat (lut_size lut) \<Longrightarrow> g < unat (lut_size lut) \<Longrightarrow> b < unat (lut_size lut) \<Longrightarrow>
      map_of (rev rows) (int r, int g, int b) = Some (lut_entry (lut_values lut) (lut_index (unat (lut_size lut)) r g b))"
proof -
  from assms obtain n body where n: "2 \<le> n" "n \<le> 256"
    and res: "Inr lut = bind_res (fold_res (\<lambda>(idx, rgb). spi3d_row (int n) idx rgb) (spi3d_list body)
        (replicate (3 * (n * n * n)) 0, replicate (n * n * n) False)) (\<lambda>(vs, seen).
      if \<not> list_all id seen then Inl (Refused Failed ''missing .spi3d sample rows'')
      else Inr \<lparr>lut_size = of_nat n, lut_values = vs\<rparr>)"
    by (rule load_spi3d_rows) simp
  from res [symmetric] obtain vs seen where f: "fold_res (\<lambda>(idx, rgb). spi3d_row (int n) idx rgb) (spi3d_list body)
        (replicate (3 * (n * n * n)) 0, replicate (n * n * n) False) = Inr (vs, seen)"
    and all: "list_all id seen" and lut: "lut = \<lparr>lut_size = of_nat n, lut_values = vs\<rparr>"
    by (auto simp: bind_res_eq_Inr_iff split: if_splits)
  have u: "unat (of_nat n :: u32) = n" using n by (simp add: unsigned_of_nat take_bit_nat_eq_self)
  from spi3d_rows_inv [OF spi3d_inv_start f] have inv: "spi3d_inv n (spi3d_list body) (vs, seen)" by simp
  have "map_of (rev (spi3d_list body)) (int r, int g, int b) = Some (lut_entry vs (lut_index n r g b))"
    if "r < n" "g < n" "b < n" for r g b
  proof -
    from inv that have "entry_ok n (spi3d_list body) (vs, seen) r g b" by (simp add: spi3d_inv_def)
    moreover have "seen ! lut_index n r g b"
      using all lut_index_less [OF that] inv by (simp add: list_all_length spi3d_inv_def)
    ultimately show ?thesis by (auto simp: entry_ok_def split: option.splits)
  qed
  moreover have "lut_wf lut"
    using n inv by (simp add: lut_wf_def lut value_count_for_size_def u spi3d_inv_def word_le_nat_alt)
  ultimately show ?thesis by (intro that [of "spi3d_list body"]) (simp_all add: lut u)
qed

lemma load_spi3d_no_fault: "load_spi3d input \<noteq> Inl (Faulty f)"
proof
  assume "load_spi3d input = Inl (Faulty f)"
  then obtain n body where "Inl (Faulty f) = bind_res (fold_res (\<lambda>(idx, rgb). spi3d_row (int n) idx rgb) (spi3d_list body)
        (replicate (3 * (n * n * n)) 0, replicate (n * n * n) False)) (\<lambda>(vs, seen).
      if \<not> list_all id seen then Inl (Refused Failed ''missing .spi3d sample rows'')
      else Inr \<lparr>lut_size = of_nat n, lut_values = vs\<rparr>)"
    by (rule load_spi3d_rows) simp
  from this [symmetric] spi3d_rows_no_fault [OF spi3d_inv_start] show False
    by (auto simp: bind_res_eq_Inl_iff split: if_splits)
qed

section \<open>The parameter block\<close>

text \<open>The dispatcher accepts the block of a table of the right size and passes the table on.\<close>

lemma color_3d_lut_param_blob:
  assumes "lut_wf lut"
  defines "n \<equiv> unat (lut_size lut)"
  shows "color_3d_lut_param True (Some (as_bytes (make_param_blob_words lut interpolation))) =
    Inr (Inr (\<lparr>lb_extent = int (n * n * n), lb_stride = 3, lb_words = Inr (lut_values lut)\<rparr>, int n, sint interpolation))"
proof -
  let ?vs = "lut_values lut" and ?ws = "make_param_blob_words lut interpolation"
  define L N where "L = length ?vs" and "N = n * n * n"
  let ?c = "of_nat L :: u32"
  from assms have n: "2 \<le> n" "n \<le> 256" and len: "L = 3 * N"
    by (simp_all add: lut_wf_def value_count_for_size_def word_le_nat_alt L_def N_def)
  have "n * n \<le> 256 * 256" and "2 * 2 \<le> n * n" using n by (intro mult_le_mono; simp)+
  then have N: "N \<le> 256 * 256 * 256" "2 * 2 * 2 \<le> N" unfolding N_def using n by (intro mult_le_mono; simp)+
  have size: "lut_size lut = of_nat n" by (simp add: n_def)
  have ws: "length ?ws = 3 + L" "?ws ! 0 = lut_size lut" "?ws ! Suc 0 = ?c" "?ws ! 2 = interpolation"
    "\<And>i. ?ws ! (3 + i) = ?vs ! i"
    by (simp_all add: make_param_blob_words_def numeral_3_eq_3 numeral_2_eq_2 L_def)
  have "L < 2 ^ 31" and l: "N < 2 ^ 31" using N len by simp_all
  then have c: "unat ?c = L" by (intro small_u32)
  from l have N': "unat (of_nat N :: u32) = N" "sint (of_nat N :: u32) = int N" by (rule small_u32)+
  have "L div 3 = N" and "L mod 3 = 0" using len by simp_all
  then have div: "?c div 3 = of_nat N" and mod: "?c mod 3 = 0"
    by (simp_all add: word_unat_eq_iff unat_div_distrib unat_mod_distrib c N')
  have "?c \<noteq> 0" using c len N by auto
  have heads: "le_word (as_bytes ?ws) 0 = Inr (lut_size lut)" "le_word (as_bytes ?ws) 4 = Inr ?c"
    "le_word (as_bytes ?ws) 8 = Inr interpolation"
    using le_word_as_bytes [of 0 ?ws] le_word_as_bytes [of 1 ?ws] le_word_as_bytes [of 2 ?ws] by (simp_all add: ws)
  have words: "map_res (\<lambda>i. le_word (as_bytes ?ws) (header_bytes + 4 * i)) [0..<L] = Inr (map (\<lambda>i. ?vs ! i) [0..<L])"
  proof (rule map_res_Inr)
    fix i assume "i \<in> set [0..<L]"
    then have "3 + i < length ?ws" by (simp add: ws)
    from le_word_as_bytes [OF this] show "le_word (as_bytes ?ws) (header_bytes + 4 * i) = Inr (?vs ! i)"
      by (simp add: ws header_bytes_def distrib_left)
  qed
  have vs: "map (\<lambda>i. ?vs ! i) [0..<L] = ?vs" unfolding L_def by (rule map_nth)
  have small: "\<not> (of_nat n :: u32) < 2" "\<not> 0x7FFFFFFF < (of_nat n :: u32)" "sint (of_nat n :: u32) = int n"
    using n by (simp_all add: word_less_nat_alt small_u32)
  show ?thesis
    using heads mod \<open>?c \<noteq> 0\<close> small words
    by (simp add: color_3d_lut_param_def length_as_bytes ws c vs header_bytes_def div N' size N_def [symmetric])
qed

section \<open>Properties\<close>

lemma lut_load_cases:
  assumes "lut_load path file (Some old) = (res, out)"
  obtains (refused) status message where "res = Some (Refused status message)" "out = Some new_lut"
    | (loaded) input lut where "file = Some input" "load_cube input = Inr lut \<or> load_spi3d input = Inr lut"
      "res = None" "out = Some lut"
proof -
  consider (cube) input where "file = Some input" "lower_extension path = ''.cube''"
    | (spi3d) input where "file = Some input" "lower_extension path = ''.spi3d''"
    | (other) status message where "res = Some (Refused status message)" "out = Some new_lut"
    using assms by (cases "file") (auto simp: lut_load_def Let_def split: if_splits)
  then show ?thesis
  proof cases
    case (cube input)
    with assms have "(res, out) = (case load_cube input of Inl e \<Rightarrow> (Some e, Some new_lut) | Inr lut \<Rightarrow> (None, Some lut))"
      by (simp add: lut_load_def)
    with load_cube_no_fault [of input] cube show ?thesis
      by (cases "load_cube input") (auto intro: that split: lut_stop.splits, metis lut_stop.exhaust that(1))
  next
    case (spi3d input)
    with assms have "(res, out) = (case load_spi3d input of Inl e \<Rightarrow> (Some e, Some new_lut) | Inr lut \<Rightarrow> (None, Some lut))"
      by (simp add: lut_load_def)
    with load_spi3d_no_fault [of input] spi3d show ?thesis
      by (cases "load_spi3d input") (auto intro: that split: lut_stop.splits, metis lut_stop.exhaust that(1))
  qed (rule that)
qed

text \<open>
  C28: Loading a 3D table never writes outside its vectors and leaves the empty table when it fails. After a
  success the table has between 2 and 256 entries per axis, three values for each entry, and the
  parameter block made from it is accepted by the dispatcher, which hands the filter exactly these
  values as a table with one row per entry, so that every sample the filter takes is inside it.
\<close>

theorem lut_load_dispatch:
  assumes "lut_load path file (Some old) = (res, out)"
  shows "(\<exists>status message. res = Some (Refused status message) \<and> out = Some new_lut) \<or>
    (\<exists>lut n. res = None \<and> out = Some lut \<and> n = unat (lut_size lut) \<and> 2 \<le> n \<and> n \<le> 256 \<and>
      length (lut_values lut) = 3 * (n * n * n) \<and>
      (\<forall>r g b. r < n \<longrightarrow> g < n \<longrightarrow> b < n \<longrightarrow> (r * n + g) * n + b < n * n * n) \<and>
      (\<forall>interpolation. color_3d_lut_param True (Some (as_bytes (make_param_blob_words lut interpolation))) =
        Inr (Inr (\<lparr>lb_extent = int (n * n * n), lb_stride = 3, lb_words = Inr (lut_values lut)\<rparr>, int n, sint interpolation))))"
  using assms
proof (cases rule: lut_load_cases)
  case (loaded input lut)
  then have wf: "lut_wf lut" by (meson load_cube_Inr(1) load_spi3d_Inr)
  have "(r * n + g) * n + b < n * n * n" if "r < n" "g < n" "b < n" for r g b n :: nat
    using lut_index_less [OF that] by (simp add: lut_index_def algebra_simps)
  with wf loaded color_3d_lut_param_blob [OF wf] show ?thesis
    by (auto simp: lut_wf_def value_count_for_size_def word_le_nat_alt)
qed blast

text \<open>
  The entry for red \<open>r\<close>, green \<open>g\<close> and blue \<open>b\<close> of a loaded \<open>.cube\<close> file is its data row number
  \<open>(r * n + g) * n + b\<close>: the loader takes blue as the axis that changes fastest.
\<close>

lemma cube_row_order:
  assumes "load_cube input = Inr lut" and "r < lut_size lut" and "g < lut_size lut" and "b < lut_size lut"
  shows "lut_at lut r g b =
    Inr (cube_rows (text_lines input) ! ((unat r * unat (lut_size lut) + unat g) * unat (lut_size lut) + unat b))"
proof -
  let ?n = "unat (lut_size lut)" and ?rows = "cube_rows (text_lines input)"
  let ?i = "lut_index ?n (unat r) (unat g) (unat b)"
  from load_cube_Inr [OF assms(1)] have wf: "lut_wf lut" and vs: "lut_values lut = flatten_rows ?rows" by auto
  then have len: "length ?rows = ?n * ?n * ?n" by (simp add: lut_wf_def value_count_for_size_def)
  have i: "?i < length ?rows" unfolding len using assms(2-4) by (intro lut_index_less) (simp_all add: word_less_nat_alt)
  have "lut_at lut r g b = Inr (lut_entry (flatten_rows ?rows) ?i)"
    using i by (simp add: lut_at_def Let_def vs lut_entry_def lut_index_def mult.commute)
  also have "lut_entry (flatten_rows ?rows) ?i = ?rows ! ?i" using flatten_rows_nth [OF i] by (simp add: lut_entry_def)
  finally show ?thesis by (simp add: lut_index_def algebra_simps)
qed

subsection \<open>A table of two entries per axis\<close>

definition demo_rows :: string where
  "demo_rows = concat (map (\<lambda>l. l @ [CHR 0x0A]) [''LUT_3D_SIZE 2'', ''0 0 0'', ''0 0 1 # blue'', ''0 1 0'', ''0 1 1'',
     '' '', ''1 0 0'', ''1 0 1'', ''1 1 0'', ''1 1 0.5''])"

definition demo_lut :: cube3d_lut where
  "demo_lut = (let one = 0x3F800000 in \<lparr>lut_size = 2, lut_values = [0, 0, 0, 0, 0, one, 0, one, 0, 0, one, one,
     one, 0, 0, one, 0, one, one, one, 0, one, one, 0x3F000000]\<rparr>)"

lemma demo_cube_load: "load_cube demo_rows = Inr demo_lut"
  by code_simp

theorem lut_load_dispatch_witness:
  "color_3d_lut_param True (Some (as_bytes (make_param_blob_words demo_lut 1))) =
     Inr (Inr (\<lparr>lb_extent = 8, lb_stride = 3, lb_words = Inr (lut_values demo_lut)\<rparr>, 2, 1))"
proof -
  have "lower_extension ''look.CUBE'' = ''.cube''" by code_simp
  then have "lut_load ''look.CUBE'' (Some demo_rows) (Some new_lut) = (None, Some demo_lut)"
    by (simp add: lut_load_def demo_cube_load)
  from lut_load_dispatch [OF this] show ?thesis by (auto simp: demo_lut_def Let_def)
qed

end
