(* ===== verification/Icc_Writer.thy ===== *)
theory Icc_Writer
  imports Byte_Reader
begin

text \<open>
  The writer of the output colour profile (\<open>src/cpipe/color/IccV4_4Writer.cpp\<close>): it takes a base profile
  from the LittleCMS library, adds two tags, sorts the tags and lays the file out anew. The base profile
  is a parameter; \<open>None\<close> stands for the exceptions thrown while it is made.
\<close>

unbundle bit_operations_syntax

section \<open>Bytes\<close>

datatype icc_stop = IccThrown string | IccFault fault

definition or_icc_fault :: "fault + 'a \<Rightarrow> icc_stop + 'a" where
  "or_icc_fault m = (case m of Inl f \<Rightarrow> Inl (IccFault f) | Inr x \<Rightarrow> Inr x)"

record tag_record =
  tr_signature :: u32
  tr_offset :: u32
  tr_size :: u32

definition fourcc :: "string \<Rightarrow> u32" where
  "fourcc v =
     push_bit 24 (of_nat (of_char (v ! 0))) OR push_bit 16 (of_nat (of_char (v ! 1))) OR
     push_bit 8 (of_nat (of_char (v ! 2))) OR of_nat (of_char (v ! 3))"

definition read_u32_be :: "byte list \<Rightarrow> nat \<Rightarrow> icc_stop + u32" where
  "read_u32_be bytes p = or_icc_fault (
     bind_res (byte_at bytes p) (\<lambda>b0.
     bind_res (byte_at bytes (p + 1)) (\<lambda>b1.
     bind_res (byte_at bytes (p + 2)) (\<lambda>b2.
     bind_res (byte_at bytes (p + 3)) (\<lambda>b3.
     Inr (push_bit 24 (ucast b0) OR push_bit 16 (ucast b1) OR push_bit 8 (ucast b2) OR ucast b3))))))"

definition set_byte :: "nat \<Rightarrow> byte \<Rightarrow> byte list \<Rightarrow> icc_stop + byte list" where
  "set_byte i b bytes = (if i < length bytes then Inr (bytes[i := b]) else Inl (IccFault OutOfBounds))"

definition write_u32_be :: "nat \<Rightarrow> u32 \<Rightarrow> byte list \<Rightarrow> icc_stop + byte list" where
  "write_u32_be p w bytes =
     bind_res (set_byte p (ucast (drop_bit 24 w AND 0xff)) bytes) (\<lambda>bytes.
     bind_res (set_byte (p + 1) (ucast (drop_bit 16 w AND 0xff)) bytes) (\<lambda>bytes.
     bind_res (set_byte (p + 2) (ucast (drop_bit 8 w AND 0xff)) bytes) (\<lambda>bytes.
     set_byte (p + 3) (ucast (w AND 0xff)) bytes)))"

definition append_u32_be :: "byte list \<Rightarrow> u32 \<Rightarrow> byte list" where
  "append_u32_be bytes w =
     bytes @ [ucast (drop_bit 24 w AND 0xff)] @ [ucast (drop_bit 16 w AND 0xff)] @
       [ucast (drop_bit 8 w AND 0xff)] @ [ucast (w AND 0xff)]"

lemma align_measure: "n mod 4 \<noteq> 0 \<Longrightarrow> 3 - (Suc n + 3) mod 4 < 3 - (n + 3) mod (4 :: nat)"
  by presburger

function align4 :: "byte list \<Rightarrow> byte list" where
  "align4 bytes = (if length bytes mod 4 \<noteq> 0 then align4 (bytes @ [0]) else bytes)"
  by auto
termination
proof (relation "measure (\<lambda>bytes. 3 - (length bytes + 3) mod 4)")
  fix bytes :: "byte list" assume "length bytes mod 4 \<noteq> 0"
  from align_measure [OF this] show "(bytes @ [0], bytes) \<in> measure (\<lambda>bytes. 3 - (length bytes + 3) mod 4)"
    by (simp only: in_measure length_append_singleton)
qed simp

declare align4.simps [simp del]

section \<open>Reading the base profile\<close>

definition read_tag_record :: "byte list \<Rightarrow> nat \<Rightarrow> icc_stop + tag_record" where
  "read_tag_record profile i =
     (let offset = 132 + i * 12
      in bind_res (read_u32_be profile offset) (\<lambda>signature.
         bind_res (read_u32_be profile (offset + 4)) (\<lambda>off.
         bind_res (read_u32_be profile (offset + 8)) (\<lambda>sz.
         if unat off + unat sz > length profile then Inl (IccThrown ''invalid ICC tag payload'')
         else Inr \<lparr>tr_signature = signature, tr_offset = off, tr_size = sz\<rparr>))))"

definition read_tag_records :: "byte list \<Rightarrow> icc_stop + tag_record list" where
  "read_tag_records profile =
     (let bad = Inl (IccThrown ''invalid ICC base profile'')
      in if length profile < 132 then bad
         else
           bind_res (read_u32_be profile 36) (\<lambda>magic.
           if magic \<noteq> fourcc ''acsp'' then bad
           else
             bind_res (read_u32_be profile 128) (\<lambda>count.
             if 132 + unat count * 12 > length profile then Inl (IccThrown ''invalid ICC tag table'')
             else map_res (read_tag_record profile) [0..<unat count])))"

section \<open>Writing the profile\<close>

definition cicp_tag :: "byte list" where
  "cicp_tag = append_u32_be (append_u32_be [] (fourcc ''cicp'')) 0 @ [9] @ [16] @ [9] @ [1]"

definition a2b0_float_tag :: "byte list" where
  "a2b0_float_tag =
     append_u32_be (append_u32_be
       (append_u32_be (append_u32_be [] (fourcc ''mABF'')) 0 @ [3] @ [3] @ [0] @ [0]) 16) 0"

text \<open>A payload is a signature with the bytes of the tag.\<close>

type_synonym payload = "u32 \<times> byte list"

definition base_payloads :: "byte list \<Rightarrow> tag_record list \<Rightarrow> payload list" where
  "base_payloads base records =
     map (\<lambda>r. (tr_signature r, take (unat (tr_size r)) (drop (unat (tr_offset r)) base)))
       (filter (\<lambda>r. \<not> (tr_signature r = fourcc ''cicp'' \<or> tr_signature r = fourcc ''A2B0'')) records)"

text \<open>\<open>std::sort\<close> by signature; the order of equal signatures is not specified and is the given one here.\<close>

definition all_payloads :: "byte list \<Rightarrow> tag_record list \<Rightarrow> payload list" where
  "all_payloads base records =
     sort_key fst (base_payloads base records @ [(fourcc ''cicp'', cicp_tag), (fourcc ''A2B0'', a2b0_float_tag)])"

definition place_payload :: "payload \<Rightarrow> byte list \<times> tag_record list \<Rightarrow> byte list \<times> tag_record list" where
  "place_payload payload st =
     (case (payload, st) of ((signature, bytes), (out, records)) \<Rightarrow>
        let out = align4 out; offset = of_nat (length out)
        in (out @ bytes,
            records @ [\<lparr>tr_signature = signature, tr_offset = offset, tr_size = of_nat (length bytes)\<rparr>]))"

fun write_records :: "nat \<Rightarrow> tag_record list \<Rightarrow> byte list \<Rightarrow> icc_stop + byte list" where
  "write_records i [] out = Inr out"
| "write_records i (r # rs) out =
     (let record_offset = 132 + i * 12
      in bind_res (write_u32_be record_offset (tr_signature r) out) (\<lambda>out.
         bind_res (write_u32_be (record_offset + 4) (tr_offset r) out) (\<lambda>out.
         bind_res (write_u32_be (record_offset + 8) (tr_size r) out) (\<lambda>out.
         write_records (Suc i) rs out))))"

text \<open>The header and an empty tag table.\<close>

definition start_profile :: "byte list \<Rightarrow> payload list \<Rightarrow> byte list" where
  "start_profile base payloads =
     (let tag_table_end = 132 + length payloads * 12;
          out = append_u32_be (take 128 base) (of_nat (length payloads))
      in out @ replicate (tag_table_end - length out) 0)"

definition bt2020_pq :: "byte list option \<Rightarrow> icc_stop + byte list" where
  "bt2020_pq make_base_profile =
     bind_res (case make_base_profile of None \<Rightarrow> Inl (IccThrown ''base ICC profile'') | Some b \<Rightarrow> Inr b) (\<lambda>base.
     bind_res (read_tag_records base) (\<lambda>base_records.
     let payloads = all_payloads base base_records;
         (out, new_records) = fold place_payload payloads (start_profile base payloads, [])
     in bind_res (write_u32_be 0 (of_nat (length out)) out) (\<lambda>out.
        bind_res (set_byte 8 0x04 out) (\<lambda>out.
        bind_res (set_byte 9 0x40 out) (\<lambda>out.
        bind_res (set_byte 10 0 out) (\<lambda>out.
        bind_res (set_byte 11 0 out) (\<lambda>out.
        write_records 0 new_records out)))))))"

section \<open>Bytes and words\<close>

lemma length_align4: "length (align4 bs) mod 4 = 0"
  by (induction bs rule: align4.induct) (subst align4.simps, simp)

lemma align4_append: "\<exists>n. align4 bs = bs @ replicate n 0"
proof (induction bs rule: align4.induct)
  case (1 bs)
  show ?case
  proof (cases "length bs mod 4 = 0")
    case True
    then show ?thesis by (subst align4.simps) (auto intro: exI [of _ 0])
  next
    case False
    with 1 obtain n where "align4 (bs @ [0]) = (bs @ [0]) @ replicate n 0" by blast
    with False show ?thesis by (subst align4.simps) (auto intro: exI [of _ "Suc n"])
  qed
qed

lemma low_byte: "ucast (v AND 0xff) = (ucast v :: byte)" for v :: u32
proof -
  have ff: "(0xff :: u32) = mask 8" by (simp add: mask_eq_exp_minus_1)
  show ?thesis unfolding ff by (rule bit_word_eqI) (simp add: bit_simps)
qed

lemma append_u32_be_put: "append_u32_be bs w = bs @ put_u32 w"
  by (simp add: append_u32_be_def put_u32_def low_byte)

lemma take_4_nth: "p + 4 \<le> length bs \<Longrightarrow> take 4 (drop p bs) = [bs ! p, bs ! (p + 1), bs ! (p + 2), bs ! (p + 3)]"
  by (intro nth_equalityI) (auto simp: nth_Cons' less_Suc_eq numeral_eq_Suc)

lemma read_u32_be_put:
  assumes "p + 4 \<le> length bs"
  shows "read_u32_be bs p = Inr w \<longleftrightarrow> take 4 (drop p bs) = put_u32 w"
proof -
  have "take 4 (drop p bs) = [bs ! p, bs ! (p + 1), bs ! (p + 2), bs ! (p + 3)]"
    using assms by (rule take_4_nth)
  moreover have "read_u32_be bs p =
      Inr (push_bit 24 (ucast (bs ! p)) OR push_bit 16 (ucast (bs ! (p + 1))) OR push_bit 8 (ucast (bs ! (p + 2))) OR
        ucast (bs ! (p + 3)))"
    using assms by (simp add: read_u32_be_def byte_at_def or_icc_fault_def)
  ultimately show ?thesis by (metis bytes_of_u32 put_u32_inject sum.inject(2))
qed

lemma write_u32_be_put:
  assumes "p + 4 \<le> length bs"
  shows "write_u32_be p w bs = Inr (take p bs @ put_u32 w @ drop (p + 4) bs)"
proof -
  have "bs[p := a, p + 1 := b, p + 2 := c, p + 3 := d] = take p bs @ [a, b, c, d] @ drop (p + 4) bs" for a b c d :: byte
    using assms
    by (intro nth_equalityI) (auto simp: nth_append nth_list_update nth_Cons' less_Suc_eq numeral_eq_Suc
      intro!: arg_cong [where f = "(!) bs"])
  with assms show ?thesis by (simp add: write_u32_be_def set_byte_def low_byte put_u32_def)
qed

section \<open>Layout of the written profile\<close>

definition rec_bytes :: "tag_record \<Rightarrow> byte list" where
  "rec_bytes r = put_u32 (tr_signature r) @ put_u32 (tr_offset r) @ put_u32 (tr_size r)"

lemma length_rec_bytes [simp]: "length (rec_bytes r) = 12"
  by (simp add: rec_bytes_def)

lemma length_table [simp]: "length (concat (map rec_bytes rs)) = 12 * length rs"
  by (induction rs) simp_all

lemma write_u32_be_append:
  assumes "length xs = p" and "length old = 4"
  shows "write_u32_be p w (xs @ old @ ys) = Inr (xs @ put_u32 w @ ys)"
  using assms by (simp add: write_u32_be_put)

text \<open>The records fill the table from their first index on.\<close>

lemma write_records_append:
  assumes "length xs = 132 + i * 12" and "length old = 12 * length rs"
  shows "write_records i rs (xs @ old @ ys) = Inr (xs @ concat (map rec_bytes rs) @ ys)"
  using assms
proof (induction rs arbitrary: i xs old)
  case (Cons r rs)
  define a b c rest where "a = take 4 old" and "b = take 4 (drop 4 old)" and "c = take 4 (drop 8 old)" and "rest = drop 12 old"
  have old: "old = a @ b @ c @ rest"
    using append_take_drop_id [of 4 old] append_take_drop_id [of 4 "drop 4 old"] append_take_drop_id [of 4 "drop 8 old"]
    by (simp add: a_def b_def c_def rest_def)
  have len: "length a = 4" "length b = 4" "length c = 4" "length rest = 12 * length rs"
    using Cons.prems(2) by (simp_all add: a_def b_def c_def rest_def)
  have 1: "write_u32_be (132 + i * 12) (tr_signature r) (xs @ a @ b @ c @ rest @ ys) =
      Inr (xs @ put_u32 (tr_signature r) @ b @ c @ rest @ ys)"
    using Cons.prems(1) len by (intro write_u32_be_append) simp_all
  have 2: "write_u32_be (136 + i * 12) (tr_offset r) ((xs @ put_u32 (tr_signature r)) @ b @ c @ rest @ ys) =
      Inr ((xs @ put_u32 (tr_signature r)) @ put_u32 (tr_offset r) @ c @ rest @ ys)"
    using Cons.prems(1) len by (intro write_u32_be_append) simp_all
  have 3: "write_u32_be (140 + i * 12) (tr_size r) ((xs @ put_u32 (tr_signature r) @ put_u32 (tr_offset r)) @ c @ rest @ ys) =
      Inr ((xs @ put_u32 (tr_signature r) @ put_u32 (tr_offset r)) @ put_u32 (tr_size r) @ rest @ ys)"
    using Cons.prems(1) len by (intro write_u32_be_append) simp_all
  have "write_records (Suc i) rs ((xs @ rec_bytes r) @ rest @ ys) = Inr ((xs @ rec_bytes r) @ concat (map rec_bytes rs) @ ys)"
    using Cons.prems(1) len by (intro Cons.IH) simp_all
  with 1 2 3 show ?case by (simp add: old Let_def rec_bytes_def [of r])
qed simp

text \<open>A payload that has been placed at or after a position, aligned and inside the file.\<close>

definition placed :: "nat \<Rightarrow> byte list \<Rightarrow> payload \<Rightarrow> tag_record \<Rightarrow> bool" where
  "placed lo out p r \<longleftrightarrow>
     tr_signature r = fst p \<and> unat (tr_size r) = length (snd p) \<and>
     lo \<le> unat (tr_offset r) \<and> unat (tr_offset r) + length (snd p) \<le> length out \<and>
     unat (tr_offset r) mod 4 = 0 \<and> take (length (snd p)) (drop (unat (tr_offset r)) out) = snd p"

lemma placed_append: "placed lo out p r \<Longrightarrow> placed lo (out @ xs) p r"
  by (auto simp: placed_def)

lemma map_res_Inr_upt: "(\<And>i. i < n \<Longrightarrow> f i = Inr (ys ! i)) \<Longrightarrow> length ys = n \<Longrightarrow> map_res f [0..<n] = Inr ys"
proof -
  assume f: "\<And>i. i < n \<Longrightarrow> f i = Inr (ys ! i)" and n: "length ys = n"
  have "map_res f is = Inr (map ((!) ys) is)" if "set is \<subseteq> {0..<n}" for "is"
    using that f by (induction "is") simp_all
  from this [of "[0..<n]"] n map_nth [of ys] show ?thesis by simp
qed

lemma u32_of_nat: "n < 2 ^ 32 \<Longrightarrow> unat (of_nat n :: u32) = n"
  by (simp add: unsigned_of_nat take_bit_nat_eq_self)

lemma place_payload_pair:
  "place_payload (sig, bytes) (out, recs) = (align4 out @ bytes, recs @ [\<lparr>tr_signature = sig,
     tr_offset = of_nat (length (align4 out)), tr_size = of_nat (length bytes)\<rparr>])"
  by (simp add: place_payload_def Let_def)

lemma place_payloads:
  assumes "fold place_payload ps (out, recs) = (out', recs')" and "length out' < 2 ^ 32" and "lo \<le> length out"
  shows "\<exists>xs new. out' = out @ xs \<and> recs' = recs @ new \<and> list_all2 (placed lo out') ps new"
  using assms(1,3)
proof (induction ps arbitrary: out recs)
  case (Cons p ps)
  obtain sig bytes where p: "p = (sig, bytes)" by fastforce
  obtain k where k: "align4 out = out @ replicate k 0" using align4_append by blast
  let ?o = "length (align4 out)"
  have ge: "length out \<le> ?o" by (simp add: k)
  let ?r = "\<lparr>tr_signature = sig, tr_offset = of_nat ?o, tr_size = of_nat (length bytes)\<rparr>"
  from Cons.prems(1) have "fold place_payload ps (align4 out @ bytes, recs @ [?r]) = (out', recs')"
    by (simp add: place_payload_pair p)
  from Cons.IH [OF this] obtain xs new where out': "out' = (align4 out @ bytes) @ xs" and "recs' = (recs @ [?r]) @ new"
    and all: "list_all2 (placed lo out') ps new" using Cons.prems(2) k by auto
  moreover have "placed lo out' p ?r"
    using assms(2) Cons.prems(2) ge length_align4 [of out]
    by (simp add: placed_def p out' u32_of_nat)
  ultimately show ?case by (intro exI [of _ "replicate k 0 @ bytes @ xs"] exI [of _ "?r # new"]) (simp add: k)
qed simp

text \<open>A record is read back from the table.\<close>

lemma read_tag_record_table:
  assumes "length front = 132" and "i < length recs"
    and "out = front @ concat (map rec_bytes recs) @ xs"
    and "unat (tr_offset (recs ! i)) + unat (tr_size (recs ! i)) \<le> length out"
  shows "read_tag_record out i = Inr (recs ! i)"
proof -
  let ?r = "recs ! i" and ?o = "132 + i * 12"
  have "drop (i * 12) (concat (map rec_bytes recs)) = concat (map rec_bytes (drop i recs))" for recs i
  proof (induction i arbitrary: recs)
    case (Suc i)
    then show ?case by (cases recs) simp_all
  qed simp
  then have tail: "drop ?o out = concat (map rec_bytes (drop i recs)) @ xs"
    using assms(1,2) by (simp add: assms(3))
  have d: "drop ?o out = put_u32 (tr_signature ?r) @ put_u32 (tr_offset ?r) @ put_u32 (tr_size ?r) @
      concat (map rec_bytes (drop (Suc i) recs)) @ xs"
    unfolding tail using assms(2) by (simp add: Cons_nth_drop_Suc [symmetric] rec_bytes_def [of ?r])
  have len: "?o + 12 \<le> length out" using assms(1,2) by (simp add: assms(3))
  have "take 4 (drop (?o + 4) out) = put_u32 (tr_offset ?r)" and "take 4 (drop (?o + 8) out) = put_u32 (tr_size ?r)"
  proof -
    have "drop (?o + 4) out = drop 4 (drop ?o out)" and "drop (?o + 8) out = drop 8 (drop ?o out)"
      by (simp_all only: drop_drop add.commute)
    then show "take 4 (drop (?o + 4) out) = put_u32 (tr_offset ?r)" and "take 4 (drop (?o + 8) out) = put_u32 (tr_size ?r)"
      unfolding d by simp_all
  qed
  with d len have "read_u32_be out ?o = Inr (tr_signature ?r)" "read_u32_be out (?o + 4) = Inr (tr_offset ?r)"
    "read_u32_be out (?o + 8) = Inr (tr_size ?r)"
    by (simp_all add: read_u32_be_put)
  with assms(4) show ?thesis by (simp add: read_tag_record_def Let_def)
qed

text \<open>What the five writes to the header do: the size and the version.\<close>

definition final_header :: "nat \<Rightarrow> byte list \<Rightarrow> byte list" where
  "final_header n front = (put_u32 (of_nat n) @ drop 4 front)[8 := 0x04, 9 := 0x40, 10 := 0, 11 := 0]"

lemma write_header:
  assumes "length front = 128" and "out = front @ rest"
  shows "bind_res (write_u32_be 0 (of_nat (length out)) out) (\<lambda>out.
    bind_res (set_byte 8 0x04 out) (\<lambda>out. bind_res (set_byte 9 0x40 out) (\<lambda>out.
    bind_res (set_byte 10 0 out) (\<lambda>out. bind_res (set_byte 11 0 out) k)))) =
    k (final_header (length out) front @ rest)"
proof -
  let ?n = "length out"
  have w: "write_u32_be 0 (of_nat ?n) out = Inr ((put_u32 (of_nat ?n) @ drop 4 front) @ rest)"
    using assms by (simp add: write_u32_be_put)
  have s: "set_byte i b (xs @ ys) = Inr (xs[i := b] @ ys)" if "i < length xs" for i b xs ys
    using that by (simp add: set_byte_def list_update_append)
  have l: "length (put_u32 (of_nat ?n) @ drop 4 front) = 128" using assms(1) by simp
  show ?thesis unfolding w bind_res_Inr final_header_def by (simp only: s l length_list_update bind_res_Inr)
qed

lemma length_final_header: "length front = 128 \<Longrightarrow> length (final_header n front) = 128"
  by (simp add: final_header_def)

lemma final_header_bytes:
  assumes "length front = 128"
  shows "take 4 (final_header n front) = put_u32 (of_nat n)" and "take 4 (drop 8 (final_header n front)) = [0x04, 0x40, 0, 0]"
    and "take 4 (drop 36 (final_header n front)) = take 4 (drop 36 front)"
proof -
  have u: "final_header n front ! i = (if i = 8 then 0x04 else if i = 9 then 0x40 else if i = 10 \<or> i = 11 then 0
      else if i < 4 then put_u32 (of_nat n) ! i else front ! i)" if "i < 128" for i
    using that assms by (auto simp: final_header_def nth_list_update nth_append)
  show "take 4 (final_header n front) = put_u32 (of_nat n)"
    by (rule nth_equalityI) (use u assms in \<open>simp_all add: length_final_header\<close>)
  show "take 4 (drop 8 (final_header n front)) = [0x04, 0x40, 0, 0]"
    using take_4_nth [of 8 "final_header n front"] u [of 8] u [of 9] u [of 10] u [of 11] assms
    by (simp add: length_final_header)
  show "take 4 (drop 36 (final_header n front)) = take 4 (drop 36 front)"
    by (rule nth_equalityI) (use u assms in \<open>simp_all add: length_final_header\<close>)
qed

lemma place_payloads_shape:
  "\<exists>xs new. fold place_payload ps (out, recs) = (out @ xs, recs @ new) \<and> length new = length ps"
proof (induction ps arbitrary: out recs)
  case (Cons p ps)
  obtain sig bytes where p: "p = (sig, bytes)" by fastforce
  obtain k where "align4 out = out @ replicate k 0" using align4_append by blast
  with Cons.IH [of "align4 out @ bytes" "recs @ [\<lparr>tr_signature = sig, tr_offset = of_nat (length (align4 out)),
      tr_size = of_nat (length bytes)\<rparr>]"]
  show ?case by (auto simp: p place_payload_pair)
qed simp

lemma read_tag_records_front:
  assumes "read_tag_records base = Inr recs"
  shows "132 \<le> length base" and "take 4 (drop 36 base) = put_u32 (fourcc ''acsp'')"
proof -
  from assms show l: "132 \<le> length base" by (auto simp: read_tag_records_def Let_def split: if_splits)
  from assms have "read_u32_be base 36 = Inr (fourcc ''acsp'')"
    by (auto simp: read_tag_records_def Let_def bind_res_eq_Inr_iff split: if_splits)
  with l show "take 4 (drop 36 base) = put_u32 (fourcc ''acsp'')" by (simp add: read_u32_be_put)
qed

text \<open>The whole file: the header, the number of tags, the table and the payloads.\<close>

lemma bt2020_pq_layout:
  assumes "read_tag_records base = Inr recs"
  defines "ps \<equiv> all_payloads base recs"
  obtains xs new where "fold place_payload ps (start_profile base ps, []) = (start_profile base ps @ xs, new)"
    and "length (start_profile base ps) = 132 + 12 * length ps" and "length new = length ps"
    and "bt2020_pq (Some base) = Inr (final_header (132 + 12 * length ps + length xs) (take 128 base) @
      put_u32 (of_nat (length ps)) @ concat (map rec_bytes new) @ xs)"
proof -
  from read_tag_records_front [OF assms(1)] have len: "length (take 128 base) = 128" by simp
  obtain xs new where f: "fold place_payload ps (start_profile base ps, []) = (start_profile base ps @ xs, new)"
    and n: "length new = length ps" using place_payloads_shape [of ps "start_profile base ps" "[]"] by auto
  have start: "start_profile base ps = take 128 base @ put_u32 (of_nat (length ps)) @ replicate (12 * length ps) 0"
    using len by (simp add: start_profile_def Let_def append_u32_be_put)
  let ?rest = "put_u32 (of_nat (length ps)) @ replicate (12 * length ps) 0 @ xs"
  have out: "start_profile base ps @ xs = take 128 base @ ?rest" by (simp add: start)
  have l: "length (start_profile base ps @ xs) = 132 + 12 * length ps + length xs" using len by (simp add: start)
  have "bt2020_pq (Some base) =
      bind_res (write_u32_be 0 (of_nat (length (start_profile base ps @ xs))) (start_profile base ps @ xs)) (\<lambda>out.
      bind_res (set_byte 8 0x04 out) (\<lambda>out. bind_res (set_byte 9 0x40 out) (\<lambda>out.
      bind_res (set_byte 10 0 out) (\<lambda>out. bind_res (set_byte 11 0 out) (write_records 0 new)))))"
    by (simp add: bt2020_pq_def assms(1) ps_def [symmetric] Let_def f)
  also have "\<dots> = write_records 0 new (final_header (132 + 12 * length ps + length xs) (take 128 base) @ ?rest)"
    by (subst write_header [OF len out]) (simp only: l)
  also have "\<dots> = write_records 0 new ((final_header (132 + 12 * length ps + length xs) (take 128 base) @
      put_u32 (of_nat (length ps))) @ replicate (12 * length ps) 0 @ xs)" by simp
  also have "\<dots> = Inr ((final_header (132 + 12 * length ps + length xs) (take 128 base) @
      put_u32 (of_nat (length ps))) @ concat (map rec_bytes new) @ xs)"
    using len n by (intro write_records_append) (simp_all add: length_final_header)
  finally show ?thesis using f n l by (intro that) simp_all
qed

text \<open>A placed payload is found at its place when only bytes before it change.\<close>

lemma placed_front:
  assumes "placed lo (front @ xs) p r" and "length front = lo" and "length front' = lo"
  shows "placed lo (front' @ xs) p r"
  using assms by (auto simp: placed_def)

section \<open>Properties\<close>

definition tag_payload :: "byte list \<Rightarrow> tag_record \<Rightarrow> payload" where
  "tag_payload profile r = (tr_signature r, take (unat (tr_size r)) (drop (unat (tr_offset r)) profile))"

text \<open>
  C27: From every base profile whose tag table can be read a profile is written, without an access outside
  a vector. When it is shorter than 4 GiB, its own tag table can be read and gives, sorted by signature,
  the tags of the base profile other than the two that are replaced, and the two new ones, each with its
  bytes and aligned to four; the header has the length of the file and version 4.4.
\<close>

theorem icc_roundtrip:
  assumes "read_tag_records base = Inr recs"
  shows "\<exists>out. bt2020_pq (Some base) = Inr out \<and>
    (length out < 2 ^ 32 \<longrightarrow> (\<exists>records. read_tag_records out = Inr records \<and>
      map (tag_payload out) records = all_payloads base recs \<and>
      (\<forall>r \<in> set records. unat (tr_offset r) mod 4 = 0) \<and>
      read_u32_be out 0 = Inr (of_nat (length out)) \<and> take 4 (drop 8 out) = [0x04, 0x40, 0, 0]))"
proof -
  define ps where "ps = all_payloads base recs"
  from assms obtain xs new
    where f: "fold place_payload ps (start_profile base ps, []) = (start_profile base ps @ xs, new)"
      and l: "length (start_profile base ps) = 132 + 12 * length ps" and n: "length new = length ps"
      and w: "bt2020_pq (Some base) = Inr (final_header (132 + 12 * length ps + length xs) (take 128 base) @
        put_u32 (of_nat (length ps)) @ concat (map rec_bytes new) @ xs)"
    unfolding ps_def by (rule bt2020_pq_layout)
  from read_tag_records_front [OF assms] have base: "length (take 128 base) = 128"
    "take 4 (drop 36 (take 128 base)) = put_u32 (fourcc ''acsp'')"
    by (simp_all add: drop_take min_def)
  define h where "h = final_header (132 + 12 * length ps + length xs) (take 128 base)"
  define front where "front = h @ put_u32 (of_nat (length ps))"
  define out where "out = front @ concat (map rec_bytes new) @ xs"
  have "length h = 128" by (simp only: h_def length_final_header [OF base(1)])
  then have len: "length out = 132 + 12 * length ps + length xs" using n by (simp add: out_def front_def)
  have h: "length h = 128" "take 4 h = put_u32 (of_nat (length out))" "take 4 (drop 8 h) = [0x04, 0x40, 0, 0]"
    "take 4 (drop 36 h) = put_u32 (fourcc ''acsp'')"
    unfolding h_def len using final_header_bytes [OF base(1)] base by (simp_all add: length_final_header)
  have words: "read_u32_be out 0 = Inr (of_nat (length out))" "read_u32_be out 36 = Inr (fourcc ''acsp'')"
    "take 4 (drop 8 out) = [0x04, 0x40, 0, 0]" "read_u32_be out 128 = Inr (of_nat (length ps))"
    using h len by (simp_all add: read_u32_be_put out_def front_def)
  have "\<exists>records. read_tag_records out = Inr records \<and> map (tag_payload out) records = ps \<and>
      (\<forall>r \<in> set records. unat (tr_offset r) mod 4 = 0)" if small: "length out < 2 ^ 32"
  proof (intro exI conjI)
    have "length (start_profile base ps @ xs) < 2 ^ 32" using small l len by simp
    from place_payloads [OF f this, of "132 + 12 * length ps"]
    have "list_all2 (placed (132 + 12 * length ps) (start_profile base ps @ xs)) ps new" using l by auto
    then have all: "list_all2 (placed (132 + 12 * length ps) out) ps new"
      unfolding out_def append_assoc [symmetric]
      by (rule list_all2_mono) (rule placed_front, use l h(1) n in \<open>simp_all add: front_def\<close>)
    have "read_tag_record out i = Inr (new ! i)" if "i < length new" for i
      using list_all2_nthD2 [OF all that] h(1) that
      by (intro read_tag_record_table [of front]) (simp_all add: placed_def out_def front_def)
    moreover have "unat (of_nat (length ps) :: u32) = length new" using small len n by (simp add: u32_of_nat)
    ultimately show "read_tag_records out = Inr new"
      using words len n map_res_Inr_upt [of "length new" "read_tag_record out" new]
      by (simp add: read_tag_records_def)
    show "map (tag_payload out) new = ps"
      using all by (auto simp: list_all2_conv_all_nth placed_def tag_payload_def prod_eq_iff intro!: nth_equalityI)
    show "\<forall>r \<in> set new. unat (tr_offset r) mod 4 = 0"
      using all by (auto simp: list_all2_conv_all_nth placed_def in_set_conv_nth)
  qed
  with w words show ?thesis unfolding out_def front_def h_def ps_def by auto
qed

subsection \<open>A profile with one tag\<close>

definition demo_base :: "byte list" where
  "demo_base = replicate 36 0 @ put_u32 (fourcc ''acsp'') @ replicate 88 0 @ put_u32 1 @
     put_u32 (fourcc ''desc'') @ put_u32 144 @ put_u32 3 @ [1, 2, 3]"

definition demo_record :: tag_record where
  "demo_record = \<lparr>tr_signature = fourcc ''desc'', tr_offset = 144, tr_size = 3\<rparr>"

lemma demo_read: "read_tag_records demo_base = Inr [demo_record]"
  by code_simp

lemma demo_length: "case bt2020_pq (Some demo_base) of Inl _ \<Rightarrow> False | Inr out \<Rightarrow> length out < 1000"
  by code_simp

theorem icc_roundtrip_witness:
  "\<exists>out records. bt2020_pq (Some demo_base) = Inr out \<and> read_tag_records out = Inr records \<and>
     map (tag_payload out) records = all_payloads demo_base [demo_record]"
  using icc_roundtrip [OF demo_read] demo_length by auto

end
