(* ===== verification/Cli.thy ===== *)
theory Cli
  imports Editor_Session Editor_Static Pipeline_Run
begin

text \<open>
  The command line program (\<open>src/cpipe/cli/main.cpp\<close>): the configuration of \<open>serve\<close> from the command line,
  the environment, the settings file and the installation, and the commands with their exit codes.

  The parser of the command line, the JSON library, the environment and the file system are parameters.
  What the program prints is not modelled, except for the warning of \<open>serve\<close>.
\<close>

section \<open>Configuration\<close>

record 'j cli_api = "'j editor_api" +
  js_get_u16 :: "'j \<Rightarrow> 16 word option"

record system_env =
  sy_env :: "string \<Rightarrow> string option"
  sy_files :: file_system
  sy_installed_editor :: string

record serve_config =
  sc_port :: string
  sc_bind :: string
  sc_pipeline :: string
  sc_editor_static :: string

definition empty_config :: serve_config where
  "empty_config = \<lparr>sc_port = [], sc_bind = [], sc_pipeline = [], sc_editor_static = []\<rparr>"

definition has_dng_extension :: "string \<Rightarrow> bool" where
  "has_dng_extension path \<longleftrightarrow> ascii_lower (path_extension path) = ''.dng''"

definition kNotImplementedExit :: int where
  "kNotImplementedExit = 100"

text \<open>\<open>std::stoul\<close> reads like a stream and ignores what follows the digits; it throws where the stream fails.\<close>

datatype port_error = PortOutOfRange | NotANumber

definition parse_port :: "string \<Rightarrow> 16 word \<Rightarrow> port_error + 16 word" where
  "parse_port v fallback =
     (if v = [] then Inr fallback
      else case stream_u64 v of
          None \<Rightarrow> Inl NotANumber
        | Some (parsed, _) \<Rightarrow> if parsed = 0 \<or> parsed > 65535 then Inl PortOutOfRange else Inr (ucast parsed))"

definition env_string :: "system_env \<Rightarrow> string \<Rightarrow> string option" where
  "env_string sys key = (case sy_env sys key of None \<Rightarrow> None | Some v \<Rightarrow> if v = [] then None else Some v)"

definition settings_path :: "system_env \<Rightarrow> string" where
  "settings_path sys =
     (case env_string sys ''HOME'' of
        None \<Rightarrow> []
      | Some home \<Rightarrow> path_append (path_append (path_append home ''.config'') ''cpipe'') ''settings.json'')"

definition is_regular_file :: "system_env \<Rightarrow> string \<Rightarrow> stop + bool" where
  "is_regular_file sys p =
     (case query_type (sy_files sys) p of Inl _ \<Rightarrow> Inl Thrown | Inr t \<Rightarrow> Inr (t = Regular))"

text \<open>The text of a file; a file that cannot be opened reads as an empty one.\<close>

definition file_text :: "system_env \<Rightarrow> string \<Rightarrow> string option" where
  "file_text sys p = map_option (map (\<lambda>b. char_of (unat b))) (fs_read (sy_files sys) p)"

definition text_or_empty :: "string option \<Rightarrow> string" where
  "text_or_empty t = (case t of None \<Rightarrow> [] | Some s \<Rightarrow> s)"

text \<open>One optional field of the \<open>server\<close> object.\<close>

definition setting ::
  "('j, 'x) cli_api_scheme \<Rightarrow> 'j \<Rightarrow> string \<Rightarrow> ('j \<Rightarrow> string option) \<Rightarrow> stop + string" where
  "setting J server key get =
     (if js_contains J server key then or_throw (Option.bind (js_at J server key) get) else Inr [])"

definition load_settings_config :: "('j, 'x) cli_api_scheme \<Rightarrow> system_env \<Rightarrow> stop + serve_config" where
  "load_settings_config J sys =
     (let path = settings_path sys
      in if path = [] then Inr empty_config
         else
           bind_res (is_regular_file sys path) (\<lambda>regular.
           if \<not> regular then Inr empty_config
           else
             bind_res (or_throw (js_parse J (text_or_empty (file_text sys path)))) (\<lambda>document.
             bind_res (or_throw (js_value J document ''server'' (js_object J))) (\<lambda>server.
             bind_res (setting J server ''port'' (\<lambda>j. map_option (\<lambda>n. nat_to_string (unat n)) (js_get_u16 J j))) (\<lambda>port.
             bind_res (setting J server ''bind'' (js_get_string J)) (\<lambda>bind.
             bind_res (setting J server ''pipeline'' (js_get_string J)) (\<lambda>pipeline.
             bind_res (setting J server ''editor_static'' (js_get_string J)) (\<lambda>editor_static.
             Inr \<lparr>sc_port = port, sc_bind = bind, sc_pipeline = pipeline, sc_editor_static = editor_static\<rparr>))))))))"

definition default_serve_config :: "system_env \<Rightarrow> stop + serve_config" where
  "default_serve_config sys =
     bind_res (is_regular_file sys (path_append (sy_installed_editor sys) ''index.html'')) (\<lambda>regular.
     Inr (if regular then empty_config\<lparr>sc_editor_static := sy_installed_editor sys\<rparr> else empty_config))"

text \<open>A value that is not empty replaces the one before.\<close>

definition override :: "string \<Rightarrow> string \<Rightarrow> string" where
  "override new old = (if new \<noteq> [] then new else old)"

definition apply_settings_config ::
  "('j, 'x) cli_api_scheme \<Rightarrow> system_env \<Rightarrow> serve_config \<Rightarrow> stop + serve_config" where
  "apply_settings_config J sys config =
     bind_res (load_settings_config J sys) (\<lambda>settings.
     Inr (config\<lparr>sc_port := override (sc_port settings) (sc_port config),
       sc_bind := override (sc_bind settings) (sc_bind config),
       sc_pipeline := override (sc_pipeline settings) (sc_pipeline config),
       sc_editor_static := override (sc_editor_static settings) (sc_editor_static config)\<rparr>))"

definition env_override :: "system_env \<Rightarrow> string \<Rightarrow> string \<Rightarrow> string" where
  "env_override sys key old = (case env_string sys key of None \<Rightarrow> old | Some v \<Rightarrow> v)"

definition apply_env_config :: "system_env \<Rightarrow> serve_config \<Rightarrow> serve_config" where
  "apply_env_config sys config =
     config\<lparr>sc_port := env_override sys ''CPIPE_SERVER_PORT'' (sc_port config),
       sc_bind := env_override sys ''CPIPE_SERVER_BIND'' (sc_bind config),
       sc_pipeline := env_override sys ''CPIPE_PIPELINE'' (sc_pipeline config),
       sc_editor_static := env_override sys ''CPIPE_EDITOR_STATIC'' (sc_editor_static config)\<rparr>"

definition resolve_serve_config ::
  "('j, 'x) cli_api_scheme \<Rightarrow> system_env \<Rightarrow> serve_config \<Rightarrow> stop + serve_config" where
  "resolve_serve_config J sys args =
     bind_res (default_serve_config sys) (\<lambda>config.
     bind_res (apply_settings_config J sys config) (\<lambda>config.
     let config = apply_env_config sys config
     in Inr (config\<lparr>sc_port := override (sc_port args) (sc_port config),
       sc_bind := override (sc_bind args) (sc_bind config),
       sc_pipeline := override (sc_pipeline args) (sc_pipeline config),
       sc_editor_static := override (sc_editor_static args) (sc_editor_static config)\<rparr>)))"

definition is_loopback_bind :: "string \<Rightarrow> bool" where
  "is_loopback_bind bind \<longleftrightarrow> bind = ''localhost'' \<or> bind = ''::1'' \<or> prefix ''127.'' bind"

section \<open>Commands\<close>

record server_options =
  so_bind :: string
  so_port :: "16 word"
  so_editor_static :: string

definition default_options :: server_options where
  "default_options = \<lparr>so_bind = ''127.0.0.1'', so_port = 4747, so_editor_static = []\<rparr>"

definition serve_options :: "serve_config \<Rightarrow> port_error + server_options" where
  "serve_options config =
     bind_res (parse_port (sc_port config) (so_port default_options)) (\<lambda>port.
     Inr \<lparr>so_bind = override (sc_bind config) (so_bind default_options), so_port = port,
       so_editor_static = override (sc_editor_static config) (so_editor_static default_options)\<rparr>)"

text \<open>
  What \<open>run_serve_command\<close> does: it exits with a status, or starts the server with these options and this
  session. The flag says whether the warning is printed.
\<close>

datatype 'j serve_outcome = ServeExit int bool | ServeStart server_options "'j session" bool

definition activation_outcome ::
  "server_options \<Rightarrow> bool \<Rightarrow> stop + 'j session \<Rightarrow> stop + 'j serve_outcome" where
  "activation_outcome options warn activated =
     (case activated of
        Inr s \<Rightarrow> Inr (ServeStart options s warn)
      | Inl (Returned status _) \<Rightarrow> Inr (ServeExit (status_value status) warn)
      | Inl e \<Rightarrow> Inl e)"

definition run_serve_command ::
  "('j, 'x) cli_api_scheme \<Rightarrow> system_env \<Rightarrow> serve_config \<Rightarrow> stop + 'j serve_outcome" where
  "run_serve_command J sys args =
     bind_res (resolve_serve_config J sys args) (\<lambda>config.
     case serve_options config of
       Inl _ \<Rightarrow> Inr (ServeExit (status_value BadIndex) False)
     | Inr options \<Rightarrow>
         let warn = (\<not> is_loopback_bind (so_bind options)); s = new_session J
         in if sc_pipeline config = [] then Inr (ServeStart options s warn)
            else
              case file_text sys (sc_pipeline config) of
                None \<Rightarrow> Inr (ServeExit (status_value BadIndex) warn)
              | Some input \<Rightarrow>
                  bind_res (or_throw (js_parse J input)) (\<lambda>document.
                  activation_outcome options warn (set_active_pipeline J document s)))"

section \<open>Precedence\<close>

text \<open>The first value of a list that is set.\<close>

fun first_set :: "string list \<Rightarrow> string" where
  "first_set [] = []"
| "first_set (v # vs) = (if v \<noteq> [] then v else first_set vs)"

definition env_value :: "system_env \<Rightarrow> string \<Rightarrow> string" where
  "env_value sys key = text_or_empty (sy_env sys key)"

lemma override_first: "override a (first_set vs) = first_set (a # vs)"
  by (simp add: override_def)

lemma env_override_first: "env_override sys key (first_set vs) = first_set (env_value sys key # vs)"
  by (auto simp: env_override_def env_string_def env_value_def text_or_empty_def split: option.splits)

lemma first_set_single: "first_set [v] = v"
  by simp

text \<open>
  Every field of the configuration \<open>serve\<close> uses is the first that is set of the command line, the
  environment, the settings file and the installation.
\<close>

lemma resolve_precedence:
  assumes "default_serve_config sys = Inr installed" and "load_settings_config J sys = Inr settings"
  shows "resolve_serve_config J sys args = Inr
    \<lparr>sc_port = first_set [sc_port args, env_value sys ''CPIPE_SERVER_PORT'', sc_port settings, sc_port installed],
     sc_bind = first_set [sc_bind args, env_value sys ''CPIPE_SERVER_BIND'', sc_bind settings, sc_bind installed],
     sc_pipeline = first_set [sc_pipeline args, env_value sys ''CPIPE_PIPELINE'', sc_pipeline settings, sc_pipeline installed],
     sc_editor_static = first_set [sc_editor_static args, env_value sys ''CPIPE_EDITOR_STATIC'',
       sc_editor_static settings, sc_editor_static installed]\<rparr>"
proof -
  have layer: "override a (env_override sys key (override s d)) = first_set [a, env_value sys key, s, d]" for a key s d
  proof -
    have "override s d = first_set [s, d]" by (simp add: override_def)
    then show ?thesis by (simp only: env_override_first override_first)
  qed
  show ?thesis
    unfolding resolve_serve_config_def apply_settings_config_def apply_env_config_def assms bind_res_Inr Let_def
      layer [symmetric]
    by simp
qed

section \<open>Starting the server\<close>

lemma parse_port_range: "parse_port v fallback = Inr p \<Longrightarrow> fallback \<noteq> 0 \<Longrightarrow> p \<noteq> 0"
proof -
  assume p: "parse_port v fallback = Inr p" and f: "fallback \<noteq> 0"
  have "ucast w \<noteq> (0 :: 16 word)" if "w \<noteq> 0" "w \<le> 65535" for w :: u64
  proof
    assume "ucast w = (0 :: 16 word)"
    then have "unat (ucast w :: 16 word) = 0" by simp
    then have "unat w mod 2 ^ 16 = 0" by (simp add: unsigned_ucast_eq take_bit_eq_mod)
    with that show False by (simp add: word_le_nat_alt unat_eq_zero)
  qed
  with p f show "p \<noteq> 0" by (auto simp: parse_port_def split: if_splits option.splits)
qed

lemma serve_options_Inr:
  assumes "serve_options config = Inr options"
  shows "so_port options \<noteq> 0" and "sc_port config = [] \<Longrightarrow> so_port options = 4747"
    and "so_bind options = (if sc_bind config = [] then ''127.0.0.1'' else sc_bind config)"
proof -
  from assms obtain p where p: "parse_port (sc_port config) 4747 = Inr p" and o: "so_port options = p"
    "so_bind options = override (sc_bind config) ''127.0.0.1''"
    by (auto simp: serve_options_def default_options_def bind_res_eq_Inr_iff)
  from parse_port_range [OF p] o show "so_port options \<noteq> 0" by simp
  from p o show "sc_port config = [] \<Longrightarrow> so_port options = 4747" by (simp add: parse_port_def)
  from o show "so_bind options = (if sc_bind config = [] then ''127.0.0.1'' else sc_bind config)"
    by (simp add: override_def)
qed

lemma activation_outcome_start:
  "activation_outcome o1 w1 r = Inr (ServeStart o2 s w2) \<longleftrightarrow> o1 = o2 \<and> w1 = w2 \<and> r = Inr s"
  by (auto simp: activation_outcome_def split: sum.splits stop.splits)

text \<open>The session the server starts with is one its event loop can reach.\<close>

lemma set_active_pipeline_reachable:
  assumes "set_active_pipeline J document (new_session J) = Inr s"
  shows "server_run J webp 1 s"
proof -
  have "server_run J webp (Suc 0) s"
    by (rule run_event [OF run_start, where e = "SetPipeline document"])
       (simp_all add: serve_def assms)
  then show ?thesis by simp
qed

text \<open>
  When \<open>serve\<close> starts the server, the port is not zero and is 4747 unless one is configured, the address
  is the loopback address unless one is configured, a warning is printed exactly for an address that is
  not recognised as loopback, and the session is one the event loop can reach after at most one event.
\<close>

lemma serve_command_start:
  assumes "run_serve_command J sys args = Inr (ServeStart options s warn)"
  shows "\<exists>config. resolve_serve_config J sys args = Inr config \<and>
    so_port options \<noteq> 0 \<and> (sc_port config = [] \<longrightarrow> so_port options = 4747) \<and>
    so_bind options = (if sc_bind config = [] then ''127.0.0.1'' else sc_bind config) \<and>
    warn = (\<not> is_loopback_bind (so_bind options)) \<and> (\<exists>n \<le> 1. server_run J webp n s)"
proof -
  from assms obtain config where c: "resolve_serve_config J sys args = Inr config"
    by (auto simp: run_serve_command_def bind_res_eq_Inr_iff)
  from assms obtain opts where o: "serve_options config = Inr opts"
    by (cases "serve_options config") (simp_all add: run_serve_command_def c)
  have "options = opts \<and> warn = (\<not> is_loopback_bind (so_bind opts)) \<and>
      (s = new_session J \<or> (\<exists>document. set_active_pipeline J document (new_session J) = Inr s))"
    using assms
    by (auto simp: run_serve_command_def c o Let_def bind_res_eq_Inr_iff activation_outcome_start
      split: if_splits option.splits)
  moreover have "\<exists>n \<le> 1. server_run J webp n s"
    if "s = new_session J \<or> (\<exists>document. set_active_pipeline J document (new_session J) = Inr s)"
    using that run_start [of J webp] set_active_pipeline_reachable [of J _ s webp] by (metis le_numeral_extra(3,4) zero_le)
  ultimately show ?thesis using c serve_options_Inr [OF o] by blast
qed

section \<open>A concrete system\<close>

text \<open>The settings file names a port and an address, the environment another port.\<close>

definition demo_settings :: json where
  "demo_settings = JObj [(''server'', JObj [(''port'', JNum 9), (''bind'', JStr ''0.0.0.0'')])]"

definition demo_cli :: "json cli_api" where
  "demo_cli = (editor_api.extend demo_editor \<lparr>js_get_u16 = (\<lambda>j. map_option (\<lambda>r. word_of_int \<lfloor>r\<rfloor>) (jv_number j))\<rparr>)
     \<lparr>js_parse := map_of [(''s'', demo_settings)]\<rparr>"

definition demo_system :: system_env where
  "demo_system = \<lparr>sy_env = map_of [(''HOME'', ''/h''), (''CPIPE_SERVER_PORT'', ''80'')],
     sy_files = \<lparr>fs_status = (\<lambda>p. Some (if p = ''/h/.config/cpipe/settings.json'' then Regular else NotFound)),
       fs_read = (\<lambda>p. if p = ''/h/.config/cpipe/settings.json'' then Some [115] else None)\<rparr>,
     sy_installed_editor = ''/usr/share/cpipe''\<rparr>"

lemma demo_system_path: "settings_path demo_system = ''/h/.config/cpipe/settings.json''"
  by (simp add: settings_path_def env_string_def demo_system_def path_append_def is_absolute_def)

lemma demo_default: "default_serve_config demo_system = Inr empty_config"
  by (simp add: default_serve_config_def is_regular_file_def query_type_def demo_system_def path_append_def
    is_absolute_def)

lemma demo_load_settings: "load_settings_config demo_cli demo_system = Inr (empty_config\<lparr>sc_port := ''9'', sc_bind := ''0.0.0.0''\<rparr>)"
proof -
  have r: "is_regular_file demo_system ''/h/.config/cpipe/settings.json'' = Inr True"
    by (simp add: is_regular_file_def query_type_def demo_system_def)
  have t: "file_text demo_system ''/h/.config/cpipe/settings.json'' = Some ''s''"
    by (simp add: file_text_def demo_system_def) code_simp
  have n: "nat_to_string 9 = ''9''" by (simp add: nat_to_string.simps digit_char_def) code_simp
  show ?thesis
    by (simp add: load_settings_config_def demo_system_path r t text_or_empty_def setting_def demo_cli_def
      demo_editor_def editor_api.defs json_api.defs json_of_def demo_settings_def empty_config_def n)
qed

lemma demo_resolved:
  "resolve_serve_config demo_cli demo_system (empty_config\<lparr>sc_editor_static := ''ui''\<rparr>) =
     Inr \<lparr>sc_port = ''80'', sc_bind = ''0.0.0.0'', sc_pipeline = [], sc_editor_static = ''ui''\<rparr>"
  by (simp add: resolve_serve_config_def apply_settings_config_def apply_env_config_def demo_default
    demo_load_settings Let_def)
     (simp add: override_def env_override_def env_string_def demo_system_def empty_config_def)

end
