(* ===== verification/Sdk.thy ===== *)
theory Sdk
  imports Host_Context Compute_Context
begin

text \<open>
  The C++ layer plugins are compiled against (\<open>include/cpipe/sdk/sdk.hpp\<close>): views of the metadata, the
  metadata builder, the buffers, the parameters and the compute context, over the suites of function
  pointers of \<open>include/cpipe/sdk/cpipe_node.h\<close>.

  A suite is a record of function pointers; a null pointer is \<open>None\<close>. The functions are parameters:
  they take the object (\<open>'m\<close>, \<open>'b\<close>: the type behind the handle pointer), the values behind the out
  parameters before the call, and return an integer status with the values afterwards. What the SDK
  relies on is stated as an interface, and the functions of \<open>Host_Context\<close> are shown to provide it.

  A call that ends in a memory fault is \<open>Inl\<close> of the fault; otherwise it gives an error value or a
  result of the SDK. Failing memory allocation is not modelled.
\<close>

section \<open>Errors\<close>

record sdk_error =
  er_code :: int
  er_message :: string

type_synonym 'a sdk_result = "sdk_error + 'a"

definition unexpected :: "int \<Rightarrow> string \<Rightarrow> 'e + 'a sdk_result" where
  "unexpected status message = Inr (Inl \<lparr>er_code = status, er_message = message\<rparr>)"

definition result :: "'a \<Rightarrow> 'e + 'a sdk_result" where
  "result x = Inr (Inr x)"

text \<open>
  The status of a call decides between an error value and the rest of the method; the guard at the
  start of a method gives the function to call and the object.
\<close>

definition checked :: "int \<Rightarrow> string \<Rightarrow> ('e + 'a sdk_result) \<Rightarrow> 'e + 'a sdk_result" where
  "checked status message rest = (if status \<noteq> status_int Ok then unexpected status message else rest)"

definition entry_point :: "'s option \<Rightarrow> ('s \<Rightarrow> 'f option) \<Rightarrow> 'm option \<Rightarrow> ('f \<times> 'm) option" where
  "entry_point suite field impl =
     (case (Option.bind suite field, impl) of (Some f, Some m) \<Rightarrow> Some (f, m) | _ \<Rightarrow> None)"

text \<open>A string read through a \<open>const char*\<close> ends before its first null character.\<close>

definition c_str :: "string \<Rightarrow> string" where
  "c_str s = takeWhile (\<lambda>c. c \<noteq> CHR 0x00) s"

text \<open>The contents of an array that was passed; \<open>std::vector::resize\<close> fills with zeros.\<close>

definition contents :: "'a list option \<Rightarrow> 'a list" where
  "contents xs = (case xs of None \<Rightarrow> [] | Some v \<Rightarrow> v)"

definition resize :: "nat \<Rightarrow> 'a \<Rightarrow> 'a list \<Rightarrow> 'a list" where
  "resize n z xs = take n xs @ replicate (n - length xs) z"

section \<open>The metadata suite\<close>

text \<open>A function that reports a count and fills an array of the caller.\<close>

type_synonym ('m, 'a) list_function =
  "'m \<Rightarrow> nat \<Rightarrow> nat \<Rightarrow> 'a list option \<Rightarrow> fault + int \<times> nat \<times> 'a list option"

record 'm raw_calibration = calibration_view +
  cv_get_linearization_table :: "('m, u16) list_function option"
  cv_get_noise_profile :: "('m \<Rightarrow> nat \<Rightarrow> nat \<Rightarrow> f32 list option \<Rightarrow> f32 list option \<Rightarrow>
    fault + int \<times> nat \<times> f32 list option \<times> f32 list option) option"

record 'm raw_tensor_quant = tensor_quant_view +
  tv_get_scales :: "('m, f32) list_function option"
  tv_get_zero_points :: "('m, u32) list_function option"

record 'm metadata_suite =
  ms_get_calibration :: "('m \<Rightarrow> 'm raw_calibration \<Rightarrow> fault + int \<times> 'm raw_calibration) option"
  ms_get_capture :: "('m \<Rightarrow> capture_view \<Rightarrow> fault + int \<times> capture_view) option"
  ms_get_tensor_quant :: "('m \<Rightarrow> 'm raw_tensor_quant \<Rightarrow> fault + int \<times> 'm raw_tensor_quant) option"
  ms_get_cs_role :: "('m \<Rightarrow> string option \<Rightarrow> fault + int \<times> string option) option"
  ms_get_active_area :: "('m \<Rightarrow> rect2u \<Rightarrow> fault + int \<times> rect2u) option"
  ms_has_applied_step :: "('m \<Rightarrow> string \<Rightarrow> int \<Rightarrow> fault + int \<times> int) option"
  ms_list_applied_steps :: "('m, string option) list_function option"
  ms_get_blob :: "('m \<Rightarrow> string \<Rightarrow> byte list option \<Rightarrow> fault + int \<times> byte list option) option"
  ms_list_blob_keys :: "('m, string) list_function option"

definition empty_raw_calibration :: "'m raw_calibration" where
  "empty_raw_calibration = calibration_view.extend empty_calibration_view
     (raw_calibration.fields None None)"

definition empty_capture_view :: capture_view where
  "empty_capture_view = \<lparr>pv_sensor_timestamp_ns = 0, pv_exposure_time_ns = 0, pv_iso = 0,
     pv_lens_focal_length_mm = 0, pv_lens_aperture = 0, pv_lens_focus_distance_d = 0,
     pv_as_shot_neutral = replicate 3 0, pv_orientation = 0, pv_burst_index = 0, pv_burst_size = 0\<rparr>"

section \<open>Metadata views\<close>

record calibration_data =
  cd_has_cfa :: bool
  cd_cfa_repeat :: "u8 list"
  cd_cfa_pattern :: "u8 list"
  cd_black_level :: "f32 list"
  cd_white_level :: u32
  cd_linearization_table :: "u16 list"
  cd_color_matrix1 :: "f32 list option"
  cd_color_matrix2 :: "f32 list option"
  cd_forward_matrix1 :: "f32 list option"
  cd_forward_matrix2 :: "f32 list option"
  cd_calibration_illuminant1 :: u16
  cd_calibration_illuminant2 :: u16
  cd_noise_profile :: "(f32 \<times> f32) list"

record 'm metadata_object =
  mo_impl :: "'m option"
  mo_suite :: "'m metadata_suite option"

definition optional_matrix :: "int \<Rightarrow> f32 list \<Rightarrow> f32 list option" where
  "optional_matrix has values = (if has \<noteq> 0 then Some values else None)"

definition copy_calibration :: "('m, 'x) raw_calibration_scheme \<Rightarrow> calibration_data" where
  "copy_calibration raw = \<lparr>cd_has_cfa = cv_has_cfa raw \<noteq> 0, cd_cfa_repeat = cv_cfa_repeat raw,
     cd_cfa_pattern = cv_cfa_pattern raw, cd_black_level = cv_black_level raw,
     cd_white_level = cv_white_level raw, cd_linearization_table = [],
     cd_color_matrix1 = optional_matrix (cv_has_color_matrix1 raw) (cv_color_matrix1 raw),
     cd_color_matrix2 = optional_matrix (cv_has_color_matrix2 raw) (cv_color_matrix2 raw),
     cd_forward_matrix1 = optional_matrix (cv_has_forward_matrix1 raw) (cv_forward_matrix1 raw),
     cd_forward_matrix2 = optional_matrix (cv_has_forward_matrix2 raw) (cv_forward_matrix2 raw),
     cd_calibration_illuminant1 = cv_calibration_illuminant1 raw,
     cd_calibration_illuminant2 = cv_calibration_illuminant2 raw, cd_noise_profile = []\<rparr>"

text \<open>The loop that pairs the two arrays, which have the length of the first count.\<close>

definition pair_up :: "nat \<Rightarrow> 'a list \<Rightarrow> 'b list \<Rightarrow> fault + ('a \<times> 'b) list" where
  "pair_up n a b =
     (if n \<le> length a \<and> n \<le> length b then Inr (zip (take n a) (take n b)) else Inl OutOfBounds)"

definition fill_noise_profile ::
  "'m \<Rightarrow> 'm raw_calibration \<Rightarrow> calibration_data \<Rightarrow> fault + calibration_data sdk_result" where
  "fill_noise_profile impl raw out =
     (case cv_get_noise_profile raw of
        None \<Rightarrow> result out
      | Some get_noise_profile \<Rightarrow>
          bind_res (get_noise_profile impl 0 0 None None) (\<lambda>(count_status, total, _, _).
          checked count_status ''get_noise_profile count failed'' (
          if total > 0
          then
            bind_res (get_noise_profile impl total total (Some (replicate total 0)) (Some (replicate total 0)))
              (\<lambda>(read_status, total, a, b).
            checked read_status ''get_noise_profile read failed'' (
            bind_res (pair_up total (contents a) (contents b)) (\<lambda>pairs.
            result (out\<lparr>cd_noise_profile := pairs\<rparr>))))
          else result out)))"

definition fill_linearization_table ::
  "'m \<Rightarrow> 'm raw_calibration \<Rightarrow> calibration_data \<Rightarrow> fault + calibration_data sdk_result" where
  "fill_linearization_table impl raw out =
     (case cv_get_linearization_table raw of
        None \<Rightarrow> result out
      | Some get_linearization_table \<Rightarrow>
          if cv_has_linearization_table raw = 0 then result out
          else
            bind_res (get_linearization_table impl 0 0 None) (\<lambda>(count_status, total, _).
            checked count_status ''get_linearization_table count failed'' (
            if total > 0
            then
              bind_res (get_linearization_table impl total total (Some (replicate total 0)))
                (\<lambda>(read_status, total, values).
              checked read_status ''get_linearization_table read failed'' (
              result (out\<lparr>cd_linearization_table := resize total 0 (contents values)\<rparr>)))
            else result out)))"

definition mo_calibration :: "'m metadata_object \<Rightarrow> fault + calibration_data sdk_result" where
  "mo_calibration self =
     (case entry_point (mo_suite self) ms_get_calibration (mo_impl self) of
        None \<Rightarrow> unexpected (status_int NeedMetadata) ''metadata suite unavailable''
      | Some (get_calibration, impl) \<Rightarrow>
          bind_res (get_calibration impl empty_raw_calibration) (\<lambda>(status, raw).
          checked status ''get_calibration failed'' (
          bind_res (fill_noise_profile impl raw (copy_calibration raw)) (\<lambda>noise_profile.
          case noise_profile of
            Inl e \<Rightarrow> Inr (Inl e)
          | Inr out \<Rightarrow> fill_linearization_table impl raw out))))"

definition mo_capture :: "'m metadata_object \<Rightarrow> fault + f32 list sdk_result" where
  "mo_capture self =
     (case entry_point (mo_suite self) ms_get_capture (mo_impl self) of
        None \<Rightarrow> unexpected (status_int NeedMetadata) ''metadata suite unavailable''
      | Some (get_capture, impl) \<Rightarrow>
          bind_res (get_capture impl empty_capture_view) (\<lambda>(status, raw).
          checked status ''get_capture failed'' (result (pv_as_shot_neutral raw))))"

definition mo_cs_role :: "'m metadata_object \<Rightarrow> fault + string" where
  "mo_cs_role self =
     (case entry_point (mo_suite self) ms_get_cs_role (mo_impl self) of
        None \<Rightarrow> Inr []
      | Some (get_cs_role, impl) \<Rightarrow>
          bind_res (get_cs_role impl None) (\<lambda>(status, out).
          Inr (case out of None \<Rightarrow> [] | Some s \<Rightarrow> if status \<noteq> status_int Ok then [] else c_str s)))"

definition mo_active_area :: "'m metadata_object \<Rightarrow> fault + rect2u option" where
  "mo_active_area self =
     (case entry_point (mo_suite self) ms_get_active_area (mo_impl self) of
        None \<Rightarrow> Inr None
      | Some (get_active_area, impl) \<Rightarrow>
          bind_res (get_active_area impl \<lparr>rect_x = 0, rect_y = 0, rect_width = 0, rect_height = 0\<rparr>)
            (\<lambda>(status, rect).
          Inr (if status \<noteq> status_int Ok then None
               else if rect_width rect = 0 \<or> rect_height rect = 0 then None
               else Some rect)))"

definition mo_blob :: "string \<Rightarrow> 'm metadata_object \<Rightarrow> fault + byte list sdk_result" where
  "mo_blob key self =
     (case entry_point (mo_suite self) ms_get_blob (mo_impl self) of
        None \<Rightarrow> unexpected (status_int NeedMetadata) ''metadata suite unavailable''
      | Some (get_blob, impl) \<Rightarrow>
          bind_res (get_blob impl (c_str key) None) (\<lambda>(status, out).
          if status \<noteq> status_int Ok \<or> contents out = [] then unexpected status ''metadata blob missing''
          else result (contents out)))"

definition mo_has_step :: "string \<Rightarrow> 'm metadata_object \<Rightarrow> fault + bool" where
  "mo_has_step step self =
     (case entry_point (mo_suite self) ms_has_applied_step (mo_impl self) of
        None \<Rightarrow> Inr False
      | Some (has_applied_step, impl) \<Rightarrow>
          bind_res (has_applied_step impl (c_str step) 0) (\<lambda>(status, out).
          Inr (status = status_int Ok \<and> out \<noteq> 0)))"

definition mo_applied_steps :: "'m metadata_object \<Rightarrow> fault + string list" where
  "mo_applied_steps self =
     (case entry_point (mo_suite self) ms_list_applied_steps (mo_impl self) of
        None \<Rightarrow> Inr []
      | Some (list_applied_steps, impl) \<Rightarrow>
          bind_res (list_applied_steps impl 0 0 None) (\<lambda>(status, total, _).
          if status \<noteq> status_int Ok \<or> total = 0 then Inr []
          else
            bind_res (list_applied_steps impl total total (Some (replicate total None)))
              (\<lambda>(status, _, raw).
            if status \<noteq> status_int Ok then Inr []
            else Inr (map c_str (List.map_filter id (contents raw))))))"

section \<open>The metadata builder\<close>

record 'b builder_suite =
  bs_share_calibration_from :: "('b \<Rightarrow> nat \<Rightarrow> host_stop + int \<times> 'b) option"
  bs_clear_calibration :: "('b \<Rightarrow> host_stop + int \<times> 'b) option"
  bs_clear_cfa :: "('b \<Rightarrow> host_stop + int \<times> 'b) option"
  bs_set_as_shot_neutral :: "('b \<Rightarrow> f32 list \<Rightarrow> host_stop + int \<times> 'b) option"
  bs_set_orientation :: "('b \<Rightarrow> u8 \<Rightarrow> host_stop + int \<times> 'b) option"
  bs_set_cs_role :: "('b \<Rightarrow> string \<Rightarrow> host_stop + int \<times> 'b) option"
  bs_add_applied_step :: "('b \<Rightarrow> string \<Rightarrow> host_stop + int \<times> 'b) option"
  bs_remove_applied_step :: "('b \<Rightarrow> string \<Rightarrow> host_stop + int \<times> 'b) option"
  bs_set_active_area :: "('b \<Rightarrow> rect2u \<Rightarrow> host_stop + int \<times> 'b) option"
  bs_set_tensor_quant :: "('b \<Rightarrow> int \<Rightarrow> int \<Rightarrow> u8 \<Rightarrow> f32 list \<Rightarrow> u32 list \<Rightarrow> host_stop + int \<times> 'b) option"
  bs_set_blob :: "('b \<Rightarrow> string \<Rightarrow> byte list \<Rightarrow> nat \<Rightarrow> host_stop + int \<times> 'b) option"
  bs_merge_from :: "('b \<Rightarrow> nat \<Rightarrow> int \<Rightarrow> host_stop + int \<times> 'b) option"
  bs_set_cfa :: "('b \<Rightarrow> u8 list \<Rightarrow> u8 list \<Rightarrow> host_stop + int \<times> 'b) option"

record 'b builder_object =
  bo_impl :: "'b option"
  bo_suite :: "'b builder_suite option"

text \<open>The shape all six methods share: the guard, the call and the test of the status.\<close>

definition builder_method ::
  "('b builder_suite \<Rightarrow> 'f option) \<Rightarrow> ('f \<Rightarrow> 'b \<Rightarrow> host_stop + int \<times> 'b) \<Rightarrow> string \<Rightarrow> 'b builder_object \<Rightarrow>
     host_stop + unit sdk_result \<times> 'b builder_object" where
  "builder_method field call message self =
     (case entry_point (bo_suite self) field (bo_impl self) of
        None \<Rightarrow>
          Inr (Inl \<lparr>er_code = status_int Unsupported, er_message = ''metadata builder suite unavailable''\<rparr>, self)
      | Some (f, impl) \<Rightarrow>
          bind_res (call f impl) (\<lambda>(status, impl).
          Inr (if status \<noteq> status_int Ok then Inl \<lparr>er_code = status, er_message = message\<rparr> else Inr (),
            self\<lparr>bo_impl := Some impl\<rparr>)))"

definition bo_set_cs_role where
  "bo_set_cs_role role = builder_method bs_set_cs_role (\<lambda>f b. f b (c_str role)) ''set_cs_role failed''"

definition bo_add_applied_step where
  "bo_add_applied_step step =
     builder_method bs_add_applied_step (\<lambda>f b. f b (c_str step)) ''add_applied_step failed''"

definition bo_set_blob where
  "bo_set_blob key bytes =
     builder_method bs_set_blob (\<lambda>f b. f b (c_str key) bytes (length bytes)) ''set_blob failed''"

definition bo_set_as_shot_neutral where
  "bo_set_as_shot_neutral neutral =
     builder_method bs_set_as_shot_neutral (\<lambda>f b. f b neutral) ''set_as_shot_neutral failed''"

definition bo_clear_cfa where
  "bo_clear_cfa = builder_method bs_clear_cfa (\<lambda>f b. f b) ''clear_cfa failed''"

definition bo_set_cfa where
  "bo_set_cfa repeat pattern = builder_method bs_set_cfa (\<lambda>f b. f b repeat pattern) ''set_cfa failed''"

section \<open>Buffers\<close>

text \<open>
  \<open>lock_cpu\<close> gives a pointer to the data, here whether it is not null; the functions that change the
  buffer return it.
\<close>

record ('b, 'm) buffer_suite =
  us_get_dims :: "('b \<Rightarrow> u8 \<Rightarrow> u32 list \<Rightarrow> fault + int \<times> u8 \<times> u32 list) option"
  us_get_format :: "('b \<Rightarrow> int \<Rightarrow> fault + int \<times> int) option"
  us_get_kind :: "('b \<Rightarrow> int \<Rightarrow> fault + int \<times> int) option"
  us_get_stride :: "('b \<Rightarrow> u64 list \<Rightarrow> fault + int \<times> u64 list) option"
  us_get_color_role :: "('b \<Rightarrow> string option \<Rightarrow> fault + int \<times> string option) option"
  us_lock_cpu :: "('b \<Rightarrow> int \<Rightarrow> buffer_error + int \<times> bool \<times> 'b) option"
  us_unlock_cpu :: "('b \<Rightarrow> buffer_error + int \<times> 'b) option"
  us_flush_cpu_writes :: "('b \<Rightarrow> buffer_error + int \<times> 'b) option"
  us_get_metadata :: "('b option \<Rightarrow> 'm option \<Rightarrow> fault + int \<times> 'b option \<times> 'm option) option"

record ('b, 'm) buffer_object =
  bf_impl :: "'b option"
  bf_suite :: "('b, 'm) buffer_suite option"
  bf_metadata_suite :: "'m metadata_suite option"

definition bf_dims :: "('b, 'm) buffer_object \<Rightarrow> fault + u32 list sdk_result" where
  "bf_dims self =
     (case entry_point (bf_suite self) us_get_dims (bf_impl self) of
        None \<Rightarrow> unexpected (status_int BadIndex) ''buffer suite unavailable''
      | Some (get_dims, impl) \<Rightarrow>
          bind_res (get_dims impl 0 (replicate 8 0)) (\<lambda>(status, nd, raw).
          checked status ''get_dims failed'' (
          if unat nd \<le> length raw then result (take (unat nd) raw) else Inl OutOfBounds)))"

definition bf_format :: "('b, 'm) buffer_object \<Rightarrow> fault + int sdk_result" where
  "bf_format self =
     (case entry_point (bf_suite self) us_get_format (bf_impl self) of
        None \<Rightarrow> unexpected (status_int BadIndex) ''buffer suite unavailable''
      | Some (get_format, impl) \<Rightarrow>
          bind_res (get_format impl 0) (\<lambda>(status, format).
          checked status ''get_format failed'' (result format)))"

fun access_value :: "cpu_access \<Rightarrow> int" where
  "access_value AccessRead = 0"
| "access_value AccessWrite = 1"
| "access_value AccessReadWrite = 2"

text \<open>The methods that change the buffer, with the guard and the status test they share.\<close>

definition buffer_method ::
  "(('b, 'm) buffer_suite \<Rightarrow> 'f option) \<Rightarrow> ('f \<Rightarrow> 'b \<Rightarrow> buffer_error + int \<times> bool \<times> 'b) \<Rightarrow> string \<Rightarrow>
     ('b, 'm) buffer_object \<Rightarrow> buffer_error + unit sdk_result \<times> ('b, 'm) buffer_object" where
  "buffer_method field call message self =
     (case entry_point (bf_suite self) field (bf_impl self) of
        None \<Rightarrow> Inr (Inl \<lparr>er_code = status_int BadIndex, er_message = ''buffer suite unavailable''\<rparr>, self)
      | Some (f, impl) \<Rightarrow>
          bind_res (call f impl) (\<lambda>(status, ptr, impl).
          Inr (if status \<noteq> status_int Ok \<or> \<not> ptr then Inl \<lparr>er_code = status, er_message = message\<rparr> else Inr (),
            self\<lparr>bf_impl := Some impl\<rparr>)))"

definition bf_lock_cpu where
  "bf_lock_cpu access = buffer_method us_lock_cpu (\<lambda>f b. f b (access_value access)) ''lock_cpu failed''"

definition no_pointer :: "int \<times> 'b \<Rightarrow> buffer_error + int \<times> bool \<times> 'b" where
  "no_pointer r = Inr (fst r, True, snd r)"

definition bf_unlock_cpu where
  "bf_unlock_cpu = buffer_method us_unlock_cpu (\<lambda>f b. bind_res (f b) no_pointer) ''unlock_cpu failed''"

definition bf_flush_cpu_writes where
  "bf_flush_cpu_writes =
     buffer_method us_flush_cpu_writes (\<lambda>f b. bind_res (f b) no_pointer) ''flush_cpu_writes failed''"

text \<open>
  \<open>metadata\<close> passes the buffer pointer on without testing it. The handle may be changed by the call, so
  it is returned.
\<close>

definition bf_metadata ::
  "('b, 'm) buffer_object \<Rightarrow> fault + 'm metadata_object option \<times> ('b, 'm) buffer_object" where
  "bf_metadata self =
     (case (Option.bind (bf_suite self) us_get_metadata, bf_metadata_suite self) of
        (Some get_metadata, Some suite) \<Rightarrow>
          bind_res (get_metadata (bf_impl self) None) (\<lambda>(status, impl, metadata).
          Inr (if status \<noteq> status_int Ok then None
               else map_option (\<lambda>m. \<lparr>mo_impl = Some m, mo_suite = Some suite\<rparr>) metadata,
            self\<lparr>bf_impl := impl\<rparr>))
      | _ \<Rightarrow> Inr (None, self))"

definition bf_cs_role :: "('b, 'm) buffer_object \<Rightarrow> fault + string \<times> ('b, 'm) buffer_object" where
  "bf_cs_role self =
     bind_res (bf_metadata self) (\<lambda>(view, self).
     case view of
       None \<Rightarrow> Inr ([], self)
     | Some v \<Rightarrow> bind_res (mo_cs_role v) (\<lambda>role. Inr (role, self)))"

section \<open>The compute context and the parameters\<close>

text \<open>\<open>'c\<close> is the compute object and \<open>'s\<close> the store of all buffers; a buffer is passed by its handle.\<close>

record ('c, 'b, 's) compute_suite =
  xs_submit_halide ::
    "('c option \<Rightarrow> string \<Rightarrow> 'b option list \<Rightarrow> 'b option list \<Rightarrow> 's \<Rightarrow> compute_error + int \<times> 's) option"
  xs_submit_halide_with_params ::
    "('c option \<Rightarrow> string \<Rightarrow> 'b option list \<Rightarrow> 'b option list \<Rightarrow> byte list \<Rightarrow> 's \<Rightarrow> compute_error + int \<times> 's) option"

record ('c, 'b, 's) compute_object =
  co_impl :: "'c option"
  co_suite :: "('c, 'b, 's) compute_suite option"

definition submit_status :: "string \<Rightarrow> int \<times> 's \<Rightarrow> compute_error + unit sdk_result \<times> 's" where
  "submit_status message r =
     Inr (if fst r \<noteq> status_int Ok then Inl \<lparr>er_code = fst r, er_message = message\<rparr> else Inr (), snd r)"

definition co_submit_halide ::
  "('c, 'b, 's) compute_object \<Rightarrow> string \<Rightarrow> ('b, 'm) buffer_object list \<Rightarrow> ('b, 'm) buffer_object list \<Rightarrow> 's \<Rightarrow>
     compute_error + unit sdk_result \<times> 's" where
  "co_submit_halide self aot_id inputs outputs st =
     (case Option.bind (co_suite self) xs_submit_halide of
        None \<Rightarrow> Inr (Inl \<lparr>er_code = status_int Unsupported, er_message = ''compute suite unavailable''\<rparr>, st)
      | Some submit \<Rightarrow>
          bind_res (submit (co_impl self) (c_str aot_id) (map bf_impl inputs) (map bf_impl outputs) st)
            (submit_status ''submit_halide failed''))"

definition co_submit_halide_with_params ::
  "('c, 'b, 's) compute_object \<Rightarrow> string \<Rightarrow> ('b, 'm) buffer_object list \<Rightarrow> ('b, 'm) buffer_object list \<Rightarrow>
     byte list \<Rightarrow> 's \<Rightarrow> compute_error + unit sdk_result \<times> 's" where
  "co_submit_halide_with_params self aot_id inputs outputs param_blob st =
     (case Option.bind (co_suite self) xs_submit_halide_with_params of
        None \<Rightarrow>
          Inr (Inl \<lparr>er_code = status_int Unsupported, er_message = ''compute suite params unavailable''\<rparr>, st)
      | Some submit \<Rightarrow>
          bind_res (submit (co_impl self) (c_str aot_id) (map bf_impl inputs) (map bf_impl outputs) param_blob st)
            (submit_status ''submit_halide_with_params failed''))"

record 'p param_suite =
  ps_get_enum :: "('p \<Rightarrow> string \<Rightarrow> string option \<Rightarrow> stop + int \<times> string option) option"

record 'p param_view =
  pa_impl :: "'p option"
  pa_suite :: "'p param_suite option"

definition pa_string :: "string \<Rightarrow> 'p param_view \<Rightarrow> stop + string sdk_result" where
  "pa_string key self =
     (case entry_point (pa_suite self) ps_get_enum (pa_impl self) of
        None \<Rightarrow> unexpected (status_int NeedParam) ''param suite unavailable''
      | Some (get_enum, impl) \<Rightarrow>
          bind_res (get_enum impl (c_str key) None) (\<lambda>(status, out).
          case out of
            None \<Rightarrow> unexpected status ''string param missing''
          | Some s \<Rightarrow> if status \<noteq> status_int Ok then unexpected status ''string param missing'' else result (c_str s)))"

section \<open>What a provider of the metadata suite promises\<close>

text \<open>
  A list function reports the number of elements when it is asked for none, and fills an array of
  that length; the noise profile is a list function over two arrays.
\<close>

definition lists :: "('m, 'a) list_function \<Rightarrow> 'm \<Rightarrow> 'a list \<Rightarrow> bool" where
  "lists f m xs \<longleftrightarrow> (\<forall>n. f m 0 n None = Inr (status_int Ok, length xs, None)) \<and>
     (\<forall>n out. xs \<noteq> [] \<longrightarrow> length out = length xs \<longrightarrow>
        f m (length xs) n (Some out) = Inr (status_int Ok, length xs, Some xs))"

definition lists_pairs where
  "lists_pairs f m xs \<longleftrightarrow> (\<forall>n. f m 0 n None None = Inr (status_int Ok, length xs, None, None)) \<and>
     (\<forall>n a b. xs \<noteq> [] \<longrightarrow> length a = length xs \<longrightarrow> length b = length xs \<longrightarrow>
        f m (length xs) n (Some a) (Some b) = Inr (status_int Ok, length xs, Some (map fst xs), Some (map snd xs)))"

text \<open>
  The values a plugin is meant to see: those of the calibration block, and zeros and absent fields
  when the metadata has none.
\<close>

definition calibration_of :: "calibration_block option \<Rightarrow> calibration_data" where
  "calibration_of cal =
     (let c = (case cal of None \<Rightarrow> default_calibration | Some c \<Rightarrow> c);
          d = (case cfa c of None \<Rightarrow> \<lparr>cfa_repeat = replicate 2 0, cfa_pattern = replicate 16 0\<rparr> | Some d \<Rightarrow> d)
      in \<lparr>cd_has_cfa = cfa c \<noteq> None, cd_cfa_repeat = cfa_repeat d, cd_cfa_pattern = cfa_pattern d,
          cd_black_level = black_level c, cd_white_level = white_level c,
          cd_linearization_table = (case linearization_table c of None \<Rightarrow> [] | Some t \<Rightarrow> t),
          cd_color_matrix1 = color_matrix1 c, cd_color_matrix2 = color_matrix2 c,
          cd_forward_matrix1 = forward_matrix1 c, cd_forward_matrix2 = forward_matrix2 c,
          cd_calibration_illuminant1 = calibration_illuminant1 c,
          cd_calibration_illuminant2 = calibration_illuminant2 c, cd_noise_profile = noise_profile c\<rparr>)"

definition view_shows :: "('m, 'x) raw_calibration_scheme \<Rightarrow> calibration_data \<Rightarrow> bool" where
  "view_shows raw d \<longleftrightarrow>
     copy_calibration raw = d\<lparr>cd_linearization_table := [], cd_noise_profile := []\<rparr> \<and>
     (cd_linearization_table d \<noteq> [] \<longrightarrow> cv_has_linearization_table raw \<noteq> 0)"

definition metadata_view :: "'m metadata_suite \<Rightarrow> 'm \<Rightarrow> 'm metadata_object" where
  "metadata_view suite m = \<lparr>mo_impl = Some m, mo_suite = Some suite\<rparr>"

lemma entry_point_view:
  "entry_point (mo_suite (metadata_view suite m)) field (mo_impl (metadata_view suite m)) =
     map_option (\<lambda>f. (f, m)) (field suite)"
  by (simp add: metadata_view_def entry_point_def split: option.split)

lemma map_filter_Some: "List.map_filter id (map Some xs) = xs"
  by (induction xs) (simp_all add: List.map_filter_simps)

lemma pair_up_split: "pair_up (length xs) (map fst xs) (map snd xs) = Inr xs"
  by (simp add: pair_up_def zip_map_fst_snd)

lemma fill_noise_profile_lists:
  assumes "cv_get_noise_profile raw = Some noise" and "lists_pairs noise m xs"
    and "cd_noise_profile out = []"
  shows "fill_noise_profile m raw out = result (out\<lparr>cd_noise_profile := xs\<rparr>)"
  using assms
  by (cases out; cases "xs = []") (simp_all add: fill_noise_profile_def lists_pairs_def checked_def contents_def pair_up_split)

lemma fill_linearization_table_lists:
  assumes "cv_get_linearization_table raw = Some tab" and "lists tab m xs"
    and "cd_linearization_table out = []" and "xs \<noteq> [] \<longrightarrow> cv_has_linearization_table raw \<noteq> 0"
  shows "fill_linearization_table m raw out = result (out\<lparr>cd_linearization_table := xs\<rparr>)"
  using assms
  by (cases out; cases "xs = []")
     (simp_all add: fill_linearization_table_def lists_def checked_def contents_def resize_def)

locale metadata_provider =
  fixes suite :: "'m metadata_suite" and stored :: "'m \<Rightarrow> buffer_metadata"
    and present :: "'m \<Rightarrow> bool"
  assumes get_calibration: "present m \<Longrightarrow>
      \<exists>get tab noise raw. ms_get_calibration suite = Some get \<and>
        get m empty_raw_calibration = Inr (status_int Ok, raw) \<and>
        view_shows raw (calibration_of (calibration (stored m))) \<and>
        cv_get_linearization_table raw = Some tab \<and>
        lists tab m (cd_linearization_table (calibration_of (calibration (stored m)))) \<and>
        cv_get_noise_profile raw = Some noise \<and>
        lists_pairs noise m (cd_noise_profile (calibration_of (calibration (stored m))))"
    and get_capture: "present m \<Longrightarrow>
      \<exists>get raw. ms_get_capture suite = Some get \<and> get m empty_capture_view = Inr (status_int Ok, raw) \<and>
        pv_as_shot_neutral raw = as_shot_neutral (capture (stored m))"
    and get_cs_role: "present m \<Longrightarrow>
      \<exists>get. ms_get_cs_role suite = Some get \<and> get m None = Inr (status_int Ok, Some (cs_role (stored m)))"
    and get_active_area: "present m \<Longrightarrow>
      \<exists>get. ms_get_active_area suite = Some get \<and> (\<forall>r. get m r = Inr (status_int Ok,
        case active_area (stored m) of
          None \<Rightarrow> \<lparr>rect_x = 0, rect_y = 0, rect_width = 0, rect_height = 0\<rparr> | Some a \<Rightarrow> a))"
    and has_applied_step: "present m \<Longrightarrow>
      \<exists>get. ms_has_applied_step suite = Some get \<and> (\<forall>s. get m s 0 =
        Inr (status_int Ok, if s \<in> set (applied_steps (stored m)) then 1 else 0))"
    and list_applied_steps: "present m \<Longrightarrow>
      \<exists>get. ms_list_applied_steps suite = Some get \<and> lists get m (map Some (applied_steps (stored m)))"
    and get_blob: "present m \<Longrightarrow>
      \<exists>get. ms_get_blob suite = Some get \<and> (\<forall>k. get m k None =
        (case find_blob (stored m) k of
           None \<Rightarrow> Inr (status_int Failed, None) | Some bytes \<Rightarrow> Inr (status_int Ok, Some bytes)))"
begin

lemma calibration:
  assumes "present m"
  shows "mo_calibration (metadata_view suite m) = result (calibration_of (calibration (stored m)))"
proof -
  from get_calibration [OF assms] obtain get tab noise raw where
    suite: "ms_get_calibration suite = Some get" "get m empty_raw_calibration = Inr (status_int Ok, raw)"
    and seen: "view_shows raw (calibration_of (calibration (stored m)))"
    and tab: "cv_get_linearization_table raw = Some tab"
      "lists tab m (cd_linearization_table (calibration_of (calibration (stored m))))"
    and noise: "cv_get_noise_profile raw = Some noise"
      "lists_pairs noise m (cd_noise_profile (calibration_of (calibration (stored m))))" by blast
  let ?d = "calibration_of (calibration (stored m))"
  have "fill_noise_profile m raw (copy_calibration raw) = result (?d\<lparr>cd_linearization_table := []\<rparr>)"
    using seen fill_noise_profile_lists [OF noise] by (simp add: view_shows_def)
  moreover have "fill_linearization_table m raw (?d\<lparr>cd_linearization_table := []\<rparr>) = result ?d"
    using seen fill_linearization_table_lists [OF tab, of "?d\<lparr>cd_linearization_table := []\<rparr>"]
    by (simp add: view_shows_def)
  ultimately show ?thesis
    using suite by (simp add: mo_calibration_def entry_point_view checked_def result_def)
qed

lemma capture: "present m \<Longrightarrow> mo_capture (metadata_view suite m) = result (as_shot_neutral (capture (stored m)))"
  using get_capture by (fastforce simp: mo_capture_def entry_point_view checked_def)

lemma cs_role: "present m \<Longrightarrow> mo_cs_role (metadata_view suite m) = Inr (c_str (cs_role (stored m)))"
  using get_cs_role by (fastforce simp: mo_cs_role_def entry_point_view)

lemma active_area:
  assumes "present m"
  shows "mo_active_area (metadata_view suite m) = Inr (case active_area (stored m) of
    None \<Rightarrow> None | Some a \<Rightarrow> if rect_width a = 0 \<or> rect_height a = 0 then None else Some a)"
  using get_active_area [OF assms]
  by (cases "active_area (stored m)") (auto simp: mo_active_area_def entry_point_view)

lemma has_step:
  "present m \<Longrightarrow> mo_has_step s (metadata_view suite m) = Inr (c_str s \<in> set (applied_steps (stored m)))"
  using has_applied_step by (fastforce simp: mo_has_step_def entry_point_view)

lemma steps:
  assumes "present m"
  shows "mo_applied_steps (metadata_view suite m) = Inr (map c_str (applied_steps (stored m)))"
  using list_applied_steps [OF assms]
  by (cases "applied_steps (stored m)")
     (auto simp: mo_applied_steps_def entry_point_view lists_def contents_def map_filter_Some)

lemma blob_value:
  assumes "present m"
  shows "mo_blob k (metadata_view suite m) = (case find_blob (stored m) (c_str k) of
      None \<Rightarrow> unexpected (status_int Failed) ''metadata blob missing''
    | Some bytes \<Rightarrow> if bytes = [] then unexpected (status_int Ok) ''metadata blob missing'' else result bytes)"
  using get_blob [OF assms]
  by (cases "find_blob (stored m) (c_str k)") (auto simp: mo_blob_def entry_point_view contents_def)

end

section \<open>The host provides it\<close>

text \<open>
  The suite objects of the host context, whose entries are the functions of \<open>Host_Context\<close>, called
  with pointers that are not null.
\<close>

definition host_list ::
  "(metadata_handle option \<Rightarrow> nat \<Rightarrow> nat option \<Rightarrow> 'a list option \<Rightarrow> fault + status_code \<times> nat option \<times> 'a list option)
     \<Rightarrow> (metadata_handle, 'a) list_function" where
  "host_list f m max_n n out =
     bind_res (f (Some m) max_n (Some n) out) (\<lambda>(status, n', out).
     Inr (status_int status, case n' of None \<Rightarrow> n | Some k \<Rightarrow> k, out))"

definition host_get_noise_profile where
  "host_get_noise_profile m max_n n a b =
     bind_res (hc_get_noise_profile (Some m) max_n (Some n) a b) (\<lambda>(status, n', a, b).
     Inr (status_int status, case n' of None \<Rightarrow> n | Some k \<Rightarrow> k, a, b))"

text \<open>The out parameters of the other accessors; the view of the calibration also gets its functions.\<close>

definition host_out :: "status_code \<times> 'a option \<Rightarrow> 'a \<Rightarrow> 'e + int \<times> 'a" where
  "host_out r old = Inr (status_int (fst r), case snd r of None \<Rightarrow> old | Some v \<Rightarrow> v)"

definition host_get_calibration ::
  "metadata_handle \<Rightarrow> metadata_handle raw_calibration \<Rightarrow> fault + int \<times> metadata_handle raw_calibration" where
  "host_get_calibration m raw =
     (case hc_get_calibration (Some m) (Some (calibration_view.truncate raw)) of
        (Ok, Some v) \<Rightarrow> Inr (status_int Ok, calibration_view.extend v
          (raw_calibration.fields (Some (host_list hc_get_linearization_table)) (Some host_get_noise_profile)))
      | (status, _) \<Rightarrow> Inr (status_int status, raw))"

definition host_get_tensor_quant ::
  "metadata_handle \<Rightarrow> metadata_handle raw_tensor_quant \<Rightarrow> fault + int \<times> metadata_handle raw_tensor_quant" where
  "host_get_tensor_quant m raw =
     (case hc_get_tensor_quant (Some m) (Some (tensor_quant_view.truncate raw)) of
        (Ok, Some v) \<Rightarrow> Inr (status_int Ok, tensor_quant_view.extend v
          (raw_tensor_quant.fields (Some (host_list hc_get_scales)) (Some (host_list hc_get_zero_points))))
      | (status, _) \<Rightarrow> Inr (status_int status, raw))"

definition host_get_active_area :: "metadata_handle \<Rightarrow> rect2u \<Rightarrow> fault + int \<times> rect2u" where
  "host_get_active_area m r =
     (case hc_get_active_area (Some m) (Some (rect_x r)) (Some (rect_y r)) (Some (rect_width r))
         (Some (rect_height r)) of
        (status, Some x, Some y, Some w, Some h) \<Rightarrow>
          Inr (status_int status, \<lparr>rect_x = x, rect_y = y, rect_width = w, rect_height = h\<rparr>)
      | (status, _) \<Rightarrow> Inr (status_int status, r))"

definition host_metadata_suite :: "metadata_handle metadata_suite" where
  "host_metadata_suite = \<lparr>ms_get_calibration = Some host_get_calibration,
     ms_get_capture = Some (\<lambda>m raw. host_out (hc_get_capture (Some m) (Some raw)) raw),
     ms_get_tensor_quant = Some host_get_tensor_quant,
     ms_get_cs_role = Some (\<lambda>m out. host_out (hc_get_cs_role (Some m) (Some out)) out),
     ms_get_active_area = Some host_get_active_area,
     ms_has_applied_step = Some (\<lambda>m step out. host_out (hc_has_applied_step (Some m) (Some step) (Some out)) out),
     ms_list_applied_steps = Some (host_list hc_list_applied_steps),
     ms_get_blob = Some (\<lambda>m key out. host_out (hc_get_blob (Some m) (Some key) (Some out)) out),
     ms_list_blob_keys = Some (host_list hc_list_blob_keys)\<rparr>"

lemma fill_calibration_shows:
  "view_shows (calibration_view.extend (fill_calibration_view c) x) (calibration_of (Some c))"
  by (cases "cfa c"; cases "linearization_table c"; cases "color_matrix1 c"; cases "color_matrix2 c";
      cases "forward_matrix1 c"; cases "forward_matrix2 c")
     (simp_all add: view_shows_def calibration_of_def copy_calibration_def fill_calibration_view_def
       view_matrix_def optional_matrix_def empty_calibration_view_def calibration_view.defs Let_def)

lemma empty_calibration_shows:
  "view_shows (calibration_view.extend empty_calibration_view x) (calibration_of None)"
  by (simp add: view_shows_def calibration_of_def copy_calibration_def optional_matrix_def
      empty_calibration_view_def default_calibration_def calibration_view.defs)

lemma copy_to_all: "xs \<noteq> [] \<Longrightarrow> length out = length xs \<Longrightarrow> copy_to (length xs) xs (Some out) = Inr (Some xs)"
  by (simp add: copy_to_def copy_n_def)

interpretation hm: metadata_provider host_metadata_suite "\<lambda>m. the (mh_metadata m)"
  "\<lambda>m. mh_metadata m \<noteq> None"
proof (unfold_locales, goal_cases)
  case (1 m)
  then obtain md where md: "mh_metadata m = Some md" by auto
  let ?tab = "host_list hc_get_linearization_table"
  have get: "\<exists>v. host_get_calibration m empty_raw_calibration = Inr (status_int Ok, calibration_view.extend v
      (raw_calibration.fields (Some ?tab) (Some host_get_noise_profile))) \<and>
      view_shows (calibration_view.extend v
        (raw_calibration.fields (Some ?tab) (Some host_get_noise_profile))) (calibration_of (calibration md))"
    using md by (cases "calibration md") (auto simp: host_get_calibration_def hc_get_calibration_def
        metadata_from_handle_def fill_calibration_shows empty_calibration_shows)
  moreover have "lists ?tab m (cd_linearization_table (calibration_of (calibration md)))"
    using md by (cases "calibration md"; cases "linearization_table (the (calibration md))")
      (simp_all add: lists_def host_list_def hc_get_linearization_table_def metadata_from_handle_def
        calibration_of_def default_calibration_def Let_def list_values_def copy_to_def copy_n_def)
  moreover have "lists_pairs host_get_noise_profile m (cd_noise_profile (calibration_of (calibration md)))"
    using md by (cases "calibration md")
      (simp_all add: lists_pairs_def host_get_noise_profile_def hc_get_noise_profile_def
        metadata_from_handle_def calibration_of_def default_calibration_def Let_def copy_to_def copy_n_def)
  ultimately show ?case using md
    by (fastforce simp: host_metadata_suite_def raw_calibration.defs calibration_view.defs)
next
  case (2 m)
  then show ?case by (auto simp: host_metadata_suite_def host_out_def hc_get_capture_def metadata_from_handle_def Let_def)
next
  case (3 m)
  then show ?case by (auto simp: host_metadata_suite_def host_out_def hc_get_cs_role_def metadata_from_handle_def)
next
  case (4 m)
  then show ?case
    by (auto simp: host_metadata_suite_def host_get_active_area_def hc_get_active_area_def
        metadata_from_handle_def split: option.splits)
next
  case (5 m)
  then show ?case
    by (auto simp: host_metadata_suite_def host_out_def hc_has_applied_step_def metadata_from_handle_def)
next
  case (6 m)
  then obtain md where md: "mh_metadata m = Some md" by auto
  have "lists (host_list hc_list_applied_steps) m (map Some (applied_steps md))"
    using md copy_to_all [of "map Some (applied_steps md)"]
    by (simp add: lists_def host_list_def hc_list_applied_steps_def metadata_from_handle_def list_values_def copy_to_def)
  with md show ?case by (simp add: host_metadata_suite_def)
next
  case (7 m)
  then show ?case
    by (auto simp: host_metadata_suite_def host_out_def hc_get_blob_def metadata_from_handle_def split: option.splits)
qed

section \<open>The builder of the host\<close>

definition host_update ::
  "(metadata_builder_handle option \<Rightarrow> host_result) \<Rightarrow> metadata_builder_handle \<Rightarrow> host_stop + int \<times> metadata_builder_handle" where
  "host_update f b =
     bind_res (f (Some b)) (\<lambda>(status, b'). Inr (status_int status, case b' of None \<Rightarrow> b | Some h \<Rightarrow> h))"

definition host_builder_suite :: "metadata_builder_handle builder_suite" where
  "host_builder_suite = \<lparr>
     bs_share_calibration_from = Some (\<lambda>b i. host_update (\<lambda>h. hc_share_calibration_from h i) b),
     bs_clear_calibration = Some (host_update hc_clear_calibration),
     bs_clear_cfa = Some (host_update hc_clear_cfa),
     bs_set_as_shot_neutral = Some (\<lambda>b v. host_update (\<lambda>h. hc_set_as_shot_neutral h (Some v)) b),
     bs_set_orientation = Some (\<lambda>b v. host_update (\<lambda>h. hc_set_orientation h v) b),
     bs_set_cs_role = Some (\<lambda>b r. host_update (\<lambda>h. hc_set_cs_role h (Some r)) b),
     bs_add_applied_step = Some (\<lambda>b s. host_update (\<lambda>h. hc_add_applied_step h (Some s)) b),
     bs_remove_applied_step = Some (\<lambda>b s. host_update (\<lambda>h. hc_remove_applied_step h (Some s)) b),
     bs_set_active_area = Some (\<lambda>b a. host_update (\<lambda>h.
       hc_set_active_area h (rect_x a) (rect_y a) (rect_width a) (rect_height a)) b),
     bs_set_tensor_quant = Some (\<lambda>b s ha a sc zp. host_update (\<lambda>h.
       hc_set_tensor_quant h s ha a (Some sc) (length sc) (Some zp) (length zp)) b),
     bs_set_blob = Some (\<lambda>b k bytes n. host_update (\<lambda>h. hc_set_blob h (Some k) (Some bytes) n) b),
     bs_merge_from = Some (\<lambda>b i p. host_update (\<lambda>h. hc_merge_from h i p) b),
     bs_set_cfa = Some (\<lambda>b r p. host_update (\<lambda>h. hc_set_cfa h (Some r) (Some p)) b)\<rparr>"

text \<open>The calls a node makes on the builder of an output, one after the other while they succeed.\<close>

datatype sdk_call =
    SdkCsRole string | SdkStep string | SdkBlob string "byte list" | SdkNeutral "f32 list"
  | SdkClearCfa | SdkCfa "u8 list" "u8 list"

fun sdk_method ::
  "sdk_call \<Rightarrow> 'b builder_object \<Rightarrow> host_stop + unit sdk_result \<times> 'b builder_object" where
  "sdk_method (SdkCsRole r) b = bo_set_cs_role r b"
| "sdk_method (SdkStep s) b = bo_add_applied_step s b"
| "sdk_method (SdkBlob k bytes) b = bo_set_blob k bytes b"
| "sdk_method (SdkNeutral n) b = bo_set_as_shot_neutral n b"
| "sdk_method SdkClearCfa b = bo_clear_cfa b"
| "sdk_method (SdkCfa r p) b = bo_set_cfa r p b"

fun run_sdk_calls ::
  "sdk_call list \<Rightarrow> 'b builder_object \<Rightarrow> host_stop + unit sdk_result \<times> 'b builder_object" where
  "run_sdk_calls [] b = Inr (Inr (), b)"
| "run_sdk_calls (c # cs) b =
     bind_res (sdk_method c b) (\<lambda>(r, b).
     case r of Inl e \<Rightarrow> Inr (Inl e, b) | Inr u \<Rightarrow> run_sdk_calls cs b)"

text \<open>The array arguments have the length their C++ type gives; the call of the host each method makes.\<close>

fun sdk_call_ok :: "sdk_call \<Rightarrow> bool" where
  "sdk_call_ok (SdkNeutral n) = (length n = 3)"
| "sdk_call_ok (SdkCfa r p) = (length r = 2 \<and> length p = 16)"
| "sdk_call_ok _ = True"

fun sdk_host_call :: "sdk_call \<Rightarrow> host_call" where
  "sdk_host_call (SdkCsRole r) = HSetCsRole (Some (c_str r))"
| "sdk_host_call (SdkStep s) = HAddAppliedStep (Some (c_str s))"
| "sdk_host_call (SdkBlob k bytes) = HSetBlob (Some (c_str k)) (Some bytes) (length bytes)"
| "sdk_host_call (SdkNeutral n) = HSetAsShotNeutral (Some n)"
| "sdk_host_call SdkClearCfa = HClearCfa"
| "sdk_host_call (SdkCfa r p) = HSetCfa (Some r) (Some p)"

text \<open>The metadata update a node means by a call.\<close>

fun sdk_call_spec :: "sdk_call \<Rightarrow> builder_call" where
  "sdk_call_spec (SdkCsRole r) = SetCsRole (c_str r)"
| "sdk_call_spec (SdkStep s) = AddAppliedStep (c_str s)"
| "sdk_call_spec (SdkBlob k bytes) = SetBlob (c_str k) (if bytes = [] then None else Some bytes)"
| "sdk_call_spec (SdkNeutral n) = SetAsShotNeutral n"
| "sdk_call_spec SdkClearCfa = ClearCfa"
| "sdk_call_spec (SdkCfa r p) = SetCfa \<lparr>cfa_repeat = r, cfa_pattern = p\<rparr>"

definition builder_view :: "metadata_builder_handle \<Rightarrow> metadata_builder_handle builder_object" where
  "builder_view h = \<lparr>bo_impl = Some h, bo_suite = Some host_builder_suite\<rparr>"

lemma status_int_eq_Ok: "status_int s = status_int Ok \<longleftrightarrow> s = Ok"
  by (cases s) (simp_all add: status_int_def)

lemma sdk_method_host:
  "sdk_method c (builder_view h) =
     bind_res (exec_host_call (sdk_host_call c) (Some h)) (\<lambda>(status, h').
     Inr (if status = Ok then Inr () else Inl \<lparr>er_code = status_int status, er_message = (case c of
         SdkCsRole _ \<Rightarrow> ''set_cs_role failed'' | SdkStep _ \<Rightarrow> ''add_applied_step failed''
       | SdkBlob _ _ \<Rightarrow> ''set_blob failed'' | SdkNeutral _ \<Rightarrow> ''set_as_shot_neutral failed''
       | SdkClearCfa \<Rightarrow> ''clear_cfa failed'' | SdkCfa _ _ \<Rightarrow> ''set_cfa failed'')\<rparr>,
       builder_view (case h' of None \<Rightarrow> h | Some h' \<Rightarrow> h')))"
  by (cases c)
     (simp_all add: bo_set_cs_role_def bo_add_applied_step_def bo_set_blob_def bo_set_as_shot_neutral_def
       bo_clear_cfa_def bo_set_cfa_def builder_method_def builder_view_def entry_point_def
       host_builder_suite_def host_update_def status_int_eq_Ok bind_res_def split: sum.split prod.split)

lemma sdk_method_unfrozen:
  assumes "sdk_call_ok c" and "\<not> is_frozen (bh_builder h)"
  shows "sdk_method c (builder_view h) = Inr (Inr (), builder_view (h\<lparr>bh_builder :=
    (bh_builder h)\<lparr>mb_metadata := apply_call (sdk_call_spec c) (mb_metadata (bh_builder h))\<rparr>\<rparr>))"
proof -
  have "host_call_readable (sdk_host_call c)" using assms(1) by (cases c) simp_all
  moreover have "host_call_spec (bh_input_metadata h) (sdk_host_call c) = Inr (sdk_call_spec c)"
    using assms(1) by (cases c) (simp_all add: default_cfa_def)
  ultimately show ?thesis
    unfolding sdk_method_host by (simp add: exec_host_call_unfrozen assms(2))
qed

lemma run_sdk_calls_unfrozen:
  assumes "\<forall>c \<in> set cs. sdk_call_ok c" and "\<not> is_frozen (bh_builder h)"
  shows "run_sdk_calls cs (builder_view h) = Inr (Inr (), builder_view (h\<lparr>bh_builder :=
    (bh_builder h)\<lparr>mb_metadata := fold apply_call (map sdk_call_spec cs) (mb_metadata (bh_builder h))\<rparr>\<rparr>))"
  using assms
proof (induction cs arbitrary: h)
  case (Cons c cs)
  let ?h = "h\<lparr>bh_builder := (bh_builder h)\<lparr>mb_metadata := apply_call (sdk_call_spec c) (mb_metadata (bh_builder h))\<rparr>\<rparr>"
  have "\<not> is_frozen (bh_builder ?h)" using Cons.prems(2) by (simp add: is_frozen_def)
  with Cons.IH [of ?h] Cons.prems show ?case by (simp add: sdk_method_unfrozen)
qed simp

section \<open>Properties\<close>

text \<open>
  C29: a node that reads the metadata of an input through the SDK gets exactly what the host stores: the
  calibration with its noise profile and linearization table of any length, which take two calls each,
  the neutral point, the colour role and the steps (up to a null character), the active area unless it
  is empty, and the blobs. No call reads or writes outside an array. A blob that is present but empty
  is reported as an error whose code is \<open>CPIPE_OK\<close>.
\<close>

theorem sdk_reads_metadata:
  assumes "mh_metadata m = Some md"
  shows "mo_calibration (metadata_view host_metadata_suite m) = result (calibration_of (calibration md)) \<and>
    mo_capture (metadata_view host_metadata_suite m) = result (as_shot_neutral (capture md)) \<and>
    mo_cs_role (metadata_view host_metadata_suite m) = Inr (c_str (cs_role md)) \<and>
    mo_applied_steps (metadata_view host_metadata_suite m) = Inr (map c_str (applied_steps md)) \<and>
    (\<forall>s. mo_has_step s (metadata_view host_metadata_suite m) = Inr (c_str s \<in> set (applied_steps md))) \<and>
    mo_active_area (metadata_view host_metadata_suite m) = Inr (case active_area md of
      None \<Rightarrow> None | Some a \<Rightarrow> if rect_width a = 0 \<or> rect_height a = 0 then None else Some a) \<and>
    (\<forall>k. mo_blob k (metadata_view host_metadata_suite m) = (case find_blob md (c_str k) of
        None \<Rightarrow> unexpected (status_int Failed) ''metadata blob missing''
      | Some bytes \<Rightarrow> if bytes = [] then unexpected (status_int Ok) ''metadata blob missing'' else result bytes))"
  using assms
  by (simp add: hm.calibration hm.capture hm.cs_role hm.steps hm.has_step hm.active_area hm.blob_value)

definition demo_calibration :: calibration_block where
  "demo_calibration = default_calibration\<lparr>white_level := 1023, linearization_table := Some [0, 5, 9],
     noise_profile := [(1, 2), (3, 4)]\<rparr>"

theorem sdk_reads_metadata_witness:
  "mo_calibration (metadata_view host_metadata_suite (make_metadata_handle
       (Some (default_metadata\<lparr>calibration := Some demo_calibration\<rparr>)))) =
     result (calibration_of (Some demo_calibration)) \<and>
   cd_linearization_table (calibration_of (Some demo_calibration)) = [0, 5, 9] \<and>
   cd_noise_profile (calibration_of (Some demo_calibration)) = [(1, 2), (3, 4)]"
proof -
  have "mh_metadata (make_metadata_handle (Some (default_metadata\<lparr>calibration := Some demo_calibration\<rparr>))) =
      Some (default_metadata\<lparr>calibration := Some demo_calibration\<rparr>)" by (simp add: make_metadata_handle_def)
  from sdk_reads_metadata [OF this] show ?thesis
    by (simp add: calibration_of_def Let_def) (simp add: demo_calibration_def)
qed

text \<open>
  What a node sets on the builder of its output through the SDK is what the metadata of the output
  has after the host froze it: every call succeeds, and the frozen metadata is the base with the updates
  the calls mean, in their order. Keys and names end at their first null character, and an empty blob
  removes its key.
\<close>

lemma sdk_builder_refines:
  assumes "\<forall>c \<in> set cs. sdk_call_ok c"
  shows "\<exists>h. run_sdk_calls cs (builder_view (make_metadata_builder_handle base inputs)) =
      Inr (Inr (), builder_view h) \<and>
    freeze_metadata_builder (Some h) = Some (fold apply_call (map sdk_call_spec cs) (base_metadata base))"
proof -
  let ?h = "make_metadata_builder_handle base inputs"
  have b: "\<not> is_frozen (bh_builder ?h)" "mb_metadata (bh_builder ?h) = base_metadata base"
    by (auto simp: make_metadata_builder_handle_def builder_from_base_def new_builder_def is_frozen_def
        base_metadata_def split: option.splits)
  from b have "freeze_metadata_builder (Some (?h\<lparr>bh_builder := (bh_builder ?h)\<lparr>mb_metadata := m\<rparr>\<rparr>)) = Some m"
    for m by (simp add: freeze_metadata_builder_def freeze_def is_frozen_def)
  with run_sdk_calls_unfrozen [OF assms b(1)] b(2) show ?thesis by metis
qed

end
