(* ===== verification/Sdk_Dispatch.thy ===== *)
theory Sdk_Dispatch
  imports Sdk
begin

text \<open>
  The entry point of a plugin (\<open>dispatch\<close> in \<open>include/cpipe/sdk/sdk.hpp\<close>): it turns the actions of the C
  interface into calls of a node class and owns the instances of that class.

  A node class is third-party code, so its constructor, methods and destructor are parameters over a
  world \<open>'s\<close>; a method that throws gives \<open>None\<close>. The instances live in a memory of their own, addressed
  by numbers, so that every instance that is never deleted stays visible. A void pointer is a value of
  \<open>void_context\<close> that says what it points to; a cast to the wrong type and the use of a null or dangling
  pointer are faults. The inference context, a stub that nodes get passed, is left out.
\<close>

section \<open>Suites by name\<close>

datatype ('p, 'c, 'b, 'm, 'k, 's) any_suite =
    AnyBuffer "('b, 'm) buffer_suite" | AnyCompute "('c, 'b, 's) compute_suite" | AnyInference
  | AnyParam "'p param_suite" | AnyMetadata "'m metadata_suite" | AnyBuilder "'k builder_suite"

fun as_buffer where "as_buffer (Some (AnyBuffer x)) = Some x" | "as_buffer _ = None"
fun as_compute where "as_compute (Some (AnyCompute x)) = Some x" | "as_compute _ = None"
fun as_param where "as_param (Some (AnyParam x)) = Some x" | "as_param _ = None"
fun as_metadata where "as_metadata (Some (AnyMetadata x)) = Some x" | "as_metadata _ = None"
fun as_builder where "as_builder (Some (AnyBuilder x)) = Some x" | "as_builder _ = None"

text \<open>The host: its suite lookup and its log, each of which may be a null pointer.\<close>

record ('p, 'c, 'b, 'm, 'k, 's) host_object =
  ho_get_suite :: "(string \<Rightarrow> int \<Rightarrow> ('p, 'c, 'b, 'm, 'k, 's) any_suite option) option"
  ho_log :: bool

definition sdk_get_suite ::
  "('p, 'c, 'b, 'm, 'k, 's) host_object option \<Rightarrow> string \<Rightarrow> ('p, 'c, 'b, 'm, 'k, 's) any_suite option" where
  "sdk_get_suite host name =
     (case Option.bind host ho_get_suite of None \<Rightarrow> None | Some lookup \<Rightarrow> lookup name 1)"

section \<open>Node classes and their instances\<close>

type_synonym ('t, 's) method_result = "unit sdk_result option \<times> 't \<times> 's"

record ('t, 'p, 'c, 'b, 'm, 'k, 's) node_class =
  nc_new :: "'s \<Rightarrow> 't option \<times> 's"
  nc_create :: "'p param_view \<Rightarrow> 't \<Rightarrow> 's \<Rightarrow> ('t, 's) method_result"
  nc_prepare :: "('c, 'b, 's) compute_object \<Rightarrow> 'p param_view \<Rightarrow> 't \<Rightarrow> 's \<Rightarrow> ('t, 's) method_result"
  nc_process :: "('c, 'b, 's) compute_object \<Rightarrow> 'p param_view \<Rightarrow> ('b, 'm) buffer_object list \<Rightarrow>
    ('b, 'm) buffer_object list \<Rightarrow> 'k builder_object list \<Rightarrow> 't \<Rightarrow> 's \<Rightarrow> ('t, 's) method_result"
  nc_delete :: "'t \<Rightarrow> 's \<Rightarrow> 's"

record ('t, 's) plugin_memory =
  pm_instances :: "nat \<Rightarrow> 't option"
  pm_next :: nat
  pm_world :: 's
  pm_log :: "string list"

record ('c, 'b, 'k) raw_process_ctx =
  rc_compute :: "'c option"
  rc_inputs :: "'b option list"
  rc_outputs :: "'b option list"
  rc_out_metadata :: "'k option list option"

datatype ('c, 'b, 'k) void_context =
    NullContext | InstanceContext nat | ComputeContext 'c | ProcessContext "('c, 'b, 'k) raw_process_ctx"

datatype dispatch_fault = NullPointer | Dangling | WrongContext

definition result_to_status :: "unit sdk_result \<Rightarrow> int" where
  "result_to_status r = (case r of Inr _ \<Rightarrow> status_int Ok | Inl e \<Rightarrow> er_code e)"

section \<open>Dispatch\<close>

text \<open>What a dispatch returns: the status, the pointer it wrote to \<open>*out_ctx\<close> and the memory.\<close>

type_synonym ('t, 's) dispatch_result = "dispatch_fault + int \<times> nat option \<times> ('t, 's) plugin_memory"

definition caught ::
  "('p, 'c, 'b, 'm, 'k, 's) host_object option \<Rightarrow> ('t, 's) plugin_memory \<Rightarrow> ('t, 's) dispatch_result" where
  "caught host mem =
     Inr (status_int InternalError, None,
       case host of
         None \<Rightarrow> mem
       | Some h \<Rightarrow> if ho_log h then mem\<lparr>pm_log := pm_log mem @ [''plugin dispatch threw an exception'']\<rparr> else mem)"

definition instance_at :: "('t, 's) plugin_memory \<Rightarrow> nat option \<Rightarrow> dispatch_fault + nat \<times> 't" where
  "instance_at mem node =
     (case node of
        None \<Rightarrow> Inl NullPointer
      | Some a \<Rightarrow> (case pm_instances mem a of None \<Rightarrow> Inl Dangling | Some t \<Rightarrow> Inr (a, t)))"

text \<open>A method call on an instance: the new state is stored, and an exception is caught.\<close>

definition method_status ::
  "('p, 'c, 'b, 'm, 'k, 's) host_object option \<Rightarrow> nat \<Rightarrow> ('t, 's) method_result \<Rightarrow> ('t, 's) plugin_memory \<Rightarrow>
     ('t, 's) dispatch_result" where
  "method_status host a r mem =
     (case r of (outcome, t, w) \<Rightarrow>
        let mem = mem\<lparr>pm_instances := (pm_instances mem)(a \<mapsto> t), pm_world := w\<rparr>
        in case outcome of None \<Rightarrow> caught host mem | Some res \<Rightarrow> Inr (result_to_status res, None, mem))"

definition dispatch_create ::
  "('t, 'p, 'c, 'b, 'm, 'k, 's) node_class \<Rightarrow> ('p, 'c, 'b, 'm, 'k, 's) host_object option \<Rightarrow> 'p param_view \<Rightarrow>
     bool \<Rightarrow> ('t, 's) plugin_memory \<Rightarrow> ('t, 's) dispatch_result" where
  "dispatch_create C host params out_ctx mem =
     (case nc_new C (pm_world mem) of
        (None, w) \<Rightarrow> caught host (mem\<lparr>pm_world := w\<rparr>)
      | (Some t, w) \<Rightarrow>
          let a = pm_next mem
          in case nc_create C params t w of (outcome, t, w) \<Rightarrow>
             let mem = mem\<lparr>pm_instances := (pm_instances mem)(a \<mapsto> t), pm_next := Suc a, pm_world := w\<rparr>
             in case outcome of
                  None \<Rightarrow> caught host mem
                | Some res \<Rightarrow>
                    let status = result_to_status res
                    in if status \<noteq> status_int Ok
                       then Inr (status, None, mem\<lparr>pm_instances := (pm_instances mem)(a := None),
                         pm_world := nc_delete C t w\<rparr>)
                       else if \<not> out_ctx then Inl NullPointer
                       else Inr (status_int Ok, Some a, mem))"

definition dispatch_destroy ::
  "('t, 'p, 'c, 'b, 'm, 'k, 's) node_class \<Rightarrow> ('c, 'b, 'k) void_context \<Rightarrow> ('t, 's) plugin_memory \<Rightarrow>
     ('t, 's) dispatch_result" where
  "dispatch_destroy C in_ctx mem =
     (case in_ctx of
        NullContext \<Rightarrow> Inr (status_int Ok, None, mem)
      | InstanceContext a \<Rightarrow>
          (case pm_instances mem a of
             None \<Rightarrow> Inl Dangling
           | Some t \<Rightarrow> Inr (status_int Ok, None, mem\<lparr>pm_instances := (pm_instances mem)(a := None),
               pm_world := nc_delete C t (pm_world mem)\<rparr>))
      | _ \<Rightarrow> Inl WrongContext)"

definition dispatch_prepare ::
  "('t, 'p, 'c, 'b, 'm, 'k, 's) node_class \<Rightarrow> ('p, 'c, 'b, 'm, 'k, 's) host_object option \<Rightarrow> 'p param_view \<Rightarrow>
     nat option \<Rightarrow> ('c, 'b, 'k) void_context \<Rightarrow> ('t, 's) plugin_memory \<Rightarrow> ('t, 's) dispatch_result" where
  "dispatch_prepare C host params node in_ctx mem =
     bind_res (case in_ctx of NullContext \<Rightarrow> Inr None | ComputeContext c \<Rightarrow> Inr (Some c) | _ \<Rightarrow> Inl WrongContext)
       (\<lambda>impl.
     bind_res (instance_at mem node) (\<lambda>(a, t).
     let compute = \<lparr>co_impl = impl, co_suite = as_compute (sdk_get_suite host ''compute'')\<rparr>
     in method_status host a (nc_prepare C compute params t (pm_world mem)) mem))"

definition sdk_buffers ::
  "('p, 'c, 'b, 'm, 'k, 's) host_object option \<Rightarrow> 'b option list \<Rightarrow> ('b, 'm) buffer_object list" where
  "sdk_buffers host impls =
     map (\<lambda>impl. \<lparr>bf_impl = impl, bf_suite = as_buffer (sdk_get_suite host ''buffer''),
         bf_metadata_suite = as_metadata (sdk_get_suite host ''metadata'')\<rparr>) impls"

text \<open>The array of builders has one entry per output; a shorter one is read past its end.\<close>

definition sdk_builders ::
  "('p, 'c, 'b, 'm, 'k, 's) host_object option \<Rightarrow> nat \<Rightarrow> 'k option list option \<Rightarrow>
     dispatch_fault + 'k builder_object list" where
  "sdk_builders host n_out out_metadata =
     (case out_metadata of
        None \<Rightarrow> Inr []
      | Some impls \<Rightarrow>
          if n_out \<le> length impls
          then Inr (map (\<lambda>impl. \<lparr>bo_impl = impl, bo_suite = as_builder (sdk_get_suite host ''metadata_builder'')\<rparr>)
            (take n_out impls))
          else Inl Dangling)"

definition dispatch_process ::
  "('t, 'p, 'c, 'b, 'm, 'k, 's) node_class \<Rightarrow> ('p, 'c, 'b, 'm, 'k, 's) host_object option \<Rightarrow> 'p param_view \<Rightarrow>
     nat option \<Rightarrow> ('c, 'b, 'k) void_context \<Rightarrow> ('t, 's) plugin_memory \<Rightarrow> ('t, 's) dispatch_result" where
  "dispatch_process C host params node in_ctx mem =
     (case in_ctx of
        NullContext \<Rightarrow> Inl NullPointer
      | ProcessContext process \<Rightarrow>
          let compute = \<lparr>co_impl = rc_compute process, co_suite = as_compute (sdk_get_suite host ''compute'')\<rparr>;
              inputs = sdk_buffers host (rc_inputs process);
              outputs = sdk_buffers host (rc_outputs process)
          in bind_res (sdk_builders host (length (rc_outputs process)) (rc_out_metadata process)) (\<lambda>out_metadata.
             bind_res (instance_at mem node) (\<lambda>(a, t).
             method_status host a (nc_process C compute params inputs outputs out_metadata t (pm_world mem)) mem))
      | _ \<Rightarrow> Inl WrongContext)"

definition dispatch ::
  "('t, 'p, 'c, 'b, 'm, 'k, 's) node_class \<Rightarrow> string \<Rightarrow> ('p, 'c, 'b, 'm, 'k, 's) host_object option \<Rightarrow> nat option \<Rightarrow>
     'p option \<Rightarrow> ('c, 'b, 'k) void_context \<Rightarrow> bool \<Rightarrow> ('t, 's) plugin_memory \<Rightarrow> ('t, 's) dispatch_result" where
  "dispatch C action host node params in_ctx out_ctx mem =
     (let param_view = \<lparr>pa_impl = params, pa_suite = as_param (sdk_get_suite host ''param'')\<rparr>
      in if action = ''describe'' then Inr (status_int ReplyDefault, None, mem)
         else if action = ''create'' then dispatch_create C host param_view out_ctx mem
         else if action = ''destroy'' then dispatch_destroy C in_ctx mem
         else if action = ''prepare'' then dispatch_prepare C host param_view node in_ctx mem
         else if action = ''process'' then dispatch_process C host param_view node in_ctx mem
         else Inr (status_int ReplyDefault, None, mem))"

section \<open>Live instances\<close>

definition live :: "('t, 's) plugin_memory \<Rightarrow> nat set" where
  "live mem = dom (pm_instances mem)"

definition memory_ok :: "('t, 's) plugin_memory \<Rightarrow> bool" where
  "memory_ok mem \<longleftrightarrow> live mem \<subseteq> {..<pm_next mem}"

text \<open>A host makes calls on the plugin, each with its arguments; a fault ends the run.\<close>

datatype ('p, 'c, 'b, 'k) plugin_call =
  PluginCall (pc_action: string) (pc_node: "nat option") (pc_params: "'p option")
    (pc_in: "('c, 'b, 'k) void_context") (pc_out: bool)

definition exec_plugin_call where
  "exec_plugin_call C host c = dispatch C (pc_action c) host (pc_node c) (pc_params c) (pc_in c) (pc_out c)"

fun run_plugin ::
  "('t, 'p, 'c, 'b, 'm, 'k, 's) node_class \<Rightarrow> ('p, 'c, 'b, 'm, 'k, 's) host_object option \<Rightarrow>
     ('p, 'c, 'b, 'k) plugin_call list \<Rightarrow> ('t, 's) plugin_memory \<Rightarrow>
     dispatch_fault + (int \<times> nat option) list \<times> ('t, 's) plugin_memory" where
  "run_plugin C host [] mem = Inr ([], mem)"
| "run_plugin C host (c # cs) mem =
     bind_res (exec_plugin_call C host c mem) (\<lambda>(status, out, mem).
     bind_res (run_plugin C host cs mem) (\<lambda>(rs, mem). Inr ((status, out) # rs, mem)))"

definition destroyed :: "('p, 'c, 'b, 'k) plugin_call list \<Rightarrow> nat set" where
  "destroyed cs = {a. \<exists>c \<in> set cs. pc_action c = ''destroy'' \<and> pc_in c = InstanceContext a}"

definition returned :: "(int \<times> nat option) list \<Rightarrow> nat set" where
  "returned rs = {a. Some a \<in> snd ` set rs}"

text \<open>
  The instances whose \<open>create\<close> method throws: nobody owns them, and the entry point gives no pointer back.
\<close>

definition create_throws where
  "create_throws C host c mem \<longleftrightarrow> pc_action c = ''create'' \<and>
     (case nc_new C (pm_world mem) of
        (None, w) \<Rightarrow> False
      | (Some t, w) \<Rightarrow>
          fst (nc_create C \<lparr>pa_impl = pc_params c, pa_suite = as_param (sdk_get_suite host ''param'')\<rparr> t w) = None)"

fun leaked ::
  "('t, 'p, 'c, 'b, 'm, 'k, 's) node_class \<Rightarrow> ('p, 'c, 'b, 'm, 'k, 's) host_object option \<Rightarrow>
     ('p, 'c, 'b, 'k) plugin_call list \<Rightarrow> ('t, 's) plugin_memory \<Rightarrow> nat set" where
  "leaked C host [] mem = {}"
| "leaked C host (c # cs) mem =
     (if create_throws C host c mem then {pm_next mem} else {}) \<union>
     (case exec_plugin_call C host c mem of Inl _ \<Rightarrow> {} | Inr (status, out, mem) \<Rightarrow> leaked C host cs mem)"

lemma returned_simps [simp]: "returned [] = {}" "returned ((s, o') # rs) = set_option o' \<union> returned rs"
  by (auto simp: returned_def image_iff)

lemma destroyed_simps [simp]: "destroyed [] = {}"
  "destroyed (c # cs) = {a. pc_action c = ''destroy'' \<and> pc_in c = InstanceContext a} \<union> destroyed cs"
  by (auto simp: destroyed_def)

lemma caught_cases:
  "caught host mem = Inr (status, out, mem') \<Longrightarrow>
     status = status_int InternalError \<and> out = None \<and> live mem' = live mem \<and> pm_next mem' = pm_next mem"
  by (auto simp: caught_def live_def split: option.splits if_splits)

text \<open>A method call changes no set of instances.\<close>

lemma method_status_live:
  assumes "method_status host a r mem = Inr (status, out, mem')" and "a \<in> live mem"
  shows "out = None \<and> live mem' = live mem \<and> pm_next mem' = pm_next mem"
proof -
  have "insert a (dom (pm_instances mem)) = dom (pm_instances mem)" using assms(2) by (auto simp: live_def)
  with assms(1) caught_cases [of host _ status out mem'] show ?thesis
    by (fastforce simp: method_status_def live_def Let_def split: prod.splits option.splits)
qed

lemma instance_at_live: "instance_at mem node = Inr (a, t) \<Longrightarrow> a \<in> live mem"
  by (auto simp: instance_at_def live_def split: option.splits)

lemma on_instance_live:
  assumes "bind_res (instance_at mem node) (\<lambda>(a, t). method_status host a (f t) mem) = Inr (status, out, mem')"
  shows "out = None \<and> live mem' = live mem \<and> pm_next mem' = pm_next mem"
proof (cases "instance_at mem node")
  case (Inr r)
  then obtain a t where r: "instance_at mem node = Inr (a, t)" by (cases r) simp
  with assms have "method_status host a (f t) mem = Inr (status, out, mem')" by simp
  from method_status_live [OF this instance_at_live [OF r]] show ?thesis .
qed (use assms in simp)

lemma dispatch_create_live:
  assumes "exec_plugin_call C host c mem = Inr (status, out, mem')" and "memory_ok mem"
    and "pc_action c = ''create''"
  shows "live mem' = live mem \<union> set_option out \<union> (if create_throws C host c mem then {pm_next mem} else {}) \<and>
    (create_throws C host c mem \<longrightarrow> out = None \<and> status = status_int InternalError) \<and>
    pm_next mem \<le> pm_next mem' \<and> memory_ok mem' \<and>
    set_option out \<union> (if create_throws C host c mem then {pm_next mem} else {}) \<subseteq> {pm_next mem..<pm_next mem'}"
proof -
  let ?view = "\<lparr>pa_impl = pc_params c, pa_suite = as_param (sdk_get_suite host ''param'')\<rparr>"
  have run: "dispatch_create C host ?view (pc_out c) mem = Inr (status, out, mem')"
    using assms(1,3) by (simp add: exec_plugin_call_def dispatch_def Let_def)
  obtain new w where n: "nc_new C (pm_world mem) = (new, w)" by fastforce
  have "pm_next mem \<notin> dom (pm_instances mem)" using assms(2) by (auto simp: memory_ok_def live_def)
  then have dom: "dom (pm_instances mem) - {pm_next mem} = dom (pm_instances mem)" by blast
  have ok: "x < Suc (pm_next mem)" "x < pm_next mem" if "pm_instances mem x = Some y" for x y
    using assms(2) that by (auto simp: memory_ok_def live_def less_SucI)
  show ?thesis
  proof (cases new)
    case None
    with n run have "caught host (mem\<lparr>pm_world := w\<rparr>) = Inr (status, out, mem')"
      by (simp add: dispatch_create_def)
    from caught_cases [OF this] None n assms(2) show ?thesis
      by (auto simp: create_throws_def memory_ok_def live_def)
  next
    case (Some t)
    obtain outcome t' w' where c: "nc_create C ?view t w = (outcome, t', w')" by (cases "nc_create C ?view t w")
    show ?thesis
    proof (cases outcome)
      case None
      let ?mem = "mem\<lparr>pm_instances := (pm_instances mem)(pm_next mem \<mapsto> t'), pm_next := Suc (pm_next mem), pm_world := w'\<rparr>"
      from None run n Some c have "caught host ?mem = Inr (status, out, mem')"
        by (simp add: dispatch_create_def Let_def)
      from caught_cases [OF this] None n Some c assms(3) show ?thesis
        by (auto simp: create_throws_def memory_ok_def live_def dest: ok)
    next
      case outcome: (Some r)
      then have "\<not> create_throws C host c mem" using n Some c by (simp add: create_throws_def)
      with run n Some c outcome dom show ?thesis
        by (auto simp: dispatch_create_def live_def memory_ok_def Let_def dest: ok split: if_splits)
    qed
  qed
qed

text \<open>Every action that is not \<open>create\<close>.\<close>

lemma dispatch_other_live:
  assumes "dispatch C action host node params in_ctx out_ctx mem = Inr (status, out, mem')"
    and "action \<noteq> ''create''"
  shows "out = None \<and> pm_next mem' = pm_next mem \<and>
    live mem' = live mem - {a. action = ''destroy'' \<and> in_ctx = InstanceContext a}"
proof -
  consider "action = ''destroy''" | "action = ''prepare''" | "action = ''process''"
    | "action \<notin> {''destroy'', ''prepare'', ''process''}" by blast
  then show ?thesis
  proof cases
    case 1
    with assms show ?thesis
      by (cases in_ctx) (auto simp: dispatch_def dispatch_destroy_def live_def split: option.splits if_splits)
  next
    case 2
    with assms(1) have "out = None \<and> live mem' = live mem \<and> pm_next mem' = pm_next mem"
      by (cases in_ctx) (auto simp: dispatch_def dispatch_prepare_def Let_def dest!: on_instance_live)
    with 2 show ?thesis by simp
  next
    case 3
    with assms(1) have "out = None \<and> live mem' = live mem \<and> pm_next mem' = pm_next mem"
      by (cases in_ctx) (auto simp: dispatch_def dispatch_process_def Let_def bind_res_eq_Inr_iff [of "sdk_builders _ _ _"]
          dest!: on_instance_live)
    with 3 show ?thesis by simp
  next
    case 4
    with assms show ?thesis by (auto simp: dispatch_def Let_def split: if_splits)
  qed
qed

lemma plugin_call_live:
  assumes "exec_plugin_call C host c mem = Inr (status, out, mem')" and "memory_ok mem"
  shows "live mem' = live mem \<union> set_option out \<union> leaked C host [c] mem - destroyed [c] \<and> memory_ok mem' \<and>
    pm_next mem \<le> pm_next mem' \<and> set_option out \<union> leaked C host [c] mem \<subseteq> {pm_next mem..<pm_next mem'} \<and>
    set_option out \<inter> leaked C host [c] mem = {}"
proof (cases "pc_action c = ''create''")
  case True
  with dispatch_create_live [OF assms True] assms(1) show ?thesis by (auto split: if_splits)
next
  case False
  with dispatch_other_live assms(1) have "out = None" "pm_next mem' = pm_next mem"
    "live mem' = live mem - destroyed [c]"
    unfolding exec_plugin_call_def by fastforce+
  with assms False show ?thesis by (auto simp: memory_ok_def create_throws_def)
qed

lemma destroyed_live:
  assumes "exec_plugin_call C host c mem = Inr r"
  shows "destroyed [c] \<subseteq> live mem"
  using assms by (auto simp: exec_plugin_call_def dispatch_def dispatch_destroy_def live_def Let_def split: option.splits)

lemma run_plugin_live:
  assumes "run_plugin C host cs mem = Inr (rs, mem')" and "memory_ok mem"
  shows "live mem' = live mem \<union> returned rs \<union> leaked C host cs mem - destroyed cs \<and> memory_ok mem' \<and>
    returned rs \<union> leaked C host cs mem \<subseteq> {pm_next mem..} \<and> returned rs \<inter> leaked C host cs mem = {}"
  using assms
proof (induction cs arbitrary: mem rs)
  case (Cons c cs)
  then obtain status out mem1 rs1 where c: "exec_plugin_call C host c mem = Inr (status, out, mem1)"
    and cs: "run_plugin C host cs mem1 = Inr (rs1, mem')" and rs: "rs = (status, out) # rs1"
    by (auto simp: bind_res_eq_Inr_iff)
  note one = plugin_call_live [OF c Cons.prems(2)]
  then have IH: "live mem' = live mem1 \<union> returned rs1 \<union> leaked C host cs mem1 - destroyed cs" "memory_ok mem'"
    "returned rs1 \<union> leaked C host cs mem1 \<subseteq> {pm_next mem1..}" "returned rs1 \<inter> leaked C host cs mem1 = {}"
    using Cons.IH [OF cs] by blast+
  have "destroyed [c] \<subseteq> {..<pm_next mem1}"
    using destroyed_live [OF c] one Cons.prems(2) by (auto simp: memory_ok_def)
  with IH(3) have "destroyed [c] \<inter> (returned rs1 \<union> leaked C host cs mem1) = {}" by fastforce
  moreover have "destroyed (c # cs) = destroyed [c] \<union> destroyed cs" by simp
  moreover have "returned rs = set_option out \<union> returned rs1" by (simp add: rs)
  moreover have "leaked C host (c # cs) mem = leaked C host [c] mem \<union> leaked C host cs mem1" using c by simp
  moreover have "{pm_next mem..<pm_next mem1} \<inter> {pm_next mem1..} = {}" "{pm_next mem1..} \<subseteq> {pm_next mem..}"
    using one by auto
  ultimately show ?case using IH one
    by (intro conjI) (auto simp del: destroyed_simps(2) leaked.simps(2))
qed simp

section \<open>Properties\<close>

text \<open>
  C30: the instances of a node class are accounted for. Whatever calls a host makes and whatever the
  methods of the class do, as long as the calls end without a fault, the instances alive at the end are
  those alive before, those a call returned and those whose \<open>create\<close> method threw, less those the host
  destroyed. A \<open>create\<close> that reports an error leaves nothing behind, every returned instance is new, and
  an instance leaked by an exception is never returned to the host.
\<close>

theorem instances_accounted:
  assumes "run_plugin C host cs mem = Inr (rs, mem')" and "memory_ok mem"
  shows "live mem' = live mem \<union> returned rs \<union> leaked C host cs mem - destroyed cs \<and>
    (returned rs \<union> leaked C host cs mem) \<inter> live mem = {} \<and> returned rs \<inter> leaked C host cs mem = {}"
  using run_plugin_live [OF assms] assms(2) by (fastforce simp: memory_ok_def)

text \<open>A class whose third \<open>create\<close> throws.\<close>

definition demo_class :: "(nat, unit, unit, unit, unit, unit, nat) node_class" where
  "demo_class = \<lparr>nc_new = (\<lambda>w. (Some 0, w)), nc_create = (\<lambda>params t w. (if w = 2 then None else Some (Inr ()), t, Suc w)),
     nc_prepare = (\<lambda>compute params t w. (Some (Inr ()), t, w)),
     nc_process = (\<lambda>compute params inputs outputs builders t w.
       (Some (Inl \<lparr>er_code = 1, er_message = []\<rparr>), Suc t, w)),
     nc_delete = (\<lambda>t w. w)\<rparr>"

definition demo_instances :: "(nat, nat) plugin_memory" where
  "demo_instances = \<lparr>pm_instances = Map.empty, pm_next = 0, pm_world = 0, pm_log = []\<rparr>"

definition demo_calls :: "(unit, unit, unit, unit) plugin_call list" where
  "demo_calls = [PluginCall ''create'' None None NullContext True,
     PluginCall ''create'' None None NullContext True,
     PluginCall ''process'' (Some 0) None (ProcessContext \<lparr>rc_compute = None, rc_inputs = [], rc_outputs = [],
       rc_out_metadata = None\<rparr>) False,
     PluginCall ''create'' None None NullContext True,
     PluginCall ''destroy'' None None (InstanceContext 0) False]"

theorem instances_accounted_witness:
  "\<exists>rs mem'. run_plugin demo_class None demo_calls demo_instances = Inr (rs, mem') \<and> live mem' = {1, 2}"
proof -
  note demo = demo_calls_def exec_plugin_call_def dispatch_def dispatch_create_def dispatch_process_def
    dispatch_destroy_def demo_class_def demo_instances_def result_to_status_def status_int_def
    sdk_builders_def instance_at_def method_status_def caught_def Let_def
  obtain rs mem' where run: "run_plugin demo_class None demo_calls demo_instances = Inr (rs, mem')"
    and rs: "rs = [(0, Some 0), (0, Some 1), (1, None), (7, None), (0, None)]"
    by (simp add: demo)
  have "memory_ok demo_instances" by (simp add: memory_ok_def live_def demo_instances_def)
  moreover have "leaked demo_class None demo_calls demo_instances = {2}" by (simp add: demo create_throws_def)
  ultimately have "live mem' = {1, 2}"
    using instances_accounted [OF run] by (auto simp: rs demo_calls_def demo_instances_def live_def)
  with run show ?thesis by blast
qed

text \<open>
  An instance whose \<open>create\<close> method throws is leaked: the entry point reports an internal error, gives
  no pointer back, and the instance it made stays alive.
\<close>

lemma create_throw_leaks:
  assumes "nc_new C (pm_world mem) = (Some t, w)"
    and "nc_create C \<lparr>pa_impl = params, pa_suite = as_param (sdk_get_suite host ''param'')\<rparr> t w = (None, t', w')"
  shows "\<exists>mem'. dispatch C ''create'' host node params in_ctx out_ctx mem = Inr (status_int InternalError, None, mem') \<and>
    live mem' = insert (pm_next mem) (live mem)"
  using assms by (auto simp: dispatch_def dispatch_create_def caught_def live_def Let_def split: option.split)

end
