(* ===== verification/Ieee_Arith.thy ===== *)
theory Ieee_Arith
  imports Float_Bits
begin

text \<open>
  The floating point arithmetic of the processing nodes: half, single and double precision values with
  the operations of IEEE 754 the sources use. A value is \<open>\<plusminus> m * 2 ^ e\<close>, an infinity or a NaN; every
  operation computes the exact result and rounds it to nearest, ties to even, in the format of its
  type. The operations are rounded one by one, in the order the sources write them. Sign and payload of
  a NaN are not kept.
\<close>

section \<open>Values\<close>

datatype fp = FpFin bool int int | FpInf bool | FpNaN

text \<open>The value of a bit pattern with \<open>p\<close> mantissa and \<open>k\<close> exponent bits.\<close>

definition fp_decode :: "nat \<Rightarrow> nat \<Rightarrow> int \<Rightarrow> fp" where
  "fp_decode p k w =
     (let s = odd (w div 2 ^ (p + k)); e = w div 2 ^ p mod 2 ^ k; m = w mod 2 ^ p; bias = 2 ^ (k - 1) - 1
      in if e = 2 ^ k - 1 then if m = 0 then FpInf s else FpNaN
         else if e = 0 then FpFin s m (1 - bias - int p)
         else FpFin s (m + 2 ^ p) (e - bias - int p))"

definition fp_of_f16 :: "u16 \<Rightarrow> fp" where "fp_of_f16 w = fp_decode 10 5 (uint w)"
definition fp_of_f32 :: "f32 \<Rightarrow> fp" where "fp_of_f32 w = fp_decode 23 8 (uint w)"
definition fp_of_f64 :: "f64 \<Rightarrow> fp" where "fp_of_f64 w = fp_decode 52 11 (uint w)"

definition fp_of_int :: "int \<Rightarrow> fp" where
  "fp_of_int i = FpFin (i < 0) \<bar>i\<bar> 0"

section \<open>Rounding\<close>

text \<open>
  \<open>n / d\<close> rounded to \<open>p\<close> mantissa bits with exponents from \<open>1 - emax\<close> to \<open>emax\<close>.
\<close>

definition fp_round :: "nat \<Rightarrow> int \<Rightarrow> bool \<Rightarrow> int \<Rightarrow> int \<Rightarrow> fp" where
  "fp_round p emax s n d =
     (if n = 0 then FpFin s 0 0
      else
        let e = max (1 - emax) (frac_log2 n d); (a, b) = scale_frac (int p - e) n d; m = round_half_even a b
        in if e > emax \<or> e = emax \<and> m \<ge> 2 ^ (p + 1) then FpInf s else FpFin s m (e - int p))"

type_synonym rounding = "bool \<Rightarrow> int \<Rightarrow> int \<Rightarrow> fp"

definition single :: rounding where "single = fp_round 23 127"
definition double :: rounding where "double = fp_round 52 1023"

section \<open>Operations\<close>

definition fp_signed :: "bool \<Rightarrow> int \<Rightarrow> int" where
  "fp_signed s m = (if s then - m else m)"

definition fp_neg :: "fp \<Rightarrow> fp" where
  "fp_neg x = (case x of FpFin s m e \<Rightarrow> FpFin (\<not> s) m e | FpInf s \<Rightarrow> FpInf (\<not> s) | FpNaN \<Rightarrow> FpNaN)"

definition fp_abs :: "fp \<Rightarrow> fp" where
  "fp_abs x = (case x of FpFin s m e \<Rightarrow> FpFin False m e | FpInf s \<Rightarrow> FpInf False | FpNaN \<Rightarrow> FpNaN)"

text \<open>A sum that is zero is \<open>+0\<close> unless both terms are negative.\<close>

definition fp_add :: "rounding \<Rightarrow> fp \<Rightarrow> fp \<Rightarrow> fp" where
  "fp_add R x y =
     (case (x, y) of
        (FpFin s m e, FpFin t n f) \<Rightarrow>
          let k = min e f; a = fp_signed s m * 2 ^ nat (e - k) + fp_signed t n * 2 ^ nat (f - k);
              (c, d) = scale_frac k \<bar>a\<bar> 1
          in if a = 0 then FpFin (s \<and> t) 0 0 else R (a < 0) c d
      | (FpInf s, FpInf t) \<Rightarrow> if s = t then FpInf s else FpNaN
      | (FpInf s, FpFin _ _ _) \<Rightarrow> FpInf s
      | (FpFin _ _ _, FpInf t) \<Rightarrow> FpInf t
      | _ \<Rightarrow> FpNaN)"

definition fp_sub :: "rounding \<Rightarrow> fp \<Rightarrow> fp \<Rightarrow> fp" where
  "fp_sub R x y = fp_add R x (fp_neg y)"

definition fp_mul :: "rounding \<Rightarrow> fp \<Rightarrow> fp \<Rightarrow> fp" where
  "fp_mul R x y =
     (case (x, y) of
        (FpFin s m e, FpFin t n f) \<Rightarrow> let (a, b) = scale_frac (e + f) (m * n) 1 in R (s \<noteq> t) a b
      | (FpInf s, FpInf t) \<Rightarrow> FpInf (s \<noteq> t)
      | (FpInf s, FpFin t n f) \<Rightarrow> if n = 0 then FpNaN else FpInf (s \<noteq> t)
      | (FpFin s m e, FpInf t) \<Rightarrow> if m = 0 then FpNaN else FpInf (s \<noteq> t)
      | _ \<Rightarrow> FpNaN)"

definition fp_div :: "rounding \<Rightarrow> fp \<Rightarrow> fp \<Rightarrow> fp" where
  "fp_div R x y =
     (case (x, y) of
        (FpFin s m e, FpFin t n f) \<Rightarrow>
          if n = 0 then if m = 0 then FpNaN else FpInf (s \<noteq> t)
          else let (a, b) = scale_frac (e - f) m n in R (s \<noteq> t) a b
      | (FpInf s, FpFin t n f) \<Rightarrow> FpInf (s \<noteq> t)
      | (FpFin s m e, FpInf t) \<Rightarrow> FpFin (s \<noteq> t) 0 0
      | _ \<Rightarrow> FpNaN)"

text \<open>The integer square root, by pairs of bits.\<close>

function isqrt :: "int \<Rightarrow> int" where
  "isqrt n = (if n \<le> 0 then 0 else let r = 2 * isqrt (n div 4) in if (r + 1) * (r + 1) \<le> n then r + 1 else r)"
  by auto
termination by (relation "measure nat") auto

declare isqrt.simps [simp del]

text \<open>
  The square root: the argument is scaled to an even exponent and at least 110 bits; the integer root
  then has more bits than a double, and a last bit that is set when the root is not exact makes the
  rounding right.
\<close>

definition fp_sqrt :: "rounding \<Rightarrow> fp \<Rightarrow> fp" where
  "fp_sqrt R x =
     (case x of
        FpFin s m e \<Rightarrow>
          if m = 0 then x
          else if s then FpNaN
          else
            let t = 110 + (if even (e - 110) then 0 else 1); n = m * 2 ^ nat t; r = isqrt n;
                sticky = (if r * r = n then 0 else 1); (a, b) = scale_frac ((e - t) div 2 - 1) (2 * r + sticky) 1
            in R False a b
      | FpInf s \<Rightarrow> if s then FpNaN else x
      | FpNaN \<Rightarrow> FpNaN)"

text \<open>Comparison, with a NaN unordered; \<open>std::clamp\<close>, and \<open>std::max\<close> of a list.\<close>

definition fp_less :: "fp \<Rightarrow> fp \<Rightarrow> bool" where
  "fp_less x y \<longleftrightarrow>
     (case (x, y) of
        (FpFin s m e, FpFin t n f) \<Rightarrow>
          let k = min e f in fp_signed s m * 2 ^ nat (e - k) < fp_signed t n * 2 ^ nat (f - k)
      | (FpInf s, FpInf t) \<Rightarrow> s \<and> \<not> t
      | (FpInf s, FpFin _ _ _) \<Rightarrow> s
      | (FpFin _ _ _, FpInf t) \<Rightarrow> \<not> t
      | _ \<Rightarrow> False)"

definition fp_le :: "fp \<Rightarrow> fp \<Rightarrow> bool" where
  "fp_le x y \<longleftrightarrow> x \<noteq> FpNaN \<and> y \<noteq> FpNaN \<and> \<not> fp_less y x"

definition fp_clamp :: "fp \<Rightarrow> fp \<Rightarrow> fp \<Rightarrow> fp" where
  "fp_clamp v lo hi = (if fp_less v lo then lo else if fp_less hi v then hi else v)"

fun fp_max_list :: "fp \<Rightarrow> fp list \<Rightarrow> fp" where
  "fp_max_list x [] = x"
| "fp_max_list x (y # ys) = fp_max_list (if fp_less x y then y else x) ys"

text \<open>\<open>std::floor\<close>, the cast to \<open>int\<close>, which truncates, and the casts between formats.\<close>

definition fp_floor_int :: "bool \<Rightarrow> int \<Rightarrow> int \<Rightarrow> int" where
  "fp_floor_int s m e = (let (a, b) = scale_frac e (fp_signed s m) 1 in a div b)"

definition fp_floor :: "fp \<Rightarrow> fp" where
  "fp_floor x =
     (case x of
        FpFin s m e \<Rightarrow> let v = fp_floor_int s m e in FpFin (v < 0 \<or> v = 0 \<and> s) \<bar>v\<bar> 0
      | _ \<Rightarrow> x)"

definition fp_to_i32 :: "fp \<Rightarrow> int option" where
  "fp_to_i32 x =
     (case x of
        FpFin s m e \<Rightarrow>
          let (a, b) = scale_frac e m 1; v = fp_signed s (a div b)
          in if - (2 ^ 31) \<le> v \<and> v < 2 ^ 31 then Some v else None
      | _ \<Rightarrow> None)"

definition fp_cast :: "rounding \<Rightarrow> fp \<Rightarrow> fp" where
  "fp_cast R x =
     (case x of FpFin s m e \<Rightarrow> let (a, b) = scale_frac e m 1 in R s a b | _ \<Rightarrow> x)"

text \<open>The bit pattern of a half, rounded from a single.\<close>

definition fp_to_f16 :: "fp \<Rightarrow> u16" where
  "fp_to_f16 x =
     (case x of
        FpFin s m e \<Rightarrow>
          let sign = (if s then 0x8000 else 0); (n, d) = scale_frac e m 1
          in if n = 0 then sign
             else
               let q = max (- 14) (frac_log2 n d); (a, b) = scale_frac (10 - q) n d;
                   bits = (q + 14) * 2 ^ 10 + round_half_even a b
               in sign + (if bits \<ge> 0x7C00 then 0x7C00 else of_int bits)
      | FpInf s \<Rightarrow> if s then 0xFC00 else 0x7C00
      | FpNaN \<Rightarrow> 0x7E00)"

section \<open>Clamped positions\<close>

lemma fp_less_NaN [simp]: "\<not> fp_less FpNaN y" "\<not> fp_less x FpNaN"
  by (cases y; simp add: fp_less_def) (cases x; simp add: fp_less_def)

lemma fp_less_zero: "fp_less (FpFin s m e) (fp_of_int 0) \<longleftrightarrow> fp_signed s m < 0"
proof (cases "0 \<le> e")
  case True
  then show ?thesis by (simp add: fp_less_def fp_of_int_def fp_signed_def Let_def min_def mult_less_0_iff)
next
  case False
  then show ?thesis by (simp add: fp_less_def fp_of_int_def fp_signed_def Let_def min_def)
qed

lemma fp_less_int:
  assumes "0 \<le> i"
  shows "fp_less (fp_of_int i) (FpFin s m e) \<longleftrightarrow> i * 2 ^ nat (- e) < fp_signed s m * 2 ^ nat e"
  using assms by (cases "0 \<le> e") (auto simp: fp_less_def fp_of_int_def fp_signed_def Let_def min_def)

lemma floor_bounds:
  assumes "\<not> fp_signed s m < 0" and "\<not> i * 2 ^ nat (- e) < fp_signed s m * 2 ^ nat e"
  shows "0 \<le> fp_floor_int s m e \<and> fp_floor_int s m e \<le> i"
proof (cases "0 \<le> e")
  case True
  with assms show ?thesis by (simp add: fp_floor_int_def scale_frac_def)
next
  case False
  let ?p = "2 ^ nat (- e) :: int"
  from False assms(2) have "fp_signed s m \<le> i * ?p" by simp
  then have "fp_signed s m div ?p \<le> i * ?p div ?p" by (intro zdiv_mono1) simp_all
  then have "fp_signed s m div ?p \<le> i" by simp
  moreover have "0 \<le> fp_signed s m div ?p" using assms(1) by (simp add: pos_imp_zdiv_nonneg_iff)
  ultimately show ?thesis using False by (simp add: fp_floor_int_def scale_frac_def)
qed

text \<open>
  A position clamped to \<open>[0, n - 1]\<close> has a floor that is an index below \<open>n\<close>, unless it is a NaN, which
  \<open>std::clamp\<close> lets through and no integer can hold.
\<close>

lemma clamped_index:
  assumes "0 < n" and "n < 2 ^ 31"
  shows "case fp_to_i32 (fp_floor (fp_clamp x (fp_of_int 0) (fp_of_int (n - 1)))) of
      None \<Rightarrow> x = FpNaN | Some i \<Rightarrow> 0 \<le> i \<and> i < n"
proof -
  have int: "fp_to_i32 (fp_floor (fp_of_int i)) = Some i" if "0 \<le> i" "i < n" for i
    using that assms by (simp add: fp_to_i32_def fp_floor_def fp_of_int_def fp_floor_int_def scale_frac_def fp_signed_def)
  have fin: "fp_to_i32 (fp_floor (FpFin s m e)) = Some (fp_floor_int s m e)"
    if "0 \<le> fp_floor_int s m e" "fp_floor_int s m e < n" for s m e
    using that assms by (cases s) (auto simp: fp_to_i32_def fp_floor_def scale_frac_def fp_signed_def Let_def)
  show ?thesis
  proof (cases x)
    case (FpFin s m e)
    show ?thesis
    proof (cases "fp_signed s m < 0 \<or> fp_less (fp_of_int (n - 1)) x")
      case True
      with FpFin assms int [of 0] int [of "n - 1"] show ?thesis by (auto simp: fp_clamp_def fp_less_zero)
    next
      case False
      with assms(1) FpFin floor_bounds [of s m "n - 1" e]
      have "0 \<le> fp_floor_int s m e \<and> fp_floor_int s m e \<le> n - 1" by (simp add: fp_less_int)
      with False FpFin fin [of s m e] show ?thesis by (simp add: fp_clamp_def fp_less_zero)
    qed
  next
    case (FpInf s)
    then have "fp_clamp x (fp_of_int 0) (fp_of_int (n - 1)) = fp_of_int (if s then 0 else n - 1)"
      by (simp add: fp_clamp_def fp_less_def fp_of_int_def)
    with assms int [of 0] int [of "n - 1"] show ?thesis by (cases s) simp_all
  next
    case FpNaN
    then show ?thesis by (simp add: fp_clamp_def fp_to_i32_def fp_floor_def)
  qed
qed

end
