(* ===== verification/Lens_Opcode3.thy ===== *)
theory Lens_Opcode3
  imports Opcode_List3 Ieee_Arith Param_Blob Compute_Context
begin

text \<open>
  The lens correction node: how it packs the opcodes of a DNG file into the parameter block of its filter
  (\<open>src/cpipe/nodes/lens/dng_opcode_list_3.cpp\<close>, structures in \<open>src/cpipe/nodes/detail/P1ParamDispatch.hpp\<close>)
  and the filter, which reads the block and applies the opcodes to the image one after the other
  (\<open>src/cpipe/nodes/lens/dng_opcode_list_3_dispatch.cpp\<close>).

  An image is the list of its half precision samples, four per pixel. An access outside a list is the
  fault \<open>LensRead\<close>, a cast of a floating point value that no \<open>int\<close> can hold \<open>LensCast\<close>, an overflow of
  \<open>int\<close> arithmetic \<open>LensOverflow\<close>.
\<close>

unbundle bit_operations_syntax

datatype lens_stop = LensRead | LensCast | LensOverflow

type_synonym image = "u16 list"

section \<open>The parameter block\<close>

record dispatch_record =
  dr_id :: u32
  dr_optional :: u32
  dr_coefficient_count :: u32
  dr_coefficients :: "warp_coefficient list"
  dr_cx_hat :: f64
  dr_cy_hat :: f64
  dr_vignette_k :: "f64 list"
  dr_vignette_cx_hat :: f64
  dr_vignette_cy_hat :: f64
  dr_constant :: u32
  dr_bayer_phase :: u32
  dr_point_offset :: u32
  dr_point_count :: u32
  dr_rect_offset :: u32
  dr_rect_count :: u32
  dr_top :: u32
  dr_left :: u32
  dr_bottom :: u32
  dr_right :: u32

definition zero_coefficient :: warp_coefficient where
  "zero_coefficient = \<lparr>kr0 = 0, kr1 = 0, kr2 = 0, kr3 = 0, kt0 = 0, kt1 = 0\<rparr>"

definition empty_record :: dispatch_record where
  "empty_record = \<lparr>dr_id = 0, dr_optional = 0, dr_coefficient_count = 0,
     dr_coefficients = replicate 4 zero_coefficient, dr_cx_hat = 0, dr_cy_hat = 0,
     dr_vignette_k = replicate 5 0, dr_vignette_cx_hat = 0, dr_vignette_cy_hat = 0, dr_constant = 0,
     dr_bayer_phase = 0, dr_point_offset = 0, dr_point_count = 0, dr_rect_offset = 0, dr_rect_count = 0,
     dr_top = 0, dr_left = 0, dr_bottom = 0, dr_right = 0\<rparr>"

fun opcode_id_value :: "opcode_id \<Rightarrow> u32" where
  "opcode_id_value Unknown = 0"
| "opcode_id_value WarpRectilinear = 1"
| "opcode_id_value FixVignetteRadial = 3"
| "opcode_id_value FixBadPixelsConstant = 4"
| "opcode_id_value FixBadPixelsList = 5"
| "opcode_id_value TrimBounds = 6"

definition pack_warp :: "warp_rectilinear \<Rightarrow> dispatch_record \<Rightarrow> dispatch_record" where
  "pack_warp warp r =
     (let n = min (length (wr_coefficients warp)) (length (dr_coefficients r))
      in r\<lparr>dr_coefficient_count := of_nat n,
           dr_coefficients := take n (wr_coefficients warp) @ drop n (dr_coefficients r),
           dr_cx_hat := wr_cx_hat warp, dr_cy_hat := wr_cy_hat warp\<rparr>)"

definition pack_vignette :: "fix_vignette_radial \<Rightarrow> dispatch_record \<Rightarrow> dispatch_record" where
  "pack_vignette vignette r = r\<lparr>dr_vignette_k := vr_k vignette, dr_vignette_cx_hat := vr_cx_hat vignette,
     dr_vignette_cy_hat := vr_cy_hat vignette\<rparr>"

text \<open>One pass of the loop over the opcodes: the record, and the points and rectangles collected so far.\<close>

definition pack_opcode ::
  "opcode \<Rightarrow> dispatch_record list \<times> bad_point list \<times> bad_rect list \<Rightarrow>
     dispatch_record list \<times> bad_point list \<times> bad_rect list" where
  "pack_opcode op st =
     (case st of (records, points, rects) \<Rightarrow>
        let r = empty_record\<lparr>dr_id := opcode_id_value (op_id op), dr_optional := (if op_optional op then 1 else 0)\<rparr>;
            r = (case op_warp op of None \<Rightarrow> r | Some w \<Rightarrow> pack_warp w r);
            r = (case op_vignette op of None \<Rightarrow> r | Some v \<Rightarrow> pack_vignette v r);
            r = (case op_constant op of None \<Rightarrow> r
                 | Some k \<Rightarrow> r\<lparr>dr_constant := bc_constant k, dr_bayer_phase := bc_bayer_phase k\<rparr>);
            r = (case op_list op of None \<Rightarrow> r
                 | Some l \<Rightarrow> r\<lparr>dr_bayer_phase := bl_bayer_phase l,
                     dr_point_offset := of_nat (length points), dr_point_count := of_nat (length (bl_points l)),
                     dr_rect_offset := of_nat (length rects), dr_rect_count := of_nat (length (bl_rects l))\<rparr>);
            points = points @ (case op_list op of None \<Rightarrow> [] | Some l \<Rightarrow> bl_points l);
            rects = rects @ (case op_list op of None \<Rightarrow> [] | Some l \<Rightarrow> bl_rects l);
            r = (case op_trim op of None \<Rightarrow> r
                 | Some t \<Rightarrow> r\<lparr>dr_top := tb_top t, dr_left := tb_left t, dr_bottom := tb_bottom t, dr_right := tb_right t\<rparr>)
        in (records @ [r], points, rects))"

text \<open>The layout of the structures in memory, as 32-bit words; four bytes of padding follow the first three.\<close>

definition u64_words :: "u64 \<Rightarrow> u32 list" where
  "u64_words w = [ucast w, ucast (drop_bit 32 w)]"

definition warp_words :: "warp_coefficient \<Rightarrow> u32 list" where
  "warp_words k = u64_words (kr0 k) @ u64_words (kr1 k) @ u64_words (kr2 k) @ u64_words (kr3 k) @
     u64_words (kt0 k) @ u64_words (kt1 k)"

definition record_words :: "dispatch_record \<Rightarrow> u32 list" where
  "record_words r = [dr_id r, dr_optional r, dr_coefficient_count r, 0] @
     concat (map warp_words (dr_coefficients r)) @
     concat (map u64_words ([dr_cx_hat r, dr_cy_hat r] @ dr_vignette_k r @
       [dr_vignette_cx_hat r, dr_vignette_cy_hat r])) @
     [dr_constant r, dr_bayer_phase r, dr_point_offset r, dr_point_count r, dr_rect_offset r, dr_rect_count r,
      dr_top r, dr_left r, dr_bottom r, dr_right r]"

definition point_words :: "bad_point \<Rightarrow> u32 list" where
  "point_words p = [bp_row p, bp_column p]"

definition rect_words :: "bad_rect \<Rightarrow> u32 list" where
  "rect_words r = [br_top r, br_left r, br_bottom r, br_right r]"

definition block_words :: "dispatch_record list \<times> bad_point list \<times> bad_rect list \<Rightarrow> u32 list" where
  "block_words st =
     (case st of (records, points, rects) \<Rightarrow>
        [of_nat (length records), 0] @ concat (map record_words records) @ concat (map point_words points) @
        concat (map rect_words rects))"

definition pack_opcode_list_3 :: "opcode list \<Rightarrow> byte list" where
  "pack_opcode_list_3 opcodes = as_bytes (block_words (fold pack_opcode opcodes ([], [], [])))"

section \<open>Reading the block\<close>

definition lens_word :: "byte list \<Rightarrow> nat \<Rightarrow> lens_stop + u32" where
  "lens_word blob i = (case le_word blob i of Inl _ \<Rightarrow> Inl LensRead | Inr w \<Rightarrow> Inr w)"

definition lens_words :: "byte list \<Rightarrow> nat \<Rightarrow> nat \<Rightarrow> lens_stop + u32 list" where
  "lens_words blob base n = map_res (\<lambda>i. lens_word blob (base + 4 * i)) [0..<n]"

definition u64_at :: "u32 list \<Rightarrow> nat \<Rightarrow> u64" where
  "u64_at ws i = push_bit 32 (ucast (ws ! (i + 1))) OR ucast (ws ! i)"

definition coefficient_at :: "u32 list \<Rightarrow> nat \<Rightarrow> warp_coefficient" where
  "coefficient_at ws i = \<lparr>kr0 = u64_at ws i, kr1 = u64_at ws (i + 2), kr2 = u64_at ws (i + 4),
     kr3 = u64_at ws (i + 6), kt0 = u64_at ws (i + 8), kt1 = u64_at ws (i + 10)\<rparr>"

definition record_of_words :: "u32 list \<Rightarrow> dispatch_record" where
  "record_of_words ws = \<lparr>dr_id = ws ! 0, dr_optional = ws ! 1, dr_coefficient_count = ws ! 2,
     dr_coefficients = map (coefficient_at ws) [4, 16, 28, 40], dr_cx_hat = u64_at ws 52, dr_cy_hat = u64_at ws 54,
     dr_vignette_k = map (u64_at ws) [56, 58, 60, 62, 64], dr_vignette_cx_hat = u64_at ws 66,
     dr_vignette_cy_hat = u64_at ws 68, dr_constant = ws ! 70, dr_bayer_phase = ws ! 71,
     dr_point_offset = ws ! 72, dr_point_count = ws ! 73, dr_rect_offset = ws ! 74, dr_rect_count = ws ! 75,
     dr_top = ws ! 76, dr_left = ws ! 77, dr_bottom = ws ! 78, dr_right = ws ! 79\<rparr>"

definition sizeof_header :: nat where "sizeof_header = 8"
definition sizeof_record :: nat where "sizeof_record = 320"
definition sizeof_point :: nat where "sizeof_point = 8"
definition sizeof_rect :: nat where "sizeof_rect = 16"

definition record_at :: "byte list \<Rightarrow> nat \<Rightarrow> lens_stop + dispatch_record" where
  "record_at blob i =
     bind_res (lens_words blob (sizeof_header + i * sizeof_record) 80) (\<lambda>ws. Inr (record_of_words ws))"

definition point_at :: "byte list \<Rightarrow> nat \<Rightarrow> nat \<Rightarrow> lens_stop + bad_point" where
  "point_at blob base i =
     bind_res (lens_words blob (base + i * sizeof_point) 2) (\<lambda>ws. Inr \<lparr>bp_row = ws ! 0, bp_column = ws ! 1\<rparr>)"

definition rect_at :: "byte list \<Rightarrow> nat \<Rightarrow> nat \<Rightarrow> lens_stop + bad_rect" where
  "rect_at blob base i =
     bind_res (lens_words blob (base + i * sizeof_rect) 4) (\<lambda>ws.
     Inr \<lparr>br_top = ws ! 0, br_left = ws ! 1, br_bottom = ws ! 2, br_right = ws ! 3\<rparr>)"

text \<open>
  \<open>checked_param_blob\<close>: \<open>None\<close> when it returns false, otherwise the records and the offsets of the points
  and of the rectangles.
\<close>

definition record_extent :: "dispatch_record \<Rightarrow> nat \<times> nat \<Rightarrow> nat \<times> nat" where
  "record_extent r st =
     (max (fst st) (unat (dr_point_offset r) + unat (dr_point_count r)),
      max (snd st) (unat (dr_rect_offset r) + unat (dr_rect_count r)))"

definition checked_param_blob :: "byte list option \<Rightarrow> lens_stop + (dispatch_record list \<times> nat \<times> nat) option" where
  "checked_param_blob param_blob =
     (case param_blob of
        None \<Rightarrow> Inr None
      | Some blob \<Rightarrow>
          if length blob < sizeof_header then Inr None
          else
            bind_res (lens_word blob 0) (\<lambda>opcode_count.
            let records_bytes = unat opcode_count * sizeof_record
            in if length blob < sizeof_header + records_bytes then Inr None
               else
                 bind_res (map_res (record_at blob) [0..<unat opcode_count]) (\<lambda>records.
                 let (point_count, rect_count) = fold record_extent records (0, 0);
                     points_offset = sizeof_header + records_bytes;
                     rects_offset = points_offset + point_count * sizeof_point
                 in if length blob < rects_offset + rect_count * sizeof_rect then Inr None
                    else Inr (Some (records, points_offset, rects_offset)))))"

section \<open>Samples\<close>

definition pixel_offset :: "int \<Rightarrow> int \<Rightarrow> int \<Rightarrow> int \<Rightarrow> nat" where
  "pixel_offset width x y c = nat (((y * width + x) * 4 + c) mod 2 ^ 64)"

definition get_sample :: "image \<Rightarrow> nat \<Rightarrow> lens_stop + u16" where
  "get_sample img i = (if i < length img then Inr (img ! i) else Inl LensRead)"

definition put_sample :: "nat \<Rightarrow> u16 \<Rightarrow> image \<Rightarrow> lens_stop + image" where
  "put_sample i v img = (if i < length img then Inr (img[i := v]) else Inl LensRead)"

definition int_clamp :: "int \<Rightarrow> int \<Rightarrow> int \<Rightarrow> int" where
  "int_clamp v lo hi = (if v < lo then lo else if hi < v then hi else v)"

definition sample_pixel :: "image \<Rightarrow> int \<Rightarrow> int \<Rightarrow> int \<Rightarrow> int \<Rightarrow> int \<Rightarrow> lens_stop + fp" where
  "sample_pixel img width height x y c =
     bind_res (get_sample img (pixel_offset width (int_clamp x 0 (width - 1)) (int_clamp y 0 (height - 1)) c))
       (\<lambda>bits. Inr (fp_of_f16 bits))"

text \<open>Single precision operations and literals.\<close>

definition sadd where "sadd = fp_add single"
definition ssub where "ssub = fp_sub single"
definition smul where "smul = fp_mul single"

definition half_literal :: "int \<Rightarrow> fp" where
  "half_literal n = FpFin (n < 0) \<bar>n\<bar> (- 1)"

definition cubic :: "fp \<Rightarrow> fp \<Rightarrow> fp \<Rightarrow> fp \<Rightarrow> fp \<Rightarrow> fp" where
  "cubic p0 p1 p2 p3 t =
     (let a0 = sadd (ssub (sadd (smul (half_literal (- 1)) p0) (smul (half_literal 3) p1)) (smul (half_literal 3) p2))
            (smul (half_literal 1) p3);
          a1 = ssub (sadd (ssub p0 (smul (half_literal 5) p1)) (smul (half_literal 4) p2)) (smul (half_literal 1) p3);
          a2 = sadd (smul (half_literal (- 1)) p0) (smul (half_literal 1) p2)
      in sadd (smul (sadd (smul (sadd (smul a0 t) a1) t) a2) t) p1)"

text \<open>Double precision operations.\<close>

definition dadd where "dadd = fp_add double"
definition dsub where "dsub = fp_sub double"
definition dmul where "dmul = fp_mul double"
definition ddiv where "ddiv = fp_div double"

definition check_i32 :: "int \<Rightarrow> lens_stop + int" where
  "check_i32 i = (if in_int32 i then Inr i else Inl LensOverflow)"

definition lens_cast_i32 :: "fp \<Rightarrow> lens_stop + int" where
  "lens_cast_i32 x = (case fp_to_i32 x of None \<Rightarrow> Inl LensCast | Some i \<Rightarrow> Inr i)"

text \<open>One of the four rows of samples around the position.\<close>

definition cubic_row :: "image \<Rightarrow> int \<Rightarrow> int \<Rightarrow> int \<Rightarrow> int \<Rightarrow> fp \<Rightarrow> int \<Rightarrow> lens_stop + fp" where
  "cubic_row img width height ix sy tx c =
     bind_res (sample_pixel img width height (ix - 1) sy c) (\<lambda>p0.
     bind_res (sample_pixel img width height ix sy c) (\<lambda>p1.
     bind_res (sample_pixel img width height (ix + 1) sy c) (\<lambda>p2.
     bind_res (check_i32 (ix + 2)) (\<lambda>ix2.
     bind_res (sample_pixel img width height ix2 sy c) (\<lambda>p3.
     Inr (cubic p0 p1 p2 p3 tx))))))"

definition sample_bicubic :: "image \<Rightarrow> int \<Rightarrow> int \<Rightarrow> fp \<Rightarrow> fp \<Rightarrow> int \<Rightarrow> lens_stop + fp" where
  "sample_bicubic img width height x y c =
     (let x = fp_clamp x (fp_of_int 0) (fp_of_int (width - 1));
          y = fp_clamp y (fp_of_int 0) (fp_of_int (height - 1))
      in bind_res (lens_cast_i32 (fp_floor x)) (\<lambda>ix.
         bind_res (lens_cast_i32 (fp_floor y)) (\<lambda>iy.
         let tx = fp_cast single (dsub x (fp_of_int ix)); ty = fp_cast single (dsub y (fp_of_int iy))
         in bind_res (map_res (\<lambda>row. bind_res (check_i32 (iy + row)) (\<lambda>r. cubic_row img width height ix (r - 1) tx c))
              [0, 1, 2, 3]) (\<lambda>rows.
            Inr (cubic (rows ! 0) (rows ! 1) (rows ! 2) (rows ! 3) ty)))))"

definition max_corner_distance :: "fp \<Rightarrow> fp \<Rightarrow> int \<Rightarrow> int \<Rightarrow> fp" where
  "max_corner_distance cx cy width height =
     (let x1 = fp_of_int (width - 1); y1 = fp_of_int (height - 1);
          d00 = dadd (dmul cx cx) (dmul cy cy);
          d10 = dadd (dmul (dsub x1 cx) (dsub x1 cx)) (dmul cy cy);
          d01 = dadd (dmul cx cx) (dmul (dsub y1 cy) (dsub y1 cy));
          d11 = dadd (dmul (dsub x1 cx) (dsub x1 cx)) (dmul (dsub y1 cy) (dsub y1 cy))
      in fp_sqrt double (fp_max_list d00 [d10, d01, d11]))"

definition double_epsilon :: fp where
  "double_epsilon = FpFin False 1 (- 52)"

section \<open>Opcodes\<close>

text \<open>The positions of an image, row by row.\<close>

definition positions :: "int \<Rightarrow> int \<Rightarrow> (int \<times> int) list" where
  "positions width height = concat (map (\<lambda>y. map (\<lambda>x. (x, y)) [0..width - 1]) [0..height - 1])"

text \<open>The source position of a sample under the warp, from the distances to the centre.\<close>

definition warp_source :: "warp_coefficient \<Rightarrow> fp \<Rightarrow> fp \<Rightarrow> fp \<Rightarrow> fp \<Rightarrow> fp \<Rightarrow> fp \<times> fp" where
  "warp_source k cx cy m dx dy =
     (let r2 = dadd (dmul dx dx) (dmul dy dy); r4 = dmul r2 r2; r6 = dmul r4 r2; two = fp_of_int 2;
          f = dadd (dadd (dadd (fp_of_f64 (kr0 k)) (dmul (fp_of_f64 (kr1 k)) r2)) (dmul (fp_of_f64 (kr2 k)) r4))
            (dmul (fp_of_f64 (kr3 k)) r6);
          tangential_x = dadd (dmul (dmul (dmul two (fp_of_f64 (kt0 k))) dx) dy)
            (dmul (fp_of_f64 (kt1 k)) (dadd r2 (dmul (dmul two dx) dx)));
          tangential_y = dadd (dmul (fp_of_f64 (kt0 k)) (dadd r2 (dmul (dmul two dy) dy)))
            (dmul (dmul (dmul two (fp_of_f64 (kt1 k))) dx) dy)
      in (dadd cx (dmul m (dadd (dmul f dx) tangential_x)), dadd cy (dmul m (dadd (dmul f dy) tangential_y))))"

definition warp_sample ::
  "dispatch_record \<Rightarrow> image \<Rightarrow> int \<Rightarrow> int \<Rightarrow> fp \<Rightarrow> fp \<Rightarrow> fp \<Rightarrow> int \<times> int \<Rightarrow> int \<Rightarrow> image \<Rightarrow> lens_stop + image" where
  "warp_sample r src width height cx cy m pos c dst =
     (case pos of (x, y) \<Rightarrow>
        let dx = ddiv (dsub (fp_of_int x) cx) m; dy = ddiv (dsub (fp_of_int y) cy) m;
            coefficient_index = unat (min (word_of_int c) (dr_coefficient_count r - 1))
        in if coefficient_index < length (dr_coefficients r)
           then
             let (sx, sy) = warp_source (dr_coefficients r ! coefficient_index) cx cy m dx dy
             in bind_res (sample_bicubic src width height sx sy c) (\<lambda>v.
                put_sample (pixel_offset width x y c) (fp_to_f16 v) dst)
           else Inl LensRead)"

definition apply_warp :: "dispatch_record \<Rightarrow> image \<Rightarrow> int \<Rightarrow> int \<Rightarrow> lens_stop + image" where
  "apply_warp r src width height =
     (if dr_coefficient_count r = 0 \<or> width \<le> 1 \<or> height \<le> 1 then Inr src
      else
        let cx = dmul (fp_of_f64 (dr_cx_hat r)) (fp_of_int (width - 1));
            cy = dmul (fp_of_f64 (dr_cy_hat r)) (fp_of_int (height - 1));
            m = max_corner_distance cx cy width height
        in if fp_le m double_epsilon then Inr src
           else fold_res (\<lambda>pos dst. fold_res (warp_sample r src width height cx cy m pos) [0, 1, 2, 3] dst)
             (positions width height) src)"

definition vignette_gain :: "dispatch_record \<Rightarrow> fp \<Rightarrow> fp \<Rightarrow> fp \<Rightarrow> int \<times> int \<Rightarrow> fp" where
  "vignette_gain r cx cy m pos =
     (let dx = ddiv (dsub (fp_of_int (fst pos)) cx) m; dy = ddiv (dsub (fp_of_int (snd pos)) cy) m;
          r2 = dadd (dmul dx dx) (dmul dy dy); r4 = dmul r2 r2; r6 = dmul r4 r2; r8 = dmul r4 r4; r10 = dmul r8 r2
      in fold (\<lambda>(k, p) gain. dadd gain (dmul (fp_of_f64 k) p)) (zip (dr_vignette_k r) [r2, r4, r6, r8, r10])
           (fp_of_int 1))"

definition vignette_sample ::
  "fp \<Rightarrow> image \<Rightarrow> int \<Rightarrow> int \<times> int \<Rightarrow> int \<Rightarrow> image \<Rightarrow> lens_stop + image" where
  "vignette_sample gain src width pos c dst =
     (let i = pixel_offset width (fst pos) (snd pos) c
      in bind_res (get_sample src i) (\<lambda>bits.
         put_sample i (fp_to_f16 (fp_cast single (dmul (fp_of_f16 bits) gain))) dst))"

definition apply_vignette :: "dispatch_record \<Rightarrow> image \<Rightarrow> int \<Rightarrow> int \<Rightarrow> lens_stop + image" where
  "apply_vignette r src width height =
     (if width \<le> 1 \<or> height \<le> 1 then Inr src
      else
        let cx = dmul (fp_of_f64 (dr_vignette_cx_hat r)) (fp_of_int (width - 1));
            cy = dmul (fp_of_f64 (dr_vignette_cy_hat r)) (fp_of_int (height - 1));
            m = max_corner_distance cx cy width height
        in if fp_le m double_epsilon then Inr src
           else fold_res (\<lambda>pos dst.
               fold_res (vignette_sample (vignette_gain r cx cy m pos) src width pos) [0, 1, 2] dst)
             (positions width height) src)"

text \<open>The mean of the neighbours inside the image.\<close>

definition neighbours :: "int \<Rightarrow> int \<Rightarrow> int \<Rightarrow> int \<Rightarrow> (int \<times> int) list" where
  "neighbours width height x y =
     [(nx, ny) \<leftarrow> [(x - 1, y), (x + 1, y), (x, y - 1), (x, y + 1)].
        \<not> (nx < 0 \<or> nx \<ge> width \<or> ny < 0 \<or> ny \<ge> height)]"

definition patched_channel :: "image \<Rightarrow> int \<Rightarrow> int \<Rightarrow> int \<Rightarrow> int \<Rightarrow> int \<Rightarrow> lens_stop + fp" where
  "patched_channel src width height x y c =
     bind_res (fold_res (\<lambda>(nx, ny) (sum, count).
         bind_res (sample_pixel src width height nx ny c) (\<lambda>v. Inr (sadd sum v, count + 1)))
       (neighbours width height x y) (fp_of_int 0, 0 :: int)) (\<lambda>(sum, count).
     if count = 0 then sample_pixel src width height x y c
     else Inr (fp_div single sum (fp_of_int count)))"

definition patch_pixel :: "image \<Rightarrow> int \<Rightarrow> int \<Rightarrow> int \<Rightarrow> int \<Rightarrow> image \<Rightarrow> lens_stop + image" where
  "patch_pixel src width height x y dst =
     (if x < 0 \<or> x \<ge> width \<or> y < 0 \<or> y \<ge> height then Inr dst
      else fold_res (\<lambda>c dst.
          bind_res (patched_channel src width height x y c) (\<lambda>v.
          put_sample (pixel_offset width x y c) (fp_to_f16 v) dst)) [0, 1, 2] dst)"

text \<open>The literal \<open>0.0001F\<close>.\<close>

definition tolerance :: fp where
  "tolerance = fp_of_f32 0x38D1B717"

definition matches_constant :: "image \<Rightarrow> int \<Rightarrow> int \<Rightarrow> fp \<Rightarrow> int \<Rightarrow> int \<Rightarrow> lens_stop + bool" where
  "matches_constant src width height constant x y =
     fold_res (\<lambda>c patch.
         bind_res (sample_pixel src width height x y c) (\<lambda>v.
         Inr (patch \<or> fp_le (fp_abs (ssub v constant)) tolerance))) [0, 1, 2] False"

definition apply_bad_pixels_constant :: "dispatch_record \<Rightarrow> image \<Rightarrow> int \<Rightarrow> int \<Rightarrow> lens_stop + image" where
  "apply_bad_pixels_constant r src width height =
     (let constant = fp_cast single (fp_of_int (uint (dr_constant r)))
      in fold_res (\<lambda>(x, y) dst.
             bind_res (matches_constant src width height constant x y) (\<lambda>patch.
             if patch then patch_pixel src width height x y dst else Inr dst))
           (positions width height) src)"

definition patch_rect :: "image \<Rightarrow> int \<Rightarrow> int \<Rightarrow> bad_rect \<Rightarrow> image \<Rightarrow> lens_stop + image" where
  "patch_rect src width height rect dst =
     (let top = min (sint (br_top rect)) height; bottom = min (sint (br_bottom rect)) height;
          left = min (sint (br_left rect)) width; right = min (sint (br_right rect)) width
      in fold_res (\<lambda>y dst. fold_res (\<lambda>x dst. patch_pixel src width height x y dst)
             [max 0 left..max 0 right - 1] dst)
           [max 0 top..max 0 bottom - 1] dst)"

text \<open>\<open>points\<close> and \<open>rects\<close> read the arrays of the parameter block.\<close>

definition apply_bad_pixels_list ::
  "dispatch_record \<Rightarrow> image \<Rightarrow> int \<Rightarrow> int \<Rightarrow> (nat \<Rightarrow> lens_stop + bad_point) \<Rightarrow> (nat \<Rightarrow> lens_stop + bad_rect) \<Rightarrow>
     lens_stop + image" where
  "apply_bad_pixels_list r src width height points rects =
     bind_res (fold_res (\<lambda>i dst.
         bind_res (points (unat (dr_point_offset r) + i)) (\<lambda>point.
         patch_pixel src width height (sint (bp_column point)) (sint (bp_row point)) dst))
       [0..<unat (dr_point_count r)] src) (\<lambda>dst.
     fold_res (\<lambda>i dst.
         bind_res (rects (unat (dr_rect_offset r) + i)) (\<lambda>rect. patch_rect src width height rect dst))
       [0..<unat (dr_rect_count r)] dst)"

definition inside_bounds :: "dispatch_record \<Rightarrow> int \<Rightarrow> int \<Rightarrow> bool" where
  "inside_bounds r x y \<longleftrightarrow> dr_top r \<le> word_of_int y \<and> word_of_int y < dr_bottom r \<and>
     dr_left r \<le> word_of_int x \<and> word_of_int x < dr_right r"

definition apply_trim_bounds :: "dispatch_record \<Rightarrow> image \<Rightarrow> int \<Rightarrow> int \<Rightarrow> lens_stop + image" where
  "apply_trim_bounds r src width height =
     fold_res (\<lambda>(x, y) dst.
         if inside_bounds r x y then Inr dst
         else fold_res (\<lambda>c dst. put_sample (pixel_offset width x y c) (fp_to_f16 (fp_of_int 0)) dst) [0, 1, 2, 3] dst)
       (positions width height) src"

section \<open>The filter\<close>

text \<open>A 16-bit element of a buffer, least significant byte first, at an \<open>int\<close> index.\<close>

definition element_at :: "byte list \<Rightarrow> int \<Rightarrow> lens_stop + u16" where
  "element_at host i =
     (if 0 \<le> i \<and> 2 * nat i + 1 < length host
      then Inr (push_bit 8 (ucast (host ! (2 * nat i + 1))) OR ucast (host ! (2 * nat i)))
      else Inl LensRead)"

definition put_element :: "int \<Rightarrow> u16 \<Rightarrow> byte list \<Rightarrow> lens_stop + byte list" where
  "put_element i v host =
     (if 0 \<le> i \<and> 2 * nat i + 1 < length host
      then Inr (host[2 * nat i := ucast v, 2 * nat i + 1 := ucast (drop_bit 8 v)])
      else Inl LensRead)"

definition dim_at :: "halide_buffer \<Rightarrow> nat \<Rightarrow> lens_stop + halide_dimension" where
  "dim_at b i = (if i < length (hb_dims b) then Inr (hb_dims b ! i) else Inl LensRead)"

text \<open>The offset of a sample, in \<open>int\<close> arithmetic.\<close>

definition element_offset :: "halide_buffer \<Rightarrow> int \<Rightarrow> int \<Rightarrow> int \<Rightarrow> lens_stop + int" where
  "element_offset b x y c =
     bind_res (dim_at b 1) (\<lambda>d1. bind_res (check_i32 (y * hdim_stride d1)) (\<lambda>oy.
     bind_res (dim_at b 0) (\<lambda>d0. bind_res (check_i32 (x * hdim_stride d0)) (\<lambda>ox.
     bind_res (check_i32 (oy + ox)) (\<lambda>oxy.
     bind_res (dim_at b 2) (\<lambda>d2. bind_res (check_i32 (c * hdim_stride d2)) (\<lambda>oc.
     check_i32 (oxy + oc))))))))"

definition samples :: "int \<Rightarrow> int \<Rightarrow> (int \<times> int \<times> int) list" where
  "samples width height = concat (map (\<lambda>(x, y). map (\<lambda>c. (x, y, c)) [0..3]) (positions width height))"

text \<open>
  \<open>None\<close> when the shape of the buffer does not fit. The host memory of a buffer is always a list, so the
  tests for a null host pointer have no counterpart.
\<close>

definition read_image :: "halide_buffer \<Rightarrow> int \<Rightarrow> int \<Rightarrow> lens_stop + image option" where
  "read_image input width height =
     (if length (hb_dims input) \<noteq> 3 \<or> hdim_extent (hb_dims input ! 2) \<noteq> 4 then Inr None
      else
        bind_res (fold_res (\<lambda>(x, y, c) img.
            bind_res (element_offset input x y c) (\<lambda>i.
            bind_res (element_at (hb_host input) i) (\<lambda>v. put_sample (pixel_offset width x y c) v img)))
          (samples width height) (replicate (nat width * nat height * 4) 0)) (\<lambda>img. Inr (Some img)))"

definition write_image :: "image \<Rightarrow> halide_buffer \<Rightarrow> int \<Rightarrow> int \<Rightarrow> lens_stop + byte list option" where
  "write_image img out width height =
     (if length (hb_dims out) \<noteq> 3 \<or> hdim_extent (hb_dims out ! 2) \<noteq> 4 \<or> hdim_extent (hb_dims out ! 0) \<noteq> width \<or>
         hdim_extent (hb_dims out ! 1) \<noteq> height
      then Inr None
      else
        bind_res (fold_res (\<lambda>(x, y, c) host.
            bind_res (element_offset out x y c) (\<lambda>i.
            bind_res (get_sample img (pixel_offset width x y c)) (\<lambda>v. put_element i v host)))
          (samples width height) (hb_host out)) (\<lambda>host. Inr (Some host)))"

text \<open>The loop over the records; \<open>Inl\<close> inside is the status with which the filter stops.\<close>

definition apply_record ::
  "(nat \<Rightarrow> lens_stop + bad_point) \<Rightarrow> (nat \<Rightarrow> lens_stop + bad_rect) \<Rightarrow> int \<Rightarrow> int \<Rightarrow> dispatch_record \<Rightarrow> image \<Rightarrow>
     lens_stop + (status_code + image)" where
  "apply_record points rects width height r img =
     (if dr_id r = 0 then Inr (if dr_optional r = 0 then Inl Unsupported else Inr img)
      else if dr_id r = 1 then bind_res (apply_warp r img width height) (\<lambda>i. Inr (Inr i))
      else if dr_id r = 3 then bind_res (apply_vignette r img width height) (\<lambda>i. Inr (Inr i))
      else if dr_id r = 4 then bind_res (apply_bad_pixels_constant r img width height) (\<lambda>i. Inr (Inr i))
      else if dr_id r = 5 then bind_res (apply_bad_pixels_list r img width height points rects) (\<lambda>i. Inr (Inr i))
      else if dr_id r = 6 then bind_res (apply_trim_bounds r img width height) (\<lambda>i. Inr (Inr i))
      else Inr (Inl Unsupported))"

fun apply_records ::
  "(nat \<Rightarrow> lens_stop + bad_point) \<Rightarrow> (nat \<Rightarrow> lens_stop + bad_rect) \<Rightarrow> int \<Rightarrow> int \<Rightarrow> dispatch_record list \<Rightarrow> image \<Rightarrow>
     lens_stop + (status_code + image)" where
  "apply_records points rects width height [] img = Inr (Inr img)"
| "apply_records points rects width height (r # rs) img =
     bind_res (apply_record points rects width height r img) (\<lambda>res.
     case res of
       Inl status \<Rightarrow> Inr (Inl status)
     | Inr img \<Rightarrow> apply_records points rects width height rs img)"

text \<open>The status and, when it is OK, the new contents of the output.\<close>

definition lens_run ::
  "(int \<Rightarrow> int \<Rightarrow> image \<Rightarrow> lens_stop + (status_code + image)) \<Rightarrow> halide_buffer \<Rightarrow> halide_buffer \<Rightarrow>
     lens_stop + status_code \<times> byte list option" where
  "lens_run apply_all input out =
     bind_res (dim_at input 0) (\<lambda>d0. bind_res (dim_at input 1) (\<lambda>d1.
     let width = hdim_extent d0; height = hdim_extent d1
     in if width \<le> 0 \<or> height \<le> 0 then Inr (BadIndex, None)
        else
          bind_res (dim_at out 0) (\<lambda>e0.
          if hdim_extent e0 \<noteq> width then Inr (BadIndex, None)
          else
            bind_res (dim_at out 1) (\<lambda>e1.
            if hdim_extent e1 \<noteq> height then Inr (BadIndex, None)
            else
              bind_res (read_image input width height) (\<lambda>working.
              case working of
                None \<Rightarrow> Inr (BadIndex, None)
              | Some img \<Rightarrow>
                  bind_res (apply_all width height img) (\<lambda>res.
                  case res of
                    Inl status \<Rightarrow> Inr (status, None)
                  | Inr img \<Rightarrow>
                      bind_res (write_image img out width height) (\<lambda>host.
                      Inr (case host of None \<Rightarrow> (BadIndex, None) | Some h \<Rightarrow> (Ok, Some h)))))))))"

definition lens_filter ::
  "halide_buffer option list \<Rightarrow> halide_buffer option list \<Rightarrow> byte list option \<Rightarrow>
     lens_stop + status_code \<times> byte list option" where
  "lens_filter inputs outputs param_blob =
     (case (inputs, outputs) of
        ([Some input], [Some out]) \<Rightarrow>
          bind_res (checked_param_blob param_blob) (\<lambda>checked_blob.
          case (checked_blob, param_blob) of
            (Some (records, points_offset, rects_offset), Some blob) \<Rightarrow>
              lens_run (\<lambda>width height. apply_records (point_at blob points_offset) (rect_at blob rects_offset)
                width height records) input out
          | _ \<Rightarrow> Inr (BadIndex, None))
      | _ \<Rightarrow> Inr (BadIndex, None))"

section \<open>Which faults can happen\<close>

text \<open>The computation ends in one of the given faults or in a value with the property.\<close>

definition ensures_or :: "lens_stop set \<Rightarrow> ('a \<Rightarrow> bool) \<Rightarrow> lens_stop + 'a \<Rightarrow> bool" where
  "ensures_or E P m \<longleftrightarrow> (case m of Inl e \<Rightarrow> e \<in> E | Inr v \<Rightarrow> P v)"

named_theorems lens_intros \<open>rules that take a computation of the lens filter apart\<close>

lemma ensures_or_Inr [lens_intros]: "P v \<Longrightarrow> ensures_or E P (Inr v)"
  by (simp add: ensures_or_def)

lemma ensures_or_bind:
  "ensures_or E P m \<Longrightarrow> (\<And>v. P v \<Longrightarrow> ensures_or E Q (k v)) \<Longrightarrow> ensures_or E Q (bind_res m k)"
  by (cases m) (simp_all add: ensures_or_def)

lemma ensures_or_fold:
  "P s \<Longrightarrow> (\<And>x s. x \<in> set xs \<Longrightarrow> P s \<Longrightarrow> ensures_or E P (f x s)) \<Longrightarrow> ensures_or E P (fold_res f xs s)"
proof (induction xs arbitrary: s)
  case (Cons x xs)
  then show ?case by (cases "f x s") (force simp: ensures_or_def)+
qed (simp add: ensures_or_def)

lemma ensures_or_map:
  "(\<And>x. x \<in> set xs \<Longrightarrow> ensures_or E (\<lambda>_. True) (f x)) \<Longrightarrow>
     ensures_or E (\<lambda>ys. length ys = length xs) (map_res f xs)"
proof (induction xs)
  case (Cons x xs)
  then have "ensures_or E (\<lambda>ys. length ys = length xs) (map_res f xs)" "ensures_or E (\<lambda>_. True) (f x)" by simp_all
  then show ?case by (cases "f x"; cases "map_res f xs") (simp_all add: ensures_or_def)
qed (simp add: ensures_or_def)

lemma ensures_or_mono: "ensures_or E P m \<Longrightarrow> E \<subseteq> F \<Longrightarrow> (\<And>v. P v \<Longrightarrow> Q v) \<Longrightarrow> ensures_or F Q m"
  by (cases m) (auto simp: ensures_or_def)

text \<open>An image of the right size, whose offsets fit into an \<open>int\<close>.\<close>

definition image_ok :: "int \<Rightarrow> int \<Rightarrow> image \<Rightarrow> bool" where
  "image_ok width height img \<longleftrightarrow> 0 < width \<and> 0 < height \<and> width * height * 4 < 2 ^ 31 \<and>
     length img = nat (width * height * 4)"

lemma pixel_offset_eq:
  assumes "0 \<le> x" "x < width" "0 \<le> y" "y < height" "0 \<le> c" "c < 4" "width * height * 4 < 2 ^ 31"
  shows "pixel_offset width x y c = nat ((y * width + x) * 4 + c)"
    and "nat ((y * width + x) * 4 + c) < nat (width * height * 4)"
    and "0 \<le> y * width"
proof -
  have "y * width + x < (y + 1) * width" using assms by (simp add: distrib_right)
  also have "\<dots> \<le> height * width" using assms by (intro mult_right_mono) auto
  finally have b: "y * width + x < width * height" by (simp add: mult.commute)
  show nn: "0 \<le> y * width" using assms by simp
  define p q where "p = y * width + x" and "q = width * height"
  have "0 \<le> p" "p < q" "q * 4 < 2 ^ 31" using b nn assms by (simp_all add: p_def q_def)
  then have "0 \<le> p * 4 + c" "p * 4 + c < q * 4" "p * 4 + c < 2 ^ 64" using assms(5,6) by simp_all
  then show "pixel_offset width x y c = nat ((y * width + x) * 4 + c)"
    "nat ((y * width + x) * 4 + c) < nat (width * height * 4)"
    unfolding pixel_offset_def p_def q_def by simp_all
qed

lemma pixel_offset_less:
  assumes "image_ok width height img" and "0 \<le> x" "x < width" "0 \<le> y" "y < height" "0 \<le> c" "c < 4"
  shows "pixel_offset width x y c < length img"
  using pixel_offset_eq [of x width y height c] assms by (simp add: image_ok_def)

lemma int_clamp_bounds: "0 < n \<Longrightarrow> 0 \<le> int_clamp v 0 (n - 1) \<and> int_clamp v 0 (n - 1) < n"
  by (simp add: int_clamp_def)

lemma sample_pixel_ok:
  assumes "image_ok width height img" and "0 \<le> c" "c < 4"
  shows "ensures_or E (\<lambda>_. True) (sample_pixel img width height x y c)"
proof -
  have "0 < width" "0 < height" using assms(1) by (simp_all add: image_ok_def)
  then have "pixel_offset width (int_clamp x 0 (width - 1)) (int_clamp y 0 (height - 1)) c < length img"
    using pixel_offset_less [OF assms(1)] int_clamp_bounds assms(2,3) by blast
  then show ?thesis by (simp add: sample_pixel_def get_sample_def ensures_or_def)
qed

lemma put_sample_ok:
  assumes "image_ok width height dst" and "0 \<le> x" "x < width" "0 \<le> y" "y < height" "0 \<le> c" "c < 4"
  shows "ensures_or E (image_ok width height) (put_sample (pixel_offset width x y c) v dst)"
  using pixel_offset_less [OF assms] assms(1) by (simp add: put_sample_def ensures_or_def image_ok_def)

lemma set_positions: "(x, y) \<in> set (positions width height) \<longleftrightarrow> 0 \<le> x \<and> x < width \<and> 0 \<le> y \<and> y < height"
  by (force simp: positions_def)

lemma image_ok_bounds:
  assumes "image_ok width height img"
  shows "width < 2 ^ 29" and "height < 2 ^ 29"
proof -
  have w: "0 < width" "0 < height" "width * height * 4 < 2 ^ 31" using assms by (simp_all add: image_ok_def)
  have "width * 1 \<le> width * height" "1 * height \<le> width * height"
    using w(1,2) by (intro mult_left_mono mult_right_mono; simp)+
  moreover have "width * height < 2 ^ 29" using w(3) by (simp add: mult.commute)
  ultimately show "width < 2 ^ 29" "height < 2 ^ 29" by linarith+
qed

lemma check_i32_ok: "- (2 ^ 31) \<le> i \<Longrightarrow> i < 2 ^ 31 \<Longrightarrow> ensures_or E (\<lambda>j. j = i) (check_i32 i)"
  by (simp add: check_i32_def in_int32_def ensures_or_def)

lemma cast_clamped_ok:
  assumes "0 < n" and "n < 2 ^ 29"
  shows "ensures_or {LensCast} (\<lambda>i. 0 \<le> i \<and> i < n)
    (lens_cast_i32 (fp_floor (fp_clamp x (fp_of_int 0) (fp_of_int (n - 1)))))"
  using clamped_index [of n x] assms by (simp add: lens_cast_i32_def ensures_or_def split: option.splits)

lemma cubic_row_ok:
  assumes "image_ok width height img" and "0 \<le> c" "c < 4" and "0 \<le> ix" "ix < width"
  shows "ensures_or E (\<lambda>_. True) (cubic_row img width height ix sy tx c)"
proof -
  note sample = sample_pixel_ok [OF assms(1-3)]
  have i: "ensures_or E (\<lambda>j. j = ix + 2) (check_i32 (ix + 2))"
    using image_ok_bounds [OF assms(1)] assms(4,5) by (intro check_i32_ok) simp_all
  show ?thesis unfolding cubic_row_def
    by (rule ensures_or_bind [OF sample], rule ensures_or_bind [OF sample], rule ensures_or_bind [OF sample],
        rule ensures_or_bind [OF i], rule ensures_or_bind [OF sample], rule ensures_or_Inr) simp
qed

lemma sample_bicubic_ok:
  assumes "image_ok width height img" and "0 \<le> c" "c < 4"
  shows "ensures_or {LensCast} (\<lambda>_. True) (sample_bicubic img width height x y c)"
proof -
  have b: "0 < width" "0 < height" "width < 2 ^ 29" "height < 2 ^ 29"
    using assms(1) image_ok_bounds [OF assms(1)] by (simp_all add: image_ok_def)
  have row: "ensures_or {LensCast} (\<lambda>_. True)
      (bind_res (check_i32 (iy + row)) (\<lambda>r. cubic_row img width height ix (r - 1) tx c))"
    if "0 \<le> ix" "ix < width" "0 \<le> iy" "iy < height" "row \<in> set [0, 1, 2, 3]" for ix iy row tx
    by (rule ensures_or_bind [OF check_i32_ok cubic_row_ok [OF assms]]) (use that b in auto)
  show ?thesis unfolding sample_bicubic_def Let_def
  proof (rule ensures_or_bind [OF cast_clamped_ok [OF b(1,3)]], rule ensures_or_bind [OF cast_clamped_ok [OF b(2,4)]])
    fix ix iy assume "0 \<le> ix \<and> ix < width" and "0 \<le> iy \<and> iy < height"
    with row have "ensures_or {LensCast} (\<lambda>ys. length ys = length [0, 1, 2, 3 :: int])
        (map_res (\<lambda>row. bind_res (check_i32 (iy + row)) (\<lambda>r. cubic_row img width height ix (r - 1) tx c)) [0, 1, 2, 3])"
      for tx by (intro ensures_or_map) blast
    then show "ensures_or {LensCast} (\<lambda>_. True) (bind_res (map_res (\<lambda>row. bind_res (check_i32 (iy + row))
        (\<lambda>r. cubic_row img width height ix (r - 1) (fp_cast single (dsub
          (fp_clamp x (fp_of_int 0) (fp_of_int (width - 1))) (fp_of_int ix))) c)) [0, 1, 2, 3])
        (\<lambda>rows. Inr (cubic (rows ! 0) (rows ! 1) (rows ! 2) (rows ! 3) (fp_cast single (dsub
          (fp_clamp y (fp_of_int 0) (fp_of_int (height - 1))) (fp_of_int iy))))))"
      by (rule ensures_or_bind) (simp add: ensures_or_Inr)
  qed
qed

lemma warp_sample_ok:
  assumes "image_ok width height src" "image_ok width height dst" and "(x, y) \<in> set (positions width height)"
    and "0 \<le> c" "c < 4" and "length (dr_coefficients r) = 4"
  shows "ensures_or {LensCast} (image_ok width height) (warp_sample r src width height cx cy m (x, y) c dst)"
proof -
  have "unat (min (word_of_int c) (dr_coefficient_count r - 1)) \<le> unat (word_of_int c :: u32)"
    by (simp add: min_def word_le_nat_alt)
  also have "\<dots> < 4"
  proof -
    from assms(4,5) have "c = 0 \<or> c = 1 \<or> c = 2 \<or> c = 3" by auto
    then show ?thesis by (elim disjE) simp_all
  qed
  finally show ?thesis
    using assms(3) unfolding warp_sample_def Let_def set_positions
    by (auto simp: assms(6) split: prod.split
        intro!: ensures_or_bind [OF sample_bicubic_ok [OF assms(1,4,5)]] put_sample_ok [OF assms(2) _ _ _ _ assms(4,5)])
qed

text \<open>A loop over all positions and some channels that writes one sample at a time keeps the image.\<close>

lemma channel_loops_ok:
  assumes "image_ok width height src"
    and "\<And>x y c dst. (x, y) \<in> set (positions width height) \<Longrightarrow> c \<in> set cs \<Longrightarrow> image_ok width height dst \<Longrightarrow>
      ensures_or E (image_ok width height) (f (x, y) c dst)"
  shows "ensures_or E (image_ok width height)
    (fold_res (\<lambda>pos dst. fold_res (f pos) cs dst) (positions width height) src)"
  using assms by (intro ensures_or_fold) auto

lemma apply_warp_ok:
  assumes "image_ok width height src" and "length (dr_coefficients r) = 4"
  shows "ensures_or {LensCast} (image_ok width height) (apply_warp r src width height)"
  unfolding apply_warp_def Let_def
  using assms by (auto intro!: ensures_or_Inr channel_loops_ok warp_sample_ok)

lemma vignette_sample_ok:
  assumes "image_ok width height src" "image_ok width height dst" and "(x, y) \<in> set (positions width height)"
    and "0 \<le> c" "c < 4"
  shows "ensures_or E (image_ok width height) (vignette_sample gain src width (x, y) c dst)"
  using pixel_offset_less [OF assms(1)] assms put_sample_ok [OF assms(2)]
  by (auto simp: vignette_sample_def Let_def get_sample_def set_positions)

lemma apply_vignette_ok:
  assumes "image_ok width height src"
  shows "ensures_or E (image_ok width height) (apply_vignette r src width height)"
  unfolding apply_vignette_def Let_def
  using assms by (auto intro!: ensures_or_Inr channel_loops_ok vignette_sample_ok)

lemma patched_channel_ok:
  assumes "image_ok width height src" and "0 \<le> c" "c < 4"
  shows "ensures_or E (\<lambda>_. True) (patched_channel src width height x y c)"
  unfolding patched_channel_def
  by (intro ensures_or_bind [OF ensures_or_fold [where P = "\<lambda>_. True"]])
     (auto intro!: ensures_or_bind [OF sample_pixel_ok [OF assms]] ensures_or_Inr sample_pixel_ok [OF assms]
       split: prod.split)

lemma patch_pixel_ok:
  assumes "image_ok width height src" and "image_ok width height dst"
  shows "ensures_or E (image_ok width height) (patch_pixel src width height x y dst)"
  unfolding patch_pixel_def
  using assms
  by (auto simp del: fold_res.simps intro!: ensures_or_Inr ensures_or_fold [where P = "image_ok width height"] put_sample_ok
      ensures_or_bind [OF patched_channel_ok [OF assms(1)]])

lemma matches_constant_ok:
  assumes "image_ok width height src"
  shows "ensures_or E (\<lambda>_. True) (matches_constant src width height constant x y)"
  unfolding matches_constant_def
  by (intro ensures_or_fold) (auto intro!: ensures_or_bind [OF sample_pixel_ok [OF assms]] ensures_or_Inr)

lemma apply_bad_pixels_constant_ok:
  assumes "image_ok width height src"
  shows "ensures_or E (image_ok width height) (apply_bad_pixels_constant r src width height)"
  unfolding apply_bad_pixels_constant_def Let_def
  using assms
  by (intro ensures_or_fold)
     (auto intro!: ensures_or_bind [OF matches_constant_ok] patch_pixel_ok ensures_or_Inr)

lemma patch_rect_ok:
  assumes "image_ok width height src" and "image_ok width height dst"
  shows "ensures_or E (image_ok width height) (patch_rect src width height rect dst)"
  unfolding patch_rect_def Let_def using assms by (intro ensures_or_fold patch_pixel_ok)

lemma apply_bad_pixels_list_ok:
  assumes "image_ok width height src"
    and "\<And>i. i < unat (dr_point_offset r) + unat (dr_point_count r) \<Longrightarrow> ensures_or E (\<lambda>_. True) (points i)"
    and "\<And>i. i < unat (dr_rect_offset r) + unat (dr_rect_count r) \<Longrightarrow> ensures_or E (\<lambda>_. True) (rects i)"
  shows "ensures_or E (image_ok width height) (apply_bad_pixels_list r src width height points rects)"
  unfolding apply_bad_pixels_list_def
  using assms(1)
  by (intro ensures_or_bind [where P = "image_ok width height"] ensures_or_fold)
     (auto intro!: ensures_or_bind [OF assms(2)] ensures_or_bind [OF assms(3)] patch_pixel_ok patch_rect_ok)

lemma apply_trim_bounds_ok:
  assumes "image_ok width height src"
  shows "ensures_or E (image_ok width height) (apply_trim_bounds r src width height)"
  unfolding apply_trim_bounds_def
  using assms
  by (intro ensures_or_fold)
     (auto simp: set_positions simp del: fold_res.simps intro!: ensures_or_Inr ensures_or_fold [where P = "image_ok width height"] put_sample_ok)

section \<open>The block and the buffers are read inside their bounds\<close>

lemma lens_word_ok: "i + 4 \<le> length blob \<Longrightarrow> ensures_or E (\<lambda>_. True) (lens_word blob i)"
  by (simp add: lens_word_def le_word_def byte_at_def ensures_or_def)

lemma lens_words_ok:
  "base + 4 * n \<le> length blob \<Longrightarrow> ensures_or E (\<lambda>ws. length ws = n) (lens_words blob base n)"
  unfolding lens_words_def
  by (rule ensures_or_mono [OF ensures_or_map]) (auto intro!: lens_word_ok)

lemma record_at_ok:
  "sizeof_header + (i + 1) * sizeof_record \<le> length blob \<Longrightarrow>
     ensures_or E (\<lambda>r. length (dr_coefficients r) = 4) (record_at blob i)"
  unfolding record_at_def
  by (rule ensures_or_bind [OF lens_words_ok])
     (auto simp: sizeof_header_def sizeof_record_def record_of_words_def intro!: ensures_or_Inr)

lemma point_at_ok: "base + (i + 1) * sizeof_point \<le> length blob \<Longrightarrow> ensures_or E (\<lambda>_. True) (point_at blob base i)"
  unfolding point_at_def
  by (rule ensures_or_bind [OF lens_words_ok]) (auto simp: sizeof_point_def intro!: ensures_or_Inr)

lemma rect_at_ok: "base + (i + 1) * sizeof_rect \<le> length blob \<Longrightarrow> ensures_or E (\<lambda>_. True) (rect_at blob base i)"
  unfolding rect_at_def
  by (rule ensures_or_bind [OF lens_words_ok]) (auto simp: sizeof_rect_def intro!: ensures_or_Inr)

lemma record_extent_bounds:
  "fst st \<le> fst (fold record_extent rs st) \<and> snd st \<le> snd (fold record_extent rs st) \<and>
   (\<forall>r \<in> set rs. unat (dr_point_offset r) + unat (dr_point_count r) \<le> fst (fold record_extent rs st) \<and>
     unat (dr_rect_offset r) + unat (dr_rect_count r) \<le> snd (fold record_extent rs st))"
proof (induction rs arbitrary: st)
  case (Cons r rs)
  from Cons [of "record_extent r st"] show ?case by (auto simp: record_extent_def)
qed simp

text \<open>What a block that was accepted guarantees.\<close>

definition block_ok :: "byte list \<Rightarrow> dispatch_record list \<times> nat \<times> nat \<Rightarrow> bool" where
  "block_ok blob res \<longleftrightarrow> (case res of (records, points_offset, rects_offset) \<Rightarrow>
     \<forall>r \<in> set records. length (dr_coefficients r) = 4 \<and>
       points_offset + (unat (dr_point_offset r) + unat (dr_point_count r)) * sizeof_point \<le> length blob \<and>
       rects_offset + (unat (dr_rect_offset r) + unat (dr_rect_count r)) * sizeof_rect \<le> length blob)"

lemma ensures_or_map_all:
  "(\<And>x. x \<in> set xs \<Longrightarrow> ensures_or E P (f x)) \<Longrightarrow> ensures_or E (list_all P) (map_res f xs)"
proof (induction xs)
  case (Cons x xs)
  then have "ensures_or E (list_all P) (map_res f xs)" "ensures_or E P (f x)" by simp_all
  then show ?case by (cases "f x"; cases "map_res f xs") (simp_all add: ensures_or_def)
qed (simp add: ensures_or_def)

lemma checked_param_blob_ok:
  "ensures_or E (pred_option (block_ok blob)) (checked_param_blob (Some blob))"
proof (cases "length blob < sizeof_header")
  case False
  then have h: "ensures_or E (\<lambda>_. True) (lens_word blob 0)" by (intro lens_word_ok) (simp add: sizeof_header_def)
  have *: "ensures_or E (pred_option (block_ok blob))
      (bind_res (map_res (record_at blob) [0..<n]) (\<lambda>records.
        let (point_count, rect_count) = fold record_extent records (0, 0);
          points_offset = sizeof_header + n * sizeof_record;
          rects_offset = points_offset + point_count * sizeof_point
        in if length blob < rects_offset + rect_count * sizeof_rect then Inr None
          else Inr (Some (records, points_offset, rects_offset))))"
    if n: "\<not> length blob < sizeof_header + n * sizeof_record" for n
  proof (rule ensures_or_bind)
    have "sizeof_header + (i + 1) * sizeof_record \<le> length blob" if "i \<in> set [0..<n]" for i
    proof -
      have "(i + 1) * sizeof_record \<le> n * sizeof_record" using that by (intro mult_right_mono) simp_all
      with n show ?thesis by simp
    qed
    then show "ensures_or E (list_all (\<lambda>r. length (dr_coefficients r) = 4)) (map_res (record_at blob) [0..<n])"
      by (intro ensures_or_map_all record_at_ok)
  next
    fix records :: "dispatch_record list"
    assume l: "list_all (\<lambda>r. length (dr_coefficients r) = 4) records"
    obtain pc rc where ext: "fold record_extent records (0, 0) = (pc, rc)" by fastforce
    have "block_ok blob (records, po, po + pc * sizeof_point)"
      if "po + pc * sizeof_point + rc * sizeof_rect \<le> length blob" for po
      unfolding block_ok_def prod.case
    proof
      fix r assume r: "r \<in> set records"
      with record_extent_bounds [of "(0, 0)" records] ext
      have "unat (dr_point_offset r) + unat (dr_point_count r) \<le> pc"
        "unat (dr_rect_offset r) + unat (dr_rect_count r) \<le> rc" by auto
      then have "(unat (dr_point_offset r) + unat (dr_point_count r)) * sizeof_point \<le> pc * sizeof_point"
        "(unat (dr_rect_offset r) + unat (dr_rect_count r)) * sizeof_rect \<le> rc * sizeof_rect"
        by (simp_all only: mult_right_mono)
      with that r l show "length (dr_coefficients r) = 4 \<and>
          po + (unat (dr_point_offset r) + unat (dr_point_count r)) * sizeof_point \<le> length blob \<and>
          po + pc * sizeof_point + (unat (dr_rect_offset r) + unat (dr_rect_count r)) * sizeof_rect \<le> length blob"
        by (simp only: list_all_iff) linarith
    qed
    then show "ensures_or E (pred_option (block_ok blob))
        (let (point_count, rect_count) = fold record_extent records (0, 0);
          points_offset = sizeof_header + n * sizeof_record;
          rects_offset = points_offset + point_count * sizeof_point
        in if length blob < rects_offset + rect_count * sizeof_rect then Inr None
          else Inr (Some (records, points_offset, rects_offset)))"
      by (simp add: ensures_or_def ext Let_def)
  qed
  from False show ?thesis unfolding checked_param_blob_def Let_def
    by (auto intro!: ensures_or_bind [OF h] ensures_or_Inr * [unfolded Let_def])
qed (simp add: checked_param_blob_def ensures_or_def)

text \<open>The view of a dense image with four channels of 16 bits.\<close>

definition dense_view :: "int \<Rightarrow> int \<Rightarrow> halide_buffer \<Rightarrow> bool" where
  "dense_view width height b \<longleftrightarrow> hb_dims b = [\<lparr>hdim_min = 0, hdim_extent = width, hdim_stride = 4\<rparr>,
      \<lparr>hdim_min = 0, hdim_extent = height, hdim_stride = 4 * width\<rparr>,
      \<lparr>hdim_min = 0, hdim_extent = 4, hdim_stride = 1\<rparr>] \<and> 8 * width * height \<le> int (length (hb_host b))"

lemma element_offset_dense:
  assumes "dense_view width height b" and "width * height * 4 < 2 ^ 31"
    and "0 \<le> x" "x < width" "0 \<le> y" "y < height" "0 \<le> c" "c < 4"
  shows "element_offset b x y c = Inr ((y * width + x) * 4 + c)"
proof -
  define p where "p = y * width"
  have "0 \<le> p" using assms(3-6) by (simp add: p_def)
  have "nat ((p + x) * 4 + c) < nat (width * height * 4)"
    using pixel_offset_eq(2) [of x width y height c] assms by (simp add: p_def)
  then have "(p + x) * 4 + c < 2 ^ 31" using assms(2) by linarith
  with \<open>0 \<le> p\<close> assms(3,7) have "in_int32 (p * 4)" "in_int32 (x * 4)" "in_int32 (p * 4 + x * 4)" "in_int32 c"
    "in_int32 (p * 4 + x * 4 + c)"
    by (simp_all add: in_int32_def)
  then show ?thesis using assms(1)
    by (simp add: element_offset_def dense_view_def dim_at_def check_i32_def p_def algebra_simps)
qed

lemma element_in_host:
  assumes "dense_view width height b" and "width * height * 4 < 2 ^ 31"
    and "0 \<le> x" "x < width" "0 \<le> y" "y < height" "0 \<le> c" "c < 4"
  shows "2 * nat ((y * width + x) * 4 + c) + 1 < length (hb_host b)"
proof -
  define q where "q = width * height"
  have "nat ((y * width + x) * 4 + c) < nat (q * 4)"
    using pixel_offset_eq(2) [of x width y height c] assms by (simp add: q_def)
  moreover have "8 * q \<le> int (length (hb_host b))" using assms(1) by (simp add: dense_view_def q_def mult.assoc)
  ultimately show ?thesis by linarith
qed

lemma set_samples:
  "(x, y, c) \<in> set (samples width height) \<longleftrightarrow> 0 \<le> x \<and> x < width \<and> 0 \<le> y \<and> y < height \<and> 0 \<le> c \<and> c < 4"
proof -
  have "(x, y, c) \<in> set (samples width height) \<longleftrightarrow> (x, y) \<in> set (positions width height) \<and> c \<in> {0..3}"
    unfolding samples_def by force
  then show ?thesis by (auto simp: set_positions)
qed

lemma read_image_ok:
  assumes "dense_view width height b" and "width * height * 4 < 2 ^ 31" and "0 < width" "0 < height"
  shows "ensures_or E (\<lambda>r. \<exists>img. r = Some img \<and> image_ok width height img) (read_image b width height)"
proof -
  have start: "image_ok width height (replicate (nat width * nat height * 4) 0)"
    using assms(2-4) by (simp add: image_ok_def nat_mult_distrib)
  have shape: "length (hb_dims b) = 3" "hdim_extent (hb_dims b ! 2) = 4"
    using assms(1) by (simp_all add: dense_view_def)
  have "ensures_or E (image_ok width height) (fold_res (\<lambda>(x, y, c) img.
      bind_res (element_offset b x y c) (\<lambda>i.
      bind_res (element_at (hb_host b) i) (\<lambda>v. put_sample (pixel_offset width x y c) v img)))
      (samples width height) (replicate (nat width * nat height * 4) 0))"
    using element_in_host [OF assms(1,2)] pixel_offset_eq(3) [of _ width _ height _] assms(2)
    by (intro ensures_or_fold [where P = "image_ok width height"] start)
       (auto simp: set_samples element_offset_dense [OF assms(1,2)] element_at_def intro!: put_sample_ok)
  then show ?thesis unfolding read_image_def by (simp add: shape) (erule ensures_or_bind, simp add: ensures_or_Inr)
qed

lemma write_image_ok:
  assumes "dense_view width height b" and "width * height * 4 < 2 ^ 31" and "image_ok width height img"
  shows "ensures_or E (\<lambda>_. True) (write_image img b width height)"
proof -
  have "ensures_or E (\<lambda>host. length host = length (hb_host b)) (fold_res (\<lambda>(x, y, c) host.
      bind_res (element_offset b x y c) (\<lambda>i.
      bind_res (get_sample img (pixel_offset width x y c)) (\<lambda>v. put_element i v host)))
      (samples width height) (hb_host b))"
    using element_in_host [OF assms(1,2)] pixel_offset_less [OF assms(3)] pixel_offset_eq(3) [of _ width _ height _] assms(2)
    by (intro ensures_or_fold)
       (auto simp: set_samples element_offset_dense [OF assms(1,2)] get_sample_def put_element_def intro!: ensures_or_Inr)
  then show ?thesis unfolding write_image_def
    by (auto intro!: ensures_or_Inr elim!: ensures_or_bind)
qed

text \<open>Only a warp can end in a cast.\<close>

definition warp_faults :: "dispatch_record list \<Rightarrow> lens_stop set" where
  "warp_faults records = (if \<exists>r \<in> set records. dr_id r = 1 then {LensCast} else {})"

definition image_or_status :: "int \<Rightarrow> int \<Rightarrow> status_code + image \<Rightarrow> bool" where
  "image_or_status width height res \<longleftrightarrow> (case res of Inl _ \<Rightarrow> True | Inr img \<Rightarrow> image_ok width height img)"

lemma apply_record_ok:
  assumes "image_ok width height img" and "length (dr_coefficients r) = 4"
    and "points_offset + (unat (dr_point_offset r) + unat (dr_point_count r)) * sizeof_point \<le> length blob"
    and "rects_offset + (unat (dr_rect_offset r) + unat (dr_rect_count r)) * sizeof_rect \<le> length blob"
  shows "ensures_or (warp_faults [r]) (image_or_status width height)
    (apply_record (point_at blob points_offset) (rect_at blob rects_offset) width height r img)"
proof -
  have lift: "ensures_or E (image_or_status width height) (bind_res m (\<lambda>i. Inr (Inr i)))"
    if "ensures_or E (image_ok width height) m" for E m
    by (rule ensures_or_bind [OF that]) (simp add: ensures_or_Inr image_or_status_def)
  have p: "ensures_or E (\<lambda>_. True) (point_at blob points_offset i)"
    if "i < unat (dr_point_offset r) + unat (dr_point_count r)" for E i
  proof (rule point_at_ok)
    have "(i + 1) * sizeof_point \<le> (unat (dr_point_offset r) + unat (dr_point_count r)) * sizeof_point"
      using that by (intro mult_right_mono) simp_all
    with assms(3) show "points_offset + (i + 1) * sizeof_point \<le> length blob" by linarith
  qed
  have q: "ensures_or E (\<lambda>_. True) (rect_at blob rects_offset i)"
    if "i < unat (dr_rect_offset r) + unat (dr_rect_count r)" for E i
  proof (rule rect_at_ok)
    have "(i + 1) * sizeof_rect \<le> (unat (dr_rect_offset r) + unat (dr_rect_count r)) * sizeof_rect"
      using that by (intro mult_right_mono) simp_all
    with assms(4) show "rects_offset + (i + 1) * sizeof_rect \<le> length blob" by linarith
  qed
  have "ensures_or {LensCast} (image_ok width height) (apply_warp r img width height)"
    using apply_warp_ok [OF assms(1,2)] .
  then show ?thesis unfolding apply_record_def warp_faults_def
    using assms(1)
    by (auto simp: image_or_status_def [of _ _ "Inl _"] image_or_status_def [of _ _ "Inr _"]
        intro!: lift ensures_or_Inr apply_vignette_ok apply_bad_pixels_constant_ok apply_trim_bounds_ok
          apply_bad_pixels_list_ok p q)
qed

lemma apply_records_ok:
  assumes "block_ok blob (records, points_offset, rects_offset)" and "image_ok width height img"
  shows "ensures_or (warp_faults records) (image_or_status width height)
    (apply_records (point_at blob points_offset) (rect_at blob rects_offset) width height records img)"
  using assms
proof (induction records arbitrary: img)
  case (Cons r records)
  have sub: "warp_faults [r] \<subseteq> warp_faults (r # records)" "warp_faults records \<subseteq> warp_faults (r # records)"
    by (simp_all add: warp_faults_def)
  have one: "ensures_or (warp_faults (r # records)) (image_or_status width height)
      (apply_record (point_at blob points_offset) (rect_at blob rects_offset) width height r img)"
    using Cons.prems by (intro ensures_or_mono [OF apply_record_ok sub(1)]) (simp_all add: block_ok_def)
  have rest: "block_ok blob (records, points_offset, rects_offset)" using Cons.prems(1) by (simp add: block_ok_def)
  show ?case unfolding apply_records.simps
  proof (rule ensures_or_bind [OF one])
    fix res :: "status_code + image" assume "image_or_status width height res"
    then show "ensures_or (warp_faults (r # records)) (image_or_status width height)
      (case res of Inl status \<Rightarrow> Inr (Inl status)
       | Inr img \<Rightarrow> apply_records (point_at blob points_offset) (rect_at blob rects_offset) width height records img)"
      using ensures_or_mono [OF Cons.IH [OF rest] sub(2)]
      by (cases res) (auto simp: image_or_status_def [of _ _ "Inl _"] image_or_status_def [of _ _ "Inr _"] intro!: ensures_or_Inr)
  qed
qed (simp add: ensures_or_Inr image_or_status_def)

lemma lens_run_ok:
  assumes "dense_view width height input" "dense_view width height out" and "width * height * 4 < 2 ^ 31"
    and "\<And>img. image_ok width height img \<Longrightarrow> ensures_or E (image_or_status width height) (f width height img)"
  shows "ensures_or E (\<lambda>_. True) (lens_run f input out)"
proof -
  have d: "dim_at input 0 = Inr \<lparr>hdim_min = 0, hdim_extent = width, hdim_stride = 4\<rparr>"
    "dim_at input 1 = Inr \<lparr>hdim_min = 0, hdim_extent = height, hdim_stride = 4 * width\<rparr>"
    "dim_at out 0 = Inr \<lparr>hdim_min = 0, hdim_extent = width, hdim_stride = 4\<rparr>"
    "dim_at out 1 = Inr \<lparr>hdim_min = 0, hdim_extent = height, hdim_stride = 4 * width\<rparr>"
    using assms(1,2) by (simp_all add: dense_view_def dim_at_def)
  have "ensures_or E (\<lambda>_. True) (bind_res (read_image input width height) (\<lambda>working.
      case working of None \<Rightarrow> Inr (BadIndex, None)
      | Some img \<Rightarrow> bind_res (f width height img) (\<lambda>res. case res of Inl status \<Rightarrow> Inr (status, None)
          | Inr img \<Rightarrow> bind_res (write_image img out width height) (\<lambda>host.
              Inr (case host of None \<Rightarrow> (BadIndex, None) | Some h \<Rightarrow> (Ok, Some h))))))"
    if "0 < width" "0 < height"
  proof (rule ensures_or_bind [OF read_image_ok [OF assms(1,3) that]], elim exE conjE, simp)
    fix img assume "image_ok width height img"
    from assms(4) [OF this]
    show "ensures_or E (\<lambda>_. True) (bind_res (f width height img) (\<lambda>res. case res of Inl status \<Rightarrow> Inr (status, None)
          | Inr img \<Rightarrow> bind_res (write_image img out width height) (\<lambda>host.
              Inr (case host of None \<Rightarrow> (BadIndex, None) | Some h \<Rightarrow> (Ok, Some h)))))"
    proof (rule ensures_or_bind)
      fix res assume "image_or_status width height res"
      then show "ensures_or E (\<lambda>_. True) (case res of Inl status \<Rightarrow> Inr (status, None)
          | Inr img \<Rightarrow> bind_res (write_image img out width height) (\<lambda>host.
              Inr (case host of None \<Rightarrow> (BadIndex, None) | Some h \<Rightarrow> (Ok, Some h))))"
        by (cases res) (auto simp: image_or_status_def intro!: ensures_or_Inr ensures_or_bind [OF write_image_ok [OF assms(2,3)]])
    qed
  qed
  then show ?thesis unfolding lens_run_def by (auto simp: d d [unfolded One_nat_def] Let_def intro!: ensures_or_Inr)
qed

section \<open>Properties\<close>

text \<open>
  C31: on dense images whose offsets fit into an \<open>int\<close> the lens filter never reads or writes outside the
  images or the parameter block and never overflows, whatever the bytes of the block are. The only
  thing that can go wrong is the cast of a position to \<open>int\<close>, and only when the block has a warp opcode.
\<close>

theorem lens_filter_safe:
  assumes "dense_view width height input" and "dense_view width height out" and "width * height * 4 < 2 ^ 31"
  shows "case lens_filter [Some input] [Some out] (Some blob) of
      Inr _ \<Rightarrow> True
    | Inl e \<Rightarrow> e = LensCast \<and> (\<exists>records points_offset rects_offset.
        checked_param_blob (Some blob) = Inr (Some (records, points_offset, rects_offset)) \<and>
        (\<exists>r \<in> set records. dr_id r = 1))"
proof (cases "checked_param_blob (Some blob)")
  case (Inl f)
  with checked_param_blob_ok [of "{}" blob] show ?thesis by (simp add: ensures_or_def)
next
  case (Inr res)
  show ?thesis
  proof (cases res)
    case None
    with Inr show ?thesis by (simp add: lens_filter_def)
  next
    case (Some block)
    obtain records po ro where block: "block = (records, po, ro)" by (cases block)
    from checked_param_blob_ok [of "{}" blob] have "block_ok blob (records, po, ro)"
      by (simp add: Inr Some block ensures_or_def)
    then have "ensures_or (warp_faults records) (\<lambda>_. True) (lens_run (\<lambda>width height.
        apply_records (point_at blob po) (rect_at blob ro) width height records) input out)"
      by (intro lens_run_ok [OF assms] apply_records_ok)
    then show ?thesis using Inr Some block
      by (auto simp: lens_filter_def ensures_or_def warp_faults_def split: sum.split if_splits)
  qed
qed

text \<open>The buffer of a one by one image, for the witnesses.\<close>

definition one_pixel :: halide_buffer where
  "one_pixel = \<lparr>hb_host = [0, 0x3C, 0, 0x3C, 0, 0x3C, 0, 0x3C], hb_type = (HalideFloat, 16), hb_host_dirty = False,
     hb_dims = [\<lparr>hdim_min = 0, hdim_extent = 1, hdim_stride = 4\<rparr>, \<lparr>hdim_min = 0, hdim_extent = 1, hdim_stride = 4\<rparr>,
       \<lparr>hdim_min = 0, hdim_extent = 4, hdim_stride = 1\<rparr>]\<rparr>"

theorem lens_filter_safe_witness:
  "dense_view 1 1 one_pixel \<and>
   (case lens_filter [Some one_pixel] [Some one_pixel] (Some (pack_opcode_list_3 [])) of
      Inr _ \<Rightarrow> True
    | Inl e \<Rightarrow> e = LensCast \<and> (\<exists>records points_offset rects_offset.
        checked_param_blob (Some (pack_opcode_list_3 [])) = Inr (Some (records, points_offset, rects_offset)) \<and>
        (\<exists>r \<in> set records. dr_id r = 1)))"
proof
  show "dense_view 1 1 one_pixel" by (simp add: dense_view_def one_pixel_def)
  then show "case lens_filter [Some one_pixel] [Some one_pixel] (Some (pack_opcode_list_3 [])) of
      Inr _ \<Rightarrow> True
    | Inl e \<Rightarrow> e = LensCast \<and> (\<exists>records points_offset rects_offset.
        checked_param_blob (Some (pack_opcode_list_3 [])) = Inr (Some (records, points_offset, rects_offset)) \<and>
        (\<exists>r \<in> set records. dr_id r = 1))"
    using lens_filter_safe [of 1 1 one_pixel one_pixel "pack_opcode_list_3 []"] by simp
qed

end
