(* ===== verification/Lens_Pack.thy ===== *)
theory Lens_Pack
  imports Lens_Opcode3
begin

text \<open>
  The two sides of the lens correction node together: what the filter does with a block the node packed.
  The reference is \<open>apply_opcodes\<close>, which applies the parsed opcodes directly: it is written over the
  parameters of the opcodes and does not mention the records of the parameter block.
\<close>

unbundle bit_operations_syntax

section \<open>Packing and reading back\<close>

text \<open>The record of an opcode, apart from the places of its points and rectangles.\<close>

definition opcode_points :: "opcode \<Rightarrow> bad_point list" where
  "opcode_points op = (case op_list op of None \<Rightarrow> [] | Some l \<Rightarrow> bl_points l)"

definition opcode_rects :: "opcode \<Rightarrow> bad_rect list" where
  "opcode_rects op = (case op_list op of None \<Rightarrow> [] | Some l \<Rightarrow> bl_rects l)"

definition located :: "nat \<Rightarrow> nat \<Rightarrow> opcode \<Rightarrow> dispatch_record" where
  "located p q op =
     hd (fst (pack_opcode op ([], replicate p \<lparr>bp_row = 0, bp_column = 0\<rparr>,
       replicate q \<lparr>br_top = 0, br_left = 0, br_bottom = 0, br_right = 0\<rparr>)))"

lemma pack_opcode_located:
  "pack_opcode op (records, points, rects) =
     (records @ [located (length points) (length rects) op], points @ opcode_points op, rects @ opcode_rects op)"
  by (simp add: located_def pack_opcode_def opcode_points_def opcode_rects_def Let_def split: option.split)

fun locate_all :: "nat \<Rightarrow> nat \<Rightarrow> opcode list \<Rightarrow> dispatch_record list" where
  "locate_all p q [] = []"
| "locate_all p q (op # ops) =
     located p q op # locate_all (p + length (opcode_points op)) (q + length (opcode_rects op)) ops"

lemma fold_pack_opcode:
  "fold pack_opcode ops (records, points, rects) =
     (records @ locate_all (length points) (length rects) ops, points @ concat (map opcode_points ops),
      rects @ concat (map opcode_rects ops))"
  by (induction ops arbitrary: records points rects) (simp_all add: pack_opcode_located)

text \<open>
  The parameters of the kind of an opcode are present and fit into the record; the parser accepts no
  other opcode.
\<close>

definition opcode_fits :: "opcode \<Rightarrow> bool" where
  "opcode_fits op \<longleftrightarrow> (\<forall>v. op_vignette op = Some v \<longrightarrow> length (vr_k v) = 5) \<and>
     (case op_id op of
        Unknown \<Rightarrow> True
      | WarpRectilinear \<Rightarrow> op_warp op \<noteq> None
      | FixVignetteRadial \<Rightarrow> op_vignette op \<noteq> None
      | FixBadPixelsConstant \<Rightarrow> op_constant op \<noteq> None
      | FixBadPixelsList \<Rightarrow> op_list op \<noteq> None
      | TrimBounds \<Rightarrow> op_trim op \<noteq> None)"

lemma parsed_opcode_fits: "opcode_wf op \<Longrightarrow> opcode_fits op"
  by (auto simp: opcode_wf_def params_wf_def opcode_fits_def split: opcode_id.splits option.splits)

definition record_ok :: "dispatch_record \<Rightarrow> bool" where
  "record_ok r \<longleftrightarrow> length (dr_coefficients r) = 4 \<and> length (dr_vignette_k r) = 5"

lemma located_ok: "opcode_fits op \<Longrightarrow> record_ok (located p q op)"
  by (auto simp: opcode_fits_def record_ok_def located_def pack_opcode_def pack_warp_def pack_vignette_def
      empty_record_def Let_def split: option.split)

lemma length_locate_all [simp]: "length (locate_all p q ops) = length ops"
  by (induction ops arbitrary: p q) simp_all

lemma locate_all_ok: "list_all opcode_fits ops \<Longrightarrow> list_all record_ok (locate_all p q ops)"
  by (induction ops arbitrary: p q) (simp_all add: located_ok)

lemma u64_words_join: "push_bit 32 (ucast (ucast (drop_bit 32 w) :: u32)) OR ucast (ucast w :: u32) = w" for w :: u64
  by (rule bit_word_eqI) (auto simp: bit_simps)

lemma u64_words_at: "ws ! i = ucast w \<Longrightarrow> ws ! (i + 1) = ucast (drop_bit 32 w) \<Longrightarrow> u64_at ws i = w"
  by (simp add: u64_at_def u64_words_join)

lemma length_4_5:
  "length xs = 4 \<Longrightarrow> \<exists>a b c d. xs = [a, b, c, d]" "length xs = 5 \<Longrightarrow> \<exists>a b c d e. xs = [a, b, c, d, e]"
  by (simp_all add: length_Suc_conv numeral_eq_Suc) metis+

lemma record_words_back:
  assumes "record_ok r"
  shows "length (record_words r) = 80" and "record_of_words (record_words r) = r"
proof -
  obtain c0 c1 c2 c3 where c: "dr_coefficients r = [c0, c1, c2, c3]"
    using assms length_4_5(1) [of "dr_coefficients r"] by (auto simp: record_ok_def)
  obtain k0 k1 k2 k3 k4 where k: "dr_vignette_k r = [k0, k1, k2, k3, k4]"
    using assms length_4_5(2) [of "dr_vignette_k r"] by (auto simp: record_ok_def)
  show "length (record_words r) = 80"
    by (simp add: record_words_def c k warp_words_def u64_words_def)
  show "record_of_words (record_words r) = r"
    by (simp add: record_words_def record_of_words_def coefficient_at_def u64_at_def c k warp_words_def
        u64_words_def u64_words_join)
qed

lemma lens_words_as_bytes:
  assumes "k + n \<le> length ws" and "base = 4 * k"
  shows "lens_words (as_bytes ws) base n = Inr (take n (drop k ws))"
proof -
  have "lens_word (as_bytes ws) (base + 4 * i) = Inr (ws ! (k + i))" if "i < n" for i
    using le_word_as_bytes [of "k + i" ws] that assms by (simp add: lens_word_def)
  then have "lens_words (as_bytes ws) base n = Inr (map (\<lambda>i. ws ! (k + i)) [0..<n])"
    unfolding lens_words_def by (intro map_res_Inr) simp
  also have "map (\<lambda>i. ws ! (k + i)) [0..<n] = take n (drop k ws)"
    using assms(1) by (intro nth_equalityI) simp_all
  finally show ?thesis .
qed

lemma concat_chunk:
  assumes "\<And>x. x \<in> set xs \<Longrightarrow> length (f x) = n" and "i < length xs"
  shows "take n (drop (i * n) (concat (map f xs) @ rest)) = f (xs ! i)"
  using assms
proof (induction xs arbitrary: i)
  case (Cons x xs)
  show ?case
  proof (cases i)
    case (Suc j)
    then have "i * n = n + j * n" by simp
    with Cons.prems(1) [of x] Suc Cons.IH [of j] Cons.prems show ?thesis by simp
  qed (use Cons.prems(1) [of x] in simp)
qed simp

lemma length_concat_chunks:
  "(\<And>x. x \<in> set xs \<Longrightarrow> length (f x) = n) \<Longrightarrow> length (concat (map f xs)) = length xs * n"
  by (induction xs) simp_all

lemma length_point_words: "length (point_words p) = 2" and length_rect_words: "length (rect_words r) = 4"
  by (simp_all add: point_words_def rect_words_def)

text \<open>The three arrays of a block are read back from its bytes.\<close>

lemma block_arrays:
  fixes points :: "bad_point list" and rects :: "bad_rect list"
  assumes "list_all record_ok records"
  defines "blob \<equiv> as_bytes (block_words (records, points, rects))"
    and "po \<equiv> sizeof_header + length records * sizeof_record"
  shows "i < length records \<Longrightarrow> record_at blob i = Inr (records ! i)"
    and "i < length points \<Longrightarrow> point_at blob po i = Inr (points ! i)"
    and "i < length rects \<Longrightarrow> rect_at blob (po + length points * sizeof_point) i = Inr (rects ! i)"
    and "length blob = po + length points * sizeof_point + length rects * sizeof_rect"
proof -
  let ?R = "concat (map record_words records)" and ?P = "concat (map point_words points)"
    and ?Q = "concat (map rect_words rects)"
  have rl: "length (record_words r) = 80" if "r \<in> set records" for r
    using assms(1) that record_words_back(1) by (simp add: list_all_iff)
  have R: "length ?R = length records * 80" using length_concat_chunks [of records record_words 80] rl by blast
  have P: "length ?P = length points * 2" using length_concat_chunks [of points point_words 2] length_point_words by blast
  have Q: "length ?Q = length rects * 4" using length_concat_chunks [of rects rect_words 4] length_rect_words by blast
  let ?W = "[of_nat (length records), 0] @ ?R @ ?P @ ?Q"
  have W: "block_words (records, points, rects) = ?W" by (simp add: block_words_def)
  have len: "length ?W = 2 + length records * 80 + length points * 2 + length rects * 4" by (simp add: R P Q)
  show "length blob = po + length points * sizeof_point + length rects * sizeof_rect"
    unfolding blob_def po_def length_as_bytes W len
    by (simp add: sizeof_header_def sizeof_record_def sizeof_point_def sizeof_rect_def)
  show "record_at blob i = Inr (records ! i)" if i: "i < length records"
  proof -
    have "(i + 1) * 80 \<le> length records * 80" using i by (intro mult_right_mono) simp_all
    then have "2 + i * 80 + 80 \<le> length ?W" unfolding len by simp
    moreover have "take 80 (drop (2 + i * 80) ?W) = record_words (records ! i)"
      using concat_chunk [of records record_words 80 i "?P @ ?Q"] rl i by simp
    ultimately have "lens_words blob (sizeof_header + i * sizeof_record) 80 = Inr (record_words (records ! i))"
      using lens_words_as_bytes [of "2 + i * 80" 80 ?W "sizeof_header + i * sizeof_record"]
      unfolding blob_def W by (simp add: sizeof_header_def sizeof_record_def)
    moreover have "record_ok (records ! i)" using assms(1) i by (simp add: list_all_length)
    ultimately show ?thesis by (simp add: record_at_def record_words_back)
  qed
  show "point_at blob po i = Inr (points ! i)" if i: "i < length points"
  proof -
    have "(i + 1) * 2 \<le> length points * 2" using i by (intro mult_right_mono) simp_all
    then have "2 + length records * 80 + i * 2 + 2 \<le> length ?W" unfolding len by simp
    moreover have "take 2 (drop (2 + length records * 80 + i * 2) ?W) = point_words (points ! i)"
      using concat_chunk [of points point_words 2 i ?Q] length_point_words i by (simp add: R add.commute)
    ultimately have "lens_words blob (po + i * sizeof_point) 2 = Inr (point_words (points ! i))"
      using lens_words_as_bytes [of "2 + length records * 80 + i * 2" 2 ?W "po + i * sizeof_point"]
      unfolding blob_def W po_def by (simp add: sizeof_header_def sizeof_record_def sizeof_point_def)
    then show ?thesis by (simp add: point_at_def point_words_def)
  qed
  show "rect_at blob (po + length points * sizeof_point) i = Inr (rects ! i)" if i: "i < length rects"
  proof -
    have "(i + 1) * 4 \<le> length rects * 4" using i by (intro mult_right_mono) simp_all
    then have "2 + length records * 80 + length points * 2 + i * 4 + 4 \<le> length ?W" unfolding len by simp
    moreover have "take 4 (drop (2 + length records * 80 + length points * 2 + i * 4) ?W) = rect_words (rects ! i)"
      using concat_chunk [of rects rect_words 4 i "[]"] length_rect_words i by (simp add: R P add.commute)
    ultimately have "lens_words blob (po + length points * sizeof_point + i * sizeof_rect) 4 = Inr (rect_words (rects ! i))"
      using lens_words_as_bytes [of "2 + length records * 80 + length points * 2 + i * 4" 4 ?W
        "po + length points * sizeof_point + i * sizeof_rect"]
      unfolding blob_def W po_def by (simp add: sizeof_header_def sizeof_record_def sizeof_point_def sizeof_rect_def)
    then show ?thesis by (simp add: rect_at_def rect_words_def)
  qed
qed

section \<open>The opcodes applied directly\<close>

definition patch_listed ::
  "bad_point list \<Rightarrow> bad_rect list \<Rightarrow> image \<Rightarrow> int \<Rightarrow> int \<Rightarrow> lens_stop + image" where
  "patch_listed points rects src width height =
     bind_res (fold_res (\<lambda>p dst. patch_pixel src width height (sint (bp_column p)) (sint (bp_row p)) dst) points src)
       (fold_res (patch_rect src width height) rects)"

text \<open>
  A warp moves every sample along the radial and tangential polynomial of its plane, about the centre; the
  last of at most four planes stands for those that are missing.
\<close>

definition warp_plane_sample ::
  "warp_coefficient list \<Rightarrow> image \<Rightarrow> int \<Rightarrow> int \<Rightarrow> fp \<Rightarrow> fp \<Rightarrow> fp \<Rightarrow> int \<times> int \<Rightarrow> int \<Rightarrow> image \<Rightarrow> lens_stop + image" where
  "warp_plane_sample planes src width height cx cy m pos c dst =
     (let (sx, sy) = warp_source (planes ! min (nat c) (length planes - 1)) cx cy m
        (ddiv (dsub (fp_of_int (fst pos)) cx) m) (ddiv (dsub (fp_of_int (snd pos)) cy) m)
      in bind_res (sample_bicubic src width height sx sy c) (\<lambda>v.
         put_sample (pixel_offset width (fst pos) (snd pos) c) (fp_to_f16 v) dst))"

definition warp_image :: "warp_rectilinear \<Rightarrow> image \<Rightarrow> int \<Rightarrow> int \<Rightarrow> lens_stop + image" where
  "warp_image w src width height =
     (let planes = take 4 (wr_coefficients w)
      in if planes = [] \<or> width \<le> 1 \<or> height \<le> 1 then Inr src
         else
           let cx = dmul (fp_of_f64 (wr_cx_hat w)) (fp_of_int (width - 1));
               cy = dmul (fp_of_f64 (wr_cy_hat w)) (fp_of_int (height - 1));
               m = max_corner_distance cx cy width height
           in if fp_le m double_epsilon then Inr src
              else fold_res (\<lambda>pos. fold_res (warp_plane_sample planes src width height cx cy m pos) [0, 1, 2, 3])
                (positions width height) src)"

text \<open>A vignette multiplies the colour samples with an even polynomial of the distance to the centre.\<close>

definition vignette_image :: "fix_vignette_radial \<Rightarrow> image \<Rightarrow> int \<Rightarrow> int \<Rightarrow> lens_stop + image" where
  "vignette_image v src width height =
     (if width \<le> 1 \<or> height \<le> 1 then Inr src
      else
        let cx = dmul (fp_of_f64 (vr_cx_hat v)) (fp_of_int (width - 1));
            cy = dmul (fp_of_f64 (vr_cy_hat v)) (fp_of_int (height - 1));
            m = max_corner_distance cx cy width height
        in if fp_le m double_epsilon then Inr src
           else fold_res (\<lambda>pos.
               let dx = ddiv (dsub (fp_of_int (fst pos)) cx) m; dy = ddiv (dsub (fp_of_int (snd pos)) cy) m;
                   r2 = dadd (dmul dx dx) (dmul dy dy); r4 = dmul r2 r2; r6 = dmul r4 r2; r8 = dmul r4 r4;
                   r10 = dmul r8 r2;
                   gain = fold (\<lambda>(k, p) gain. dadd gain (dmul (fp_of_f64 k) p))
                     (zip (vr_k v) [r2, r4, r6, r8, r10]) (fp_of_int 1)
               in fold_res (vignette_sample gain src width pos) [0, 1, 2])
             (positions width height) src)"

text \<open>Every pixel that has the constant is repaired.\<close>

definition constant_image :: "fix_bad_pixels_constant \<Rightarrow> image \<Rightarrow> int \<Rightarrow> int \<Rightarrow> lens_stop + image" where
  "constant_image k src width height =
     fold_res (\<lambda>(x, y) dst.
         bind_res (matches_constant src width height (fp_cast single (fp_of_int (uint (bc_constant k)))) x y)
           (\<lambda>patch. if patch then patch_pixel src width height x y dst else Inr dst))
       (positions width height) src"

text \<open>Every pixel outside the bounds becomes zero.\<close>

definition trim_image :: "trim_bounds \<Rightarrow> image \<Rightarrow> int \<Rightarrow> int \<Rightarrow> lens_stop + image" where
  "trim_image t src width height =
     fold_res (\<lambda>(x, y) dst.
         if tb_top t \<le> word_of_int y \<and> word_of_int y < tb_bottom t \<and>
            tb_left t \<le> word_of_int x \<and> word_of_int x < tb_right t then Inr dst
         else fold_res (\<lambda>c. put_sample (pixel_offset width x y c) (fp_to_f16 (fp_of_int 0))) [0, 1, 2, 3] dst)
       (positions width height) src"

definition apply_opcode :: "int \<Rightarrow> int \<Rightarrow> opcode \<Rightarrow> image \<Rightarrow> lens_stop + (status_code + image)" where
  "apply_opcode width height op img =
     (case op_id op of
        Unknown \<Rightarrow> Inr (if op_optional op then Inr img else Inl Unsupported)
      | WarpRectilinear \<Rightarrow> bind_res (warp_image (the (op_warp op)) img width height) (\<lambda>i. Inr (Inr i))
      | FixVignetteRadial \<Rightarrow> bind_res (vignette_image (the (op_vignette op)) img width height) (\<lambda>i. Inr (Inr i))
      | FixBadPixelsConstant \<Rightarrow>
          bind_res (constant_image (the (op_constant op)) img width height) (\<lambda>i. Inr (Inr i))
      | FixBadPixelsList \<Rightarrow>
          bind_res (patch_listed (opcode_points op) (opcode_rects op) img width height) (\<lambda>i. Inr (Inr i))
      | TrimBounds \<Rightarrow> bind_res (trim_image (the (op_trim op)) img width height) (\<lambda>i. Inr (Inr i)))"

fun apply_opcodes :: "int \<Rightarrow> int \<Rightarrow> opcode list \<Rightarrow> image \<Rightarrow> lens_stop + (status_code + image)" where
  "apply_opcodes width height [] img = Inr (Inr img)"
| "apply_opcodes width height (op # ops) img =
     bind_res (apply_opcode width height op img) (\<lambda>res.
     case res of Inl status \<Rightarrow> Inr (Inl status) | Inr img \<Rightarrow> apply_opcodes width height ops img)"

text \<open>The fields of a packed record that the filter looks at.\<close>

lemma located_fields:
  "dr_id (located p q op) = opcode_id_value (op_id op)"
  "dr_optional (located p q op) = (if op_optional op then 1 else 0)"
  "dr_point_count (located p q op) = of_nat (length (opcode_points op))"
  "dr_rect_count (located p q op) = of_nat (length (opcode_rects op))"
  "dr_point_offset (located p q op) = (if op_list op = None then 0 else of_nat p)"
  "dr_rect_offset (located p q op) = (if op_list op = None then 0 else of_nat q)"
  by (simp_all add: located_def pack_opcode_def pack_warp_def pack_vignette_def empty_record_def opcode_points_def
      opcode_rects_def Let_def split: option.split)

lemma located_warp:
  assumes "op_warp op = Some w"
  shows "dr_coefficient_count (located p q op) = of_nat (length (take 4 (wr_coefficients w)))"
    and "dr_coefficients (located p q op) =
      take 4 (wr_coefficients w) @ drop (length (take 4 (wr_coefficients w))) (replicate 4 zero_coefficient)"
    and "dr_cx_hat (located p q op) = wr_cx_hat w" and "dr_cy_hat (located p q op) = wr_cy_hat w"
  using assms by (auto simp: located_def pack_opcode_def pack_warp_def pack_vignette_def empty_record_def Let_def min_def
      split: option.split)

lemma located_vignette:
  "op_vignette op = Some v \<Longrightarrow> dr_vignette_k (located p q op) = vr_k v \<and>
     dr_vignette_cx_hat (located p q op) = vr_cx_hat v \<and> dr_vignette_cy_hat (located p q op) = vr_cy_hat v"
  by (simp add: located_def pack_opcode_def pack_warp_def pack_vignette_def Let_def split: option.split)

lemma located_constant: "op_constant op = Some k \<Longrightarrow> dr_constant (located p q op) = bc_constant k"
  by (simp add: located_def pack_opcode_def Let_def split: option.split)

lemma located_trim:
  "op_trim op = Some t \<Longrightarrow> dr_top (located p q op) = tb_top t \<and> dr_left (located p q op) = tb_left t \<and>
     dr_bottom (located p q op) = tb_bottom t \<and> dr_right (located p q op) = tb_right t"
  by (simp add: located_def pack_opcode_def Let_def split: option.split)

lemma unat_of_nat_small: "n \<le> 4 \<Longrightarrow> unat (of_nat n :: u32) = n"
  by (simp add: unsigned_of_nat take_bit_nat_eq_self)

lemma coefficient_index:
  assumes "c \<in> {0, 1, 2, 3}" and "0 < n" "n \<le> 4"
  shows "unat (min (word_of_int c) (of_nat n - 1 :: u32)) = min (nat c) (n - 1)"
proof -
  have "of_nat n - 1 = (of_nat (n - 1) :: u32)" using assms(2) by (simp add: of_nat_diff)
  then have "unat (of_nat n - 1 :: u32) = n - 1" using assms(3) unat_of_nat_small [of "n - 1"] by simp
  moreover have "unat (word_of_int c :: u32) = nat c" using assms(1) by auto
  ultimately show ?thesis by (auto simp: min_def word_le_nat_alt)
qed

lemma fold_res_eqI: "(\<And>x. x \<in> set xs \<Longrightarrow> f x = g x) \<Longrightarrow> fold_res f xs = fold_res g xs"
  by (induction xs) (auto intro!: ext)

lemma apply_warp_located:
  assumes "op_warp op = Some w"
  shows "apply_warp (located p q op) src width height = warp_image w src width height"
proof -
  define planes where "planes = take 4 (wr_coefficients w)"
  define r where "r = located p q op"
  have n: "length planes \<le> 4" by (simp add: planes_def)
  note f = located_warp [OF assms, of p q, folded planes_def r_def]
  have sample: "warp_sample r src width height cx cy m pos c = warp_plane_sample planes src width height cx cy m pos c"
    if "planes \<noteq> []" "c \<in> {0, 1, 2, 3}" for cx cy m pos c
  proof -
    have "min (nat c) (length planes - 1) < length planes" using that(1) by (simp add: min_less_iff_disj)
    moreover have "length (dr_coefficients r) = 4" using n by (simp add: f)
    ultimately show ?thesis
      using coefficient_index [OF that(2) _ n] that(1) n
      by (intro ext) (simp add: warp_sample_def warp_plane_sample_def f nth_append Let_def split: prod.split)
  qed
  have "fold_res (warp_sample r src width height cx cy m pos) [0, 1, 2, 3] =
      fold_res (warp_plane_sample planes src width height cx cy m pos) [0, 1, 2, 3]"
    if "planes \<noteq> []" for cx cy m pos
    by (intro fold_res_eqI sample that) simp
  moreover have "dr_coefficient_count r = 0 \<longleftrightarrow> planes = []"
    using unat_of_nat_small [OF n] by (auto simp: f simp flip: unat_eq_zero)
  ultimately show ?thesis
    unfolding apply_warp_def warp_image_def r_def [symmetric] planes_def [symmetric] f Let_def
    by simp
qed

lemma apply_vignette_located:
  assumes "op_vignette op = Some v"
  shows "apply_vignette (located p q op) src width height = vignette_image v src width height"
  using located_vignette [OF assms, of p q]
  by (simp add: apply_vignette_def vignette_image_def vignette_gain_def Let_def)

lemma apply_constant_located:
  assumes "op_constant op = Some k"
  shows "apply_bad_pixels_constant (located p q op) src width height = constant_image k src width height"
  by (simp add: apply_bad_pixels_constant_def constant_image_def located_constant [OF assms] Let_def)

lemma apply_trim_located:
  assumes "op_trim op = Some t"
  shows "apply_trim_bounds (located p q op) src width height = trim_image t src width height"
  using located_trim [OF assms, of p q] by (simp add: apply_trim_bounds_def trim_image_def inside_bounds_def)

lemmas apply_located = apply_warp_located apply_vignette_located apply_constant_located apply_trim_located

lemma fold_res_nth:
  assumes "\<And>i. i < length xs \<Longrightarrow> g i = Inr (xs ! i)"
  shows "fold_res (\<lambda>i s. bind_res (g i) (\<lambda>x. f x s)) [0..<length xs] = fold_res f xs"
proof
  fix s
  have "fold_res (\<lambda>i s. bind_res (g i) (\<lambda>x. f x s)) is s = fold_res f (map (\<lambda>i. xs ! i) is) s"
    if "set is \<subseteq> {..<length xs}" for "is"
    using that by (induction "is" arbitrary: s) (auto simp: assms bind_res_def split: sum.split)
  from this [of "[0..<length xs]"]
  show "fold_res (\<lambda>i s. bind_res (g i) (\<lambda>x. f x s)) [0..<length xs] s = fold_res f xs s" by (simp add: map_nth atLeast0LessThan)
qed

lemma apply_list_located:
  assumes "length (opcode_points op) < 2 ^ 32" "length (opcode_rects op) < 2 ^ 32" "p < 2 ^ 32" "q < 2 ^ 32"
    and "\<And>i. i < length (opcode_points op) \<Longrightarrow> points (p + i) = Inr (opcode_points op ! i)"
    and "\<And>i. i < length (opcode_rects op) \<Longrightarrow> rects (q + i) = Inr (opcode_rects op ! i)"
  shows "apply_bad_pixels_list (located p q op) src width height points rects =
    patch_listed (opcode_points op) (opcode_rects op) src width height"
proof -
  have u: "unat (of_nat k :: u32) = k" if "k < 2 ^ 32" for k
    using that by (simp add: unsigned_of_nat take_bit_nat_eq_self)
  have "points (unat (dr_point_offset (located p q op)) + i) = Inr (opcode_points op ! i)"
    if "i < length (opcode_points op)" for i
    using that assms(3,5) by (auto simp: located_fields u opcode_points_def)
  note points = fold_res_nth [OF this]
  have "rects (unat (dr_rect_offset (located p q op)) + i) = Inr (opcode_rects op ! i)"
    if "i < length (opcode_rects op)" for i
    using that assms(4,6) by (auto simp: located_fields u opcode_rects_def)
  note rects = fold_res_nth [OF this]
  show ?thesis
    unfolding apply_bad_pixels_list_def patch_listed_def located_fields(3,4) u [OF assms(1)] u [OF assms(2)]
    by (simp add: points rects)
qed

text \<open>One opcode, and the whole list with the points and rectangles from the arrays of the block.\<close>

lemma apply_record_located:
  assumes fits: "opcode_fits op"
    and "length (opcode_points op) < 2 ^ 32" "length (opcode_rects op) < 2 ^ 32" "p < 2 ^ 32" "q < 2 ^ 32"
    and "\<And>i. i < length (opcode_points op) \<Longrightarrow> points (p + i) = Inr (opcode_points op ! i)"
    and "\<And>i. i < length (opcode_rects op) \<Longrightarrow> rects (q + i) = Inr (opcode_rects op ! i)"
  shows "apply_record points rects width height (located p q op) img = apply_opcode width height op img"
proof (cases "op_id op")
  case FixBadPixelsList
  then show ?thesis unfolding apply_record_def apply_opcode_def
    by (simp add: located_fields(1) apply_list_located [OF assms(2-)])
qed (use fits in \<open>auto simp: opcode_fits_def apply_record_def apply_opcode_def located_fields(1,2) apply_located\<close>)

lemma apply_records_located:
  assumes "list_all opcode_fits ops"
    and "p + length (concat (map opcode_points ops)) < 2 ^ 32" "q + length (concat (map opcode_rects ops)) < 2 ^ 32"
    and "\<And>i. i < length (concat (map opcode_points ops)) \<Longrightarrow> points (p + i) = Inr (concat (map opcode_points ops) ! i)"
    and "\<And>i. i < length (concat (map opcode_rects ops)) \<Longrightarrow> rects (q + i) = Inr (concat (map opcode_rects ops) ! i)"
  shows "apply_records points rects width height (locate_all p q ops) img = apply_opcodes width height ops img"
  using assms
proof (induction ops arbitrary: p q img)
  case (Cons op ops)
  have "apply_record points rects width height (located p q op) img = apply_opcode width height op img" for img
    using Cons.prems by (intro apply_record_located) (auto simp: nth_append)
  moreover have "apply_records points rects width height
      (locate_all (p + length (opcode_points op)) (q + length (opcode_rects op)) ops) img =
      apply_opcodes width height ops img" for img
  proof (rule Cons.IH)
    show "points (p + length (opcode_points op) + i) = Inr (concat (map opcode_points ops) ! i)"
      if "i < length (concat (map opcode_points ops))" for i
      using Cons.prems(4) [of "length (opcode_points op) + i"] that by (simp add: add.assoc)
    show "rects (q + length (opcode_rects op) + i) = Inr (concat (map opcode_rects ops) ! i)"
      if "i < length (concat (map opcode_rects ops))" for i
      using Cons.prems(5) [of "length (opcode_rects op) + i"] that by (simp add: add.assoc)
  qed (use Cons.prems in simp_all)
  ultimately show ?case by (simp add: bind_res_def split: sum.split)
qed simp

lemma record_extent_located:
  assumes "p + length (concat (map opcode_points ops)) < 2 ^ 32" "q + length (concat (map opcode_rects ops)) < 2 ^ 32"
  shows "fold record_extent (locate_all p q ops) (p, q) =
    (p + length (concat (map opcode_points ops)), q + length (concat (map opcode_rects ops)))"
  using assms
proof (induction ops arbitrary: p q)
  case (Cons op ops)
  have u: "unat (of_nat k :: u32) = k" if "k < 2 ^ 32" for k
    using that by (simp add: unsigned_of_nat take_bit_nat_eq_self)
  have "record_extent (located p q op) (p, q) = (p + length (opcode_points op), q + length (opcode_rects op))"
    using Cons.prems by (simp add: record_extent_def located_fields u opcode_points_def opcode_rects_def split: option.split)
  moreover have "p + length (opcode_points op) + length (concat (map opcode_points ops)) < 2 ^ 32"
    "q + length (opcode_rects op) + length (concat (map opcode_rects ops)) < 2 ^ 32"
    using Cons.prems by simp_all
  ultimately show ?case using Cons.IH by (simp add: add.assoc)
qed simp

text \<open>The block as a whole.\<close>

lemma filter_of_packed:
  assumes "list_all opcode_fits ops" and "length ops < 2 ^ 32"
    and "length (concat (map opcode_points ops)) < 2 ^ 32" and "length (concat (map opcode_rects ops)) < 2 ^ 32"
  shows "lens_filter [Some input] [Some out] (Some (pack_opcode_list_3 ops)) =
    lens_run (\<lambda>width height. apply_opcodes width height ops) input out"
proof -
  let ?rs = "locate_all 0 0 ops" and ?P = "concat (map opcode_points ops)" and ?Q = "concat (map opcode_rects ops)"
  define blob where "blob = as_bytes (block_words (?rs, ?P, ?Q))"
  define po where "po = sizeof_header + length ops * sizeof_record"
  have pack: "pack_opcode_list_3 ops = blob" by (simp add: pack_opcode_list_3_def fold_pack_opcode blob_def)
  note arrays = block_arrays [OF locate_all_ok [OF assms(1), of 0 0], where points = ?P and rects = ?Q, folded blob_def, simplified, folded po_def]
  have u: "unat (of_nat (length ops) :: u32) = length ops"
    using assms(2) by (simp add: unsigned_of_nat take_bit_nat_eq_self)
  have "lens_word blob 0 = Inr (of_nat (length ops))"
    using le_word_as_bytes [of 0 "block_words (?rs, ?P, ?Q)"]
    by (simp add: lens_word_def blob_def block_words_def)
  moreover have "map_res (record_at blob) [0..<length ops] = Inr (map (\<lambda>i. ?rs ! i) [0..<length ops])"
    using arrays(1) by (intro map_res_Inr) simp
  then have "map_res (record_at blob) [0..<length ops] = Inr ?rs"
    by (simp add: map_nth [of ?rs, simplified])
  moreover have "fold record_extent ?rs (0, 0) = (length ?P, length ?Q)"
    using record_extent_located [of 0 ops 0] assms(3,4) by simp
  moreover have "length blob = po + length ?P * sizeof_point + length ?Q * sizeof_rect" by (rule arrays(4))
  ultimately have "checked_param_blob (Some blob) = Inr (Some (?rs, po, po + length ?P * sizeof_point))"
    by (simp add: checked_param_blob_def u po_def Let_def)
  moreover have "(\<lambda>width height. apply_records (point_at blob po) (rect_at blob (po + length ?P * sizeof_point)) width height ?rs) =
      (\<lambda>width height. apply_opcodes width height ops)"
    using assms(1,3,4) arrays(2,3) by (intro ext apply_records_located) simp_all
  ultimately show ?thesis by (simp add: lens_filter_def pack)
qed

section \<open>Values that are not numbers\<close>

lemma nan_arith [simp]:
  "dadd FpNaN y = FpNaN" "dmul FpNaN y = FpNaN" "dsub x FpNaN = FpNaN" "ddiv FpNaN y = FpNaN"
  by (simp_all add: dadd_def dmul_def dsub_def ddiv_def fp_add_def fp_mul_def fp_sub_def fp_div_def fp_neg_def split: fp.split)

lemma max_corner_distance_nan: "max_corner_distance FpNaN cy width height = FpNaN"
  by (simp add: max_corner_distance_def fp_sqrt_def Let_def)

lemma sample_bicubic_nan: "sample_bicubic img width height FpNaN y c = Inl LensCast"
  by (simp add: sample_bicubic_def fp_clamp_def fp_floor_def lens_cast_i32_def fp_to_i32_def Let_def)

lemma warp_source_nan: "\<exists>sy. warp_source k FpNaN cy m dx dy = (FpNaN, sy)"
  by (simp add: warp_source_def Let_def)

lemma positions_Cons: "0 < width \<Longrightarrow> 0 < height \<Longrightarrow> \<exists>rest. positions width height = (0, 0) # rest"
  by (simp add: positions_def upto_rec1)

lemma apply_warp_nan:
  assumes "dr_coefficient_count r \<noteq> 0" "dr_coefficient_count r \<le> 4" "length (dr_coefficients r) = 4"
    and "fp_of_f64 (dr_cx_hat r) = FpNaN" and "1 < width" "1 < height"
  shows "apply_warp r src width height = Inl LensCast"
proof -
  obtain rest where "positions width height = (0, 0) # rest"
    using positions_Cons [of width height] assms by auto
  moreover have "warp_sample r src width height FpNaN cy FpNaN (0, 0) 0 dst = Inl LensCast" for cy dst
    using warp_source_nan [of "dr_coefficients r ! 0" cy FpNaN FpNaN "ddiv (dsub (fp_of_int 0) cy) FpNaN"] assms(3)
    by (auto simp: warp_sample_def sample_bicubic_nan Let_def)
  ultimately show ?thesis using assms
    by (simp add: apply_warp_def Let_def max_corner_distance_nan fp_le_def)
qed

section \<open>Properties\<close>

text \<open>
  C32: the filter applied to the block the node packs does exactly what the parsed opcodes say, in their
  order: the dispatcher accepts the block, and all parameters, bad points and rectangles come back as
  they were packed. What an opcode does is stated over its own parameters: \<open>warp_image\<close>,
  \<open>vignette_image\<close>, \<open>constant_image\<close>, \<open>patch_listed\<close> and \<open>trim_image\<close>. Numbers of opcodes, points and
  rectangles fit into 32 bits, the parameters of an opcode's kind are present and a vignette has five
  coefficients, as for every opcode the parser returns.
\<close>

theorem lens_filter_packed:
  assumes "list_all opcode_fits ops" and "length ops < 2 ^ 32"
    and "length (concat (map opcode_points ops)) < 2 ^ 32" and "length (concat (map opcode_rects ops)) < 2 ^ 32"
  shows "lens_filter [Some input] [Some out] (Some (pack_opcode_list_3 ops)) =
    lens_run (\<lambda>width height. apply_opcodes width height ops) input out"
  by (rule filter_of_packed [OF assms])

text \<open>
  C39: a warp opcode whose centre is not a number makes the filter cast a NaN to \<open>int\<close>, which C++ leaves
  undefined, on every dense image of at least two by two pixels: the clamp of the position lets a NaN
  through, and neither the parser nor the dispatcher looks at the values.
\<close>

theorem warp_nan_centre:
  assumes "dense_view width height input" and "dense_view width height out" and "width * height * 4 < 2 ^ 31"
    and "1 < width" "1 < height" and "op_id op = WarpRectilinear" and "op_warp op = Some w"
    and "wr_coefficients w \<noteq> []" and "fp_of_f64 (wr_cx_hat w) = FpNaN" and "op_vignette op = None" "op_list op = None"
  shows "lens_filter [Some input] [Some out] (Some (pack_opcode_list_3 [op])) = Inl LensCast"
proof -
  have fits: "opcode_fits op" using assms(6,7,10) by (simp add: opcode_fits_def)
  have filter_ok: "lens_filter [Some input] [Some out] (Some (pack_opcode_list_3 [op])) =
      lens_run (\<lambda>width height. apply_opcodes width height [op]) input out"
    using assms fits by (intro filter_of_packed) (simp_all add: opcode_points_def opcode_rects_def)
  have "of_nat (length (take 4 (wr_coefficients w))) \<noteq> (0 :: u32)" "of_nat (length (take 4 (wr_coefficients w))) \<le> (4 :: u32)"
    using assms(8) unat_of_nat_small [of "length (take 4 (wr_coefficients w))"]
    by (auto simp: word_le_nat_alt simp flip: unat_eq_zero)
  then have "apply_warp (located 0 0 op) img width height = Inl LensCast" for img
    using located_ok [OF fits, of 0 0] assms(4,5,7,9)
    by (intro apply_warp_nan) (simp_all add: located_warp [OF assms(7)] record_ok_def)
  then have warp: "warp_image w img width height = Inl LensCast" for img
    by (simp add: apply_warp_located [OF assms(7)])
  obtain img where "read_image input width height = Inr (Some img)"
    using read_image_ok [OF assms(1,3), of "{}"] assms(4,5) by (auto simp: ensures_or_def split: sum.splits)
  then show ?thesis using assms(1,2,4,5,6,7) warp
    by (simp add: filter_ok lens_run_def dim_at_def dense_view_def apply_opcode_def Let_def)
qed

text \<open>A list with one bad point, and a warp whose centre is a NaN, for the witnesses.\<close>

definition plain_opcode :: opcode where
  "plain_opcode = \<lparr>op_id = Unknown, op_raw_id = 0, op_dng_version = 0, op_flags = 0, op_optional = False, op_raw_params = [],
     op_warp = None, op_vignette = None, op_constant = None, op_list = None, op_trim = None\<rparr>"

definition point_opcode :: opcode where
  "point_opcode = plain_opcode\<lparr>op_id := FixBadPixelsList,
     op_list := Some \<lparr>bl_bayer_phase = 0, bl_points = [\<lparr>bp_row = 0, bp_column = 0\<rparr>], bl_rects = []\<rparr>\<rparr>"

definition nan_opcode :: opcode where
  "nan_opcode = plain_opcode\<lparr>op_id := WarpRectilinear,
     op_warp := Some \<lparr>wr_coefficients = [zero_coefficient], wr_cx_hat = 0x7FF8000000000000, wr_cy_hat = 0\<rparr>\<rparr>"

definition four_pixels :: halide_buffer where
  "four_pixels = \<lparr>hb_host = replicate 32 0, hb_type = (HalideFloat, 16), hb_host_dirty = False,
     hb_dims = [\<lparr>hdim_min = 0, hdim_extent = 2, hdim_stride = 4\<rparr>, \<lparr>hdim_min = 0, hdim_extent = 2, hdim_stride = 8\<rparr>,
       \<lparr>hdim_min = 0, hdim_extent = 4, hdim_stride = 1\<rparr>]\<rparr>"

theorem lens_filter_packed_witness:
  "lens_filter [Some four_pixels] [Some four_pixels] (Some (pack_opcode_list_3 [point_opcode])) =
    lens_run (\<lambda>width height. apply_opcodes width height [point_opcode]) four_pixels four_pixels"
  using lens_filter_packed [of "[point_opcode]" four_pixels four_pixels]
  by (simp add: point_opcode_def plain_opcode_def opcode_fits_def opcode_points_def opcode_rects_def)

theorem warp_nan_centre_witness:
  "lens_filter [Some four_pixels] [Some four_pixels] (Some (pack_opcode_list_3 [nan_opcode])) = Inl LensCast"
  using warp_nan_centre [of 2 2 four_pixels four_pixels nan_opcode
      "\<lparr>wr_coefficients = [zero_coefficient], wr_cx_hat = 0x7FF8000000000000, wr_cy_hat = 0\<rparr>"]
  by (simp add: dense_view_def four_pixels_def nan_opcode_def plain_opcode_def fp_of_f64_def fp_decode_def Let_def)

end
