(* ===== verification/Lens_Patch.thy ===== *)
theory Lens_Patch
  imports Lens_Opcode3
begin

text \<open>
  What the repair of bad pixels (\<open>src/cpipe/nodes/lens/dng_opcode_list_3_dispatch.cpp\<close>) leaves in the image:
  the colour samples of the listed pixels are the means of their neighbours in the image as it was
  before, and nothing else changes. The order of the list does not matter.
\<close>

section \<open>The specification\<close>

text \<open>The mean of the neighbours inside the image, or the sample itself when there are none.\<close>

definition neighbour_mean :: "image \<Rightarrow> int \<Rightarrow> int \<Rightarrow> int \<times> int \<times> int \<Rightarrow> fp" where
  "neighbour_mean src width height pos =
     (case pos of (x, y, c) \<Rightarrow>
        let vs = map (\<lambda>(nx, ny). fp_of_f16 (src ! pixel_offset width nx ny c)) (neighbours width height x y)
        in if vs = [] then fp_of_f16 (src ! pixel_offset width x y c)
           else fp_div single (foldl sadd (fp_of_int 0) vs) (fp_of_int (int (length vs))))"

definition repaired :: "image \<Rightarrow> int \<Rightarrow> int \<Rightarrow> (int \<times> int \<times> int) set \<Rightarrow> image \<Rightarrow> bool" where
  "repaired src width height bad dst \<longleftrightarrow> image_ok width height dst \<and>
     list_all (\<lambda>(x, y, c). dst ! pixel_offset width x y c =
         (if (x, y, c) \<in> bad then fp_to_f16 (neighbour_mean src width height (x, y, c))
          else src ! pixel_offset width x y c)) (samples width height)"

text \<open>The samples of a pixel without the fourth channel, of a point and of a rectangle.\<close>

definition pixel_samples :: "int \<Rightarrow> int \<Rightarrow> (int \<times> int \<times> int) set" where
  "pixel_samples x y = {(x, y, 0), (x, y, 1), (x, y, 2)}"

definition point_samples :: "bad_point \<Rightarrow> (int \<times> int \<times> int) set" where
  "point_samples p = pixel_samples (sint (bp_column p)) (sint (bp_row p))"

definition rect_samples :: "bad_rect \<Rightarrow> (int \<times> int \<times> int) set" where
  "rect_samples r = {(x, y, c). sint (br_left r) \<le> x \<and> x < sint (br_right r) \<and>
     sint (br_top r) \<le> y \<and> y < sint (br_bottom r) \<and> (c = 0 \<or> c = 1 \<or> c = 2)}"

section \<open>One sample\<close>

lemma sample_pixel_inside:
  assumes "image_ok width height src" and "0 \<le> x" "x < width" "0 \<le> y" "y < height" "0 \<le> c" "c < 4"
  shows "sample_pixel src width height x y c = Inr (fp_of_f16 (src ! pixel_offset width x y c))"
proof -
  have "int_clamp x 0 (width - 1) = x" "int_clamp y 0 (height - 1) = y" using assms by (simp_all add: int_clamp_def)
  with pixel_offset_less [OF assms] show ?thesis by (simp add: sample_pixel_def get_sample_def)
qed

lemma neighbours_inside:
  "list_all (\<lambda>(nx, ny). 0 \<le> nx \<and> nx < width \<and> 0 \<le> ny \<and> ny < height) (neighbours width height x y)"
  by (simp add: neighbours_def not_le not_less)

lemma fold_neighbours:
  assumes "image_ok width height src" and "0 \<le> c" "c < 4"
    and "list_all (\<lambda>(nx, ny). 0 \<le> nx \<and> nx < width \<and> 0 \<le> ny \<and> ny < height) ns"
  shows "fold_res (\<lambda>(nx, ny) (sum, count).
         bind_res (sample_pixel src width height nx ny c) (\<lambda>v. Inr (sadd sum v, count + 1))) ns (s, k) =
     Inr (foldl sadd s (map (\<lambda>(nx, ny). fp_of_f16 (src ! pixel_offset width nx ny c)) ns), k + int (length ns))"
  using assms(4)
proof (induction ns arbitrary: s k)
  case (Cons n ns)
  then show ?case by (cases n) (simp add: sample_pixel_inside [OF assms(1) _ _ _ _ assms(2,3)])
qed simp

lemma patched_channel_mean:
  assumes "image_ok width height src" and "0 \<le> x" "x < width" "0 \<le> y" "y < height" "0 \<le> c" "c < 4"
  shows "patched_channel src width height x y c = Inr (neighbour_mean src width height (x, y, c))"
  using fold_neighbours [OF assms(1,6,7) neighbours_inside [of width height x y], of "fp_of_int 0" 0]
  by (simp add: patched_channel_def neighbour_mean_def sample_pixel_inside [OF assms] Let_def)

lemma row_inj:
  fixes w :: int
  assumes "y * w + x = y' * w + x'" and "0 \<le> x" "x < w" "0 \<le> x'" "x' < w"
  shows "x = x' \<and> y = y'"
proof -
  have "(y * w + x) mod w = x" "(y' * w + x') mod w = x'" using assms(2-5) by simp_all
  then have "x = x'" using assms(1) by metis
  with assms show ?thesis by auto
qed

lemma pixel_offset_inj:
  assumes "width * height * 4 < 2 ^ 31" and "0 \<le> x" "x < width" "0 \<le> y" "y < height" "0 \<le> c" "c < 4"
    and "0 \<le> x'" "x' < width" "0 \<le> y'" "y' < height" "0 \<le> c'" "c' < 4"
  shows "pixel_offset width x y c = pixel_offset width x' y' c' \<longleftrightarrow> (x, y, c) = (x', y', c')"
proof
  assume "pixel_offset width x y c = pixel_offset width x' y' c'"
  with pixel_offset_eq(1) [of x width y height c] pixel_offset_eq(1) [of x' width y' height c'] assms
  have "nat ((y * width + x) * 4 + c) = nat ((y' * width + x') * 4 + c')" by simp
  moreover have "0 \<le> y * width" "0 \<le> y' * width" using assms by simp_all
  ultimately have "(y * width + x) * 4 + c = (y' * width + x') * 4 + c'" using assms by (subst (asm) eq_nat_nat_iff) simp_all
  with row_inj [of "y * width + x" 4 c "y' * width + x'" c'] assms
  have "c = c'" "y * width + x = y' * width + x'" by simp_all
  with row_inj [of y width x y' x'] assms show "(x, y, c) = (x', y', c')" by simp
qed simp

lemma repaired_put:
  assumes "image_ok width height src" and "repaired src width height bad dst"
    and "0 \<le> x" "x < width" "0 \<le> y" "y < height" "0 \<le> c" "c < 4"
  shows "ensures_or E (repaired src width height (insert (x, y, c) bad))
    (put_sample (pixel_offset width x y c) (fp_to_f16 (neighbour_mean src width height (x, y, c))) dst)"
proof -
  have ok: "image_ok width height dst" using assms(2) by (simp add: repaired_def)
  have b: "width * height * 4 < 2 ^ 31" using ok by (simp add: image_ok_def)
  let ?v = "fp_to_f16 (neighbour_mean src width height (x, y, c))"
  have i: "pixel_offset width x y c < length dst" by (rule pixel_offset_less [OF ok assms(3-)])
  have "dst[pixel_offset width x y c := ?v] ! pixel_offset width x' y' c' =
      (if (x', y', c') \<in> insert (x, y, c) bad then fp_to_f16 (neighbour_mean src width height (x', y', c'))
       else src ! pixel_offset width x' y' c')"
    if "(x', y', c') \<in> set (samples width height)" for x' y' c'
  proof (cases "(x', y', c') = (x, y, c)")
    case False
    with that pixel_offset_inj [OF b assms(3-), of x' y' c']
    have "pixel_offset width x y c \<noteq> pixel_offset width x' y' c'" by (auto simp: set_samples)
    moreover have "dst ! pixel_offset width x' y' c' =
        (if (x', y', c') \<in> bad then fp_to_f16 (neighbour_mean src width height (x', y', c'))
         else src ! pixel_offset width x' y' c')"
      using bspec [OF assms(2) [unfolded repaired_def list_all_iff, THEN conjunct2] that] by simp
    ultimately show ?thesis using False by auto
  qed (use i in simp)
  with i ok show ?thesis
    by (auto simp: put_sample_def ensures_or_def repaired_def image_ok_def list_all_iff)
qed

section \<open>Loops\<close>

lemma repaired_fold:
  assumes "P bad s"
    and "\<And>x bad s. x \<in> set xs \<Longrightarrow> P bad s \<Longrightarrow> ensures_or E (P (A x \<union> bad)) (f x s)"
  shows "ensures_or E (P (\<Union> (A ` set xs) \<union> bad)) (fold_res f xs s)"
  using assms
proof (induction xs arbitrary: bad s)
  case (Cons x xs)
  from Cons.prems have "ensures_or E (P (A x \<union> bad)) (f x s)" by simp
  moreover have "ensures_or E (P (\<Union> (A ` set xs) \<union> (A x \<union> bad))) (fold_res f xs t)" if "P (A x \<union> bad) t" for t
    using Cons.IH [OF that] Cons.prems(2) by simp
  ultimately show ?case by (cases "f x s") (simp_all add: ensures_or_def Un_ac)
qed (simp add: ensures_or_def)

text \<open>Only the samples of the image count.\<close>

lemma repaired_cong:
  assumes "repaired src width height bad dst"
    and "\<And>x y c. (x, y, c) \<in> set (samples width height) \<Longrightarrow> (x, y, c) \<in> bad \<longleftrightarrow> (x, y, c) \<in> bad'"
  shows "repaired src width height bad' dst"
  using assms by (auto simp: repaired_def list_all_iff)

lemma repaired_pixel:
  assumes "image_ok width height src" and "repaired src width height bad dst"
  shows "ensures_or E (repaired src width height (pixel_samples x y \<union> bad)) (patch_pixel src width height x y dst)"
proof (cases "x < 0 \<or> x \<ge> width \<or> y < 0 \<or> y \<ge> height")
  case True
  have "repaired src width height (pixel_samples x y \<union> bad) dst"
    by (rule repaired_cong [OF assms(2)]) (use True in \<open>auto simp: pixel_samples_def set_samples\<close>)
  with True show ?thesis by (auto simp: patch_pixel_def intro: ensures_or_Inr)
next
  case False
  have "ensures_or E (repaired src width height (\<Union> ((\<lambda>c. {(x, y, c)}) ` set [0, 1, 2]) \<union> bad))
      (fold_res (\<lambda>c dst. bind_res (patched_channel src width height x y c) (\<lambda>v.
         put_sample (pixel_offset width x y c) (fp_to_f16 v) dst)) [0, 1, 2] dst)"
    using False
    by (intro repaired_fold [where P = "repaired src width height", OF assms(2)])
       (auto simp: patched_channel_mean [OF assms(1)] intro!: repaired_put [OF assms(1)])
  with False show ?thesis by (simp add: patch_pixel_def pixel_samples_def insert_commute del: fold_res.simps)
qed

lemma clamped_range:
  fixes a b n :: int
  assumes "0 \<le> x" "x < n"
  shows "x \<in> set [max 0 (min a n)..max 0 (min b n) - 1] \<longleftrightarrow> a \<le> x \<and> x < b"
  using assms by auto

lemma repaired_rect:
  assumes "image_ok width height src" and "repaired src width height bad dst"
  shows "ensures_or E (repaired src width height (rect_samples r \<union> bad)) (patch_rect src width height r dst)"
proof -
  define xs where "xs = [max 0 (min (sint (br_left r)) width)..max 0 (min (sint (br_right r)) width) - 1]"
  define ys where "ys = [max 0 (min (sint (br_top r)) height)..max 0 (min (sint (br_bottom r)) height) - 1]"
  have loops: "ensures_or E (repaired src width height (\<Union> ((\<lambda>y. \<Union> ((\<lambda>x. pixel_samples x y) ` set xs)) ` set ys) \<union> bad))
      (fold_res (\<lambda>y dst. fold_res (\<lambda>x dst. patch_pixel src width height x y dst) xs dst) ys dst)"
    by (intro repaired_fold [where P = "repaired src width height"] assms(2) repaired_pixel [OF assms(1)])
  have same: "(x, y, c) \<in> \<Union> ((\<lambda>y. \<Union> ((\<lambda>x. pixel_samples x y) ` set xs)) ` set ys) \<longleftrightarrow> (x, y, c) \<in> rect_samples r"
    if "(x, y, c) \<in> set (samples width height)" for x y c
  proof -
    have "(x, y, c) \<in> \<Union> ((\<lambda>y. \<Union> ((\<lambda>x. pixel_samples x y) ` set xs)) ` set ys) \<longleftrightarrow>
        x \<in> set xs \<and> y \<in> set ys \<and> (c = 0 \<or> c = 1 \<or> c = 2)"
      by (auto simp: pixel_samples_def simp del: set_upto)
    with that show ?thesis
      unfolding xs_def ys_def set_samples by (auto simp: rect_samples_def clamped_range simp del: set_upto)
  qed
  show ?thesis unfolding patch_rect_def Let_def xs_def [symmetric] ys_def [symmetric]
    by (rule ensures_or_mono [OF loops order_refl], erule repaired_cong) (simp add: same [simplified])
qed

section \<open>The list of bad pixels\<close>

lemma repaired_self: "image_ok width height src \<Longrightarrow> repaired src width height {} src"
  by (simp add: repaired_def list_all_iff split: prod.split)

lemma repaired_list:
  assumes "image_ok width height src"
    and "\<And>i. i < unat (dr_point_count r) \<Longrightarrow> points (unat (dr_point_offset r) + i) = Inr (pt i)"
    and "\<And>i. i < unat (dr_rect_count r) \<Longrightarrow> rects (unat (dr_rect_offset r) + i) = Inr (re i)"
  shows "ensures_or E (repaired src width height ((\<Union>i < unat (dr_rect_count r). rect_samples (re i)) \<union>
      (\<Union>i < unat (dr_point_count r). point_samples (pt i)))) (apply_bad_pixels_list r src width height points rects)"
proof -
  have "ensures_or E (repaired src width height (\<Union> ((\<lambda>i. point_samples (pt i)) ` set [0..<unat (dr_point_count r)]) \<union> {}))
      (fold_res (\<lambda>i dst. bind_res (points (unat (dr_point_offset r) + i)) (\<lambda>point.
         patch_pixel src width height (sint (bp_column point)) (sint (bp_row point)) dst))
       [0..<unat (dr_point_count r)] src)"
    by (rule repaired_fold [where P = "repaired src width height"])
       (auto simp: assms(2) point_samples_def intro!: repaired_self repaired_pixel assms(1))
  then show ?thesis unfolding apply_bad_pixels_list_def
  proof (rule ensures_or_bind)
    fix dst assume "repaired src width height (\<Union> ((\<lambda>i. point_samples (pt i)) ` set [0..<unat (dr_point_count r)]) \<union> {}) dst"
    then have "ensures_or E (repaired src width height (\<Union> ((\<lambda>i. rect_samples (re i)) ` set [0..<unat (dr_rect_count r)]) \<union>
        (\<Union> ((\<lambda>i. point_samples (pt i)) ` set [0..<unat (dr_point_count r)]) \<union> {})))
        (fold_res (\<lambda>i dst. bind_res (rects (unat (dr_rect_offset r) + i)) (\<lambda>rect. patch_rect src width height rect dst))
          [0..<unat (dr_rect_count r)] dst)"
      by (rule repaired_fold [where P = "repaired src width height"])
         (auto simp: assms(3) intro!: repaired_rect assms(1))
    then show "ensures_or E (repaired src width height ((\<Union>i < unat (dr_rect_count r). rect_samples (re i)) \<union>
        (\<Union>i < unat (dr_point_count r). point_samples (pt i))))
        (fold_res (\<lambda>i dst. bind_res (rects (unat (dr_rect_offset r) + i)) (\<lambda>rect. patch_rect src width height rect dst))
          [0..<unat (dr_rect_count r)] dst)"
      by (simp add: atLeast0LessThan)
  qed
qed

section \<open>Properties\<close>

text \<open>
  C33: the repair of listed bad pixels. On every image the loop ends, and afterwards exactly the red, green
  and blue samples of the listed points and rectangles that lie inside the image are replaced, each by
  the mean of its up to four neighbours in the image before the repair, rounded to half precision; every
  other sample, the fourth channel included, is unchanged. Overlapping entries and their order make no
  difference, and rectangles that reach outside the image are cut off.
\<close>

theorem bad_pixels_repaired:
  assumes "image_ok width height src"
    and "\<And>i. i < unat (dr_point_count r) \<Longrightarrow> points (unat (dr_point_offset r) + i) = Inr (pt i)"
    and "\<And>i. i < unat (dr_rect_count r) \<Longrightarrow> rects (unat (dr_rect_offset r) + i) = Inr (re i)"
  shows "\<exists>dst. apply_bad_pixels_list r src width height points rects = Inr dst \<and>
    repaired src width height ((\<Union>i < unat (dr_rect_count r). rect_samples (re i)) \<union>
      (\<Union>i < unat (dr_point_count r). point_samples (pt i))) dst"
  using repaired_list [where points = points and pt = pt and rects = rects and re = re and E = "{}", OF assms] by (auto simp: ensures_or_def split: sum.splits)

text \<open>Two pixels, of which the first is bad: it gets the colour of the second.\<close>

definition two_pixels :: image where
  "two_pixels = [0, 0, 0, 0x3C00, 0x3C00, 0x4000, 0x4200, 0x3C00]"

theorem bad_pixels_repaired_witness:
  "\<exists>dst. apply_bad_pixels_list (empty_record\<lparr>dr_point_count := 1\<rparr>) two_pixels 2 1
      (\<lambda>_. Inr \<lparr>bp_row = 0, bp_column = 0\<rparr>) (\<lambda>_. Inl LensRead) = Inr dst \<and>
    repaired two_pixels 2 1 (point_samples \<lparr>bp_row = 0, bp_column = 0\<rparr>) dst"
  using bad_pixels_repaired [of 2 1 two_pixels "empty_record\<lparr>dr_point_count := 1\<rparr>"
      "\<lambda>_. Inr \<lparr>bp_row = 0, bp_column = 0\<rparr>" "\<lambda>_. \<lparr>bp_row = 0, bp_column = 0\<rparr>" "\<lambda>_. Inl LensRead"]
  by (simp add: image_ok_def two_pixels_def empty_record_def lessThan_Suc)

end
