(* ===== verification/Gain_Map_Node.thy ===== *)
theory Gain_Map_Node
  imports Opcode_List2 Lens_Pack Lens_Patch
begin

text \<open>
  The lens shading node: how it checks the gain maps of a DNG file and packs them into the parameter block
  of its filter (\<open>src/cpipe/nodes/lens/shading_gainmap.cpp\<close>), and the filter, which multiplies every sample
  with the gain interpolated from the map of its colour plane
  (\<open>src/cpipe/nodes/lens/shading_gainmap_dispatch.cpp\<close>).
\<close>

unbundle bit_operations_syntax

section \<open>The node\<close>

text \<open>The status and message of the error, or \<open>None\<close> when the maps can be used.\<close>

fun planes_valid :: "bool list \<Rightarrow> gain_map list \<Rightarrow> bool" where
  "planes_valid seen [] \<longleftrightarrow> True"
| "planes_valid seen (m # maps) \<longleftrightarrow>
     (if gm_planes m \<noteq> 4 \<or> unat (gm_plane m) \<ge> length seen \<or> seen ! unat (gm_plane m) then False
      else planes_valid (seen[unat (gm_plane m) := True]) maps)"

definition validate_gain_maps :: "gain_map list \<Rightarrow> (status_code \<times> string) option" where
  "validate_gain_maps gain_maps =
     (if gain_maps = [] then Some (NeedMetadata, ''GainMap opcode missing'')
      else if length gain_maps = 1 \<and> gm_planes (gain_maps ! 0) = 1 \<and> gm_plane (gain_maps ! 0) = 0 then None
      else if length gain_maps \<noteq> 4 then Some (Unsupported, ''GainMap plane set incomplete'')
      else if \<not> planes_valid (replicate 4 False) gain_maps then Some (Unsupported, ''GainMap plane set invalid'')
      else None)"

record gain_plane =
  gp_top :: u32
  gp_left :: u32
  gp_bottom :: u32
  gp_right :: u32
  gp_plane :: u32
  gp_planes :: u32
  gp_map_points_v :: u32
  gp_map_points_h :: u32
  gp_map_spacing_v :: f64
  gp_map_spacing_h :: f64
  gp_map_origin_v :: f64
  gp_map_origin_h :: f64
  gp_gain_offset :: u32
  gp_gain_count :: u32

text \<open>The records of the maps; the offset of the gains is counted in 32 bits.\<close>

fun pack_planes :: "u32 \<Rightarrow> gain_map list \<Rightarrow> gain_plane list" where
  "pack_planes gain_offset [] = []"
| "pack_planes gain_offset (m # maps) =
     (let gain_count = of_nat (length (gm_gain m))
      in \<lparr>gp_top = gm_top m, gp_left = gm_left m, gp_bottom = gm_bottom m, gp_right = gm_right m,
          gp_plane = gm_plane m, gp_planes = gm_planes m, gp_map_points_v = gm_map_points_v m,
          gp_map_points_h = gm_map_points_h m, gp_map_spacing_v = gm_map_spacing_v m,
          gp_map_spacing_h = gm_map_spacing_h m, gp_map_origin_v = gm_map_origin_v m,
          gp_map_origin_h = gm_map_origin_h m, gp_gain_offset = gain_offset, gp_gain_count = gain_count\<rparr> #
         pack_planes (gain_offset + gain_count) maps)"

definition plane_words :: "gain_plane \<Rightarrow> u32 list" where
  "plane_words p = [gp_top p, gp_left p, gp_bottom p, gp_right p, gp_plane p, gp_planes p, gp_map_points_v p,
     gp_map_points_h p] @ u64_words (gp_map_spacing_v p) @ u64_words (gp_map_spacing_h p) @
     u64_words (gp_map_origin_v p) @ u64_words (gp_map_origin_h p) @ [gp_gain_offset p, gp_gain_count p]"

text \<open>Two bytes of padding end the header.\<close>

definition pack_gain_maps :: "u8 list \<Rightarrow> u8 list \<Rightarrow> gain_map list \<Rightarrow> byte list" where
  "pack_gain_maps repeats pattern gain_maps =
     le_bytes (of_nat (length gain_maps)) @ repeats @ pattern @ [0, 0] @
     as_bytes (concat (map plane_words (pack_planes 0 gain_maps)) @ concat (map gm_gain gain_maps))"

section \<open>Interpolation\<close>

record axis_sample =
  ax_low :: u32
  ax_high :: u32
  ax_weight :: fp

definition fp_to_u32 :: "fp \<Rightarrow> u32 option" where
  "fp_to_u32 x =
     (case x of
        FpFin s m e \<Rightarrow>
          let (a, b) = scale_frac e m 1; v = fp_signed s (a div b)
          in if 0 \<le> v \<and> v < 2 ^ 32 then Some (of_int v) else None
      | _ \<Rightarrow> None)"

definition sample_axis :: "fp \<Rightarrow> u32 \<Rightarrow> lens_stop + axis_sample" where
  "sample_axis coord points =
     (if points \<le> 1 \<or> fp_le coord (fp_of_int 0) then Inr \<lparr>ax_low = 0, ax_high = 0, ax_weight = fp_of_int 0\<rparr>
      else
        let last = fp_of_int (uint (points - 1))
        in if fp_le last coord
           then let edge = points - 1 in Inr \<lparr>ax_low = edge, ax_high = edge, ax_weight = fp_of_int 0\<rparr>
           else
             case fp_to_u32 (fp_floor coord) of
               None \<Rightarrow> Inl LensCast
             | Some low \<Rightarrow>
                 Inr \<lparr>ax_low = low, ax_high = low + 1,
                   ax_weight = fp_cast single (dsub coord (fp_of_int (uint low)))\<rparr>)"

definition lerp :: "fp \<Rightarrow> fp \<Rightarrow> fp \<Rightarrow> fp" where
  "lerp a b t = sadd a (smul (ssub b a) t)"

text \<open>\<open>gains i\<close> reads the gain number \<open>i\<close> of the map.\<close>

definition sample_gain :: "gain_plane \<Rightarrow> (u32 \<Rightarrow> lens_stop + f32) \<Rightarrow> u32 \<Rightarrow> u32 \<Rightarrow> lens_stop + fp" where
  "sample_gain m gains x y =
     (let grid_y = ddiv (dsub (fp_of_int (uint y)) (fp_of_f64 (gp_map_origin_v m))) (fp_of_f64 (gp_map_spacing_v m));
          grid_x = ddiv (dsub (fp_of_int (uint x)) (fp_of_f64 (gp_map_origin_h m))) (fp_of_f64 (gp_map_spacing_h m));
          row_stride = gp_map_points_h m
      in bind_res (sample_axis grid_y (gp_map_points_v m)) (\<lambda>sy.
         bind_res (sample_axis grid_x (gp_map_points_h m)) (\<lambda>sx.
         bind_res (gains (ax_low sy * row_stride + ax_low sx)) (\<lambda>g00.
         bind_res (gains (ax_low sy * row_stride + ax_high sx)) (\<lambda>g10.
         bind_res (gains (ax_high sy * row_stride + ax_low sx)) (\<lambda>g01.
         bind_res (gains (ax_high sy * row_stride + ax_high sx)) (\<lambda>g11.
         Inr (lerp (lerp (fp_of_f32 g00) (fp_of_f32 g10) (ax_weight sx))
           (lerp (fp_of_f32 g01) (fp_of_f32 g11) (ax_weight sx)) (ax_weight sy)))))))))"

section \<open>The filter\<close>

text \<open>The colour plane of a sample, and the map for it.\<close>

definition plane_of :: "u8 list \<Rightarrow> u32 \<Rightarrow> u32 \<Rightarrow> u32" where
  "plane_of repeats x y =
     (if repeats ! 0 = 4 \<and> repeats ! 1 = 4 then (y mod 4 div 2) * 2 + x mod 4 div 2
      else (y AND 1) * 2 + (x AND 1))"

definition select_map :: "u8 list \<Rightarrow> gain_plane list \<Rightarrow> u32 \<Rightarrow> u32 \<Rightarrow> gain_plane option" where
  "select_map repeats maps x y =
     (if length maps = 1 then Some (maps ! 0) else find (\<lambda>m. gp_plane m = plane_of repeats x y) maps)"

definition gain_header_bytes :: nat where "gain_header_bytes = 24"
definition gain_plane_bytes :: nat where "gain_plane_bytes = 72"

definition plane_of_words :: "u32 list \<Rightarrow> gain_plane" where
  "plane_of_words ws = \<lparr>gp_top = ws ! 0, gp_left = ws ! 1, gp_bottom = ws ! 2, gp_right = ws ! 3, gp_plane = ws ! 4,
     gp_planes = ws ! 5, gp_map_points_v = ws ! 6, gp_map_points_h = ws ! 7, gp_map_spacing_v = u64_at ws 8,
     gp_map_spacing_h = u64_at ws 10, gp_map_origin_v = u64_at ws 12, gp_map_origin_h = u64_at ws 14,
     gp_gain_offset = ws ! 16, gp_gain_count = ws ! 17\<rparr>"

definition plane_at :: "byte list \<Rightarrow> nat \<Rightarrow> lens_stop + gain_plane" where
  "plane_at blob i =
     bind_res (lens_words blob (gain_header_bytes + i * gain_plane_bytes) 18) (\<lambda>ws. Inr (plane_of_words ws))"

text \<open>A 32-bit element of a buffer at an \<open>int\<close> index, and the offset of a sample of a two-dimensional image.\<close>

definition float_at :: "byte list \<Rightarrow> int \<Rightarrow> lens_stop + f32" where
  "float_at host i = (if 0 \<le> i then lens_word host (4 * nat i) else Inl LensRead)"

definition put_float :: "int \<Rightarrow> f32 \<Rightarrow> byte list \<Rightarrow> lens_stop + byte list" where
  "put_float i v host =
     (if 0 \<le> i \<and> 4 * nat i + 4 \<le> length host
      then Inr (take (4 * nat i) host @ le_bytes v @ drop (4 * nat i + 4) host)
      else Inl LensRead)"

definition sample_offset :: "halide_buffer \<Rightarrow> int \<Rightarrow> int \<Rightarrow> lens_stop + int" where
  "sample_offset b x y =
     bind_res (dim_at b 1) (\<lambda>d1. bind_res (check_i32 (y * hdim_stride d1)) (\<lambda>oy.
     bind_res (dim_at b 0) (\<lambda>d0. bind_res (check_i32 (x * hdim_stride d0)) (\<lambda>ox.
     check_i32 (oy + ox)))))"

definition fp_to_f32 :: "fp \<Rightarrow> f32" where
  "fp_to_f32 x =
     (case x of
        FpFin s m e \<Rightarrow> let (n, d) = scale_frac e m 1 in f32_round s n d
      | FpInf s \<Rightarrow> f32_inf s
      | FpNaN \<Rightarrow> f32_nan)"

text \<open>The loop over the samples: the status and the bytes of the output.\<close>

fun gain_pixels ::
  "(u32 \<Rightarrow> u32 \<Rightarrow> gain_plane option) \<Rightarrow> (gain_plane \<Rightarrow> u32 \<Rightarrow> lens_stop + f32) \<Rightarrow> halide_buffer \<Rightarrow> halide_buffer \<Rightarrow>
     (int \<times> int) list \<Rightarrow> byte list \<Rightarrow> lens_stop + status_code \<times> byte list" where
  "gain_pixels select gains input out [] host = Inr (Ok, host)"
| "gain_pixels select gains input out ((x, y) # ps) host =
     (case select (of_int x) (of_int y) of
        None \<Rightarrow> Inr (NeedMetadata, host)
      | Some m \<Rightarrow>
          bind_res (sample_offset input x y) (\<lambda>in_offset.
          bind_res (sample_offset out x y) (\<lambda>out_offset.
          bind_res (float_at (hb_host input) in_offset) (\<lambda>v.
          bind_res (sample_gain m (gains m) (of_int x) (of_int y)) (\<lambda>gain.
          bind_res (put_float out_offset (fp_to_f32 (smul (fp_of_f32 v) gain)) host) (\<lambda>host.
          gain_pixels select gains input out ps host))))))"

definition plane_fits :: "nat \<Rightarrow> gain_plane \<Rightarrow> bool" where
  "plane_fits gain_bytes m \<longleftrightarrow>
     \<not> (gp_map_points_v m = 0 \<or> gp_map_points_h m = 0 \<or> gp_gain_count m = 0 \<or>
        (unat (gp_gain_offset m) + unat (gp_gain_count m)) * 4 > gain_bytes)"

definition gain_filter ::
  "halide_buffer option list \<Rightarrow> halide_buffer option list \<Rightarrow> byte list option \<Rightarrow> lens_stop + status_code \<times> byte list option" where
  "gain_filter inputs outputs param_blob =
     (case (inputs, outputs, param_blob) of
        ([Some input], [Some out], Some blob) \<Rightarrow>
          if length blob < gain_header_bytes then Inr (BadIndex, None)
          else
            bind_res (lens_word blob 0) (\<lambda>map_count.
            if map_count = 0 \<or> map_count > 4 then Inr (NeedMetadata, None)
            else
              let map_bytes = unat map_count * gain_plane_bytes;
                  gains_offset = gain_header_bytes + map_bytes;
                  repeats = take 2 (drop 4 blob)
              in if length blob < gains_offset then Inr (BadIndex, None)
                 else
                   bind_res (map_res (plane_at blob) [0..<unat map_count]) (\<lambda>maps.
                   if \<not> list_all (plane_fits (length blob - gains_offset)) maps then Inr (BadIndex, None)
                   else
                     bind_res (dim_at input 0) (\<lambda>d0. bind_res (dim_at input 1) (\<lambda>d1.
                     bind_res (gain_pixels (select_map repeats maps)
                         (\<lambda>m i. lens_word blob (gains_offset + 4 * (unat (gp_gain_offset m) + unat i))) input out
                         (positions (hdim_extent d0) (hdim_extent d1)) (hb_host out)) (\<lambda>(status, host).
                     Inr (status, Some host))))))
      | _ \<Rightarrow> Inr (BadIndex, None))"

section \<open>Coordinates are numbers\<close>

lemma uint_f64_exponent: "uint (f64_exponent w) = uint w div 2 ^ 52 mod 2 ^ 11"
  unfolding f64_exponent_def unsigned_take_bit_eq unsigned_drop_bit_eq
  using uint_lt2p [of w] by (simp add: take_bit_eq_mod drop_bit_eq_div)

lemma fp_of_f64_finite:
  assumes "f64_isfinite w"
  shows "\<exists>s m e. fp_of_f64 w = FpFin s m e \<and> (f64_positive w \<longrightarrow> m \<noteq> 0)"
proof -
  have "uint (mask 11 :: f64) = 2 ^ 11 - 1" by (simp add: mask_eq_exp_minus_1)
  with assms have e: "uint w div 2 ^ 52 mod 2 ^ 11 \<noteq> 2 ^ 11 - 1"
    by (metis f64_isfinite_def uint_f64_exponent word_uint_eq_iff)
  have "uint w mod 2 ^ 52 \<noteq> 0" if "uint w div 2 ^ 52 mod 2 ^ 11 = 0" "f64_positive w"
  proof
    assume "uint w mod 2 ^ 52 = 0"
    with that(1) have "uint w mod 2 ^ 63 = 0"
      using mod_mult2_eq' [of "uint w" "2 ^ 52" "2 ^ 11"] by simp
    moreover have "uint (take_bit 63 w) = uint w mod 2 ^ 63"
      unfolding unsigned_take_bit_eq by (simp add: take_bit_eq_mod)
    ultimately have "uint (take_bit 63 w) = 0" by simp
    with that(2) show False by (simp add: f64_positive_def unsigned_eq_0_iff)
  qed
  moreover have "0 \<le> uint w mod 2 ^ 52" by simp
  ultimately show ?thesis using e by (auto simp: fp_of_f64_def fp_decode_def Let_def)
qed

lemma double_not_nan: "double s n d \<noteq> FpNaN"
  by (simp add: double_def fp_round_def Let_def split: prod.split)

lemma dsub_finite: "dsub (FpFin s m e) (FpFin t n f) \<noteq> FpNaN"
  by (simp add: dsub_def fp_sub_def fp_add_def fp_neg_def Let_def double_not_nan split: prod.split)

lemma ddiv_finite: "x \<noteq> FpNaN \<Longrightarrow> n \<noteq> 0 \<Longrightarrow> ddiv x (FpFin t n f) \<noteq> FpNaN"
  by (cases x) (simp_all add: ddiv_def fp_div_def Let_def double_not_nan split: prod.split)

lemma grid_not_nan:
  assumes "f64_isfinite origin" "f64_isfinite spacing" "f64_positive spacing"
  shows "ddiv (dsub (fp_of_int i) (fp_of_f64 origin)) (fp_of_f64 spacing) \<noteq> FpNaN"
proof -
  from fp_of_f64_finite [OF assms(1)] obtain s m e where o: "fp_of_f64 origin = FpFin s m e" by auto
  from fp_of_f64_finite [OF assms(2)] assms(3) obtain t n f where "fp_of_f64 spacing = FpFin t n f" "n \<noteq> 0" by auto
  with o show ?thesis by (simp add: fp_of_int_def ddiv_finite dsub_finite)
qed

text \<open>The reference: indices below and above a coordinate, clamped to the table, and the weight.\<close>

definition axis_of :: "fp \<Rightarrow> nat \<Rightarrow> nat \<times> nat \<times> fp" where
  "axis_of coord n =
     (if n \<le> 1 \<or> fp_le coord (fp_of_int 0) then (0, 0, fp_of_int 0)
      else if fp_le (fp_of_int (int n - 1)) coord then (n - 1, n - 1, fp_of_int 0)
      else
        let low = (case coord of FpFin s m e \<Rightarrow> fp_floor_int s m e | _ \<Rightarrow> 0)
        in (nat low, nat low + 1, fp_cast single (dsub coord (fp_of_int low))))"

definition axis_values :: "axis_sample \<Rightarrow> nat \<times> nat \<times> fp" where
  "axis_values a = (unat (ax_low a), unat (ax_high a), ax_weight a)"

lemma fp_less_of_int:
  assumes "0 \<le> i"
  shows "fp_less (FpFin s m e) (fp_of_int i) \<longleftrightarrow> fp_signed s m * 2 ^ nat e < i * 2 ^ nat (- e)"
  using assms by (cases "0 \<le> e") (auto simp: fp_less_def fp_of_int_def fp_signed_def Let_def min_def)

lemma floor_less:
  assumes "fp_signed s m * 2 ^ nat e < i * 2 ^ nat (- e)"
  shows "fp_floor_int s m e < i"
proof (cases "0 \<le> e")
  case True
  with assms show ?thesis by (simp add: fp_floor_int_def scale_frac_def)
next
  case False
  with assms have "fp_signed s m < i * 2 ^ nat (- e)" by simp
  moreover have "fp_signed s m div 2 ^ nat (- e) * 2 ^ nat (- e) \<le> fp_signed s m"
    by (simp add: minus_mod_eq_div_mult [symmetric])
  ultimately have "fp_signed s m div 2 ^ nat (- e) * 2 ^ nat (- e) < i * 2 ^ nat (- e)" by linarith
  then have "fp_signed s m div 2 ^ nat (- e) < i" by (simp add: mult_less_cancel_right)
  with False show ?thesis by (simp add: fp_floor_int_def scale_frac_def)
qed

lemma floor_coord:
  assumes "coord \<noteq> FpNaN" and "\<not> fp_le coord (fp_of_int 0)" and "\<not> fp_le (fp_of_int i) coord" and "0 \<le> i" "i < 2 ^ 32"
  shows "\<exists>s m e. coord = FpFin s m e \<and> 0 \<le> fp_floor_int s m e \<and> fp_floor_int s m e < i \<and>
    fp_to_u32 (fp_floor coord) = Some (of_int (fp_floor_int s m e))"
proof -
  have less: "fp_less (fp_of_int 0) coord" "fp_less coord (fp_of_int i)"
    using assms(1-3) by (simp_all add: fp_le_def fp_of_int_def)
  then obtain s m e where c: "coord = FpFin s m e"
    by (cases coord) (auto simp: fp_less_def fp_of_int_def split: if_splits)
  have "fp_floor_int s m e < i" using less(2) assms(4) unfolding c by (intro floor_less) (simp add: fp_less_of_int)
  moreover have "0 \<le> fp_floor_int s m e"
  proof -
    have "\<not> fp_signed s m < 0" using less(1) unfolding c
      by (auto simp: fp_less_int zero_less_mult_iff)
    then show ?thesis using less(2) assms(4) unfolding c
      by (intro conjunct1 [OF floor_bounds [where i = i]]) (auto simp: fp_less_of_int)
  qed
  moreover from this \<open>fp_floor_int s m e < i\<close> assms(5)
  have "fp_to_u32 (fp_floor coord) = Some (of_int (fp_floor_int s m e))"
    by (cases s) (auto simp: c fp_to_u32_def fp_floor_def scale_frac_def fp_signed_def Let_def)
  ultimately show ?thesis using c by blast
qed

lemma sample_axis_of:
  assumes "coord \<noteq> FpNaN" and "points \<noteq> 0"
  shows "\<exists>a. sample_axis coord points = Inr a \<and> axis_values a = axis_of coord (unat points) \<and>
    unat (ax_low a) < unat points \<and> unat (ax_high a) < unat points"
proof (cases "points \<le> 1 \<or> fp_le coord (fp_of_int 0)")
  case True
  moreover have "points \<le> 1 \<longleftrightarrow> unat points \<le> 1" by (simp add: word_le_nat_alt)
  moreover have "0 < unat points" using assms(2) by (simp add: unat_gt_0)
  ultimately show ?thesis by (auto simp: sample_axis_def axis_of_def axis_values_def)
next
  case False
  then have p: "1 < unat points" by (simp add: word_le_nat_alt not_le)
  have m: "unat (points - 1) = unat points - 1" using p by (simp add: unat_minus_one assms(2))
  then have u: "uint (points - 1) = int (unat points) - 1" using p unfolding uint_nat m by (simp add: of_nat_diff)
  show ?thesis
  proof (cases "fp_le (fp_of_int (uint (points - 1))) coord")
    case True
    with False p m u show ?thesis by (simp add: sample_axis_def axis_of_def axis_values_def Let_def word_le_nat_alt)
  next
    case inner: False
    have "uint (points - 1) < 2 ^ 32" using uint_lt2p [of "points - 1"] by simp
    with floor_coord [of coord "uint (points - 1)"] assms(1) False inner
    obtain s mm e where c: "coord = FpFin s mm e" "0 \<le> fp_floor_int s mm e" "fp_floor_int s mm e < uint (points - 1)"
      "fp_to_u32 (fp_floor coord) = Some (of_int (fp_floor_int s mm e))" by auto
    have "uint points < 2 ^ 32" using uint_lt2p [of points] by simp
    define low where "low = fp_floor_int s mm e"
    have low: "0 \<le> low" "low + 1 < int (unat points)" using c u by (simp_all add: low_def)
    have n: "unat (of_int low :: u32) = nat low" "unat (of_int low + 1 :: u32) = nat low + 1" "uint (of_int low :: u32) = low"
    proof -
      have "nat low + 1 < 2 ^ 32" using low uint_lt2p [of points] by simp
      then have "unat (of_nat (nat low) :: u32) = nat low" "unat (of_nat (nat low + 1) :: u32) = nat low + 1"
        by (simp_all only: unsigned_of_nat) (simp_all add: take_bit_nat_eq_self)
      moreover have "(of_nat (nat low) :: u32) = of_int low" using low(1) by simp
      ultimately show "unat (of_int low :: u32) = nat low" "unat (of_int low + 1 :: u32) = nat low + 1"
        by (simp_all add: add.commute)
      then show "uint (of_int low :: u32) = low" using low(1) by (simp add: uint_nat)
    qed
    have "nat low + 1 < unat points" using low by linarith
    then show ?thesis using False inner p u low n c(1,4)
      by (simp add: sample_axis_def axis_of_def axis_values_def Let_def low_def word_le_nat_alt)
  qed
qed

section \<open>The block\<close>

definition plane_record :: "u32 \<Rightarrow> gain_map \<Rightarrow> gain_plane" where
  "plane_record gain_offset m = hd (pack_planes gain_offset [m])"

lemma pack_planes_Cons:
  "pack_planes a (m # maps) = plane_record a m # pack_planes (a + of_nat (length (gm_gain m))) maps"
  by (simp add: plane_record_def Let_def)

text \<open>The number of gains before the map number \<open>i\<close>.\<close>

definition gain_start :: "gain_map list \<Rightarrow> nat \<Rightarrow> nat" where
  "gain_start maps i = length (concat (map gm_gain (take i maps)))"

lemma gain_start_simps [simp]:
  "gain_start maps 0 = 0" "gain_start (m # maps) (Suc i) = length (gm_gain m) + gain_start maps i"
  by (simp_all add: gain_start_def)

lemma length_pack_planes [simp]: "length (pack_planes a maps) = length maps"
  by (induction maps arbitrary: a) (simp_all add: Let_def)

lemma pack_planes_nth:
  "i < length maps \<Longrightarrow> pack_planes a maps ! i = plane_record (a + of_nat (gain_start maps i)) (maps ! i)"
proof (induction maps arbitrary: a i)
  case (Cons m maps)
  then show ?case by (cases i) (simp_all add: pack_planes_Cons add.assoc del: pack_planes.simps(2))
qed simp

lemma gain_nth:
  "i < length maps \<Longrightarrow> j < length (gm_gain (maps ! i)) \<Longrightarrow>
     concat (map gm_gain maps) ! (gain_start maps i + j) = gm_gain (maps ! i) ! j"
proof (induction maps arbitrary: i)
  case (Cons m maps)
  then show ?case by (cases i) (simp_all add: nth_append add.assoc)
qed simp

lemma gain_start_bound:
  "i < length maps \<Longrightarrow> gain_start maps i + length (gm_gain (maps ! i)) \<le> length (concat (map gm_gain maps))"
proof (induction maps arbitrary: i)
  case (Cons m maps)
  then show ?case by (cases i) (simp_all add: add.assoc)
qed simp

lemma plane_record_fields [simp]:
  "gp_plane (plane_record a m) = gm_plane m" "gp_map_points_v (plane_record a m) = gm_map_points_v m"
  "gp_map_points_h (plane_record a m) = gm_map_points_h m" "gp_map_spacing_v (plane_record a m) = gm_map_spacing_v m"
  "gp_map_spacing_h (plane_record a m) = gm_map_spacing_h m" "gp_map_origin_v (plane_record a m) = gm_map_origin_v m"
  "gp_map_origin_h (plane_record a m) = gm_map_origin_h m" "gp_gain_offset (plane_record a m) = a"
  "gp_gain_count (plane_record a m) = of_nat (length (gm_gain m))"
  by (simp_all add: plane_record_def Let_def)

lemma plane_words_back: "length (plane_words p) = 18" "plane_of_words (plane_words p) = p"
  by (simp_all add: plane_words_def plane_of_words_def u64_words_def u64_at_def u64_words_join)

lemma lens_word_append: "lens_word (pre @ bytes) (length pre + i) = lens_word bytes i"
  using le_word_drop [of "pre @ bytes" "length pre + i"] le_word_drop [of bytes i] by (simp add: lens_word_def)

lemma lens_words_append: "lens_words (pre @ bytes) (length pre + i) n = lens_words bytes i n"
  using lens_word_append [of pre bytes] by (simp add: lens_words_def add.assoc)

text \<open>What the filter finds in a packed block.\<close>

lemma packed_block:
  fixes maps :: "gain_map list"
  assumes "length repeats = 2" "length pattern = 16" and "length maps < 2 ^ 32"
  defines "blob \<equiv> pack_gain_maps repeats pattern maps" and "base \<equiv> gain_header_bytes + length maps * gain_plane_bytes"
  shows "lens_word blob 0 = Inr (of_nat (length maps))"
    and "take 2 (drop 4 blob) = repeats"
    and "map_res (plane_at blob) [0..<length maps] = Inr (pack_planes 0 maps)"
    and "length blob = base + 4 * length (concat (map gm_gain maps))"
    and "i < length (concat (map gm_gain maps)) \<Longrightarrow> lens_word blob (base + 4 * i) = Inr (concat (map gm_gain maps) ! i)"
proof -
  define pre where "pre = le_bytes (of_nat (length maps)) @ repeats @ pattern @ [0, 0]"
  define P where "P = concat (map plane_words (pack_planes 0 maps))"
  define G where "G = concat (map gm_gain maps)"
  have blob: "blob = pre @ as_bytes (P @ G)" by (simp add: blob_def pack_gain_maps_def pre_def P_def G_def)
  have pre: "length pre = 24" using assms(1,2) by (simp add: pre_def)
  have P: "length P = length maps * 18"
    using length_concat_chunks [of "pack_planes 0 maps" plane_words 18] plane_words_back(1) unfolding P_def by simp
  show "lens_word blob 0 = Inr (of_nat (length maps))"
    using le_word_le_bytes [of "of_nat (length maps)"] by (simp add: blob pre_def lens_word_def)
  show "take 2 (drop 4 blob) = repeats" using assms(1) by (simp add: blob pre_def)
  show "length blob = base + 4 * length (concat (map gm_gain maps))"
    by (simp add: blob pre length_as_bytes P base_def gain_header_bytes_def gain_plane_bytes_def G_def)
  have "plane_at blob i = Inr (pack_planes 0 maps ! i)" if "i < length maps" for i
  proof -
    have "(i + 1) * 18 \<le> length maps * 18" using that by (intro mult_right_mono) simp_all
    then have "lens_words (as_bytes (P @ G)) (4 * (i * 18)) 18 = Inr (take 18 (drop (i * 18) (P @ G)))"
      using P by (intro lens_words_as_bytes) simp_all
    also have "take 18 (drop (i * 18) (P @ G)) = plane_words (pack_planes 0 maps ! i)"
      using concat_chunk [of "pack_planes 0 maps" plane_words 18 i G] plane_words_back(1) that unfolding P_def by simp
    finally have "lens_words blob (length pre + 4 * (i * 18)) 18 = Inr (plane_words (pack_planes 0 maps ! i))"
      unfolding blob lens_words_append .
    then show ?thesis
      by (simp add: plane_at_def gain_header_bytes_def gain_plane_bytes_def pre plane_words_back mult.commute)
  qed
  then have "map_res (plane_at blob) [0..<length maps] = Inr (map ((!) (pack_planes 0 maps)) [0..<length maps])"
    by (intro map_res_Inr) simp
  then show "map_res (plane_at blob) [0..<length maps] = Inr (pack_planes 0 maps)"
    using map_nth [of "pack_planes 0 maps"] by simp
  show "lens_word blob (base + 4 * i) = Inr (concat (map gm_gain maps) ! i)" if "i < length (concat (map gm_gain maps))"
  proof -
    have "lens_word (as_bytes (P @ G)) (4 * (length P + i)) = Inr ((P @ G) ! (length P + i))"
      using le_word_as_bytes [of "length P + i" "P @ G"] that by (simp add: lens_word_def G_def)
    then have "lens_word blob (length pre + 4 * (length P + i)) = Inr (G ! i)"
      unfolding blob lens_word_append by simp
    then show ?thesis
      by (simp add: pre P base_def gain_header_bytes_def gain_plane_bytes_def G_def algebra_simps)
  qed
qed

section \<open>The map of a sample\<close>

lemma planes_valid_distinct:
  assumes "planes_valid seen maps"
  shows "distinct (map (\<lambda>m. unat (gm_plane m)) maps) \<and>
    (\<forall>m \<in> set maps. unat (gm_plane m) < length seen \<and> \<not> seen ! unat (gm_plane m))"
  using assms
proof (induction maps arbitrary: seen)
  case (Cons m maps)
  let ?k = "unat (gm_plane m)"
  from Cons.prems have k: "?k < length seen" "\<not> seen ! ?k" "planes_valid (seen[?k := True]) maps"
    by (auto split: if_splits)
  from Cons.IH [OF k(3)] have IH: "distinct (map (\<lambda>m. unat (gm_plane m)) maps)"
    "\<forall>m' \<in> set maps. unat (gm_plane m') < length seen \<and> \<not> seen[?k := True] ! unat (gm_plane m')" by simp_all
  moreover from IH(2) k(1) have "unat (gm_plane m') \<noteq> ?k \<and> \<not> seen ! unat (gm_plane m')" if "m' \<in> set maps" for m'
    using that by (cases "unat (gm_plane m') = ?k") auto
  ultimately show ?case using k by auto
qed simp

lemma planes_complete:
  assumes "planes_valid (replicate 4 False) maps" and "length maps = 4" and "unat k < 4"
  shows "\<exists>m \<in> set maps. gm_plane m = k"
proof -
  let ?S = "(\<lambda>m. unat (gm_plane m)) ` set maps"
  from planes_valid_distinct [OF assms(1)]
  have "distinct (map (\<lambda>m. unat (gm_plane m)) maps)" "?S \<subseteq> {..<4}" by auto
  moreover from this(1) have "card ?S = 4" using distinct_card [of "map (\<lambda>m. unat (gm_plane m)) maps"] assms(2) by simp
  ultimately have "?S = {..<4}" by (intro card_subset_eq) simp_all
  with assms(3) have "unat k \<in> ?S" by simp
  then show ?thesis by (auto simp: word_unat_eq_iff)
qed

lemma plane_of_less: "unat (plane_of repeats x y) < 4"
proof -
  have bit: "\<exists>b :: bool. w AND 1 = of_bool b" for w :: u32 by (simp add: and_one_eq mod2_eq_if) metis
  have quad: "\<exists>b :: bool. w mod 4 div 2 = of_bool b" for w :: u32
  proof -
    have "unat (w mod 4 div 2) = unat w mod 4 div 2" by (simp add: unat_div_distrib unat_mod_distrib)
    moreover have "unat w mod 4 div 2 = 0 \<or> unat w mod 4 div 2 = 1" by arith
    ultimately have "w mod 4 div 2 = 0 \<or> w mod 4 div 2 = 1" unfolding word_unat_eq_iff by simp
    then show ?thesis by (metis of_bool_eq)
  qed
  have sum: "unat (of_bool a * 2 + of_bool b :: u32) < 4" for a b :: bool by (cases a; cases b) simp_all
  show ?thesis using bit [of x] bit [of y] quad [of x] quad [of y] by (auto simp: plane_of_def sum)
qed

text \<open>The reference: the map whose plane is that of the sample, or the only map.\<close>

definition map_for :: "u8 list \<Rightarrow> gain_map list \<Rightarrow> u32 \<Rightarrow> u32 \<Rightarrow> gain_map" where
  "map_for repeats maps x y =
     (if length maps = 1 then maps ! 0 else the (find (\<lambda>m. gm_plane m = plane_of repeats x y) maps))"

lemma find_planes:
  assumes "find (\<lambda>m. gm_plane m = k) maps = Some m"
  shows "\<exists>i < length maps. maps ! i = m \<and> find (\<lambda>p. gp_plane p = k) (pack_planes a maps) = Some (pack_planes a maps ! i)"
  using assms
proof (induction maps arbitrary: a)
  case (Cons m' maps)
  show ?case
  proof (cases "gm_plane m' = k")
    case False
    with Cons.prems have "find (\<lambda>m. gm_plane m = k) maps = Some m" by simp
    from Cons.IH [OF this] obtain i where "i < length maps" "maps ! i = m"
      "find (\<lambda>p. gp_plane p = k) (pack_planes (a + of_nat (length (gm_gain m'))) maps) =
        Some (pack_planes (a + of_nat (length (gm_gain m'))) maps ! i)" by blast
    with False show ?thesis by (intro exI [of _ "Suc i"]) (simp add: pack_planes_Cons del: pack_planes.simps(2))
  qed (use Cons.prems in \<open>auto intro!: exI [of _ 0] simp: pack_planes_Cons simp del: pack_planes.simps(2)\<close>)
qed simp

lemma select_map_valid:
  assumes "validate_gain_maps maps = None"
  shows "\<exists>i < length maps. maps ! i = map_for repeats maps x y \<and>
    select_map repeats (pack_planes 0 maps) x y = Some (pack_planes 0 maps ! i)"
proof (cases "length maps = 1")
  case True
  then show ?thesis by (intro exI [of _ 0]) (simp add: map_for_def select_map_def)
next
  case False
  with assms have v: "length maps = 4" "planes_valid (replicate 4 False) maps"
    by (simp_all add: validate_gain_maps_def split: if_splits)
  have "find (\<lambda>m. gm_plane m = plane_of repeats x y) maps \<noteq> None"
    using planes_complete [OF v(2,1) plane_of_less, of repeats x y] by (auto simp: find_None_iff)
  then obtain m where "find (\<lambda>m. gm_plane m = plane_of repeats x y) maps = Some m" by blast
  with find_planes [OF this, of 0] False show ?thesis by (auto simp: map_for_def select_map_def)
qed

section \<open>The gain of a sample\<close>

definition gain_of :: "gain_map \<Rightarrow> u32 \<Rightarrow> u32 \<Rightarrow> fp" where
  "gain_of m x y =
     (let (row, row', ty) = axis_of (ddiv (dsub (fp_of_int (uint y)) (fp_of_f64 (gm_map_origin_v m)))
            (fp_of_f64 (gm_map_spacing_v m))) (unat (gm_map_points_v m));
          (col, col', tx) = axis_of (ddiv (dsub (fp_of_int (uint x)) (fp_of_f64 (gm_map_origin_h m)))
            (fp_of_f64 (gm_map_spacing_h m))) (unat (gm_map_points_h m));
          gain = (\<lambda>r c. fp_of_f32 (gm_gain m ! (r * unat (gm_map_points_h m) + c)))
      in lerp (lerp (gain row col) (gain row col') tx) (lerp (gain row' col) (gain row' col') tx) ty)"

lemma table_index:
  fixes r c v h :: u32
  assumes "unat r < unat v" "unat c < unat h" "unat v * unat h < 2 ^ 30"
  shows "unat (r * h + c) = unat r * unat h + unat c" and "unat r * unat h + unat c < unat v * unat h"
proof -
  have "(unat r + 1) * unat h \<le> unat v * unat h" using assms(1) by (intro mult_right_mono) simp_all
  with assms(2) show b: "unat r * unat h + unat c < unat v * unat h" by simp
  then have "unat r * unat h < 2 ^ 32" "unat r * unat h + unat c < 2 ^ 32" using assms(3) by simp_all
  then show "unat (r * h + c) = unat r * unat h + unat c" by (simp add: unat_word_ariths)
qed

lemma sample_gain_of:
  assumes "gain_map_wf m" and "length (gm_gain m) < 2 ^ 30"
    and "\<And>i. unat i < length (gm_gain m) \<Longrightarrow> gains i = Inr (gm_gain m ! unat i)"
  shows "sample_gain (plane_record a m) gains x y = Inr (gain_of m x y)"
proof -
  from assms(1) have shape: "f64_isfinite (gm_map_spacing_v m)" "f64_isfinite (gm_map_spacing_h m)"
    "f64_positive (gm_map_spacing_v m)" "f64_positive (gm_map_spacing_h m)" "f64_isfinite (gm_map_origin_v m)"
    "f64_isfinite (gm_map_origin_h m)" and size: "length (gm_gain m) = unat (gm_map_points_v m) * unat (gm_map_points_h m)"
    and "gm_gain m \<noteq> []"
    by (simp_all add: gain_map_wf_def valid_required_shape_def)
  then have pts: "gm_map_points_v m \<noteq> 0" "gm_map_points_h m \<noteq> 0" by auto
  from sample_axis_of [OF grid_not_nan [OF shape(5,1,3), of "uint y"] pts(1)]
  obtain sy where sy: "sample_axis (ddiv (dsub (fp_of_int (uint y)) (fp_of_f64 (gm_map_origin_v m)))
      (fp_of_f64 (gm_map_spacing_v m))) (gm_map_points_v m) = Inr sy"
    "axis_of (ddiv (dsub (fp_of_int (uint y)) (fp_of_f64 (gm_map_origin_v m))) (fp_of_f64 (gm_map_spacing_v m)))
      (unat (gm_map_points_v m)) = axis_values sy"
    "unat (ax_low sy) < unat (gm_map_points_v m)" "unat (ax_high sy) < unat (gm_map_points_v m)" by auto
  from sample_axis_of [OF grid_not_nan [OF shape(6,2,4), of "uint x"] pts(2)]
  obtain sx where sx: "sample_axis (ddiv (dsub (fp_of_int (uint x)) (fp_of_f64 (gm_map_origin_h m)))
      (fp_of_f64 (gm_map_spacing_h m))) (gm_map_points_h m) = Inr sx"
    "axis_of (ddiv (dsub (fp_of_int (uint x)) (fp_of_f64 (gm_map_origin_h m))) (fp_of_f64 (gm_map_spacing_h m)))
      (unat (gm_map_points_h m)) = axis_values sx"
    "unat (ax_low sx) < unat (gm_map_points_h m)" "unat (ax_high sx) < unat (gm_map_points_h m)" by auto
  have g: "gains (r * gm_map_points_h m + c) = Inr (gm_gain m ! (unat r * unat (gm_map_points_h m) + unat c))"
    if "unat r < unat (gm_map_points_v m)" "unat c < unat (gm_map_points_h m)" for r c
    using table_index [OF that] assms(2,3) size by simp
  show ?thesis
    by (simp add: sample_gain_def gain_of_def Let_def sy sx g axis_values_def)
qed

section \<open>The loop over the samples\<close>

text \<open>The view of a dense image with one channel of 32 bits.\<close>

definition dense_plane :: "int \<Rightarrow> int \<Rightarrow> halide_buffer \<Rightarrow> bool" where
  "dense_plane width height b \<longleftrightarrow> hb_dims b = [\<lparr>hdim_min = 0, hdim_extent = width, hdim_stride = 1\<rparr>,
      \<lparr>hdim_min = 0, hdim_extent = height, hdim_stride = width\<rparr>] \<and> 4 * (width * height) \<le> int (length (hb_host b))"

lemma position_bound:
  fixes width height x y :: int
  assumes "0 \<le> x" "x < width" "0 \<le> y" "y < height"
  shows "0 \<le> y * width" "y * width + x < width * height"
proof -
  show "0 \<le> y * width" using assms by simp
  have "y * width + x < (y + 1) * width" using assms by (simp add: distrib_right)
  also have "\<dots> \<le> height * width" using assms by (intro mult_right_mono) auto
  finally show "y * width + x < width * height" by (simp add: mult.commute)
qed

lemma sample_offset_dense:
  assumes "dense_plane width height b" and "width * height < 2 ^ 31" and "0 \<le> x" "x < width" "0 \<le> y" "y < height"
  shows "sample_offset b x y = Inr (y * width + x)"
proof -
  have "in_int32 (y * width)" "in_int32 x" "in_int32 (y * width + x)"
    using position_bound [OF assms(3-)] assms(2,3) unfolding in_int32_def by linarith+
  with assms(1) show ?thesis by (simp add: sample_offset_def dense_plane_def dim_at_def check_i32_def)
qed

lemma byte_at_put:
  assumes "4 * i + 4 \<le> length host" and "k < 4 * i \<or> 4 * i + 4 \<le> k"
  shows "byte_at (take (4 * i) host @ le_bytes v @ drop (4 * i + 4) host) k = byte_at host k"
  using assms by (auto simp: byte_at_def nth_append)

lemma float_at_put:
  assumes "put_float i v host = Inr host'" and "0 \<le> j"
  shows "length host' = length host" and "float_at host' j = (if j = i then Inr v else float_at host j)"
proof -
  from assms(1) have i: "0 \<le> i" "4 * nat i + 4 \<le> length host"
    and h: "host' = take (4 * nat i) host @ le_bytes v @ drop (4 * nat i + 4) host"
    by (simp_all add: put_float_def split: if_splits)
  from i show "length host' = length host" by (simp add: h)
  show "float_at host' j = (if j = i then Inr v else float_at host j)"
  proof (cases "j = i")
    case True
    have "le_word host' (4 * nat i) = le_word (le_bytes v @ drop (4 * nat i + 4) host) 0"
      using i(2) le_word_drop [of host' "4 * nat i"] by (simp add: h)
    with True i(1) show ?thesis by (simp add: float_at_def lens_word_def le_word_le_bytes)
  next
    case False
    with assms(2) i(1) have "nat j < nat i \<or> nat i < nat j" by linarith
    then have "byte_at host' (4 * nat j + k) = byte_at host (4 * nat j + k)" if "k < 4" for k
      unfolding h using that by (intro byte_at_put [OF i(2)]) linarith
    from this [of 0] this [of 1] this [of 2] this [of 3] False
    show ?thesis by (simp add: float_at_def lens_word_def le_word_def)
  qed
qed

lemma float_at_Inr:
  assumes "0 \<le> i" "4 * nat i + 4 \<le> length host"
  shows "\<exists>v. float_at host i = Inr v"
  using assms by (simp add: float_at_def lens_word_def le_word_def byte_at_def)

lemma dense_element:
  assumes "dense_plane width height b" and "0 \<le> x" "x < width" "0 \<le> y" "y < height"
  shows "4 * nat (y * width + x) + 4 \<le> length (hb_host b)"
  using position_bound [OF assms(2-)] assms(1,2) unfolding dense_plane_def by linarith

lemma distinct_positions: "distinct (positions width height)"
proof -
  have "positions width height = map prod.swap (List.product [0..height - 1] [0..width - 1])"
    by (simp add: positions_def product_concat_map map_concat comp_def)
  then show ?thesis by (simp add: distinct_map distinct_product)
qed

text \<open>The value the filter has to write.\<close>

definition shaded :: "halide_buffer \<Rightarrow> int \<Rightarrow> (u32 \<Rightarrow> u32 \<Rightarrow> fp) \<Rightarrow> int \<times> int \<Rightarrow> lens_stop + f32" where
  "shaded input width gain pos =
     (case pos of (x, y) \<Rightarrow>
        bind_res (float_at (hb_host input) (y * width + x)) (\<lambda>v.
        Inr (fp_to_f32 (smul (fp_of_f32 v) (gain (of_int x) (of_int y))))))"

lemma gain_pixels_shaded:
  assumes "dense_plane width height input" "dense_plane width height out" and "width * height < 2 ^ 31"
    and "\<And>x y. \<exists>m. select x y = Some m \<and> sample_gain m (gains m) x y = Inr (gain x y)"
    and "set ps \<subseteq> set (positions width height)" and "distinct ps" and "length host = length (hb_host out)"
  shows "\<exists>host'. gain_pixels select gains input out ps host = Inr (Ok, host') \<and> length host' = length host \<and>
    (\<forall>x y. (x, y) \<in> set (positions width height) \<longrightarrow> float_at host' (y * width + x) =
      (if (x, y) \<in> set ps then shaded input width gain (x, y) else float_at host (y * width + x)))"
  using assms(5-)
proof (induction ps arbitrary: host)
  case (Cons p ps)
  obtain x y where p: "p = (x, y)" by (cases p)
  with Cons.prems(1) have b: "0 \<le> x" "x < width" "0 \<le> y" "y < height" by (auto simp: set_positions)
  from assms(4) obtain m where m: "select (of_int x) (of_int y) = Some m"
    "sample_gain m (gains m) (of_int x) (of_int y) = Inr (gain (of_int x) (of_int y))" by blast
  note off = sample_offset_dense [OF assms(1,3) b] sample_offset_dense [OF assms(2,3) b]
  note pb = position_bound [OF b]
  obtain v where v: "float_at (hb_host input) (y * width + x) = Inr v"
    using float_at_Inr [OF _ dense_element [OF assms(1) b]] pb b by auto
  define w where "w = fp_to_f32 (smul (fp_of_f32 v) (gain (of_int x) (of_int y)))"
  obtain host1 where put: "put_float (y * width + x) w host = Inr host1"
    using dense_element [OF assms(2) b] pb b Cons.prems(3) by (simp add: put_float_def)
  from float_at_put [OF put] have l1: "length host1 = length host"
    and f1: "\<And>j. 0 \<le> j \<Longrightarrow> float_at host1 j = (if j = y * width + x then Inr w else float_at host j)" by blast+
  from Cons.IH [of host1] Cons.prems l1 obtain host' where h: "gain_pixels select gains input out ps host1 = Inr (Ok, host')"
    "length host' = length host1" "\<And>x y. (x, y) \<in> set (positions width height) \<Longrightarrow> float_at host' (y * width + x) =
      (if (x, y) \<in> set ps then shaded input width gain (x, y) else float_at host1 (y * width + x))" by auto
  have "float_at host' (y' * width + x') =
      (if (x', y') \<in> set (p # ps) then shaded input width gain (x', y') else float_at host (y' * width + x'))"
    if "(x', y') \<in> set (positions width height)" for x' y'
  proof -
    have b': "0 \<le> x'" "x' < width" "0 \<le> y'" "y' < height" using that by (simp_all add: set_positions)
    have "0 \<le> y' * width + x'" using position_bound(1) [OF b'] b' by simp
    moreover have "y' * width + x' = y * width + x \<longleftrightarrow> (x', y') = (x, y)"
      using row_inj [of y' width x' y x] b b' by auto
    ultimately show ?thesis using h(3) [OF that] Cons.prems(2)
      by (auto simp: f1 p shaded_def v w_def)
  qed
  moreover have "gain_pixels select gains input out (p # ps) host = Inr (Ok, host')"
    by (simp add: p m off v put w_def [symmetric] h(1))
  ultimately show ?case using h(2) l1 by auto
qed simp

section \<open>The block and the loop together\<close>

text \<open>What the node passes to its filter: accepted maps of the parser, with tables below 2 ^ 30 gains.\<close>

definition maps_ok :: "gain_map list \<Rightarrow> bool" where
  "maps_ok maps \<longleftrightarrow> validate_gain_maps maps = None \<and> list_all gain_map_wf maps \<and>
     list_all (\<lambda>m. length (gm_gain m) < 2 ^ 30) maps"

lemma maps_ok_length: "maps_ok maps \<Longrightarrow> 0 < length maps \<and> length maps \<le> 4"
  by (auto simp: maps_ok_def validate_gain_maps_def split: if_splits)

lemma length_gains: "list_all (\<lambda>m. length (gm_gain m) < Suc k) maps \<Longrightarrow> length (concat (map gm_gain maps)) \<le> length maps * k"
  by (induction maps) auto

lemma maps_ok_total:
  assumes "maps_ok maps"
  shows "length (concat (map gm_gain maps)) < 2 ^ 32"
proof -
  have "length (concat (map gm_gain maps)) \<le> length maps * (2 ^ 30 - 1)"
    using assms by (intro length_gains) (simp add: maps_ok_def)
  also have "\<dots> \<le> 4 * (2 ^ 30 - 1)" using maps_ok_length [OF assms] by (intro mult_right_mono) simp_all
  finally show ?thesis by simp
qed

lemma plane_offset:
  assumes "maps_ok maps" and "i < length maps"
  shows "pack_planes 0 maps ! i = plane_record (of_nat (gain_start maps i)) (maps ! i)"
    and "unat (of_nat (gain_start maps i) :: u32) = gain_start maps i"
    and "unat (of_nat (length (gm_gain (maps ! i))) :: u32) = length (gm_gain (maps ! i))"
proof -
  show "pack_planes 0 maps ! i = plane_record (of_nat (gain_start maps i)) (maps ! i)"
    using pack_planes_nth [OF assms(2), of 0] by simp
  have u: "unat (of_nat k :: u32) = k" if "k < 2 ^ 32" for k
    using that by (simp add: unsigned_of_nat take_bit_nat_eq_self)
  from gain_start_bound [OF assms(2)] maps_ok_total [OF assms(1)]
  show "unat (of_nat (gain_start maps i) :: u32) = gain_start maps i"
    "unat (of_nat (length (gm_gain (maps ! i))) :: u32) = length (gm_gain (maps ! i))"
    by (intro u; linarith)+
qed

lemma planes_fit:
  assumes "maps_ok maps"
  shows "list_all (plane_fits (4 * length (concat (map gm_gain maps)))) (pack_planes 0 maps)"
  unfolding list_all_length
proof (intro allI impI)
  fix i assume "i < length (pack_planes 0 maps)"
  then have i: "i < length maps" by simp
  let ?m = "maps ! i"
  have "gain_map_wf ?m" using assms i by (simp add: maps_ok_def list_all_length)
  then have "gm_gain ?m \<noteq> []" "length (gm_gain ?m) = unat (gm_map_points_v ?m) * unat (gm_map_points_h ?m)"
    by (simp_all add: gain_map_wf_def)
  then have "length (gm_gain ?m) \<noteq> 0" "unat (gm_map_points_v ?m) * unat (gm_map_points_h ?m) \<noteq> 0" by (simp_all flip: length_0_conv)
  then have "gm_map_points_v ?m \<noteq> 0" "gm_map_points_h ?m \<noteq> 0" "length (gm_gain ?m) \<noteq> 0" by auto
  moreover from this(3) have "of_nat (length (gm_gain ?m)) \<noteq> (0 :: u32)"
    using plane_offset(3) [OF assms i] by (metis unat_0)
  ultimately show "plane_fits (4 * length (concat (map gm_gain maps))) (pack_planes 0 maps ! i)"
    using gain_start_bound [OF i] by (simp add: plane_fits_def plane_offset [OF assms i])
qed

lemma selected_gain:
  assumes "maps_ok maps" and "\<And>i. i < length (concat (map gm_gain maps)) \<Longrightarrow> word i = Inr (concat (map gm_gain maps) ! i)"
  shows "\<exists>m. select_map repeats (pack_planes 0 maps) x y = Some m \<and>
    sample_gain m (\<lambda>j. word (unat (gp_gain_offset m) + unat j)) x y = Inr (gain_of (map_for repeats maps x y) x y)"
proof -
  from assms(1) obtain i where i: "i < length maps" "maps ! i = map_for repeats maps x y"
    "select_map repeats (pack_planes 0 maps) x y = Some (pack_planes 0 maps ! i)"
    using select_map_valid unfolding maps_ok_def by blast
  have "gain_map_wf (maps ! i)" "length (gm_gain (maps ! i)) < 2 ^ 30"
    using assms(1) i(1) by (simp_all add: maps_ok_def list_all_length)
  moreover have "word (gain_start maps i + unat j) = Inr (gm_gain (maps ! i) ! unat j)"
    if "unat j < length (gm_gain (maps ! i))" for j :: u32
    using assms(2) [of "gain_start maps i + unat j"] gain_start_bound [OF i(1)] gain_nth [OF i(1) that] that by simp
  ultimately have "sample_gain (plane_record a (maps ! i)) (\<lambda>j. word (gain_start maps i + unat j)) x y =
      Inr (gain_of (maps ! i) x y)" for a
    by (rule sample_gain_of)
  with i show ?thesis by (simp add: plane_offset [OF assms(1) i(1)])
qed

lemma shades_maps_ok:
  assumes "maps_ok maps" and "length repeats = 2" "length pattern = 16"
    and "dense_plane width height input" "dense_plane width height out" and "width * height < 2 ^ 31"
  shows "\<exists>host. gain_filter [Some input] [Some out] (Some (pack_gain_maps repeats pattern maps)) = Inr (Ok, Some host) \<and>
    length host = length (hb_host out) \<and>
    list_all (\<lambda>(x, y). float_at host (y * width + x) =
      shaded input width (\<lambda>x y. gain_of (map_for repeats maps x y) x y) (x, y)) (positions width height)"
proof -
  define blob where "blob = pack_gain_maps repeats pattern maps"
  define base where "base = gain_header_bytes + length maps * gain_plane_bytes"
  have n: "0 < length maps" "length maps \<le> 4" using maps_ok_length [OF assms(1)] by simp_all
  have cnt: "unat (of_nat (length maps) :: u32) = length maps" using small_u32(1) [of "length maps"] n by simp
  have "length maps < 2 ^ 32" using n by simp
  note block = packed_block [OF assms(2,3) this, folded blob_def base_def]
  note sel = selected_gain [OF assms(1), of "\<lambda>i. lens_word blob (base + 4 * i)" repeats, OF block(5)]
  obtain host where "gain_pixels (select_map repeats (pack_planes 0 maps))
      (\<lambda>m i. lens_word blob (base + 4 * (unat (gp_gain_offset m) + unat i))) input out (positions width height) (hb_host out) =
      Inr (Ok, host)" "length host = length (hb_host out)"
    "\<And>x y. (x, y) \<in> set (positions width height) \<Longrightarrow> float_at host (y * width + x) =
      shaded input width (\<lambda>x y. gain_of (map_for repeats maps x y) x y) (x, y)"
    using gain_pixels_shaded [OF assms(4-6) sel subset_refl distinct_positions refl] by auto
  moreover have "dim_at input 0 = Inr \<lparr>hdim_min = 0, hdim_extent = width, hdim_stride = 1\<rparr>"
    "dim_at input 1 = Inr \<lparr>hdim_min = 0, hdim_extent = height, hdim_stride = width\<rparr>"
    using assms(4) by (simp_all add: dense_plane_def dim_at_def)
  moreover have "list_all (plane_fits (length blob - base)) (pack_planes 0 maps)"
    using planes_fit [OF assms(1)] by (simp add: block(4))
  moreover have "of_nat (length maps) \<noteq> (0 :: u32)" "\<not> of_nat (length maps) > (4 :: u32)"
    using n cnt by (auto simp: word_less_nat_alt simp del: of_nat_eq_0_iff dest: arg_cong [where f = unat])
  moreover have "\<not> length blob < gain_header_bytes" "\<not> length blob < base" by (simp_all add: block(4) base_def)
  ultimately show ?thesis
    unfolding gain_filter_def blob_def [symmetric]
    by (auto simp: block(1-3) cnt base_def [symmetric] list_all_iff Let_def)
qed

section \<open>What the parser returns\<close>

lemma carries_bound:
  assumes "carries op (Some m)"
  shows "gain_map_wf m \<and> length (gm_gain m) < 2 ^ 30"
proof -
  from assms obtain tail where "length (ro_params op) < 2 ^ 32" "gain_map_wf m" "ro_params op = put_gain_map m @ tail"
    by (auto simp: carries_def)
  moreover have "length (put_gain_map m) = 76 + 4 * length (gm_gain m)"
    by (simp add: put_gain_map_def length_concat comp_def sum_list_triv)
  ultimately show ?thesis by simp
qed

lemma collected_carries:
  "list_all2 carries ops ms \<Longrightarrow> list_all (\<lambda>m. gain_map_wf m \<and> length (gm_gain m) < 2 ^ 30) (collected ms)"
proof (induction rule: list_all2_induct)
  case (Cons op ops m ms)
  then show ?case using carries_bound [of op] by (cases m) (auto simp: collected_def)
qed (simp add: collected_def)

lemma parsed_maps_ok:
  assumes "parse_gain_maps bytes = Inr res" and "gr_status res = Ok" and "validate_gain_maps (gr_gain_maps res) = None"
  shows "maps_ok (gr_gain_maps res)"
proof -
  have "list_all (\<lambda>m. gain_map_wf m \<and> length (gm_gain m) < 2 ^ 30) (gr_gain_maps res)"
    using conjunct2 [OF gain_maps_iff, of bytes res] assms(1,2) by (auto intro: collected_carries [simplified])
  with assms(3) show ?thesis by (auto simp: maps_ok_def list_all_iff)
qed

section \<open>Properties\<close>

text \<open>
  C34: the lens shading node. When the node accepts the gain maps the parser returned for the bytes of the
  tag, its filter reads the packed block back, never leaves the block, the tables or the
  images, never casts a value out of range, reports success, and every sample of the output is the
  sample of the input times the gain interpolated from the table of the map for the colour plane of the
  sample, rounded to single precision.
\<close>

theorem gain_filter_shades:
  assumes "parse_gain_maps bytes = Inr res" and "gr_status res = Ok" and "validate_gain_maps (gr_gain_maps res) = None"
    and "length repeats = 2" "length pattern = 16"
    and "dense_plane width height input" "dense_plane width height out" and "width * height < 2 ^ 31"
  shows "\<exists>host. gain_filter [Some input] [Some out] (Some (pack_gain_maps repeats pattern (gr_gain_maps res))) = Inr (Ok, Some host) \<and>
    length host = length (hb_host out) \<and>
    list_all (\<lambda>(x, y). float_at host (y * width + x) =
      shaded input width (\<lambda>x y. gain_of (map_for repeats (gr_gain_maps res) x y) x y) (x, y)) (positions width height)"
  by (rule shades_maps_ok [OF parsed_maps_ok [OF assms(1-3)] assms(4-)])

text \<open>A map with one gain, a tag with this map, and an image of one sample.\<close>

definition unit_map :: gain_map where
  "unit_map = \<lparr>gm_top = 0, gm_left = 0, gm_bottom = 1, gm_right = 1, gm_plane = 0, gm_planes = 1, gm_row_pitch = 1,
     gm_col_pitch = 1, gm_map_points_v = 1, gm_map_points_h = 1, gm_map_spacing_v = 0x3FF0000000000000,
     gm_map_spacing_h = 0x3FF0000000000000, gm_map_origin_v = 0, gm_map_origin_h = 0, gm_map_planes = 1,
     gm_gain = [0x40000000]\<rparr>"

definition one_sample :: halide_buffer where
  "one_sample = \<lparr>hb_host = [0, 0, 0x80, 0x3F], hb_type = (HalideFloat, 32), hb_host_dirty = False,
     hb_dims = [\<lparr>hdim_min = 0, hdim_extent = 1, hdim_stride = 1\<rparr>, \<lparr>hdim_min = 0, hdim_extent = 1, hdim_stride = 1\<rparr>]\<rparr>"

definition unit_opcode :: raw_opcode where
  "unit_opcode = \<lparr>ro_id = kOpcodeGainMap, ro_dng_version = 0, ro_flags = 0, ro_params = put_gain_map unit_map\<rparr>"

lemma unit_map_wf: "gain_map_wf unit_map"
  by (simp add: gain_map_wf_def valid_required_shape_def unit_map_def f64_isfinite_def f64_positive_def f64_isnan_def
      f64_exponent_def f64_mantissa_def mask_eq_exp_minus_1)

lemma parse_unit_tag:
  "parse_gain_maps (put_u32 1 @ put_raw_opcode unit_opcode) = Inr \<lparr>gr_status = Ok, gr_gain_maps = [unit_map], gr_message = []\<rparr>"
proof -
  have "length (put_gain_map unit_map) = 80" by (simp add: put_gain_map_def unit_map_def)
  then have "list_all2 carries [unit_opcode] [Some unit_map]"
    by (simp add: carries_def unit_opcode_def unit_map_wf)
  then show ?thesis
    by (intro conjunct1 [OF conjunct2 [OF gain_maps_iff, THEN iffD2]] exI [of _ "[unit_map]"] conjI refl disjI2
        exI [of _ "[unit_opcode]"] exI [of _ "[Some unit_map]"] exI [of _ "[]"]) (simp_all add: collected_def)
qed

theorem gain_filter_shades_witness:
  "\<exists>host. gain_filter [Some one_sample] [Some one_sample] (Some (pack_gain_maps [2, 2] (replicate 16 0) [unit_map])) =
      Inr (Ok, Some host) \<and> length host = length (hb_host one_sample) \<and>
    list_all (\<lambda>(x, y). float_at host (y * 1 + x) =
      shaded one_sample 1 (\<lambda>x y. gain_of (map_for [2, 2] [unit_map] x y) x y) (x, y)) (positions 1 1)"
  using gain_filter_shades [OF parse_unit_tag, of "[2, 2]" "replicate 16 0" 1 1 one_sample one_sample]
  by (simp add: validate_gain_maps_def unit_map_def dense_plane_def one_sample_def)

end
