(* ===== verification/Ieee_Bounds.thy ===== *)
theory Ieee_Bounds
  imports Float_Bounds Ieee_Arith
begin

text \<open>
  Order and bounds of floating point values: comparison is the order of the real numbers the values stand
  for, and a result whose exact value is below a power of two stays below it after rounding.
\<close>

section \<open>Real values\<close>

definition fp_val :: "bool \<Rightarrow> int \<Rightarrow> int \<Rightarrow> real" where
  "fp_val s m e = real_of_int (fp_signed s m) * 2 powi e"

lemma powi_mult: "(2 :: real) powi a * 2 powi b = 2 powi (a + b)"
  by (simp add: power_int_add)

lemma fp_signed_scale:
  assumes "k \<le> e"
  shows "real_of_int (fp_signed s m * 2 ^ nat (e - k)) * 2 powi k = fp_val s m e"
proof -
  have "(2 :: real) ^ nat (e - k) = 2 powi (e - k)" using assms by (simp add: power_int_def)
  then show ?thesis by (simp add: fp_val_def mult.assoc powi_mult)
qed

lemma fp_less_val: "fp_less (FpFin s m e) (FpFin t n f) \<longleftrightarrow> fp_val s m e < fp_val t n f"
proof -
  let ?k = "min e f"
  let ?a = "fp_signed s m * 2 ^ nat (e - ?k)" and ?b = "fp_signed t n * 2 ^ nat (f - ?k)"
  have "fp_val s m e < fp_val t n f \<longleftrightarrow> real_of_int ?a * 2 powi ?k < real_of_int ?b * 2 powi ?k"
    using fp_signed_scale [of ?k e s m] fp_signed_scale [of ?k f t n] by simp
  also have "\<dots> \<longleftrightarrow> ?a < ?b" by (subst mult_less_cancel_right_pos) (simp_all del: of_int_mult)
  finally show ?thesis by (simp add: fp_less_def Let_def)
qed

lemma fp_less_le_trans: "fp_less x y \<Longrightarrow> fp_le y z \<Longrightarrow> fp_less x z"
proof (cases x; cases y; cases z)
  fix s m e t n f u p g
  assume "fp_less x y" "fp_le y z" "x = FpFin s m e" "y = FpFin t n f" "z = FpFin u p g"
  then show "fp_less x z" by (simp add: fp_le_def fp_less_val)
qed (auto simp: fp_le_def fp_less_def split: if_splits)

section \<open>Rounding\<close>

lemma fp_round_exponent:
  assumes n: "0 < n" and d: "0 < d" and e: "e = max (1 - emax) (frac_log2 n d)" and ab: "scale_frac (int p - e) n d = (a, b)"
  shows "0 < b" and "real_of_int a / real_of_int b = real_of_int n / real_of_int d * 2 powi (int p - e)"
    and "real_of_int n / real_of_int d < 2 powi (e + 1)" and "0 \<le> round_half_even a b"
proof -
  from scale_frac_value [OF ab d] show b: "0 < b"
    and v: "real_of_int a / real_of_int b = real_of_int n / real_of_int d * 2 powi (int p - e)" by auto
  have "(2::real) powi (frac_log2 n d + 1) \<le> 2 powi (e + 1)" using e by (intro power_int_increasing) auto
  with frac_log2_bounds(2) [OF n d] show "real_of_int n / real_of_int d < 2 powi (e + 1)" by linarith
  have "0 \<le> real_of_int a / real_of_int b" unfolding v using n d by simp
  then show "0 \<le> round_half_even a b" using round_half_even_ge [OF b, of 0] by simp
qed

lemma fp_round_le:
  assumes n: "0 \<le> n" and d: "0 < d" and le: "real_of_int n / real_of_int d \<le> 2 powi k" and k: "0 \<le> k" "k < emax"
  shows "\<exists>m e. fp_round p emax s n d = FpFin s m e \<and> 0 \<le> m \<and> real_of_int m * 2 powi e \<le> 2 powi k"
proof (cases "n = 0")
  case True
  then show ?thesis by (simp add: fp_round_def)
next
  case False
  with n have n: "0 < n" by simp
  define e where "e = max (1 - emax) (frac_log2 n d)"
  obtain a b where ab: "scale_frac (int p - e) n d = (a, b)" by (cases "scale_frac (int p - e) n d")
  note r = fp_round_exponent [OF n d e_def ab]
  have "(2::real) powi frac_log2 n d \<le> 2 powi k" using frac_log2_bounds(1) [OF n d] le by linarith
  then have "frac_log2 n d \<le> k" using k(1) power_int_le_imp_le_exp [of "2 :: real"] by simp
  with k have ek: "e \<le> k" "e < emax" by (auto simp: e_def)
  have "real_of_int (round_half_even a b) * 2 powi (e - int p) \<le> 2 powi k"
  proof (cases "e < k")
    case True
    have "real_of_int a / real_of_int b \<le> 2 powi (e + 1) * 2 powi (int p - e)"
      unfolding r(2) using r(3) by (intro mult_right_mono) simp_all
    also have "\<dots> = 2 powi int (p + 1)" unfolding powi_mult by simp
    finally have "round_half_even a b \<le> 2 ^ (p + 1)"
      by (intro round_half_even_le [OF r(1)]) (simp only: power_int_of_nat of_int_power of_int_numeral)
    then have "real_of_int (round_half_even a b) \<le> real_of_int (2 ^ (p + 1))" by (simp only: of_int_le_iff)
    then have "real_of_int (round_half_even a b) * 2 powi (e - int p) \<le> 2 powi int (p + 1) * 2 powi (e - int p)"
      by (intro mult_right_mono) (simp_all only: power_int_of_nat of_int_power of_int_numeral, simp)
    also have "\<dots> = 2 powi (e + 1)" unfolding powi_mult by (simp add: add.commute)
    also have "\<dots> \<le> 2 powi k" using True by (intro power_int_increasing) simp_all
    finally show ?thesis .
  next
    case False
    with ek have e: "e = k" by simp
    have "real_of_int a / real_of_int b \<le> 2 powi k * 2 powi (int p - k)"
      unfolding r(2) e using le by (intro mult_right_mono) simp_all
    also have "\<dots> = 2 powi int p" unfolding powi_mult by simp
    finally have "round_half_even a b \<le> 2 ^ p"
      by (intro round_half_even_le [OF r(1)]) (simp only: power_int_of_nat of_int_power of_int_numeral)
    then have "real_of_int (round_half_even a b) \<le> real_of_int (2 ^ p)" by (simp only: of_int_le_iff)
    then have "real_of_int (round_half_even a b) * 2 powi (e - int p) \<le> 2 powi int p * 2 powi (e - int p)"
      by (intro mult_right_mono) (simp_all only: power_int_of_nat of_int_power of_int_numeral, simp)
    also have "\<dots> = 2 powi k" unfolding e powi_mult by simp
    finally show ?thesis .
  qed
  with ek r(4) n show ?thesis by (simp add: fp_round_def Let_def ab flip: e_def)
qed

lemma fp_round_ge:
  assumes d: "0 < d" and ge: "2 powi k \<le> real_of_int n / real_of_int d" and k: "0 \<le> k" "1 \<le> emax"
  shows "case fp_round p emax s n d of FpFin t m e \<Rightarrow> t = s \<and> 2 powi k \<le> real_of_int m * 2 powi e | FpInf t \<Rightarrow> t = s | FpNaN \<Rightarrow> False"
proof -
  have "0 < real_of_int n / real_of_int d" using ge zero_less_power_int [of "2 :: real" k] by linarith
  then have n: "0 < n" using d by (simp add: zero_less_divide_iff)
  define e where "e = max (1 - emax) (frac_log2 n d)"
  obtain a b where ab: "scale_frac (int p - e) n d = (a, b)" by (cases "scale_frac (int p - e) n d")
  note r = fp_round_exponent [OF n d e_def ab]
  have "(2::real) powi k < 2 powi (frac_log2 n d + 1)" using frac_log2_bounds(2) [OF n d] ge by linarith
  have kl: "k \<le> frac_log2 n d"
  proof (rule ccontr)
    assume "\<not> k \<le> frac_log2 n d"
    then have "(2::real) powi (frac_log2 n d + 1) \<le> 2 powi k" by (intro power_int_increasing) simp_all
    with \<open>2 powi k < 2 powi (frac_log2 n d + 1)\<close> show False by linarith
  qed
  with k have e: "e = frac_log2 n d" by (simp add: e_def)
  have "2 powi int p = 2 powi e * (2::real) powi (int p - e)" unfolding powi_mult by simp
  also have "\<dots> \<le> real_of_int a / real_of_int b"
    unfolding r(2) using frac_log2_bounds(1) [OF n d] e by (intro mult_right_mono) simp_all
  finally have "2 ^ p \<le> round_half_even a b"
    by (intro round_half_even_ge [OF r(1)]) (simp only: power_int_of_nat of_int_power of_int_numeral)
  then have "real_of_int (2 ^ p) \<le> real_of_int (round_half_even a b)" by (simp only: of_int_le_iff)
  then have "2 powi int p * 2 powi (e - int p) \<le> real_of_int (round_half_even a b) * 2 powi (e - int p)"
    by (intro mult_right_mono) (simp_all only: power_int_of_nat of_int_power of_int_numeral, simp)
  moreover have "2 powi int p * (2::real) powi (e - int p) = 2 powi e" unfolding powi_mult by simp
  moreover have "(2::real) powi k \<le> 2 powi e" using kl e by (intro power_int_increasing) simp_all
  ultimately have "2 powi k \<le> real_of_int (round_half_even a b) * 2 powi (e - int p)" by linarith
  with n show ?thesis by (simp add: fp_round_def Let_def ab flip: e_def)
qed

section \<open>Values below a power of two\<close>

definition fp_within :: "int \<Rightarrow> fp \<Rightarrow> bool" where
  "fp_within k x \<longleftrightarrow> (case x of FpFin s m e \<Rightarrow> 0 \<le> m \<and> real_of_int m * 2 powi e \<le> 2 powi k | _ \<Rightarrow> False)"

lemma fp_within_fin: "fp_within k x \<Longrightarrow> \<exists>s m e. x = FpFin s m e \<and> 0 \<le> m \<and> real_of_int m * 2 powi e \<le> 2 powi k"
  by (cases x) (simp_all add: fp_within_def)

lemma fp_within_mono: "fp_within j x \<Longrightarrow> j \<le> k \<Longrightarrow> fp_within k x"
  using power_int_increasing [of j k "2 :: real"] by (cases x) (auto simp: fp_within_def)

lemma abs_fp_val: "0 \<le> m \<Longrightarrow> \<bar>fp_val s m e\<bar> = real_of_int m * 2 powi e"
  by (cases s) (simp_all add: fp_val_def fp_signed_def abs_mult)

lemma fp_within_val: "fp_within k (FpFin s m e) \<Longrightarrow> \<bar>fp_val s m e\<bar> \<le> 2 powi k"
  by (simp add: fp_within_def abs_fp_val)

lemma fp_within_sign [simp]:
  "fp_within k (fp_neg x) = fp_within k x" "fp_within k (fp_abs x) = fp_within k x"
  by (cases x; simp add: fp_within_def fp_neg_def fp_abs_def)+

lemma double_within:
  "0 \<le> n \<Longrightarrow> 0 < d \<Longrightarrow> real_of_int n / real_of_int d \<le> 2 powi k \<Longrightarrow> 0 \<le> k \<Longrightarrow> k < 1023 \<Longrightarrow> fp_within k (double s n d)"
  using fp_round_le [of n d k 1023 52 s] by (auto simp: double_def fp_within_def)

lemma single_within:
  "0 \<le> n \<Longrightarrow> 0 < d \<Longrightarrow> real_of_int n / real_of_int d \<le> 2 powi k \<Longrightarrow> 0 \<le> k \<Longrightarrow> k < 127 \<Longrightarrow>
     \<exists>m e. single s n d = FpFin s m e \<and> 0 \<le> m \<and> real_of_int m * 2 powi e \<le> 2 powi k"
  using fp_round_le [of n d k 127 23 s] by (auto simp: single_def)

lemma fp_of_int_within: "real_of_int \<bar>i\<bar> \<le> 2 powi k \<Longrightarrow> fp_within k (fp_of_int i)"
  by (simp add: fp_within_def fp_of_int_def)

text \<open>The exact sum and the fraction that is rounded.\<close>

lemma fp_add_exact:
  fixes s t :: bool and m n e f :: int
  defines "k \<equiv> min e f" and "v \<equiv> fp_val s m e + fp_val t n f"
  shows "\<exists>c d. 0 \<le> c \<and> 0 < d \<and> real_of_int c / real_of_int d = \<bar>v\<bar> \<and>
    fp_add R (FpFin s m e) (FpFin t n f) = (if v = 0 then FpFin (s \<and> t) 0 0 else R (v < 0) c d)"
proof -
  define a where "a = fp_signed s m * 2 ^ nat (e - k) + fp_signed t n * 2 ^ nat (f - k)"
  have v: "real_of_int a * 2 powi k = v"
    using fp_signed_scale [of k e s m] fp_signed_scale [of k f t n] by (simp add: a_def v_def k_def distrib_right)
  obtain c d where cd: "scale_frac k \<bar>a\<bar> 1 = (c, d)" by (cases "scale_frac k \<bar>a\<bar> 1")
  from scale_frac_value [OF cd] have d: "0 < d" and q: "real_of_int c / real_of_int d = real_of_int \<bar>a\<bar> * 2 powi k" by simp_all
  have "0 \<le> real_of_int c / real_of_int d" unfolding q by simp
  with d have "0 \<le> c" by (simp add: zero_le_divide_iff)
  moreover have "real_of_int c / real_of_int d = \<bar>v\<bar>" unfolding q v [symmetric] by (simp add: abs_mult)
  moreover have "a = 0 \<longleftrightarrow> v = 0" "a < 0 \<longleftrightarrow> v < 0"
    unfolding v [symmetric] by (simp_all add: mult_less_0_iff leD [OF zero_le_power_int])
  ultimately show ?thesis using d
    by (intro exI [of _ c] exI [of _ d]) (simp add: fp_add_def Let_def cd a_def [symmetric] k_def [symmetric])
qed

lemma fp_add_within:
  assumes "fp_within k x" "fp_within k y" and "0 \<le> k" "k < 1022"
  shows "fp_within (k + 1) (fp_add double x y)"
proof -
  from assms obtain s m e t n f where x: "x = FpFin s m e" and y: "y = FpFin t n f" using fp_within_fin by metis
  let ?v = "fp_val s m e + fp_val t n f"
  from fp_add_exact [of s m e t n f double] obtain c d where cd: "0 \<le> c" "0 < d" "real_of_int c / real_of_int d = \<bar>?v\<bar>"
    "fp_add double x y = (if ?v = 0 then FpFin (s \<and> t) 0 0 else double (?v < 0) c d)" by (auto simp: x y)
  have "\<bar>?v\<bar> \<le> 2 powi k + 2 powi k" using fp_within_val assms(1,2) unfolding x y by (smt (verit))
  also have "\<dots> = 2 powi (k + 1)" by (simp add: power_int_add)
  finally have "fp_within (k + 1) (double (?v < 0) c d)" using cd assms(3,4) by (intro double_within) simp_all
  then show ?thesis using cd(4) by (simp add: fp_within_def [of _ "FpFin _ 0 0"])
qed

lemma fp_sub_within: "fp_within k x \<Longrightarrow> fp_within k y \<Longrightarrow> 0 \<le> k \<Longrightarrow> k < 1022 \<Longrightarrow> fp_within (k + 1) (fp_sub double x y)"
  by (simp add: fp_sub_def fp_add_within)

lemma fp_mul_within:
  assumes "fp_within j x" "fp_within k y" and "0 \<le> j" "0 \<le> k" "j + k < 1023"
  shows "fp_within (j + k) (fp_mul double x y)"
proof -
  from assms(1,2) obtain s m e t n f where x: "x = FpFin s m e" "0 \<le> m" "real_of_int m * 2 powi e \<le> 2 powi j"
    and y: "y = FpFin t n f" "0 \<le> n" "real_of_int n * 2 powi f \<le> 2 powi k" using fp_within_fin by metis
  obtain a b where ab: "scale_frac (e + f) (m * n) 1 = (a, b)" by (cases "scale_frac (e + f) (m * n) 1")
  from scale_frac_value [OF ab] have b: "0 < b"
    and q: "real_of_int a / real_of_int b = real_of_int m * 2 powi e * (real_of_int n * 2 powi f)"
    by (simp_all add: power_int_add)
  have "0 \<le> real_of_int a / real_of_int b" unfolding q using x(2) y(2) by simp
  with b have "0 \<le> a" by (simp add: zero_le_divide_iff)
  moreover have "real_of_int a / real_of_int b \<le> 2 powi j * 2 powi k"
    unfolding q using x(3) y(2,3) by (intro mult_mono) simp_all
  then have "real_of_int a / real_of_int b \<le> 2 powi (j + k)" by (simp add: powi_mult)
  ultimately have "fp_within (j + k) (double (s \<noteq> t) a b)" using b assms(3-5) by (intro double_within) simp_all
  then show ?thesis by (simp add: fp_mul_def x(1) y(1) ab)
qed

lemma fp_sub_far_below:
  assumes "fp_val s m e - fp_val t n f \<le> - (2 powi k)" and "0 \<le> k" and "- (2 powi k) < fp_val u p g"
  shows "fp_less (fp_sub double (FpFin s m e) (FpFin t n f)) (FpFin u p g)"
proof -
  have neg: "fp_neg (FpFin t n f) = FpFin (\<not> t) n f" by (simp add: fp_neg_def)
  have "fp_val (\<not> t) n f = - fp_val t n f" by (simp add: fp_val_def fp_signed_def)
  with assms(1) have v: "fp_val s m e + fp_val (\<not> t) n f \<le> - (2 powi k)" by simp
  moreover have "(0 :: real) < 2 powi k" by simp
  ultimately have v0: "fp_val s m e + fp_val (\<not> t) n f < 0" by linarith
  from fp_add_exact [of s m e "\<not> t" n f double] v0 obtain c d where cd: "0 < d"
    "real_of_int c / real_of_int d = \<bar>fp_val s m e + fp_val (\<not> t) n f\<bar>"
    "fp_sub double (FpFin s m e) (FpFin t n f) = double True c d" by (auto simp: fp_sub_def neg)
  have "2 powi k \<le> real_of_int c / real_of_int d" unfolding cd(2) using v by linarith
  from fp_round_ge [OF cd(1) this assms(2), where emax = 1023 and p = 52 and s = True]
  have r: "case double True c d of FpFin t m e \<Rightarrow> t = True \<and> 2 powi k \<le> real_of_int m * 2 powi e | FpInf t \<Rightarrow> t = True | FpNaN \<Rightarrow> False"
    by (simp add: double_def)
  show ?thesis unfolding cd(3)
  proof (cases "double True c d")
    case (FpFin t' m' e')
    with r have "t'" "2 powi k \<le> real_of_int m' * 2 powi e'" by simp_all
    then have "fp_val t' m' e' \<le> - (2 powi k)" by (simp add: fp_val_def fp_signed_def)
    with FpFin assms(3) show "fp_less (double True c d) (FpFin u p g)" by (simp add: fp_less_val)
  qed (use r in \<open>auto simp: fp_less_def\<close>)
qed
lemma double_nonneg:
  assumes "double s n d = FpFin t m e" and "0 \<le> n" "0 < d"
  shows "0 \<le> m"
proof (cases "n = 0")
  case False
  obtain a b where ab: "scale_frac (52 - max (1 - 1023) (frac_log2 n d)) n d = (a, b)" by (metis prod.exhaust)
  have "0 \<le> round_half_even a b" using fp_round_exponent(4) [OF _ assms(3) refl, where n = n and emax = 1023 and p = 52 and a = a and b = b] ab False assms(2) by simp
  with assms(1) False ab show ?thesis by (auto simp: double_def fp_round_def Let_def split: if_splits)
qed (use assms(1) in \<open>simp add: double_def fp_round_def\<close>)

lemma fp_add_nonneg:
  assumes "fp_add double x y = FpFin s m e"
  shows "0 \<le> m"
proof (cases x; cases y)
  fix s1 m1 e1 s2 m2 e2 assume xy: "x = FpFin s1 m1 e1" "y = FpFin s2 m2 e2"
  let ?v = "fp_val s1 m1 e1 + fp_val s2 m2 e2"
  from fp_add_exact [of s1 m1 e1 s2 m2 e2 double] obtain c d where "0 \<le> c" "0 < d"
    "fp_add double x y = (if ?v = 0 then FpFin (s1 \<and> s2) 0 0 else double (?v < 0) c d)" by (auto simp: xy)
  with assms show ?thesis using double_nonneg [of "?v < 0" c d s m e] by (cases "?v = 0") auto
qed (use assms in \<open>auto simp: fp_add_def split: if_splits\<close>)

end
