(* ===== verification/White_Balance.thy ===== *)
theory White_Balance
  imports Ieee_Bounds Sdk Gain_Map_Node
begin

text \<open>
  White balance (\<open>src/cpipe/nodes/wb/WbMetadata.hpp\<close>, repeated word for word in \<open>wb_dual_illuminant.cpp\<close>): the search
  for the colour temperature of the scene, the blend of the two calibrations and the blobs that are written.

  Matrices and vectors are lists of single precision values. The sign of a NaN, which \<open>std::copysign\<close> can see, is a
  parameter \<open>nan_sign\<close>.
\<close>

unbundle bit_operations_syntax

section \<open>Values\<close>

text \<open>The double nearest to the decimal literal \<open>n / d\<close>.\<close>

definition dlit :: "int \<Rightarrow> int \<Rightarrow> fp" where
  "dlit n d = double (n < 0) \<bar>n\<bar> d"

definition fp_isfinite :: "fp \<Rightarrow> bool" where
  "fp_isfinite x \<longleftrightarrow> (case x of FpFin _ _ _ \<Rightarrow> True | _ \<Rightarrow> False)"

definition fp_eq :: "fp \<Rightarrow> fp \<Rightarrow> bool" where
  "fp_eq x y \<longleftrightarrow> fp_le x y \<and> fp_le y x"

definition fp_copysign :: "bool \<Rightarrow> fp \<Rightarrow> fp \<Rightarrow> fp" where
  "fp_copysign nan_sign x y =
     (let s = (case y of FpFin s _ _ \<Rightarrow> s | FpInf s \<Rightarrow> s | FpNaN \<Rightarrow> nan_sign)
      in case x of FpFin _ m e \<Rightarrow> FpFin s m e | FpInf _ \<Rightarrow> FpInf s | FpNaN \<Rightarrow> FpNaN)"

definition sdiv where "sdiv = fp_div single"

definition float_epsilon :: fp where
  "float_epsilon = FpFin False 1 (- 23)"

section \<open>Matrices\<close>

definition calibration_illuminant_cct :: "u16 \<Rightarrow> fp option" where
  "calibration_illuminant_cct illuminant =
     (if illuminant = 17 then Some (fp_of_int 2850)
      else if illuminant = 20 then Some (fp_of_int 5500)
      else if illuminant = 21 then Some (fp_of_int 6500)
      else if illuminant = 22 then Some (fp_of_int 7500)
      else if illuminant = 23 then Some (fp_of_int 5000)
      else if illuminant = 24 then Some (fp_of_int 3200)
      else None)"

definition reciprocal_cct_weight :: "fp \<Rightarrow> fp \<Rightarrow> fp \<Rightarrow> fp" where
  "reciprocal_cct_weight cct1 cct2 cct =
     (let one = fp_of_int 1; denom = dsub (ddiv one cct1) (ddiv one cct2)
      in if fp_le (fp_abs denom) double_epsilon then one
         else
           let weight = ddiv (dsub (ddiv one cct) (ddiv one cct2)) denom
           in fp_cast single (fp_clamp weight (fp_of_int 0) one))"

definition lerp_matrix :: "fp list \<Rightarrow> fp list \<Rightarrow> fp \<Rightarrow> fp list" where
  "lerp_matrix first second weight =
     map (\<lambda>i. sadd (smul weight (first ! i)) (smul (ssub (fp_of_int 1) weight) (second ! i))) [0..<9]"

text \<open>\<open>m[a] * m[b] - m[c] * m[d]\<close>\<close>

definition minor :: "fp list \<Rightarrow> nat \<Rightarrow> nat \<Rightarrow> nat \<Rightarrow> nat \<Rightarrow> fp" where
  "minor m a b c d = ssub (smul (m ! a) (m ! b)) (smul (m ! c) (m ! d))"

definition inverse_matrix :: "fp list \<Rightarrow> fp list option" where
  "inverse_matrix m =
     (let det = sadd (ssub (smul (m ! 0) (minor m 4 8 5 7)) (smul (m ! 1) (minor m 3 8 5 6)))
            (smul (m ! 2) (minor m 3 7 4 6))
      in if \<not> fp_isfinite det \<or> fp_le (fp_abs det) float_epsilon then None
         else
           let inv_det = sdiv (fp_of_int 1) det
           in Some (map (\<lambda>v. smul v inv_det)
                [minor m 4 8 5 7, minor m 2 7 1 8, minor m 1 5 2 4, minor m 5 6 3 8, minor m 0 8 2 6,
                 minor m 2 3 0 5, minor m 3 7 4 6, minor m 1 6 0 7, minor m 0 4 1 3]))"

definition mul_matrix_vec :: "fp list \<Rightarrow> fp list \<Rightarrow> fp list" where
  "mul_matrix_vec matrix v =
     map (\<lambda>r. sadd (sadd (smul (matrix ! r) (v ! 0)) (smul (matrix ! (r + 1)) (v ! 1))) (smul (matrix ! (r + 2)) (v ! 2)))
       [0, 3, 6]"

section \<open>The error of a temperature\<close>

text \<open>\<open>a * x * x * x\<close> and \<open>a * x * x\<close>, multiplied from the left.\<close>

definition cube_term :: "fp \<Rightarrow> fp \<Rightarrow> fp" where "cube_term a x = dmul (dmul (dmul a x) x) x"
definition square_term :: "fp \<Rightarrow> fp \<Rightarrow> fp" where "square_term a x = dmul (dmul a x) x"

definition planckian_locus_xy :: "fp \<Rightarrow> fp \<times> fp" where
  "planckian_locus_xy cct =
     (let cct2 = dmul cct cct; cct3 = dmul cct2 cct;
          x = dadd (dadd (dadd (ddiv (dlit (- 3025846900) 1) cct3) (ddiv (dlit 21070379 10) cct2))
            (ddiv (dlit 2226347 10000) cct)) (dlit 240390 1000000);
          x = (if fp_less cct (fp_of_int 4000)
               then dadd (dadd (dsub (ddiv (dlit (- 266123900) 1) cct3) (ddiv (dlit 234358 1) cct2))
                 (ddiv (dlit 8776956 10000) cct)) (dlit 179910 1000000)
               else x);
          y = dsub (dadd (dsub (cube_term (dlit 30817580 10000000) x) (square_term (dlit 587338670 100000000) x))
            (dmul (dlit 375112997 100000000) x)) (dlit 37001483 100000000);
          y = (if fp_less cct (fp_of_int 2222)
               then dsub (dadd (dsub (cube_term (dlit (- 11063814) 10000000) x) (square_term (dlit 134811020 100000000) x))
                 (dmul (dlit 218555832 100000000) x)) (dlit 20219683 100000000)
               else if fp_less cct (fp_of_int 4000)
               then dsub (dadd (dsub (cube_term (dlit (- 9549476) 10000000) x) (square_term (dlit 137418593 100000000) x))
                 (dmul (dlit 209137015 100000000) x)) (dlit 16748867 100000000)
               else y)
      in (x, y))"

definition cct_error :: "fp list \<Rightarrow> fp list \<Rightarrow> fp list \<Rightarrow> fp \<Rightarrow> fp \<Rightarrow> fp \<Rightarrow> fp" where
  "cct_error neutral cm1 cm2 cct1 cct2 cct =
     (let weight = reciprocal_cct_weight cct1 cct2 cct
      in case inverse_matrix (lerp_matrix cm1 cm2 weight) of
           None \<Rightarrow> FpInf False
         | Some im \<Rightarrow>
             let xyz = mul_matrix_vec im neutral;
                 sum = sadd (sadd (xyz ! 0) (xyz ! 1)) (xyz ! 2)
             in if \<not> fp_isfinite sum \<or> fp_le sum (fp_of_int 0) then FpInf False
                else
                  let (lx, ly) = planckian_locus_xy cct;
                      dx = dsub (ddiv (xyz ! 0) sum) lx; dy = dsub (ddiv (xyz ! 1) sum) ly
                  in dadd (dmul dx dx) (dmul dy dy))"

section \<open>The search\<close>

record brent_state =
  brent_lower :: fp
  brent_upper :: fp
  brent_best :: fp
  brent_previous :: fp
  brent_previous2 :: fp
  brent_best_error :: fp
  brent_previous_error :: fp
  brent_previous2_error :: fp
  brent_step :: fp
  brent_previous_step :: fp

definition kSearchMinCct :: fp where "kSearchMinCct = fp_of_int 1500"
definition kSearchMaxCct :: fp where "kSearchMaxCct = fp_of_int 10000"
definition kBrentGoldenStep :: fp where "kBrentGoldenStep = dlit 3819660112501051 10000000000000000"
definition kBrentTolerance :: fp where "kBrentTolerance = dlit 1 100000"

definition fp_half :: fp where "fp_half = FpFin False 1 (- 1)"
definition fp_two :: fp where "fp_two = fp_of_int 2"

definition default_brent :: brent_state where
  "default_brent =
     (let best = dmul fp_half (dadd kSearchMinCct kSearchMaxCct); zero = fp_of_int 0
      in \<lparr>brent_lower = kSearchMinCct, brent_upper = kSearchMaxCct, brent_best = best, brent_previous = best,
          brent_previous2 = best, brent_best_error = zero, brent_previous_error = zero,
          brent_previous2_error = zero, brent_step = zero, brent_previous_step = zero\<rparr>)"

definition interval_step :: "brent_state \<Rightarrow> fp \<Rightarrow> fp" where
  "interval_step s midpoint =
     (if fp_less (brent_best s) midpoint then dsub (brent_upper s) (brent_best s)
      else dsub (brent_lower s) (brent_best s))"

definition parabolic_step :: "bool \<Rightarrow> brent_state \<Rightarrow> fp \<Rightarrow> fp \<Rightarrow> fp option \<times> brent_state" where
  "parabolic_step nan_sign s midpoint tol =
     (let best = brent_best s;
          a = dmul (dsub best (brent_previous s)) (dsub (brent_best_error s) (brent_previous2_error s));
          b = dmul (dsub best (brent_previous2 s)) (dsub (brent_best_error s) (brent_previous_error s));
          numerator = dsub (dmul (dsub best (brent_previous2 s)) b) (dmul (dsub best (brent_previous s)) a);
          denominator = dmul fp_two (dsub b a)
      in if fp_le denominator (fp_of_int 0) then (None, s)
         else
           let numerator = fp_neg numerator; old_step = brent_previous_step s;
               s = s\<lparr>brent_previous_step := brent_step s\<rparr>
           in if fp_le (fp_abs (dmul (dmul fp_half denominator) old_step)) (fp_abs numerator) \<or>
                 fp_le numerator (dmul denominator (dsub (brent_lower s) best)) \<or>
                 fp_le (dmul denominator (dsub (brent_upper s) best)) numerator
              then (None, s)
              else
                let trial_step = ddiv numerator denominator; trial = dadd best trial_step
                in (Some (if fp_less (dsub trial (brent_lower s)) (dmul fp_two tol) \<or>
                             fp_less (dsub (brent_upper s) trial) (dmul fp_two tol)
                          then fp_copysign nan_sign tol (dsub midpoint best) else trial_step), s))"

definition next_brent_step :: "bool \<Rightarrow> brent_state \<Rightarrow> fp \<Rightarrow> fp \<Rightarrow> fp \<times> brent_state" where
  "next_brent_step nan_sign s midpoint tol =
     (let (trial_step, s) = (if fp_less tol (fp_abs (brent_previous_step s)) then parabolic_step nan_sign s midpoint tol
            else (None, s))
      in case trial_step of
           Some t \<Rightarrow> (t, s)
         | None \<Rightarrow>
             let s = s\<lparr>brent_previous_step := interval_step s midpoint\<rparr>
             in (dmul kBrentGoldenStep (brent_previous_step s), s))"

definition accept_trial :: "brent_state \<Rightarrow> fp \<Rightarrow> fp \<Rightarrow> brent_state" where
  "accept_trial s trial trial_error =
     (let s = (if fp_less trial (brent_best s) then s\<lparr>brent_upper := brent_best s\<rparr> else s\<lparr>brent_lower := brent_best s\<rparr>)
      in s\<lparr>brent_previous2 := brent_previous s, brent_previous2_error := brent_previous_error s,
           brent_previous := brent_best s, brent_previous_error := brent_best_error s,
           brent_best := trial, brent_best_error := trial_error\<rparr>)"

definition reject_trial :: "brent_state \<Rightarrow> fp \<Rightarrow> fp \<Rightarrow> brent_state" where
  "reject_trial s trial trial_error =
     (let s = (if fp_less trial (brent_best s) then s\<lparr>brent_lower := trial\<rparr> else s\<lparr>brent_upper := trial\<rparr>)
      in if fp_le trial_error (brent_previous_error s) \<or> fp_eq (brent_previous s) (brent_best s)
         then s\<lparr>brent_previous2 := brent_previous s, brent_previous2_error := brent_previous_error s,
                brent_previous := trial, brent_previous_error := trial_error\<rparr>
         else if fp_le trial_error (brent_previous2_error s) \<or> fp_eq (brent_previous2 s) (brent_best s) \<or>
              fp_eq (brent_previous2 s) (brent_previous s)
         then s\<lparr>brent_previous2 := trial, brent_previous2_error := trial_error\<rparr>
         else s)"

text \<open>The test that ends the search, the next temperature to try, and one round of the loop.\<close>

definition brent_midpoint :: "brent_state \<Rightarrow> fp" where
  "brent_midpoint s = dmul fp_half (dadd (brent_lower s) (brent_upper s))"

definition brent_tolerance :: "brent_state \<Rightarrow> fp" where
  "brent_tolerance s = dadd (dmul kBrentTolerance (fp_abs (brent_best s))) kBrentTolerance"

definition brent_done :: "brent_state \<Rightarrow> bool" where
  "brent_done s \<longleftrightarrow> fp_le (fp_abs (dsub (brent_best s) (brent_midpoint s)))
     (dsub (dmul fp_two (brent_tolerance s)) (dmul fp_half (dsub (brent_upper s) (brent_lower s))))"

definition brent_trial :: "bool \<Rightarrow> brent_state \<Rightarrow> fp \<times> brent_state" where
  "brent_trial nan_sign s =
     (let tol = brent_tolerance s; (step, s) = next_brent_step nan_sign s (brent_midpoint s) tol;
          s = s\<lparr>brent_step := step\<rparr>;
          trial_step = (if fp_le tol (fp_abs step) then step else fp_copysign nan_sign tol step)
      in (dadd (brent_best s) trial_step, s))"

definition brent_round :: "bool \<Rightarrow> (fp \<Rightarrow> fp) \<Rightarrow> brent_state \<Rightarrow> brent_state" where
  "brent_round nan_sign err s =
     (let (trial, s) = brent_trial nan_sign s; trial_error = err trial
      in if fp_le trial_error (brent_best_error s) then accept_trial s trial trial_error
         else reject_trial s trial trial_error)"

fun brent_loop :: "bool \<Rightarrow> (fp \<Rightarrow> fp) \<Rightarrow> nat \<Rightarrow> brent_state \<Rightarrow> brent_state" where
  "brent_loop nan_sign err 0 s = s"
| "brent_loop nan_sign err (Suc n) s =
     (if brent_done s then s else brent_loop nan_sign err n (brent_round nan_sign err s))"

definition estimate_scene_cct :: "bool \<Rightarrow> fp list \<Rightarrow> fp list \<Rightarrow> fp list \<Rightarrow> fp \<Rightarrow> fp \<Rightarrow> fp" where
  "estimate_scene_cct nan_sign neutral cm1 cm2 cct1 cct2 =
     (let err = cct_error neutral cm1 cm2 cct1 cct2;
          e = err (brent_best default_brent);
          s = default_brent\<lparr>brent_best_error := e, brent_previous_error := e, brent_previous2_error := e\<rparr>
      in brent_best (brent_loop nan_sign err 80 s))"

section \<open>The calibration\<close>

record calibration_result =
  cr_camera_to_xyz_d50 :: "fp list"
  cr_scene_cct :: fp
  cr_blend_weight :: fp

definition need_metadata :: "string \<Rightarrow> 'a sdk_result" where
  "need_metadata message = Inl \<lparr>er_code = status_int NeedMetadata, er_message = message\<rparr>"

definition required_matrix :: "f32 list option \<Rightarrow> string \<Rightarrow> fp list sdk_result" where
  "required_matrix matrix message =
     (case matrix of None \<Rightarrow> need_metadata message | Some m \<Rightarrow> Inr (map fp_of_f32 m))"

text \<open>The matrix for a temperature: blended from the forward matrices, or the inverse of the blended colour matrices.\<close>

definition camera_matrix ::
  "calibration_data \<Rightarrow> fp list \<Rightarrow> fp list \<Rightarrow> fp \<Rightarrow> fp list sdk_result" where
  "camera_matrix cal cm1 cm2 weight =
     (case (cd_forward_matrix1 cal, cd_forward_matrix2 cal) of
        (Some f1, Some f2) \<Rightarrow> Inr (lerp_matrix (map fp_of_f32 f1) (map fp_of_f32 f2) weight)
      | _ \<Rightarrow>
          (case inverse_matrix (lerp_matrix cm1 cm2 weight) of
             None \<Rightarrow> need_metadata ''wb singular ColorMatrix''
           | Some im \<Rightarrow> Inr im))"

definition interpolate_calibration :: "bool \<Rightarrow> calibration_data \<Rightarrow> fp list \<Rightarrow> calibration_result sdk_result" where
  "interpolate_calibration nan_sign cal neutral =
     bind_res (required_matrix (cd_color_matrix1 cal) ''wb missing ColorMatrix1'') (\<lambda>cm1.
     bind_res (required_matrix (cd_color_matrix2 cal) ''wb missing ColorMatrix2'') (\<lambda>cm2.
     case (calibration_illuminant_cct (cd_calibration_illuminant1 cal),
           calibration_illuminant_cct (cd_calibration_illuminant2 cal)) of
       (Some cct1, Some cct2) \<Rightarrow>
         let scene_cct = estimate_scene_cct nan_sign neutral cm1 cm2 cct1 cct2;
             blend_weight = reciprocal_cct_weight cct1 cct2 scene_cct
         in bind_res (camera_matrix cal cm1 cm2 blend_weight) (\<lambda>m.
            Inr \<lparr>cr_camera_to_xyz_d50 = m, cr_scene_cct = scene_cct, cr_blend_weight = blend_weight\<rparr>)
     | _ \<Rightarrow> need_metadata ''wb unsupported calibration illuminant''))"

text \<open>A sequence of blobs set one after the other, up to the first error.\<close>

fun set_float_blobs ::
  "(string \<times> fp list) list \<Rightarrow> 'b builder_object \<Rightarrow> host_stop + unit sdk_result \<times> 'b builder_object" where
  "set_float_blobs [] builder = Inr (Inr (), builder)"
| "set_float_blobs ((key, vs) # blobs) builder =
     bind_res (bo_set_blob key (as_bytes (map fp_to_f32 vs)) builder) (\<lambda>(res, builder).
     case res of Inl e \<Rightarrow> Inr (Inl e, builder) | Inr _ \<Rightarrow> set_float_blobs blobs builder)"

definition wb_blobs :: "fp list \<Rightarrow> calibration_result \<Rightarrow> (string \<times> fp list) list" where
  "wb_blobs neutral cal =
     [(''com.cpipe.wb.camera_diag_f32'', map (\<lambda>i. sdiv (fp_of_int 1) (neutral ! i)) [0, 1, 2]),
      (''com.cpipe.wb.camera_to_xyz_d50_f32'', cr_camera_to_xyz_d50 cal),
      (''com.cpipe.wb.scene_cct_f32'', [fp_cast single (cr_scene_cct cal)]),
      (''com.cpipe.wb.dual_illuminant_weight_f32'', [cr_blend_weight cal])]"

definition emit_wb_blobs ::
  "fp list \<Rightarrow> calibration_result \<Rightarrow> 'b builder_object \<Rightarrow> host_stop + unit sdk_result \<times> 'b builder_object" where
  "emit_wb_blobs neutral cal = set_float_blobs (wb_blobs neutral cal)"

section \<open>The search keeps the best temperature\<close>

text \<open>The temperatures the loop tries.\<close>

fun brent_trials :: "bool \<Rightarrow> (fp \<Rightarrow> fp) \<Rightarrow> nat \<Rightarrow> brent_state \<Rightarrow> fp list" where
  "brent_trials nan_sign err 0 s = []"
| "brent_trials nan_sign err (Suc n) s =
     (if brent_done s then [] else fst (brent_trial nan_sign s) # brent_trials nan_sign err n (brent_round nan_sign err s))"

lemma brent_trials_length: "length (brent_trials nan_sign err n s) \<le> n"
  by (induction n arbitrary: s) simp_all

lemma parabolic_step_keeps:
  assumes "parabolic_step nan_sign s midpoint tol = (t, s')"
  shows "\<exists>p. s' = s\<lparr>brent_previous_step := p\<rparr>"
proof -
  from assms have "s' = s \<or> s' = s\<lparr>brent_previous_step := brent_step s\<rparr>"
    by (auto simp: parabolic_step_def Let_def split: if_splits)
  moreover have "s = s\<lparr>brent_previous_step := brent_previous_step s\<rparr>" by simp
  ultimately show ?thesis by metis
qed

lemma next_brent_step_keeps:
  assumes "next_brent_step nan_sign s midpoint tol = (t, s')"
  shows "\<exists>p. s' = s\<lparr>brent_previous_step := p\<rparr>"
  using assms
  by (fastforce simp: next_brent_step_def Let_def split: if_splits prod.splits option.splits dest: parabolic_step_keeps)

lemma brent_trial_keeps:
  assumes "brent_trial nan_sign s = (t, s')"
  shows "\<exists>p q. s' = s\<lparr>brent_previous_step := p, brent_step := q\<rparr>"
  using assms
  by (fastforce simp: brent_trial_def Let_def split: prod.splits dest: next_brent_step_keeps)

lemma brent_round_best:
  fixes nan_sign :: bool and err :: "fp \<Rightarrow> fp" and s :: brent_state
  assumes "brent_best_error s = err (brent_best s)"
  defines "s' \<equiv> brent_round nan_sign err s" and "t \<equiv> fst (brent_trial nan_sign s)"
  shows "brent_best_error s' = err (brent_best s')"
    and "brent_best s' = (if fp_le (err t) (err (brent_best s)) then t else brent_best s)"
proof -
  obtain u where bt: "brent_trial nan_sign s = (t, u)" unfolding t_def by (metis prod.collapse)
  then have u: "brent_best u = brent_best s" "brent_best_error u = brent_best_error s"
    using brent_trial_keeps [OF bt] by auto
  show "brent_best_error s' = err (brent_best s')"
    "brent_best s' = (if fp_le (err t) (err (brent_best s)) then t else brent_best s)"
    using assms(1) u unfolding s'_def brent_round_def bt by (simp_all add: accept_trial_def reject_trial_def Let_def)
qed

text \<open>Nothing that was tried beats the result.\<close>

lemma brent_loop_best:
  assumes "brent_best_error s = err (brent_best s)"
    and "\<not> fp_less x (err (brent_best s))"
  shows "\<not> fp_less x (err (brent_best (brent_loop nan_sign err n s)))"
  using assms
proof (induction n arbitrary: s)
  case (Suc n)
  let ?t = "fst (brent_trial nan_sign s)"
  note r = brent_round_best [where err = err and nan_sign = nan_sign, OF Suc.prems(1)]
  have "\<not> fp_less x (err (brent_best (brent_round nan_sign err s)))"
    using Suc.prems(2) fp_less_le_trans [of x "err ?t" "err (brent_best s)"] by (auto simp: r(2))
  with Suc.IH [OF r(1)] Suc.prems(2) show ?case by simp
qed simp

lemma fp_less_asym: "fp_less x y \<Longrightarrow> \<not> fp_less y x"
  by (cases x; cases y) (auto simp: fp_less_val, auto simp: fp_less_def)

lemma brent_trials_best:
  assumes "brent_best_error s = err (brent_best s)"
  shows "list_all (\<lambda>t. \<not> fp_less (err t) (err (brent_best (brent_loop nan_sign err n s)))) (brent_trials nan_sign err n s)"
  using assms
proof (induction n arbitrary: s)
  case (Suc n)
  let ?t = "fst (brent_trial nan_sign s)" and ?s = "brent_round nan_sign err s"
  note r = brent_round_best [where err = err and nan_sign = nan_sign, OF Suc.prems]
  have "\<not> fp_less (err ?t) (err (brent_best ?s))"
    using fp_less_asym by (auto simp: r(2) fp_le_def)
  from brent_loop_best [of ?s err "err ?t" nan_sign n, OF r(1) this] Suc.IH [OF r(1)] show ?case by simp
qed simp

section \<open>The search stays finite\<close>

lemmas fp_ops = dadd_def dsub_def dmul_def ddiv_def

lemma fp_within_copysign: "fp_within k x \<Longrightarrow> fp_within k (fp_copysign nan_sign x y)"
  by (cases x) (simp_all add: fp_within_def fp_copysign_def Let_def)

lemma brent_constants:
  "fp_within 0 kBrentTolerance" "fp_within 0 kBrentGoldenStep" "fp_within 0 fp_half" "fp_within 1 fp_two"
proof -
  show "fp_within 0 kBrentTolerance" "fp_within 0 kBrentGoldenStep"
    unfolding kBrentTolerance_def kBrentGoldenStep_def dlit_def by (rule double_within; simp)+
  show "fp_within 0 fp_half" "fp_within 1 fp_two"
    by (simp_all add: fp_within_def fp_half_def fp_two_def fp_of_int_def power_int_minus)
qed

definition brent_bounded :: "int \<Rightarrow> brent_state \<Rightarrow> bool" where
  "brent_bounded k s \<longleftrightarrow> fp_within k (brent_lower s) \<and> fp_within k (brent_upper s) \<and> fp_within k (brent_best s)"

lemma brent_tolerance_within:
  assumes "brent_bounded k s" and "0 \<le> k" "k < 1022"
  shows "fp_within (k + 1) (brent_tolerance s)"
proof -
  have "fp_within (0 + k) (dmul kBrentTolerance (fp_abs (brent_best s)))"
    unfolding fp_ops using assms brent_constants(1) by (intro fp_mul_within) (simp_all add: brent_bounded_def)
  then show ?thesis unfolding brent_tolerance_def fp_ops
    using assms brent_constants(1) by (intro fp_add_within) (auto intro: fp_within_mono)
qed

lemma interval_step_within:
  "brent_bounded k s \<Longrightarrow> 0 \<le> k \<Longrightarrow> k < 1022 \<Longrightarrow> fp_within (k + 1) (interval_step s midpoint)"
  by (simp add: interval_step_def fp_ops fp_sub_within brent_bounded_def)

lemma dadd_nan: "dadd (FpFin s m e) t = FpNaN \<Longrightarrow> t = FpNaN"
  by (cases t) (simp_all add: dadd_def fp_add_def Let_def double_not_nan split: prod.splits if_splits)

text \<open>A position that is not below the lower end by rounding is not far below it.\<close>

lemma trial_between:
  assumes "fp_within k lower" "fp_within k upper" "fp_within (k + 2) z" and "0 \<le> k" "k < 1000"
    and "\<not> fp_less (dsub t lower) z" "\<not> fp_less (dsub upper t) z" and "t \<noteq> FpNaN" and "\<And>s m e. t = FpFin s m e \<Longrightarrow> 0 \<le> m"
  shows "fp_within (k + 4) t"
proof (cases t)
  case (FpInf s)
  obtain s1 m1 e1 s2 m2 e2 s3 m3 e3 where "lower = FpFin s1 m1 e1" "upper = FpFin s2 m2 e2" "z = FpFin s3 m3 e3"
    using assms(1-3) fp_within_fin by metis
  with FpInf assms(6,7) show ?thesis
    by (cases s) (simp_all add: dsub_def fp_sub_def fp_add_def fp_neg_def fp_less_def)
next
  case (FpFin s m e)
  obtain s1 m1 e1 s2 m2 e2 s3 m3 e3 where fin: "lower = FpFin s1 m1 e1" "upper = FpFin s2 m2 e2" "z = FpFin s3 m3 e3"
    using assms(1-3) fp_within_fin by metis
  have p: "(2 :: real) powi (k + 3) = 8 * 2 powi k" "(2 :: real) powi (k + 4) = 16 * 2 powi k" "(2 :: real) powi (k + 2) = 4 * 2 powi k"
    by (simp_all add: power_int_add)
  have pos: "(0 :: real) < 2 powi k" by simp
  from assms(1-3) have b: "\<bar>fp_val s1 m1 e1\<bar> \<le> 2 powi k" "\<bar>fp_val s2 m2 e2\<bar> \<le> 2 powi k" "\<bar>fp_val s3 m3 e3\<bar> \<le> 4 * 2 powi k"
    unfolding fin p(3) [symmetric] by (auto dest: fp_within_val)
  have "\<bar>fp_val s m e\<bar> \<le> 16 * 2 powi k"
  proof (rule ccontr)
    assume "\<not> ?thesis"
    then consider "fp_val s m e - fp_val s1 m1 e1 \<le> - (2 powi (k + 3))" | "fp_val s2 m2 e2 - fp_val s m e \<le> - (2 powi (k + 3))"
      using b(1,2) pos unfolding p(1) by linarith
    moreover have "- (2 powi (k + 3)) < fp_val s3 m3 e3" using b(3) pos unfolding p(1) by linarith
    ultimately show False using fp_sub_far_below [of _ _ _ _ _ _ "k + 3"] assms(4,6,7)
      unfolding fin FpFin dsub_def by (metis add_nonneg_nonneg zero_le_numeral)
  qed
  with assms(9) FpFin show ?thesis by (simp add: fp_within_def abs_fp_val p(2))
qed (use assms(8) in simp)

text \<open>The step the search takes: small, not a number, or inside the interval by rounding.\<close>

definition brent_step_ok :: "int \<Rightarrow> fp \<Rightarrow> fp \<Rightarrow> bool" where
  "brent_step_ok k best t \<longleftrightarrow> fp_within (k + 1) t \<or> t = FpNaN \<or> fp_within (k + 4) (dadd best t)"

lemma parabolic_step_ok:
  assumes bounded: "brent_bounded k s" and tol: "fp_within (k + 1) tol" and k: "0 \<le> k" "k < 1000"
    and step: "parabolic_step nan_sign s midpoint tol = (Some t, s')"
  shows "brent_step_ok k (brent_best s) t"
proof -
  let ?z = "dmul fp_two tol"
  from step consider (sign) "t = fp_copysign nan_sign tol (dsub midpoint (brent_best s))"
    | (inside) "\<not> fp_less (dsub (dadd (brent_best s) t) (brent_lower s)) ?z" "\<not> fp_less (dsub (brent_upper s) (dadd (brent_best s) t)) ?z"
    by (auto simp: parabolic_step_def Let_def split: if_splits)
  then show ?thesis
  proof cases
    case sign
    with tol show ?thesis by (simp add: brent_step_ok_def fp_within_copysign)
  next
    case inside
    have z: "fp_within (k + 2) ?z"
      using fp_mul_within [OF brent_constants(4) tol] k by (simp add: fp_ops add.commute)
    from bounded obtain u m e where best: "brent_best s = FpFin u m e"
      using fp_within_fin unfolding brent_bounded_def by metis
    show ?thesis
    proof (cases "dadd (brent_best s) t = FpNaN")
      case True
      with best show ?thesis using dadd_nan [of u m e t] by (simp add: brent_step_ok_def)
    next
      case False
      from bounded have "fp_within k (brent_lower s)" "fp_within k (brent_upper s)" by (simp_all add: brent_bounded_def)
      then have "fp_within (k + 4) (dadd (brent_best s) t)"
        by (rule trial_between) (use z k inside False fp_add_nonneg in \<open>auto simp: dadd_def\<close>)
      then show ?thesis by (simp add: brent_step_ok_def)
    qed
  qed
qed

lemma next_brent_step_ok:
  assumes bounded: "brent_bounded k s" and tol: "fp_within (k + 1) tol" and k: "0 \<le> k" "k < 1000"
    and step: "next_brent_step nan_sign s midpoint tol = (t, s')"
  shows "brent_step_ok k (brent_best s) t"
proof -
  let ?r = "if fp_less tol (fp_abs (brent_previous_step s)) then parabolic_step nan_sign s midpoint tol else (None, s)"
  obtain r u where r: "?r = (r, u)" by (metis prod.exhaust)
  show ?thesis
  proof (cases r)
    case (Some a)
    with step r have "parabolic_step nan_sign s midpoint tol = (Some t, u)"
      by (auto simp: next_brent_step_def split: if_splits)
    with assms show ?thesis by (intro parabolic_step_ok)
  next
    case None
    from r have "\<exists>p. u = s\<lparr>brent_previous_step := p\<rparr>"
      by (metis parabolic_step_keeps prod.inject brent_state.surjective brent_state.update_convs(10))
    then have u: "brent_bounded k u" using bounded by (auto simp: brent_bounded_def)
    from None step r have "t = dmul kBrentGoldenStep (interval_step u midpoint)"
      by (simp add: next_brent_step_def Let_def)
    then show ?thesis
      using fp_mul_within [OF brent_constants(2) interval_step_within [OF u]] k by (simp add: brent_step_ok_def fp_ops)
  qed
qed

lemma fp_le_nan: "\<not> fp_le x (fp_abs FpNaN)"
  by (simp add: fp_le_def fp_abs_def)

lemma brent_trial_within:
  assumes bounded: "brent_bounded k s" and k: "0 \<le> k" "k < 1000"
  shows "fp_within (k + 4) (fst (brent_trial nan_sign s))"
proof -
  let ?tol = "brent_tolerance s"
  obtain t u where step: "next_brent_step nan_sign s (brent_midpoint s) ?tol = (t, u)" by (metis prod.exhaust)
  from bounded k have tol: "fp_within (k + 1) ?tol" by (intro brent_tolerance_within) simp_all
  from next_brent_step_keeps [OF step] have best: "brent_best u = brent_best s" by auto
  have small: "fp_within (k + 4) (dadd (brent_best s) x)" if "fp_within (k + 1) x" for x
  proof -
    have "fp_within (k + 1) (brent_best s)" using bounded by (auto simp: brent_bounded_def intro: fp_within_mono)
    with that k have "fp_within (k + 1 + 1) (dadd (brent_best s) x)" unfolding dadd_def by (intro fp_add_within) simp_all
    then show ?thesis by (rule fp_within_mono) simp
  qed
  from next_brent_step_ok [OF bounded tol k step] show ?thesis
    using small fp_within_copysign [OF tol] by (auto simp: brent_trial_def step best brent_step_ok_def Let_def fp_le_nan)
qed

lemma brent_round_bounded:
  assumes "brent_bounded k s" "0 \<le> k" "k < 1000"
  shows "brent_bounded (k + 4) (brent_round nan_sign err s)"
proof -
  obtain t u where t: "brent_trial nan_sign s = (t, u)" by (metis prod.exhaust)
  from brent_trial_keeps [OF t] have "brent_bounded k u" using assms(1) by (auto simp: brent_bounded_def)
  then have "brent_bounded (k + 4) u" by (auto simp: brent_bounded_def intro: fp_within_mono)
  moreover have "fp_within (k + 4) t" using brent_trial_within [OF assms, of nan_sign] t by simp
  ultimately show ?thesis
    by (simp add: brent_round_def t brent_bounded_def accept_trial_def reject_trial_def Let_def)
qed

lemma brent_loop_bounded:
  assumes "brent_bounded k s" "0 \<le> k" "k + 4 * int n \<le> 1000"
  shows "brent_bounded (k + 4 * int n) (brent_loop nan_sign err n s)"
  using assms
proof (induction n arbitrary: k s)
  case (Suc n)
  show ?case
  proof (cases "brent_done s")
    case True
    with Suc.prems show ?thesis by (auto simp: brent_bounded_def intro: fp_within_mono)
  next
    case False
    from Suc.prems have "brent_bounded (k + 4) (brent_round nan_sign err s)" by (intro brent_round_bounded) simp_all
    from Suc.IH [OF this] False Suc.prems show ?thesis by (simp add: algebra_simps)
  qed
qed simp

lemma default_brent_bounded: "brent_bounded 15 default_brent"
proof -
  have "fp_within 14 kSearchMinCct" "fp_within 14 kSearchMaxCct"
    unfolding kSearchMinCct_def kSearchMaxCct_def by (rule fp_of_int_within; simp)+
  then have "fp_within 15 kSearchMinCct" "fp_within 15 kSearchMaxCct" "fp_within 15 (dadd kSearchMinCct kSearchMaxCct)"
    using fp_add_within [of 14 kSearchMinCct kSearchMaxCct] by (auto simp: dadd_def intro: fp_within_mono)
  moreover from this(3) have "fp_within 15 (brent_best default_brent)"
    using fp_mul_within [OF brent_constants(3), of 15] by (simp add: default_brent_def Let_def dmul_def)
  ultimately show ?thesis by (simp add: brent_bounded_def default_brent_def Let_def)
qed

section \<open>The estimate\<close>

definition brent_start :: "(fp \<Rightarrow> fp) \<Rightarrow> brent_state" where
  "brent_start err =
     (let e = err (brent_best default_brent)
      in default_brent\<lparr>brent_best_error := e, brent_previous_error := e, brent_previous2_error := e\<rparr>)"

text \<open>All temperatures whose error is computed, the first one included.\<close>

definition brent_tried :: "bool \<Rightarrow> (fp \<Rightarrow> fp) \<Rightarrow> fp list" where
  "brent_tried nan_sign err = brent_best default_brent # brent_trials nan_sign err 80 (brent_start err)"

lemma estimate_scene_cct_alt:
  "estimate_scene_cct nan_sign neutral cm1 cm2 cct1 cct2 =
     (let err = cct_error neutral cm1 cm2 cct1 cct2 in brent_best (brent_loop nan_sign err 80 (brent_start err)))"
  by (simp add: estimate_scene_cct_def brent_start_def Let_def)

lemma brent_start_simps [simp]:
  "brent_best (brent_start err) = brent_best default_brent"
  "brent_best_error (brent_start err) = err (brent_best default_brent)"
  "brent_bounded k (brent_start err) = brent_bounded k default_brent"
  by (simp_all add: brent_start_def brent_bounded_def Let_def)

lemma brent_loop_member:
  assumes "brent_best_error s = err (brent_best s)"
  shows "brent_best (brent_loop nan_sign err n s) \<in> set (brent_best s # brent_trials nan_sign err n s)"
  using assms
proof (induction n arbitrary: s)
  case (Suc n)
  note r = brent_round_best [where err = err and nan_sign = nan_sign, OF Suc.prems]
  from Suc.IH [OF r(1)] show ?case by (auto simp: r(2) split: if_splits)
qed simp

lemma brent_search_within:
  "fp_within 335 (brent_best (brent_loop nan_sign err 80 (brent_start err)))"
proof -
  have "brent_bounded (15 + 4 * int 80) (brent_loop nan_sign err 80 (brent_start err))"
    by (rule brent_loop_bounded) (simp_all add: default_brent_bounded)
  then show ?thesis by (simp add: brent_bounded_def)
qed

lemma fp_within_finite: "fp_within k x \<Longrightarrow> fp_isfinite x"
  by (cases x) (simp_all add: fp_within_def fp_isfinite_def)

text \<open>
  C35: Whatever the matrices and the neutral vector are, not-a-numbers and infinities included, the search for the
  scene temperature ends with a finite temperature, after at most 81 evaluations of the error; the result is one of
  the temperatures that were tried, and none of them has a smaller error.
\<close>

theorem scene_cct_best:
  "let err = cct_error neutral cm1 cm2 cct1 cct2; tried = brent_tried nan_sign err;
       cct = estimate_scene_cct nan_sign neutral cm1 cm2 cct1 cct2
   in fp_isfinite cct \<and> length tried \<le> 81 \<and> cct \<in> set tried \<and> list_all (\<lambda>t. \<not> fp_less (err t) (err cct)) tried"
proof -
  let ?err = "cct_error neutral cm1 cm2 cct1 cct2"
  let ?s = "brent_start ?err"
  have start: "brent_best_error ?s = ?err (brent_best ?s)" by simp
  have "\<not> fp_less x x" for x using fp_less_asym by blast
  then have "\<not> fp_less (?err (brent_best ?s)) (?err (brent_best (brent_loop nan_sign ?err 80 ?s)))"
    using brent_loop_best [where s = ?s and err = ?err and nan_sign = nan_sign and n = 80] start by metis
  then show ?thesis
    using brent_trials_best [where s = ?s and err = ?err and nan_sign = nan_sign and n = 80, OF start]
      brent_loop_member [where s = ?s and err = ?err and nan_sign = nan_sign and n = 80, OF start]
      brent_trials_length [of nan_sign ?err 80 ?s] fp_within_finite [OF brent_search_within]
    by (simp add: estimate_scene_cct_alt brent_tried_def Let_def)
qed

section \<open>The weight\<close>

lemma scale_frac_sign:
  assumes "scale_frac k n d = (a, b)" "0 \<le> n" "0 < d"
  shows "0 \<le> a \<and> 0 < b"
proof -
  from scale_frac_value [OF assms(1,3)] have b: "0 < b" and v: "real_of_int a / real_of_int b = real_of_int n / real_of_int d * 2 powi k"
    by auto
  have "0 \<le> real_of_int n / real_of_int d * 2 powi k" using assms by (intro mult_nonneg_nonneg) simp_all
  with b v show ?thesis by (metis of_int_0_le_iff of_int_0_less_iff zero_le_divide_iff not_less)
qed

lemma fp_div_nonneg:
  assumes "fp_div double (FpFin s m e) (FpFin t n f) = FpFin u p g" "0 \<le> m" "0 < n"
  shows "0 \<le> p"
proof -
  obtain a b where ab: "scale_frac (e - f) m n = (a, b)" by (metis prod.exhaust)
  with assms scale_frac_sign [OF ab] show ?thesis by (auto simp: fp_div_def intro: double_nonneg)
qed

lemma fp_le_val: "fp_le (FpFin s m e) (FpFin t n f) \<longleftrightarrow> fp_val s m e \<le> fp_val t n f"
  by (simp add: fp_le_def fp_less_val not_less)

lemma fp_val_int: "fp_of_int i = FpFin (i < 0) \<bar>i\<bar> 0" "fp_val (i < 0) \<bar>i\<bar> 0 = real_of_int i"
  by (simp_all add: fp_of_int_def fp_val_def fp_signed_def)

text \<open>A value of the unit interval stays there when it is rounded to single precision.\<close>

definition fp_unit :: "fp \<Rightarrow> bool" where
  "fp_unit x \<longleftrightarrow> fp_le (fp_of_int 0) x \<and> fp_le x (fp_of_int 1)"

lemma fp_unit_val: "fp_unit (FpFin s m e) \<longleftrightarrow> 0 \<le> fp_val s m e \<and> fp_val s m e \<le> 1"
  using fp_val_int [of 0] fp_val_int [of 1] by (simp add: fp_unit_def fp_le_val)

lemma fp_cast_unit:
  assumes "fp_unit (FpFin s m e)" "0 \<le> m"
  shows "fp_unit (fp_cast single (FpFin s m e))"
proof -
  obtain a b where ab: "scale_frac e m 1 = (a, b)" by (metis prod.exhaust)
  from scale_frac_sign [OF ab] assms(2) have sign: "0 \<le> a" "0 < b" by auto
  from scale_frac_value [OF ab] have v: "real_of_int a / real_of_int b = real_of_int m * 2 powi e" by simp
  have "real_of_int m * 2 powi e \<le> 1 \<and> (s \<longrightarrow> real_of_int m * 2 powi e = 0)"
    using assms abs_fp_val [of m s e] by (auto simp: fp_unit_val) (auto simp: fp_val_def fp_signed_def)
  with v sign have le: "real_of_int a / real_of_int b \<le> 2 powi 0" and zero: "s \<longrightarrow> a = 0" by auto
  from single_within [OF sign le] obtain m' e' where r: "single s a b = FpFin s m' e'" "0 \<le> m'" "real_of_int m' * 2 powi e' \<le> 1"
    by (metis power_int_0_right order_refl zero_less_numeral)
  have "m' = 0" if s using that zero r(1) by (simp add: single_def fp_round_def)
  with r show ?thesis by (auto simp: fp_cast_def ab fp_unit_val fp_val_def fp_signed_def)
qed

lemma fp_clamp_unit:
  assumes "w \<noteq> FpNaN" and "\<And>s m e. w = FpFin s m e \<Longrightarrow> 0 \<le> m"
  shows "fp_unit (fp_cast single (fp_clamp w (fp_of_int 0) (fp_of_int 1)))"
proof -
  let ?c = "fp_clamp w (fp_of_int 0) (fp_of_int 1)"
  have ends: "fp_unit (fp_of_int 0)" "fp_unit (fp_of_int 1)"
    by (simp_all add: fp_val_int(1) fp_unit_val fp_val_def fp_signed_def)
  have "fp_unit ?c" using assms(1) ends by (auto simp: fp_clamp_def fp_unit_def fp_le_def fp_of_int_def)
  moreover have "\<exists>s m e. ?c = FpFin s m e \<and> 0 \<le> m"
    using assms by (cases w) (auto simp: fp_clamp_def fp_of_int_def fp_less_def split: if_splits)
  ultimately show ?thesis using fp_cast_unit by auto
qed

lemma reciprocal_within:
  assumes "1 \<le> n"
  shows "fp_within 0 (ddiv (fp_of_int 1) (fp_of_int n))"
proof -
  obtain a b where ab: "scale_frac 0 1 n = (a, b)" by (metis prod.exhaust)
  from scale_frac_sign [OF ab] assms have sign: "0 \<le> a" "0 < b" by auto
  from scale_frac_value [OF ab] assms have "real_of_int a / real_of_int b \<le> 2 powi 0" by simp
  with sign have "fp_within 0 (double False a b)" by (intro double_within) simp_all
  with assms show ?thesis by (simp add: ddiv_def fp_div_def fp_of_int_def ab)
qed

lemma reciprocal_weight_unit:
  assumes "1 \<le> n1" "1 \<le> n2" "fp_isfinite cct"
  shows "fp_unit (reciprocal_cct_weight (fp_of_int n1) (fp_of_int n2) cct)"
proof -
  let ?one = "fp_of_int 1"
  let ?i2 = "ddiv ?one (fp_of_int n2)"
  let ?denom = "dsub (ddiv ?one (fp_of_int n1)) ?i2" and ?num = "dsub (ddiv ?one cct) ?i2"
  show ?thesis
  proof (cases "fp_le (fp_abs ?denom) double_epsilon")
    case True
    then show ?thesis
      by (simp add: reciprocal_cct_weight_def Let_def fp_val_int(1) fp_unit_val fp_val_def fp_signed_def)
  next
    case False
    obtain s2 m2 e2 where i2: "?i2 = FpFin s2 m2 e2" using reciprocal_within [OF assms(2)] fp_within_fin by metis
    have "fp_within 1 ?denom"
      using fp_sub_within [OF reciprocal_within [OF assms(1)] reciprocal_within [OF assms(2)]] by (simp add: dsub_def)
    then obtain s m e where denom: "?denom = FpFin s m e" "0 \<le> m" using fp_within_fin by metis
    have "m \<noteq> 0"
    proof
      assume "m = 0"
      with False denom(1) show False
        by (simp add: fp_abs_def double_epsilon_def fp_le_val fp_val_def fp_signed_def)
    qed
    with denom(2) have m: "0 < m" by simp
    obtain s1 m1 e1 where cct: "cct = FpFin s1 m1 e1" using assms(3) by (cases cct) (simp_all add: fp_isfinite_def)
    have "ddiv ?one cct \<noteq> FpNaN"
      by (auto simp: cct ddiv_def fp_div_def fp_of_int_def double_not_nan split: prod.split)
    then have num: "?num \<noteq> FpNaN"
      by (cases "ddiv ?one cct") (simp_all add: i2 dsub_def fp_sub_def fp_neg_def fp_add_def Let_def double_not_nan
        split: prod.split)
    let ?w = "ddiv ?num ?denom"
    have "?w \<noteq> FpNaN" unfolding denom(1) using num m by (intro ddiv_finite) simp_all
    moreover have "0 \<le> p" if w: "?w = FpFin u p g" for u p g
    proof (cases ?num)
      case (FpFin u' p' g')
      with fp_add_nonneg have "0 \<le> p'" unfolding dsub_def fp_sub_def by blast
      moreover from w have "fp_div double (FpFin u' p' g') (FpFin s m e) = FpFin u p g"
        unfolding FpFin denom(1) by (simp only: ddiv_def)
      ultimately show ?thesis using m by (blast intro: fp_div_nonneg)
    qed (use w denom(1) num in \<open>simp_all add: ddiv_def fp_div_def\<close>)
    ultimately show ?thesis using False fp_clamp_unit [of ?w] by (simp add: reciprocal_cct_weight_def Let_def)
  qed
qed

lemma calibration_illuminant_positive:
  "calibration_illuminant_cct illuminant = Some cct \<Longrightarrow> \<exists>n. cct = fp_of_int n \<and> 1 \<le> n"
  by (fastforce simp: calibration_illuminant_cct_def split: if_splits)

lemma matrix_lengths:
  "length (lerp_matrix a b weight) = 9" "inverse_matrix m = Some im \<Longrightarrow> length im = 9"
  by (auto simp: lerp_matrix_def inverse_matrix_def Let_def split: if_splits)

lemma camera_matrix_length: "camera_matrix cal cm1 cm2 weight = Inr m \<Longrightarrow> length m = 9"
  by (auto simp: camera_matrix_def need_metadata_def matrix_lengths split: option.splits)

text \<open>When the calibration gives a result, and when it does not.\<close>

lemma interpolate_calibration_Inr:
  assumes "interpolate_calibration nan_sign cal neutral = Inr r"
  shows "\<exists>m1 m2 cct1 cct2. cd_color_matrix1 cal = Some m1 \<and> cd_color_matrix2 cal = Some m2 \<and>
    calibration_illuminant_cct (cd_calibration_illuminant1 cal) = Some cct1 \<and>
    calibration_illuminant_cct (cd_calibration_illuminant2 cal) = Some cct2 \<and>
    cr_scene_cct r = estimate_scene_cct nan_sign neutral (map fp_of_f32 m1) (map fp_of_f32 m2) cct1 cct2 \<and>
    cr_blend_weight r = reciprocal_cct_weight cct1 cct2 (cr_scene_cct r) \<and>
    camera_matrix cal (map fp_of_f32 m1) (map fp_of_f32 m2) (cr_blend_weight r) = Inr (cr_camera_to_xyz_d50 r)"
  using assms unfolding interpolate_calibration_def required_matrix_def need_metadata_def
  by (auto simp: Let_def bind_res_def split: option.splits sum.splits)

lemma interpolate_calibration_Inl:
  assumes "interpolate_calibration nan_sign cal neutral = Inl e"
  shows "er_code e = status_int NeedMetadata \<and>
    (cd_color_matrix1 cal = None \<or> cd_color_matrix2 cal = None \<or>
     calibration_illuminant_cct (cd_calibration_illuminant1 cal) = None \<or>
     calibration_illuminant_cct (cd_calibration_illuminant2 cal) = None \<or>
     cd_forward_matrix1 cal = None \<or> cd_forward_matrix2 cal = None)"
  using assms unfolding interpolate_calibration_def required_matrix_def need_metadata_def camera_matrix_def
  by (auto simp: Let_def bind_res_def split: option.splits sum.splits)

text \<open>
  C36: The calibration of a scene either gives a finite temperature, a blend weight between 0 and 1 and nine matrix
  entries, whatever the neutral vector and the matrices are, or it fails with the status for missing metadata; it
  fails only when a colour matrix, a forward matrix or a supported illuminant is missing.
\<close>

theorem calibration_outcome:
  "case interpolate_calibration nan_sign cal neutral of
     Inr r \<Rightarrow> fp_isfinite (cr_scene_cct r) \<and> fp_le (fp_of_int 0) (cr_blend_weight r) \<and>
       fp_le (cr_blend_weight r) (fp_of_int 1) \<and> length (cr_camera_to_xyz_d50 r) = 9
   | Inl e \<Rightarrow> er_code e = status_int NeedMetadata \<and>
       (cd_color_matrix1 cal = None \<or> cd_color_matrix2 cal = None \<or>
        calibration_illuminant_cct (cd_calibration_illuminant1 cal) = None \<or>
        calibration_illuminant_cct (cd_calibration_illuminant2 cal) = None \<or>
        cd_forward_matrix1 cal = None \<or> cd_forward_matrix2 cal = None)"
proof (cases "interpolate_calibration nan_sign cal neutral")
  case (Inl e)
  with interpolate_calibration_Inl [OF Inl] show ?thesis by simp
next
  case (Inr r)
  from interpolate_calibration_Inr [OF Inr] obtain m1 m2 cct1 cct2 where
    ill: "calibration_illuminant_cct (cd_calibration_illuminant1 cal) = Some cct1"
      "calibration_illuminant_cct (cd_calibration_illuminant2 cal) = Some cct2"
    and r: "cr_scene_cct r = estimate_scene_cct nan_sign neutral (map fp_of_f32 m1) (map fp_of_f32 m2) cct1 cct2"
      "cr_blend_weight r = reciprocal_cct_weight cct1 cct2 (cr_scene_cct r)"
      "camera_matrix cal (map fp_of_f32 m1) (map fp_of_f32 m2) (cr_blend_weight r) = Inr (cr_camera_to_xyz_d50 r)"
    by blast
  have fin: "fp_isfinite (cr_scene_cct r)"
    unfolding r(1) estimate_scene_cct_alt Let_def by (rule fp_within_finite [OF brent_search_within])
  from ill obtain n1 n2 where "cct1 = fp_of_int n1" "cct2 = fp_of_int n2" "1 \<le> n1" "1 \<le> n2"
    using calibration_illuminant_positive by metis
  with fin have "fp_unit (cr_blend_weight r)" unfolding r(2) by (simp add: reciprocal_weight_unit)
  with fin camera_matrix_length [OF r(3)] Inr show ?thesis by (simp add: fp_unit_def)
qed

end
