(* ===== verification/Raw_Filters.thy ===== *)
theory Raw_Filters
  imports White_Balance
begin

text \<open>
  The filters between the sensor and the working colour space that are written in C++: linearisation
  (\<open>src/cpipe/nodes/linearize\<close>), black and white level (\<open>blacklevel\<close>), white balance (\<open>wb\<close>) and the colour matrix
  (\<open>colormatrix\<close>), each with the parameter block its node packs. Every filter reads one image and writes
  another sample by sample; the locale \<open>element_store\<close> says what such a loop leaves behind and is interpreted for
  images of 16-bit and of 32-bit elements.
\<close>

unbundle bit_operations_syntax

section \<open>Parameters\<close>

type_synonym param_filter = "halide_buffer \<Rightarrow> halide_buffer \<Rightarrow> byte list \<Rightarrow> lens_stop + status_code \<times> byte list option"

text \<open>The guards every filter starts with: one input, one output, a block of at least the given size.\<close>

definition on_buffers ::
  "nat \<Rightarrow> param_filter \<Rightarrow> halide_buffer option list \<Rightarrow> halide_buffer option list \<Rightarrow> byte list option \<Rightarrow>
     lens_stop + status_code \<times> byte list option" where
  "on_buffers block_size f inputs outputs param_blob =
     (case (inputs, outputs, param_blob) of
        ([Some input], [Some out], Some blob) \<Rightarrow> if length blob < block_size then Inr (BadIndex, None) else f input out blob
      | _ \<Rightarrow> Inr (BadIndex, None))"

text \<open>A loop over the positions of the input that writes the output.\<close>

definition write_loop ::
  "(int \<Rightarrow> int \<Rightarrow> 'p list) \<Rightarrow> ('p \<Rightarrow> byte list \<Rightarrow> lens_stop + byte list) \<Rightarrow> halide_buffer \<Rightarrow> halide_buffer \<Rightarrow>
     lens_stop + status_code \<times> byte list option" where
  "write_loop places body input out =
     bind_res (dim_at input 0) (\<lambda>d0. bind_res (dim_at input 1) (\<lambda>d1.
     bind_res (fold_res body (places (hdim_extent d0) (hdim_extent d1)) (hb_host out)) (\<lambda>host.
     Inr (Ok, Some host))))"

section \<open>Linearisation\<close>

definition half_bytes :: "u16 \<Rightarrow> byte list" where
  "half_bytes w = [ucast w, ucast (drop_bit 8 w)]"

definition pack_linearize :: "u16 list \<Rightarrow> byte list" where
  "pack_linearize table = le_bytes (of_nat (length table)) @ concat (map half_bytes table)"

definition linearize_sample ::
  "byte list \<Rightarrow> nat \<Rightarrow> halide_buffer \<Rightarrow> halide_buffer \<Rightarrow> int \<times> int \<Rightarrow> byte list \<Rightarrow> lens_stop + byte list" where
  "linearize_sample table last_index input out pos host =
     (case pos of (x, y) \<Rightarrow>
        bind_res (sample_offset input x y) (\<lambda>in_offset.
        bind_res (sample_offset out x y) (\<lambda>out_offset.
        bind_res (element_at (hb_host input) in_offset) (\<lambda>v.
        bind_res (element_at table (int (min (unat v) last_index))) (\<lambda>t.
        put_float out_offset (fp_to_f32 (fp_of_int (uint t))) host)))))"

definition linearize_filter ::
  "halide_buffer option list \<Rightarrow> halide_buffer option list \<Rightarrow> byte list option \<Rightarrow> lens_stop + status_code \<times> byte list option" where
  "linearize_filter =
     on_buffers 4 (\<lambda>input out blob.
       bind_res (lens_word blob 0) (\<lambda>table_size.
       if table_size = 0 \<or> length blob < 4 + unat table_size * 2 then Inr (NeedMetadata, None)
       else write_loop positions (linearize_sample (drop 4 blob) (unat (table_size - 1)) input out) input out))"

section \<open>Black and white level\<close>

definition pack_levels :: "f32 list \<Rightarrow> u32 \<Rightarrow> u8 list \<Rightarrow> byte list" where
  "pack_levels black white pattern = as_bytes (black @ [white]) @ pattern"

text \<open>The parameters the node makes of the calibration.\<close>

definition levels_block :: "calibration_data \<Rightarrow> byte list sdk_result" where
  "levels_block cal =
     (if \<not> cd_has_cfa cal \<or> cd_cfa_repeat cal ! 0 \<noteq> 2 \<or> cd_cfa_repeat cal ! 1 \<noteq> 2 \<or> cd_white_level cal = 0
      then need_metadata ''blacklevel missing DNG levels''
      else Inr (pack_levels (cd_black_level cal) (cd_white_level cal) (take 4 (cd_cfa_pattern cal))))"

definition lens_byte :: "byte list \<Rightarrow> nat \<Rightarrow> lens_stop + byte" where
  "lens_byte blob i = (if i < length blob then Inr (blob ! i) else Inl LensRead)"

definition cfa_index :: "int \<Rightarrow> int \<Rightarrow> nat" where
  "cfa_index x y = unat (((of_int y AND 1) * 2 + (of_int x AND 1)) :: u32)"

definition level_span :: "f32 \<Rightarrow> u32 \<Rightarrow> fp" where
  "level_span black white = ssub (fp_cast single (fp_of_int (uint white))) (fp_of_f32 black)"

definition level_value :: "f32 \<Rightarrow> u32 \<Rightarrow> f32 \<Rightarrow> f32" where
  "level_value black white v =
     fp_to_f32 (fp_clamp (sdiv (ssub (fp_of_f32 v) (fp_of_f32 black)) (level_span black white)) (fp_of_int 0) (fp_of_int 1))"

fun level_pixels ::
  "byte list \<Rightarrow> halide_buffer \<Rightarrow> halide_buffer \<Rightarrow> (int \<times> int) list \<Rightarrow> byte list \<Rightarrow> lens_stop + status_code \<times> byte list" where
  "level_pixels blob input out [] host = Inr (Ok, host)"
| "level_pixels blob input out ((x, y) # ps) host =
     bind_res (lens_byte blob (20 + cfa_index x y)) (\<lambda>color.
     bind_res (lens_word blob (4 * unat (min color 3))) (\<lambda>black.
     bind_res (lens_word blob 16) (\<lambda>white.
     if fp_le (level_span black white) (fp_of_int 0) then Inr (NeedMetadata, host)
     else
       bind_res (sample_offset input x y) (\<lambda>in_offset.
       bind_res (sample_offset out x y) (\<lambda>out_offset.
       bind_res (float_at (hb_host input) in_offset) (\<lambda>v.
       bind_res (put_float out_offset (level_value black white v) host) (\<lambda>host.
       level_pixels blob input out ps host)))))))"

definition levels_filter ::
  "halide_buffer option list \<Rightarrow> halide_buffer option list \<Rightarrow> byte list option \<Rightarrow> lens_stop + status_code \<times> byte list option" where
  "levels_filter =
     on_buffers 24 (\<lambda>input out blob.
       bind_res (dim_at input 0) (\<lambda>d0. bind_res (dim_at input 1) (\<lambda>d1.
       bind_res (level_pixels blob input out (positions (hdim_extent d0) (hdim_extent d1)) (hb_host out)) (\<lambda>(status, host).
       Inr (status, Some host)))))"

section \<open>White balance\<close>

text \<open>The parameters of the dual illuminant node: the checks in the order of the code.\<close>

definition valid_neutral :: "f32 list \<Rightarrow> bool" where
  "valid_neutral neutral \<longleftrightarrow>
     list_all (\<lambda>v. \<not> (\<not> fp_isfinite (fp_of_f32 v) \<or> fp_le (fp_of_f32 v) (fp_of_int 0))) neutral"

definition dual_illuminant_params :: "bool \<Rightarrow> f32 list \<Rightarrow> calibration_data \<Rightarrow> calibration_result sdk_result" where
  "dual_illuminant_params nan_sign as_shot cal =
     bind_res (required_matrix (cd_color_matrix1 cal) ''wb missing ColorMatrix1'') (\<lambda>cm1.
     bind_res (required_matrix (cd_color_matrix2 cal) ''wb missing ColorMatrix2'') (\<lambda>cm2.
     case (calibration_illuminant_cct (cd_calibration_illuminant1 cal),
           calibration_illuminant_cct (cd_calibration_illuminant2 cal)) of
       (Some cct1, Some cct2) \<Rightarrow>
         if \<not> valid_neutral as_shot then need_metadata ''wb invalid AsShotNeutral''
         else
           let scene_cct = estimate_scene_cct nan_sign (map fp_of_f32 as_shot) cm1 cm2 cct1 cct2;
               blend_weight = reciprocal_cct_weight cct1 cct2 scene_cct
           in bind_res (camera_matrix cal cm1 cm2 blend_weight) (\<lambda>m.
              Inr \<lparr>cr_camera_to_xyz_d50 = m, cr_scene_cct = scene_cct, cr_blend_weight = blend_weight\<rparr>)
     | _ \<Rightarrow> need_metadata ''wb unsupported calibration illuminant''))"

definition pack_wb :: "f32 list \<Rightarrow> calibration_result \<Rightarrow> byte list" where
  "pack_wb as_shot cal = as_bytes (as_shot @ map fp_to_f32 (cr_camera_to_xyz_d50 cal) @
     [fp_to_f32 (fp_cast single (cr_scene_cct cal)), fp_to_f32 (cr_blend_weight cal)])"

definition balance :: "f32 \<Rightarrow> u16 \<Rightarrow> u16" where
  "balance neutral v = fp_to_f16 (sdiv (fp_of_f16 v) (fp_of_f32 neutral))"

definition wb_sample ::
  "byte list \<Rightarrow> halide_buffer \<Rightarrow> halide_buffer \<Rightarrow> int \<times> int \<times> int \<Rightarrow> byte list \<Rightarrow> lens_stop + byte list" where
  "wb_sample blob input out pos host =
     (case pos of (x, y, c) \<Rightarrow>
        bind_res (element_offset input x y c) (\<lambda>offset.
        bind_res (element_offset out x y c) (\<lambda>out_offset.
        bind_res (element_at (hb_host input) offset) (\<lambda>v.
        if c = 3 then put_element out_offset v host
        else bind_res (lens_word blob (4 * nat c)) (\<lambda>neutral. put_element out_offset (balance neutral v) host)))))"

definition wb_filter ::
  "halide_buffer option list \<Rightarrow> halide_buffer option list \<Rightarrow> byte list option \<Rightarrow> lens_stop + status_code \<times> byte list option" where
  "wb_filter = on_buffers 56 (\<lambda>input out blob. write_loop samples (wb_sample blob input out) input out)"

section \<open>The colour matrix\<close>

text \<open>The literals are decimal; \<open>flit n\<close> is the single nearest to \<open>n / 10000000\<close>.\<close>

definition flit :: "int \<Rightarrow> fp" where
  "flit n = single (n < 0) \<bar>n\<bar> 10000000"

definition kD50ToD65 :: "fp list" where
  "kD50ToD65 = map flit [9555766, -230393, 631636, -282895, 10099416, 210077, 122982, -204830, 13299098]"

definition kXyzD65ToRec2020 :: "fp list" where
  "kXyzD65ToRec2020 = map flit [17166512, -3556708, -2533663, -6666844, 16164812, 157685, 176399, -427706, 9421031]"

text \<open>\<open>a0 * b0 + a1 * b1 + a2 * b2\<close>\<close>

definition dot3 :: "fp list \<Rightarrow> fp list \<Rightarrow> fp" where
  "dot3 a b = sadd (sadd (smul (a ! 0) (b ! 0)) (smul (a ! 1) (b ! 1))) (smul (a ! 2) (b ! 2))"

definition mul3 :: "fp list \<Rightarrow> fp list \<Rightarrow> fp list" where
  "mul3 lhs rhs =
     map (\<lambda>(r, c). dot3 [lhs ! r, lhs ! (r + 1), lhs ! (r + 2)] [rhs ! c, rhs ! (c + 3), rhs ! (c + 6)])
       (List.product [0, 3, 6] [0, 1, 2])"

text \<open>The matrix in the blob of white balance.\<close>

definition required_camera_to_xyz_blob :: "byte list option \<Rightarrow> lens_stop + fp list sdk_result" where
  "required_camera_to_xyz_blob blob =
     (case blob of
        None \<Rightarrow> Inr (need_metadata ''colormatrix missing WB camera-to-XYZ blob'')
      | Some bytes \<Rightarrow>
          if length bytes \<noteq> 36 then Inr (need_metadata ''colormatrix invalid WB camera-to-XYZ blob'')
          else
            bind_res (lens_words bytes 0 9) (\<lambda>ws.
            Inr (if list_all fp_isfinite (map fp_of_f32 ws) then Inr (map fp_of_f32 ws)
                 else need_metadata ''colormatrix non-finite WB camera-to-XYZ blob'')))"

definition pack_colormatrix :: "fp list \<Rightarrow> byte list" where
  "pack_colormatrix m = as_bytes (map fp_to_f32 (mul3 kXyzD65ToRec2020 (mul3 kD50ToD65 m)))"

definition read_camera_rgb :: "halide_buffer \<Rightarrow> int \<Rightarrow> int \<Rightarrow> lens_stop + fp list" where
  "read_camera_rgb input x y =
     map_res (\<lambda>c. bind_res (element_offset input x y c) (\<lambda>offset.
       bind_res (element_at (hb_host input) offset) (\<lambda>v. Inr (fp_of_f16 v)))) [0, 1, 2]"

definition colormatrix_pixel ::
  "byte list \<Rightarrow> halide_buffer \<Rightarrow> halide_buffer \<Rightarrow> int \<times> int \<Rightarrow> byte list \<Rightarrow> lens_stop + byte list" where
  "colormatrix_pixel blob input out pos host =
     (case pos of (x, y) \<Rightarrow>
        bind_res (read_camera_rgb input x y) (\<lambda>rgb.
        bind_res (lens_words blob 0 9) (\<lambda>ws.
        let mapped = map (\<lambda>r. dot3 (map fp_of_f32 (take 3 (drop r ws))) rgb) [0, 3, 6]
        in bind_res (fold_res (\<lambda>c host. bind_res (element_offset out x y c) (\<lambda>out_offset.
               put_element out_offset (fp_to_f16 (mapped ! nat c)) host)) [0, 1, 2] host) (\<lambda>host.
           bind_res (element_offset input x y 3) (\<lambda>alpha_in.
           bind_res (element_offset out x y 3) (\<lambda>alpha_out.
           bind_res (element_at (hb_host input) alpha_in) (\<lambda>v.
           put_element alpha_out v host)))))))"

definition colormatrix_filter ::
  "halide_buffer option list \<Rightarrow> halide_buffer option list \<Rightarrow> byte list option \<Rightarrow> lens_stop + status_code \<times> byte list option" where
  "colormatrix_filter = on_buffers 36 (\<lambda>input out blob. write_loop positions (colormatrix_pixel blob input out) input out)"

section \<open>Loops that write elements\<close>

text \<open>
  An array of elements inside bytes: \<open>fits n i\<close> says that element \<open>i\<close> lies in an array of \<open>n\<close> bytes.
\<close>

locale element_store =
  fixes get :: "byte list \<Rightarrow> int \<Rightarrow> lens_stop + 'v"
    and put :: "int \<Rightarrow> 'v \<Rightarrow> byte list \<Rightarrow> lens_stop + byte list"
    and fits :: "nat \<Rightarrow> int \<Rightarrow> bool"
  assumes put_fits: "fits (length host) i \<Longrightarrow> \<exists>host'. put i v host = Inr host' \<and> length host' = length host"
    and get_put: "put i v host = Inr host' \<Longrightarrow> 0 \<le> j \<Longrightarrow> get host' j = (if j = i then Inr v else get host j)"
    and get_fits: "fits (length host) i \<Longrightarrow> \<exists>v. get host i = Inr v"
    and fits_nonneg: "fits n i \<Longrightarrow> 0 \<le> i"
begin

text \<open>A loop that writes the value of every place to its offset.\<close>

lemma fill:
  assumes "\<And>p. p \<in> set ps \<Longrightarrow> fits (length host) (offset p)" and "distinct (map offset ps)"
  shows "\<exists>host'. fold_res (\<lambda>p. put (offset p) (val p)) ps host = Inr host' \<and> length host' = length host \<and>
    (\<forall>p \<in> set ps. get host' (offset p) = Inr (val p)) \<and>
    (\<forall>j \<ge> 0. j \<notin> offset ` set ps \<longrightarrow> get host' j = get host j)"
  using assms
proof (induction ps arbitrary: host)
  case (Cons p ps)
  from Cons.prems(1) put_fits obtain host1 where h1: "put (offset p) (val p) host = Inr host1" "length host1 = length host"
    by (meson list.set_intros(1))
  from Cons.IH [of host1] Cons.prems h1(2) obtain host' where h: "fold_res (\<lambda>p. put (offset p) (val p)) ps host1 = Inr host'"
    "length host' = length host1" "\<forall>p \<in> set ps. get host' (offset p) = Inr (val p)"
    "\<forall>j \<ge> 0. j \<notin> offset ` set ps \<longrightarrow> get host' j = get host1 j" by auto
  have "0 \<le> offset p" using Cons.prems(1) fits_nonneg by (meson list.set_intros(1))
  with h get_put [OF h1(1)] Cons.prems(2) have "get host' (offset p) = Inr (val p)" by auto
  with h h1 get_put [OF h1(1)] show ?case by auto
qed simp

text \<open>The same for a body that computes the value first.\<close>

lemma fill_body:
  assumes "\<And>p. p \<in> set ps \<Longrightarrow> fits (length host) (offset p)" and "distinct (map offset ps)"
    and "\<And>p h. p \<in> set ps \<Longrightarrow> body p h = put (offset p) (val p) h"
  shows "\<exists>host'. fold_res body ps host = Inr host' \<and> length host' = length host \<and>
    (\<forall>p \<in> set ps. get host' (offset p) = Inr (val p))"
proof -
  have "fold_res body ps host = fold_res (\<lambda>p. put (offset p) (val p)) ps host" using assms(3)
    by (induction ps arbitrary: host) (auto simp: bind_res_def split: sum.split)
  with fill [OF assms(1,2), of val] show ?thesis by auto
qed

end

lemma element_join: "push_bit 8 (ucast (ucast (drop_bit 8 w) :: byte)) OR ucast (ucast w :: byte) = (w :: u16)"
  by (rule bit_word_eqI) (auto simp: bit_simps)

interpretation halves: element_store element_at put_element "\<lambda>n i. 0 \<le> i \<and> 2 * nat i + 1 < n"
proof unfold_locales
  fix i j :: int and v :: u16 and host host' :: "byte list"
  assume "put_element i v host = Inr host'" and j: "0 \<le> j"
  then have i: "0 \<le> i" "2 * nat i + 1 < length host"
    and h: "host' = host[2 * nat i := ucast v, 2 * nat i + 1 := ucast (drop_bit 8 v)]"
    by (auto simp: put_element_def split: if_splits)
  show "element_at host' j = (if j = i then Inr v else element_at host j)"
  proof (cases "j = i")
    case True
    with i show ?thesis by (simp add: element_at_def h element_join)
  next
    case False
    with i(1) j have "nat j \<noteq> nat i" by simp
    moreover have "a \<noteq> b \<Longrightarrow> 2 * a \<noteq> 2 * b \<and> 2 * a \<noteq> 2 * b + 1 \<and> 2 * a + 1 \<noteq> 2 * b \<and> 2 * a + 1 \<noteq> 2 * b + 1" for a b :: nat
      by presburger
    ultimately have "2 * nat j \<noteq> 2 * nat i \<and> 2 * nat j \<noteq> 2 * nat i + 1 \<and> 2 * nat j + 1 \<noteq> 2 * nat i \<and> 2 * nat j + 1 \<noteq> 2 * nat i + 1"
      by blast
    with False show ?thesis by (simp add: element_at_def h)
  qed
qed (auto simp: put_element_def element_at_def)

interpretation floats: element_store float_at put_float "\<lambda>n i. 0 \<le> i \<and> 4 * nat i + 4 \<le> n"
proof unfold_locales
  show "float_at host' j = (if j = i then Inr v else float_at host j)" if "put_float i v host = Inr host'" "0 \<le> j" for i v host host' j
    using float_at_put(2) [OF that] .
qed (use float_at_Inr in \<open>auto simp: put_float_def\<close>)

section \<open>Images\<close>

text \<open>The elements of an image, for offsets inside it.\<close>

definition half_of :: "halide_buffer \<Rightarrow> int \<Rightarrow> u16" where
  "half_of b i = (case element_at (hb_host b) i of Inr v \<Rightarrow> v | Inl _ \<Rightarrow> 0)"

definition float_of :: "halide_buffer \<Rightarrow> int \<Rightarrow> f32" where
  "float_of b i = (case float_at (hb_host b) i of Inr v \<Rightarrow> v | Inl _ \<Rightarrow> 0)"

text \<open>A dense image with one channel of 16 bits.\<close>

definition dense_raw :: "int \<Rightarrow> int \<Rightarrow> halide_buffer \<Rightarrow> bool" where
  "dense_raw width height b \<longleftrightarrow> hb_dims b = [\<lparr>hdim_min = 0, hdim_extent = width, hdim_stride = 1\<rparr>,
      \<lparr>hdim_min = 0, hdim_extent = height, hdim_stride = width\<rparr>] \<and> 2 * (width * height) \<le> int (length (hb_host b))"

definition raw_offset :: "int \<Rightarrow> int \<times> int \<Rightarrow> int" where
  "raw_offset width pos = snd pos * width + fst pos"

lemma raw_offsets_distinct: "distinct (map (raw_offset width) (positions width height))"
proof -
  have "p = q" if "p \<in> set (positions width height)" "q \<in> set (positions width height)" "raw_offset width p = raw_offset width q" for p q
    using row_inj [of "snd p" width "fst p" "snd q" "fst q"] that
    by (cases p; cases q) (simp add: raw_offset_def set_positions)
  then show ?thesis by (simp add: distinct_map distinct_positions inj_on_def)
qed

lemma sample_offset_raw:
  assumes "dense_raw width height b" "width * height < 2 ^ 31" and "(x, y) \<in> set (positions width height)"
  shows "sample_offset b x y = Inr (raw_offset width (x, y))" and "element_at (hb_host b) (raw_offset width (x, y)) = Inr (half_of b (raw_offset width (x, y)))"
proof -
  from assms(3) have b: "0 \<le> x" "x < width" "0 \<le> y" "y < height" by (simp_all add: set_positions)
  note pb = position_bound [OF b]
  have "in_int32 (y * width)" "in_int32 x" "in_int32 (y * width + x)"
    using pb assms(2) b unfolding in_int32_def by linarith+
  with assms(1) show "sample_offset b x y = Inr (raw_offset width (x, y))"
    by (simp add: sample_offset_def dense_raw_def dim_at_def check_i32_def raw_offset_def)
  have "2 * (width * height) \<le> int (length (hb_host b))" using assms(1) by (simp add: dense_raw_def)
  then have "2 * nat (y * width + x) + 1 < length (hb_host b)" using pb b by linarith
  with pb b show "element_at (hb_host b) (raw_offset width (x, y)) = Inr (half_of b (raw_offset width (x, y)))"
    by (simp add: half_of_def element_at_def raw_offset_def)
qed

lemma sample_offset_plane:
  assumes "dense_plane width height b" "width * height < 2 ^ 31" and "(x, y) \<in> set (positions width height)"
  shows "sample_offset b x y = Inr (raw_offset width (x, y))"
    and "0 \<le> raw_offset width (x, y) \<and> 4 * nat (raw_offset width (x, y)) + 4 \<le> length (hb_host b)"
    and "float_at (hb_host b) (raw_offset width (x, y)) = Inr (float_of b (raw_offset width (x, y)))"
proof -
  from assms(3) have b: "0 \<le> x" "x < width" "0 \<le> y" "y < height" by (simp_all add: set_positions)
  from sample_offset_dense [OF assms(1,2) b] show "sample_offset b x y = Inr (raw_offset width (x, y))"
    by (simp add: raw_offset_def)
  from dense_element [OF assms(1) b] position_bound [OF b] b
  show fits: "0 \<le> raw_offset width (x, y) \<and> 4 * nat (raw_offset width (x, y)) + 4 \<le> length (hb_host b)"
    by (simp add: raw_offset_def)
  then show "float_at (hb_host b) (raw_offset width (x, y)) = Inr (float_of b (raw_offset width (x, y)))"
    using float_at_Inr by (fastforce simp: float_of_def)
qed

lemma dense_extents:
  "dense_raw width height b \<Longrightarrow> dim_at b 0 = Inr \<lparr>hdim_min = 0, hdim_extent = width, hdim_stride = 1\<rparr> \<and>
     dim_at b 1 = Inr \<lparr>hdim_min = 0, hdim_extent = height, hdim_stride = width\<rparr>"
  "dense_plane width height b \<Longrightarrow> dim_at b 0 = Inr \<lparr>hdim_min = 0, hdim_extent = width, hdim_stride = 1\<rparr> \<and>
     dim_at b 1 = Inr \<lparr>hdim_min = 0, hdim_extent = height, hdim_stride = width\<rparr>"
  "dense_view width height b \<Longrightarrow> dim_at b 0 = Inr \<lparr>hdim_min = 0, hdim_extent = width, hdim_stride = 4\<rparr> \<and>
     dim_at b 1 = Inr \<lparr>hdim_min = 0, hdim_extent = height, hdim_stride = 4 * width\<rparr>"
  by (simp_all add: dense_raw_def dense_plane_def dense_view_def dim_at_def)

section \<open>Linearisation and levels\<close>

definition linear_value :: "u16 list \<Rightarrow> u16 \<Rightarrow> f32" where
  "linear_value table v = fp_to_f32 (fp_of_int (uint (table ! min (unat v) (length table - 1))))"

lemma table_element:
  assumes "i < length table"
  shows "element_at (concat (map half_bytes table)) (int i) = Inr (table ! i)"
  using assms
proof (induction table arbitrary: i)
  case (Cons w table)
  show ?case
  proof (cases i)
    case 0
    then show ?thesis using Cons.prems by (simp add: element_at_def half_bytes_def element_join)
  next
    case (Suc k)
    with Cons have "element_at (concat (map half_bytes table)) (int k) = Inr (table ! k)" by simp
    moreover have "concat (map half_bytes (w # table)) = ucast w # ucast (drop_bit 8 w) # concat (map half_bytes table)"
      by (simp add: half_bytes_def)
    ultimately show ?thesis by (simp add: Suc element_at_def nat_add_distrib split: if_splits)
  qed
qed simp

lemma linearize_filter_table:
  assumes "dense_raw width height raw" "dense_plane width height out" "width * height < 2 ^ 31"
    and "table \<noteq> []" "length table < 2 ^ 32"
  shows "\<exists>host. linearize_filter [Some raw] [Some out] (Some (pack_linearize table)) = Inr (Ok, Some host) \<and>
    length host = length (hb_host out) \<and>
    (\<forall>p \<in> set (positions width height). float_at host (raw_offset width p) = Inr (linear_value table (half_of raw (raw_offset width p))))"
proof -
  let ?bytes = "concat (map half_bytes table)" and ?last = "unat (of_nat (length table) - 1 :: u32)"
  have n: "unat (of_nat (length table) :: u32) = length table" using assms(5) by (simp add: unat_of_nat)
  have pos: "of_nat (length table) \<noteq> (0 :: u32)" using n assms(4) by force
  have last: "?last = length table - 1" using n pos by (simp add: unat_minus_one)
  have len: "length ?bytes = length table * 2" by (induction table) (simp_all add: half_bytes_def)
  have body: "linearize_sample ?bytes ?last raw out p h = put_float (raw_offset width p) (linear_value table (half_of raw (raw_offset width p))) h"
    if "p \<in> set (positions width height)" for p h
  proof -
    obtain x y where p: "p = (x, y)" by (cases p)
    have "min (unat (half_of raw (raw_offset width p))) ?last < length table" using assms(4) last by (simp add: min_less_iff_disj)
    from table_element [OF this] that show ?thesis
      using sample_offset_raw [OF assms(1,3)] sample_offset_plane(1) [OF assms(2,3)]
      by (simp add: linearize_sample_def p linear_value_def last)
  qed
  obtain host where host: "fold_res (linearize_sample ?bytes ?last raw out) (positions width height) (hb_host out) = Inr host"
    "length host = length (hb_host out)"
    "\<forall>p \<in> set (positions width height). float_at host (raw_offset width p) = Inr (linear_value table (half_of raw (raw_offset width p)))"
    using floats.fill_body [where host = "hb_host out" and offset = "raw_offset width" and ps = "positions width height"
        and body = "linearize_sample ?bytes ?last raw out" and val = "\<lambda>p. linear_value table (half_of raw (raw_offset width p))"]
      sample_offset_plane(2) [OF assms(2,3)] raw_offsets_distinct body by auto
  have word: "lens_word (pack_linearize table) 0 = Inr (of_nat (length table))"
    using le_word_le_bytes by (simp add: lens_word_def pack_linearize_def)
  have "drop 4 (pack_linearize table) = ?bytes" "length (pack_linearize table) = 4 + length table * 2"
    by (simp_all add: pack_linearize_def len)
  with word host pos n dense_extents(1) [OF assms(1)] show ?thesis
    by (simp add: linearize_filter_def on_buffers_def write_loop_def)
qed

text \<open>The levels of a position, from the packed block.\<close>

definition level_black :: "f32 list \<Rightarrow> u8 list \<Rightarrow> int \<times> int \<Rightarrow> f32" where
  "level_black black pattern pos = black ! unat (min (pattern ! cfa_index (fst pos) (snd pos)) 3)"

lemma cfa_index_less: "cfa_index x y < 4"
proof -
  have bit: "\<exists>b :: bool. w AND 1 = of_bool b" for w :: u32 by (simp add: and_one_eq mod2_eq_if) metis
  from bit [of "of_int x"] bit [of "of_int y"] obtain a b :: bool
    where "(of_int x :: u32) AND 1 = of_bool a" "(of_int y :: u32) AND 1 = of_bool b" by blast
  then show ?thesis by (cases a; cases b) (simp_all add: cfa_index_def)
qed

lemma packed_levels:
  assumes "length black = 4" "length pattern = 4"
  shows "\<exists>color. lens_byte (pack_levels black white pattern) (20 + cfa_index x y) = Inr color \<and>
      lens_word (pack_levels black white pattern) (4 * unat (min color 3)) = Inr (level_black black pattern (x, y))"
    and "lens_word (pack_levels black white pattern) 16 = Inr white"
    and "length (pack_levels black white pattern) = 24"
proof -
  let ?blob = "pack_levels black white pattern"
  have len: "length (as_bytes (black @ [white])) = 20" using assms by (simp add: length_as_bytes)
  show "length ?blob = 24" using len assms by (simp add: pack_levels_def)
  have word: "lens_word ?blob (4 * i) = Inr ((black @ [white]) ! i)" if "i < 5" for i
  proof -
    have w: "le_word (as_bytes (black @ [white])) (4 * i) = Inr ((black @ [white]) ! i)"
      using that assms(1) by (intro le_word_as_bytes) simp
    have "le_word (as_bytes (black @ [white]) @ pattern) (4 * i) = le_word (as_bytes (black @ [white])) (4 * i)"
      using that len by (simp add: le_word_def byte_at_def nth_append)
    with w show ?thesis by (simp add: lens_word_def pack_levels_def)
  qed
  show "lens_word ?blob 16 = Inr white" using word [of 4] assms(1) by (simp add: nth_append)
  let ?color = "pattern ! cfa_index x y"
  have "lens_byte ?blob (20 + cfa_index x y) = Inr ?color"
    using len assms(2) cfa_index_less [of x y] by (simp add: lens_byte_def pack_levels_def nth_append)
  moreover have "unat (min ?color 3) \<le> 3" by (simp add: min_def word_le_nat_alt)
  then have "lens_word ?blob (4 * unat (min ?color 3)) = Inr (black ! unat (min ?color 3))"
    using word [of "unat (min ?color 3)"] assms(1) by (simp add: nth_append)
  ultimately show "\<exists>color. lens_byte ?blob (20 + cfa_index x y) = Inr color \<and>
      lens_word ?blob (4 * unat (min color 3)) = Inr (level_black black pattern (x, y))"
    by (auto simp: level_black_def)
qed

definition spans_positive :: "f32 list \<Rightarrow> u32 \<Rightarrow> u8 list \<Rightarrow> bool" where
  "spans_positive black white pattern \<longleftrightarrow>
     list_all (\<lambda>color. \<not> fp_le (level_span (black ! unat (min color 3)) white) (fp_of_int 0)) pattern"

lemma level_pixels_fold:
  assumes "length black = 4" "length pattern = 4" "spans_positive black white pattern"
    and "dense_plane width height input" "dense_plane width height out" "width * height < 2 ^ 31"
    and "set ps \<subseteq> set (positions width height)"
  shows "level_pixels (pack_levels black white pattern) input out ps host =
    bind_res (fold_res (\<lambda>p. put_float (raw_offset width p)
        (level_value (level_black black pattern p) white (float_of input (raw_offset width p)))) ps host) (\<lambda>host. Inr (Ok, host))"
  using assms(7)
proof (induction ps arbitrary: host)
  case (Cons p ps)
  obtain x y where p: "p = (x, y)" by (cases p)
  with Cons.prems have xy: "(x, y) \<in> set (positions width height)" by simp
  obtain color where c: "lens_byte (pack_levels black white pattern) (20 + cfa_index x y) = Inr color"
    "lens_word (pack_levels black white pattern) (4 * unat (min color 3)) = Inr (level_black black pattern (x, y))"
    using packed_levels(1) [OF assms(1,2)] by blast
  have "\<not> fp_le (level_span (level_black black pattern (x, y)) white) (fp_of_int 0)"
    using assms(2,3) cfa_index_less [of x y] by (simp add: spans_positive_def list_all_length level_black_def)
  moreover have "level_pixels (pack_levels black white pattern) input out ps = (\<lambda>host.
      bind_res (fold_res (\<lambda>p. put_float (raw_offset width p)
        (level_value (level_black black pattern p) white (float_of input (raw_offset width p)))) ps host) (\<lambda>host. Inr (Ok, host)))"
    using Cons by (intro ext) simp
  ultimately show ?case
    using c sample_offset_plane [OF assms(4,6) xy] sample_offset_plane(1) [OF assms(5,6) xy] packed_levels(2) [OF assms(1,2)]
    by (simp add: p bind_res_assoc)
qed simp

lemma levels_filter_scales:
  assumes "length black = 4" "length pattern = 4" "spans_positive black white pattern"
    and "dense_plane width height input" "dense_plane width height out" "width * height < 2 ^ 31"
  shows "\<exists>host. levels_filter [Some input] [Some out] (Some (pack_levels black white pattern)) = Inr (Ok, Some host) \<and>
    length host = length (hb_host out) \<and>
    (\<forall>p \<in> set (positions width height). float_at host (raw_offset width p) =
      Inr (level_value (level_black black pattern p) white (float_of input (raw_offset width p))))"
proof -
  obtain host where "fold_res (\<lambda>p. put_float (raw_offset width p)
        (level_value (level_black black pattern p) white (float_of input (raw_offset width p)))) (positions width height) (hb_host out) = Inr host"
    "length host = length (hb_host out)" "\<forall>p \<in> set (positions width height). float_at host (raw_offset width p) =
      Inr (level_value (level_black black pattern p) white (float_of input (raw_offset width p)))"
    using floats.fill [where host = "hb_host out" and offset = "raw_offset width" and ps = "positions width height"
        and val = "\<lambda>p. level_value (level_black black pattern p) white (float_of input (raw_offset width p))"]
      sample_offset_plane(2) [OF assms(5,6)] raw_offsets_distinct by fastforce
  then show ?thesis
    using level_pixels_fold [OF assms order_refl] packed_levels(3) [OF assms(1,2)] dense_extents(2) [OF assms(4)]
    by (simp add: levels_filter_def on_buffers_def)
qed

text \<open>
  C37: The raw stages of a calibration with a linearisation table and levels the level node accepts, for images of
  matching size whose offsets fit an int: the linearisation filter and then the level filter, applied to the blocks
  their nodes pack, both succeed inside their memory, and every sample of the result is the table entry of the raw
  sample, or the last entry for samples beyond the table, with the black level of its colour subtracted, divided by
  the distance to the white level and clamped to the unit interval.
\<close>

theorem raw_stages:
  fixes cal :: calibration_data
  defines "table \<equiv> cd_linearization_table cal" and "pattern \<equiv> take 4 (cd_cfa_pattern cal)"
  assumes "dense_raw width height raw" "dense_plane width height linearized" "dense_plane width height out"
    and "width * height < 2 ^ 31" and "table \<noteq> []" "length table < 2 ^ 32" and "levels_block cal = Inr blob"
    and "length (cd_black_level cal) = 4" "4 \<le> length (cd_cfa_pattern cal)"
    and "spans_positive (cd_black_level cal) (cd_white_level cal) pattern"
  shows "\<exists>mid host. linearize_filter [Some raw] [Some linearized] (Some (pack_linearize table)) = Inr (Ok, Some mid) \<and>
    levels_filter [Some (linearized\<lparr>hb_host := mid\<rparr>)] [Some out] (Some blob) = Inr (Ok, Some host) \<and>
    list_all (\<lambda>p. float_at host (raw_offset width p) =
      Inr (level_value (level_black (cd_black_level cal) pattern p) (cd_white_level cal)
        (linear_value table (half_of raw (raw_offset width p))))) (positions width height)"
proof -
  from linearize_filter_table [OF assms(3,4,6-8)] obtain mid where
    mid: "linearize_filter [Some raw] [Some linearized] (Some (pack_linearize table)) = Inr (Ok, Some mid)"
      "length mid = length (hb_host linearized)" "\<forall>p \<in> set (positions width height).
        float_at mid (raw_offset width p) = Inr (linear_value table (half_of raw (raw_offset width p)))" by blast
  let ?mid = "linearized\<lparr>hb_host := mid\<rparr>"
  have blob: "blob = pack_levels (cd_black_level cal) (cd_white_level cal) pattern"
    using assms(9) by (auto simp: levels_block_def need_metadata_def pattern_def split: if_splits)
  have "dense_plane width height ?mid" using assms(4) mid(2) by (simp add: dense_plane_def)
  moreover have "length pattern = 4" using assms(11) by (simp add: pattern_def)
  ultimately obtain host where "levels_filter [Some ?mid] [Some out] (Some blob) = Inr (Ok, Some host)"
    "\<forall>p \<in> set (positions width height). float_at host (raw_offset width p) =
      Inr (level_value (level_black (cd_black_level cal) pattern p) (cd_white_level cal) (float_of ?mid (raw_offset width p)))"
    unfolding blob using levels_filter_scales [OF assms(10) _ assms(12) _ assms(5,6)] by blast
  with mid show ?thesis by (auto simp: list_all_iff float_of_def)
qed

section \<open>White balance and the colour matrix\<close>

definition view_offset :: "int \<Rightarrow> int \<times> int \<times> int \<Rightarrow> int" where
  "view_offset width pos = (case pos of (x, y, c) \<Rightarrow> (y * width + x) * 4 + c)"

lemma view_offset_inj:
  assumes "(x, y, c) \<in> set (samples width height)" "(x', y', c') \<in> set (samples width height)"
    and "view_offset width (x, y, c) = view_offset width (x', y', c')"
  shows "(x, y, c) = (x', y', c')"
proof -
  from assms(1,2) have b: "0 \<le> x" "x < width" "0 \<le> x'" "x' < width" "0 \<le> c" "c < 4" "0 \<le> c'" "c' < 4"
    by (simp_all add: set_samples)
  from assms(3) have "(y * width + x) * 4 + c = (y' * width + x') * 4 + c'" by (simp add: view_offset_def)
  from row_inj [OF this b(5,6,7,8)] have "c = c'" "y * width + x = y' * width + x'" by simp_all
  with row_inj [OF this(2) b(1-4)] show ?thesis by simp
qed

lemma distinct_samples: "distinct (samples width height)"
proof -
  have "samples width height = map (\<lambda>((x, y), c). (x, y, c)) (List.product (positions width height) [0..3])"
    by (auto simp: samples_def product_concat_map map_concat comp_def split_def)
  then show ?thesis by (auto simp: distinct_map distinct_product distinct_positions inj_on_def)
qed

lemma view_offsets_distinct: "distinct (map (view_offset width) (samples width height))"
  by (auto simp: distinct_map distinct_samples inj_on_def dest: view_offset_inj)

lemma view_element:
  assumes "dense_view width height b" "width * height * 4 < 2 ^ 31" and "(x, y, c) \<in> set (samples width height)"
  shows "element_offset b x y c = Inr (view_offset width (x, y, c))"
    and "0 \<le> view_offset width (x, y, c) \<and> 2 * nat (view_offset width (x, y, c)) + 1 < length (hb_host b)"
    and "element_at (hb_host b) (view_offset width (x, y, c)) = Inr (half_of b (view_offset width (x, y, c)))"
proof -
  from assms(3) have b: "0 \<le> x" "x < width" "0 \<le> y" "y < height" "0 \<le> c" "c < 4" by (simp_all add: set_samples)
  from element_offset_dense [OF assms(1,2) b] show "element_offset b x y c = Inr (view_offset width (x, y, c))"
    by (simp add: view_offset_def)
  have "0 \<le> (y * width + x) * 4 + c" using position_bound(1) [OF b(1-4)] b by simp
  with element_in_host [OF assms(1,2) b]
  show fits: "0 \<le> view_offset width (x, y, c) \<and> 2 * nat (view_offset width (x, y, c)) + 1 < length (hb_host b)"
    by (simp add: view_offset_def)
  then show "element_at (hb_host b) (view_offset width (x, y, c)) = Inr (half_of b (view_offset width (x, y, c)))"
    by (simp add: half_of_def element_at_def)
qed

definition balanced :: "f32 list \<Rightarrow> halide_buffer \<Rightarrow> int \<Rightarrow> int \<times> int \<times> int \<Rightarrow> u16" where
  "balanced neutral b width pos =
     (case pos of (x, y, c) \<Rightarrow>
        let v = half_of b (view_offset width pos) in if c = 3 then v else balance (neutral ! nat c) v)"

lemma wb_filter_balances:
  assumes "dense_view width height input" "dense_view width height out" "width * height * 4 < 2 ^ 31"
    and "length neutral = 3" "length (cr_camera_to_xyz_d50 r) = 9"
  shows "\<exists>host. wb_filter [Some input] [Some out] (Some (pack_wb neutral r)) = Inr (Ok, Some host) \<and>
    length host = length (hb_host out) \<and>
    (\<forall>p \<in> set (samples width height). element_at host (view_offset width p) = Inr (balanced neutral input width p))"
proof -
  let ?blob = "pack_wb neutral r"
  have word: "lens_word ?blob (4 * nat c) = Inr (neutral ! nat c)" if "0 \<le> c" "c < 3" for c
  proof -
    have "nat c < 3" using that by linarith
    then show ?thesis using assms(4) le_word_as_bytes
      unfolding lens_word_def pack_wb_def by (simp add: nth_append)
  qed
  have body: "wb_sample ?blob input out p h = put_element (view_offset width p) (balanced neutral input width p) h"
    if "p \<in> set (samples width height)" for p h
  proof -
    obtain x y c where p: "p = (x, y, c)" by (cases p)
    from that p have c: "0 \<le> c" "c < 4" by (simp_all add: set_samples)
    with that p word [of c] show ?thesis
      using view_element [OF assms(1,3)] view_element(1) [OF assms(2,3)]
      by (cases "c = 3") (simp_all add: wb_sample_def balanced_def Let_def)
  qed
  obtain host where "fold_res (wb_sample ?blob input out) (samples width height) (hb_host out) = Inr host"
    "length host = length (hb_host out)"
    "\<forall>p \<in> set (samples width height). element_at host (view_offset width p) = Inr (balanced neutral input width p)"
    using halves.fill_body [where host = "hb_host out" and offset = "view_offset width" and ps = "samples width height"
        and body = "wb_sample ?blob input out" and val = "balanced neutral input width"]
      view_element(2) [OF assms(2,3)] view_offsets_distinct body by auto
  moreover have "length ?blob = 56" using assms(4,5) by (simp add: pack_wb_def length_as_bytes)
  ultimately show ?thesis using dense_extents(3) [OF assms(1)] by (simp add: wb_filter_def on_buffers_def write_loop_def)
qed

text \<open>The samples of a pixel after the colour matrix with the given entries.\<close>

definition matrix_row :: "f32 list \<Rightarrow> int \<Rightarrow> fp list" where
  "matrix_row ws c = map fp_of_f32 (take 3 (drop (3 * nat c) ws))"

definition transformed :: "f32 list \<Rightarrow> (int \<times> int \<times> int \<Rightarrow> u16) \<Rightarrow> int \<times> int \<times> int \<Rightarrow> u16" where
  "transformed ws img pos =
     (case pos of (x, y, c) \<Rightarrow>
        if c = 3 then img pos else fp_to_f16 (dot3 (matrix_row ws c) (map (\<lambda>k. fp_of_f16 (img (x, y, k))) [0, 1, 2])))"

lemma fold_res_concat: "fold_res f (concat (map g ps)) s = fold_res (\<lambda>p. fold_res f (g p)) ps s"
  by (induction ps arbitrary: s) (simp_all add: fold_res_append bind_res_def split: sum.split)

lemma fold_res_cong_set: "(\<And>p h. p \<in> set ps \<Longrightarrow> f p h = g p h) \<Longrightarrow> fold_res f ps s = fold_res g ps s"
  by (induction ps arbitrary: s) (auto simp: bind_res_def split: sum.split)

lemma colormatrix_pixel_puts:
  assumes "dense_view width height input" "dense_view width height out" "width * height * 4 < 2 ^ 31"
    and "length ws = 9" "(x, y) \<in> set (positions width height)"
  shows "colormatrix_pixel (as_bytes ws) input out (x, y) host =
    fold_res (\<lambda>p. put_element (view_offset width p) (transformed ws (\<lambda>p. half_of input (view_offset width p)) p))
      (map (\<lambda>c. (x, y, c)) [0..3]) host"
proof -
  have s: "(x, y, c) \<in> set (samples width height)" if "0 \<le> c" "c < 4" for c
    using assms(5) that by (simp add: set_samples set_positions)
  note e = view_element [OF assms(1,3) s] view_element(1) [OF assms(2,3) s]
  have "[0..3] = [0, 1, 2, 3 :: int]" by (simp add: upto.simps)
  moreover have "lens_words (as_bytes ws) 0 9 = Inr ws"
    using lens_words_as_bytes [of 0 9 ws 0] assms(4) by simp
  ultimately show ?thesis
    by (simp add: colormatrix_pixel_def read_camera_rgb_def e transformed_def matrix_row_def Let_def bind_res_assoc)
      (auto simp: bind_res_def matrix_row_def e split: sum.split)
qed

lemma colormatrix_filter_transforms:
  assumes "dense_view width height input" "dense_view width height out" "width * height * 4 < 2 ^ 31" and "length ws = 9"
  shows "\<exists>host. colormatrix_filter [Some input] [Some out] (Some (as_bytes ws)) = Inr (Ok, Some host) \<and>
    length host = length (hb_host out) \<and>
    (\<forall>p \<in> set (samples width height). element_at host (view_offset width p) =
      Inr (transformed ws (\<lambda>p. half_of input (view_offset width p)) p))"
proof -
  let ?put = "\<lambda>p. put_element (view_offset width p) (transformed ws (\<lambda>p. half_of input (view_offset width p)) p)"
  have "fold_res (colormatrix_pixel (as_bytes ws) input out) (positions width height) (hb_host out) =
      fold_res (\<lambda>p. fold_res ?put (case p of (x, y) \<Rightarrow> map (\<lambda>c. (x, y, c)) [0..3])) (positions width height) (hb_host out)"
    using colormatrix_pixel_puts [OF assms] by (intro fold_res_cong_set) auto
  also have "\<dots> = fold_res ?put (samples width height) (hb_host out)"
    by (simp add: samples_def fold_res_concat)
  finally have loop: "fold_res (colormatrix_pixel (as_bytes ws) input out) (positions width height) (hb_host out) = \<dots>" .
  obtain host where "fold_res ?put (samples width height) (hb_host out) = Inr host" "length host = length (hb_host out)"
    "\<forall>p \<in> set (samples width height). element_at host (view_offset width p) = Inr (transformed ws (\<lambda>p. half_of input (view_offset width p)) p)"
    using halves.fill [where host = "hb_host out" and offset = "view_offset width" and ps = "samples width height"
        and val = "transformed ws (\<lambda>p. half_of input (view_offset width p))"]
      view_element(2) [OF assms(2,3)] view_offsets_distinct by fastforce
  then show ?thesis using dense_extents(3) [OF assms(1)] assms(4)
    by (simp add: colormatrix_filter_def on_buffers_def write_loop_def loop length_as_bytes)
qed

lemma transformed_cong:
  assumes "\<And>k. k \<in> {0, 1, 2, c} \<Longrightarrow> f (x, y, k) = g (x, y, k)"
  shows "transformed ws f (x, y, c) = transformed ws g (x, y, c)"
  using assms by (simp add: transformed_def)

text \<open>
  C38: The colour stages of an image with four half precision channels: the white balance filter and then the colour
  matrix filter, applied to the blocks their nodes pack, where the matrix is the one the white balance node wrote to
  its blob, both succeed inside their memory. Every colour sample of the result is the row of the matrix chain from
  the camera to the working space applied to the samples of the pixel, each divided by its neutral value and rounded
  to half precision, and the fourth channel is unchanged.
\<close>

theorem colour_stages:
  assumes "dense_view width height camera" "dense_view width height neutralized" "dense_view width height out"
    and "width * height * 4 < 2 ^ 31" and "length neutral = 3" "length (cr_camera_to_xyz_d50 r) = 9"
    and "required_camera_to_xyz_blob (Some (as_bytes (map fp_to_f32 (cr_camera_to_xyz_d50 r)))) = Inr (Inr m)"
  shows "\<exists>mid host. wb_filter [Some camera] [Some neutralized] (Some (pack_wb neutral r)) = Inr (Ok, Some mid) \<and>
    colormatrix_filter [Some (neutralized\<lparr>hb_host := mid\<rparr>)] [Some out] (Some (pack_colormatrix m)) = Inr (Ok, Some host) \<and>
    list_all (\<lambda>p. element_at host (view_offset width p) =
      Inr (transformed (map fp_to_f32 (mul3 kXyzD65ToRec2020 (mul3 kD50ToD65 m))) (balanced neutral camera width) p))
      (samples width height)"
proof -
  from wb_filter_balances [OF assms(1,2,4-6)] obtain mid where
    mid: "wb_filter [Some camera] [Some neutralized] (Some (pack_wb neutral r)) = Inr (Ok, Some mid)"
      "length mid = length (hb_host neutralized)" "\<forall>p \<in> set (samples width height).
        element_at mid (view_offset width p) = Inr (balanced neutral camera width p)" by blast
  let ?mid = "neutralized\<lparr>hb_host := mid\<rparr>" and ?ws = "map fp_to_f32 (mul3 kXyzD65ToRec2020 (mul3 kD50ToD65 m))"
  have "dense_view width height ?mid" using assms(2) mid(2) by (simp add: dense_view_def)
  moreover have "length ?ws = 9" by (simp add: mul3_def)
  ultimately obtain host where host: "colormatrix_filter [Some ?mid] [Some out] (Some (pack_colormatrix m)) = Inr (Ok, Some host)"
    "\<forall>p \<in> set (samples width height). element_at host (view_offset width p) =
      Inr (transformed ?ws (\<lambda>p. half_of ?mid (view_offset width p)) p)"
    unfolding pack_colormatrix_def using colormatrix_filter_transforms [OF _ assms(3,4)] by blast
  have half: "half_of ?mid (view_offset width p) = balanced neutral camera width p" if "p \<in> set (samples width height)" for p
    using mid(3) that by (simp add: half_of_def)
  have "transformed ?ws (\<lambda>p. half_of ?mid (view_offset width p)) p = transformed ?ws (balanced neutral camera width) p"
    if "p \<in> set (samples width height)" for p
  proof -
    obtain x y c where p: "p = (x, y, c)" by (cases p)
    have "half_of ?mid (view_offset width (x, y, k)) = balanced neutral camera width (x, y, k)" if "k \<in> {0, 1, 2, c}" for k
      using that \<open>p \<in> set (samples width height)\<close> half [of "(x, y, k)"] unfolding p set_samples by auto
    then show ?thesis unfolding p by (rule transformed_cong)
  qed
  with host mid(1) show ?thesis by (auto simp: list_all_iff)
qed

text \<open>The node and the shared header calibrate alike; the node also checks the neutral values of the file.\<close>

lemma dual_illuminant_params_iff:
  "dual_illuminant_params nan_sign as_shot cal = Inr r \<longleftrightarrow>
     valid_neutral as_shot \<and> interpolate_calibration nan_sign cal (map fp_of_f32 as_shot) = Inr r"
  unfolding dual_illuminant_params_def interpolate_calibration_def need_metadata_def
  by (auto simp: bind_res_def split: sum.splits option.splits)

lemma dual_illuminant_matrix: "dual_illuminant_params nan_sign as_shot cal = Inr r \<Longrightarrow> length (cr_camera_to_xyz_d50 r) = 9"
  using interpolate_calibration_Inr camera_matrix_length by (metis dual_illuminant_params_iff)

section \<open>Grey world\<close>

text \<open>One pass of the loop that totals the channels, and of the loop that divides them.\<close>

definition add_pixel :: "image \<Rightarrow> nat \<Rightarrow> fp list \<Rightarrow> lens_stop + fp list" where
  "add_pixel pixels i totals =
     map_res (\<lambda>c. bind_res (get_sample pixels (i * 4 + c)) (\<lambda>v. Inr (dadd (totals ! c) (fp_of_f16 v)))) [0, 1, 2]"

definition estimate_neutral_from_pixels :: "image \<Rightarrow> nat \<Rightarrow> lens_stop + fp list sdk_result" where
  "estimate_neutral_from_pixels pixels pixel_count =
     bind_res (fold_res (add_pixel pixels) [0..<pixel_count] (replicate 3 (fp_of_int 0))) (\<lambda>totals.
     Inr (if list_all (\<lambda>s. \<not> (\<not> fp_isfinite s \<or> fp_le s (fp_of_int 0))) totals
          then Inr [fp_cast single (ddiv (totals ! 0) (totals ! 1)), fp_of_int 1, fp_cast single (ddiv (totals ! 2) (totals ! 1))]
          else need_metadata ''wb.greyworld invalid channel mean''))"

definition apply_pixel :: "image \<Rightarrow> fp list \<Rightarrow> nat \<Rightarrow> image \<Rightarrow> lens_stop + image" where
  "apply_pixel input neutral i out =
     fold_res (\<lambda>c out. bind_res (get_sample input (i * 4 + c)) (\<lambda>v.
       put_sample (i * 4 + c) (if c < 3 then fp_to_f16 (sdiv (fp_of_f16 v) (neutral ! c)) else v) out)) [0, 1, 2, 3] out"

definition apply_neutral :: "image \<Rightarrow> image \<Rightarrow> nat \<Rightarrow> fp list \<Rightarrow> lens_stop + image" where
  "apply_neutral input out pixel_count neutral = fold_res (apply_pixel input neutral) [0..<pixel_count] out"

definition channel_sum :: "image \<Rightarrow> nat \<Rightarrow> nat \<Rightarrow> fp" where
  "channel_sum pixels n c = fold (\<lambda>i s. dadd s (fp_of_f16 (pixels ! (i * 4 + c)))) [0..<n] (fp_of_int 0)"

definition neutral_sample :: "image \<Rightarrow> fp list \<Rightarrow> nat \<Rightarrow> u16" where
  "neutral_sample input neutral j =
     (if j mod 4 < 3 then fp_to_f16 (sdiv (fp_of_f16 (input ! j)) (neutral ! (j mod 4))) else input ! j)"

lemma channel_sums:
  assumes "4 * n \<le> length pixels"
  shows "fold_res (add_pixel pixels) [0..<n] (replicate 3 (fp_of_int 0)) = Inr (map (channel_sum pixels n) [0, 1, 2])"
  using assms
proof (induction n)
  case 0
  show ?case by (simp add: channel_sum_def numeral_3_eq_3)
next
  case (Suc n)
  then show ?case by (simp add: fold_res_append add_pixel_def get_sample_def channel_sum_def)
qed

lemma put_sample_front:
  assumes "j < length out"
  shows "put_sample j (f j) (map f [0..<j] @ drop j out) = Inr (map f [0..<Suc j] @ drop (Suc j) out)"
proof -
  have "drop j out = out ! j # drop (Suc j) out" using assms by (simp add: Cons_nth_drop_Suc)
  then show ?thesis using assms by (simp add: put_sample_def list_update_append)
qed

lemma apply_pixel_front:
  assumes "4 * n + 4 \<le> length input" "4 * n + 4 \<le> length out"
  shows "apply_pixel input neutral n (map (neutral_sample input neutral) [0..<4 * n] @ drop (4 * n) out) =
    Inr (map (neutral_sample input neutral) [0..<4 * n + 4] @ drop (4 * n + 4) out)"
proof -
  let ?f = "neutral_sample input neutral"
  have step: "bind_res (get_sample input (n * 4 + c)) (\<lambda>v.
      put_sample (n * 4 + c) (if c < 3 then fp_to_f16 (sdiv (fp_of_f16 v) (neutral ! c)) else v)
        (map ?f [0..<4 * n + c] @ drop (4 * n + c) out)) = Inr (map ?f [0..<4 * n + Suc c] @ drop (4 * n + Suc c) out)"
    if "c < 4" for c
  proof -
    have m: "(4 * n + c) mod 4 = c" using that by simp
    have v: "(if c < 3 then fp_to_f16 (sdiv (fp_of_f16 (input ! (4 * n + c))) (neutral ! c)) else input ! (4 * n + c)) = ?f (4 * n + c)"
      unfolding neutral_sample_def m ..
    have get: "get_sample input (4 * n + c) = Inr (input ! (4 * n + c))" using that assms by (simp add: get_sample_def)
    show ?thesis
      unfolding mult.commute [of n 4] get bind_res_Inr v add_Suc_right using that assms by (intro put_sample_front) simp
  qed
  from step [of 0] step [of 1] step [of 2] step [of 3] show ?thesis
    by (simp add: apply_pixel_def numeral_eq_Suc)
qed

lemma apply_neutral_front:
  assumes "4 * n \<le> length input" "4 * n \<le> length out"
  shows "apply_neutral input out n neutral = Inr (map (neutral_sample input neutral) [0..<4 * n] @ drop (4 * n) out)"
  using assms
proof (induction n)
  case (Suc n)
  with apply_pixel_front [of n input out neutral] show ?case
    by (simp add: apply_neutral_def fold_res_append add.commute)
qed (simp add: apply_neutral_def)

text \<open>
  Grey world on an image whose buffers hold all its pixels: the estimate of the neutral vector reads inside the
  image and fails exactly when the sum of a colour channel is not a finite positive number; otherwise the division
  stays inside both images, changes every colour sample to its quotient with the neutral value of its channel, copies
  the fourth channel and leaves the rest of the output alone.
\<close>

lemma greyworld_balances:
  assumes "4 * n \<le> length input" "4 * n \<le> length out"
  shows "\<exists>res. estimate_neutral_from_pixels input n = Inr res \<and>
    (case res of
       Inl e \<Rightarrow> er_code e = status_int NeedMetadata \<and>
         list_ex (\<lambda>c. \<not> fp_isfinite (channel_sum input n c) \<or> fp_le (channel_sum input n c) (fp_of_int 0)) [0, 1, 2]
     | Inr neutral \<Rightarrow>
         list_all (\<lambda>c. fp_isfinite (channel_sum input n c) \<and> fp_less (fp_of_int 0) (channel_sum input n c)) [0, 1, 2] \<and>
         neutral = map (\<lambda>c. if c = 1 then fp_of_int 1
           else fp_cast single (ddiv (channel_sum input n c) (channel_sum input n 1))) [0, 1, 2] \<and>
         apply_neutral input out n neutral = Inr (map (neutral_sample input neutral) [0..<4 * n] @ drop (4 * n) out))"
proof -
  have pos: "fp_isfinite s \<and> \<not> fp_le s (fp_of_int 0) \<longleftrightarrow> fp_isfinite s \<and> fp_less (fp_of_int 0) s" for s
    by (cases s) (simp_all add: fp_isfinite_def fp_le_def fp_of_int_def)
  show ?thesis
    using channel_sums [OF assms(1)] apply_neutral_front [OF assms] pos
    by (auto simp: estimate_neutral_from_pixels_def need_metadata_def)
qed

lemma greyworld_example:
  "\<exists>neutral. estimate_neutral_from_pixels [0x3C00, 0x4000, 0x3C00, 0x3C00] 1 = Inr (Inr neutral) \<and>
     apply_neutral [0x3C00, 0x4000, 0x3C00, 0x3C00] [0, 0, 0, 0] 1 neutral = Inr [0x4000, 0x4000, 0x4000, 0x3C00]"
proof -
  let ?img = "[0x3C00, 0x4000, 0x3C00, 0x3C00] :: u16 list" and ?out = "[0, 0, 0, 0] :: u16 list"
  let ?n = "[FpFin False 8388608 (- 24), FpFin False 1 0, FpFin False 8388608 (- 24)]"
  have est: "estimate_neutral_from_pixels ?img 1 = Inr (Inr ?n)" by code_simp
  have vals: "map (neutral_sample ?img ?n) [0..<4 * 1] @ drop (4 * 1) ?out = [0x4000, 0x4000, 0x4000, 0x3C00]" by code_simp
  have "apply_neutral ?img ?out 1 ?n = Inr (map (neutral_sample ?img ?n) [0..<4 * 1] @ drop (4 * 1) ?out)"
    using greyworld_balances [of 1 ?img ?out] unfolding est by auto
  with est vals show ?thesis by auto
qed

section \<open>Instances\<close>

definition demo_levels :: calibration_data where
  "demo_levels = \<lparr>cd_has_cfa = True, cd_cfa_repeat = [2, 2], cd_cfa_pattern = [0, 1, 1, 2], cd_black_level = [0, 0, 0, 0],
     cd_white_level = 4095, cd_linearization_table = [0, 16, 64, 4095], cd_color_matrix1 = None, cd_color_matrix2 = None,
     cd_forward_matrix1 = None, cd_forward_matrix2 = None, cd_calibration_illuminant1 = 0, cd_calibration_illuminant2 = 0,
     cd_noise_profile = []\<rparr>"

definition demo_plane :: "byte list \<Rightarrow> halide_buffer" where
  "demo_plane host = \<lparr>hb_host = host, hb_type = (HalideUInt, 16), hb_host_dirty = False,
     hb_dims = [\<lparr>hdim_min = 0, hdim_extent = 2, hdim_stride = 1\<rparr>, \<lparr>hdim_min = 0, hdim_extent = 1, hdim_stride = 2\<rparr>]\<rparr>"

text \<open>Two samples, 1 and 200: the second one lies beyond the table and becomes the white level.\<close>

theorem raw_stages_witness:
  "\<exists>mid host. linearize_filter [Some (demo_plane [1, 0, 200, 0])] [Some (demo_plane (replicate 8 0))]
       (Some (pack_linearize [0, 16, 64, 4095])) = Inr (Ok, Some mid) \<and>
     levels_filter [Some (demo_plane mid)] [Some (demo_plane (replicate 8 0))]
       (Some (pack_levels [0, 0, 0, 0] 4095 [0, 1, 1, 2])) = Inr (Ok, Some host) \<and>
     float_at host 1 = Inr 0x3F800000"
proof -
  let ?raw = "demo_plane [1, 0, 200, 0]" and ?plane = "demo_plane (replicate 8 0)"
  have dense: "dense_raw 2 1 ?raw" "dense_plane 2 1 ?plane"
    by (simp_all add: dense_raw_def dense_plane_def demo_plane_def)
  have block: "levels_block demo_levels = Inr (pack_levels [0, 0, 0, 0] 4095 [0, 1, 1, 2])"
    by (simp add: levels_block_def demo_levels_def)
  have spans: "spans_positive [0, 0, 0, 0] 4095 [0, 1, 1, 2]" by code_simp
  have "(1, 0) \<in> set (positions 2 1)" by (simp add: set_positions)
  moreover have "level_value (level_black [0, 0, 0, 0] [0, 1, 1, 2] (1, 0)) 4095
      (linear_value [0, 16, 64, 4095] (half_of ?raw (raw_offset 2 (1, 0)))) = 0x3F800000" by code_simp
  moreover have "demo_plane (replicate 8 0) \<lparr>hb_host := mid\<rparr> = demo_plane mid" for mid by (simp add: demo_plane_def)
  ultimately show ?thesis
    using raw_stages [OF dense(1) dense(2) dense(2), of demo_levels] block spans
    by (fastforce simp: demo_levels_def list_all_iff raw_offset_def)
qed

definition demo_view :: "byte list \<Rightarrow> halide_buffer" where
  "demo_view host = \<lparr>hb_host = host, hb_type = (HalideUInt, 16), hb_host_dirty = False,
     hb_dims = [\<lparr>hdim_min = 0, hdim_extent = 1, hdim_stride = 4\<rparr>, \<lparr>hdim_min = 0, hdim_extent = 1, hdim_stride = 4\<rparr>,
       \<lparr>hdim_min = 0, hdim_extent = 4, hdim_stride = 1\<rparr>]\<rparr>"

definition demo_result :: calibration_result where
  "demo_result = \<lparr>cr_camera_to_xyz_d50 = map fp_of_int [1, 0, 0, 0, 1, 0, 0, 0, 1], cr_scene_cct = fp_of_int 5000,
     cr_blend_weight = fp_of_int 1\<rparr>"

text \<open>A pixel with the alpha value 1 keeps it.\<close>

theorem colour_stages_witness:
  "\<exists>mid host. wb_filter [Some (demo_view [0, 60, 0, 60, 0, 60, 0, 60])] [Some (demo_view (replicate 8 0))]
       (Some (pack_wb [0x3F000000, 0x3F800000, 0x3F000000] demo_result)) = Inr (Ok, Some mid) \<and>
     colormatrix_filter [Some (demo_view mid)] [Some (demo_view (replicate 8 0))]
       (Some (pack_colormatrix (map fp_of_f32 (map fp_to_f32 (cr_camera_to_xyz_d50 demo_result))))) = Inr (Ok, Some host) \<and>
     element_at host 3 = Inr 0x3C00"
proof -
  let ?camera = "demo_view [0, 60, 0, 60, 0, 60, 0, 60]" and ?view = "demo_view (replicate 8 0)"
  let ?m = "map fp_of_f32 (map fp_to_f32 (cr_camera_to_xyz_d50 demo_result))"
  have dense: "dense_view 1 1 ?camera" "dense_view 1 1 ?view" by (simp_all add: dense_view_def demo_view_def)
  have blob: "required_camera_to_xyz_blob (Some (as_bytes (map fp_to_f32 (cr_camera_to_xyz_d50 demo_result)))) = Inr (Inr ?m)"
    by code_simp
  have "(0, 0, 3) \<in> set (samples 1 1)" by (simp add: set_samples)
  moreover have "half_of ?camera 3 = 0x3C00" by code_simp
  moreover have "demo_view (replicate 8 0) \<lparr>hb_host := mid\<rparr> = demo_view mid" for mid by (simp add: demo_view_def)
  ultimately show ?thesis
    using colour_stages [OF dense(1) dense(2) dense(2) _ _ _ blob, of "[0x3F000000, 0x3F800000, 0x3F000000]"]
    by (fastforce simp: demo_result_def list_all_iff view_offset_def transformed_def balanced_def)
qed

end
