(* ===== verification/Spec2Isabelle.thy ===== *)
theory Spec2Isabelle
  imports Memory_Plan Pipeline_Run Opcode_List2 Opcode_List3 Dng_Reader Half_Float Host_Context
    Compute_Context
    Editor_Protocol Editor_Debounce Editor_Session Editor_Static Editor_Lifecycle
    Lut3d Icc_Writer Cli Sdk_Dispatch Lens_Pack Lens_Patch Gain_Map_Node Raw_Filters
begin

text \<open>
  Verification development of cpipe, a raw image pipeline: a runtime that loads a JSON description of a
  graph of processing nodes, checks it, plans buffers and precisions and runs the nodes, which are
  plugins behind a C interface; a reader for DNG files; loaders and writers for colour data; and an
  editor server with its command line.

  \<^bold>\<open>Conventions.\<close> A C++ struct is a record, an enum a datatype, a machine integer a word of its width.
  \<open>std::size_t\<close> values that count elements of a container are natural numbers; where an expression can
  wrap, it is computed on words. A float is its bit pattern; \<open>Float_Bits\<close> gives single precision
  rounding and the operations the parser uses. A pointer is an option. A call that can fail returns a
  sum whose left side says how: a memory fault (\<open>fault\<close>: a read or write outside a container), a thrown
  exception, a failed assertion, a status with a message. Code that is not part of the repository is a
  parameter: the JSON library (records \<open>json_api\<close>, \<open>param_api\<close>, \<open>editor_api\<close> and \<open>cli_api\<close> of accessors;
  the only law assumed of it, \<open>dump_law\<close>, says which values cannot be dumped), LibRaw, the allocator, compiled filters, plugin code, sockets, the WebP
  encoder, the file system, the clock and the base ICC profile. \<open>Json_Instance\<close> is a concrete JSON type
  with which properties are applied to concrete documents.

  \<^bold>\<open>Theories and sources\<close> (paths below \<open>src/\<close>).

  \<^item> \<open>Prelude\<close>: machine types, the composition \<open>bind_res\<close> of code that may stop early with its loops
    \<open>fold_res\<close> and \<open>map_res\<close>, shared lemmas and lemma collections.

  \<^item> \<open>Core_Types\<close>, \<open>Ordered_Map\<close>, \<open>Buffer_Metadata\<close>, \<open>Cpu_Buffer\<close>, \<open>Handles\<close>: the core of
    \<open>include/cpipe/core\<close> and \<open>src/cpipe/core\<close>. Status codes, pixel formats, layouts with their size in
    64 bits, metadata blocks, the two-phase \<open>MetadataBuilder\<close> (locale \<open>builder_update\<close>: what an update of
    an unfrozen and of a frozen builder does, interpreted for every setter), \<open>std::map\<close> as a sorted
    association list (locale \<open>std_map\<close>), host buffers with their lock protocol (locale \<open>ibuffer\<close>), and
    the handles of the C interface.

  \<^item> \<open>Topological_Order\<close>, \<open>Memory_Planner\<close>, \<open>Memory_Plan\<close>: \<open>src/cpipe/runtime/MemoryPlanner.cpp\<close>. Kahn's
    algorithm, live ranges, interference graph and first-fit colouring. Shown: the order respects every
    edge, buffers needed at the same time have different slots, the number of slots is the maximal number
    of buffers needed at once, and the reported peak is the input plus the largest output of every slot. As in the
    code, an output no longer counts at the step of its last reader.

  \<^item> \<open>Precision_Planner\<close>: \<open>PrecisionPlanner.cpp\<close>. Validation of edges and insertion of conversion nodes.
    Shown: afterwards every edge is compatible or goes through the right conversion, the graph stays
    acyclic, and removing the new nodes gives back the old edges.

  \<^item> \<open>Plugin\<close>, \<open>Pipeline\<close>, \<open>Pipeline_Load\<close>, \<open>Scheduler\<close>, \<open>Pipeline_Run\<close>: \<open>Registry.cpp\<close>, \<open>Pipeline.cpp\<close>
    and \<open>Scheduler.cpp\<close>. Loading a document with all its checks; the wiring of the task graph, its tasks, and the contract
    of the executor as a step relation over all interleavings; the life cycle of a node (create, process,
    destroy). Shown: what a loaded pipeline guarantees, that loading is all or nothing, that nodes run once and
    only after their dependencies have succeeded, what status a run returns, and that a scheduled run of a
    pipeline is the sequential run of the source and the nodes.

  \<^item> \<open>Host_Context\<close>, \<open>Compute_Context\<close>, \<open>Half_Float\<close>: \<open>HostContext.cpp\<close>, \<open>ComputeContext.cpp\<close>,
    \<open>HalideBufferAdapter.cpp\<close>, \<open>HalideFilterRegistry.cpp\<close>. The functions plugins call. Shown: the
    builder suite refines the metadata builder, filters run on exactly the buffers they may touch and
    every lock is given back, and the half precision conversions are inverse on all values but NaN.

  \<^item> \<open>Sdk\<close>, \<open>Sdk_Dispatch\<close>: \<open>include/cpipe/sdk/sdk.hpp\<close>, the C++ layer over the suites, with the interface of the
    metadata suite as the locale \<open>metadata_provider\<close>, interpreted on the functions of \<open>Host_Context\<close>. Shown: what
    is read is what is stored, and every instance of a node class is returned, destroyed or leaked by a
    \<open>create\<close> that throws.

  \<^item> \<open>Byte_Reader\<close>, \<open>Float_Bits\<close>, \<open>Float_Bounds\<close>, \<open>Opcode_List2\<close>, \<open>Opcode_List3\<close>, \<open>Tiff_Parser\<close>,
    \<open>Tiff_Safety\<close>, \<open>Dng_Reader\<close>: \<open>src/cpipe/ingest\<close>. The locale \<open>codec\<close> relates a reader to the encoder
    of its format and is interpreted for every record of the opcode lists; \<open>params_parser\<close> does the same
    for the parameters of an opcode. Shown: no read outside the input, acceptance of exactly the
    well-formed encodings, the shape of accepted metadata, and what the decoded buffer holds.

  \<^item> \<open>Text_Stream\<close>, \<open>Fs_Path\<close>, \<open>Lut3d\<close>, \<open>Icc_Writer\<close>: formatted input from streams, path operations,
    \<open>src/cpipe/color/Cube3dLutLoader.cpp\<close> with the parameter block of \<open>src/cpipe/nodes/color\<close>, and
    \<open>IccV4_4Writer.cpp\<close>. Shown: loading never leaves its vectors and the dispatcher of the LUT node gets
    exactly the loaded values; the written profile reads back as the tags it was made of.

  \<^item> \<open>Param_Blob\<close>, \<open>Ieee_Arith\<close>, \<open>Lens_Opcode3\<close>, \<open>Lens_Pack\<close>, \<open>Lens_Patch\<close>: parameter blocks as bytes, IEEE
    arithmetic in the three formats, rounded operation by operation, and the lens correction node
    (\<open>src/cpipe/nodes/lens/dng_opcode_list_3.cpp\<close> and \<open>dng_opcode_list_3_dispatch.cpp\<close>). Shown: whatever
    the parameter block holds the filter stays inside its memory, a packed block has the effect of the
    opcodes it was made of (a reference written over the parameters of the opcodes), the repair of bad pixels changes exactly the listed pixels, and a warp whose
    centre is a NaN ends in an undefined cast.

  \<^item> \<open>Gain_Map_Node\<close>: the lens shading node, \<open>shading_gainmap.cpp\<close> and \<open>shading_gainmap_dispatch.cpp\<close> in the same
    directory. Shown: for all gain maps the parser of \<open>Opcode_List2\<close> returns and the node accepts, the
    filter reads back what was packed, stays inside its memory and applies the interpolated gains.

  \<^item> \<open>Ieee_Bounds\<close>, \<open>White_Balance\<close>: bounds that rounded operations keep, and
    \<open>src/cpipe/nodes/wb/WbMetadata.hpp\<close>, whose functions \<open>wb_dual_illuminant.cpp\<close> repeats word for word: the search for
    the colour temperature of the scene, the blend of two calibrations and the blobs. Shown: the search returns the
    best temperature it tried and stays finite even when errors are infinite or no numbers, and the blend weight
    lies between 0 and 1. The sign of a NaN, which \<open>std::copysign\<close> reads, is a parameter.

  \<^item> \<open>Raw_Filters\<close>: the filters of linearisation, black level, white balance and the colour matrix
    (\<open>linearize_dng_lut.cpp\<close>, \<open>blacklevel_dng_levels.cpp\<close>, \<open>wb_dual_illuminant.cpp\<close>, \<open>colormatrix_dng_to_working.cpp\<close> and
    their dispatchers) with the parameter blocks, and the pixel loops of \<open>greyworld_auto.cpp\<close>. The locale
    \<open>element_store\<close> states what a loop that writes elements leaves behind and is interpreted for 16-bit and 32-bit
    elements. Shown: the value of every sample after linearisation and levels, and after white balance and the
    colour matrix.

  \<^item> \<open>Editor_Protocol\<close>, \<open>Editor_Server\<close>, \<open>Editor_Session\<close>, \<open>Editor_Debounce\<close>, \<open>Editor_Static\<close>,
    \<open>Editor_Lifecycle\<close>: \<open>src/cpipe/server\<close>. Frames, the session with its request and message handlers,
    their \<open>try\<close> and \<open>catch\<close> blocks and the exceptions that leave them, the debounce thread with its condition
    variable, its notifications and the deferred callbacks as a step relation with a clock (locale
    \<open>debounce_progress\<close>: a fair schedule reaches the goal), static files, and the start and stop protocol of
    two threads. Shown: what every reachable session satisfies, exactly which events end the loop, that no
    parameter change is lost, which files are served, and when a start can return.

  \<^item> \<open>Cli\<close>: the serve command of \<open>src/cpipe/cli/main.cpp\<close> with its sources of options.

  \<^bold>\<open>Loops.\<close> Every function terminates and none uses fuel: recursion is structural, or has a termination
  proof (the spi3d rows by the length of the remaining text, the padding loop by the distance to the
  next multiple of four, the integer square root by its argument). Concurrent code is a step relation; that it comes to an end is proved as such.

  \<^bold>\<open>Not modelled.\<close> The Vulkan device plane, its synchronisation objects and OpenColorIO on Vulkan: nearly
  every line is a call of a driver. The HEIF reader and writer: calls of libheif. The Halide generators
  under \<open>src/cpipe/nodes\<close>: a staged language, outside the semantics of C++; of the filters written in
  C++ those of the LUT, the lens correction, the lens shading, the linearisation, the level, the white balance and
  the colour matrix node are modelled; the entry points of the nodes, which check formats and take locks, are not. The inference context: a
  stub. The argument parser of the command line and the health and schema routes of the editor
  server, which send constant texts.
\<close>

end
